(* ===== verification/Prelude.thy ===== *)
theory Prelude
  imports Main "HOL-Library.Multiset"
begin

text \<open>
  Shared vocabulary of the development: the names of the model's basic types, the
  collections the component theories add their facts to, and the generic lemmas on
  lists that several components use (stable sorting under a filter, the first minimum
  of a list, loops that delete while they iterate).
\<close>

section \<open>Names and collections\<close>

type_synonym jsstring = string
  \<comment> \<open>a JavaScript string whose UTF-16 code units are all below 256\<close>

type_synonym time_ms = int
  \<comment> \<open>what \<open>Date.now()\<close> returns: epoch milliseconds\<close>

named_theorems js_simps \<open>equations of the JavaScript library layer\<close>
named_theorems inv_intros \<open>operations preserve their component's invariant\<close>
named_theorems frame_simps \<open>fields an operation does not write\<close>

section \<open>Lists\<close>

lemma distinct_map_fst_filter [intro]:
  "distinct (map fst xs) \<Longrightarrow> distinct (map fst (filter P xs))"
  by (rule distinct_map_filter)

lemma map_of_filter_key:
  "map_of (filter (\<lambda>p. Q (fst p)) xs) k = (if Q k then map_of xs k else None)"
  by (induction xs) auto

lemma map_of_filter_pair:
  assumes "distinct (map fst xs)"
  shows "map_of (filter P xs) k =
    (case map_of xs k of None \<Rightarrow> None | Some v \<Rightarrow> if P (k, v) then Some v else None)"
  using assms
proof (induction xs)
  case Nil
  then show ?case by simp
next
  case (Cons x xs)
  obtain a b where x: "x = (a, b)" by (cases x)
  from Cons.prems x have "map_of xs a = None"
    by (auto simp: map_of_eq_None_iff)
  with Cons x show ?case by auto
qed

lemma filter_sort_key:
  "filter P (sort_key f xs) = sort_key f (filter P xs)"
  by (rule filter_sort)

lemma sorted_map_filter [intro]:
  "sorted (map f xs) \<Longrightarrow> sorted (map f (filter P xs))"
  by (rule sorted_filter)

lemma sorted_nth_le: "sorted xs \<Longrightarrow> i \<le> j \<Longrightarrow> j < length xs \<Longrightarrow> xs ! i \<le> xs ! j"
  by (rule sorted_nth_mono)

lemma filter_length_less: "x \<in> set xs \<Longrightarrow> \<not> P x \<Longrightarrow> length (filter P xs) < length xs"
  by (rule length_filter_less)

lemma filter_neq_absent: "n \<notin> set xs \<Longrightarrow> filter (\<lambda>m. m \<noteq> n) xs = xs"
  by (induction xs) auto

lemma find_append: "find P (xs @ ys) = (case find P xs of None \<Rightarrow> find P ys | Some x \<Rightarrow> Some x)"
  by (induction xs) auto

lemma find_filter_keep:
  "find P xs = Some x \<Longrightarrow> Q x \<Longrightarrow> find P (filter Q xs) = Some x"
  by (induction xs) (auto split: if_splits)

lemma find_None_filter: "find P xs = None \<Longrightarrow> find P (filter Q xs) = None"
  by (induction xs) (auto split: if_splits)

lemma find_SomeD: "find P xs = Some x \<Longrightarrow> x \<in> set xs \<and> P x"
  by (induction xs) (auto split: if_splits)

subsection \<open>The first minimum of a list\<close>

text \<open>
  Three loops of the program keep the best candidate seen so far, replaced only by a
  strictly smaller one: a scan from the front that keeps the earliest minimum.
\<close>

fun first_min_from :: "('a \<Rightarrow> nat) \<Rightarrow> 'a \<Rightarrow> 'a list \<Rightarrow> 'a" where
  "first_min_from f x [] = x"
| "first_min_from f x (y # ys) = first_min_from f (if f y < f x then y else x) ys"

definition first_min :: "('a \<Rightarrow> nat) \<Rightarrow> 'a list \<Rightarrow> 'a option" where
  "first_min f xs = (case xs of [] \<Rightarrow> None | x # ys \<Rightarrow> Some (first_min_from f x ys))"

definition is_first_min :: "('a \<Rightarrow> nat) \<Rightarrow> 'a list \<Rightarrow> 'a \<Rightarrow> bool" where
  "is_first_min f xs x \<longleftrightarrow>
     (\<exists>as bs. xs = as @ x # bs \<and> (\<forall>a \<in> set as. f x < f a) \<and> (\<forall>b \<in> set bs. f x \<le> f b))"

lemma is_first_min_Cons_less:
  "is_first_min f (y # ys) m \<Longrightarrow> f y < f x \<Longrightarrow> is_first_min f (x # y # ys) m"
proof -
  assume m: "is_first_min f (y # ys) m" and less: "f y < f x"
  then obtain as bs where s: "y # ys = as @ m # bs" "\<forall>a \<in> set as. f m < f a" "\<forall>b \<in> set bs. f m \<le> f b"
    by (auto simp: is_first_min_def)
  then have "f m \<le> f y" by (cases as) auto
  with less s show ?thesis
    unfolding is_first_min_def by (intro exI [of _ "x # as"] exI [of _ bs]) auto
qed

lemma is_first_min_Cons_ge:
  assumes m: "is_first_min f (x # ys) m" and ge: "f x \<le> f y"
  shows "is_first_min f (x # y # ys) m"
proof -
  from m obtain as bs where s: "x # ys = as @ m # bs" "\<forall>a \<in> set as. f m < f a" "\<forall>b \<in> set bs. f m \<le> f b"
    by (auto simp: is_first_min_def)
  show ?thesis
  proof (cases as)
    case Nil
    with s ge show ?thesis
      unfolding is_first_min_def by (intro exI [of _ "[]"] exI [of _ "y # bs"]) auto
  next
    case (Cons a as')
    with s ge show ?thesis
      unfolding is_first_min_def by (intro exI [of _ "x # y # as'"] exI [of _ bs]) auto
  qed
qed

lemma first_min_from_split: "is_first_min f (x # ys) (first_min_from f x ys)"
proof (induction ys arbitrary: x)
  case Nil
  show ?case unfolding is_first_min_def by (rule exI [of _ "[]"]) simp
next
  case (Cons y ys)
  then show ?case
    by (simp add: is_first_min_Cons_less is_first_min_Cons_ge)
qed

lemma first_min_is_first_min: "first_min f xs = Some x \<Longrightarrow> is_first_min f xs x"
  by (auto simp: first_min_def intro: first_min_from_split split: list.splits)

lemma first_min_None [simp]: "first_min f xs = None \<longleftrightarrow> xs = []"
  by (simp add: first_min_def split: list.splits)

lemma first_min_Nil [simp]: "first_min f [] = None"
  by simp

lemma is_first_minD:
  assumes "is_first_min f xs x"
  shows "x \<in> set xs" and "y \<in> set xs \<Longrightarrow> f x \<le> f y"
  using assms by (auto simp: is_first_min_def dest!: bspec intro: less_imp_le)

lemma first_min_mem: "first_min f xs = Some x \<Longrightarrow> x \<in> set xs"
  by (blast dest: first_min_is_first_min is_first_minD)

lemma first_min_le: "first_min f xs = Some x \<Longrightarrow> y \<in> set xs \<Longrightarrow> f x \<le> f y"
  by (blast dest: first_min_is_first_min is_first_minD)

section \<open>Binary search\<close>

text \<open>
  The program's two binary searches narrow \<open>[lo, hi)\<close> to the first index that is not
  \<open>below\<close> the target; \<open>mid\<close> is \<open>(lo + hi) >>> 1\<close>.
\<close>

function bsearch :: "(nat \<Rightarrow> bool) \<Rightarrow> nat \<Rightarrow> nat \<Rightarrow> nat" where
  "bsearch below lo hi = (if lo < hi
     then let mid = (lo + hi) div 2 in
       if below mid then bsearch below (mid + 1) hi else bsearch below lo mid
     else lo)"
  by pat_completeness auto
termination
  by (relation "measure (\<lambda>(below, lo, hi). hi - lo)") (auto simp: less_Suc_eq_le)

declare bsearch.simps [simp del]

lemma bsearch_correct:
  assumes "lo \<le> hi" and "\<And>i j. lo \<le> i \<Longrightarrow> i \<le> j \<Longrightarrow> j < hi \<Longrightarrow> below j \<Longrightarrow> below i"
  shows "lo \<le> bsearch below lo hi \<and> bsearch below lo hi \<le> hi \<and>
    (\<forall>i. lo \<le> i \<and> i < bsearch below lo hi \<longrightarrow> below i) \<and>
    (\<forall>i. bsearch below lo hi \<le> i \<and> i < hi \<longrightarrow> \<not> below i)"
  using assms
proof (induction below lo hi rule: bsearch.induct)
  case (1 below lo hi)
  let ?mid = "(lo + hi) div 2"
  show ?case
  proof (cases "lo < hi")
    case False
    then have "bsearch below lo hi = lo"
      by (simp add: bsearch.simps [of below lo hi])
    with False "1.prems"(1) show ?thesis by auto
  next
    case True
    then have mid: "lo \<le> ?mid" "?mid < hi" by auto
    show ?thesis
    proof (cases "below ?mid")
      case True
      have b: "below i" if "lo \<le> i" "i \<le> ?mid" for i
        using "1.prems"(2) [OF that mid(2)] True .
      have "?mid + 1 \<le> bsearch below (?mid + 1) hi \<and> bsearch below (?mid + 1) hi \<le> hi \<and>
          (\<forall>i. ?mid + 1 \<le> i \<and> i < bsearch below (?mid + 1) hi \<longrightarrow> below i) \<and>
          (\<forall>i. bsearch below (?mid + 1) hi \<le> i \<and> i < hi \<longrightarrow> \<not> below i)"
        using \<open>lo < hi\<close> True mid "1.prems"(2) by (intro "1.IH"(1)) auto
      with \<open>lo < hi\<close> True mid b show ?thesis
        by (simp add: bsearch.simps [of below lo hi] Let_def)
          (metis Suc_leI not_less_eq_eq le_trans not_le_imp_less)
    next
      case False
      have nb: "\<not> below i" if "?mid \<le> i" "i < hi" for i
        using "1.prems"(2) [OF mid(1) that] False by blast
      have "lo \<le> bsearch below lo ?mid \<and> bsearch below lo ?mid \<le> ?mid \<and>
          (\<forall>i. lo \<le> i \<and> i < bsearch below lo ?mid \<longrightarrow> below i) \<and>
          (\<forall>i. bsearch below lo ?mid \<le> i \<and> i < ?mid \<longrightarrow> \<not> below i)"
        using \<open>lo < hi\<close> False mid "1.prems"(2) by (intro "1.IH"(2)) auto
      with \<open>lo < hi\<close> False mid nb show ?thesis
        by (simp add: bsearch.simps [of below lo hi] Let_def) (metis le_trans less_imp_le not_le_imp_less)
    qed
  qed
qed

lemma find_at_index:
  assumes "r \<le> length xs" and "\<forall>i < r. \<not> P (xs ! i)" and "\<forall>i. r \<le> i \<and> i < length xs \<longrightarrow> P (xs ! i)"
  shows "find P xs = (if r < length xs then Some (xs ! r) else None)"
proof (cases "r < length xs")
  case True
  with assms(2,3) have "find P xs = Some (xs ! r)"
    by (intro find_Some_iff [THEN iffD2] exI [of _ r]) auto
  with True show ?thesis by simp
next
  case False
  with assms(1,2) have "\<forall>i < length xs. \<not> P (xs ! i)" by simp
  then have "\<forall>x \<in> set xs. \<not> P x" by (metis in_set_conv_nth)
  with False show ?thesis by (simp add: find_None_iff)
qed

lemma bsearch_find:
  assumes "sorted (map f xs)" and "r = bsearch (\<lambda>i. f (xs ! i) < c) 0 (length xs)"
  shows "r \<le> length xs \<and> (\<forall>i < r. f (xs ! i) < c) \<and>
    find (\<lambda>x. c \<le> f x) xs = (if r < length xs then Some (xs ! r) else None)"
proof -
  have mono: "f (xs ! i) < c" if "i \<le> j" "j < length xs" "f (xs ! j) < c" for i j
    using sorted_nth_mono [OF assms(1), of i j] that by simp
  have "0 \<le> r \<and> r \<le> length xs \<and> (\<forall>i. 0 \<le> i \<and> i < r \<longrightarrow> f (xs ! i) < c) \<and>
      (\<forall>i. r \<le> i \<and> i < length xs \<longrightarrow> \<not> f (xs ! i) < c)"
    unfolding assms(2) by (rule bsearch_correct) (simp, blast intro: mono)
  then have r: "r \<le> length xs" "\<forall>i < r. f (xs ! i) < c" "\<forall>i. r \<le> i \<and> i < length xs \<longrightarrow> c \<le> f (xs ! i)"
    by (simp_all add: not_less)
  then have "find (\<lambda>x. c \<le> f x) xs = (if r < length xs then Some (xs ! r) else None)"
    by (intro find_at_index) (simp_all add: not_le)
  with r show ?thesis by blast
qed

end
