(* ===== verification/JsString.thy ===== *)
theory JsString
  imports Prelude
begin

text \<open>
  The string operations of the JavaScript standard library that the program calls:
  \<open>trim\<close>, \<open>split\<close> on a one-character separator, \<open>startsWith\<close>, the regular
  expression replacement \<open>replace(/\\/$/, "")\<close>, \<open>String(n)\<close> for a natural number and
  the UTF-8 encoding of \<open>Buffer.from(s)\<close>. A string is a list of code units below 256, so
  that no surrogate pairs occur and \<open>length\<close> is JavaScript's \<open>.length\<close>.
\<close>

section \<open>Trimming and splitting\<close>

definition is_ws :: "char \<Rightarrow> bool" where
  "is_ws c \<longleftrightarrow> of_char c \<in> {9, 10, 11, 12, 13, 32, 160 :: nat}"

definition trim :: "jsstring \<Rightarrow> jsstring" where
  "trim s = rev (dropWhile is_ws (rev (dropWhile is_ws s)))"

fun split_on :: "char \<Rightarrow> jsstring \<Rightarrow> jsstring list" where
  "split_on c [] = [[]]"
| "split_on c (x # xs) =
     (if x = c then [] # split_on c xs
      else (case split_on c xs of [] \<Rightarrow> [[x]] | w # ws \<Rightarrow> (x # w) # ws))"

definition startsWith :: "jsstring \<Rightarrow> jsstring \<Rightarrow> bool" where
  "startsWith s p \<longleftrightarrow> take (length p) s = p"

definition strip_slash :: "jsstring \<Rightarrow> jsstring" where
  \<comment> \<open>\<open>s.replace(/\\/$/, "")\<close>: one trailing slash, if there is one\<close>
  "strip_slash s = (if s \<noteq> [] \<and> last s = CHR ''/'' then butlast s else s)"

definition join_on :: "char \<Rightarrow> jsstring list \<Rightarrow> jsstring" where
  "join_on c ws = (case ws of [] \<Rightarrow> [] | w # ws' \<Rightarrow> w @ concat (map (\<lambda>v. c # v) ws'))"

lemma split_on_nonempty [simp]: "split_on c s \<noteq> []"
  by (cases s) (auto split: list.splits)

lemma split_on_no_sep: "w \<in> set (split_on c s) \<Longrightarrow> c \<notin> set w"
proof (induction s arbitrary: w)
  case Nil
  then show ?case by simp
next
  case (Cons x xs)
  obtain v vs where sp: "split_on c xs = v # vs"
    by (cases "split_on c xs") auto
  with Cons.IH have v: "c \<notin> set v" "\<And>u. u \<in> set vs \<Longrightarrow> c \<notin> set u" by auto
  from Cons.prems sp v show ?case by (auto split: if_splits)
qed

lemma split_on_no_sep_id: "c \<notin> set s \<Longrightarrow> split_on c s = [s]"
  by (induction s) auto

lemma split_on_sep: "c \<notin> set w \<Longrightarrow> split_on c (w @ c # s) = w # split_on c s"
  by (induction w) auto

lemma split_join:
  "ws \<noteq> [] \<Longrightarrow> (\<forall>w \<in> set ws. c \<notin> set w) \<Longrightarrow> split_on c (join_on c ws) = ws"
proof (induction ws)
  case Nil
  then show ?case by simp
next
  case (Cons w ws)
  show ?case
  proof (cases ws)
    case Nil
    with Cons.prems show ?thesis by (simp add: join_on_def split_on_no_sep_id)
  next
    case (Cons v vs)
    then have j: "join_on c (w # ws) = w @ c # join_on c ws"
      by (simp add: join_on_def)
    show ?thesis
      unfolding j using Cons.IH Cons.prems Cons by (simp add: split_on_sep)
  qed
qed

lemma dropWhile_idem: "dropWhile P (dropWhile P xs) = dropWhile P xs"
  by (induction xs) auto

lemma trim_no_ws_id:
  assumes "s \<noteq> []" and "\<not> is_ws (hd s)" and "\<not> is_ws (last s)"
  shows "trim s = s"
proof -
  from assms have "dropWhile is_ws s = s" and "dropWhile is_ws (rev s) = rev s"
    by (simp_all add: dropWhile_eq_self_iff hd_rev)
  then show ?thesis by (simp add: trim_def)
qed

lemma trim_Nil [simp]: "trim [] = []"
  by (simp add: trim_def)

lemma trim_eq_Nil: "trim s = [] \<longleftrightarrow> (\<forall>c \<in> set s. is_ws c)"
proof
  assume "trim s = []"
  then have "\<forall>c \<in> set (dropWhile is_ws s). is_ws c"
    by (simp add: trim_def)
  then have "dropWhile is_ws s = []"
    by (metis dropWhile_eq_Nil_conv hd_dropWhile hd_in_set)
  then show "\<forall>c \<in> set s. is_ws c" by simp
next
  assume "\<forall>c \<in> set s. is_ws c"
  then have "dropWhile is_ws s = []" by (simp add: dropWhile_eq_Nil_conv)
  then show "trim s = []" by (simp only: trim_def) simp
qed

lemma startsWith_Nil [simp]: "startsWith s []"
  by (simp add: startsWith_def)

lemma startsWith_append: "startsWith s p \<longleftrightarrow> (\<exists>r. s = p @ r)"
proof
  assume "startsWith s p"
  then have "s = p @ drop (length p) s"
    by (metis append_take_drop_id startsWith_def)
  then show "\<exists>r. s = p @ r" by blast
qed (auto simp: startsWith_def)

lemma strip_slash_Nil [simp]: "strip_slash [] = []"
  by (simp add: strip_slash_def)

lemma strip_slash_append [simp]: "strip_slash (s @ ''/'') = s"
  by (simp add: strip_slash_def)

lemma strip_slash_id: "s = [] \<or> last s \<noteq> CHR ''/'' \<Longrightarrow> strip_slash s = s"
  by (auto simp: strip_slash_def)

lemma set_strip_slash: "set (strip_slash s) \<subseteq> set s"
  by (auto simp: strip_slash_def dest: in_set_butlastD)

section \<open>Decimal numerals\<close>

definition digit_char :: "nat \<Rightarrow> char" where
  "digit_char d = char_of (48 + d)"

fun show_nat :: "nat \<Rightarrow> jsstring" where
  "show_nat n = (if n < 10 then [digit_char n] else show_nat (n div 10) @ [digit_char (n mod 10)])"

declare show_nat.simps [simp del]

definition is_digit :: "char \<Rightarrow> bool" where
  "is_digit c \<longleftrightarrow> (48 :: nat) \<le> of_char c \<and> of_char c \<le> (57 :: nat)"

definition digit_val :: "char \<Rightarrow> nat" where
  "digit_val c = of_char c - 48"

definition digits_val :: "jsstring \<Rightarrow> nat" where
  "digits_val s = foldl (\<lambda>n c. 10 * n + digit_val c) 0 s"

lemma digit_char_props:
  assumes "d < 10"
  shows "is_digit (digit_char d)" and "digit_val (digit_char d) = d"
proof -
  have "(48 + d) mod 256 = 48 + d" using assms by simp
  then have "of_char (digit_char d) = 48 + d"
    by (simp add: digit_char_def)
  with assms show "is_digit (digit_char d)" and "digit_val (digit_char d) = d"
    by (simp_all add: is_digit_def digit_val_def)
qed

lemma show_nat_nonempty [simp]: "show_nat n \<noteq> []"
  by (subst show_nat.simps) simp

lemma show_nat_digits: "c \<in> set (show_nat n) \<Longrightarrow> is_digit c"
proof (induction n rule: show_nat.induct)
  case (1 n)
  then show ?case
    by (cases "n < 10") (auto simp: show_nat.simps [of n] digit_char_props)
qed

lemma digits_val_snoc: "digits_val (s @ [c]) = 10 * digits_val s + digit_val c"
  by (simp add: digits_val_def)

lemma digits_val_show_nat [simp]: "digits_val (show_nat n) = n"
proof (induction n rule: show_nat.induct)
  case (1 n)
  show ?case
  proof (cases "n < 10")
    case True
    then show ?thesis
      by (simp add: show_nat.simps [of n] digits_val_def digit_char_props)
  next
    case False
    with 1 show ?thesis
      by (simp add: show_nat.simps [of n] digits_val_snoc digit_char_props)
  qed
qed

lemma show_nat_inject [simp]: "show_nat m = show_nat n \<longleftrightarrow> m = n"
  by (metis digits_val_show_nat)

section \<open>UTF-8\<close>

text \<open>
  The bytes of \<open>Buffer.from(s)\<close>: a code unit below 128 is one byte, one from 128 to 255
  is the two bytes of its UTF-8 encoding.
\<close>

definition utf8_char :: "char \<Rightarrow> nat list" where
  "utf8_char c = (let n = of_char c :: nat in
     if n < 128 then [n] else [192 + n div 64, 128 + n mod 64])"

definition utf8 :: "jsstring \<Rightarrow> nat list" where
  "utf8 s = concat (map utf8_char s)"

lemma utf8_char_cases:
  obtains (one) "utf8_char c = [of_char c]" "of_char c < (128 :: nat)"
  | (two) "utf8_char c = [192 + of_char c div 64, 128 + of_char c mod 64]" "\<not> of_char c < (128 :: nat)"
  by (cases "of_char c < (128 :: nat)") (auto simp: utf8_char_def Let_def)

lemma utf8_char_prefix_free:
  assumes "utf8_char c @ xs = utf8_char d @ ys"
  shows "c = d \<and> xs = ys"
proof -
  have "(of_char c :: nat) = of_char d \<and> xs = ys"
  proof (cases c rule: utf8_char_cases)
    case one
    with assms show ?thesis by (cases d rule: utf8_char_cases) auto
  next
    case two
    note c = two
    show ?thesis
    proof (cases d rule: utf8_char_cases)
      case one
      with assms c show ?thesis by auto
    next
      case two
      with assms c have "(of_char c :: nat) div 64 = of_char d div 64"
        "(of_char c :: nat) mod 64 = of_char d mod 64" "xs = ys" by auto
      then show ?thesis by (metis div_mult_mod_eq)
    qed
  qed
  then show ?thesis by simp
qed

lemma utf8_char_ne [simp]: "utf8_char c \<noteq> []"
  by (simp add: utf8_char_def Let_def)

lemma utf8_inject [simp]: "utf8 s = utf8 t \<longleftrightarrow> s = t"
proof
  show "utf8 s = utf8 t \<Longrightarrow> s = t"
  proof (induction s arbitrary: t)
    case Nil
    then show ?case by (cases t) (auto simp: utf8_def)
  next
    case (Cons c s)
    then obtain d t' where t: "t = d # t'"
      by (cases t) (auto simp: utf8_def)
    with Cons.prems have "utf8_char c @ utf8 s = utf8_char d @ utf8 t'"
      by (simp add: utf8_def)
    then have "c = d" "utf8 s = utf8 t'"
      using utf8_char_prefix_free by blast+
    with Cons.IH t show ?case by blast
  qed
qed simp

section \<open>Percent encoding\<close>

text \<open>\<open>encodeURIComponent\<close>: everything but letters, digits and \<open>- _ . ! ~ * ' ( )\<close> becomes the
  percent-encoded bytes of its UTF-8 form.\<close>

definition hex_digit :: "nat \<Rightarrow> char" where
  "hex_digit d = (if d < 10 then char_of (48 + d) else char_of (55 + d))"

definition hex_val :: "char \<Rightarrow> nat" where
  "hex_val c = (let n = of_char c in if n < 58 then n - 48 else n - 55)"

definition unreserved :: "char \<Rightarrow> bool" where
  "unreserved c \<longleftrightarrow> (let n = of_char c :: nat in
     (65 \<le> n \<and> n \<le> 90) \<or> (97 \<le> n \<and> n \<le> 122) \<or> (48 \<le> n \<and> n \<le> 57) \<or>
     n \<in> {45, 95, 46, 33, 126, 42, 39, 40, 41})"

definition enc_byte :: "nat \<Rightarrow> jsstring" where
  "enc_byte b = [CHR ''%'', hex_digit (b div 16), hex_digit (b mod 16)]"

definition encodeURIComponent :: "jsstring \<Rightarrow> jsstring" where
  "encodeURIComponent s = concat (map (\<lambda>c. if unreserved c then [c] else concat (map enc_byte (utf8_char c))) s)"

fun percent_bytes :: "jsstring \<Rightarrow> nat list" where
  "percent_bytes [] = []"
| "percent_bytes (c # s) =
     (if c = CHR ''%'' then (case s of a # b # s' \<Rightarrow> (16 * hex_val a + hex_val b) # percent_bytes s' | _ \<Rightarrow> [])
      else of_char c # percent_bytes s)"

lemma hex_val_digit: "d < 16 \<Longrightarrow> hex_val (hex_digit d) = d"
  by (simp add: hex_val_def hex_digit_def Let_def)

lemma percent_bytes_enc: "b < 256 \<Longrightarrow> percent_bytes (enc_byte b @ s) = b # percent_bytes s"
  by (simp add: enc_byte_def hex_val_digit)

lemma utf8_char_bytes: "b \<in> set (utf8_char c) \<Longrightarrow> b < 256"
proof -
  have c: "of_char c < (256 :: nat)" by simp
  then have "of_char c div 64 < (4 :: nat)" by linarith
  with c show "b \<in> set (utf8_char c) \<Longrightarrow> b < 256"
    by (auto simp: utf8_char_def Let_def split: if_splits)
qed

lemma percent_bytes_concat:
  "\<forall>b \<in> set bs. b < 256 \<Longrightarrow> percent_bytes (concat (map enc_byte bs) @ s) = bs @ percent_bytes s"
  by (induction bs) (simp_all add: percent_bytes_enc)

lemma unreserved_ascii: "unreserved c \<Longrightarrow> of_char c < (128 :: nat) \<and> c \<noteq> CHR ''%'' \<and> c \<noteq> CHR ''/''"
  by (auto simp: unreserved_def Let_def)

lemma percent_bytes_encode: "percent_bytes (encodeURIComponent s) = utf8 s"
proof (induction s)
  case Nil
  then show ?case by (simp add: encodeURIComponent_def utf8_def)
next
  case (Cons c s)
  show ?case
  proof (cases "unreserved c")
    case True
    with Cons unreserved_ascii [OF True] show ?thesis
      by (simp add: encodeURIComponent_def utf8_def utf8_char_def Let_def)
  next
    case False
    with Cons percent_bytes_concat [of "utf8_char c"] utf8_char_bytes show ?thesis
      by (simp add: encodeURIComponent_def utf8_def)
  qed
qed

lemma encodeURIComponent_inject [simp]: "encodeURIComponent s = encodeURIComponent t \<longleftrightarrow> s = t"
  by (metis percent_bytes_encode utf8_inject)

lemma hex_digit_not_slash: "d < 16 \<Longrightarrow> hex_digit d \<noteq> CHR ''/''"
proof
  assume d: "d < 16" and "hex_digit d = CHR ''/''"
  then have "hex_val (hex_digit d) = hex_val (CHR ''/'')" by simp
  with d have "d = hex_val (CHR ''/'')" by (simp add: hex_val_digit)
  moreover have "hex_val (CHR ''/'') = 0" by (simp add: hex_val_def)
  ultimately have "hex_digit 0 = CHR ''/''" using \<open>hex_digit d = _\<close> by simp
  then show False by (simp add: hex_digit_def char_of_eq_iff)
qed

lemma enc_byte_no_slash: "b < 256 \<Longrightarrow> CHR ''/'' \<notin> set (enc_byte b)"
proof -
  assume "b < 256"
  then have "b div 16 < 16" and "b mod 16 < 16" by linarith+
  then show ?thesis
    using hex_digit_not_slash [of "b div 16"] hex_digit_not_slash [of "b mod 16"]
    by (auto simp: enc_byte_def)
qed

lemma enc_bytes_no_slash: "\<forall>b \<in> set bs. b < 256 \<Longrightarrow> CHR ''/'' \<notin> set (concat (map enc_byte bs))"
  by (induction bs) (simp_all add: enc_byte_no_slash)

lemma encode_no_slash: "CHR ''/'' \<notin> set (encodeURIComponent s)"
proof (induction s)
  case Nil
  then show ?case by (simp add: encodeURIComponent_def)
next
  case (Cons c s)
  have "CHR ''/'' \<notin> set (if unreserved c then [c] else concat (map enc_byte (utf8_char c)))"
    using unreserved_ascii [of c] enc_bytes_no_slash [of "utf8_char c"] utf8_char_bytes [of _ c] by auto
  with Cons show ?case by (simp only: encodeURIComponent_def list.map concat.simps set_append Un_iff de_Morgan_disj) simp
qed

section \<open>Percent decoding\<close>

fun utf8_decode :: "nat list \<Rightarrow> jsstring option" where
  \<comment> \<open>\<open>None\<close> is a malformed sequence, or a code unit beyond 255\<close>
  "utf8_decode [] = Some []"
| "utf8_decode [a] = (if a < 128 then Some [char_of a] else None)"
| "utf8_decode (a # b # bs) =
     (if a < 128 then map_option ((#) (char_of a)) (utf8_decode (b # bs))
      else if a \<in> {194, 195} \<and> 128 \<le> b \<and> b < 192
      then map_option ((#) (char_of ((a - 192) * 64 + (b - 128)))) (utf8_decode bs) else None)"

definition decodeURIComponent :: "jsstring \<Rightarrow> jsstring option" where
  \<comment> \<open>for strings in which every \<open>%\<close> is followed by two hexadecimal digits\<close>
  "decodeURIComponent s = utf8_decode (percent_bytes s)"

lemma utf8_decode_ascii: "a < 128 \<Longrightarrow> utf8_decode (a # bs) = map_option ((#) (char_of a)) (utf8_decode bs)"
  by (cases bs) simp_all

lemma utf8_decode_char: "utf8_decode (utf8_char c @ bs) = map_option ((#) c) (utf8_decode bs)"
proof (cases c rule: utf8_char_cases)
  case one
  then show ?thesis by (simp add: utf8_decode_ascii)
next
  case two
  have "of_char c < (256 :: nat)" by simp
  then have "of_char c div 64 < (4 :: nat)" "2 \<le> of_char c div (64 :: nat)" using two(2) by linarith+
  then have hi: "of_char c div 64 \<in> {2, 3 :: nat}" and lo: "of_char c mod 64 < (64 :: nat)" by auto
  have "char_of ((of_char c div 64) * 64 + of_char c mod 64 :: nat) = c" by (simp only: div_mult_mod_eq char_of_char)
  then show ?thesis using hi lo by (auto simp: two(1))
qed

lemma decode_encode [simp]: "decodeURIComponent (encodeURIComponent s) = Some s"
proof -
  have "utf8_decode (utf8 s) = Some s"
  proof (induction s)
    case Nil
    then show ?case by (simp add: utf8_def)
  next
    case (Cons c s)
    then show ?case using utf8_decode_char [of c "utf8 s"] by (simp add: utf8_def)
  qed
  then show ?thesis by (simp add: decodeURIComponent_def percent_bytes_encode)
qed

end
