(* ===== verification/JsNum.thy ===== *)
theory JsNum
  imports Complex_Main JsString
begin

text \<open>
  JavaScript numbers and JSON values. A finite number is an exact rational; results
  whose magnitude reaches the overflow threshold of IEEE double arithmetic become an
  infinity, as they do in JavaScript, and \<open>NaN\<close> compares false with everything.
  Rounding of the mantissa is not modelled, except for the increment of an integer
  (\<open>js_succ\<close>), where the loss of precision above \<open>2 ^ 53\<close> is written out.
\<close>

section \<open>Numbers\<close>

datatype jsnum = Fin rat | PosInf | NegInf | NaN

definition overflow_limit :: rat where
  \<comment> \<open>the least magnitude that rounds to infinity in double precision\<close>
  "overflow_limit = 2 ^ 1024 - 2 ^ 970"

definition mk_num :: "rat \<Rightarrow> jsnum" where
  "mk_num x = (if overflow_limit \<le> x then PosInf else if x \<le> - overflow_limit then NegInf else Fin x)"

definition num_of_int :: "int \<Rightarrow> jsnum" where
  "num_of_int i = Fin (of_int i)"

definition num_of_nat :: "nat \<Rightarrow> jsnum" where
  "num_of_nat n = Fin (of_nat n)"

instantiation jsnum :: "{ord, plus, minus, times}"
begin

fun less_eq_jsnum :: "jsnum \<Rightarrow> jsnum \<Rightarrow> bool" where
  "NaN \<le> b = False"
| "a \<le> NaN = False"
| "Fin x \<le> Fin y = (x \<le> y)"
| "NegInf \<le> b = True"
| "a \<le> PosInf = True"
| "PosInf \<le> b = False"
| "Fin x \<le> NegInf = False"

fun less_jsnum :: "jsnum \<Rightarrow> jsnum \<Rightarrow> bool" where
  "NaN < b = False"
| "a < NaN = False"
| "Fin x < Fin y = (x < y)"
| "PosInf < b = False"
| "a < NegInf = False"
| "a < PosInf = True"
| "NegInf < b = True"

fun plus_jsnum :: "jsnum \<Rightarrow> jsnum \<Rightarrow> jsnum" where
  "NaN + b = NaN"
| "a + NaN = NaN"
| "Fin x + Fin y = mk_num (x + y)"
| "PosInf + NegInf = NaN"
| "NegInf + PosInf = NaN"
| "PosInf + b = PosInf"
| "NegInf + b = NegInf"
| "Fin x + PosInf = PosInf"
| "Fin x + NegInf = NegInf"

fun minus_jsnum :: "jsnum \<Rightarrow> jsnum \<Rightarrow> jsnum" where
  "NaN - b = NaN"
| "a - NaN = NaN"
| "Fin x - Fin y = mk_num (x - y)"
| "PosInf - PosInf = NaN"
| "NegInf - NegInf = NaN"
| "PosInf - b = PosInf"
| "NegInf - b = NegInf"
| "Fin x - PosInf = NegInf"
| "Fin x - NegInf = PosInf"

fun times_jsnum :: "jsnum \<Rightarrow> jsnum \<Rightarrow> jsnum" where
  "NaN * b = NaN"
| "a * NaN = NaN"
| "Fin x * Fin y = mk_num (x * y)"
| "PosInf * PosInf = PosInf"
| "PosInf * NegInf = NegInf"
| "NegInf * PosInf = NegInf"
| "NegInf * NegInf = PosInf"
| "PosInf * Fin y = (if y = 0 then NaN else if 0 < y then PosInf else NegInf)"
| "NegInf * Fin y = (if y = 0 then NaN else if 0 < y then NegInf else PosInf)"
| "Fin x * PosInf = (if x = 0 then NaN else if 0 < x then PosInf else NegInf)"
| "Fin x * NegInf = (if x = 0 then NaN else if 0 < x then NegInf else PosInf)"

instance ..

end

fun is_finite :: "jsnum \<Rightarrow> bool" where
  "is_finite (Fin x) = True"
| "is_finite _ = False"

fun is_integer :: "jsnum \<Rightarrow> bool" where
  "is_integer (Fin x) = (of_int \<lfloor>x\<rfloor> = x)"
| "is_integer _ = False"

fun div_pos :: "jsnum \<Rightarrow> rat \<Rightarrow> jsnum" where
  \<comment> \<open>division by a positive finite constant\<close>
  "div_pos (Fin x) c = mk_num (x / c)"
| "div_pos a c = a"

fun max0 :: "jsnum \<Rightarrow> jsnum" where
  \<comment> \<open>\<open>Math.max(0, x)\<close>\<close>
  "max0 (Fin x) = Fin (max 0 x)"
| "max0 PosInf = PosInf"
| "max0 NegInf = Fin 0"
| "max0 NaN = NaN"

lemma overflow_limit_large: "10 ^ 300 < overflow_limit"
  by (simp add: overflow_limit_def)

lemma mk_num_Fin: "\<bar>x\<bar> < overflow_limit \<Longrightarrow> mk_num x = Fin x"
  by (auto simp: mk_num_def abs_less_iff)

lemma mk_num_is_finite [simp]: "is_finite (mk_num x) \<longleftrightarrow> \<bar>x\<bar> < overflow_limit"
  by (auto simp: mk_num_def abs_less_iff not_le)

lemma is_finite_iff: "is_finite a \<longleftrightarrow> (\<exists>x. a = Fin x)"
  by (cases a) auto

lemma mk_num_neq_NaN [simp]: "mk_num x \<noteq> NaN"
  by (simp add: mk_num_def)

lemma overflow_limit_pos: "0 < overflow_limit"
proof -
  have "(0 :: rat) < 10 ^ 300" by simp
  with overflow_limit_large show ?thesis by (rule order.strict_trans [rotated])
qed

lemma le_num_trans: "a \<le> num_of_int t \<Longrightarrow> t \<le> t' \<Longrightarrow> a \<le> num_of_int t'"
  by (cases a) (auto simp: num_of_int_def intro: order_trans)

lemma max0_ge0: "a \<noteq> NaN \<Longrightarrow> Fin 0 \<le> max0 a"
  by (cases a) auto

section \<open>Increment of an integer-valued double\<close>

text \<open>
  \<open>n + 1\<close> for an integer \<open>n\<close> that a double represents: exact below \<open>2 ^ 53\<close>; above it the
  representable integers are \<open>2 ^ k\<close> apart and the sum is rounded to the nearest one,
  ties to the even significand. \<open>round53\<close> is that rounding for a natural number:
  \<open>k\<close> is the number of bits that do not fit.
\<close>

fun excess_bits :: "nat \<Rightarrow> nat" where
  "excess_bits n = (if n < 2 ^ 53 then 0 else Suc (excess_bits (n div 2)))"

declare excess_bits.simps [simp del]

definition round53 :: "nat \<Rightarrow> nat" where
  "round53 n = (let k = excess_bits n in
     if k = 0 then n
     else let q = n div 2 ^ k; r = n mod 2 ^ k; half = 2 ^ (k - 1)
       in (if r < half \<or> (r = half \<and> even q) then q else Suc q) * 2 ^ k)"

definition js_succ :: "nat \<Rightarrow> nat" where
  "js_succ n = round53 (n + 1)"

lemma js_succ_exact: "n < 2 ^ 53 \<Longrightarrow> js_succ n = n + 1"
proof (cases "n + 1 < 2 ^ 53")
  case True
  then have "excess_bits (n + 1) = 0" by (subst excess_bits.simps) simp
  then show ?thesis by (simp add: js_succ_def round53_def)
next
  case False
  assume "n < 2 ^ 53"
  with False have n: "n + 1 = 2 ^ 53" by simp
  have "excess_bits (2 ^ 52) = 0"
    by (subst excess_bits.simps) simp
  moreover have "(2 :: nat) ^ 53 div 2 = 2 ^ 52" by simp
  ultimately have "excess_bits (2 ^ 53) = 1"
    by (subst excess_bits.simps) (simp only: less_irrefl if_False One_nat_def)
  with n show ?thesis by (simp add: js_succ_def round53_def)
qed

lemma js_succ_stuck: "js_succ (2 ^ 53) = 2 ^ 53"
proof -
  have "excess_bits ((2 ^ 53 + 1) div 2) = 0"
    by (subst excess_bits.simps) simp
  then have "excess_bits (2 ^ 53 + 1) = 1"
    by (subst excess_bits.simps) simp
  then show ?thesis by (simp add: js_succ_def round53_def)
qed

section \<open>JSON values\<close>

datatype json =
  JNull
  | JBool bool
  | JNum jsnum
  | JStr jsstring
  | JArr "json list"
  | JObj "(jsstring \<times> json) list"

text \<open>
  A property read \<open>x.k\<close> on a parsed JSON value, for the field names the program reads
  (none of them a method of the standard prototypes of numbers, strings or booleans; on
  an array the only such name is \<open>keys\<close>, whose value is a function and fails every
  check the program makes, as \<open>undefined\<close> does). \<open>None\<close> is \<open>undefined\<close>. Reading a
  property of \<open>null\<close> throws, which \<open>read_field\<close> leaves to its callers: they test for
  \<open>null\<close> first, as \<open>x ?? {}\<close> does, or model the exception.
\<close>

fun read_field :: "jsstring \<Rightarrow> json \<Rightarrow> json option" where
  "read_field k (JObj fs) = map_of fs k"
| "read_field k _ = None"

definition nullish_to_obj :: "json option \<Rightarrow> json" where
  \<comment> \<open>\<open>x ?? {}\<close>\<close>
  "nullish_to_obj x = (case x of None \<Rightarrow> JObj [] | Some JNull \<Rightarrow> JObj [] | Some v \<Rightarrow> v)"

fun as_string :: "json option \<Rightarrow> jsstring option" where
  \<comment> \<open>\<open>typeof x === "string"\<close>\<close>
  "as_string (Some (JStr s)) = Some s"
| "as_string _ = None"

fun as_number :: "json option \<Rightarrow> jsnum option" where
  "as_number (Some (JNum n)) = Some n"
| "as_number _ = None"

fun as_strings :: "json list \<Rightarrow> jsstring list option" where
  \<comment> \<open>\<open>xs.every((x) => typeof x === "string")\<close>\<close>
  "as_strings [] = Some []"
| "as_strings (JStr s # js) = map_option ((#) s) (as_strings js)"
| "as_strings (_ # js) = None"

lemma as_strings_map [simp]: "as_strings (map JStr ss) = Some ss"
  by (induction ss) auto

lemma as_strings_Some: "as_strings js = Some ss \<Longrightarrow> js = map JStr ss"
proof (induction js arbitrary: ss rule: as_strings.induct)
  case 1
  then show ?case by simp
next
  case (2 s js)
  then show ?case by auto
qed auto

end
