(* ===== verification/Election.thy ===== *)
theory Election
  imports JsNum
begin

text \<open>
  \<open>src/core/election.ts\<close>: the term and the per-term vote lock of one node, and the
  majority test. Terms are natural numbers; \<open>startElection\<close> increments one as a double
  does (\<open>js_succ\<close>), which is exact below \<open>2 ^ 53\<close>.
\<close>

section \<open>State and operations\<close>

record ElectionState =
  selfId :: jsstring
  currentTerm :: nat
  votedFor :: "jsstring option"

record VoteResult =
  voteGranted :: bool
  vote_term :: nat

definition new_election :: "jsstring \<Rightarrow> ElectionState" where
  "new_election self = \<lparr>selfId = self, currentTerm = 0, votedFor = None\<rparr>"

definition observeTerm :: "nat \<Rightarrow> jsstring option \<Rightarrow> ElectionState \<Rightarrow> ElectionState" where
  "observeTerm t candidateId e =
     (if currentTerm e < t then e\<lparr>currentTerm := t, votedFor := candidateId\<rparr> else e)"

definition startElection :: "ElectionState \<Rightarrow> ElectionState \<times> nat" where
  "startElection e =
     (let e' = e\<lparr>currentTerm := js_succ (currentTerm e), votedFor := Some (selfId e)\<rparr>
      in (e', currentTerm e'))"

definition requestVote :: "nat \<Rightarrow> jsstring \<Rightarrow> ElectionState \<Rightarrow> ElectionState \<times> VoteResult" where
  "requestVote t candidateId e =
     (if t < currentTerm e then (e, \<lparr>voteGranted = False, vote_term = currentTerm e\<rparr>)
      else
        let e1 = (if currentTerm e < t then e\<lparr>currentTerm := t, votedFor := None\<rparr> else e)
        in if votedFor e1 = None \<or> votedFor e1 = Some candidateId
           then let e2 = e1\<lparr>votedFor := Some candidateId\<rparr>
             in (e2, \<lparr>voteGranted = True, vote_term = currentTerm e2\<rparr>)
           else (e1, \<lparr>voteGranted = False, vote_term = currentTerm e1\<rparr>))"

definition hasMajority :: "nat \<Rightarrow> nat \<Rightarrow> bool" where
  "hasMajority votes totalNodes \<longleftrightarrow> (of_nat totalNodes :: rat) / 2 < of_nat votes"

lemma hasMajority_iff: "hasMajority votes totalNodes \<longleftrightarrow> totalNodes < 2 * votes"
proof -
  have "hasMajority votes totalNodes \<longleftrightarrow> (of_nat totalNodes :: rat) < of_nat (2 * votes)"
    by (auto simp: hasMajority_def field_simps)
  then show ?thesis by (simp only: of_nat_less_iff)
qed

section \<open>The vote lock\<close>

text \<open>
  A voter has a term, the candidate it is committed to in that term, and operations that
  may cast a vote. The laws of the interface are local to one operation; what follows
  from them is global: in any sequence of operations no two different candidates get a
  vote for the same term.
\<close>

locale voter =
  fixes term_of :: "'s \<Rightarrow> nat"
    and committed :: "'s \<Rightarrow> 'c option"
    and step :: "'op \<Rightarrow> 's \<Rightarrow> 's"
    and cast :: "'op \<Rightarrow> 's \<Rightarrow> (nat \<times> 'c) option"
    and safe :: "'op \<Rightarrow> 's \<Rightarrow> bool"
  assumes term_mono: "safe a s \<Longrightarrow> term_of s \<le> term_of (step a s)"
    and locked: "safe a s \<Longrightarrow> term_of (step a s) = term_of s \<Longrightarrow> committed s = Some c \<Longrightarrow> committed (step a s) = Some c"
    and cast_commits: "safe a s \<Longrightarrow> cast a s = Some (t, c) \<Longrightarrow> term_of (step a s) = t \<and> committed (step a s) = Some c"
begin

definition lock_inv :: "'s \<Rightarrow> (nat \<times> 'c) set \<Rightarrow> bool" where
  \<comment> \<open>\<open>G\<close> are the votes cast so far\<close>
  "lock_inv s G \<longleftrightarrow> (\<forall>(t, c) \<in> G. t < term_of s \<or> (t = term_of s \<and> committed s = Some c)) \<and>
     (\<forall>t c d. (t, c) \<in> G \<and> (t, d) \<in> G \<longrightarrow> c = d)"

definition cast_set :: "'op \<Rightarrow> 's \<Rightarrow> (nat \<times> 'c) set" where
  "cast_set a s = (case cast a s of None \<Rightarrow> {} | Some v \<Rightarrow> {v})"

lemma lock_inv_empty: "lock_inv s {}"
  by (simp add: lock_inv_def)

lemma lock_inv_unique: "lock_inv s G \<Longrightarrow> (t, c) \<in> G \<Longrightarrow> (t, d) \<in> G \<Longrightarrow> c = d"
  unfolding lock_inv_def by blast

lemma lock_inv_old:
  assumes "lock_inv s G" and "safe a s" and "(t, c) \<in> G"
  shows "t < term_of (step a s) \<or> (t = term_of (step a s) \<and> committed (step a s) = Some c)"
proof -
  have "t < term_of s \<or> (t = term_of s \<and> committed s = Some c)"
    using assms(1,3) unfolding lock_inv_def by blast
  then show ?thesis
    using term_mono [OF assms(2)] locked [OF assms(2), of c] by fastforce
qed

lemma lock_inv_step:
  assumes "lock_inv s G" and "safe a s"
  shows "lock_inv (step a s) (G \<union> cast_set a s)"
proof (cases "cast a s")
  case None
  then show ?thesis
    using lock_inv_old [OF assms] lock_inv_unique [OF assms(1)]
    by (auto simp: cast_set_def lock_inv_def)
next
  case (Some v)
  obtain t c where v: "v = (t, c)" by (cases v)
  have new: "term_of (step a s) = t" "committed (step a s) = Some c"
    using cast_commits [OF assms(2)] Some v by auto
  have "d = c" if "(t, d) \<in> G" for d
    using lock_inv_old [OF assms that] new by simp
  then show ?thesis
    using lock_inv_old [OF assms] lock_inv_unique [OF assms(1)] new Some v
    by (auto simp: cast_set_def lock_inv_def)
qed

fun votes_cast :: "'s \<Rightarrow> 'op list \<Rightarrow> (nat \<times> 'c) set" where
  "votes_cast s [] = {}"
| "votes_cast s (a # as) = cast_set a s \<union> votes_cast (step a s) as"

fun all_safe :: "'s \<Rightarrow> 'op list \<Rightarrow> bool" where
  "all_safe s [] = True"
| "all_safe s (a # as) = (safe a s \<and> all_safe (step a s) as)"

lemma lock_inv_run:
  "lock_inv s G \<Longrightarrow> all_safe s as \<Longrightarrow> lock_inv (foldl (\<lambda>s a. step a s) s as) (G \<union> votes_cast s as)"
  by (induction as arbitrary: s G) (auto simp: Un_assoc [symmetric] intro: lock_inv_step)

lemma lock_holds:
  "all_safe s as \<Longrightarrow> (t, c) \<in> votes_cast s as \<Longrightarrow> (t, d) \<in> votes_cast s as \<Longrightarrow> c = d"
  using lock_inv_run [OF lock_inv_empty, of s as] lock_inv_unique by force

end

section \<open>One node's election state as a voter\<close>

datatype es_op =
  Request nat jsstring
  | Observe nat "jsstring option"
  | Start

fun op_term :: "es_op \<Rightarrow> nat" where
  "op_term (Request t _) = t"
| "op_term (Observe t _) = t"
| "op_term Start = 0"

fun es_step :: "es_op \<Rightarrow> ElectionState \<Rightarrow> ElectionState" where
  "es_step (Request t c) e = fst (requestVote t c e)"
| "es_step (Observe t c) e = observeTerm t c e"
| "es_step Start e = fst (startElection e)"

fun es_cast :: "es_op \<Rightarrow> ElectionState \<Rightarrow> (nat \<times> jsstring) option" where
  \<comment> \<open>the vote an operation casts: a candidate votes for itself\<close>
  "es_cast (Request t c) e = (if voteGranted (snd (requestVote t c e)) then Some (t, c) else None)"
| "es_cast (Observe t c) e = None"
| "es_cast Start e = Some (snd (startElection e), selfId e)"

fun es_safe :: "es_op \<Rightarrow> ElectionState \<Rightarrow> bool" where
  "es_safe Start e = (currentTerm e < 2 ^ 53)"
| "es_safe _ e = True"

interpretation es: voter currentTerm votedFor es_step es_cast es_safe
proof unfold_locales
  fix a s
  assume "es_safe a s"
  then show "currentTerm s \<le> currentTerm (es_step a s)"
    by (cases a) (auto simp: requestVote_def observeTerm_def startElection_def Let_def js_succ_exact)
next
  fix a s c
  assume "es_safe a s" and "currentTerm (es_step a s) = currentTerm s" and "votedFor s = Some c"
  then show "votedFor (es_step a s) = Some c"
    by (cases a) (auto simp: requestVote_def observeTerm_def startElection_def Let_def js_succ_exact)
next
  fix a s t c
  assume "es_safe a s" and "es_cast a s = Some (t, c)"
  then show "currentTerm (es_step a s) = t \<and> votedFor (es_step a s) = Some c"
    by (cases a) (auto simp: requestVote_def startElection_def Let_def split: if_splits)
qed

definition es_run :: "ElectionState \<Rightarrow> es_op list \<Rightarrow> ElectionState" where
  "es_run e ops = foldl (\<lambda>e a. es_step a e) e ops"

fun es_votes :: "ElectionState \<Rightarrow> es_op list \<Rightarrow> (nat \<times> jsstring) list" where
  \<comment> \<open>the votes a sequence of operations casts, in order\<close>
  "es_votes e [] = []"
| "es_votes e (a # as) = (case es_cast a e of None \<Rightarrow> [] | Some v \<Rightarrow> [v]) @ es_votes (es_step a e) as"

lemma set_es_votes: "set (es_votes e ops) = es.votes_cast e ops"
  by (induction e ops rule: es_votes.induct) (auto simp: es.cast_set_def split: option.splits)

lemma es_step_term_le:
  "es_safe a e \<Longrightarrow> currentTerm (es_step a e) \<le> max (Suc (currentTerm e)) (op_term a)"
  by (cases a) (auto simp: requestVote_def observeTerm_def startElection_def Let_def js_succ_exact)

lemma es_all_safe:
  "currentTerm e + length ops \<le> 2 ^ 53 \<Longrightarrow> \<forall>a \<in> set ops. op_term a + length ops \<le> 2 ^ 53 \<Longrightarrow> es.all_safe e ops"
proof (induction ops arbitrary: e)
  case Nil
  then show ?case by simp
next
  case (Cons a ops)
  have safe: "es_safe a e" using Cons.prems(1) by (cases a) simp_all
  have "currentTerm (es_step a e) \<le> max (Suc (currentTerm e)) (op_term a)"
    using safe by (rule es_step_term_le)
  moreover have "op_term a + Suc (length ops) \<le> 2 ^ 53" using Cons.prems(2) by simp
  ultimately have "currentTerm (es_step a e) + length ops \<le> 2 ^ 53"
    using Cons.prems(1) by simp
  moreover have "\<forall>b \<in> set ops. op_term b + length ops \<le> 2 ^ 53" using Cons.prems(2) by auto
  ultimately show ?case using safe Cons.IH by simp
qed

lemma es_run_mono: "es.all_safe e ops \<Longrightarrow> currentTerm e \<le> currentTerm (es_run e ops)"
proof (induction ops arbitrary: e)
  case Nil
  then show ?case by (simp add: es_run_def)
next
  case (Cons a ops)
  then have "currentTerm e \<le> currentTerm (es_step a e)"
    and "currentTerm (es_step a e) \<le> currentTerm (es_run (es_step a e) ops)"
    using es.term_mono by auto
  then show ?case by (simp add: es_run_def)
qed

lemma es_votes_above: "es.all_safe e ops \<Longrightarrow> (t, c) \<in> set (es_votes e ops) \<Longrightarrow> currentTerm e \<le> t"
proof (induction ops arbitrary: e)
  case Nil
  then show ?case by simp
next
  case (Cons a ops)
  then have m: "currentTerm e \<le> currentTerm (es_step a e)" using es.term_mono by simp
  show ?case
  proof (cases "es_cast a e = Some (t, c)")
    case True
    then show ?thesis using es.cast_commits [of a e t c] Cons.prems(1) m by simp
  next
    case False
    then have "(t, c) \<in> set (es_votes (es_step a e) ops)"
      using Cons.prems(2) by (auto split: option.splits)
    then show ?thesis using Cons.IH [of "es_step a e"] Cons.prems(1) m by simp
  qed
qed

lemma es_votes_sorted: "es.all_safe e ops \<Longrightarrow> sorted (map fst (es_votes e ops))"
proof (induction ops arbitrary: e)
  case Nil
  then show ?case by simp
next
  case (Cons a ops)
  then have "sorted (map fst (es_votes (es_step a e) ops))" by simp
  moreover have "t \<le> fst v" if "es_cast a e = Some (t, c)" "v \<in> set (es_votes (es_step a e) ops)" for t c v
    using that es.cast_commits [of a e t c] es_votes_above [of "es_step a e" ops "fst v" "snd v"] Cons.prems by simp
  ultimately show ?case by (auto split: option.splits)
qed

section \<open>Properties\<close>

text \<open>C13: The vote lock: whatever requests, announcements and candidacies of its own a node
  handles, in any order, it never votes for two different candidates in one term, the terms
  it votes in never decrease, and neither does its own term - as long as terms stay below
  \<open>2 ^ 53\<close>.\<close>

theorem one_vote_per_term:
  assumes "currentTerm e + length ops \<le> 2 ^ 53" and "\<forall>a \<in> set ops. op_term a + length ops \<le> 2 ^ 53"
  shows "(\<forall>(t, c) \<in> set (es_votes e ops). \<forall>(u, d) \<in> set (es_votes e ops). t = u \<longrightarrow> c = d) \<and>
    sorted (map fst (es_votes e ops)) \<and> currentTerm e \<le> currentTerm (es_run e ops)"
  using es.lock_holds [OF es_all_safe [OF assms]] es_votes_sorted [OF es_all_safe [OF assms]]
    es_run_mono [OF es_all_safe [OF assms]]
  by (auto simp: set_es_votes)

theorem one_vote_per_term_witness:
  "es_votes (new_election ''a'') [Request 1 ''b'', Request 1 ''c'', Start, Request 2 ''b''] = [(1, ''b''), (2, ''a'')] \<and>
   sorted [1, 2 :: nat]"
  using one_vote_per_term [of "new_election ''a''" "[Request 1 ''b'', Request 1 ''c'', Start, Request 2 ''b'']"]
  by (simp add: requestVote_def startElection_def new_election_def js_succ_exact)

text \<open>The vote rule on every branch: a request is granted exactly when its term is newer, or
  current with no vote given to anybody else; the reply carries the newest term known; a
  repeated request gets the same answer and changes nothing more; and a request from an older
  term changes nothing at all.\<close>

lemma request_vote_rule:
  "(voteGranted (snd (requestVote t c e)) \<longleftrightarrow>
      currentTerm e < t \<or> (currentTerm e = t \<and> votedFor e \<in> {None, Some c})) \<and>
   vote_term (snd (requestVote t c e)) = max t (currentTerm e) \<and>
   currentTerm (fst (requestVote t c e)) = max t (currentTerm e) \<and>
   votedFor (fst (requestVote t c e)) = (if voteGranted (snd (requestVote t c e)) then Some c else votedFor e) \<and>
   requestVote t c (fst (requestVote t c e)) = requestVote t c e \<and>
   (t < currentTerm e \<longrightarrow> fst (requestVote t c e) = e)"
  by (auto simp: requestVote_def Let_def)

text \<open>Beyond \<open>2 ^ 53\<close> the lock is gone: the increment in \<open>startElection\<close> no longer changes
  the term, so a node that granted a candidate its vote in term \<open>2 ^ 53\<close> then votes for itself
  in that same term.\<close>

lemma vote_lock_lost_at_limit:
  "es_votes (new_election a) [Request (2 ^ 53) b, Start] = [(2 ^ 53, b), (2 ^ 53, a)]"
proof -
  have "es_votes (new_election a) [Request t b, Start] = [(t, b), (t, a)]" if "js_succ t = t" "0 < t" for t
    using that by (simp add: requestVote_def startElection_def new_election_def Let_def)
  from this [OF js_succ_stuck] show ?thesis by simp
qed

end
