(* ===== verification/Http.thy ===== *)
theory Http
  imports JsNum
begin

text \<open>
  What the HTTP handlers of \<open>src/network\<close> share: the response a handler writes, and the
  checks handlers make on the fields of a parsed body.
\<close>

record response =
  res_status :: nat
  res_body :: json

definition error_response :: "nat \<Rightarrow> jsstring \<Rightarrow> response" where
  "error_response code msg = \<lparr>res_status = code, res_body = JObj [(''error'', JStr msg)]\<rparr>"

definition ok_response :: "(jsstring \<times> json) list \<Rightarrow> response" where
  "ok_response fs = \<lparr>res_status = 200, res_body = JObj fs\<rparr>"

definition json_nat :: "nat \<Rightarrow> json" where
  "json_nat n = JNum (num_of_nat n)"

definition json_num :: "jsnum \<Rightarrow> json" where
  \<comment> \<open>\<open>JSON.stringify\<close> writes a number that is not finite as \<open>null\<close>\<close>
  "json_num x = (case x of Fin q \<Rightarrow> JNum (Fin q) | _ \<Rightarrow> JNull)"

definition ttl_json :: "jsnum option \<Rightarrow> json" where
  \<comment> \<open>\<open>ttl ?? null\<close>\<close>
  "ttl_json ttl = (case ttl of None \<Rightarrow> JNull | Some x \<Rightarrow> json_num x)"

definition res_is_ok :: "response \<Rightarrow> bool" where
  \<comment> \<open>\<open>res.ok\<close> of the Fetch API: a 2xx status\<close>
  "res_is_ok r \<longleftrightarrow> 200 \<le> res_status r \<and> res_status r < 300"

fun as_term :: "json option \<Rightarrow> nat option" where
  \<comment> \<open>the field when \<open>typeof term === "number" && Number.isInteger(term) && term >= 0\<close>\<close>
  "as_term (Some (JNum (Fin x))) = (if of_int \<lfloor>x\<rfloor> = x \<and> 0 \<le> x then Some (nat \<lfloor>x\<rfloor>) else None)"
| "as_term _ = None"

fun nonempty_string :: "json option \<Rightarrow> jsstring option" where
  \<comment> \<open>the field when \<open>typeof s === "string" && s.length > 0\<close>\<close>
  "nonempty_string (Some (JStr s)) = (if length s = 0 then None else Some s)"
| "nonempty_string _ = None"

lemma as_term_nat [simp]: "as_term (Some (json_nat n)) = Some n"
  by (simp add: json_nat_def num_of_nat_def)

lemma response_simps [simp]:
  "res_status (error_response c m) = c" "res_body (error_response c m) = JObj [(''error'', JStr m)]"
  "res_status (ok_response fs) = 200" "res_body (ok_response fs) = JObj fs"
  by (simp_all add: error_response_def ok_response_def)

lemma res_is_ok_simps [simp]: "res_is_ok (ok_response fs)" "res_is_ok (error_response c m) \<longleftrightarrow> 200 \<le> c \<and> c < 300"
  by (simp_all add: res_is_ok_def)

lemma json_nat_inject [simp]: "json_nat m = json_nat n \<longleftrightarrow> m = n"
  by (simp add: json_nat_def num_of_nat_def)

end
