(* ===== verification/ElectionClient.thy ===== *)
theory ElectionClient
  imports Election Http
begin

text \<open>
  \<open>src/network/election-client.ts\<close>: the candidate's side of an election. What a peer
  answered is an input, \<open>None\<close> for a network error or the timeout. The section on quorums
  is the argument the counting rests on: two majorities of the same nodes overlap.
\<close>

section \<open>Counting votes\<close>

definition vote_request :: "nat \<Rightarrow> jsstring \<Rightarrow> json" where
  "vote_request t candidateId = JObj [(''term'', json_nat t), (''candidateId'', JStr candidateId)]"

definition requestVoteFrom :: "response option \<Rightarrow> bool" where
  \<comment> \<open>what \<open>requestVoteFrom\<close> resolves to; \<open>None\<close> is an error, the timeout or a body that is no JSON\<close>
  "requestVoteFrom answer = (case answer of
       None \<Rightarrow> False
     | Some res \<Rightarrow> if \<not> res_is_ok res then False
         else read_field ''voteGranted'' (res_body res) = Some (JBool True))"

record ElectionResult =
  won :: bool
  res_term :: nat
  votes :: nat
  totalNodes :: nat

definition election_result :: "nat \<Rightarrow> bool list \<Rightarrow> ElectionResult" where
  \<comment> \<open>the end of \<open>runElection\<close>, once every peer's request has settled\<close>
  "election_result t grants =
     (let v = 1 + length (filter (\<lambda>g. g) grants); n = length grants + 1
      in \<lparr>won = hasMajority v n, res_term = t, votes = v, totalNodes = n\<rparr>)"

definition runElection :: "jsstring list \<Rightarrow> (nat \<Rightarrow> jsstring \<Rightarrow> response option) \<Rightarrow> ElectionState
    \<Rightarrow> ElectionState \<times> ElectionResult" where
  \<comment> \<open>\<open>answer t peerUrl\<close> is what the peer's endpoint gave to the request for term \<open>t\<close>\<close>
  "runElection peerUrls answer e =
     (let (e', t) = startElection e
      in (e', election_result t (map (\<lambda>peerUrl. requestVoteFrom (answer t peerUrl)) peerUrls)))"

definition announceLeader :: "jsstring list \<Rightarrow> nat \<Rightarrow> jsstring \<Rightarrow> (jsstring \<times> json) list" where
  \<comment> \<open>the requests issued, one to \<open>peerUrl/election/leader\<close> for every peer\<close>
  "announceLeader peerUrls t primaryUrl =
     map (\<lambda>peerUrl. (peerUrl @ ''/election/leader'', JObj [(''term'', json_nat t), (''primaryUrl'', JStr primaryUrl)])) peerUrls"

lemma election_result_fields [simp]:
  "res_term (election_result t gs) = t" "totalNodes (election_result t gs) = length gs + 1"
  "votes (election_result t gs) = 1 + length (filter (\<lambda>g. g) gs)"
  "won (election_result t gs) = hasMajority (votes (election_result t gs)) (length gs + 1)"
  by (simp_all add: election_result_def Let_def)

section \<open>Quorums\<close>

locale quorum_system =
  fixes quorum :: "'a set \<Rightarrow> bool"
  assumes intersect: "quorum A \<Longrightarrow> quorum B \<Longrightarrow> A \<inter> B \<noteq> {}"
begin

lemma unique_winner:
  assumes "quorum A" and "quorum B"
    and "\<forall>v \<in> A. voted v c" and "\<forall>v \<in> B. voted v d"
    and "\<And>v c d. voted v c \<Longrightarrow> voted v d \<Longrightarrow> c = d"
  shows "c = d"
  using intersect [OF assms(1,2)] assms(3-5) by blast

end

definition majority_of :: "jsstring list \<Rightarrow> jsstring set \<Rightarrow> bool" where
  "majority_of ids Q \<longleftrightarrow> Q \<subseteq> set ids \<and> hasMajority (card Q) (length ids)"

interpretation mq: quorum_system "majority_of ids" for ids
proof
  fix A B
  assume a: "majority_of ids A" and b: "majority_of ids B"
  show "A \<inter> B \<noteq> {}"
  proof
    assume disj: "A \<inter> B = {}"
    have sub: "A \<union> B \<subseteq> set ids" and fin: "finite A" "finite B"
      using a b by (auto simp: majority_of_def intro: finite_subset)
    have "card A + card B = card (A \<union> B)" using card_Un_disjoint [OF fin disj] by simp
    also have "\<dots> \<le> card (set ids)" using sub by (intro card_mono) auto
    also have "\<dots> \<le> length ids" by (rule card_length)
    finally show False using a b by (simp add: majority_of_def hasMajority_iff)
  qed
qed

text \<open>
  A candidate whose count succeeds has the votes of a majority: itself and the peers that
  granted.
\<close>

definition granting_peers :: "jsstring list \<Rightarrow> (jsstring \<Rightarrow> bool) \<Rightarrow> jsstring set" where
  "granting_peers peers g = {p \<in> set peers. g p}"

lemma won_majority:
  assumes "distinct peers" and "set peers = set ids - {self}" and "self \<in> set ids" and "distinct ids"
    and "won (election_result t (map g peers))"
  shows "majority_of ids (insert self (granting_peers peers g))"
proof -
  have fin: "finite (granting_peers peers g)" by (simp add: granting_peers_def)
  have notin: "self \<notin> granting_peers peers g" using assms(2) by (auto simp: granting_peers_def)
  have "length (filter (\<lambda>b. b) (map g peers)) = length (filter g peers)"
    by (simp add: filter_map o_def)
  also have "\<dots> = card (set (filter g peers))"
    using assms(1) distinct_card [of "filter g peers"] by simp
  also have "set (filter g peers) = granting_peers peers g" by (auto simp: granting_peers_def)
  finally have count: "length (filter (\<lambda>b. b) (map g peers)) = card (granting_peers peers g)" .
  have "length peers = card (set ids - {self})"
    using assms(1,2) distinct_card by metis
  then have len: "length peers + 1 = length ids"
    using assms(3,4) distinct_card [of ids] card_Suc_Diff1 [of "set ids" self] by simp
  have "insert self (granting_peers peers g) \<subseteq> set ids"
    using assms(2,3) by (auto simp: granting_peers_def)
  moreover have "hasMajority (card (insert self (granting_peers peers g))) (length ids)"
    using assms(5) count len fin notin by simp
  ultimately show ?thesis by (simp add: majority_of_def)
qed

end
