(* ===== verification/JsMap.thy ===== *)
theory JsMap
  imports Prelude
begin

text \<open>
  JavaScript's \<open>Map\<close> and \<open>Set\<close>: they iterate in insertion order, overwriting a key keeps
  its place, and deleting a key and setting it again moves it to the end. A map is the
  list of its entries in that order. The locale \<open>ordered_map\<close> is the interface the
  components that keep state in a \<open>Map\<close> rely on.
\<close>

section \<open>The operations\<close>

type_synonym ('k, 'v) jsmap = "('k \<times> 'v) list"

definition jm_get :: "('k, 'v) jsmap \<Rightarrow> 'k \<Rightarrow> 'v option" where
  "jm_get m k = map_of m k"

definition jm_has :: "('k, 'v) jsmap \<Rightarrow> 'k \<Rightarrow> bool" where
  "jm_has m k = (jm_get m k \<noteq> None)"

fun jm_set :: "'k \<Rightarrow> 'v \<Rightarrow> ('k, 'v) jsmap \<Rightarrow> ('k, 'v) jsmap" where
  "jm_set k v [] = [(k, v)]"
| "jm_set k v ((k', v') # m) = (if k' = k then (k, v) # m else (k', v') # jm_set k v m)"

definition jm_delete :: "'k \<Rightarrow> ('k, 'v) jsmap \<Rightarrow> ('k, 'v) jsmap" where
  "jm_delete k m = filter (\<lambda>p. fst p \<noteq> k) m"

definition jm_keys :: "('k, 'v) jsmap \<Rightarrow> 'k list" where
  "jm_keys m = map fst m"

definition jm_size :: "('k, 'v) jsmap \<Rightarrow> nat" where
  "jm_size m = length m"

definition jm_wf :: "('k, 'v) jsmap \<Rightarrow> bool" where
  "jm_wf m \<longleftrightarrow> distinct (map fst m)"

lemma jm_get_Nil [simp]: "jm_get [] k = None"
  by (simp add: jm_get_def)

lemma jm_get_Cons [simp]: "jm_get ((a, b) # m) k = (if k = a then Some b else jm_get m k)"
  by (simp add: jm_get_def)

lemma jm_get_None: "jm_get m k = None \<longleftrightarrow> k \<notin> set (jm_keys m)"
  by (simp add: jm_get_def jm_keys_def map_of_eq_None_iff)

lemma jm_has_iff: "jm_has m k \<longleftrightarrow> k \<in> set (jm_keys m)"
  using jm_get_None [of m k] by (auto simp: jm_has_def)

lemma jm_get_set: "jm_get (jm_set k v m) k' = (if k' = k then Some v else jm_get m k')"
  by (induction k v m rule: jm_set.induct) auto

lemma jm_get_delete: "jm_get (jm_delete k m) k' = (if k' = k then None else jm_get m k')"
  using map_of_filter_key [of "\<lambda>a. a \<noteq> k" m k'] by (simp add: jm_get_def jm_delete_def)

lemma jm_keys_set: "jm_keys (jm_set k v m) = (if k \<in> set (jm_keys m) then jm_keys m else jm_keys m @ [k])"
  by (induction k v m rule: jm_set.induct) (auto simp: jm_keys_def)

lemma jm_keys_delete: "jm_keys (jm_delete k m) = filter (\<lambda>k'. k' \<noteq> k) (jm_keys m)"
  by (simp add: jm_keys_def jm_delete_def filter_map comp_def)

lemma jm_set_append: "k \<notin> set (jm_keys m) \<Longrightarrow> jm_set k v m = m @ [(k, v)]"
  by (induction m) (auto simp: jm_keys_def)

lemma jm_delete_append: "jm_delete k (m @ m') = jm_delete k m @ jm_delete k m'"
  by (simp add: jm_delete_def)

lemma jm_delete_absent: "k \<notin> set (jm_keys m) \<Longrightarrow> jm_delete k m = m"
  by (auto simp: jm_delete_def jm_keys_def filter_id_conv)

lemma jm_size_keys: "jm_size m = length (jm_keys m)"
  by (simp add: jm_size_def jm_keys_def)

lemma jm_wf_keys: "jm_wf m \<longleftrightarrow> distinct (jm_keys m)"
  by (simp add: jm_wf_def jm_keys_def)

lemma jm_entry_get: "jm_wf m \<Longrightarrow> (k, v) \<in> set m \<longleftrightarrow> jm_get m k = Some v"
  by (simp add: jm_wf_def jm_get_def)

lemma jm_set_entries: "p \<in> set (jm_set k v m) \<Longrightarrow> p = (k, v) \<or> p \<in> set m"
  by (induction k v m rule: jm_set.induct) (auto split: if_splits)

lemma jm_delete_entries: "p \<in> set (jm_delete k m) \<longleftrightarrow> p \<in> set m \<and> fst p \<noteq> k"
  by (simp add: jm_delete_def)

lemma jm_delete_mid: "jm_wf (pre @ (k, v) # post) \<Longrightarrow> jm_delete k (pre @ (k, v) # post) = pre @ post"
proof -
  assume "jm_wf (pre @ (k, v) # post)"
  then have "k \<notin> set (jm_keys pre)" and "k \<notin> set (jm_keys post)"
    by (simp_all add: jm_wf_def jm_keys_def)
  then have "filter (\<lambda>p. fst p \<noteq> k) pre = pre" and "filter (\<lambda>p. fst p \<noteq> k) post = post"
    using jm_delete_absent [of k pre] jm_delete_absent [of k post] by (simp_all add: jm_delete_def)
  then show ?thesis by (simp add: jm_delete_def)
qed

lemma jm_wf_mid: "jm_wf (pre @ p # post) \<Longrightarrow> jm_wf (pre @ post)"
  by (auto simp: jm_wf_def)

lemma jm_get_filter:
  "jm_wf m \<Longrightarrow> jm_get (filter P m) k =
    (case jm_get m k of None \<Rightarrow> None | Some v \<Rightarrow> if P (k, v) then Some v else None)"
  by (simp add: jm_wf_def jm_get_def map_of_filter_pair)

lemma jm_wf_Nil [simp]: "jm_wf []"
  by (simp add: jm_wf_def)

lemma jm_wf_filter: "jm_wf m \<Longrightarrow> jm_wf (filter P m)"
  by (auto simp: jm_wf_def)

section \<open>The interface\<close>

locale ordered_map =
  fixes lookup :: "'m \<Rightarrow> 'k \<Rightarrow> 'v option"
    and insert_entry :: "'k \<Rightarrow> 'v \<Rightarrow> 'm \<Rightarrow> 'm"
    and remove :: "'k \<Rightarrow> 'm \<Rightarrow> 'm"
    and order :: "'m \<Rightarrow> 'k list"
    and wf :: "'m \<Rightarrow> bool"
  assumes lookup_insert: "lookup (insert_entry k v m) k' = (if k' = k then Some v else lookup m k')"
    and lookup_remove: "lookup (remove k m) k' = (if k' = k then None else lookup m k')"
    and lookup_order: "lookup m k = None \<longleftrightarrow> k \<notin> set (order m)"
    and order_insert: "order (insert_entry k v m) = (if k \<in> set (order m) then order m else order m @ [k])"
    and order_remove: "order (remove k m) = filter (\<lambda>k'. k' \<noteq> k) (order m)"
    and wf_distinct: "wf m \<longleftrightarrow> distinct (order m)"
begin

lemma wf_insert: "wf m \<Longrightarrow> wf (insert_entry k v m)"
  by (simp add: wf_distinct order_insert)

lemma wf_remove: "wf m \<Longrightarrow> wf (remove k m)"
  by (simp add: wf_distinct order_remove)

lemma order_touch: "order (insert_entry k v (remove k m)) = filter (\<lambda>k'. k' \<noteq> k) (order m) @ [k]"
  by (simp add: order_insert order_remove)

lemma lookup_touch: "lookup (insert_entry k v (remove k m)) k' = (if k' = k then Some v else lookup m k')"
  by (simp add: lookup_insert lookup_remove)

lemma set_order_touch: "set (order (insert_entry k v (remove k m))) = insert k (set (order m))"
  by (auto simp: order_touch)

lemma length_insert:
  "length (order (insert_entry k v m)) = (if k \<in> set (order m) then length (order m) else Suc (length (order m)))"
  by (simp add: order_insert)

lemma length_remove_present:
  "wf m \<Longrightarrow> k \<in> set (order m) \<Longrightarrow> Suc (length (order (remove k m))) = length (order m)"
proof -
  assume d: "wf m" and k: "k \<in> set (order m)"
  have "filter (\<lambda>k'. k' \<noteq> k) (order m) = remove1 k (order m)"
    using d by (auto simp: wf_distinct distinct_remove1_removeAll removeAll_filter_not_eq intro: filter_cong)
  with k length_pos_if_in_set [OF k] show ?thesis
    by (simp add: order_remove length_remove1)
qed

lemma length_remove_le: "length (order (remove k m)) \<le> length (order m)"
  by (simp add: order_remove)

lemma remove_absent: "k \<notin> set (order m) \<Longrightarrow> order (remove k m) = order m"
  by (auto simp: order_remove filter_id_conv)

end

interpretation jm: ordered_map jm_get jm_set jm_delete jm_keys jm_wf
  by unfold_locales
    (auto simp: jm_get_set jm_get_delete jm_get_None jm_keys_set jm_keys_delete jm_wf_keys)

lemmas jm_laws [js_simps] = jm.lookup_insert jm.lookup_remove jm.order_remove jm.lookup_touch jm.order_touch

lemmas jm_wf_intros [inv_intros] = jm.wf_insert jm.wf_remove jm_wf_filter

end
