(* ===== verification/Cache.thy ===== *)
theory Cache
  imports JsNum JsMap
begin

text \<open>
  \<open>src/core/cache.ts\<close>: the single-node store. \<open>cache_store\<close> is the private state of
  \<open>CacheStore\<close>; its \<open>entries\<close> map keeps the recency order (front = least recently
  used). Every operation takes the clock reading it makes as an argument; an operation
  that passes over the whole map reads the clock once. \<open>evictLog\<close> lists the keys passed
  to the \<open>onEvict\<close> callback, in order.
\<close>

section \<open>State\<close>

record cache_entry =
  ce_value :: jsstring
  ce_expiresAt :: "jsnum option"
  ce_hits :: nat

datatype eviction_policy = LRU | AccessAware | LFU

record cache_store_options =
  opt_maxEntries :: "nat option"
  opt_policy :: "eviction_policy option"
  opt_evictionSampleSize :: "nat option"

record cache_store =
  entries :: "(jsstring, cache_entry) jsmap"
  sweepTimer :: "nat option"
  maxEntries :: nat
  policy :: eviction_policy
  evictionSampleSize :: nat
  evictionCount :: nat
  evictLog :: "jsstring list"

definition new_cache :: "cache_store_options \<Rightarrow> cache_store" where
  "new_cache opts = \<lparr>entries = [], sweepTimer = None,
     maxEntries = (case opt_maxEntries opts of None \<Rightarrow> 512 | Some n \<Rightarrow> n),
     policy = (case opt_policy opts of None \<Rightarrow> AccessAware | Some p \<Rightarrow> p),
     evictionSampleSize = (case opt_evictionSampleSize opts of None \<Rightarrow> 5 | Some n \<Rightarrow> n),
     evictionCount = 0, evictLog = []\<rparr>"

section \<open>Expiry\<close>

definition isExpired :: "time_ms \<Rightarrow> cache_entry \<Rightarrow> bool" where
  "isExpired now e = (case ce_expiresAt e of None \<Rightarrow> False | Some d \<Rightarrow> d \<le> num_of_int now)"

definition remaining_ttl :: "time_ms \<Rightarrow> jsnum \<Rightarrow> jsnum" where
  \<comment> \<open>\<open>Math.max(0, (entry.expiresAt - Date.now()) / 1000)\<close>\<close>
  "remaining_ttl now d = max0 (div_pos (d - num_of_int now) 1000)"

definition deadline :: "time_ms \<Rightarrow> jsnum option \<Rightarrow> jsnum option" where
  \<comment> \<open>the \<open>expiresAt\<close> that \<open>set\<close> stores for \<open>opts.ttl\<close>\<close>
  "deadline now ttl = (case ttl of None \<Rightarrow> None
     | Some t \<Rightarrow> if Fin 0 < t then Some (num_of_int now + t * Fin 1000) else None)"

section \<open>Sweeping\<close>

fun sweep_loop :: "time_ms \<Rightarrow> (jsstring, cache_entry) jsmap \<Rightarrow> (jsstring, cache_entry) jsmap \<Rightarrow> nat
    \<Rightarrow> (jsstring, cache_entry) jsmap \<times> nat" where
  "sweep_loop now [] m removed = (m, removed)"
| "sweep_loop now ((key, entry) # rest) m removed =
     (if isExpired now entry then sweep_loop now rest (jm_delete key m) (removed + 1)
      else sweep_loop now rest m removed)"

definition sweep :: "time_ms \<Rightarrow> cache_store \<Rightarrow> cache_store \<times> nat" where
  "sweep now s = (let (m, removed) = sweep_loop now (entries s) (entries s) 0
     in (s\<lparr>entries := m\<rparr>, removed))"

section \<open>Eviction\<close>

definition doEvict :: "jsstring \<Rightarrow> cache_store \<Rightarrow> cache_store" where
  "doEvict key s = s\<lparr>entries := jm_delete key (entries s),
     evictionCount := evictionCount s + 1, evictLog := evictLog s @ [key]\<rparr>"

definition evictOldest :: "cache_store \<Rightarrow> cache_store" where
  "evictOldest s = (case jm_keys (entries s) of [] \<Rightarrow> s | oldest # _ \<Rightarrow> doEvict oldest s)"

definition hits_less :: "nat \<Rightarrow> nat option \<Rightarrow> bool" where
  \<comment> \<open>\<open>entry.hits < worstHits\<close>, where \<open>None\<close> is the initial \<open>Infinity\<close>\<close>
  "hits_less h worst = (case worst of None \<Rightarrow> True | Some w \<Rightarrow> h < w)"

fun least_accessed_loop :: "nat \<Rightarrow> (jsstring, cache_entry) jsmap \<Rightarrow> jsstring option \<Rightarrow> nat option \<Rightarrow> nat
    \<Rightarrow> jsstring option" where
  "least_accessed_loop sampleSize [] worstKey worstHits seen = worstKey"
| "least_accessed_loop sampleSize ((key, entry) # rest) worstKey worstHits seen =
     (if sampleSize \<le> seen then worstKey
      else if hits_less (ce_hits entry) worstHits
      then least_accessed_loop sampleSize rest (Some key) (Some (ce_hits entry)) (seen + 1)
      else least_accessed_loop sampleSize rest worstKey worstHits (seen + 1))"

definition evictLeastAccessed :: "cache_store \<Rightarrow> cache_store" where
  "evictLeastAccessed s =
     (case least_accessed_loop (evictionSampleSize s) (entries s) None None 0 of
        None \<Rightarrow> s | Some key \<Rightarrow> doEvict key s)"

fun lfu_loop :: "(jsstring, cache_entry) jsmap \<Rightarrow> jsstring option \<Rightarrow> nat option \<Rightarrow> jsstring option" where
  "lfu_loop [] worstKey worstHits = worstKey"
| "lfu_loop ((key, entry) # rest) worstKey worstHits =
     (if hits_less (ce_hits entry) worstHits
      then lfu_loop rest (Some key) (Some (ce_hits entry))
      else lfu_loop rest worstKey worstHits)"

definition evictLFU :: "cache_store \<Rightarrow> cache_store" where
  "evictLFU s = (case lfu_loop (entries s) None None of None \<Rightarrow> s | Some key \<Rightarrow> doEvict key s)"

definition evict :: "time_ms \<Rightarrow> cache_store \<Rightarrow> cache_store" where
  "evict now s = (let (s', removed) = sweep now s in
     if 0 < removed then s'
     else (case policy s' of
         LRU \<Rightarrow> evictOldest s'
       | LFU \<Rightarrow> evictLFU s'
       | AccessAware \<Rightarrow> evictLeastAccessed s'))"

section \<open>The public operations\<close>

definition cache_set :: "time_ms \<Rightarrow> jsstring \<Rightarrow> jsstring \<Rightarrow> jsnum option \<Rightarrow> cache_store \<Rightarrow> cache_store" where
  "cache_set now key val ttl s =
     (let entry = \<lparr>ce_value = val, ce_expiresAt = deadline now ttl, ce_hits = 0\<rparr>;
          s1 = s\<lparr>entries := jm_delete key (entries s)\<rparr>;
          s2 = (if maxEntries s1 \<le> jm_size (entries s1) then evict now s1 else s1)
      in s2\<lparr>entries := jm_set key entry (entries s2)\<rparr>)"

definition touch_entry :: "jsstring \<Rightarrow> cache_entry \<Rightarrow> cache_store \<Rightarrow> cache_store" where
  \<comment> \<open>\<open>entry.hits++\<close>, then delete and set again: the key moves to the most recent end\<close>
  "touch_entry key e s = s\<lparr>entries := jm_set key (e\<lparr>ce_hits := ce_hits e + 1\<rparr>) (jm_delete key (entries s))\<rparr>"

definition cache_get :: "time_ms \<Rightarrow> jsstring \<Rightarrow> cache_store \<Rightarrow> cache_store \<times> jsstring option" where
  "cache_get now key s = (case jm_get (entries s) key of
       None \<Rightarrow> (s, None)
     | Some e \<Rightarrow>
         if isExpired now e then (s\<lparr>entries := jm_delete key (entries s)\<rparr>, None)
         else (touch_entry key e s, Some (ce_value e)))"

definition getWithTtl :: "time_ms \<Rightarrow> time_ms \<Rightarrow> jsstring \<Rightarrow> cache_store
    \<Rightarrow> cache_store \<times> (jsstring \<times> jsnum option) option" where
  \<comment> \<open>\<open>now\<close> is the reading of \<open>isExpired\<close>, \<open>now'\<close> the later one of the remaining time\<close>
  "getWithTtl now now' key s = (case jm_get (entries s) key of
       None \<Rightarrow> (s, None)
     | Some e \<Rightarrow>
         if isExpired now e then (s\<lparr>entries := jm_delete key (entries s)\<rparr>, None)
         else (touch_entry key e s,
               Some (ce_value e, map_option (remaining_ttl now') (ce_expiresAt e))))"

definition cache_delete :: "jsstring \<Rightarrow> cache_store \<Rightarrow> cache_store \<times> bool" where
  "cache_delete key s = (s\<lparr>entries := jm_delete key (entries s)\<rparr>, jm_has (entries s) key)"

fun delete_prefix_loop :: "jsstring \<Rightarrow> jsstring list \<Rightarrow> (jsstring, cache_entry) jsmap \<Rightarrow> nat
    \<Rightarrow> (jsstring, cache_entry) jsmap \<times> nat" where
  "delete_prefix_loop pre [] m dropped = (m, dropped)"
| "delete_prefix_loop pre (key # rest) m dropped =
     (if startsWith key pre then delete_prefix_loop pre rest (jm_delete key m) (dropped + 1)
      else delete_prefix_loop pre rest m dropped)"

definition deleteByPrefix :: "jsstring \<Rightarrow> cache_store \<Rightarrow> cache_store \<times> nat" where
  "deleteByPrefix pre s =
     (let (m, dropped) = delete_prefix_loop pre (jm_keys (entries s)) (entries s) 0
      in (s\<lparr>entries := m\<rparr>, dropped))"

definition cache_has :: "time_ms \<Rightarrow> jsstring \<Rightarrow> cache_store \<Rightarrow> cache_store \<times> bool" where
  "cache_has now key s = (case jm_get (entries s) key of
       None \<Rightarrow> (s, False)
     | Some e \<Rightarrow> if isExpired now e then (s\<lparr>entries := jm_delete key (entries s)\<rparr>, False) else (s, True))"

definition cache_ttl :: "time_ms \<Rightarrow> time_ms \<Rightarrow> jsstring \<Rightarrow> cache_store \<Rightarrow> cache_store \<times> jsnum option" where
  "cache_ttl now now' key s = (case jm_get (entries s) key of
       None \<Rightarrow> (s, None)
     | Some e \<Rightarrow>
         if isExpired now e then (s\<lparr>entries := jm_delete key (entries s)\<rparr>, None)
         else (case ce_expiresAt e of None \<Rightarrow> (s, None) | Some d \<Rightarrow> (s, Some (remaining_ttl now' d))))"

definition accessCount :: "time_ms \<Rightarrow> jsstring \<Rightarrow> cache_store \<Rightarrow> nat option" where
  "accessCount now key s = (case jm_get (entries s) key of
       None \<Rightarrow> None
     | Some e \<Rightarrow> if isExpired now e then None else Some (ce_hits e))"

text \<open>
  \<open>keys\<close>, \<open>detailedKeys\<close> and \<open>exportEntries\<close> are one pass that deletes the expired entries
  it meets and pushes a row for every live one; \<open>row\<close> is what the method pushes.
\<close>

fun collect_loop :: "time_ms \<Rightarrow> (jsstring \<Rightarrow> cache_entry \<Rightarrow> 'a) \<Rightarrow> (jsstring, cache_entry) jsmap
    \<Rightarrow> (jsstring, cache_entry) jsmap \<Rightarrow> 'a list \<Rightarrow> (jsstring, cache_entry) jsmap \<times> 'a list" where
  "collect_loop now row [] m result = (m, result)"
| "collect_loop now row ((key, entry) # rest) m result =
     (if isExpired now entry then collect_loop now row rest (jm_delete key m) result
      else collect_loop now row rest m (result @ [row key entry]))"

definition cache_keys :: "time_ms \<Rightarrow> cache_store \<Rightarrow> cache_store \<times> jsstring list" where
  "cache_keys now s = (let (m, result) = collect_loop now (\<lambda>key e. key) (entries s) (entries s) []
     in (s\<lparr>entries := m\<rparr>, result))"

definition entry_ttl :: "time_ms \<Rightarrow> cache_entry \<Rightarrow> jsnum option" where
  "entry_ttl now e = map_option (remaining_ttl now) (ce_expiresAt e)"

definition detailedKeys :: "time_ms \<Rightarrow> cache_store \<Rightarrow> cache_store \<times> (jsstring \<times> nat \<times> jsnum option) list" where
  "detailedKeys now s =
     (let (m, result) = collect_loop now (\<lambda>key e. (key, ce_hits e, entry_ttl now e)) (entries s) (entries s) []
      in (s\<lparr>entries := m\<rparr>, result))"

definition exportEntries :: "time_ms \<Rightarrow> cache_store \<Rightarrow> cache_store \<times> (jsstring \<times> jsstring \<times> jsnum option) list" where
  "exportEntries now s =
     (let (m, result) = collect_loop now (\<lambda>key e. (key, ce_value e, entry_ttl now e)) (entries s) (entries s) []
      in (s\<lparr>entries := m\<rparr>, result))"

definition cache_size :: "cache_store \<Rightarrow> nat" where
  "cache_size s = jm_size (entries s)"

definition cache_clear :: "cache_store \<Rightarrow> cache_store" where
  "cache_clear s = s\<lparr>entries := []\<rparr>"

definition stopSweeper :: "cache_store \<Rightarrow> cache_store" where
  "stopSweeper s = (if sweepTimer s \<noteq> None then s\<lparr>sweepTimer := None\<rparr> else s)"

definition startSweeper :: "nat \<Rightarrow> cache_store \<Rightarrow> cache_store" where
  \<comment> \<open>the timer is represented by its interval; each tick runs \<open>sweep\<close>\<close>
  "startSweeper intervalMs s = (stopSweeper s)\<lparr>sweepTimer := Some intervalMs\<rparr>"

definition sweeper_tick :: "time_ms \<Rightarrow> cache_store \<Rightarrow> cache_store" where
  "sweeper_tick now s = (if sweepTimer s \<noteq> None then fst (sweep now s) else s)"

section \<open>What the loops compute\<close>

definition live_entries :: "time_ms \<Rightarrow> (jsstring, cache_entry) jsmap \<Rightarrow> (jsstring, cache_entry) jsmap" where
  "live_entries now m = filter (\<lambda>p. \<not> isExpired now (snd p)) m"

definition expired_count :: "time_ms \<Rightarrow> (jsstring, cache_entry) jsmap \<Rightarrow> nat" where
  "expired_count now m = length (filter (\<lambda>p. isExpired now (snd p)) m)"

lemma sweep_loop_eq:
  "jm_wf (pre @ rest) \<Longrightarrow>
    sweep_loop now rest (pre @ rest) n = (pre @ live_entries now rest, n + expired_count now rest)"
proof (induction rest arbitrary: pre n)
  case Nil
  then show ?case by (simp add: live_entries_def expired_count_def)
next
  case (Cons p rest)
  obtain k e where p: "p = (k, e)" by (cases p)
  show ?case
  proof (cases "isExpired now e")
    case True
    with Cons.IH [of pre "n + 1"] Cons.prems p show ?thesis
      by (simp add: jm_delete_mid jm_wf_mid live_entries_def expired_count_def)
  next
    case False
    with Cons.IH [of "pre @ [p]" n] Cons.prems p show ?thesis
      by (simp add: live_entries_def expired_count_def)
  qed
qed

lemma sweep_eq:
  "jm_wf (entries s) \<Longrightarrow>
    sweep now s = (s\<lparr>entries := live_entries now (entries s)\<rparr>, expired_count now (entries s))"
  using sweep_loop_eq [of "[]" "entries s" now 0] by (simp add: sweep_def)

lemma collect_loop_eq:
  "jm_wf (pre @ rest) \<Longrightarrow>
    collect_loop now row rest (pre @ rest) acc =
      (pre @ live_entries now rest, acc @ map (\<lambda>p. row (fst p) (snd p)) (live_entries now rest))"
proof (induction rest arbitrary: pre acc)
  case Nil
  then show ?case by (simp add: live_entries_def)
next
  case (Cons p rest)
  obtain k e where p: "p = (k, e)" by (cases p)
  show ?case
  proof (cases "isExpired now e")
    case True
    with Cons.IH [of pre acc] Cons.prems p show ?thesis
      by (simp add: jm_delete_mid jm_wf_mid live_entries_def)
  next
    case False
    with Cons.IH [of "pre @ [p]" "acc @ [row k e]"] Cons.prems p show ?thesis
      by (simp add: live_entries_def)
  qed
qed

lemma collect_entries_eq:
  "jm_wf m \<Longrightarrow> collect_loop now row m m [] =
     (live_entries now m, map (\<lambda>p. row (fst p) (snd p)) (live_entries now m))"
  using collect_loop_eq [of "[]" m now row "[]"] by simp

lemma delete_prefix_loop_eq:
  "jm_wf (pre @ rest) \<Longrightarrow>
    delete_prefix_loop x (jm_keys rest) (pre @ rest) n =
      (pre @ filter (\<lambda>p. \<not> startsWith (fst p) x) rest, n + length (filter (\<lambda>p. startsWith (fst p) x) rest))"
proof (induction rest arbitrary: pre n)
  case Nil
  then show ?case by (simp add: jm_keys_def)
next
  case (Cons p rest)
  obtain k e where p: "p = (k, e)" by (cases p)
  show ?case
  proof (cases "startsWith k x")
    case True
    with Cons.IH [of pre "n + 1"] Cons.prems p show ?thesis
      by (simp add: jm_keys_def jm_delete_mid jm_wf_mid)
  next
    case False
    with Cons.IH [of "pre @ [p]" n] Cons.prems p show ?thesis
      by (simp add: jm_keys_def)
  qed
qed

lemma deleteByPrefix_eq:
  "jm_wf (entries s) \<Longrightarrow> deleteByPrefix x s =
     (s\<lparr>entries := filter (\<lambda>p. \<not> startsWith (fst p) x) (entries s)\<rparr>,
      length (filter (\<lambda>p. startsWith (fst p) x) (entries s)))"
  using delete_prefix_loop_eq [of "[]" "entries s" x 0] by (simp add: deleteByPrefix_def)

subsection \<open>The eviction scans find the first minimum\<close>

abbreviation entry_hits :: "jsstring \<times> cache_entry \<Rightarrow> nat" where
  "entry_hits p \<equiv> ce_hits (snd p)"

lemma lfu_loop_Some:
  "lfu_loop rest (Some k) (Some (ce_hits e)) = Some (fst (first_min_from entry_hits (k, e) rest))"
  by (induction rest arbitrary: k e) (auto simp: hits_less_def)

lemma lfu_loop_eq: "lfu_loop m None None = map_option fst (first_min entry_hits m)"
  by (cases m) (auto simp: first_min_def hits_less_def lfu_loop_Some)

lemma least_accessed_loop_Some:
  "least_accessed_loop n rest (Some k) (Some (ce_hits e)) seen =
     Some (fst (first_min_from entry_hits (k, e) (take (n - seen) rest)))"
proof (induction rest arbitrary: k e seen)
  case Nil
  then show ?case by simp
next
  case (Cons p rest)
  obtain k' e' where p: "p = (k', e')" by (cases p)
  show ?case
  proof (cases "n \<le> seen")
    case True
    with p show ?thesis by simp
  next
    case False
    then have "n - seen = Suc (n - (seen + 1))" by simp
    with False p Cons.IH [of k' e' "seen + 1"] Cons.IH [of k e "seen + 1"] show ?thesis
      by (auto simp: hits_less_def)
  qed
qed

lemma least_accessed_loop_eq:
  "least_accessed_loop n m None None 0 = map_option fst (first_min entry_hits (take n m))"
proof (cases m)
  case Nil
  then show ?thesis by (simp add: first_min_def)
next
  case (Cons p m')
  obtain k e where p: "p = (k, e)" by (cases p)
  show ?thesis
  proof (cases n)
    case 0
    with Cons p show ?thesis by (simp add: first_min_def)
  next
    case (Suc n')
    with Cons p show ?thesis
      by (simp add: first_min_def hits_less_def least_accessed_loop_Some)
  qed
qed

section \<open>The victim of an eviction\<close>

definition victim :: "cache_store \<Rightarrow> jsstring option" where
  \<comment> \<open>the live key the configured policy gives up, when no entry has expired\<close>
  "victim s = map_option fst (case policy s of
       LRU \<Rightarrow> (case entries s of [] \<Rightarrow> None | p # _ \<Rightarrow> Some p)
     | LFU \<Rightarrow> first_min entry_hits (entries s)
     | AccessAware \<Rightarrow> first_min entry_hits (take (evictionSampleSize s) (entries s)))"

definition evict_victim :: "time_ms \<Rightarrow> cache_store \<Rightarrow> jsstring option" where
  "evict_victim now s = (if 0 < expired_count now (entries s) then None else victim s)"

lemma expired_count_0: "expired_count now m = 0 \<longleftrightarrow> live_entries now m = m"
  by (auto simp: expired_count_def live_entries_def filter_empty_conv filter_id_conv)

lemma evict_eq:
  assumes "jm_wf (entries s)"
  shows "evict now s = (case evict_victim now s of
      None \<Rightarrow> s\<lparr>entries := live_entries now (entries s)\<rparr>
    | Some k \<Rightarrow> doEvict k s)"
proof (cases "0 < expired_count now (entries s)")
  case True
  with assms show ?thesis by (simp add: evict_def sweep_eq evict_victim_def)
next
  case False
  then have l: "live_entries now (entries s) = entries s"
    using expired_count_0 by auto
  with False assms show ?thesis
    by (cases "policy s")
      (auto simp: evict_def sweep_eq evict_victim_def victim_def evictOldest_def evictLFU_def
        evictLeastAccessed_def lfu_loop_eq least_accessed_loop_eq jm_keys_def split: list.splits option.splits)
qed

lemma fst_in_keys: "(k, e) \<in> set m \<Longrightarrow> k \<in> set (jm_keys m)"
  by (force simp: jm_keys_def)

lemma victim_mem: "victim s = Some k \<Longrightarrow> k \<in> set (jm_keys (entries s))"
  by (cases "policy s")
    (auto simp: victim_def fst_in_keys jm_keys_def [of "_ # _"] split: list.splits dest!: first_min_mem in_set_takeD)

lemma victim_exists:
  "entries s \<noteq> [] \<Longrightarrow> 0 < evictionSampleSize s \<Longrightarrow> \<exists>k. victim s = Some k"
  by (cases "policy s"; cases "first_min entry_hits (entries s)";
      cases "first_min entry_hits (take (evictionSampleSize s) (entries s))")
    (auto simp: victim_def split: list.splits)

section \<open>The invariant\<close>

definition cache_ok :: "cache_store \<Rightarrow> bool" where
  "cache_ok s \<longleftrightarrow> jm_wf (entries s) \<and> jm_size (entries s) \<le> maxEntries s \<and>
     0 < maxEntries s \<and> 0 < evictionSampleSize s \<and> length (evictLog s) = evictionCount s"

lemma cache_okD:
  assumes "cache_ok s"
  shows "jm_wf (entries s)" and "jm_size (entries s) \<le> maxEntries s"
    and "0 < maxEntries s" and "0 < evictionSampleSize s" and "length (evictLog s) = evictionCount s"
  using assms by (auto simp: cache_ok_def)

lemma jm_size_filter: "jm_size (filter P m) \<le> jm_size m"
  by (simp add: jm_size_def)

lemma jm_size_delete: "jm_size (jm_delete k m) \<le> jm_size m"
  by (simp add: jm_delete_def jm_size_filter)

lemma jm_size_delete_present:
  "jm_wf m \<Longrightarrow> k \<in> set (jm_keys m) \<Longrightarrow> jm_size (jm_delete k m) < jm_size m"
  using jm.length_remove_present [of m k] by (simp add: jm_size_keys)

lemma jm_size_set:
  "jm_size (jm_set k v m) = (if k \<in> set (jm_keys m) then jm_size m else Suc (jm_size m))"
  using jm.length_insert [of k v m] by (simp add: jm_size_keys)

lemma cache_ok_entries:
  "cache_ok s \<Longrightarrow> jm_wf m \<Longrightarrow> jm_size m \<le> jm_size (entries s) \<Longrightarrow> cache_ok (s\<lparr>entries := m\<rparr>)"
  by (simp add: cache_ok_def)

lemma live_entries_size: "jm_size (live_entries now m) \<le> jm_size m"
  by (simp add: live_entries_def jm_size_filter)

lemma live_entries_wf: "jm_wf m \<Longrightarrow> jm_wf (live_entries now m)"
  by (simp add: live_entries_def jm_wf_filter)

lemma expired_count_size: "jm_size (live_entries now m) + expired_count now m = jm_size m"
  unfolding live_entries_def expired_count_def jm_size_def
  using sum_length_filter_compl [of "\<lambda>p. isExpired now (snd p)" m] by simp

lemma doEvict_ok: "cache_ok s \<Longrightarrow> cache_ok (doEvict k s)"
  using jm_size_delete [of k "entries s"] by (simp add: cache_ok_def doEvict_def inv_intros)

lemma evict_ok: "cache_ok s \<Longrightarrow> cache_ok (evict now s)"
  by (auto simp: evict_eq cache_okD doEvict_ok live_entries_wf live_entries_size
      intro: cache_ok_entries split: option.splits)

text \<open>Evicting makes room: the heart of the capacity bound.\<close>

lemma evict_makes_room:
  assumes ok: "jm_wf (entries s)" "0 < evictionSampleSize s" and ne: "entries s \<noteq> []"
  shows "jm_size (entries (evict now s)) < jm_size (entries s)"
proof (cases "0 < expired_count now (entries s)")
  case True
  with ok(1) expired_count_size [of now "entries s"] show ?thesis
    by (simp add: evict_eq evict_victim_def)
next
  case False
  obtain k where k: "victim s = Some k"
    using victim_exists [OF ne ok(2)] by blast
  with ok(1) False jm_size_delete_present [OF ok(1) victim_mem [OF k]] show ?thesis
    by (simp add: evict_eq evict_victim_def doEvict_def)
qed

lemma evict_fields [frame_simps]:
  "jm_wf (entries s) \<Longrightarrow> maxEntries (evict now s) = maxEntries s"
  "jm_wf (entries s) \<Longrightarrow> evictionSampleSize (evict now s) = evictionSampleSize s"
  "jm_wf (entries s) \<Longrightarrow> policy (evict now s) = policy s"
  by (simp_all add: evict_eq doEvict_def split: option.splits)

lemma evict_keys_subset:
  "jm_wf (entries s) \<Longrightarrow> set (jm_keys (entries (evict now s))) \<subseteq> set (jm_keys (entries s))"
  by (auto simp: evict_eq doEvict_def live_entries_def jm_keys_def jm_delete_def split: option.splits)

definition make_room :: "time_ms \<Rightarrow> jsstring \<Rightarrow> cache_store \<Rightarrow> cache_store" where
  \<comment> \<open>the state of \<open>set\<close> just before the new entry is stored\<close>
  "make_room now key s = (let s1 = s\<lparr>entries := jm_delete key (entries s)\<rparr> in
     if maxEntries s1 \<le> jm_size (entries s1) then evict now s1 else s1)"

lemma cache_set_make_room:
  "cache_set now key val ttl s =
     (make_room now key s)\<lparr>entries := jm_set key \<lparr>ce_value = val, ce_expiresAt = deadline now ttl, ce_hits = 0\<rparr>
        (entries (make_room now key s))\<rparr>"
  by (simp add: cache_set_def make_room_def Let_def)

lemma make_room_ok: "cache_ok s \<Longrightarrow> cache_ok (make_room now key s)"
  by (simp add: make_room_def Let_def evict_ok cache_ok_entries jm_size_delete cache_okD inv_intros)

lemma make_room_fresh: "cache_ok s \<Longrightarrow> key \<notin> set (jm_keys (entries (make_room now key s)))"
  using evict_keys_subset [of "s\<lparr>entries := jm_delete key (entries s)\<rparr>" now]
  by (auto simp: make_room_def Let_def cache_okD inv_intros jm.order_remove)

lemma make_room_size:
  assumes "cache_ok s"
  shows "jm_size (entries (make_room now key s)) < maxEntries s"
proof -
  let ?s1 = "s\<lparr>entries := jm_delete key (entries s)\<rparr>"
  have wf: "jm_wf (entries ?s1)" and le: "jm_size (entries ?s1) \<le> maxEntries s"
    using cache_okD [OF assms] jm_size_delete [of key "entries s"] by (auto simp: inv_intros)
  show ?thesis
  proof (cases "maxEntries s \<le> jm_size (entries ?s1)")
    case True
    with cache_okD(3) [OF assms] have ne: "entries ?s1 \<noteq> []"
      by (auto simp: jm_size_def)
    from wf cache_okD(4) [OF assms] ne
    have "jm_size (entries (evict now ?s1)) < jm_size (entries ?s1)"
      by (intro evict_makes_room) simp_all
    with True le show ?thesis by (simp add: make_room_def Let_def)
  next
    case False
    then show ?thesis by (simp add: make_room_def Let_def)
  qed
qed

lemma make_room_fields [frame_simps]:
  "cache_ok s \<Longrightarrow> maxEntries (make_room now key s) = maxEntries s"
  by (simp add: make_room_def Let_def cache_okD frame_simps inv_intros)

lemma cache_set_ok: "cache_ok s \<Longrightarrow> cache_ok (cache_set now key val ttl s)"
  using make_room_ok [of s now key] make_room_fresh [of s key now] make_room_size [of s now key]
    make_room_fields [of s now key]
  by (simp add: cache_set_make_room cache_ok_def inv_intros jm_size_set)

lemma touch_entry_ok: "cache_ok s \<Longrightarrow> key \<in> set (jm_keys (entries s)) \<Longrightarrow> cache_ok (touch_entry key e s)"
  using jm_size_delete_present [of "entries s" key]
  by (simp add: touch_entry_def cache_ok_def inv_intros jm_size_set jm.order_remove)

lemma jm_get_SomeD: "jm_get m k = Some v \<Longrightarrow> k \<in> set (jm_keys m)"
  using jm_get_None [of m k] by auto

lemma cache_ok_delete: "cache_ok s \<Longrightarrow> cache_ok (s\<lparr>entries := jm_delete key (entries s)\<rparr>)"
  by (simp add: cache_ok_entries cache_okD inv_intros jm_size_delete)

lemma cache_ok_live: "cache_ok s \<Longrightarrow> cache_ok (s\<lparr>entries := live_entries now (entries s)\<rparr>)"
  by (simp add: cache_ok_entries cache_okD live_entries_wf live_entries_size)

section \<open>Traces of operations\<close>

datatype cache_op =
  OpSet jsstring jsstring "jsnum option"
  | OpGet jsstring
  | OpGetWithTtl time_ms jsstring
  | OpDelete jsstring
  | OpDeleteByPrefix jsstring
  | OpHas jsstring
  | OpTtl time_ms jsstring
  | OpKeys
  | OpDetailedKeys
  | OpExport
  | OpClear
  | OpSweep
  | OpStartSweeper nat
  | OpStopSweeper
  | OpTick

fun cache_step :: "cache_store \<Rightarrow> time_ms \<times> cache_op \<Rightarrow> cache_store" where
  "cache_step s (now, OpSet k v t) = cache_set now k v t s"
| "cache_step s (now, OpGet k) = fst (cache_get now k s)"
| "cache_step s (now, OpGetWithTtl now' k) = fst (getWithTtl now now' k s)"
| "cache_step s (now, OpDelete k) = fst (cache_delete k s)"
| "cache_step s (now, OpDeleteByPrefix p) = fst (deleteByPrefix p s)"
| "cache_step s (now, OpHas k) = fst (cache_has now k s)"
| "cache_step s (now, OpTtl now' k) = fst (cache_ttl now now' k s)"
| "cache_step s (now, OpKeys) = fst (cache_keys now s)"
| "cache_step s (now, OpDetailedKeys) = fst (detailedKeys now s)"
| "cache_step s (now, OpExport) = fst (exportEntries now s)"
| "cache_step s (now, OpClear) = cache_clear s"
| "cache_step s (now, OpSweep) = fst (sweep now s)"
| "cache_step s (now, OpStartSweeper i) = startSweeper i s"
| "cache_step s (now, OpStopSweeper) = stopSweeper s"
| "cache_step s (now, OpTick) = sweeper_tick now s"

definition cache_run :: "cache_store \<Rightarrow> (time_ms \<times> cache_op) list \<Rightarrow> cache_store" where
  "cache_run s ops = foldl cache_step s ops"

lemma read_ops_ok:
  assumes "cache_ok s"
  shows "cache_ok (fst (cache_get now k s))" and "cache_ok (fst (getWithTtl now now' k s))"
    and "cache_ok (fst (cache_has now k s))" and "cache_ok (fst (cache_ttl now now' k s))"
  using assms
  by (simp_all add: cache_get_def getWithTtl_def cache_has_def cache_ttl_def cache_ok_delete touch_entry_ok
      jm_get_SomeD split: option.splits)

lemma pass_ops_ok:
  assumes "cache_ok s"
  shows "cache_ok (fst (cache_keys now s))" and "cache_ok (fst (detailedKeys now s))"
    and "cache_ok (fst (exportEntries now s))" and "cache_ok (fst (sweep now s))"
    and "cache_ok (fst (deleteByPrefix p s))"
  using cache_okD(1) [OF assms] cache_ok_live [OF assms]
    cache_ok_entries [OF assms jm_wf_filter [OF cache_okD(1) [OF assms]] jm_size_filter]
  by (simp_all add: cache_keys_def detailedKeys_def exportEntries_def collect_entries_eq sweep_eq
      deleteByPrefix_eq)

lemma timer_ops_ok:
  assumes "cache_ok s"
  shows "cache_ok (startSweeper i s)" and "cache_ok (stopSweeper s)" and "cache_ok (cache_clear s)"
  using assms by (auto simp: cache_ok_def startSweeper_def stopSweeper_def cache_clear_def jm_size_def)

lemma cache_step_ok [inv_intros]: "cache_ok s \<Longrightarrow> cache_ok (cache_step s (now, op))"
  by (cases op)
    (simp_all add: cache_set_ok read_ops_ok pass_ops_ok timer_ops_ok cache_delete_def cache_ok_delete
      sweeper_tick_def)

lemma cache_run_ok: "cache_ok s \<Longrightarrow> cache_ok (cache_run s ops)"
  unfolding cache_run_def
  by (induction ops arbitrary: s) (auto simp: inv_intros)

lemma cache_step_maxEntries [frame_simps]:
  assumes "cache_ok s"
  shows "maxEntries (cache_step s (now, op)) = maxEntries s"
  using cache_okD(1) [OF assms] make_room_fields [OF assms]
  by (cases op)
    (simp_all add: cache_set_make_room cache_get_def getWithTtl_def touch_entry_def cache_delete_def
      cache_has_def cache_ttl_def cache_keys_def detailedKeys_def exportEntries_def collect_entries_eq sweep_eq
      deleteByPrefix_eq sweeper_tick_def cache_clear_def startSweeper_def stopSweeper_def split: option.splits)

lemma cache_run_maxEntries: "cache_ok s \<Longrightarrow> maxEntries (cache_run s ops) = maxEntries s"
  unfolding cache_run_def
  by (induction ops arbitrary: s) (auto simp: inv_intros frame_simps)

lemma new_cache_ok:
  "opt_maxEntries opts \<noteq> Some 0 \<Longrightarrow> opt_evictionSampleSize opts \<noteq> Some 0 \<Longrightarrow> cache_ok (new_cache opts)"
  by (auto simp: new_cache_def cache_ok_def jm_size_def split: option.splits)

end
