(* ===== verification/CacheSpec.thy ===== *)
theory CacheSpec
  imports Cache
begin

text \<open>
  What \<open>CacheStore\<close> promises. The abstract state of a store is what a client can read at
  a given time: \<open>visible now s\<close> maps every key that is present and not expired to its
  value and deadline. The lemmas give each operation's effect on it, the locale
  \<open>key_value_store\<close> is the part of the contract the replication layer relies on.
\<close>

section \<open>The abstract state\<close>

type_synonym view = "jsstring \<Rightarrow> (jsstring \<times> jsnum option) option"

definition entry_view :: "time_ms \<Rightarrow> cache_entry \<Rightarrow> (jsstring \<times> jsnum option) option" where
  "entry_view now e = (if isExpired now e then None else Some (ce_value e, ce_expiresAt e))"

definition visible :: "time_ms \<Rightarrow> cache_store \<Rightarrow> view" where
  "visible now s k = (case jm_get (entries s) k of None \<Rightarrow> None | Some e \<Rightarrow> entry_view now e)"

lemma isExpired_mono: "isExpired now e \<Longrightarrow> now \<le> now' \<Longrightarrow> isExpired now' e"
  by (auto simp: isExpired_def intro: le_num_trans split: option.splits)

lemma entry_view_hits [simp]: "entry_view now (e\<lparr>ce_hits := n\<rparr>) = entry_view now e"
  by (simp add: entry_view_def isExpired_def)

lemma visible_fields: "entries s = entries s' \<Longrightarrow> visible now s = visible now s'"
  by (simp add: visible_def fun_eq_iff)

lemma visible_live:
  assumes "jm_wf (entries s)" and "now \<le> now'"
  shows "visible now' (s\<lparr>entries := live_entries now (entries s)\<rparr>) = visible now' s"
  using assms isExpired_mono
  by (fastforce simp: visible_def fun_eq_iff live_entries_def jm_get_filter entry_view_def split: option.splits)

lemma visible_delete:
  "visible now (s\<lparr>entries := jm_delete k (entries s)\<rparr>) = (visible now s)(k := None)"
  by (auto simp: visible_def fun_eq_iff js_simps)

lemma visible_delete_expired:
  assumes "jm_get (entries s) k = Some e" and "isExpired now e" and "now \<le> now'"
  shows "visible now' (s\<lparr>entries := jm_delete k (entries s)\<rparr>) = visible now' s"
  unfolding visible_delete
  using assms isExpired_mono by (auto simp: visible_def fun_eq_iff entry_view_def)

lemma visible_set_entry:
  "visible now (s\<lparr>entries := jm_set k e (entries s)\<rparr>) = (visible now s)(k := entry_view now e)"
  by (auto simp: visible_def fun_eq_iff js_simps)

lemma visible_touch:
  assumes "jm_get (entries s) k = Some e"
  shows "visible now (touch_entry k e s) = visible now s"
  using assms by (auto simp: visible_def fun_eq_iff touch_entry_def js_simps)

lemma visible_doEvict: "visible now (doEvict k s) = (visible now s)(k := None)"
  using visible_delete [where now = now and s = s and k = k] by (simp add: doEvict_def visible_def fun_eq_iff)

section \<open>Writing\<close>

definition set_victim :: "time_ms \<Rightarrow> jsstring \<Rightarrow> cache_store \<Rightarrow> jsstring option" where
  \<comment> \<open>the live key that \<open>set\<close> evicts, if it evicts one\<close>
  "set_victim now key s = (let s1 = s\<lparr>entries := jm_delete key (entries s)\<rparr> in
     if maxEntries s1 \<le> jm_size (entries s1) then evict_victim now s1 else None)"

definition clear_key :: "jsstring option \<Rightarrow> view \<Rightarrow> view" where
  "clear_key ko f = (case ko of None \<Rightarrow> f | Some x \<Rightarrow> f(x := None))"

definition fresh_view :: "time_ms \<Rightarrow> time_ms \<Rightarrow> jsstring \<Rightarrow> jsnum option \<Rightarrow> (jsstring \<times> jsnum option) option" where
  "fresh_view now now' val ttl =
     entry_view now' \<lparr>ce_value = val, ce_expiresAt = deadline now ttl, ce_hits = 0\<rparr>"

lemma visible_make_room:
  assumes ok: "cache_ok s" and le: "now \<le> now'"
  shows "visible now' (make_room now key s) = clear_key (set_victim now key s) ((visible now' s)(key := None))"
proof -
  let ?s1 = "s\<lparr>entries := jm_delete key (entries s)\<rparr>"
  have wf: "jm_wf (entries ?s1)"
    using ok by (simp add: cache_okD inv_intros)
  have "visible now' (evict now ?s1) = clear_key (evict_victim now ?s1) (visible now' ?s1)"
    using visible_live [OF wf le] by (simp add: evict_eq [OF wf] clear_key_def visible_doEvict split: option.splits)
  then show ?thesis
    by (simp add: make_room_def set_victim_def Let_def visible_delete clear_key_def)
qed

lemma visible_cache_set:
  assumes "cache_ok s" and "now \<le> now'"
  shows "visible now' (cache_set now key val ttl s) =
    (clear_key (set_victim now key s) (visible now' s))(key := fresh_view now now' val ttl)"
  using visible_make_room [OF assms, of key]
  by (auto simp: cache_set_make_room visible_set_entry fresh_view_def clear_key_def fun_eq_iff split: option.splits)

text \<open>What each policy evicts.\<close>

definition evicts_by_policy :: "cache_store \<Rightarrow> jsstring \<Rightarrow> bool" where
  "evicts_by_policy s x \<longleftrightarrow> (\<exists>e. (x, e) \<in> set (entries s) \<and> (case policy s of
       LRU \<Rightarrow> hd (entries s) = (x, e)
     | LFU \<Rightarrow> is_first_min entry_hits (entries s) (x, e)
     | AccessAware \<Rightarrow> is_first_min entry_hits (take (evictionSampleSize s) (entries s)) (x, e)))"

lemma victim_evicts_by_policy:
  assumes "victim s = Some x"
  shows "evicts_by_policy s x"
proof (cases "policy s")
  case LRU
  with assms show ?thesis
    by (auto simp: victim_def evicts_by_policy_def split: list.splits)
next
  case AccessAware
  with assms obtain e where e: "first_min entry_hits (take (evictionSampleSize s) (entries s)) = Some (x, e)"
    by (auto simp: victim_def)
  from first_min_mem [OF e] have "(x, e) \<in> set (entries s)"
    by (rule in_set_takeD)
  with AccessAware first_min_is_first_min [OF e] show ?thesis
    by (auto simp: evicts_by_policy_def)
next
  case LFU
  with assms obtain e where e: "first_min entry_hits (entries s) = Some (x, e)"
    by (auto simp: victim_def)
  from LFU first_min_mem [OF e] first_min_is_first_min [OF e] show ?thesis
    by (auto simp: evicts_by_policy_def)
qed

lemma set_victim_Some:
  assumes "set_victim now key s = Some x" and "jm_wf (entries s)"
  shows "maxEntries s \<le> jm_size (jm_delete key (entries s))"
    and "expired_count now (jm_delete key (entries s)) = 0"
    and "x \<noteq> key" and "x \<in> set (jm_keys (entries s))"
    and "evicts_by_policy (s\<lparr>entries := jm_delete key (entries s)\<rparr>) x"
  using assms victim_mem [of "s\<lparr>entries := jm_delete key (entries s)\<rparr>" x]
    victim_evicts_by_policy [of "s\<lparr>entries := jm_delete key (entries s)\<rparr>" x]
  by (auto simp: set_victim_def Let_def evict_victim_def jm.order_remove split: if_splits)

lemma set_victim_None_room: "jm_size (jm_delete key (entries s)) < maxEntries s \<Longrightarrow> set_victim now key s = None"
  by (simp add: set_victim_def)

lemma evictLog_cache_set:
  assumes "cache_ok s"
  shows "evictLog (cache_set now key val ttl s) =
    evictLog s @ (case set_victim now key s of None \<Rightarrow> [] | Some x \<Rightarrow> [x])"
  using assms
  by (auto simp: cache_set_make_room make_room_def set_victim_def Let_def evict_eq cache_okD inv_intros doEvict_def
      split: option.splits)

section \<open>Reading\<close>

fun is_read :: "cache_op \<Rightarrow> bool" where
  "is_read (OpSet _ _ _) = False"
| "is_read (OpDelete _) = False"
| "is_read (OpDeleteByPrefix _) = False"
| "is_read OpClear = False"
| "is_read _ = True"

lemma visible_read:
  assumes ok: "cache_ok s" and read: "is_read op" and le: "now \<le> now'"
  shows "visible now' (cache_step s (now, op)) = visible now' s"
  using read visible_live [OF cache_okD(1) [OF ok] le] cache_okD(1) [OF ok]
  by (cases op)
    (auto simp: cache_get_def getWithTtl_def cache_has_def cache_ttl_def cache_keys_def detailedKeys_def
      exportEntries_def collect_entries_eq sweep_eq sweeper_tick_def startSweeper_def stopSweeper_def
      visible_touch visible_delete_expired [OF _ _ le] intro: visible_fields split: option.splits)

lemma get_result: "snd (cache_get now k s) = map_option fst (visible now s k)"
  by (simp add: cache_get_def visible_def entry_view_def split: option.splits)

lemma getWithTtl_result:
  "snd (getWithTtl now now' k s) =
     map_option (\<lambda>(v, d). (v, map_option (remaining_ttl now') d)) (visible now s k)"
  by (simp add: getWithTtl_def visible_def entry_view_def split: option.splits)

lemma has_result: "snd (cache_has now k s) \<longleftrightarrow> visible now s k \<noteq> None"
  by (simp add: cache_has_def visible_def entry_view_def split: option.splits)

lemma ttl_result:
  "snd (cache_ttl now now' k s) =
     (case visible now s k of Some (v, Some d) \<Rightarrow> Some (remaining_ttl now' d) | _ \<Rightarrow> None)"
  by (simp add: cache_ttl_def visible_def entry_view_def split: option.splits)

lemma get_getWithTtl_state: "fst (getWithTtl now now' k s) = fst (cache_get now k s)"
  by (simp add: cache_get_def getWithTtl_def split: option.splits)

subsection \<open>Remaining time\<close>

lemma num_sub_fin: "\<bar>a - b\<bar> < overflow_limit \<Longrightarrow> Fin a - Fin b = Fin (a - b)"
  by (simp add: mk_num_Fin)

lemma remaining_ttl_Fin:
  assumes "\<bar>d - of_int now\<bar> < overflow_limit"
  shows "remaining_ttl now (Fin d) = Fin (max 0 ((d - of_int now) / 1000))"
proof -
  have "\<bar>(d - of_int now) / 1000\<bar> \<le> \<bar>d - of_int now\<bar>" by simp
  with assms have "\<bar>(d - of_int now) / 1000\<bar> < overflow_limit" by linarith
  with assms show ?thesis
    by (simp add: remaining_ttl_def num_of_int_def mk_num_Fin)
qed

lemma deadline_Fin:
  assumes "0 < t" and "0 \<le> now" and "of_int now + t * 1000 < overflow_limit"
  shows "deadline now (Some (Fin t)) = Some (Fin (of_int now + t * 1000))"
proof -
  have "0 \<le> (of_int now :: rat)" using assms(2) by simp
  with assms have "\<bar>t * 1000\<bar> < overflow_limit" "\<bar>of_int now + t * 1000\<bar> < overflow_limit"
    by linarith+
  with assms(1) show ?thesis
    by (simp add: deadline_def num_of_int_def mk_num_Fin)
qed

subsection \<open>Listings, prefixes and clearing\<close>

lemma live_keys:
  assumes "jm_wf m"
  shows "map fst (live_entries now m) =
    filter (\<lambda>k. case jm_get m k of None \<Rightarrow> False | Some e \<Rightarrow> \<not> isExpired now e) (jm_keys m)"
proof -
  have "filter (\<lambda>p. \<not> isExpired now (snd p)) m =
      filter (\<lambda>p. case jm_get m (fst p) of None \<Rightarrow> False | Some e \<Rightarrow> \<not> isExpired now e) m"
    using assms by (auto intro!: filter_cong simp: jm_entry_get)
  then show ?thesis
    by (simp add: live_entries_def jm_keys_def filter_map comp_def)
qed

lemma visible_None_iff:
  "visible now s k \<noteq> None \<longleftrightarrow> (case jm_get (entries s) k of None \<Rightarrow> False | Some e \<Rightarrow> \<not> isExpired now e)"
  by (simp add: visible_def entry_view_def split: option.splits)

lemma cache_keys_result:
  "jm_wf (entries s) \<Longrightarrow>
    snd (cache_keys now s) = filter (\<lambda>k. visible now s k \<noteq> None) (jm_keys (entries s))"
  unfolding visible_None_iff by (simp add: cache_keys_def collect_entries_eq live_keys)

lemma live_entry_rows:
  assumes "jm_wf (entries s)" and "\<And>k e. jm_get (entries s) k = Some e \<Longrightarrow> \<not> isExpired now e \<Longrightarrow> f k = row k e"
  shows "map (\<lambda>p. row (fst p) (snd p)) (live_entries now (entries s)) = map f (snd (cache_keys now s))"
  using assms
  by (auto simp: cache_keys_def collect_entries_eq live_entries_def jm_entry_get)

lemma visible_deleteByPrefix:
  assumes "jm_wf (entries s)"
  shows "visible now (fst (deleteByPrefix x s)) = (\<lambda>k. if startsWith k x then None else visible now s k)"
  using assms
  by (auto simp: deleteByPrefix_eq visible_def fun_eq_iff jm_get_filter split: option.splits)

lemma visible_clear: "visible now (cache_clear s) = (\<lambda>k. None)"
  by (simp add: visible_def cache_clear_def fun_eq_iff)

lemma visible_cache_delete: "visible now (fst (cache_delete k s)) = (visible now s)(k := None)"
  by (simp add: cache_delete_def visible_delete)

section \<open>The interface the replication layer relies on\<close>

text \<open>
  A store with time-limited entries: \<open>view s t\<close> is what can be read from \<open>s\<close> at \<open>t\<close>,
  \<open>stored s\<close> the keys that take up capacity, \<open>due now ttl\<close> the deadline a write at \<open>now\<close>
  gets and \<open>alive\<close> whether a deadline still lies ahead. \<open>poll\<close> is any read.
\<close>

locale key_value_store =
  fixes ok :: "'s \<Rightarrow> bool"
    and view :: "'s \<Rightarrow> time_ms \<Rightarrow> 'k \<Rightarrow> ('v \<times> 'd) option"
    and stored :: "'s \<Rightarrow> 'k set"
    and capacity :: "'s \<Rightarrow> nat"
    and put :: "time_ms \<Rightarrow> 'k \<Rightarrow> 'v \<Rightarrow> 'ttl \<Rightarrow> 's \<Rightarrow> 's"
    and del :: "'k \<Rightarrow> 's \<Rightarrow> 's"
    and del_where :: "'p \<Rightarrow> 's \<Rightarrow> 's"
    and wipe :: "'s \<Rightarrow> 's"
    and poll :: "time_ms \<Rightarrow> 'r \<Rightarrow> 's \<Rightarrow> 's"
    and matches :: "'k \<Rightarrow> 'p \<Rightarrow> bool"
    and due :: "time_ms \<Rightarrow> 'ttl \<Rightarrow> 'd"
    and alive :: "time_ms \<Rightarrow> 'd \<Rightarrow> bool"
  assumes finite_stored: "finite (stored s)"
    and put_view: "ok s \<Longrightarrow> card (insert k (stored s)) \<le> capacity s \<Longrightarrow> now \<le> t \<Longrightarrow>
      view (put now k v ttl s) t =
        (view s t)(k := if alive t (due now ttl) then Some (v, due now ttl) else None)"
    and del_view: "ok s \<Longrightarrow> view (del k s) t = (view s t)(k := None)"
    and del_where_view: "ok s \<Longrightarrow> view (del_where p s) t = (\<lambda>k. if matches k p then None else view s t k)"
    and wipe_view: "ok s \<Longrightarrow> view (wipe s) t = (\<lambda>k. None)"
    and poll_view: "ok s \<Longrightarrow> now \<le> t \<Longrightarrow> view (poll now r s) t = view s t"
    and stored_put: "ok s \<Longrightarrow> stored (put now k v ttl s) \<subseteq> insert k (stored s)"
    and stored_shrink: "ok s \<Longrightarrow> stored (del k s) \<subseteq> stored s" "ok s \<Longrightarrow> stored (del_where p s) \<subseteq> stored s"
      "ok s \<Longrightarrow> stored (wipe s) \<subseteq> stored s" "ok s \<Longrightarrow> stored (poll now r s) \<subseteq> stored s"
    and capacity_const: "ok s \<Longrightarrow> capacity (put now k v ttl s) = capacity s" "ok s \<Longrightarrow> capacity (del k s) = capacity s"
      "ok s \<Longrightarrow> capacity (del_where p s) = capacity s" "ok s \<Longrightarrow> capacity (wipe s) = capacity s"
      "ok s \<Longrightarrow> capacity (poll now r s) = capacity s"
    and ok_kept: "ok s \<Longrightarrow> ok (put now k v ttl s)" "ok s \<Longrightarrow> ok (del k s)" "ok s \<Longrightarrow> ok (del_where p s)"
      "ok s \<Longrightarrow> ok (wipe s)" "ok s \<Longrightarrow> ok (poll now r s)"
begin

text \<open>
  \<open>represents t0 s m\<close>: from \<open>t0\<close> on, \<open>s\<close> reads as the map \<open>m\<close> of values and deadlines
  with the entries whose deadline has passed left out.
\<close>

definition represents :: "time_ms \<Rightarrow> 's \<Rightarrow> ('k \<Rightarrow> ('v \<times> 'd) option) \<Rightarrow> bool" where
  "represents t0 s m \<longleftrightarrow> (\<forall>t k. t0 \<le> t \<longrightarrow> view s t k =
     (case m k of None \<Rightarrow> None | Some (v, d) \<Rightarrow> if alive t d then Some (v, d) else None))"

lemma represents_later: "represents t0 s m \<Longrightarrow> t0 \<le> t1 \<Longrightarrow> represents t1 s m"
  by (simp add: represents_def)

lemma represents_put:
  assumes "ok s" and "card (insert k (stored s)) \<le> capacity s" and "represents t0 s m" and "t0 \<le> now"
  shows "represents now (put now k v ttl s) (m(k \<mapsto> (v, due now ttl)))"
  using assms by (simp add: represents_def put_view)

lemma represents_del:
  assumes "ok s" and "represents t0 s m" and "t0 \<le> now"
  shows "represents now (del k s) (m(k := None))"
  using assms by (simp add: represents_def del_view)

lemma represents_del_where:
  assumes "ok s" and "represents t0 s m" and "t0 \<le> now"
  shows "represents now (del_where p s) (\<lambda>k. if matches k p then None else m k)"
  using assms by (simp add: represents_def del_where_view)

lemma represents_wipe: "ok s \<Longrightarrow> represents now (wipe s) (\<lambda>k. None)"
  by (simp add: represents_def wipe_view)

lemma represents_poll:
  assumes "ok s" and "represents t0 s m" and "t0 \<le> now"
  shows "represents now (poll now r s) m"
  using assms by (simp add: represents_def poll_view)

lemma room_from_bound:
  assumes "stored s \<subseteq> K" and "finite K" and "card K \<le> capacity s" and "k \<in> K"
  shows "card (insert k (stored s)) \<le> capacity s"
  using assms by (meson card_mono insert_subset order_trans)

end

definition stored_keys :: "cache_store \<Rightarrow> jsstring set" where
  "stored_keys s = set (jm_keys (entries s))"

definition not_due :: "time_ms \<Rightarrow> jsnum option \<Rightarrow> bool" where
  "not_due t d = (case d of None \<Rightarrow> True | Some x \<Rightarrow> \<not> x \<le> num_of_int t)"

definition read_step :: "time_ms \<Rightarrow> cache_op \<Rightarrow> cache_store \<Rightarrow> cache_store" where
  "read_step now op s = (if is_read op then cache_step s (now, op) else s)"

lemma stored_room:
  assumes "cache_ok s" and "card (insert k (stored_keys s)) \<le> maxEntries s"
  shows "jm_size (jm_delete k (entries s)) < maxEntries s"
proof -
  have d: "distinct (jm_keys (entries s))"
    using assms(1) by (simp add: cache_okD jm_wf_keys [symmetric])
  have "jm_size (jm_delete k (entries s)) = card (set (jm_keys (jm_delete k (entries s))))"
    using distinct_card [OF distinct_filter [OF d, of "\<lambda>k'. k' \<noteq> k"]]
    by (simp only: jm_size_keys jm.order_remove)
  also have "\<dots> < card (insert k (stored_keys s))"
    by (rule psubset_card_mono) (auto simp: stored_keys_def jm.order_remove)
  finally show ?thesis using assms(2) by simp
qed

lemma fresh_view_not_due:
  "fresh_view now t v ttl = (if not_due t (deadline now ttl) then Some (v, deadline now ttl) else None)"
  by (simp add: fresh_view_def entry_view_def isExpired_def not_due_def split: option.splits)

lemma stored_entries_mono:
  "set (entries s') \<subseteq> set (entries s) \<Longrightarrow> stored_keys s' \<subseteq> stored_keys s"
  by (auto simp: stored_keys_def jm_keys_def)

lemma stored_cache_set: "cache_ok s \<Longrightarrow> stored_keys (cache_set now k v ttl s) \<subseteq> insert k (stored_keys s)"
  using evict_keys_subset [of "s\<lparr>entries := jm_delete k (entries s)\<rparr>" now]
  by (auto simp: cache_set_make_room stored_keys_def jm.order_insert make_room_def Let_def cache_okD inv_intros
      jm.order_remove split: if_splits)

lemma stored_read_step:
  assumes "cache_ok s"
  shows "stored_keys (read_step now op s) \<subseteq> stored_keys s"
  using cache_okD(1) [OF assms]
  by (cases op)
    (auto simp: read_step_def cache_get_def getWithTtl_def cache_has_def cache_ttl_def cache_keys_def
      detailedKeys_def exportEntries_def collect_entries_eq sweep_eq sweeper_tick_def startSweeper_def
      stopSweeper_def stored_keys_def touch_entry_def jm.order_insert jm.order_remove live_entries_def
      jm_keys_def [of "filter _ _"] fst_in_keys dest: jm_get_SomeD split: option.splits if_splits)

lemma finite_stored_keys: "finite (stored_keys s)"
  by (simp add: stored_keys_def)

lemma stored_removals:
  shows "stored_keys (fst (cache_delete k s)) \<subseteq> stored_keys s"
    and "cache_ok s \<Longrightarrow> stored_keys (fst (deleteByPrefix p s)) \<subseteq> stored_keys s"
    and "stored_keys (cache_clear s) \<subseteq> stored_keys s"
  by (auto intro!: stored_entries_mono simp: cache_delete_def jm_delete_def deleteByPrefix_eq cache_okD cache_clear_def)

lemma kept_maxEntries:
  shows "cache_ok s \<Longrightarrow> maxEntries (cache_set now k v ttl s) = maxEntries s"
    and "maxEntries (fst (cache_delete k s)) = maxEntries s"
    and "cache_ok s \<Longrightarrow> maxEntries (fst (deleteByPrefix p s)) = maxEntries s"
    and "maxEntries (cache_clear s) = maxEntries s"
    and "cache_ok s \<Longrightarrow> maxEntries (read_step now op s) = maxEntries s"
  using cache_step_maxEntries [of s now "OpSet k v ttl"]
  by (simp_all add: cache_delete_def deleteByPrefix_eq cache_okD cache_clear_def read_step_def frame_simps)

lemma read_step_ok: "cache_ok s \<Longrightarrow> cache_ok (read_step now op s)"
  by (simp add: read_step_def inv_intros)

lemma delete_ok: "cache_ok s \<Longrightarrow> cache_ok (fst (cache_delete k s))"
  by (simp add: cache_delete_def cache_ok_delete)

interpretation kv: key_value_store cache_ok "\<lambda>s t. visible t s" stored_keys maxEntries cache_set
  "\<lambda>k s. fst (cache_delete k s)" "\<lambda>p s. fst (deleteByPrefix p s)" cache_clear read_step startsWith
  deadline not_due
proof (unfold_locales, goal_cases)
  case (2 s k now t v ttl)
  then have "set_victim now k s = None"
    by (intro set_victim_None_room stored_room)
  with 2 show ?case
    by (simp add: visible_cache_set clear_key_def fresh_view_not_due)
next
  case (6 s now t r)
  then show ?case by (simp add: read_step_def visible_read)
next
  case (17 s now k v ttl)
  then show ?case by (rule cache_set_ok)
qed (simp_all add: visible_cache_delete visible_deleteByPrefix visible_clear cache_okD stored_cache_set
    stored_removals stored_read_step kept_maxEntries read_step_ok pass_ops_ok timer_ops_ok delete_ok finite_stored_keys)

section \<open>The contract as properties\<close>

text \<open>C1: From a freshly constructed store with a positive entry limit and sample size, no
  sequence of operations (sets, reads, deletes, sweeps, at any times) ever leaves more than
  \<open>maxEntries\<close> entries or a duplicate key, and the eviction counter counts the keys
  reported to \<open>onEvict\<close>.\<close>

theorem cache_capacity:
  assumes "opt_maxEntries opts \<noteq> Some 0" and "opt_evictionSampleSize opts \<noteq> Some 0"
  shows "cache_size (cache_run (new_cache opts) ops) \<le> maxEntries (new_cache opts) \<and>
    distinct (jm_keys (entries (cache_run (new_cache opts) ops))) \<and>
    evictionCount (cache_run (new_cache opts) ops) = length (evictLog (cache_run (new_cache opts) ops))"
  using cache_run_ok [OF new_cache_ok [OF assms], of ops] cache_run_maxEntries [OF new_cache_ok [OF assms], of ops]
  by (simp add: cache_ok_def cache_size_def jm_wf_keys)

definition small_opts :: "eviction_policy \<Rightarrow> cache_store_options" where
  "small_opts p = \<lparr>opt_maxEntries = Some 2, opt_policy = Some p, opt_evictionSampleSize = Some 2\<rparr>"

definition small_run :: "(time_ms \<times> cache_op) list" where
  "small_run = [(0, OpSet ''a'' ''1'' None), (1, OpSet ''b'' ''2'' None), (2, OpGet ''a'')]"

definition small_entries :: "(jsstring, cache_entry) jsmap" where
  "small_entries = [(''b'', \<lparr>ce_value = ''2'', ce_expiresAt = None, ce_hits = 0\<rparr>),
     (''a'', \<lparr>ce_value = ''1'', ce_expiresAt = None, ce_hits = 1\<rparr>)]"

definition small_cache :: "eviction_policy \<Rightarrow> cache_store" where
  "small_cache p = (new_cache (small_opts p))\<lparr>entries := small_entries\<rparr>"

lemmas small_defs = small_cache_def small_opts_def new_cache_def small_entries_def

lemma small_cache_run: "cache_run (new_cache (small_opts p)) small_run = small_cache p"
  by (simp add: cache_run_def small_run_def small_defs cache_set_def Let_def jm_delete_def jm_size_def deadline_def
      cache_get_def isExpired_def touch_entry_def)

lemma small_cache_ok: "cache_ok (small_cache p)"
  unfolding small_cache_run [symmetric] by (rule cache_run_ok, rule new_cache_ok) (simp_all add: small_opts_def)

theorem cache_capacity_witness:
  "cache_size (cache_run (new_cache (small_opts LRU)) (small_run @ [(3, OpSet ''c'' ''3'' None)])) \<le> 2"
  using cache_capacity [of "small_opts LRU" "small_run @ [(3, OpSet ''c'' ''3'' None)]"]
  by (simp add: small_opts_def new_cache_def)

text \<open>C2: What \<open>set\<close> does to the visible contents: the key reads as the new value (until its
  deadline), at most one other live key - the one the policy gives up, and only when the
  store is full of live entries - disappears, and every other key reads as before.\<close>

theorem cache_set_contract:
  assumes "cache_ok s" and "now \<le> now'"
  shows "visible now' (cache_set now key val ttl s) =
    (\<lambda>k. if k = key then fresh_view now now' val ttl
         else if set_victim now key s = Some k then None
         else visible now' s k)"
  unfolding visible_cache_set [OF assms]
  by (auto simp: fun_eq_iff clear_key_def split: option.splits)

theorem cache_set_contract_witness:
  "visible 5 (cache_set 3 ''c'' ''3'' None (small_cache LRU)) ''a'' = Some (''1'', None) \<and>
   visible 5 (cache_set 3 ''c'' ''3'' None (small_cache LRU)) ''b'' = None \<and>
   visible 5 (cache_set 3 ''c'' ''3'' None (small_cache LRU)) ''c'' = Some (''3'', None)"
  using cache_set_contract [OF small_cache_ok [of LRU], of 3 5 "''c''" "''3''" None]
  by (simp add: small_defs set_victim_def Let_def evict_victim_def victim_def expired_count_def isExpired_def
      jm_delete_def jm_size_def visible_def entry_view_def fresh_view_def deadline_def)

lemma evict_chooses:
  assumes "jm_wf (entries s)" and "entries s \<noteq> []" and "0 < evictionSampleSize s"
  shows "\<exists>x. x \<in> set (jm_keys (entries s)) \<and> evicts_by_policy s x \<and>
    evict now s = (if \<forall>p \<in> set (entries s). \<not> isExpired now (snd p) then doEvict x s
      else s\<lparr>entries := filter (\<lambda>p. \<not> isExpired now (snd p)) (entries s)\<rparr>)"
proof -
  obtain x where x: "victim s = Some x" using victim_exists [OF assms(2,3)] by auto
  have "expired_count now (entries s) = 0 \<longleftrightarrow> (\<forall>p \<in> set (entries s). \<not> isExpired now (snd p))"
    by (auto simp: expired_count_def filter_empty_conv)
  then show ?thesis
    using evict_eq [OF assms(1), of now] x victim_mem [OF x] victim_evicts_by_policy [OF x]
    by (intro exI [of _ x]) (auto simp: evict_victim_def live_entries_def)
qed

text \<open>C12: An eviction happens only when the store is full of live keys, and its victim is the
  policy's choice. With \<open>others\<close> the entries besides the written key, \<open>set\<close> evicts exactly when
  these fill the store and none of them has expired; then exactly one key goes, which is the
  front of the recency order for LRU, the least read key of the oldest \<open>evictionSampleSize\<close>
  for access-aware, the least read of all for LFU, the oldest among equals, and it is
  reported and counted. Otherwise nothing is reported or counted, and what goes are
  the expired entries of a full store, or nothing at all. In all cases the written key is
  stored at the most recent end.\<close>

theorem cache_eviction_choice:
  assumes "cache_ok s" and "others = jm_delete key (entries s)" and "s' = cache_set now key val ttl s"
  shows "if maxEntries s \<le> jm_size others \<and> (\<forall>p \<in> set others. \<not> isExpired now (snd p))
    then \<exists>x. x \<noteq> key \<and> x \<in> set (jm_keys others) \<and> evicts_by_policy (s\<lparr>entries := others\<rparr>) x \<and>
      entries s' = filter (\<lambda>p. fst p \<noteq> x) others @ [(key, \<lparr>ce_value = val, ce_expiresAt = deadline now ttl, ce_hits = 0\<rparr>)] \<and>
      evictLog s' = evictLog s @ [x] \<and> evictionCount s' = evictionCount s + 1
    else entries s' = (if maxEntries s \<le> jm_size others then filter (\<lambda>p. \<not> isExpired now (snd p)) others else others) @
        [(key, \<lparr>ce_value = val, ce_expiresAt = deadline now ttl, ce_hits = 0\<rparr>)] \<and>
      evictLog s' = evictLog s \<and> evictionCount s' = evictionCount s"
proof -
  let ?s = "s\<lparr>entries := others\<rparr>"
  let ?new = "\<lparr>ce_value = val, ce_expiresAt = deadline now ttl, ce_hits = 0\<rparr>"
  have wf: "jm_wf others" "key \<notin> fst ` set others" using assms(1,2) by (auto simp: cache_okD inv_intros jm_delete_def)
  have fresh: "jm_set key ?new (filter P others) = filter P others @ [(key, ?new)]" for P
    using wf(2) by (intro jm_set_append) (auto simp: jm_keys_def)
  have s': "s' = (let m = if maxEntries s \<le> jm_size others then evict now ?s else ?s in m\<lparr>entries := jm_set key ?new (entries m)\<rparr>)"
    using assms(2,3) by (simp add: cache_set_def Let_def)
  show ?thesis
  proof (cases "maxEntries s \<le> jm_size others")
    case False
    then show ?thesis using s' fresh [of "\<lambda>_. True"] by (simp add: Let_def)
  next
    case True
    have "entries ?s \<noteq> []" using True cache_okD(3) [OF assms(1)] by (auto simp: jm_size_def)
    then obtain x where x: "x \<in> set (jm_keys others)" "evicts_by_policy ?s x"
        "evict now ?s = (if \<forall>p \<in> set others. \<not> isExpired now (snd p) then doEvict x ?s
          else ?s\<lparr>entries := filter (\<lambda>p. \<not> isExpired now (snd p)) others\<rparr>)"
      using evict_chooses [of ?s now] wf(1) cache_okD(4) [OF assms(1)] by auto
    have "x \<noteq> key" using x(1) wf(2) by (auto simp: jm_keys_def)
    then show ?thesis
      using s' True x fresh [of "\<lambda>p. fst p \<noteq> x"] fresh [of "\<lambda>p. \<not> isExpired now (snd p)"]
      by (auto simp: Let_def doEvict_def jm_delete_def)
  qed
qed

theorem cache_eviction_choice_witness:
  "evictLog (cache_set 3 ''c'' ''3'' None (small_cache LFU)) = [''b'']"
proof -
  obtain x where "evictLog (cache_set 3 ''c'' ''3'' None (small_cache LFU)) = evictLog (small_cache LFU) @ [x]"
      "evicts_by_policy ((small_cache LFU)\<lparr>entries := jm_delete ''c'' (entries (small_cache LFU))\<rparr>) x"
    using cache_eviction_choice [OF small_cache_ok refl refl, of LFU "''c''" 3 "''3''" None]
    by (auto simp: small_defs jm_delete_def jm_size_def isExpired_def)
  moreover from this(2) have "x = ''b''"
    by (auto simp: small_defs evicts_by_policy_def is_first_min_def jm_delete_def Cons_eq_append_conv)
  ultimately show ?thesis by (simp add: small_defs)
qed

text \<open>C18: No read - \<open>get\<close>, \<open>getWithTtl\<close>, \<open>has\<close>, \<open>ttl\<close>, the three listings, a sweep or a
  sweeper tick - changes what any key reads as, then or later, although they reorder
  entries, count hits and drop expired entries.\<close>

theorem cache_reads_preserve_view:
  assumes "cache_ok s" and "is_read op" and "now \<le> now'"
  shows "visible now' (cache_step s (now, op)) = visible now' s"
  using assms by (rule visible_read)

theorem cache_reads_preserve_view_witness:
  "visible 9 (cache_step (small_cache LRU) (4, OpGet ''b'')) ''a'' = Some (''1'', None)"
  using cache_reads_preserve_view [OF small_cache_ok [of LRU], of "OpGet ''b''" 4 9]
  by (simp add: small_defs visible_def entry_view_def isExpired_def)

text \<open>What the point reads return is what the key reads as: \<open>get\<close> the value, \<open>getWithTtl\<close>
  the value with the remaining time, \<open>has\<close> whether there is one, \<open>ttl\<close> the remaining time
  of a key that has a deadline; and \<open>getWithTtl\<close> leaves exactly the state \<open>get\<close> leaves.\<close>

lemma cache_point_reads:
  "snd (cache_get now k s) = map_option fst (visible now s k) \<and>
   snd (getWithTtl now now' k s) =
     map_option (\<lambda>(v, d). (v, map_option (remaining_ttl now') d)) (visible now s k) \<and>
   fst (getWithTtl now now' k s) = fst (cache_get now k s) \<and>
   snd (cache_has now k s) = (visible now s k \<noteq> None) \<and>
   snd (cache_ttl now now' k s) =
     (case visible now s k of Some (v, Some d) \<Rightarrow> Some (remaining_ttl now' d) | _ \<Rightarrow> None)"
  by (simp add: get_result getWithTtl_result get_getWithTtl_state has_result ttl_result)

text \<open>C19: Expiry is exact to the millisecond and the reported remaining time is never
  negative: a key set at \<open>now\<close> with a positive finite \<open>ttl\<close> of \<open>t\<close> seconds is read, with
  \<open>t\<close> less the elapsed seconds as its remaining time, strictly before \<open>now + 1000 t\<close>, and
  is a miss from that instant on.\<close>

theorem cache_ttl_exact:
  assumes "cache_ok s" and "0 < t" and "0 \<le> now" and "of_int now + t * 1000 < overflow_limit"
    and "now \<le> now1" and "now1 \<le> now2" and "of_int now2 < overflow_limit"
  shows "snd (getWithTtl now1 now2 k (cache_set now k v (Some (Fin t)) s)) =
    (if of_int now1 < of_int now + t * 1000
     then Some (v, Some (Fin (max 0 (t - of_int (now2 - now) / 1000)))) else None)"
proof -
  let ?d = "of_int now + t * 1000"
  have d: "deadline now (Some (Fin t)) = Some (Fin ?d)"
    using assms by (intro deadline_Fin)
  have n: "0 \<le> (of_int now :: rat)" "(of_int now :: rat) \<le> of_int now2"
    using assms by simp_all
  have "\<bar>?d - of_int now2\<bar> < overflow_limit"
    using assms(2,4,7) n by (simp add: abs_less_iff)
  then have r: "remaining_ttl now2 (Fin ?d) = Fin (max 0 ((?d - of_int now2) / 1000))"
    by (rule remaining_ttl_Fin)
  have e: "(?d - of_int now2) / 1000 = t - of_int (now2 - now) / 1000"
    by (simp add: field_simps)
  show ?thesis
    unfolding getWithTtl_result visible_cache_set [OF assms(1,5)]
    using r by (simp add: fresh_view_def entry_view_def isExpired_def d num_of_int_def e not_le)
qed

theorem cache_ttl_exact_witness:
  "snd (getWithTtl 1499 1500 ''k'' (cache_set 1000 ''k'' ''v'' (Some (Fin (1/2))) (small_cache LRU))) =
     Some (''v'', Some (Fin 0)) \<and>
   snd (getWithTtl 1500 1500 ''k'' (cache_set 1000 ''k'' ''v'' (Some (Fin (1/2))) (small_cache LRU))) = None"
proof -
  have l: "(2000 :: rat) < overflow_limit"
    using overflow_limit_large by simp
  then have h: "of_int 1000 + (1/2) * 1000 < overflow_limit" "of_int 1500 < overflow_limit" by simp_all
  show ?thesis
    using cache_ttl_exact [OF small_cache_ok [of LRU], of "1/2" 1000 1499 1500 "''k''" "''v''"]
      cache_ttl_exact [OF small_cache_ok [of LRU], of "1/2" 1000 1500 1500 "''k''" "''v''"] h
    by simp
qed

text \<open>The three listings show exactly the live keys, in recency order: \<open>keys\<close> the keys,
  \<open>detailedKeys\<close> each key's read count and remaining time, \<open>exportEntries\<close> each key's value
  and remaining time; and the size reported afterwards is the number of keys listed.\<close>

lemma cache_listings:
  assumes "cache_ok s"
  shows "snd (cache_keys now s) = filter (\<lambda>k. visible now s k \<noteq> None) (jm_keys (entries s)) \<and>
    snd (detailedKeys now s) = map (\<lambda>k. (k, the (accessCount now k s),
        snd (the (snd (getWithTtl now now k s))))) (snd (cache_keys now s)) \<and>
    snd (exportEntries now s) = map (\<lambda>k. (k, the (snd (getWithTtl now now k s)))) (snd (cache_keys now s)) \<and>
    cache_size (fst (cache_keys now s)) = length (snd (cache_keys now s))"
proof -
  note wf = cache_okD(1) [OF assms]
  have d: "snd (detailedKeys now s) = map (\<lambda>k. (k, the (accessCount now k s),
      snd (the (snd (getWithTtl now now k s))))) (snd (cache_keys now s))"
    by (simp add: detailedKeys_def collect_entries_eq [OF wf], rule live_entry_rows [OF wf])
      (simp add: accessCount_def getWithTtl_def entry_ttl_def)
  have e: "snd (exportEntries now s) = map (\<lambda>k. (k, the (snd (getWithTtl now now k s)))) (snd (cache_keys now s))"
    by (simp add: exportEntries_def collect_entries_eq [OF wf], rule live_entry_rows [OF wf])
      (simp add: getWithTtl_def entry_ttl_def)
  have "cache_size (fst (cache_keys now s)) = length (snd (cache_keys now s))"
    by (simp add: cache_keys_def collect_entries_eq [OF wf] cache_size_def jm_size_def)
  with cache_keys_result [OF wf] d e show ?thesis by blast
qed

lemma cache_listings_witness:
  "snd (exportEntries 7 (small_cache LFU)) = [(''b'', ''2'', None), (''a'', ''1'', None)]"
  using cache_listings [OF small_cache_ok [of LFU], of 7]
  by (simp add: small_defs visible_def entry_view_def isExpired_def jm_keys_def getWithTtl_def)

text \<open>\<open>deleteByPrefix\<close> removes exactly the keys that start with the prefix, expired or not,
  and returns their number; the empty prefix empties the store as \<open>clear\<close> does.\<close>

lemma cache_prefix_delete:
  assumes "cache_ok s"
  shows "jm_keys (entries (fst (deleteByPrefix x s))) = filter (\<lambda>k. \<not> startsWith k x) (jm_keys (entries s)) \<and>
    snd (deleteByPrefix x s) = length (filter (\<lambda>k. startsWith k x) (jm_keys (entries s))) \<and>
    visible now (fst (deleteByPrefix x s)) = (\<lambda>k. if startsWith k x then None else visible now s k) \<and>
    fst (deleteByPrefix [] s) = cache_clear s"
  using cache_okD(1) [OF assms]
  by (simp add: visible_deleteByPrefix)
    (simp add: deleteByPrefix_eq jm_keys_def filter_map comp_def cache_clear_def)

lemma cache_prefix_delete_witness:
  "snd (deleteByPrefix ''a'' (small_cache LRU)) = 1"
  using cache_prefix_delete [OF small_cache_ok [of LRU], of "''a''"]
  by (simp add: small_defs jm_keys_def startsWith_def)

text \<open>A hit makes the key the most recently used one and counts the read; every other key
  keeps its place and its count. A \<open>set\<close> also makes the key the most recent, with no reads,
  so the front of the map is always the least recently used key.\<close>

lemma cache_recency:
  assumes "cache_ok s" and "visible now s k \<noteq> None"
  shows "jm_keys (entries (fst (cache_get now k s))) = filter (\<lambda>x. x \<noteq> k) (jm_keys (entries s)) @ [k] \<and>
    accessCount now k (fst (cache_get now k s)) = map_option Suc (accessCount now k s) \<and>
    (\<forall>x. x \<noteq> k \<longrightarrow> accessCount now x (fst (cache_get now k s)) = accessCount now x s) \<and>
    last (jm_keys (entries (cache_set now x v ttl s))) = x \<and>
    jm_get (entries (cache_set now x v ttl s)) x =
      Some \<lparr>ce_value = v, ce_expiresAt = deadline now ttl, ce_hits = 0\<rparr>"
proof -
  from assms(2) obtain e where e: "jm_get (entries s) k = Some e" "\<not> isExpired now e"
    by (auto simp: visible_def entry_view_def split: option.splits if_splits)
  have "fst (cache_get now k s) = touch_entry k e s"
    using e by (simp add: cache_get_def)
  moreover have "isExpired now (e\<lparr>ce_hits := n\<rparr>) = isExpired now e" for n
    by (simp add: isExpired_def)
  ultimately show ?thesis
    using e make_room_fresh [OF assms(1), of x now]
    by (auto simp: touch_entry_def js_simps accessCount_def cache_set_make_room jm.order_insert)
qed

lemma cache_recency_witness:
  "jm_keys (entries (fst (cache_get 3 ''b'' (small_cache LRU)))) = [''a'', ''b'']"
proof -
  have "visible 3 (small_cache LRU) ''b'' \<noteq> None"
    by (simp add: small_defs visible_def entry_view_def isExpired_def)
  from cache_recency [OF small_cache_ok this] show ?thesis
    by (simp add: small_defs jm_keys_def)
qed

end
