(* ===== verification/Replication.thy ===== *)
theory Replication
  imports CacheSpec
begin

text \<open>
  \<open>src/network/replication.ts\<close>: the operations a primary forwards, their application to
  a replica's store, and the startup pull of a snapshot. A message is delivered by an
  HTTP request; whether and when it arrives is not under the program's control, so the
  model of delivery is the list of operations a replica applies and the times at which
  it does.
\<close>

section \<open>Operations\<close>

datatype ReplicationOp =
  RSet jsstring jsstring "jsnum option"
  | RDelete jsstring
  | RInvalidate jsstring
  | RFlush

fun applyReplicationOp :: "time_ms \<Rightarrow> cache_store \<Rightarrow> ReplicationOp \<Rightarrow> cache_store" where
  "applyReplicationOp now store (RSet key val ttl) = cache_set now key val ttl store"
| "applyReplicationOp now store (RDelete key) = fst (cache_delete key store)"
| "applyReplicationOp now store (RInvalidate pre) = fst (deleteByPrefix pre store)"
| "applyReplicationOp now store RFlush = cache_clear store"

definition resolveReplicaUrls :: "jsstring option \<Rightarrow> jsstring list" where
  "resolveReplicaUrls envValue = (case envValue of
       None \<Rightarrow> []
     | Some v \<Rightarrow> if v = [] then []
         else filter (\<lambda>s. 0 < length s) (map (\<lambda>s. strip_slash (trim s)) (split_on CHR '','' v)))"

definition forwardToReplicas :: "jsstring list \<Rightarrow> ReplicationOp \<Rightarrow> (jsstring \<times> ReplicationOp) list" where
  \<comment> \<open>the requests issued: one to \<open>url/internal/replicate\<close> for every replica, in order\<close>
  "forwardToReplicas replicaUrls op = map (\<lambda>url. (url @ ''/internal/replicate'', op)) replicaUrls"

text \<open>
  \<open>syncFromPrimary\<close>: at most \<open>maxAttempts\<close> pulls. An attempt's outcome is what the request
  gave: the body of a successful response, or a failure of any kind.
\<close>

type_synonym snapshot_rows = "(jsstring \<times> jsstring \<times> jsnum option) list"

fun load_rows :: "time_ms \<Rightarrow> snapshot_rows \<Rightarrow> cache_store \<Rightarrow> cache_store" where
  "load_rows now [] store = store"
| "load_rows now ((key, val, ttl) # rows) store = load_rows now rows (cache_set now key val ttl store)"

fun sync_attempts :: "nat \<Rightarrow> nat \<Rightarrow> (nat \<Rightarrow> (time_ms \<times> snapshot_rows) option) \<Rightarrow> cache_store
    \<Rightarrow> cache_store \<times> nat" where
  \<comment> \<open>\<open>left\<close> attempts left, \<open>attempt\<close> the number of the next one\<close>
  "sync_attempts 0 attempt response store = (store, 0)"
| "sync_attempts (Suc left) attempt response store = (case response attempt of
       Some (now, rows) \<Rightarrow> (load_rows now rows store, length rows)
     | None \<Rightarrow> sync_attempts left (Suc attempt) response store)"

definition syncFromPrimary :: "nat \<Rightarrow> (nat \<Rightarrow> (time_ms \<times> snapshot_rows) option) \<Rightarrow> cache_store
    \<Rightarrow> cache_store \<times> nat" where
  "syncFromPrimary maxAttempts response store = sync_attempts maxAttempts 1 response store"

section \<open>The abstract log\<close>

type_synonym spec_map = "jsstring \<Rightarrow> (jsstring \<times> jsnum option) option"

fun spec_apply :: "spec_map \<Rightarrow> time_ms \<times> ReplicationOp \<Rightarrow> spec_map" where
  "spec_apply m (now, RSet k v ttl) = m(k \<mapsto> (v, deadline now ttl))"
| "spec_apply m (now, RDelete k) = m(k := None)"
| "spec_apply m (now, RInvalidate p) = (\<lambda>k. if startsWith k p then None else m k)"
| "spec_apply m (now, RFlush) = (\<lambda>k. None)"

definition spec_log :: "spec_map \<Rightarrow> (time_ms \<times> ReplicationOp) list \<Rightarrow> spec_map" where
  "spec_log m ws = foldl spec_apply m ws"

fun op_keys :: "ReplicationOp \<Rightarrow> jsstring set" where
  "op_keys (RSet k _ _) = {k}"
| "op_keys _ = {}"

text \<open>
  A node's life between two points: writes (its clients' on a primary, replicated ones on
  a replica) and any number of reads and sweeps in between, each at its own time.
\<close>

datatype node_event = Write ReplicationOp | Read cache_op

fun node_step :: "cache_store \<Rightarrow> time_ms \<times> node_event \<Rightarrow> cache_store" where
  "node_step s (now, Write op) = applyReplicationOp now s op"
| "node_step s (now, Read op) = read_step now op s"

definition node_run :: "cache_store \<Rightarrow> (time_ms \<times> node_event) list \<Rightarrow> cache_store" where
  "node_run s evs = foldl node_step s evs"

fun writes_of :: "(time_ms \<times> node_event) list \<Rightarrow> (time_ms \<times> ReplicationOp) list" where
  "writes_of [] = []"
| "writes_of ((now, Write op) # evs) = (now, op) # writes_of evs"
| "writes_of ((now, Read op) # evs) = writes_of evs"

definition log_keys :: "(time_ms \<times> ReplicationOp) list \<Rightarrow> jsstring set" where
  "log_keys ws = (\<Union>w \<in> set ws. op_keys (snd w))"

lemma applyReplicationOp_ok [inv_intros]: "cache_ok s \<Longrightarrow> cache_ok (applyReplicationOp now s op)"
  by (cases op) (simp_all add: cache_set_ok delete_ok pass_ops_ok timer_ops_ok)

lemma applyReplicationOp_capacity: "cache_ok s \<Longrightarrow> maxEntries (applyReplicationOp now s op) = maxEntries s"
  by (cases op) (simp_all add: kept_maxEntries)

lemma applyReplicationOp_stored:
  "cache_ok s \<Longrightarrow> stored_keys (applyReplicationOp now s op) \<subseteq> op_keys op \<union> stored_keys s"
  using stored_cache_set stored_removals by (cases op) auto

lemma node_step_ok:
  assumes "cache_ok s"
  shows "cache_ok (node_step s (now, ev))" and "maxEntries (node_step s (now, ev)) = maxEntries s"
    and "stored_keys (node_step s (now, ev)) \<subseteq> log_keys (writes_of [(now, ev)]) \<union> stored_keys s"
  using assms stored_read_step applyReplicationOp_stored
  by (cases ev; auto simp: inv_intros read_step_ok applyReplicationOp_capacity kept_maxEntries log_keys_def)+

lemma represents_apply:
  assumes "cache_ok s" and "stored_keys s \<union> op_keys op \<subseteq> K" and "finite K" and "card K \<le> maxEntries s"
    and "kv.represents t0 s m" and "t0 \<le> now"
  shows "kv.represents now (applyReplicationOp now s op) (spec_apply m (now, op))"
proof (cases op)
  case (RSet k v ttl)
  with assms have "card (insert k (stored_keys s)) \<le> maxEntries s"
    by (intro kv.room_from_bound [of _ K]) auto
  with RSet assms show ?thesis by (simp add: kv.represents_put)
next
  case (RDelete k)
  with assms show ?thesis by (simp add: kv.represents_del)
next
  case (RInvalidate p)
  with assms show ?thesis by (simp add: kv.represents_del_where)
next
  case RFlush
  with assms show ?thesis by (simp add: kv.represents_wipe)
qed

lemma log_keys_Cons: "log_keys (writes_of (e # evs)) = log_keys (writes_of [e]) \<union> log_keys (writes_of evs)"
  by (cases "(e # evs, evs)" rule: prod.exhaust, cases e, cases "snd e") (auto simp: log_keys_def)

lemma represents_run:
  assumes "cache_ok s" and "stored_keys s \<union> log_keys (writes_of evs) \<subseteq> K" and "finite K"
    and "card K \<le> maxEntries s" and "kv.represents t0 s m"
    and "sorted (t0 # map fst evs)" and "\<forall>e \<in> set evs. fst e \<le> t1" and "t0 \<le> t1"
  shows "kv.represents t1 (node_run s evs) (spec_log m (writes_of evs))"
  using assms
proof (induction evs arbitrary: s m t0)
  case Nil
  then show ?case by (simp add: node_run_def spec_log_def kv.represents_later)
next
  case (Cons e evs)
  obtain now ev where e: "e = (now, ev)" by (cases e)
  let ?s = "node_step s (now, ev)"
  let ?m = "foldl spec_apply m (writes_of [(now, ev)])"
  have sub: "stored_keys ?s \<union> log_keys (writes_of evs) \<subseteq> K"
    using node_step_ok(3) [OF Cons.prems(1), of now ev] Cons.prems(2) log_keys_Cons [of e evs] e by blast
  have rep: "kv.represents now ?s ?m"
  proof (cases ev)
    case (Write op)
    have "stored_keys s \<union> op_keys op \<subseteq> K"
      using Cons.prems(2) e Write by (auto simp: log_keys_def)
    with Write e Cons.prems show ?thesis
      using represents_apply [of s op K t0 m now] by simp
  next
    case (Read op)
    with e Cons.prems show ?thesis by (simp add: kv.represents_poll)
  qed
  have "kv.represents t1 (node_run ?s evs) (spec_log ?m (writes_of evs))"
    using Cons.prems e node_step_ok(1,2) [OF Cons.prems(1), of now ev]
    by (intro Cons.IH [OF _ sub _ _ rep]) auto
  then show ?case
    using e by (cases ev) (simp_all add: node_run_def spec_log_def)
qed

section \<open>Convergence\<close>

text \<open>
  A replica computes deadlines from its own clock reading when the operation arrives, so
  with a delay of at most \<open>D\<close> a deadline is at most \<open>D\<close> later than the primary's.
\<close>

definition deadline_lag :: "time_ms \<Rightarrow> jsnum option \<Rightarrow> jsnum option \<Rightarrow> bool" where
  "deadline_lag D d d' \<longleftrightarrow> (d = None \<longleftrightarrow> d' = None) \<and>
     (\<forall>t. (not_due t d \<longrightarrow> not_due t d') \<and> (not_due (t + D) d' \<longrightarrow> not_due t d))"

definition lag_related :: "time_ms \<Rightarrow> spec_map \<Rightarrow> spec_map \<Rightarrow> bool" where
  "lag_related D m m' \<longleftrightarrow>
     (\<forall>k. rel_option (\<lambda>x y. fst x = fst y \<and> deadline_lag D (snd x) (snd y)) (m k) (m' k))"

fun ttl_in_range :: "time_ms \<Rightarrow> ReplicationOp \<Rightarrow> bool" where
  \<comment> \<open>no ttl of the operation overflows when its deadline is computed up to \<open>t1\<close>\<close>
  "ttl_in_range t1 (RSet k v (Some (Fin x))) = (of_int t1 + x * 1000 < overflow_limit)"
| "ttl_in_range t1 (RSet k v (Some _)) = False"
| "ttl_in_range t1 _ = True"

lemma deadline_in_range:
  assumes "0 \<le> now" and "now \<le> t1" and "of_int t1 + x * 1000 < overflow_limit"
  shows "deadline now (Some (Fin x)) = (if 0 < x then Some (Fin (of_int now + x * 1000)) else None)"
proof (cases "0 < x")
  case True
  have "(of_int now :: rat) \<le> of_int t1" using assms(2) by simp
  with assms(3) have "of_int now + x * 1000 < overflow_limit" by linarith
  with True assms(1) show ?thesis by (simp add: deadline_Fin)
next
  case False
  then show ?thesis by (simp add: deadline_def)
qed

lemma deadline_lag_ttl:
  assumes "0 \<le> now" and "now \<le> now'" and "now' \<le> now + D" and "now' \<le> t1"
    and "ttl_in_range t1 (RSet k v ttl)"
  shows "deadline_lag D (deadline now ttl) (deadline now' ttl)"
proof (cases ttl)
  case None
  then show ?thesis by (simp add: deadline_lag_def deadline_def not_due_def)
next
  case (Some a)
  with assms(5) obtain x where a: "a = Fin x" and x: "of_int t1 + x * 1000 < overflow_limit"
    by (cases a) auto
  have le: "(of_int now :: rat) \<le> of_int now'" "(of_int now' :: rat) \<le> of_int now + of_int D"
    using assms(2,3) by (simp, simp flip: of_int_add)
  have "deadline now ttl = (if 0 < x then Some (Fin (of_int now + x * 1000)) else None)"
    and "deadline now' ttl = (if 0 < x then Some (Fin (of_int now' + x * 1000)) else None)"
    unfolding Some a using deadline_in_range [of now t1 x] deadline_in_range [of now' t1 x] assms(1-4) x
    by simp_all
  with le show ?thesis
    by (auto simp: deadline_lag_def not_due_def num_of_int_def not_le)
qed

lemma lag_related_apply:
  assumes "lag_related D m m'" and "0 \<le> now" and "now \<le> now'" and "now' \<le> now + D" and "now' \<le> t1"
    and "ttl_in_range t1 op"
  shows "lag_related D (spec_apply m (now, op)) (spec_apply m' (now', op))"
proof (cases op)
  case (RSet k v ttl)
  have "deadline_lag D (deadline now ttl) (deadline now' ttl)"
    using assms RSet by (intro deadline_lag_ttl [of now now' D t1 k v]) auto
  with RSet assms(1) show ?thesis by (simp add: lag_related_def)
qed (use assms(1) in \<open>simp_all add: lag_related_def\<close>)

definition delivered :: "time_ms \<Rightarrow> (time_ms \<times> ReplicationOp) list \<Rightarrow> (time_ms \<times> ReplicationOp) list \<Rightarrow> bool" where
  \<comment> \<open>the replica applied the same operations in the same order, each at most \<open>D\<close> later\<close>
  "delivered D ws ws' \<longleftrightarrow> list_all2 (\<lambda>a b. snd a = snd b \<and> fst a \<le> fst b \<and> fst b \<le> fst a + D) ws ws'"

lemma lag_related_log:
  assumes "delivered D ws ws'" and "\<forall>w \<in> set ws. 0 \<le> fst w \<and> ttl_in_range t1 (snd w)"
    and "\<forall>w \<in> set ws'. fst w \<le> t1" and "lag_related D m m'"
  shows "lag_related D (spec_log m ws) (spec_log m' ws')"
  using assms unfolding delivered_def spec_log_def
proof (induction ws ws' arbitrary: m m' rule: list_all2_induct)
  case Nil
  then show ?case by simp
next
  case (Cons a ws b ws')
  obtain now op where a: "a = (now, op)" by (cases a)
  obtain now' where b: "b = (now', op)" using Cons.hyps(1) a by (cases b) auto
  have "lag_related D (spec_apply m (now, op)) (spec_apply m' (now', op))"
    using Cons.hyps(1) Cons.prems a b by (intro lag_related_apply [of D m m' now now' t1]) auto
  then show ?case
    using Cons.IH [of "spec_apply m a" "spec_apply m' b"] Cons.prems a b by simp
qed

lemma represents_visible:
  assumes "kv.represents t0 s m" and "t0 \<le> t"
  shows "visible t s k = (case m k of None \<Rightarrow> None | Some (v, d) \<Rightarrow> if not_due t d then Some (v, d) else None)"
  using assms by (simp add: kv.represents_def)

lemma empty_represents: "entries s = [] \<Longrightarrow> kv.represents t0 s (\<lambda>k. None)"
  by (simp add: kv.represents_def visible_def)

lemma lag_related_visible:
  assumes "lag_related D m m'" and "kv.represents t1 p m" and "kv.represents t1 r m'" and "t1 \<le> t" and "0 \<le> D"
  shows "(visible t p k = Some (v, None)) = (visible t r k = Some (v, None))"
    and "map_option fst (visible t p k) = Some v \<Longrightarrow> map_option fst (visible t r k) = Some v"
    and "map_option fst (visible (t + D) r k) = Some v \<Longrightarrow> map_option fst (visible t p k) = Some v"
proof -
  have rel: "rel_option (\<lambda>x y. fst x = fst y \<and> deadline_lag D (snd x) (snd y)) (m k) (m' k)"
    using assms(1) by (simp add: lag_related_def)
  note vp = represents_visible [OF assms(2)] and vr = represents_visible [OF assms(3)]
  have le: "t1 \<le> t + D" using assms(4,5) by simp
  show "(visible t p k = Some (v, None)) = (visible t r k = Some (v, None))"
    using rel vp [OF assms(4)] vr [OF assms(4)]
    by (cases "m k"; cases "m' k") (auto simp: deadline_lag_def not_due_def split: if_splits)
  show "map_option fst (visible t p k) = Some v \<Longrightarrow> map_option fst (visible t r k) = Some v"
    using rel vp [OF assms(4)] vr [OF assms(4)]
    by (cases "m k"; cases "m' k") (auto simp: deadline_lag_def split: if_splits)
  show "map_option fst (visible (t + D) r k) = Some v \<Longrightarrow> map_option fst (visible t p k) = Some v"
    using rel vp [OF assms(4)] vr [OF le]
    by (cases "m k"; cases "m' k") (auto simp: deadline_lag_def split: if_splits)
qed

lemma writes_of_all: "\<forall>e \<in> set evs. P (fst e) \<Longrightarrow> \<forall>w \<in> set (writes_of evs). P (fst w)"
  by (induction evs rule: writes_of.induct) auto

lemma finite_op_keys [simp]: "finite (op_keys op)"
  by (cases op) auto

text \<open>A replica that applies every forwarded write, in order, each at most \<open>D\<close>
  milliseconds after the primary did - both starting empty and neither ever full, with
  any reads and sweeps in between on either side - converges: keys that never expire read
  the same on both; a key readable on the primary is readable with the same value on the
  replica; and one still readable on the replica \<open>D\<close> later was readable on the primary.\<close>

lemma replica_converges:
  assumes "cache_ok p" and "cache_ok r" and "entries p = []" and "entries r = []"
    and "delivered D (writes_of pev) (writes_of sev)" and "0 \<le> D"
    and "card (log_keys (writes_of pev)) \<le> maxEntries p" and "card (log_keys (writes_of pev)) \<le> maxEntries r"
    and "sorted (0 # map fst pev)" and "sorted (0 # map fst sev)"
    and "\<forall>e \<in> set pev \<union> set sev. fst e \<le> t1" and "0 \<le> t1" and "t1 \<le> t"
    and "\<forall>w \<in> set (writes_of pev). ttl_in_range t1 (snd w)"
  shows "(visible t (node_run p pev) k = Some (v, None)) = (visible t (node_run r sev) k = Some (v, None)) \<and>
    (map_option fst (visible t (node_run p pev) k) = Some v \<longrightarrow>
      map_option fst (visible t (node_run r sev) k) = Some v) \<and>
    (map_option fst (visible (t + D) (node_run r sev) k) = Some v \<longrightarrow>
      map_option fst (visible t (node_run p pev) k) = Some v)"
proof -
  have keys: "log_keys (writes_of sev) = log_keys (writes_of pev)"
    using assms(5) unfolding delivered_def log_keys_def
    by (induction rule: list_all2_induct) auto
  have fin: "finite (log_keys (writes_of pev))"
    by (simp add: log_keys_def)
  have st: "stored_keys p = {}" "stored_keys r = {}"
    using assms(3,4) by (simp_all add: stored_keys_def jm_keys_def)
  have rp: "kv.represents t1 (node_run p pev) (spec_log (\<lambda>k. None) (writes_of pev))"
    using assms st fin by (intro represents_run [where K = "log_keys (writes_of pev)" and ?t0.0 = 0])
      (auto intro: empty_represents)
  have rr: "kv.represents t1 (node_run r sev) (spec_log (\<lambda>k. None) (writes_of sev))"
    using assms st fin keys by (intro represents_run [where K = "log_keys (writes_of pev)" and ?t0.0 = 0])
      (auto intro: empty_represents)
  have wp: "\<forall>w \<in> set (writes_of pev). 0 \<le> fst w"
    by (rule writes_of_all) (use assms(9) in auto)
  have wr: "\<forall>w \<in> set (writes_of sev). fst w \<le> t1"
    by (rule writes_of_all) (use assms(11) in auto)
  have "lag_related D (spec_log (\<lambda>k. None) (writes_of pev)) (spec_log (\<lambda>k. None) (writes_of sev))"
    using assms wp wr by (intro lag_related_log [of D _ _ t1]) (auto simp: lag_related_def)
  from lag_related_visible [OF this rp rr assms(13,6)] show ?thesis by blast
qed

definition demo_primary :: "(time_ms \<times> node_event) list" where
  "demo_primary = [(10, Write (RSet ''a'' ''1'' (Some (Fin 2)))), (20, Read (OpGet ''a'')),
     (30, Write (RSet ''b'' ''2'' None)), (40, Write (RDelete ''c''))]"

definition demo_replica :: "(time_ms \<times> node_event) list" where
  "demo_replica = [(12, Write (RSet ''a'' ''1'' (Some (Fin 2)))), (31, Write (RSet ''b'' ''2'' None)),
     (45, Write (RDelete ''c''))]"

lemma replica_converges_witness:
  "(visible 50 (node_run (new_cache (small_opts LRU)) demo_primary) ''b'' = Some (''2'', None)) =
   (visible 50 (node_run (new_cache (small_opts LFU)) demo_replica) ''b'' = Some (''2'', None))"
proof -
  have l: "of_int 50 + 2 * 1000 < overflow_limit"
    using overflow_limit_large by simp
  have ok: "cache_ok (new_cache (small_opts LRU))" "cache_ok (new_cache (small_opts LFU))"
    by (rule new_cache_ok; simp add: small_opts_def)+
  have e: "entries (new_cache (small_opts LRU)) = []" "entries (new_cache (small_opts LFU)) = []"
    "maxEntries (new_cache (small_opts LRU)) = 2" "maxEntries (new_cache (small_opts LFU)) = 2"
    by (simp_all add: new_cache_def small_opts_def)
  have d: "delivered 10 (writes_of demo_primary) (writes_of demo_replica)"
    by (simp add: demo_primary_def demo_replica_def delivered_def)
  have k: "log_keys (writes_of demo_primary) = {''a'', ''b''}"
    by (auto simp: demo_primary_def log_keys_def)
  show ?thesis
    using replica_converges [OF ok e(1,2) d, of 50 50 "''b''" "''2''"] e k l
    by (simp add: demo_primary_def demo_replica_def)
qed

text \<open>Without ordered delivery the guarantee is lost: the primary issues one independent
  request per write and never retries, so two writes of a key that arrive in the opposite
  order leave primary and replica with different values for as long as the key lives.\<close>

lemma reordered_delivery_diverges:
  assumes "cache_ok p" and "cache_ok r" and "v \<noteq> w"
  shows "\<forall>t \<ge> 3. visible t (foldl (\<lambda>s op. applyReplicationOp 1 s op) p [RSet k v None, RSet k w None]) k
      \<noteq> visible t (foldl (\<lambda>s op. applyReplicationOp 2 s op) r [RSet k w None, RSet k v None]) k"
  using assms cache_set_ok
  by (auto simp: visible_cache_set fresh_view_def entry_view_def isExpired_def deadline_def)

lemma reordered_delivery_diverges_witness:
  "visible 4 (foldl (\<lambda>s op. applyReplicationOp 1 s op) (small_cache LRU) [RSet ''k'' ''x'' None, RSet ''k'' ''y'' None]) ''k''
    \<noteq> visible 4 (foldl (\<lambda>s op. applyReplicationOp 2 s op) (small_cache LRU) [RSet ''k'' ''y'' None, RSet ''k'' ''x'' None]) ''k''"
  using reordered_delivery_diverges [OF small_cache_ok [of LRU] small_cache_ok [of LRU], of "''x''" "''y''" "''k''"]
  by simp

section \<open>Snapshots\<close>

text \<open>
  What a snapshot row carries of an entry is its value and its remaining time; loading it
  sets the key with that time as its ttl.
\<close>

lemma load_rows_foldl:
  "load_rows now rows s = foldl (\<lambda>s (k, v, ttl). applyReplicationOp now s (RSet k v ttl)) s rows"
  by (induction rows arbitrary: s) auto

definition rows_events :: "time_ms \<Rightarrow> snapshot_rows \<Rightarrow> (time_ms \<times> node_event) list" where
  "rows_events now rows = map (\<lambda>(k, v, ttl). (now, Write (RSet k v ttl))) rows"

lemma load_rows_node_run: "load_rows now rows s = node_run s (rows_events now rows)"
  unfolding load_rows_foldl node_run_def rows_events_def
  by (induction rows arbitrary: s) auto

lemma load_rows_ok: "cache_ok s \<Longrightarrow> cache_ok (load_rows now rows s)"
  unfolding load_rows_foldl by (induction rows arbitrary: s) (auto simp: cache_set_ok)

lemma writes_of_rows: "writes_of (rows_events now rows) = map (\<lambda>(k, v, ttl). (now, RSet k v ttl)) rows"
  by (induction rows) (auto simp: rows_events_def)

lemma spec_log_rows:
  "distinct (map fst rows) \<Longrightarrow> spec_log m (map (\<lambda>(k, v, ttl). (now, RSet k v ttl)) rows) =
    (\<lambda>k. case map_of rows k of None \<Rightarrow> m k | Some (v, ttl) \<Rightarrow> Some (v, deadline now ttl))"
proof (induction rows arbitrary: m)
  case Nil
  then show ?case by (simp add: spec_log_def)
next
  case (Cons x rows)
  obtain k v ttl where x: "x = (k, v, ttl)" by (cases x)
  with Cons.prems have "map_of rows k = None"
    by (simp add: map_of_eq_None_iff)
  with Cons x show ?case
    by (auto simp: spec_log_def fun_eq_iff split: option.splits)
qed

lemma load_rows_represents:
  assumes "cache_ok s" and "entries s = []" and "distinct (map fst rows)" and "length rows \<le> maxEntries s"
  shows "kv.represents now (load_rows now rows s)
    (\<lambda>k. case map_of rows k of None \<Rightarrow> None | Some (v, ttl) \<Rightarrow> Some (v, deadline now ttl))"
proof -
  have keys: "log_keys (writes_of (rows_events now rows)) = set (map fst rows)"
    by (force simp: writes_of_rows log_keys_def)
  have card: "card (set (map fst rows)) \<le> maxEntries s"
    using distinct_card [OF assms(3)] assms(4) by simp
  have times: "\<forall>e \<in> set (rows_events now rows). fst e \<le> now"
    by (auto simp: rows_events_def)
  have sorted: "sorted (now # map fst (rows_events now rows))"
    by (induction rows) (auto simp: rows_events_def)
  have "stored_keys s = {}"
    using assms(2) by (simp add: stored_keys_def jm_keys_def)
  then have "kv.represents now (load_rows now rows s) (spec_log (\<lambda>k. None) (writes_of (rows_events now rows)))"
    unfolding load_rows_node_run
    using keys by (intro represents_run [OF assms(1) _ _ card empty_represents [OF assms(2)] sorted times]) simp_all
  then show ?thesis
    using assms(3) by (simp add: writes_of_rows spec_log_rows)
qed

lemma map_of_export:
  assumes "jm_wf (entries p)"
  shows "map_of (snd (exportEntries now p)) k =
    map_option (\<lambda>(v, d). (v, map_option (remaining_ttl now) d)) (visible now p k)"
proof -
  have "map_of (map (\<lambda>q. (fst q, ce_value (snd q), entry_ttl now (snd q))) m) k =
      map_option (\<lambda>e. (ce_value e, entry_ttl now e)) (map_of m k)" for m :: "(jsstring, cache_entry) jsmap"
    by (induction m) auto
  then have "map_of (snd (exportEntries now p)) k =
      map_option (\<lambda>e. (ce_value e, entry_ttl now e)) (jm_get (live_entries now (entries p)) k)"
    by (simp add: exportEntries_def collect_entries_eq [OF assms] jm_get_def)
  then show ?thesis
    by (auto simp: live_entries_def jm_get_filter [OF assms] visible_def entry_view_def entry_ttl_def
        split: option.splits)
qed

lemma export_keys:
  assumes "jm_wf (entries p)"
  shows "map fst (snd (exportEntries now p)) = snd (cache_keys now p)"
  by (simp add: exportEntries_def cache_keys_def collect_entries_eq [OF assms] comp_def)

lemma reload_deadline:
  assumes "of_int now < d" and "0 \<le> now" and "now \<le> now'" and "d + of_int now' < overflow_limit"
  shows "deadline now' (Some (remaining_ttl now (Fin d))) = Some (Fin (d + of_int (now' - now)))"
proof -
  have n: "0 \<le> (of_int now :: rat)" "0 \<le> (of_int now' :: rat)" using assms(2,3) by simp_all
  have "\<bar>d - of_int now\<bar> < overflow_limit"
    using assms(1,4) n by (simp add: abs_less_iff)
  then have r: "remaining_ttl now (Fin d) = Fin ((d - of_int now) / 1000)"
    using assms(1) by (simp add: remaining_ttl_Fin)
  have "of_int now' + (d - of_int now) / 1000 * 1000 < overflow_limit"
    using assms(4) n by (simp add: field_simps)
  then have "deadline now' (Some (Fin ((d - of_int now) / 1000))) =
      Some (Fin (of_int now' + (d - of_int now) / 1000 * 1000))"
    using assms by (intro deadline_Fin) simp_all
  moreover have "of_int now' + (d - of_int now) / 1000 * 1000 = d + of_int (now' - now)" by simp
  ultimately show ?thesis by (simp only: r)
qed

lemma visible_deadline_ahead: "visible now p k = Some (v, Some (Fin d)) \<Longrightarrow> of_int now < d"
  by (auto simp: visible_def entry_view_def isExpired_def num_of_int_def split: option.splits if_splits)

definition shift_deadline :: "time_ms \<Rightarrow> jsnum option \<Rightarrow> jsnum option" where
  "shift_deadline D d = map_option (\<lambda>x. case x of Fin q \<Rightarrow> Fin (q + of_int D) | _ \<Rightarrow> x) d"

text \<open>
  Exporting a store and loading the rows into an empty store with enough room - a replica's
  startup sync - reproduces what could be read at the moment of the export: keys without a
  deadline stay without one, and every deadline is later by exactly the time in between.
\<close>

lemma reload_visible:
  assumes "cache_ok p" and "cache_ok r" and "entries r = []"
    and "length (snd (exportEntries now p)) \<le> maxEntries r"
    and "0 \<le> now" and "now \<le> now'" and "now' \<le> t"
    and "\<forall>k v x. visible now p k = Some (v, Some x) \<longrightarrow> (\<exists>d. x = Fin d \<and> d + of_int now' < overflow_limit)"
  shows "visible t (load_rows now' (snd (exportEntries now p)) r) k =
    (case visible now p k of None \<Rightarrow> None
     | Some (v, d) \<Rightarrow> if not_due t (shift_deadline (now' - now) d)
         then Some (v, shift_deadline (now' - now) d) else None)"
proof -
  note wf = cache_okD(1) [OF assms(1)]
  have "distinct (map fst (snd (exportEntries now p)))"
    using wf by (simp add: export_keys [OF wf] cache_keys_result [OF wf] jm_wf_keys)
  then have rep: "visible t (load_rows now' (snd (exportEntries now p)) r) k =
      (case map_of (snd (exportEntries now p)) k of None \<Rightarrow> None
       | Some (v, ttl) \<Rightarrow> if not_due t (deadline now' ttl) then Some (v, deadline now' ttl) else None)"
    using represents_visible [OF load_rows_represents [OF assms(2,3) _ assms(4)] assms(7)]
    by (auto split: option.splits)
  show ?thesis
  proof (cases "visible now p k")
    case None
    then show ?thesis unfolding rep map_of_export [OF wf] by simp
  next
    case (Some vd)
    obtain v d where vd: "vd = (v, d)" by (cases vd)
    have "deadline now' (map_option (remaining_ttl now) d) = shift_deadline (now' - now) d"
    proof (cases d)
      case None
      then show ?thesis by (simp add: deadline_def shift_deadline_def)
    next
      case (Some x)
      with assms(8) \<open>visible now p k = Some vd\<close> vd obtain q where
        q: "x = Fin q" "q + of_int now' < overflow_limit" by blast
      with Some \<open>visible now p k = Some vd\<close> vd visible_deadline_ahead [of now p k v q]
      show ?thesis
        using reload_deadline [of now q now'] assms(5,6) by (simp add: shift_deadline_def)
    qed
    with Some vd show ?thesis unfolding rep map_of_export [OF wf] by simp
  qed
qed

definition ttl_cache :: cache_store where
  "ttl_cache = cache_set 1000 ''a'' ''1'' (Some (Fin 2)) (cache_set 1000 ''b'' ''2'' None (new_cache (small_opts LRU)))"

lemma ttl_cache_ok: "cache_ok ttl_cache"
proof -
  have "cache_ok (new_cache (small_opts LRU))" by (rule new_cache_ok; simp add: small_opts_def)
  then show ?thesis by (simp add: ttl_cache_def cache_set_ok)
qed

lemma ttl_cache_entries:
  "entries ttl_cache = [(''b'', \<lparr>ce_value = ''2'', ce_expiresAt = None, ce_hits = 0\<rparr>),
      (''a'', \<lparr>ce_value = ''1'', ce_expiresAt = Some (Fin 3000), ce_hits = 0\<rparr>)]"
proof -
  have l: "(10000 :: rat) < overflow_limit" using overflow_limit_large by simp
  have d: "deadline 1000 (Some (Fin 2)) = Some (Fin 3000)"
    using deadline_Fin [of 2 1000] l by simp
  show ?thesis
    by (simp add: ttl_cache_def cache_set_def Let_def jm_delete_def jm_size_def new_cache_def small_opts_def d)
      (simp add: deadline_def)
qed

lemma ttl_cache_visible:
  "visible 1500 ttl_cache = (\<lambda>k. if k = ''b'' then Some (''2'', None)
      else if k = ''a'' then Some (''1'', Some (Fin 3000)) else None)"
  by (auto simp: fun_eq_iff visible_def ttl_cache_entries entry_view_def isExpired_def num_of_int_def)

text \<open>\<open>syncFromPrimary\<close> loads the rows of the first attempt that succeeds among the
  first \<open>maxAttempts\<close> and returns their number; when every attempt fails it returns 0 and
  leaves the store as it was, so the node starts anyway.\<close>

lemma sync_first_success:
  "(\<forall>a now rows. 1 \<le> a \<longrightarrow> a \<le> maxAttempts \<longrightarrow> response a = Some (now, rows) \<longrightarrow>
      (\<forall>b. 1 \<le> b \<and> b < a \<longrightarrow> response b = None) \<longrightarrow>
      syncFromPrimary maxAttempts response s = (load_rows now rows s, length rows)) \<and>
   ((\<forall>a. 1 \<le> a \<and> a \<le> maxAttempts \<longrightarrow> response a = None) \<longrightarrow>
      syncFromPrimary maxAttempts response s = (s, 0))"
proof -
  have ok: "sync_attempts n i response s = (load_rows now rows s, length rows)"
    if "i \<le> a" "a < i + n" "response a = Some (now, rows)" "\<forall>b. i \<le> b \<and> b < a \<longrightarrow> response b = None"
    for n i a now rows
    using that
  proof (induction n arbitrary: i)
    case 0
    then show ?case by simp
  next
    case (Suc n)
    then show ?case by (cases "i = a") auto
  qed
  have fail: "sync_attempts n i response s = (s, 0)" if "\<forall>a. i \<le> a \<and> a < i + n \<longrightarrow> response a = None" for n i
    using that by (induction n arbitrary: i) auto
  show ?thesis
    unfolding syncFromPrimary_def using ok [of 1] fail [of 1 maxAttempts] by auto
qed

lemma sync_first_success_witness:
  "syncFromPrimary 5 (\<lambda>a. if a = 3 then Some (9, [(''k'', ''v'', None)]) else None) (small_cache LRU) =
     (load_rows 9 [(''k'', ''v'', None)] (small_cache LRU), 1)"
proof -
  let ?r = "\<lambda>a :: nat. if a = 3 then Some (9 :: time_ms, [(''k'', ''v'', None :: jsnum option)]) else None"
  from sync_first_success [of 5 ?r "small_cache LRU"] have
    "\<forall>a now rows. 1 \<le> a \<longrightarrow> a \<le> 5 \<longrightarrow> ?r a = Some (now, rows) \<longrightarrow>
      (\<forall>b. 1 \<le> b \<and> b < a \<longrightarrow> ?r b = None) \<longrightarrow>
      syncFromPrimary 5 ?r (small_cache LRU) = (load_rows now rows (small_cache LRU), length rows)"
    by blast
  from this [THEN spec [of _ 3], THEN spec [of _ 9], THEN spec [of _ "[(''k'', ''v'', None)]"]]
  show ?thesis by simp
qed

end
