(* ===== verification/NodeRole.thy ===== *)
theory NodeRole
  imports ElectionClient Replication
begin

text \<open>
  The role of a cache node: the module variables \<open>ROLE\<close>, \<open>REPLICA_URLS\<close>, \<open>PRIMARY_URL\<close> and
  \<open>electionState\<close> of \<open>src/network/app.ts\<close> and the handlers that change them - promotion,
  the vote and the adoption of a leader - and \<open>campaignForPrimary\<close> of
  \<open>src/network/server.ts\<close>, whose two halves are separated by the \<open>await\<close> on the votes.
\<close>

section \<open>State\<close>

datatype role = Primary | Replica

record node_role =
  nr_role :: role
  nr_replicaUrls :: "jsstring list"
  nr_primaryUrl :: "jsstring option"
  nr_election :: ElectionState

definition new_role :: "jsstring option \<Rightarrow> jsstring option \<Rightarrow> jsstring option \<Rightarrow> jsstring \<Rightarrow> node_role" where
  \<comment> \<open>from \<open>INKCACHE_ROLE\<close>, \<open>INKCACHE_REPLICA_URLS\<close>, \<open>INKCACHE_PRIMARY_URL\<close> and the node's identity\<close>
  "new_role roleEnv replicaEnv primaryEnv self =
     \<lparr>nr_role = (if roleEnv = Some ''replica'' then Replica else Primary),
      nr_replicaUrls = resolveReplicaUrls replicaEnv, nr_primaryUrl = primaryEnv,
      nr_election = new_election self\<rparr>"

section \<open>Handlers\<close>

definition rejectIfReplica :: "node_role \<Rightarrow> response option" where
  "rejectIfReplica nd = (if nr_role nd = Replica
     then Some (error_response 409 ''this node is a read-only replica -- write to the primary'') else None)"

definition promoteToPrimary :: "jsstring list \<Rightarrow> node_role \<Rightarrow> node_role \<times> bool" where
  "promoteToPrimary replicaUrls nd = (if nr_role nd = Primary then (nd, False)
     else (nd\<lparr>nr_role := Primary, nr_primaryUrl := None, nr_replicaUrls := replicaUrls\<rparr>, True))"

definition promote_node :: "jsstring list \<Rightarrow> node_role \<Rightarrow> node_role \<times> response" where
  \<comment> \<open>the end of \<open>POST /promote\<close>, once the body is checked\<close>
  "promote_node newReplicaUrls nd = (case promoteToPrimary newReplicaUrls nd of
       (nd', promoted) \<Rightarrow> if \<not> promoted then (nd', error_response 409 ''this node is already a primary'')
         else (nd', ok_response [(''ok'', JBool True), (''role'', JStr ''primary''),
           (''replicaCount'', json_nat (length (nr_replicaUrls nd')))]))"

definition post_promote :: "json option \<Rightarrow> node_role \<Rightarrow> node_role \<times> response" where
  "post_promote body nd = (case read_field ''replicaUrls'' (nullish_to_obj body) of
       None \<Rightarrow> promote_node [] nd
     | Some (JArr js) \<Rightarrow> (case as_strings js of
           Some urls \<Rightarrow> promote_node urls nd
         | None \<Rightarrow> (nd, error_response 400 ''replicaUrls must be an array of strings''))
     | Some _ \<Rightarrow> (nd, error_response 400 ''replicaUrls must be an array of strings''))"

definition vote_response :: "VoteResult \<Rightarrow> response" where
  "vote_response r = ok_response [(''voteGranted'', JBool (voteGranted r)), (''term'', json_nat (vote_term r))]"

definition vote_node :: "nat \<Rightarrow> jsstring \<Rightarrow> node_role \<Rightarrow> node_role \<times> response" where
  \<comment> \<open>the end of \<open>POST /election/request-vote\<close>, once the body is checked\<close>
  "vote_node t candidateId nd =
     (let previousTerm = currentTerm (nr_election nd);
          (e', result) = requestVote t candidateId (nr_election nd);
          nd1 = nd\<lparr>nr_election := e'\<rparr>;
          nd2 = (if voteGranted result \<and> previousTerm < t \<and> nr_role nd = Primary
                 then nd1\<lparr>nr_role := Replica\<rparr> else nd1)
      in (nd2, vote_response result))"

definition post_request_vote :: "json option \<Rightarrow> node_role \<Rightarrow> node_role \<times> response" where
  "post_request_vote body nd = (case as_term (read_field ''term'' (nullish_to_obj body)) of
       None \<Rightarrow> (nd, error_response 400 ''term must be a non-negative integer'')
     | Some t \<Rightarrow> (case nonempty_string (read_field ''candidateId'' (nullish_to_obj body)) of
           None \<Rightarrow> (nd, error_response 400 ''candidateId must be a non-empty string'')
         | Some candidateId \<Rightarrow> vote_node t candidateId nd))"

definition adopt_leader :: "nat \<Rightarrow> jsstring \<Rightarrow> node_role \<Rightarrow> node_role \<times> response" where
  \<comment> \<open>the end of \<open>POST /election/leader\<close>, once the body is checked\<close>
  "adopt_leader t primaryUrl nd =
     (if t < currentTerm (nr_election nd)
      then (nd, \<lparr>res_status = 409, res_body = JObj [(''error'', JStr ''stale term''),
             (''term'', json_nat (currentTerm (nr_election nd)))]\<rparr>)
      else let nd' = nd\<lparr>nr_election := observeTerm t (Some primaryUrl) (nr_election nd),
             nr_role := Replica, nr_primaryUrl := Some primaryUrl, nr_replicaUrls := []\<rparr>
        in (nd', ok_response [(''ok'', JBool True), (''term'', json_nat (currentTerm (nr_election nd')))]))"

definition post_leader :: "json option \<Rightarrow> node_role \<Rightarrow> node_role \<times> response" where
  "post_leader body nd = (case as_term (read_field ''term'' (nullish_to_obj body)) of
       None \<Rightarrow> (nd, error_response 400 ''term must be a non-negative integer'')
     | Some t \<Rightarrow> (case nonempty_string (read_field ''primaryUrl'' (nullish_to_obj body)) of
           None \<Rightarrow> (nd, error_response 400 ''primaryUrl must be a non-empty string'')
         | Some primaryUrl \<Rightarrow> adopt_leader t primaryUrl nd))"

section \<open>Campaigning\<close>

definition campaign_begin :: "node_role \<Rightarrow> node_role \<times> nat" where
  \<comment> \<open>\<open>campaignForPrimary\<close> up to the \<open>await\<close>: \<open>electionState.startElection()\<close>\<close>
  "campaign_begin nd = (let (e', t) = startElection (nr_election nd) in (nd\<lparr>nr_election := e'\<rparr>, t))"

definition campaign_end :: "jsstring list \<Rightarrow> jsstring \<Rightarrow> ElectionResult \<Rightarrow> node_role
    \<Rightarrow> node_role \<times> (jsstring \<times> json) list" where
  \<comment> \<open>\<open>campaignForPrimary\<close> after the \<open>await\<close>: the node and the announcements it sends\<close>
  "campaign_end peerUrls self result nd =
     (if \<not> won result then (nd, [])
      else case promoteToPrimary peerUrls nd of
        (nd', promoted) \<Rightarrow> if promoted then (nd', announceLeader peerUrls (res_term result) self) else (nd', []))"

section \<open>What the handlers do to the election state\<close>

lemma vote_node_election [simp]:
  "nr_election (fst (vote_node t c nd)) = fst (requestVote t c (nr_election nd))"
  by (simp add: vote_node_def Let_def split: prod.splits)

lemma vote_node_response [simp]: "snd (vote_node t c nd) = vote_response (snd (requestVote t c (nr_election nd)))"
  by (simp add: vote_node_def Let_def split: prod.splits)

lemma promote_election [simp]: "nr_election (fst (promoteToPrimary us nd)) = nr_election nd"
  by (simp add: promoteToPrimary_def)

lemma post_promote_election [simp]: "nr_election (fst (post_promote body nd)) = nr_election nd"
proof -
  have "nr_election (fst (promote_node us nd)) = nr_election nd" for us
    by (simp add: promote_node_def promoteToPrimary_def)
  then show ?thesis by (simp add: post_promote_def split: option.splits json.splits)
qed

lemma adopt_leader_election:
  "nr_election (fst (adopt_leader t u nd)) = observeTerm t (Some u) (nr_election nd)"
  by (simp add: adopt_leader_def observeTerm_def Let_def)

lemma campaign_end_election [simp]: "nr_election (fst (campaign_end ps self r nd)) = nr_election nd"
  by (simp add: campaign_end_def promoteToPrimary_def)

lemma campaign_begin_election:
  "nr_election (fst (campaign_begin nd)) = fst (startElection (nr_election nd))"
  "snd (campaign_begin nd) = snd (startElection (nr_election nd))"
  by (simp_all add: campaign_begin_def split: prod.splits)

lemma post_request_vote_request:
  "c \<noteq> [] \<Longrightarrow> post_request_vote (Some (vote_request t c)) nd = vote_node t c nd"
  by (simp add: post_request_vote_def vote_request_def nullish_to_obj_def)

lemma requestVoteFrom_vote [simp]: "requestVoteFrom (Some (vote_response r)) \<longleftrightarrow> voteGranted r"
  by (simp add: requestVoteFrom_def vote_response_def)

section \<open>Properties\<close>

lemma newer_term_granted: "currentTerm e < t \<Longrightarrow> voteGranted (snd (requestVote t c e))"
  using request_vote_rule [of t c e] by simp

lemma vote_node_fields:
  "nr_role (fst (vote_node t c nd)) = (if currentTerm (nr_election nd) < t then Replica else nr_role nd)"
  "nr_primaryUrl (fst (vote_node t c nd)) = nr_primaryUrl nd" "nr_replicaUrls (fst (vote_node t c nd)) = nr_replicaUrls nd"
proof -
  obtain e r where er: "requestVote t c (nr_election nd) = (e, r)" by (cases "requestVote t c (nr_election nd)")
  have "voteGranted r" if "currentTerm (nr_election nd) < t" using newer_term_granted [OF that, of c] er by simp
  then show "nr_role (fst (vote_node t c nd)) = (if currentTerm (nr_election nd) < t then Replica else nr_role nd)"
    by (cases "nr_role nd") (auto simp: vote_node_def er)
  show "nr_primaryUrl (fst (vote_node t c nd)) = nr_primaryUrl nd" "nr_replicaUrls (fst (vote_node t c nd)) = nr_replicaUrls nd"
    by (simp_all add: vote_node_def er Let_def)
qed

text \<open>\<open>POST /election/request-vote\<close> on every branch: a malformed term or candidate is a 400
  and changes nothing; otherwise the vote rule decides, the answer carries its decision, and
  a request from a newer term - which is always granted - makes a primary a read-only
  replica at once, without any leader to follow; nothing else of the role changes.\<close>

lemma vote_handler:
  "case (as_term (read_field ''term'' (nullish_to_obj body)), nonempty_string (read_field ''candidateId'' (nullish_to_obj body))) of
     (Some t, Some c) \<Rightarrow>
       nr_election (fst (post_request_vote body nd)) = fst (requestVote t c (nr_election nd)) \<and>
       requestVoteFrom (Some (snd (post_request_vote body nd))) = voteGranted (snd (requestVote t c (nr_election nd))) \<and>
       nr_role (fst (post_request_vote body nd)) = (if currentTerm (nr_election nd) < t then Replica else nr_role nd) \<and>
       nr_primaryUrl (fst (post_request_vote body nd)) = nr_primaryUrl nd \<and>
       nr_replicaUrls (fst (post_request_vote body nd)) = nr_replicaUrls nd
   | _ \<Rightarrow> fst (post_request_vote body nd) = nd \<and> res_status (snd (post_request_vote body nd)) = 400"
  by (auto simp: post_request_vote_def vote_node_fields split: option.splits)

text \<open>\<open>POST /election/leader\<close> on every branch: a malformed body is a 400 and a term older than
  the node's own a 409 that names the node's term, both without any effect; any other
  announcement, also one of the node's own term, makes the node a replica of the announced
  leader that forwards to nobody, at the newer of the two terms, its vote kept unless the
  term is new.\<close>

lemma leader_handler:
  "case (as_term (read_field ''term'' (nullish_to_obj body)), nonempty_string (read_field ''primaryUrl'' (nullish_to_obj body))) of
     (Some t, Some url) \<Rightarrow>
       (if t < currentTerm (nr_election nd)
        then fst (post_leader body nd) = nd \<and> res_status (snd (post_leader body nd)) = 409 \<and>
          as_term (read_field ''term'' (res_body (snd (post_leader body nd)))) = Some (currentTerm (nr_election nd))
        else nr_role (fst (post_leader body nd)) = Replica \<and> nr_primaryUrl (fst (post_leader body nd)) = Some url \<and>
          nr_replicaUrls (fst (post_leader body nd)) = [] \<and>
          currentTerm (nr_election (fst (post_leader body nd))) = max t (currentTerm (nr_election nd)) \<and>
          votedFor (nr_election (fst (post_leader body nd))) =
            (if currentTerm (nr_election nd) < t then Some url else votedFor (nr_election nd)) \<and>
          res_is_ok (snd (post_leader body nd)))
   | _ \<Rightarrow> fst (post_leader body nd) = nd \<and> res_status (snd (post_leader body nd)) = 400"
  by (auto simp: post_leader_def adopt_leader_def observeTerm_def Let_def split: option.splits)

text \<open>
  The candidate's own state depends on its peers in no way: \<open>runElection\<close> reads one field of
  an answer, \<open>voteGranted\<close>, and never the term it carries.
\<close>

lemma runElection_state: "fst (runElection peers answer e) = fst (startElection e)"
  by (simp add: runElection_def split: prod.splits)

fun campaign_rounds :: "jsstring list \<Rightarrow> (nat \<Rightarrow> jsstring \<Rightarrow> response option) list \<Rightarrow> ElectionState \<Rightarrow> ElectionState" where
  \<comment> \<open>elections one after the other, each with the answers its requests got\<close>
  "campaign_rounds peers [] e = e"
| "campaign_rounds peers (a # as) e = campaign_rounds peers as (fst (runElection peers a e))"

lemma campaign_rounds_term:
  "currentTerm e + length as \<le> 2 ^ 53 \<Longrightarrow>
    currentTerm (campaign_rounds peers as e) = currentTerm e + length as \<and> selfId (campaign_rounds peers as e) = selfId e"
proof (induction as arbitrary: e)
  case Nil
  then show ?case by simp
next
  case (Cons a as)
  have "currentTerm e < 2 ^ 53" using Cons.prems by simp
  then have t: "currentTerm (fst (startElection e)) = currentTerm e + 1"
    by (simp add: startElection_def js_succ_exact)
  then have "currentTerm (fst (startElection e)) + length as \<le> 2 ^ 53" using Cons.prems by simp
  from Cons.IH [OF this] t show ?case by (simp add: runElection_state) (simp add: startElection_def)
qed

text \<open>C24: A candidate that keeps trying wins: whatever answers its first campaigns got, once it has
  run as many as the most advanced of its reachable peers is ahead of it, its next campaign
  is granted by every one of them, and won if they and itself are a majority; and each of
  them is then a replica in the candidate's term. A lagging candidate thus overtakes the
  current leader: its campaigns never adopt the newer term that a refusal carries.\<close>

theorem persistent_candidate_wins:
  assumes "distinct peers" and "up \<subseteq> set peers" and "hasMajority (1 + card up) (length peers + 1)" and "selfId e \<noteq> []"
    and "\<forall>p \<in> up. currentTerm (nr_election (node p)) \<le> currentTerm e + length earlier"
    and "currentTerm e + length earlier < 2 ^ 53"
    and "answer = (\<lambda>t p. if p \<in> up then Some (snd (post_request_vote (Some (vote_request t (selfId e))) (node p))) else None)"
    and "runElection peers answer (campaign_rounds peers earlier e) = (e', result)"
  shows "won result \<and> res_term result = currentTerm e + length earlier + 1 \<and> votes result = 1 + card up \<and>
    (\<forall>p \<in> up. nr_role (fst (post_request_vote (Some (vote_request (res_term result) (selfId e))) (node p))) = Replica \<and>
      currentTerm (nr_election (fst (post_request_vote (Some (vote_request (res_term result) (selfId e))) (node p)))) = res_term result)"
proof -
  let ?t = "currentTerm e + length earlier + 1"
  have rounds: "currentTerm (campaign_rounds peers earlier e) = currentTerm e + length earlier"
    using campaign_rounds_term [of e earlier peers] assms(6) by simp
  have t: "snd (startElection (campaign_rounds peers earlier e)) = ?t"
    using rounds js_succ_exact [of "currentTerm (campaign_rounds peers earlier e)"] assms(6) by (simp add: startElection_def)
  have result: "result = election_result ?t (map (\<lambda>p. requestVoteFrom (answer ?t p)) peers)"
    using assms(8) t by (auto simp: runElection_def split: prod.splits)
  have newer: "currentTerm (nr_election (node p)) < ?t" if "p \<in> up" for p using assms(5) that by fastforce
  have vote: "post_request_vote (Some (vote_request ?t (selfId e))) (node p) = vote_node ?t (selfId e) (node p)" for p
    using assms(4) by (rule post_request_vote_request)
  have grants: "requestVoteFrom (answer ?t p) \<longleftrightarrow> p \<in> up" for p
    using newer_term_granted [OF newer] vote by (simp add: assms(7)) (simp add: requestVoteFrom_def)
  have "length (filter (\<lambda>g. g) (map (\<lambda>p. requestVoteFrom (answer ?t p)) peers)) = length (filter (\<lambda>p. p \<in> up) peers)"
    by (simp only: filter_map o_def grants length_map)
  also have "\<dots> = card (set (filter (\<lambda>p. p \<in> up) peers))"
    using assms(1) distinct_card [of "filter (\<lambda>p. p \<in> up) peers"] by simp
  also have "set (filter (\<lambda>p. p \<in> up) peers) = up" using assms(2) by auto
  finally have votes: "votes result = 1 + card up" by (simp add: result)
  have "won result" using votes assms(3) by (simp add: result)
  moreover have "res_term result = ?t" by (simp add: result)
  moreover have "nr_role (fst (vote_node ?t (selfId e) (node p))) = Replica \<and>
      currentTerm (nr_election (fst (vote_node ?t (selfId e) (node p)))) = ?t" if "p \<in> up" for p
    using newer [OF that] request_vote_rule [of ?t "selfId e" "nr_election (node p)"] by (simp add: vote_node_fields)
  ultimately show ?thesis using votes vote by simp
qed

theorem persistent_candidate_wins_witness:
  "won (snd (runElection [''b'', ''c'']
     (\<lambda>t p. if p \<in> {''b''} then Some (snd (post_request_vote (Some (vote_request t ''a''))
        \<lparr>nr_role = Primary, nr_replicaUrls = [], nr_primaryUrl = None,
         nr_election = \<lparr>selfId = p, currentTerm = 2, votedFor = Some p\<rparr>\<rparr>)) else None)
     (campaign_rounds [''b'', ''c''] [\<lambda>t p. None, \<lambda>t p. None] (new_election ''a''))))"
proof -
  have self: "selfId (new_election ''a'') = ''a''" "currentTerm (new_election ''a'') = 0"
    by (simp_all add: new_election_def)
  have major: "hasMajority (1 + card {''b''}) (length [''b'', ''c''] + 1)" by (simp add: hasMajority_iff)
  show ?thesis
    using persistent_candidate_wins [of "[''b'', ''c'']" "{''b''}" "new_election ''a''"
      "\<lambda>p. \<lparr>nr_role = Primary, nr_replicaUrls = [], nr_primaryUrl = None,
         nr_election = \<lparr>selfId = p, currentTerm = 2, votedFor = Some p\<rparr>\<rparr>" "[\<lambda>t p. None, \<lambda>t p. None]",
      OF _ _ major _ _ _ refl prod.collapse [symmetric], unfolded self]
    by simp
qed

end
