(* ===== verification/ElectionProtocol.thy ===== *)
theory ElectionProtocol
  imports NodeRole
begin

text \<open>
  The election as a protocol between the nodes of a peer set: every node runs the handlers
  of \<open>NodeRole\<close>, requests and answers travel through a network that may delay, reorder,
  duplicate and lose them, and campaigns of different nodes interleave freely. The lists
  \<open>INKCACHE_PEER_URLS\<close> are symmetric, as \<open>src/network/server.ts\<close> asks: every node lists
  every other one.
\<close>

section \<open>Configurations and steps\<close>

datatype message =
  VoteReq jsstring jsstring nat \<comment> \<open>candidate, peer, term\<close>
  | VoteAns jsstring jsstring nat response \<comment> \<open>candidate, peer, term, what the peer answered\<close>
  | Post jsstring json \<comment> \<open>URL and body of an announcement\<close>

record config =
  node :: "jsstring \<Rightarrow> node_role"
  campaign :: "jsstring \<Rightarrow> nat option" \<comment> \<open>the term of the campaign in flight (\<open>electionInFlight\<close>)\<close>
  net :: "message set"
  granted :: "(jsstring \<times> nat \<times> jsstring) set" \<comment> \<open>history: who voted in which term for whom\<close>
  wins :: "(nat \<times> jsstring) set" \<comment> \<open>history: terms and candidates whose count was a majority\<close>

definition peer_urls :: "jsstring list \<Rightarrow> jsstring \<Rightarrow> jsstring list" where
  "peer_urls ids i = filter (\<lambda>j. j \<noteq> i) ids"

inductive estep :: "jsstring list \<Rightarrow> config \<Rightarrow> config \<Rightarrow> bool" for ids where
  Campaign: "i \<in> set ids \<Longrightarrow> campaign c i = None \<Longrightarrow> campaign_begin (node c i) = (nd, t) \<Longrightarrow>
    estep ids c (c\<lparr>node := (node c)(i := nd), campaign := (campaign c)(i := Some t),
      net := net c \<union> (\<lambda>p. VoteReq i p t) ` set (peer_urls ids i),
      granted := insert (i, t, i) (granted c)\<rparr>)"
| Vote: "VoteReq i j t \<in> net c \<Longrightarrow> post_request_vote (Some (vote_request t i)) (node c j) = (nd, r) \<Longrightarrow>
    estep ids c (c\<lparr>node := (node c)(j := nd), net := insert (VoteAns i j t r) (net c),
      granted := (if requestVoteFrom (Some r) then insert (j, t, i) (granted c) else granted c)\<rparr>)"
| Decide: "i \<in> set ids \<Longrightarrow> campaign c i = Some t \<Longrightarrow>
    \<forall>p \<in> set (peer_urls ids i). \<forall>r. answer p = Some r \<longrightarrow> VoteAns i p t r \<in> net c \<Longrightarrow>
    result = election_result t (map (\<lambda>p. requestVoteFrom (answer p)) (peer_urls ids i)) \<Longrightarrow>
    campaign_end (peer_urls ids i) i result (node c i) = (nd, posts) \<Longrightarrow>
    estep ids c (c\<lparr>node := (node c)(i := nd), campaign := (campaign c)(i := None),
      net := net c \<union> (\<lambda>(url, body). Post url body) ` set posts,
      wins := (if won result then insert (t, i) (wins c) else wins c)\<rparr>)"
| Announce: "Post (j @ ''/election/leader'') body \<in> net c \<Longrightarrow> post_leader (Some body) (node c j) = (nd, r) \<Longrightarrow>
    estep ids c (c\<lparr>node := (node c)(j := nd)\<rparr>)"
| Promote: "i \<in> set ids \<Longrightarrow> post_promote body (node c i) = (nd, r) \<Longrightarrow>
    estep ids c (c\<lparr>node := (node c)(i := nd)\<rparr>)"

definition initial :: "config \<Rightarrow> bool" where
  \<comment> \<open>any roles; every election state as constructed\<close>
  "initial c \<longleftrightarrow> (\<forall>i. nr_election (node c i) = new_election i) \<and> (\<forall>i. campaign c i = None) \<and>
     net c = {} \<and> granted c = {} \<and> wins c = {}"

inductive reach :: "jsstring list \<Rightarrow> nat \<Rightarrow> config \<Rightarrow> bool" for ids where
  Init: "initial c \<Longrightarrow> reach ids 0 c"
| Step: "reach ids n c \<Longrightarrow> estep ids c c' \<Longrightarrow> reach ids (Suc n) c'"

section \<open>Votes are locked and wins are majorities\<close>

definition votes_of :: "config \<Rightarrow> jsstring \<Rightarrow> (nat \<times> jsstring) set" where
  "votes_of c j = {(t, i). (j, t, i) \<in> granted c}"

definition locks :: "config \<Rightarrow> bool" where
  "locks c \<longleftrightarrow> (\<forall>j. es.lock_inv (nr_election (node c j)) (votes_of c j)) \<and>
     (\<forall>j. selfId (nr_election (node c j)) = j)"

definition bounded :: "nat \<Rightarrow> config \<Rightarrow> bool" where
  "bounded n c \<longleftrightarrow> (\<forall>j. currentTerm (nr_election (node c j)) \<le> n) \<and> (\<forall>i t. campaign c i = Some t \<longrightarrow> t \<le> n) \<and>
     (\<forall>i j t. VoteReq i j t \<in> net c \<longrightarrow> t \<le> n) \<and>
     (\<forall>url body t. Post url body \<in> net c \<longrightarrow> as_term (read_field ''term'' body) = Some t \<longrightarrow> t \<le> n)"

definition answers_true :: "config \<Rightarrow> bool" where
  "answers_true c \<longleftrightarrow> (\<forall>i j t r. VoteAns i j t r \<in> net c \<longrightarrow> requestVoteFrom (Some r) \<longrightarrow> (j, t, i) \<in> granted c) \<and>
     (\<forall>i t. campaign c i = Some t \<longrightarrow> (i, t, i) \<in> granted c) \<and>
     (\<forall>j t. VoteReq [] j t \<notin> net c)"

definition voters :: "jsstring list \<Rightarrow> config \<Rightarrow> nat \<Rightarrow> jsstring \<Rightarrow> jsstring set" where
  "voters ids c t i = {j \<in> set ids. (j, t, i) \<in> granted c}"

definition wins_backed :: "jsstring list \<Rightarrow> config \<Rightarrow> bool" where
  "wins_backed ids c \<longleftrightarrow> (\<forall>(t, i) \<in> wins c. majority_of ids (voters ids c t i))"

text \<open>
  A step changes the election state of one node, by one of the voter's operations, and
  adds that operation's vote.
\<close>

definition node_change :: "config \<Rightarrow> config \<Rightarrow> bool" where
  "node_change c c' \<longleftrightarrow> (\<exists>j a. es_safe a (nr_election (node c j)) \<and>
     (\<forall>k. nr_election (node c' k) = (if k = j then es_step a (nr_election (node c j)) else nr_election (node c k))) \<and>
     (\<forall>k. votes_of c' k = (if k = j then votes_of c j \<union> es.cast_set a (nr_election (node c j)) else votes_of c k)))"

lemma es_step_self [simp]: "selfId (es_step a e) = selfId e"
  by (cases a) (simp_all add: requestVote_def observeTerm_def startElection_def Let_def)

lemma locks_change: "locks c \<Longrightarrow> node_change c c' \<Longrightarrow> locks c'"
  unfolding locks_def node_change_def using es.lock_inv_step by auto

definition noop :: es_op where
  "noop = Observe 0 None"

lemma noop_simps [simp]: "es_safe noop e" "es_step noop e = e" "es.cast_set noop e = {}"
  by (simp_all add: noop_def observeTerm_def es.cast_set_def)

lemma node_change_quiet:
  assumes "\<And>k. nr_election (node c' k) = nr_election (node c k)" and "granted c' = granted c"
  shows "node_change c c'"
  unfolding node_change_def using assms
  by (intro exI [of _ "[]"] exI [of _ noop]) (simp add: votes_of_def)

lemma node_change_at:
  assumes "es_safe a (nr_election (node c j))"
    and "nr_election (node c' j) = es_step a (nr_election (node c j))"
    and "\<And>k. k \<noteq> j \<Longrightarrow> nr_election (node c' k) = nr_election (node c k)"
    and "granted c' = granted c \<union> (\<lambda>(t, i). (j, t, i)) ` es.cast_set a (nr_election (node c j))"
  shows "node_change c c'"
proof -
  have "votes_of c' k = (if k = j then votes_of c j \<union> es.cast_set a (nr_election (node c j)) else votes_of c k)" for k
    using assms(4) by (auto simp: votes_of_def)
  with assms(1-3) show ?thesis
    unfolding node_change_def by (intro exI [of _ j] exI [of _ a]) auto
qed

lemma post_leader_election:
  "nr_election (fst (post_leader body nd)) = nr_election nd \<or>
   (\<exists>t u. as_term (read_field ''term'' (nullish_to_obj body)) = Some t \<and>
      nr_election (fst (post_leader body nd)) = observeTerm t (Some u) (nr_election nd))"
  by (auto simp: post_leader_def adopt_leader_election split: option.splits)

lemma cast_set_simps:
  "es.cast_set Start e = {(snd (startElection e), selfId e)}"
  "es.cast_set (Request t i) e = (if voteGranted (snd (requestVote t i e)) then {(t, i)} else {})"
  "es.cast_set (Observe t u) e = {}"
  by (simp_all add: es.cast_set_def)

lemma estep_node_change:
  assumes "estep ids c c'" and "locks c" and "answers_true c" and "bounded n c" and "n < 2 ^ 53"
  shows "node_change c c'"
  using assms(1)
proof cases
  case (Campaign i nd t)
  have "currentTerm (nr_election (node c i)) < 2 ^ 53"
    using assms(4,5) by (auto simp: bounded_def intro: le_less_trans)
  moreover have "nr_election nd = fst (startElection (nr_election (node c i)))"
    and "t = snd (startElection (nr_election (node c i)))"
    using campaign_begin_election [of "node c i"] Campaign(4) by simp_all
  moreover have "selfId (nr_election (node c i)) = i" using assms(2) by (simp add: locks_def)
  ultimately show ?thesis
    using Campaign(1) by (intro node_change_at [of Start c i]) (simp_all add: cast_set_simps)
next
  case (Vote i j t nd r)
  have "i \<noteq> []" using assms(3) Vote(2) by (auto simp: answers_true_def)
  then have "vote_node t i (node c j) = (nd, r)"
    using Vote(3) by (simp add: post_request_vote_request)
  then have "nr_election nd = fst (requestVote t i (nr_election (node c j)))"
    and "r = vote_response (snd (requestVote t i (nr_election (node c j))))"
    using vote_node_election [of t i "node c j"] vote_node_response [of t i "node c j"] by simp_all
  then show ?thesis
    using Vote(1) by (intro node_change_at [of "Request t i" c j]) (simp_all add: cast_set_simps)
next
  case (Decide i t answer result nd posts)
  have "nr_election nd = nr_election (node c i)"
    using campaign_end_election [of "peer_urls ids i" i result "node c i"] Decide(6) by simp
  then show ?thesis using Decide(1) by (intro node_change_quiet) simp_all
next
  case (Announce j body nd r)
  have nd: "nd = fst (post_leader (Some body) (node c j))" using Announce(3) by simp
  from post_leader_election [of "Some body" "node c j"] show ?thesis
  proof
    assume "nr_election (fst (post_leader (Some body) (node c j))) = nr_election (node c j)"
    then show ?thesis using Announce(1) nd by (intro node_change_quiet) simp_all
  next
    assume "\<exists>t u. as_term (read_field ''term'' (nullish_to_obj (Some body))) = Some t \<and>
      nr_election (fst (post_leader (Some body) (node c j))) = observeTerm t (Some u) (nr_election (node c j))"
    then obtain t u where "nr_election nd = observeTerm t (Some u) (nr_election (node c j))"
      using nd by auto
    then show ?thesis
      using Announce(1) by (intro node_change_at [of "Observe t (Some u)" c j]) (simp_all add: cast_set_simps)
  qed
next
  case (Promote i body nd r)
  have "nr_election nd = nr_election (node c i)"
    using post_promote_election [of body "node c i"] Promote(3) by simp
  then show ?thesis using Promote(1) by (intro node_change_quiet) simp_all
qed

lemma granted_mono: "estep ids c c' \<Longrightarrow> granted c \<subseteq> granted c'"
  by (cases rule: estep.cases) auto

lemma answers_true_step:
  assumes "estep ids c c'" and "answers_true c" and "[] \<notin> set ids"
  shows "answers_true c'"
  using assms(1)
proof cases
  case (Campaign i nd t)
  then show ?thesis using assms(2,3) by (auto simp: answers_true_def)
next
  case (Vote i j t nd r)
  then show ?thesis using assms(2) by (auto simp: answers_true_def)
next
  case (Decide i t answer result nd posts)
  then show ?thesis using assms(2) by (auto simp: answers_true_def)
next
  case (Announce j body nd r)
  then show ?thesis using assms(2) by (simp add: answers_true_def)
next
  case (Promote i body nd r)
  then show ?thesis using assms(2) by (simp add: answers_true_def)
qed

lemma majority_of_mono:
  assumes "majority_of ids A" and "A \<subseteq> B" and "B \<subseteq> set ids"
  shows "majority_of ids B"
proof -
  have "card A \<le> card B" using assms(2,3) finite_subset by (intro card_mono) auto
  with assms show ?thesis by (simp add: majority_of_def hasMajority_iff)
qed

lemma wins_backed_step:
  assumes "estep ids c c'" and "wins_backed ids c" and "answers_true c" and "distinct ids"
  shows "wins_backed ids c'"
proof -
  have mono: "voters ids c t i \<subseteq> voters ids c' t i" for t i
    using granted_mono [OF assms(1)] by (auto simp: voters_def)
  have old: "majority_of ids (voters ids c' t i)" if "(t, i) \<in> wins c" for t i
    by (rule majority_of_mono [OF _ mono]) (use assms(2) that in \<open>auto simp: wins_backed_def voters_def\<close>)
  have new: "majority_of ids (voters ids c' t i)"
    if i: "i \<in> set ids" "campaign c i = Some t" and "won (election_result t (map (\<lambda>p. requestVoteFrom (answer p)) (peer_urls ids i)))"
      and a: "\<forall>p \<in> set (peer_urls ids i). \<forall>r. answer p = Some r \<longrightarrow> VoteAns i p t r \<in> net c"
    for i t answer
  proof (rule majority_of_mono)
    let ?Q = "insert i (granting_peers (peer_urls ids i) (\<lambda>p. requestVoteFrom (answer p)))"
    show "majority_of ids ?Q"
      using assms(4) i(1) that(3) by (intro won_majority [of _ ids i]) (auto simp: peer_urls_def)
    have "(p, t, i) \<in> granted c" if p: "p \<in> set (peer_urls ids i)" "requestVoteFrom (answer p)" for p
    proof -
      obtain r where r: "answer p = Some r" using p(2) by (cases "answer p") (simp_all add: requestVoteFrom_def)
      then show ?thesis using a p assms(3) by (auto simp: answers_true_def)
    qed
    moreover have "(i, t, i) \<in> granted c" using i(2) assms(3) by (auto simp: answers_true_def)
    ultimately show "?Q \<subseteq> voters ids c' t i"
      using i(1) granted_mono [OF assms(1)] by (auto simp: voters_def granting_peers_def peer_urls_def)
  qed (auto simp: voters_def)
  show ?thesis using assms(1)
  proof cases
    case (Decide i t answer result nd posts)
    then show ?thesis using old new [of i t answer] by (auto simp: wins_backed_def)
  qed (use old in \<open>auto simp: wins_backed_def\<close>)
qed

lemma bounded_Suc: "bounded n c \<Longrightarrow> bounded (Suc n) c"
  unfolding bounded_def by (meson le_SucI)

lemma bounded_step:
  assumes "estep ids c c'" and "bounded n c" and "n < 2 ^ 53"
  shows "bounded (Suc n) c'"
proof -
  have lift: "bounded (Suc n) c" using assms(2) by (rule bounded_Suc)
  have cur: "currentTerm (nr_election (node c j)) \<le> n" for j using assms(2) by (simp add: bounded_def)
  show ?thesis using assms(1)
  proof cases
    case (Campaign i nd t)
    have "nr_election nd = fst (startElection (nr_election (node c i)))"
      and "t = snd (startElection (nr_election (node c i)))"
      using campaign_begin_election [of "node c i"] Campaign(4) by simp_all
    moreover have "js_succ (currentTerm (nr_election (node c i))) \<le> Suc n"
      using cur [of i] js_succ_exact [OF le_less_trans [OF cur [of i] assms(3)]] by simp
    ultimately have "t \<le> Suc n" "currentTerm (nr_election nd) \<le> Suc n"
      by (simp_all add: startElection_def)
    then show ?thesis using lift Campaign(1) by (auto simp: bounded_def)
  next
    case (Vote i j t nd r)
    have t: "t \<le> n" using Vote(2) assms(2) by (auto simp: bounded_def)
    have "currentTerm (nr_election nd) \<le> Suc n"
    proof -
      have "currentTerm (nr_election (fst (post_request_vote (Some (vote_request t i)) (node c j)))) \<le> n"
        using t cur [of j] request_vote_rule [of t _ "nr_election (node c j)"]
        by (auto simp: post_request_vote_def split: option.splits)
          (simp add: vote_request_def nullish_to_obj_def)
      then show ?thesis using Vote(3) by simp
    qed
    then show ?thesis using lift Vote(1) by (auto simp: bounded_def)
  next
    case (Decide i t answer result nd posts)
    have e: "nr_election nd = nr_election (node c i)"
      using campaign_end_election [of "peer_urls ids i" i result "node c i"] Decide(6) by simp
    have t: "t \<le> n" using Decide(3) assms(2) by (auto simp: bounded_def)
    have "as_term (read_field ''term'' body) = Some t" if "(url, body) \<in> set posts" for url body
      using that Decide(5,6) by (auto simp: campaign_end_def promoteToPrimary_def announceLeader_def split: if_splits)
    then show ?thesis using lift Decide(1) e t by (auto simp: bounded_def)
  next
    case (Announce j body nd r)
    have "currentTerm (nr_election nd) \<le> Suc n"
    proof -
      have "t \<le> n" if "as_term (read_field ''term'' (nullish_to_obj (Some body))) = Some t" for t
        using that Announce(2) assms(2) by (cases body) (auto simp: bounded_def nullish_to_obj_def)
      then show ?thesis
        using post_leader_election [of "Some body" "node c j"] Announce(3) cur [of j]
        by (auto simp: observeTerm_def intro: le_SucI)
    qed
    then show ?thesis using lift Announce(1) by (auto simp: bounded_def)
  next
    case (Promote i body nd r)
    have "nr_election nd = nr_election (node c i)"
      using post_promote_election [of body "node c i"] Promote(3) by simp
    then show ?thesis using lift Promote(1) by (auto simp: bounded_def)
  qed
qed

lemma reach_inv:
  assumes "reach ids n c" and "distinct ids" and "[] \<notin> set ids" and "n \<le> 2 ^ 53"
  shows "locks c \<and> bounded n c \<and> answers_true c \<and> wins_backed ids c"
  using assms(1,4)
proof induction
  case (Init c)
  then have "locks c" "bounded 0 c" "answers_true c" "wins_backed ids c"
    using es.lock_inv_empty
    by (auto simp: initial_def locks_def bounded_def answers_true_def wins_backed_def votes_of_def new_election_def)
  then show ?case by blast
next
  case (Step n c c')
  then have n: "n < 2 ^ 53" and inv: "locks c" "bounded n c" "answers_true c" "wins_backed ids c" by simp_all
  have "node_change c c'" using estep_node_change [OF Step.hyps(2) inv(1,3,2) n] .
  then show ?case
    using locks_change [OF inv(1)] bounded_step [OF Step.hyps(2) inv(2) n]
      answers_true_step [OF Step.hyps(2) inv(3) assms(3)] wins_backed_step [OF Step.hyps(2) inv(4,3) assms(2)]
    by blast
qed

section \<open>Properties\<close>

text \<open>C4: At most one winner per term: in every configuration the nodes of a symmetric peer
  set can reach - messages delayed, lost, duplicated and reordered, campaigns overlapping,
  operators promoting nodes by hand - two candidates whose counts succeeded in the same
  term are the same node.\<close>

theorem at_most_one_winner_per_term:
  assumes "reach ids n c" and "distinct ids" and "[] \<notin> set ids" and "n \<le> 2 ^ 53"
    and "(t, i) \<in> wins c" and "(t, j) \<in> wins c"
  shows "i = j"
proof -
  note inv = reach_inv [OF assms(1-4)]
  have "majority_of ids (voters ids c t i)" "majority_of ids (voters ids c t j)"
    using inv assms(5,6) by (auto simp: wins_backed_def)
  then show ?thesis
  proof (rule mq.unique_winner [where voted = "\<lambda>v k. (v, t, k) \<in> granted c"])
    fix v k l
    assume "(v, t, k) \<in> granted c" and "(v, t, l) \<in> granted c"
    moreover have "es.lock_inv (nr_election (node c v)) (votes_of c v)" using inv by (simp add: locks_def)
    ultimately show "k = l" using es.lock_inv_unique by (fastforce simp: votes_of_def)
  qed (auto simp: voters_def)
qed

section \<open>Concrete runs\<close>

lemma js_succ_small [simp]: "js_succ 0 = 1" "js_succ 1 = 2" "js_succ (Suc 0) = 2"
  by (simp_all add: js_succ_exact)

lemma step_campaign:
  assumes "i \<in> set ids" and "campaign c i = None" and "campaign_begin (node c i) = (nd, t)"
  obtains c' where "estep ids c c'" and "node c' = (node c)(i := nd)"
    and "campaign c' = (campaign c)(i := Some t)"
    and "net c' = net c \<union> (\<lambda>p. VoteReq i p t) ` set (peer_urls ids i)" and "wins c' = wins c"
  using estep.Campaign [OF assms] by simp

lemma step_vote:
  assumes "VoteReq i j t \<in> net c"
    and "post_request_vote (Some (vote_request t i)) (node c j) = (nd, r)"
  obtains c' where "estep ids c c'" and "node c' = (node c)(j := nd)" and "campaign c' = campaign c"
    and "net c' = insert (VoteAns i j t r) (net c)" and "wins c' = wins c"
  using estep.Vote [OF assms, of ids] by simp

lemma step_decide:
  assumes "i \<in> set ids" and "campaign c i = Some t"
    and "\<forall>p \<in> set (peer_urls ids i). \<forall>r. answer p = Some r \<longrightarrow> VoteAns i p t r \<in> net c"
    and "result = election_result t (map (\<lambda>p. requestVoteFrom (answer p)) (peer_urls ids i))"
    and "campaign_end (peer_urls ids i) i result (node c i) = (nd, posts)"
  obtains c' where "estep ids c c'" and "node c' = (node c)(i := nd)" and "campaign c' = (campaign c)(i := None)"
    and "net c' = net c \<union> (\<lambda>(url, body). Post url body) ` set posts"
    and "wins c' = (if won result then insert (t, i) (wins c) else wins c)"
  using estep.Decide [OF assms] by simp

lemma step_announce:
  assumes "Post (j @ ''/election/leader'') body \<in> net c"
    and "post_leader (Some body) (node c j) = (nd, r)"
  obtains c' where "estep ids c c'" and "node c' = (node c)(j := nd)" and "campaign c' = campaign c"
    and "net c' = net c" and "wins c' = wins c"
  using estep.Announce [OF assms, of ids] by simp

definition follower :: "jsstring \<Rightarrow> nat \<Rightarrow> jsstring option \<Rightarrow> jsstring option \<Rightarrow> node_role" where
  "follower self t vote leader = \<lparr>nr_role = Replica, nr_replicaUrls = [], nr_primaryUrl = leader,
     nr_election = \<lparr>selfId = self, currentTerm = t, votedFor = vote\<rparr>\<rparr>"

definition leading :: "jsstring \<Rightarrow> nat \<Rightarrow> jsstring option \<Rightarrow> jsstring list \<Rightarrow> node_role" where
  "leading self t vote replicas = \<lparr>nr_role = Primary, nr_replicaUrls = replicas, nr_primaryUrl = None,
     nr_election = \<lparr>selfId = self, currentTerm = t, votedFor = vote\<rparr>\<rparr>"

definition yes :: "nat \<Rightarrow> response" where
  "yes t = vote_response \<lparr>voteGranted = True, vote_term = t\<rparr>"

definition leader_body :: "nat \<Rightarrow> jsstring \<Rightarrow> json" where
  "leader_body t url = JObj [(''term'', json_nat t), (''primaryUrl'', JStr url)]"

lemma follower_begins: "campaign_begin (follower self t v l) = (follower self (js_succ t) (Some self) l, js_succ t)"
  by (simp add: campaign_begin_def startElection_def follower_def)

lemma follower_votes:
  "c \<noteq> [] \<Longrightarrow> t0 < t \<Longrightarrow>
    post_request_vote (Some (vote_request t c)) (follower self t0 v l) = (follower self t (Some c) l, yes t)"
  by (simp add: post_request_vote_request vote_node_def requestVote_def follower_def yes_def)

lemma leading_steps_down:
  "c \<noteq> [] \<Longrightarrow> t0 < t \<Longrightarrow>
    post_request_vote (Some (vote_request t c)) (leading self t0 v rs) =
      ((follower self t (Some c) None)\<lparr>nr_replicaUrls := rs\<rparr>, yes t)"
  by (simp add: post_request_vote_request vote_node_def requestVote_def follower_def leading_def yes_def)

lemma follower_adopts:
  "u \<noteq> [] \<Longrightarrow> t0 \<le> t \<Longrightarrow> \<exists>r. post_leader (Some (leader_body t u)) (follower self t0 v l) =
    (follower self t (if t0 < t then Some u else v) (Some u), r)"
  by (auto simp: post_leader_def leader_body_def nullish_to_obj_def adopt_leader_def observeTerm_def follower_def)

lemma follower_wins:
  "campaign_end ps self r (follower self' t v l) =
    (if won r then (leading self' t v ps, map (\<lambda>p. (p @ ''/election/leader'', leader_body (res_term r) self)) ps)
     else (follower self' t v l, []))"
  by (simp add: campaign_end_def promoteToPrimary_def follower_def leading_def announceLeader_def leader_body_def)

lemma yes_counts [simp]: "requestVoteFrom (Some (yes t))" "\<not> requestVoteFrom None"
  by (simp_all add: yes_def) (simp add: requestVoteFrom_def)

definition three :: "jsstring list" where
  "three = [''a'', ''b'', ''c'']"

lemma three_simps [simp]: "set three = {''a'', ''b'', ''c''}" "distinct three"
  "peer_urls three ''a'' = [''b'', ''c'']" "peer_urls three ''b'' = [''a'', ''c'']" "peer_urls three ''c'' = [''a'', ''b'']"
  by (auto simp: three_def peer_urls_def)

definition start_config :: "(jsstring \<Rightarrow> node_role) \<Rightarrow> config" where
  "start_config nodes = \<lparr>node = nodes, campaign = (\<lambda>i. None), net = {}, granted = {}, wins = {}\<rparr>"

lemma start_reach: "(\<And>i. nr_election (nodes i) = new_election i) \<Longrightarrow> reach ids 0 (start_config nodes)"
  by (rule reach.Init) (simp add: initial_def start_config_def)

lemma stale_run:
  obtains c where "reach three 8 c" and "node c ''a'' = leading ''a'' 2 (Some ''b'') [''b'', ''c'']"
    and "node c ''b'' = leading ''b'' 2 (Some ''b'') [''a'', ''c'']"
    and "wins c = {(1, ''a''), (2, ''b'')}"
proof -
  let ?nodes = "\<lambda>i. follower i 0 None (Some ''p'')"
  let ?start = "start_config ?nodes"
  have r0: "reach three 0 ?start"
    by (rule start_reach) (simp add: follower_def new_election_def)
  obtain c1 where c1: "estep three ?start c1"
      "node c1 = ?nodes(''a'' := follower ''a'' 1 (Some ''a'') (Some ''p''))"
      "campaign c1 = (\<lambda>i. None)(''a'' := Some 1)" "VoteReq ''a'' ''b'' 1 \<in> net c1" "VoteReq ''a'' ''c'' 1 \<in> net c1"
      "wins c1 = {}"
    by (rule step_campaign [of "''a''" three ?start]) (auto simp: start_config_def follower_begins)
  obtain c2 where c2: "estep three c1 c2" "node c2 = (node c1)(''c'' := follower ''c'' 1 (Some ''a'') (Some ''p''))"
      "campaign c2 = campaign c1" "VoteReq ''a'' ''b'' 1 \<in> net c2" "VoteAns ''a'' ''c'' 1 (yes 1) \<in> net c2" "wins c2 = {}"
    by (rule step_vote [OF c1(5)]) (use c1 in \<open>auto simp: follower_votes\<close>)
  obtain c3 where c3: "estep three c2 c3" "node c3 = (node c2)(''b'' := follower ''b'' 1 (Some ''a'') (Some ''p''))"
      "campaign c3 = campaign c1" "VoteAns ''a'' ''c'' 1 (yes 1) \<in> net c3" "wins c3 = {}"
    by (rule step_vote [OF c2(4)]) (use c1 c2 in \<open>auto simp: follower_votes\<close>)
  obtain c4 where c4: "estep three c3 c4"
      "node c4 = (node c3)(''b'' := follower ''b'' 2 (Some ''b'') (Some ''p''))"
      "campaign c4 = (campaign c1)(''b'' := Some 2)" "VoteAns ''a'' ''c'' 1 (yes 1) \<in> net c4" "wins c4 = {}"
      "VoteReq ''b'' ''a'' 2 \<in> net c4"
    by (rule step_campaign [of "''b''" three c3]) (use c1 c3 in \<open>auto simp: follower_begins\<close>)
  obtain c5 where c5: "estep three c4 c5"
      "node c5 = (node c4)(''a'' := follower ''a'' 2 (Some ''b'') (Some ''p''))"
      "campaign c5 = campaign c4" "VoteAns ''a'' ''c'' 1 (yes 1) \<in> net c5" "wins c5 = {}"
      "VoteAns ''b'' ''a'' 2 (yes 2) \<in> net c5"
    by (rule step_vote [OF c4(6)]) (use c1 c2 c3 c4 in \<open>auto simp: follower_votes\<close>)
  let ?ans = "\<lambda>p. if p = ''a'' then Some (yes 2) else None"
  obtain c6 where c6: "estep three c5 c6"
      "node c6 = (node c5)(''b'' := leading ''b'' 2 (Some ''b'') [''a'', ''c''])"
      "campaign c6 = (campaign c4)(''b'' := None)" "VoteAns ''a'' ''c'' 1 (yes 1) \<in> net c6" "wins c6 = {(2, ''b'')}"
      "Post (''a'' @ ''/election/leader'') (leader_body 2 ''b'') \<in> net c6"
    by (rule step_decide [of "''b''" three c5 2 ?ans, OF _ _ _ refl])
      (use c1 c2 c3 c4 c5 in \<open>auto simp: follower_wins hasMajority_iff\<close>)
  obtain c7 where c7: "estep three c6 c7"
      "node c7 = (node c6)(''a'' := follower ''a'' 2 (Some ''b'') (Some ''b''))"
      "campaign c7 = campaign c6" "VoteAns ''a'' ''c'' 1 (yes 1) \<in> net c7" "wins c7 = {(2, ''b'')}"
  proof -
    obtain r where "post_leader (Some (leader_body 2 ''b'')) (node c6 ''a'') = (follower ''a'' 2 (Some ''b'') (Some ''b''), r)"
      using follower_adopts [of "''b''" 2 2 "''a''" "Some ''b''" "Some ''p''"] c5 c6 by auto
    from step_announce [OF c6(6) this, of three] that c6 show ?thesis by metis
  qed
  let ?ans' = "\<lambda>p. if p = ''c'' then Some (yes 1) else None"
  obtain c8 where c8: "estep three c7 c8"
      "node c8 = (node c7)(''a'' := leading ''a'' 2 (Some ''b'') [''b'', ''c''])" "wins c8 = {(1, ''a''), (2, ''b'')}"
    by (rule step_decide [of "''a''" three c7 1 ?ans', OF _ _ _ refl])
      (use c1 c4 c6 c7 in \<open>auto simp: follower_wins hasMajority_iff\<close>)
  have "reach three (Suc (Suc (Suc (Suc (Suc (Suc (Suc (Suc 0)))))))) c8"
    using c1(1) c2(1) c3(1) c4(1) c5(1) c6(1) c7(1) c8(1) by (intro reach.Step [OF _ c8(1)]
      reach.Step [OF _ c7(1)] reach.Step [OF _ c6(1)] reach.Step [OF _ c5(1)] reach.Step [OF _ c4(1)]
      reach.Step [OF _ c3(1)] reach.Step [OF _ c2(1)] reach.Step [OF r0 c1(1)])
  then have "reach three 8 c8" by (simp add: eval_nat_numeral)
  then show ?thesis using that c6(2) c7(2) c8(2,3) by simp
qed

theorem at_most_one_winner_per_term_witness:
  "\<exists>c. reach three 8 c \<and> (1, ''a'') \<in> wins c \<and> {i. (1, i) \<in> wins c} = {''a''} \<and> {i. (2, i) \<in> wins c} = {''b''}"
proof -
  obtain c where c: "reach three 8 c" "wins c = {(1, ''a''), (2, ''b'')}"
    by (rule stale_run) auto
  have "i = ''a''" if "(1, i) \<in> wins c" for i
    using at_most_one_winner_per_term [OF c(1) _ _ _ that, of "''a''"] c(2) by simp
  with c show ?thesis by auto
qed

text \<open>A win that has become stale still promotes: \<open>campaignForPrimary\<close> does not look at the
  term again after waiting for the votes. Three replicas reach a configuration with two
  primaries: \<open>a\<close> wins term 1 but learns it only after it voted for \<open>b\<close> in term 2 and adopted
  it as leader; it promotes itself all the same, with its own state at term 2 and its vote
  recorded for \<open>b\<close>; its announcement of term 1 is refused by \<open>b\<close> as stale, which leaves
  both as primaries.\<close>

lemma stale_win_two_primaries:
  "\<exists>c. reach three 8 c \<and> nr_role (node c ''a'') = Primary \<and> nr_role (node c ''b'') = Primary \<and>
    wins c = {(1, ''a''), (2, ''b'')} \<and>
    currentTerm (nr_election (node c ''a'')) = 2 \<and> votedFor (nr_election (node c ''a'')) = Some ''b'' \<and>
    fst (post_leader (Some (leader_body 1 ''a'')) (node c ''b'')) = node c ''b'' \<and>
    res_status (snd (post_leader (Some (leader_body 1 ''a'')) (node c ''b''))) = 409"
proof -
  obtain c where c: "reach three 8 c" "node c ''a'' = leading ''a'' 2 (Some ''b'') [''b'', ''c'']"
    "node c ''b'' = leading ''b'' 2 (Some ''b'') [''a'', ''c'']" "wins c = {(1, ''a''), (2, ''b'')}"
    by (rule stale_run)
  have "post_leader (Some (leader_body 1 ''a'')) (leading ''b'' 2 (Some ''b'') [''a'', ''c'']) =
    (leading ''b'' 2 (Some ''b'') [''a'', ''c''],
     \<lparr>res_status = 409, res_body = JObj [(''error'', JStr ''stale term''), (''term'', json_nat 2)]\<rparr>)"
    by (simp add: post_leader_def leader_body_def nullish_to_obj_def adopt_leader_def leading_def)
  with c show ?thesis by (intro exI [of _ c]) (simp add: leading_def)
qed

text \<open>A lost answer can leave the peer set without a primary: the primary \<open>a\<close> votes for \<open>b\<close>
  in a newer term and steps down at once, \<open>b\<close> never sees that vote and loses, and from then
  on all three nodes are read-only replicas, \<open>b\<close> and \<open>c\<close> still following \<open>a\<close>, and \<open>a\<close>
  following nobody.\<close>

lemma lost_vote_leaves_no_primary:
  "\<exists>c. reach three 3 c \<and> (\<forall>i \<in> set three. rejectIfReplica (node c i) \<noteq> None) \<and> wins c = {} \<and>
    nr_primaryUrl (node c ''a'') = None \<and> nr_primaryUrl (node c ''b'') = Some ''a'' \<and>
    nr_primaryUrl (node c ''c'') = Some ''a'' \<and> (\<forall>i. campaign c i = None)"
proof -
  let ?nodes = "(\<lambda>i. follower i 0 None (Some ''a''))(''a'' := leading ''a'' 0 None [''b'', ''c''])"
  let ?start = "start_config ?nodes"
  have r0: "reach three 0 ?start"
    by (rule start_reach) (simp add: follower_def leading_def new_election_def)
  obtain c1 where c1: "estep three ?start c1"
      "node c1 = ?nodes(''b'' := follower ''b'' 1 (Some ''b'') (Some ''a''))"
      "campaign c1 = (\<lambda>i. None)(''b'' := Some 1)" "VoteReq ''b'' ''a'' 1 \<in> net c1" "wins c1 = {}"
    by (rule step_campaign [of "''b''" three ?start]) (auto simp: start_config_def follower_begins)
  obtain c2 where c2: "estep three c1 c2"
      "node c2 = (node c1)(''a'' := (follower ''a'' 1 (Some ''b'') None)\<lparr>nr_replicaUrls := [''b'', ''c'']\<rparr>)"
      "campaign c2 = campaign c1" "wins c2 = {}"
    by (rule step_vote [OF c1(4)]) (use c1 in \<open>auto simp: leading_steps_down\<close>)
  obtain c3 where c3: "estep three c2 c3" "node c3 ''a'' = node c2 ''a''" "node c3 ''b'' = node c2 ''b''"
      "node c3 ''c'' = node c2 ''c''" "campaign c3 = (\<lambda>i. None)" "wins c3 = {}"
    by (rule step_decide [of "''b''" three c2 1 "\<lambda>p. None", OF _ _ _ refl])
      (use c1 c2 in \<open>auto simp: follower_wins hasMajority_iff\<close>)
  have "reach three (Suc (Suc (Suc 0))) c3"
    by (intro reach.Step [OF _ c3(1)] reach.Step [OF _ c2(1)] reach.Step [OF r0 c1(1)])
  then have "reach three 3 c3" by (simp add: eval_nat_numeral)
  then show ?thesis
    using c1(2) c2(2) c3 by (intro exI [of _ c3]) (simp add: rejectIfReplica_def follower_def)
qed

text \<open>
  A node that restarts keeps its identity and loses its election state: \<open>ElectionState\<close> is
  constructed anew at term 0.
\<close>

inductive reach_restarts :: "jsstring list \<Rightarrow> config \<Rightarrow> bool" for ids where
  RInit: "initial c \<Longrightarrow> reach_restarts ids c"
| RStep: "reach_restarts ids c \<Longrightarrow> estep ids c c' \<Longrightarrow> reach_restarts ids c'"
| RRestart: "reach_restarts ids c \<Longrightarrow> i \<in> set ids \<Longrightarrow> nr_election nd = new_election i \<Longrightarrow>
    reach_restarts ids (c\<lparr>node := (node c)(i := nd), campaign := (campaign c)(i := None)\<rparr>)"

text \<open>Forgetting votes breaks the guarantee: a voter that restarts between two requests
  votes again in the same term, and two of three replicas both win term 1 and are both
  primaries.\<close>

lemma restart_two_winners:
  "\<exists>c. reach_restarts three c \<and> wins c = {(1, ''a''), (1, ''b'')} \<and>
    nr_role (node c ''a'') = Primary \<and> nr_role (node c ''b'') = Primary"
proof -
  let ?f = "\<lambda>i. follower i 0 None (Some ''p'')"
  let ?start = "start_config ?f"
  have r0: "reach_restarts three ?start"
    by (rule RInit) (simp add: initial_def start_config_def follower_def new_election_def)
  obtain c1 where c1: "estep three ?start c1" "node c1 = ?f(''a'' := follower ''a'' 1 (Some ''a'') (Some ''p''))"
      "campaign c1 = (\<lambda>i. None)(''a'' := Some 1)" "VoteReq ''a'' ''c'' 1 \<in> net c1" "wins c1 = {}"
    by (rule step_campaign [of "''a''" three ?start]) (auto simp: start_config_def follower_begins)
  obtain c2 where c2: "estep three c1 c2" "node c2 = (node c1)(''c'' := follower ''c'' 1 (Some ''a'') (Some ''p''))"
      "campaign c2 = campaign c1" "VoteAns ''a'' ''c'' 1 (yes 1) \<in> net c2" "wins c2 = {}"
    by (rule step_vote [OF c1(4)]) (use c1 in \<open>auto simp: follower_votes\<close>)
  let ?ans = "\<lambda>p. if p = ''c'' then Some (yes 1) else None"
  obtain c3 where c3: "estep three c2 c3" "node c3 = (node c2)(''a'' := leading ''a'' 1 (Some ''a'') [''b'', ''c''])"
      "campaign c3 = (\<lambda>i. None)" "wins c3 = {(1, ''a'')}"
    by (rule step_decide [of "''a''" three c2 1 ?ans, OF _ _ _ refl])
      (use c1 c2 in \<open>auto simp: follower_wins hasMajority_iff\<close>)
  obtain c4 where c4_def: "c4 = c3\<lparr>node := (node c3)(''c'' := ?f ''c''), campaign := (campaign c3)(''c'' := None)\<rparr>"
    by simp
  have c4: "node c4 = (node c3)(''c'' := ?f ''c'')" "campaign c4 = (\<lambda>i. None)" "wins c4 = {(1, ''a'')}"
    using c3 by (simp_all add: c4_def fun_eq_iff)
  have "reach_restarts three c3"
    by (intro RStep [OF _ c3(1)] RStep [OF _ c2(1)] RStep [OF r0 c1(1)])
  then have r4: "reach_restarts three c4"
    unfolding c4_def by (rule RRestart) (simp_all add: follower_def new_election_def)
  obtain c5 where c5: "estep three c4 c5" "node c5 = (node c4)(''b'' := follower ''b'' 1 (Some ''b'') (Some ''p''))"
      "campaign c5 = (\<lambda>i. None)(''b'' := Some 1)" "VoteReq ''b'' ''c'' 1 \<in> net c5" "wins c5 = {(1, ''a'')}"
    by (rule step_campaign [of "''b''" three c4]) (use c1 c2 c3 c4 in \<open>auto simp: follower_begins\<close>)
  obtain c6 where c6: "estep three c5 c6" "node c6 = (node c5)(''c'' := follower ''c'' 1 (Some ''b'') (Some ''p''))"
      "campaign c6 = campaign c5" "VoteAns ''b'' ''c'' 1 (yes 1) \<in> net c6" "wins c6 = {(1, ''a'')}"
    by (rule step_vote [OF c5(4)]) (use c4 c5 in \<open>auto simp: follower_votes\<close>)
  obtain c7 where c7: "estep three c6 c7" "node c7 = (node c6)(''b'' := leading ''b'' 1 (Some ''b'') [''a'', ''c''])"
      "wins c7 = {(1, ''b''), (1, ''a'')}"
    by (rule step_decide [of "''b''" three c6 1 ?ans, OF _ _ _ refl])
      (use c5 c6 in \<open>auto simp: follower_wins hasMajority_iff\<close>)
  have "reach_restarts three c7"
    by (intro RStep [OF _ c7(1)] RStep [OF _ c6(1)] RStep [OF r4 c5(1)])
  then show ?thesis
    using c2 c3(2) c4(1) c5(2) c6(2) c7(2,3) by (intro exI [of _ c7]) (simp add: leading_def insert_commute)
qed

end
