(* ===== verification/Env.thy ===== *)
theory Env
  imports Cache Http
begin

text \<open>
  \<open>src/network/env.ts\<close> and \<open>src/network/cors.ts\<close>: environment variables. An unset variable is
  \<open>None\<close>. \<open>js_Number\<close> is JavaScript's \<open>Number(s)\<close>; a decimal literal has its exact value, so the
  rounding of a literal with more than 53 significant bits is not modelled.
\<close>

section \<open>\<open>Number(string)\<close>\<close>

definition digit_in :: "nat \<Rightarrow> char \<Rightarrow> nat option" where
  \<comment> \<open>the value of a digit of base at most 16\<close>
  "digit_in base c = (let n = of_char c :: nat;
       v = (if 48 \<le> n \<and> n \<le> 57 then n - 48 else if 97 \<le> n \<and> n \<le> 102 then n - 87
            else if 65 \<le> n \<and> n \<le> 70 then n - 55 else 16)
     in if v < base then Some v else None)"

fun digits_in :: "nat \<Rightarrow> nat \<Rightarrow> jsstring \<Rightarrow> nat option" where
  "digits_in base acc [] = Some acc"
| "digits_in base acc (c # cs) = (case digit_in base c of None \<Rightarrow> None | Some v \<Rightarrow> digits_in base (acc * base + v) cs)"

definition whole_in :: "nat \<Rightarrow> jsstring \<Rightarrow> nat option" where
  "whole_in base s = (if s = [] then None else digits_in base 0 s)"

definition split_at :: "(char \<Rightarrow> bool) \<Rightarrow> jsstring \<Rightarrow> jsstring \<times> jsstring option" where
  \<comment> \<open>before the first such character, and what follows it\<close>
  "split_at P s = (case dropWhile (\<lambda>c. \<not> P c) s of
       [] \<Rightarrow> (s, None) | _ # rest \<Rightarrow> (takeWhile (\<lambda>c. \<not> P c) s, Some rest))"

definition exponent :: "jsstring option \<Rightarrow> int option" where
  \<comment> \<open>the digits after \<open>e\<close>, with an optional sign\<close>
  "exponent e = (case e of None \<Rightarrow> Some 0
     | Some (c # cs) \<Rightarrow>
         if c = CHR ''-'' then map_option (\<lambda>n. - int n) (whole_in 10 cs)
         else if c = CHR ''+'' then map_option int (whole_in 10 cs)
         else map_option int (whole_in 10 (c # cs))
     | Some [] \<Rightarrow> None)"

definition unsigned_decimal :: "jsstring \<Rightarrow> jsnum" where
  "unsigned_decimal s =
     (if s = ''Infinity'' then PosInf
      else let (mantissa, e) = split_at (\<lambda>c. c = CHR ''e'' \<or> c = CHR ''E'') s;
               (whole, frac) = split_at (\<lambda>c. c = CHR ''.'') mantissa;
               frac_digits = (case frac of None \<Rightarrow> [] | Some f \<Rightarrow> f)
        in case (whole_in 10 (whole @ frac_digits), exponent e) of
             (Some n, Some k) \<Rightarrow>
               let shift = k - int (length frac_digits)
               in mk_num (if 0 \<le> shift then of_nat n * 10 ^ nat shift else of_nat n / 10 ^ nat (- shift))
           | _ \<Rightarrow> NaN)"

fun neg_num :: "jsnum \<Rightarrow> jsnum" where
  "neg_num (Fin x) = Fin (- x)"
| "neg_num PosInf = NegInf"
| "neg_num NegInf = PosInf"
| "neg_num NaN = NaN"

definition radix_literal :: "nat \<Rightarrow> jsstring \<Rightarrow> jsnum" where
  "radix_literal base s = (case whole_in base s of None \<Rightarrow> NaN | Some n \<Rightarrow> mk_num (of_nat n))"

definition js_Number :: "jsstring \<Rightarrow> jsnum" where
  "js_Number str = (case trim str of
       [] \<Rightarrow> Fin 0
     | c # cs \<Rightarrow>
         if c = CHR ''-'' then neg_num (unsigned_decimal cs)
         else if c = CHR ''+'' then unsigned_decimal cs
         else if c = CHR ''0'' \<and> cs \<noteq> [] \<and> cs ! 0 \<in> {CHR ''x'', CHR ''X''} then radix_literal 16 (tl cs)
         else if c = CHR ''0'' \<and> cs \<noteq> [] \<and> cs ! 0 \<in> {CHR ''o'', CHR ''O''} then radix_literal 8 (tl cs)
         else if c = CHR ''0'' \<and> cs \<noteq> [] \<and> cs ! 0 \<in> {CHR ''b'', CHR ''B''} then radix_literal 2 (tl cs)
         else unsigned_decimal (c # cs))"

section \<open>The program's parsers\<close>

definition resolveEvictionPolicy :: "jsstring option \<Rightarrow> eviction_policy" where
  "resolveEvictionPolicy envValue = (case envValue of
       None \<Rightarrow> AccessAware
     | Some v \<Rightarrow> if v = ''lru'' then LRU else if v = ''access-aware'' then AccessAware
         else if v = ''lfu'' then LFU else AccessAware)"

definition parsePositiveInt :: "jsstring option \<Rightarrow> nat \<Rightarrow> nat option \<Rightarrow> nat" where
  "parsePositiveInt envValue fallback cap = (case envValue of
       None \<Rightarrow> fallback
     | Some v \<Rightarrow> let n = js_Number v in
         if \<not> is_integer n \<or> n \<le> Fin 0 \<or> (case cap of None \<Rightarrow> False | Some m \<Rightarrow> num_of_nat m < n)
         then fallback
         else (case n of Fin x \<Rightarrow> nat \<lfloor>x\<rfloor> | _ \<Rightarrow> fallback))"

definition DEFAULT_ORIGINS :: "jsstring list" where
  "DEFAULT_ORIGINS = [''http://localhost:5173'', ''http://127.0.0.1:5173'']"

definition resolveCorsOrigins :: "jsstring option \<Rightarrow> jsstring list" where
  "resolveCorsOrigins envValue = DEFAULT_ORIGINS @
     (case envValue of None \<Rightarrow> [] | Some v \<Rightarrow> filter (\<lambda>o'. o' \<noteq> []) (map trim (split_on CHR '','' v)))"

section \<open>Process variables\<close>

type_synonym env = "jsstring \<Rightarrow> jsstring option" \<comment> \<open>\<open>process.env\<close>\<close>

definition node_id :: "env \<Rightarrow> jsstring" where
  "node_id env = (case env ''INKCACHE_NODE_ID'' of Some n \<Rightarrow> n | None \<Rightarrow> ''node-1'')"

definition self_identity :: "env \<Rightarrow> jsstring" where
  \<comment> \<open>\<open>SELF_URL ?? NODE_ID\<close>\<close>
  "self_identity env = (case env ''INKCACHE_SELF_URL'' of Some u \<Rightarrow> u | None \<Rightarrow> node_id env)"

section \<open>Decimal numerals\<close>

lemma parsePositiveInt_pos: "0 < fallback \<Longrightarrow> 0 < parsePositiveInt v fallback cap"
proof (cases v)
  case (Some s)
  assume f: "0 < fallback"
  show ?thesis
  proof (cases "js_Number s")
    case (Fin x)
    have "0 < \<lfloor>x\<rfloor>" if "of_int \<lfloor>x\<rfloor> = x" "0 < x"
      using that by (metis of_int_0_less_iff)
    then show ?thesis using f Some Fin by (auto simp: parsePositiveInt_def Let_def not_le)
  qed (use f Some in \<open>simp_all add: parsePositiveInt_def Let_def\<close>)
qed (simp add: parsePositiveInt_def)

lemma digit_in_digit: "is_digit c \<Longrightarrow> digit_in 10 c = Some (digit_val c)"
  by (auto simp: digit_in_def is_digit_def digit_val_def Let_def)

lemma digits_in_val:
  "\<forall>c \<in> set s. is_digit c \<Longrightarrow> digits_in 10 acc s = Some (acc * 10 ^ length s + digits_val s)"
proof (induction s rule: rev_induct)
  case Nil
  then show ?case by (simp add: digits_val_def)
next
  case (snoc c s)
  have app: "digits_in 10 acc (s @ [c]) = (case digits_in 10 acc s of None \<Rightarrow> None | Some n \<Rightarrow> digits_in 10 n [c])" for acc
    by (induction s arbitrary: acc) (auto split: option.splits)
  show ?case using snoc by (simp add: app digit_in_digit digits_val_snoc algebra_simps)
qed

lemma digit_facts: "is_digit c \<Longrightarrow> \<not> is_ws c \<and> c \<noteq> CHR ''e'' \<and> c \<noteq> CHR ''E'' \<and> c \<noteq> CHR ''.'' \<and>
    c \<noteq> CHR ''-'' \<and> c \<noteq> CHR ''+'' \<and> c \<noteq> CHR ''I'' \<and> c \<notin> {CHR ''x'', CHR ''X'', CHR ''o'', CHR ''O'', CHR ''b'', CHR ''B''}"
  by (auto simp: is_digit_def is_ws_def)

lemma split_at_absent: "\<forall>c \<in> set s. \<not> P c \<Longrightarrow> split_at P s = (s, None)"
  by (simp add: split_at_def dropWhile_eq_Nil_conv [THEN iffD2])

lemma unsigned_decimal_digits:
  assumes "s \<noteq> []" and "\<forall>c \<in> set s. is_digit c"
  shows "unsigned_decimal s = mk_num (of_nat (digits_val s))"
proof -
  have "s \<noteq> ''Infinity''" using assms(2) by (auto simp: is_digit_def)
  moreover have "split_at (\<lambda>c. c = CHR ''e'' \<or> c = CHR ''E'') s = (s, None)" "split_at (\<lambda>c. c = CHR ''.'') s = (s, None)"
    using assms(2) digit_facts by (intro split_at_absent; blast)+
  ultimately show ?thesis
    using assms by (simp add: unsigned_decimal_def whole_in_def digits_in_val exponent_def Let_def)
qed

lemma js_Number_nat: "js_Number (show_nat n) = mk_num (of_nat n)"
proof -
  have digits: "\<forall>c \<in> set (show_nat n). is_digit c" using show_nat_digits by blast
  have nows: "\<forall>d \<in> set (show_nat n). \<not> is_ws d" using digits digit_facts by blast
  have "trim (show_nat n) = show_nat n"
    by (rule trim_no_ws_id [OF show_nat_nonempty]) (use nows hd_in_set last_in_set show_nat_nonempty in blast)+
  moreover obtain c cs where s: "show_nat n = c # cs" using show_nat_nonempty by (cases "show_nat n") auto
  have c: "is_digit c" and cs: "\<forall>d \<in> set cs. is_digit d" using digits unfolding s by simp_all
  moreover have "c \<noteq> CHR ''-'' \<and> c \<noteq> CHR ''+''" using digit_facts [OF c] by blast
  moreover have "cs \<noteq> [] \<Longrightarrow> cs ! 0 \<notin> {CHR ''x'', CHR ''X'', CHR ''o'', CHR ''O'', CHR ''b'', CHR ''B''}"
    using cs digit_facts nth_mem [of 0 cs] by blast
  ultimately have "js_Number (show_nat n) = unsigned_decimal (show_nat n)" unfolding js_Number_def s by auto
  then show ?thesis
    using unsigned_decimal_digits [OF show_nat_nonempty digits] by simp
qed

lemma parsePositiveInt_range:
  "parsePositiveInt v fallback cap = fallback \<or>
     (0 < parsePositiveInt v fallback cap \<and> (\<forall>m. cap = Some m \<longrightarrow> parsePositiveInt v fallback cap \<le> m))"
proof (cases "parsePositiveInt v fallback cap = fallback")
  case False
  then obtain s where v: "v = Some s" by (cases v) (auto simp: parsePositiveInt_def)
  with False obtain x where x: "js_Number s = Fin x" by (cases "js_Number s") (auto simp: parsePositiveInt_def)
  have c: "of_int \<lfloor>x\<rfloor> = x" "0 < x" "\<forall>m. cap = Some m \<longrightarrow> x \<le> of_nat m"
    using False v x by (auto simp: parsePositiveInt_def num_of_nat_def Let_def split: if_splits option.splits)
  have r: "parsePositiveInt v fallback cap = nat \<lfloor>x\<rfloor>"
    using False v x by (simp add: parsePositiveInt_def Let_def split: if_splits)
  have "0 < \<lfloor>x\<rfloor>" using c(1,2) by (metis of_int_0_less_iff)
  moreover have "nat \<lfloor>x\<rfloor> \<le> m" if "cap = Some m" for m
  proof -
    have "(of_int \<lfloor>x\<rfloor> :: rat) \<le> of_int (int m)" unfolding c(1) using c(3) that by simp
    then have "\<lfloor>x\<rfloor> \<le> int m" by (simp only: of_int_le_iff)
    then show ?thesis by simp
  qed
  ultimately show ?thesis unfolding r by simp
qed simp

lemma parsePositiveInt_le: "fallback \<le> m \<Longrightarrow> parsePositiveInt v fallback (Some m) \<le> m"
  using parsePositiveInt_range [of v fallback "Some m"] by auto

text \<open>A numeric variable never yields an unusable number: the result is the fallback or a
  positive integer within the bound; the decimal numeral of every positive integer below
  \<open>2 ^ 53\<close> within the bound is read back exactly; and an unset variable, an empty or blank
  one, and one that is not a number all give the fallback.\<close>

lemma parse_positive_int_total:
  "(parsePositiveInt v fallback cap = fallback \<or>
     (0 < parsePositiveInt v fallback cap \<and> (\<forall>m. cap = Some m \<longrightarrow> parsePositiveInt v fallback cap \<le> m))) \<and>
   (0 < n \<and> n < 2 ^ 53 \<and> (\<forall>m. cap = Some m \<longrightarrow> n \<le> m) \<longrightarrow>
     parsePositiveInt (Some (show_nat n)) fallback cap = n) \<and>
   parsePositiveInt None fallback cap = fallback \<and>
   (\<forall>s. (\<forall>c \<in> set s. is_ws c) \<or> js_Number s = NaN \<longrightarrow> parsePositiveInt (Some s) fallback cap = fallback)"
proof (intro conjI allI impI)
  show "parsePositiveInt v fallback cap = fallback \<or>
     (0 < parsePositiveInt v fallback cap \<and> (\<forall>m. cap = Some m \<longrightarrow> parsePositiveInt v fallback cap \<le> m))"
    by (rule parsePositiveInt_range)
next
  assume n: "0 < n \<and> n < 2 ^ 53 \<and> (\<forall>m. cap = Some m \<longrightarrow> n \<le> m)"
  then have "(of_nat n :: rat) < of_nat (2 ^ 53)" by (simp only: of_nat_less_iff)
  also have "\<dots> < 10 ^ 300" by simp
  also have "\<dots> < overflow_limit" by (rule overflow_limit_large)
  finally have "js_Number (show_nat n) = Fin (of_nat n)"
    by (simp add: js_Number_nat mk_num_Fin)
  then show "parsePositiveInt (Some (show_nat n)) fallback cap = n"
    using n by (fastforce simp: parsePositiveInt_def num_of_nat_def not_less Let_def split: option.splits)
next
  show "parsePositiveInt None fallback cap = fallback" by (simp add: parsePositiveInt_def)
next
  fix s
  assume "(\<forall>c \<in> set s. is_ws c) \<or> js_Number s = NaN"
  then have "js_Number s = Fin 0 \<or> js_Number s = NaN"
    using trim_eq_Nil [of s] by (auto simp: js_Number_def)
  then show "parsePositiveInt (Some s) fallback cap = fallback" by (auto simp: parsePositiveInt_def)
qed

lemma parse_positive_int_total_witness:
  "parsePositiveInt (Some (show_nat 8080)) 5 (Some 65535) = 8080 \<and> parsePositiveInt (Some ''  '') 5 None = 5"
  using parse_positive_int_total [of None 5 "Some 65535" 8080] parse_positive_int_total [of None 5 None 1]
  by (simp add: is_ws_def)

text \<open>
  The list of allowed origins always starts with the two development origins, and adds no
  empty entry.
\<close>

lemma cors_origins: "\<exists>extra. resolveCorsOrigins v = DEFAULT_ORIGINS @ extra \<and> [] \<notin> set extra"
  by (auto simp: resolveCorsOrigins_def split: option.splits)

lemma eviction_policy_names:
  "resolveEvictionPolicy (Some ''lru'') = LRU" "resolveEvictionPolicy (Some ''lfu'') = LFU"
  "s \<notin> {''lru'', ''lfu''} \<Longrightarrow> resolveEvictionPolicy (Some s) = AccessAware" "resolveEvictionPolicy None = AccessAware"
  by (auto simp: resolveEvictionPolicy_def)

end
