(* ===== verification/Persistence.thy ===== *)
theory Persistence
  imports Replication Env
begin

text \<open>
  \<open>src/network/persistence.ts\<close>: saving the store to a file and loading it back. A file's
  content is what \<open>JSON.parse\<close> makes of its text, or \<open>Partial\<close> for text it rejects, such as a
  half-written file. Names point to inodes, so that a rename while another save has the
  temporary file open is what it is on a real file system.
\<close>

section \<open>Files\<close>

datatype content = Text json | Partial

record filesystem =
  names :: "jsstring \<Rightarrow> nat option"
  data :: "nat \<Rightarrow> content"
  next_inode :: nat

definition read_file :: "jsstring \<Rightarrow> filesystem \<Rightarrow> content option" where
  "read_file path fs = map_option (data fs) (names fs path)"

definition open_truncated :: "jsstring \<Rightarrow> filesystem \<Rightarrow> filesystem \<times> nat" where
  \<comment> \<open>\<open>writeFile\<close> begins: the file exists, its content is not yet the text to write\<close>
  "open_truncated path fs = (case names fs path of
       Some i \<Rightarrow> (fs\<lparr>data := (data fs)(i := Partial)\<rparr>, i)
     | None \<Rightarrow> (fs\<lparr>names := (names fs)(path := Some (next_inode fs)),
          data := (data fs)(next_inode fs := Partial), next_inode := next_inode fs + 1\<rparr>, next_inode fs))"

definition finish_write :: "nat \<Rightarrow> json \<Rightarrow> filesystem \<Rightarrow> filesystem" where
  "finish_write i payload fs = fs\<lparr>data := (data fs)(i := Text payload)\<rparr>"

definition rename_file :: "jsstring \<Rightarrow> jsstring \<Rightarrow> filesystem \<Rightarrow> filesystem" where
  \<comment> \<open>nothing happens when \<open>from\<close> does not exist: the promise rejects\<close>
  "rename_file f t fs = (case names fs f of
       None \<Rightarrow> fs
     | Some i \<Rightarrow> fs\<lparr>names := (names fs)(f := None, t := Some i)\<rparr>)"

section \<open>Saving\<close>

definition row_json :: "jsstring \<times> jsstring \<times> jsnum option \<Rightarrow> json" where
  "row_json row = (case row of (k, v, ttl) \<Rightarrow> JObj [(''key'', JStr k), (''value'', JStr v), (''ttl'', ttl_json ttl)])"

definition snapshot_json :: "snapshot_rows \<Rightarrow> json" where
  "snapshot_json rows = JObj [(''keys'', JArr (map row_json rows))]"

definition tmp_path :: "jsstring \<Rightarrow> jsstring" where
  "tmp_path path = path @ ''.tmp''"

definition save_states :: "jsstring \<Rightarrow> json \<Rightarrow> filesystem \<Rightarrow> filesystem list" where
  \<comment> \<open>the file system at every point where a save can be cut off, the last one when it is done\<close>
  "save_states path payload fs =
     (let (fs1, i) = open_truncated (tmp_path path) fs;
          fs2 = finish_write i payload fs1;
          fs3 = rename_file (tmp_path path) path fs2
      in [fs, fs1, fs2, fs3])"

definition saveSnapshot :: "time_ms \<Rightarrow> jsstring \<Rightarrow> cache_store \<Rightarrow> filesystem \<Rightarrow> cache_store \<times> filesystem" where
  "saveSnapshot now path store fs =
     (let (store', rows) = exportEntries now store
      in (store', last (save_states path (snapshot_json rows) fs)))"

section \<open>Loading\<close>

datatype load_outcome =
  Loaded nat
  | NotLoaded \<comment> \<open>resolves to \<open>undefined\<close>\<close>
  | Throws \<comment> \<open>the promise rejects\<close>

fun throws_to_string :: "json \<Rightarrow> bool" where
  \<comment> \<open>whether making a primitive of the value is a \<open>TypeError\<close>: an own \<open>toString\<close> is no function in parsed JSON\<close>
  "throws_to_string (JArr es) = list_ex throws_to_string es"
| "throws_to_string (JObj fs) = (map_of fs ''toString'' \<noteq> None)"
| "throws_to_string j = False"

fun to_number :: "json \<Rightarrow> jsnum" where
  \<comment> \<open>what \<open>>\<close> and \<open>*\<close> make of an operand that is no number; an array is first joined to a string\<close>
  "to_number JNull = Fin 0"
| "to_number (JBool b) = Fin (if b then 1 else 0)"
| "to_number (JNum x) = x"
| "to_number (JStr s) = js_Number s"
| "to_number (JArr []) = Fin 0"
| "to_number (JArr [e]) = (case e of JBool b \<Rightarrow> NaN | _ \<Rightarrow> to_number e)"
| "to_number (JArr (e # e' # es)) = NaN"
| "to_number (JObj fs) = NaN"

definition entry_ttl_arg :: "json option \<Rightarrow> jsnum option option" where
  \<comment> \<open>the \<open>ttl\<close> option passed to \<open>set\<close>, as the number its arithmetic makes of it; \<open>None\<close>: \<open>opts.ttl > 0\<close> throws\<close>
  "entry_ttl_arg ttl = (case ttl of None \<Rightarrow> Some None | Some JNull \<Rightarrow> Some None
     | Some j \<Rightarrow> if throws_to_string j then None else Some (Some (to_number j)))"

definition entry_row :: "json \<Rightarrow> (jsstring \<times> jsstring \<times> jsnum option option) option" where
  \<comment> \<open>\<open>None\<close> is a malformed row, which is skipped\<close>
  "entry_row entry = (case entry of
       JObj fs \<Rightarrow> (case (as_string (map_of fs ''key''), as_string (map_of fs ''value'')) of
           (Some key, Some v) \<Rightarrow> Some (key, v, entry_ttl_arg (map_of fs ''ttl''))
         | _ \<Rightarrow> None)
     | _ \<Rightarrow> None)"

fun load_loop :: "time_ms \<Rightarrow> json list \<Rightarrow> nat \<Rightarrow> cache_store \<Rightarrow> cache_store \<times> load_outcome" where
  \<comment> \<open>a \<open>set\<close> that throws does so before it touches the store\<close>
  "load_loop now [] loaded store = (store, Loaded loaded)"
| "load_loop now (entry # keys) loaded store = (case entry_row entry of
       None \<Rightarrow> load_loop now keys loaded store
     | Some (key, v, None) \<Rightarrow> (store, Throws)
     | Some (key, v, Some ttl) \<Rightarrow> load_loop now keys (loaded + 1) (cache_set now key v ttl store))"

definition loadSnapshot :: "time_ms \<Rightarrow> content option \<Rightarrow> cache_store \<Rightarrow> cache_store \<times> load_outcome" where
  \<comment> \<open>\<open>None\<close> is a file that is missing or cannot be read\<close>
  "loadSnapshot now raw store = (case raw of
       None \<Rightarrow> (store, NotLoaded)
     | Some Partial \<Rightarrow> (store, NotLoaded)
     | Some (Text parsed) \<Rightarrow>
         if parsed = JNull then (store, Throws)
         else (case read_field ''keys'' parsed of
             Some (JArr keys) \<Rightarrow> load_loop now keys 0 store
           | _ \<Rightarrow> (store, NotLoaded)))"

section \<open>Atomicity\<close>

definition private_tmp :: "jsstring \<Rightarrow> filesystem \<Rightarrow> bool" where
  \<comment> \<open>the temporary name is no second name of the file, and inode numbers are fresh\<close>
  "private_tmp path fs \<longleftrightarrow> (names fs (tmp_path path) = None \<or> names fs (tmp_path path) \<noteq> names fs path) \<and>
     (\<forall>p i. names fs p = Some i \<longrightarrow> i < next_inode fs)"

lemma tmp_path_neq [simp]: "tmp_path path \<noteq> path" "path \<noteq> tmp_path path"
  by (simp_all add: tmp_path_def)

lemma save_states_cases:
  assumes "private_tmp path fs" and "save_states path payload fs = [fs0, fs1, fs2, fs3]"
  shows "fs0 = fs \<and> read_file path fs1 = read_file path fs \<and> read_file path fs2 = read_file path fs \<and>
    read_file path fs3 = Some (Text payload) \<and> private_tmp path fs3 \<and> read_file (tmp_path path) fs3 = None"
proof (cases "names fs (tmp_path path)")
  case None
  with assms show ?thesis
    by (auto simp: save_states_def open_truncated_def finish_write_def rename_file_def read_file_def private_tmp_def
        Let_def less_Suc_eq split: if_splits intro: less_SucI) (auto simp: option.map_comp map_option_case split: option.splits)
next
  case (Some i)
  with assms show ?thesis
    by (auto simp: save_states_def open_truncated_def finish_write_def rename_file_def read_file_def private_tmp_def
        Let_def split: if_splits) (auto simp: map_option_case split: option.splits)
qed

lemma save_states_four:
  obtains fs1 fs2 fs3 where "save_states path payload fs = [fs, fs1, fs2, fs3]"
proof -
  obtain fs1 i where o: "open_truncated (tmp_path path) fs = (fs1, i)" by fastforce
  show ?thesis by (rule that) (simp add: save_states_def Let_def o)
qed

section \<open>Loading what was saved\<close>

definition row_throws :: "json \<Rightarrow> bool" where
  \<comment> \<open>a well-formed row whose \<open>ttl\<close> has no primitive value\<close>
  "row_throws entry = (case entry of
       JObj fs \<Rightarrow> as_string (map_of fs ''key'') \<noteq> None \<and> as_string (map_of fs ''value'') \<noteq> None \<and>
         (case map_of fs ''ttl'' of None \<Rightarrow> False | Some ttl \<Rightarrow> throws_to_string ttl)
     | _ \<Rightarrow> False)"

definition unloadable :: "content option \<Rightarrow> bool" where
  \<comment> \<open>the contents that make \<open>loadSnapshot\<close> reject\<close>
  "unloadable raw = (case raw of
       Some (Text parsed) \<Rightarrow> parsed = JNull \<or>
         (case read_field ''keys'' parsed of Some (JArr keys) \<Rightarrow> list_ex row_throws keys | _ \<Rightarrow> False)
     | _ \<Rightarrow> False)"

definition good_row :: "json \<Rightarrow> (jsstring \<times> jsstring \<times> jsnum option) option" where
  "good_row entry = (case entry_row entry of Some (key, v, Some ttl) \<Rightarrow> Some (key, v, ttl) | _ \<Rightarrow> None)"

lemma entry_row_throws: "row_throws entry \<longleftrightarrow> (\<exists>key v. entry_row entry = Some (key, v, None))"
  by (auto simp: row_throws_def entry_row_def entry_ttl_arg_def split: json.splits option.splits)

lemma entry_row_cases:
  "entry_row entry = None \<Longrightarrow> good_row entry = None \<and> \<not> row_throws entry"
  "entry_row entry = Some (key, v, None) \<Longrightarrow> row_throws entry"
  "entry_row entry = Some (key, v, Some ttl) \<Longrightarrow> good_row entry = Some (key, v, ttl) \<and> \<not> row_throws entry"
  by (auto simp: good_row_def entry_row_throws)

lemma load_loop_rows:
  "load_loop now es loaded store =
    (load_rows now (List.map_filter good_row (takeWhile (\<lambda>e. \<not> row_throws e) es)) store,
     if list_ex row_throws es then Throws else Loaded (loaded + length (List.map_filter good_row es)))"
  by (induction now es loaded store rule: load_loop.induct)
    (auto simp: map_filter_simps entry_row_cases split: option.splits)

lemma loadSnapshot_throws: "snd (loadSnapshot now raw store) = Throws \<longleftrightarrow> unloadable raw"
  by (auto simp: loadSnapshot_def load_loop_rows unloadable_def split: option.splits content.splits json.splits)

lemma loadSnapshot_ok: "cache_ok store \<Longrightarrow> cache_ok (fst (loadSnapshot now raw store))"
  by (auto simp: loadSnapshot_def load_loop_rows load_rows_ok split: option.splits content.splits json.splits)

definition finite_ttl :: "jsstring \<times> jsstring \<times> jsnum option \<Rightarrow> bool" where
  "finite_ttl row \<longleftrightarrow> (case snd (snd row) of None \<Rightarrow> True | Some x \<Rightarrow> is_finite x)"

lemma row_json_safe [simp]: "\<not> row_throws (row_json row)"
  by (auto simp: row_throws_def row_json_def ttl_json_def json_num_def split: prod.splits option.splits jsnum.splits)

lemma rows_json_safe [simp]: "\<not> list_ex row_throws (map row_json rows)"
  "takeWhile (\<lambda>e. \<not> row_throws e) (map row_json rows) = map row_json rows"
  by (simp_all add: list_ex_iff)

lemma snapshot_loadable [simp]: "\<not> unloadable (Some (Text (snapshot_json rows)))" "\<not> unloadable None"
  by (simp_all add: unloadable_def snapshot_json_def)

lemma good_row_json: "finite_ttl row \<Longrightarrow> good_row (row_json row) = Some row"
  by (cases row) (auto simp: good_row_def entry_row_def row_json_def ttl_json_def json_num_def entry_ttl_arg_def finite_ttl_def
      is_finite_iff split: option.splits jsnum.splits)

lemma map_filter_rows:
  assumes "\<forall>row \<in> set rows. finite_ttl row"
  shows "List.map_filter good_row (map row_json rows) = rows"
  using assms by (induction rows) (simp_all add: map_filter_simps good_row_json)

lemma load_saved:
  assumes "\<forall>row \<in> set rows. finite_ttl row"
  shows "loadSnapshot now (Some (Text (snapshot_json rows))) store = (load_rows now rows store, Loaded (length rows))"
  using map_filter_rows [OF assms] by (simp add: loadSnapshot_def snapshot_json_def load_loop_rows)

lemma remaining_ttl_finite:
  assumes "of_int now < d" and "0 \<le> now" and "now \<le> now'" and "d + of_int now' < overflow_limit"
  shows "is_finite (remaining_ttl now (Fin d))"
proof -
  have "0 \<le> (of_int now :: rat)" "0 \<le> (of_int now' :: rat)" using assms(2,3) by simp_all
  then have "\<bar>d - of_int now\<bar> < overflow_limit" using assms(1,4) by (simp add: abs_less_iff)
  then show ?thesis using assms(1) by (simp add: remaining_ttl_Fin)
qed

lemma exported_finite:
  assumes "cache_ok p" and "0 \<le> now" and "now \<le> now'"
    and "\<forall>k v x. visible now p k = Some (v, Some x) \<longrightarrow> (\<exists>d. x = Fin d \<and> d + of_int now' < overflow_limit)"
  shows "\<forall>row \<in> set (snd (exportEntries now p)). finite_ttl row"
proof
  fix row
  assume mem: "row \<in> set (snd (exportEntries now p))"
  obtain k v ttl where row: "row = (k, v, ttl)" by (cases row)
  note wf = cache_okD(1) [OF assms(1)]
  have "distinct (map fst (snd (exportEntries now p)))"
    using wf by (simp add: export_keys [OF wf] cache_keys_result [OF wf] jm_wf_keys)
  then have "map_of (snd (exportEntries now p)) k = Some (v, ttl)" using mem row by simp
  then obtain d where d: "visible now p k = Some (v, d)" "ttl = map_option (remaining_ttl now) d"
    by (auto simp: map_of_export [OF wf])
  show "finite_ttl row"
  proof (cases d)
    case None
    then show ?thesis using d row by (simp add: finite_ttl_def)
  next
    case (Some x)
    then obtain q where q: "x = Fin q" "q + of_int now' < overflow_limit" using assms(4) d(1) by blast
    have "is_finite (remaining_ttl now (Fin q))"
      using visible_deadline_ahead [of now p k v q] d(1) Some q assms(2,3) by (intro remaining_ttl_finite) simp_all
    then show ?thesis using d Some q row by (simp add: finite_ttl_def)
  qed
qed

section \<open>Properties\<close>

text \<open>A save is atomic: wherever it is cut off, the file still has its old content, or already
  the complete new one; and a save that finishes leaves the new content and no temporary
  file, ready for the next save.\<close>

lemma save_atomic:
  assumes "private_tmp path fs" and "st \<in> set (save_states path payload fs)"
  shows "read_file path st \<in> {read_file path fs, Some (Text payload)} \<and>
    read_file path (last (save_states path payload fs)) = Some (Text payload) \<and>
    read_file (tmp_path path) (last (save_states path payload fs)) = None \<and>
    private_tmp path (last (save_states path payload fs))"
proof -
  obtain fs1 fs2 fs3 where s: "save_states path payload fs = [fs, fs1, fs2, fs3]" by (rule save_states_four)
  from save_states_cases [OF assms(1) s] assms(2) show ?thesis by (auto simp: s)
qed

definition demo_fs :: filesystem where
  "demo_fs = \<lparr>names = (\<lambda>p. if p = ''s'' then Some 0 else None), data = (\<lambda>i. Text JNull), next_inode = 1\<rparr>"

lemma demo_fs_private: "private_tmp ''s'' demo_fs"
  by (simp add: private_tmp_def demo_fs_def tmp_path_def)

lemma save_atomic_witness:
  "read_file ''s'' (last (save_states ''s'' (snapshot_json []) demo_fs)) = Some (Text (snapshot_json []))"
proof -
  have "demo_fs \<in> set (save_states ''s'' (snapshot_json []) demo_fs)"
    by (rule save_states_four [of "''s''" "snapshot_json []" demo_fs]) simp
  then show ?thesis using save_atomic [OF demo_fs_private] by blast
qed

text \<open>Two saves in flight are not atomic: they share the temporary name, so when a second save
  opens it between the write and the rename of the first, the rename publishes the
  half-written file.\<close>

lemma overlapping_saves_publish_partial:
  "case open_truncated (tmp_path path) fs of (fs1, i) \<Rightarrow>
     (case open_truncated (tmp_path path) (finish_write i first fs1) of (fs2, j) \<Rightarrow>
        read_file path (rename_file (tmp_path path) path fs2) = Some Partial \<and>
        read_file path (finish_write j second (rename_file (tmp_path path) path fs2)) = Some (Text second))"
  by (auto simp: open_truncated_def finish_write_def rename_file_def read_file_def split: option.splits)

text \<open>
  Persistence round trip: a store saved to a file and loaded from it into an empty store
  with enough room is reproduced key by key and value by value, keys without a deadline
  stay without one, and every deadline is later by exactly the time between save and load;
  the number reported is the number of keys, and saving changes nothing that can be read.\<close>

lemma persistence_roundtrip:
  assumes "cache_ok p" and "cache_ok r" and "entries r = []" and "length (snd (exportEntries now p)) \<le> maxEntries r"
    and "0 \<le> now" and "now \<le> now'" and "now' \<le> t" and "private_tmp path fs"
    and "\<forall>k v x. visible now p k = Some (v, Some x) \<longrightarrow> (\<exists>d. x = Fin d \<and> d + of_int now' < overflow_limit)"
    and "saveSnapshot now path p fs = (p', fs')" and "loadSnapshot now' (read_file path fs') r = (r', out)"
  shows "visible t r' k = (case visible now p k of None \<Rightarrow> None
     | Some (v, d) \<Rightarrow> if not_due t (shift_deadline (now' - now) d) then Some (v, shift_deadline (now' - now) d) else None) \<and>
    out = Loaded (length (snd (exportEntries now p))) \<and> visible t p' k = visible t p k"
proof -
  let ?rows = "snd (exportEntries now p)"
  have p': "p' = fst (exportEntries now p)" and fs': "fs' = last (save_states path (snapshot_json ?rows) fs)"
    using assms(10) by (auto simp: saveSnapshot_def split: prod.splits)
  obtain fs1 fs2 fs3 where s: "save_states path (snapshot_json ?rows) fs = [fs, fs1, fs2, fs3]" by (rule save_states_four)
  have "read_file path fs' = Some (Text (snapshot_json ?rows))"
    using save_states_cases [OF assms(8) s] by (simp add: fs' s)
  then have r': "r' = load_rows now' ?rows r" and out: "out = Loaded (length ?rows)"
    using load_saved [OF exported_finite [OF assms(1,5,6,9)], of now' r] assms(11) by simp_all
  have "visible t p' k = visible t p k"
    using visible_read [OF assms(1), of OpExport now t] assms(6,7) by (simp add: p')
  then show ?thesis
    using reload_visible [OF assms(1-7) assms(9), of k] r' out by simp
qed

lemma ttl_cache_export_length: "length (snd (exportEntries 1500 ttl_cache)) = 2"
proof -
  note wf = cache_okD(1) [OF ttl_cache_ok]
  have "length (map fst (snd (exportEntries 1500 ttl_cache))) = 2"
    by (simp only: export_keys [OF wf] cache_keys_result [OF wf] ttl_cache_entries)
      (simp add: ttl_cache_visible jm_keys_def)
  then show ?thesis by simp
qed

text \<open>Whatever is in the file, loading leaves the store well-formed. The promise rejects for two
  kinds of content, the JSON text \<open>null\<close> and a well-formed row whose \<open>ttl\<close> has no primitive
  value, such as an object with a \<open>toString\<close> of its own; then the rows before it stay set.
  Malformed rows cost nothing else: a file with a \<open>keys\<close> array loads as the same file without
  them, counting only the rows it set.\<close>

lemma load_any_file:
  assumes "cache_ok store"
  shows "cache_ok (fst (loadSnapshot now raw store)) \<and>
    (snd (loadSnapshot now raw store) = Throws \<longleftrightarrow> unloadable raw) \<and>
    loadSnapshot now (Some (Text (JObj [(''keys'', JArr rows)]))) store =
      loadSnapshot now
        (Some (Text (JObj [(''keys'', JArr (filter (\<lambda>row. entry_row row \<noteq> None) rows))]))) store"
proof -
  have "load_loop now rows n store = load_loop now (filter (\<lambda>row. entry_row row \<noteq> None) rows) n store" for n
    by (induction rows arbitrary: n store) (auto split: option.split)
  then show ?thesis using assms by (simp add: loadSnapshot_throws loadSnapshot_ok) (simp add: loadSnapshot_def)
qed

lemma load_any_file_witness:
  "loadSnapshot 5 (Some (Text (JObj [(''keys'', JArr [JNull, JObj [(''key'', JStr ''a''), (''value'', JStr ''1'')], JNum (Fin 7)])])))
      (small_cache LRU) =
   loadSnapshot 5 (Some (Text (JObj [(''keys'', JArr [JObj [(''key'', JStr ''a''), (''value'', JStr ''1'')]])])))
      (small_cache LRU)"
  using load_any_file [OF small_cache_ok [of LRU], of 5 None
      "[JNull, JObj [(''key'', JStr ''a''), (''value'', JStr ''1'')], JNum (Fin 7)]"]
  by (simp add: entry_row_def)

lemma odd_ttl_rejects:
  "snd (loadSnapshot now (Some (Text (JObj [(''keys'', JArr [JObj [(''key'', JStr ''a''), (''value'', JStr ''1''),
      (''ttl'', JObj [(''valueOf'', JNum (Fin 1)), (''toString'', JNum (Fin 1))])]])]))) store) = Throws"
  by (simp add: loadSnapshot_throws unloadable_def row_throws_def)

end
