(* ===== verification/HashRing.thy ===== *)
theory HashRing
  imports JsMap JsString
begin

text \<open>
  \<open>src/core/hashring.ts\<close>: the consistent-hashing ring. The hash function (MD5 from
  \<open>node:crypto\<close>, its first four bytes) is not code of the program: it is the parameter
  \<open>h\<close> of every definition that hashes, and no property needs a hypothesis about it
  except where one is stated (no two ring points collide).
\<close>

section \<open>State and operations\<close>

record ring_point =
  rp_hash :: nat
  rp_node :: jsstring

record hash_ring =
  ring_points :: "ring_point list"
  nodeSet :: "jsstring list"
  virtualNodes :: nat

definition DEFAULT_VIRTUAL_NODES :: nat where
  "DEFAULT_VIRTUAL_NODES = 150"

definition vnode_points :: "(jsstring \<Rightarrow> nat) \<Rightarrow> nat \<Rightarrow> jsstring \<Rightarrow> ring_point list" where
  \<comment> \<open>the points \<open>`${node}#${i}`\<close> in the order they are pushed\<close>
  "vnode_points h v node = map (\<lambda>i. \<lparr>rp_hash = h (node @ ''#'' @ show_nat i), rp_node = node\<rparr>) [0..<v]"

definition ring_add :: "(jsstring \<Rightarrow> nat) \<Rightarrow> jsstring \<Rightarrow> hash_ring \<Rightarrow> hash_ring" where
  "ring_add h node r = (if node \<in> set (nodeSet r) then r
     else r\<lparr>nodeSet := nodeSet r @ [node],
       ring_points := sort_key rp_hash (ring_points r @ vnode_points h (virtualNodes r) node)\<rparr>)"

definition ring_remove :: "jsstring \<Rightarrow> hash_ring \<Rightarrow> hash_ring" where
  "ring_remove node r = (if node \<notin> set (nodeSet r) then r
     else r\<lparr>nodeSet := filter (\<lambda>n. n \<noteq> node) (nodeSet r),
       ring_points := filter (\<lambda>p. rp_node p \<noteq> node) (ring_points r)\<rparr>)"

definition new_ring :: "(jsstring \<Rightarrow> nat) \<Rightarrow> jsstring list \<Rightarrow> nat option \<Rightarrow> hash_ring" where
  "new_ring h nodes vn = foldl (\<lambda>r n. ring_add h n r)
     \<lparr>ring_points = [], nodeSet = [],
      virtualNodes = (case vn of None \<Rightarrow> DEFAULT_VIRTUAL_NODES | Some v \<Rightarrow> v)\<rparr> nodes"

definition getNode :: "(jsstring \<Rightarrow> nat) \<Rightarrow> jsstring \<Rightarrow> hash_ring \<Rightarrow> jsstring option" where
  "getNode h key r = (if ring_points r = [] then None
     else let pts = ring_points r;
              lo = bsearch (\<lambda>i. rp_hash (pts ! i) < h key) 0 (length pts)
          in Some (rp_node (pts ! (if lo = length pts then 0 else lo))))"

definition ring_nodes :: "hash_ring \<Rightarrow> jsstring list" where
  "ring_nodes r = nodeSet r"

definition ring_size :: "hash_ring \<Rightarrow> nat" where
  "ring_size r = length (nodeSet r)"

section \<open>The invariant\<close>

definition ring_ok :: "(jsstring \<Rightarrow> nat) \<Rightarrow> hash_ring \<Rightarrow> bool" where
  "ring_ok h r \<longleftrightarrow> sorted (map rp_hash (ring_points r)) \<and> distinct (nodeSet r) \<and>
     mset (ring_points r) = mset (concat (map (vnode_points h (virtualNodes r)) (nodeSet r)))"

lemma vnode_points_node: "p \<in> set (vnode_points h v n) \<Longrightarrow> rp_node p = n"
  by (auto simp: vnode_points_def)

lemma ring_ok_nodes: "ring_ok h r \<Longrightarrow> p \<in> set (ring_points r) \<Longrightarrow> rp_node p \<in> set (nodeSet r)"
  by (auto simp: ring_ok_def vnode_points_node dest!: mset_eq_setD)

lemma ring_ok_add [inv_intros]: "ring_ok h r \<Longrightarrow> ring_ok h (ring_add h n r)"
  by (simp add: ring_ok_def ring_add_def)

lemma filter_vnode_points:
  "filter (\<lambda>p. rp_node p \<noteq> n) (concat (map (vnode_points h v) ns)) =
     concat (map (vnode_points h v) (filter (\<lambda>m. m \<noteq> n) ns))"
proof (induction ns)
  case Nil
  then show ?case by simp
next
  case (Cons m ns)
  have "filter (\<lambda>p. rp_node p \<noteq> n) (vnode_points h v m) = (if m \<noteq> n then vnode_points h v m else [])"
    by (auto simp: filter_empty_conv filter_id_conv dest: vnode_points_node)
  with Cons show ?case by simp
qed

lemma ring_ok_remove [inv_intros]:
  assumes "ring_ok h r"
  shows "ring_ok h (ring_remove n r)"
proof -
  from assms have "filter_mset (\<lambda>p. rp_node p \<noteq> n) (mset (ring_points r)) =
      mset (concat (map (vnode_points h (virtualNodes r)) (filter (\<lambda>m. m \<noteq> n) (nodeSet r))))"
    by (simp add: ring_ok_def flip: filter_vnode_points mset_filter)
  with assms show ?thesis
    by (auto simp: ring_ok_def ring_remove_def sorted_map_filter)
qed

lemma ring_ok_empty: "ring_ok h \<lparr>ring_points = [], nodeSet = [], virtualNodes = v\<rparr>"
  by (simp add: ring_ok_def)

lemma ring_ok_adds: "ring_ok h r \<Longrightarrow> ring_ok h (foldl (\<lambda>r n. ring_add h n r) r nodes)"
  by (induction nodes arbitrary: r) (auto simp: inv_intros)

lemma ring_ok_new: "ring_ok h (new_ring h nodes vn)"
  by (simp add: new_ring_def ring_ok_adds ring_ok_empty)

lemma virtualNodes_kept [frame_simps]:
  "virtualNodes (ring_add h n r) = virtualNodes r" "virtualNodes (ring_remove n r) = virtualNodes r"
  by (simp_all add: ring_add_def ring_remove_def)

section \<open>Lookup is the clockwise successor\<close>

definition successor :: "nat \<Rightarrow> ring_point list \<Rightarrow> jsstring option" where
  \<comment> \<open>the first point at or past a position, or the first of all\<close>
  "successor x pts = (case find (\<lambda>p. x \<le> rp_hash p) pts of
       Some p \<Rightarrow> Some (rp_node p)
     | None \<Rightarrow> (case pts of [] \<Rightarrow> None | p # _ \<Rightarrow> Some (rp_node p)))"

lemma getNode_successor: "ring_ok h r \<Longrightarrow> getNode h key r = successor (h key) (ring_points r)"
  using bsearch_find [of rp_hash "ring_points r" _ "h key", OF _ refl]
  by (auto simp: getNode_def successor_def ring_ok_def Let_def neq_Nil_conv split: list.splits)

lemma successor_filter:
  assumes "successor x pts = Some m" and "m \<noteq> n"
  shows "successor x (filter (\<lambda>p. rp_node p \<noteq> n) pts) = Some m"
proof (cases "find (\<lambda>p. x \<le> rp_hash p) pts")
  case None
  with assms obtain p ps where "pts = p # ps" "rp_node p = m"
    by (auto simp: successor_def split: list.splits)
  with None assms(2) find_None_filter [OF None, of "\<lambda>p. rp_node p \<noteq> n"] show ?thesis
    by (simp add: successor_def)
next
  case (Some p)
  with assms find_filter_keep [OF Some, of "\<lambda>p. rp_node p \<noteq> n"] show ?thesis
    by (simp add: successor_def)
qed

lemma successor_mem: "successor x pts = Some m \<Longrightarrow> m \<in> rp_node ` set pts"
  by (auto simp: successor_def split: option.splits list.splits dest: find_SomeD)

lemma successor_None: "successor x pts = None \<longleftrightarrow> pts = []"
  by (auto simp: successor_def split: option.splits list.splits)

lemma ring_points_empty:
  assumes "ring_ok h r" and "0 < virtualNodes r"
  shows "ring_points r = [] \<longleftrightarrow> nodeSet r = []"
proof -
  have "ring_points r = [] \<longleftrightarrow> concat (map (vnode_points h (virtualNodes r)) (nodeSet r)) = []"
    using assms(1) unfolding ring_ok_def by (metis mset_zero_iff)
  also have "\<dots> \<longleftrightarrow> nodeSet r = []"
    using assms(2) by (auto simp: vnode_points_def)
  finally show ?thesis .
qed

lemma sort_key_sorted_id: "sorted (map f xs) \<Longrightarrow> sort_key f xs = xs"
  by (induction xs) (auto simp: insort_is_Cons)

lemma remove_add:
  assumes "ring_ok h r" and "n \<notin> set (nodeSet r)"
  shows "ring_remove n (ring_add h n r) = r"
proof -
  have "filter (\<lambda>p. rp_node p \<noteq> n) (ring_points r) = ring_points r"
    using ring_ok_nodes [OF assms(1)] assms(2) by (auto simp: filter_id_conv)
  moreover have "filter (\<lambda>p. rp_node p \<noteq> n) (vnode_points h (virtualNodes r) n) = []"
    by (auto simp: filter_empty_conv dest: vnode_points_node)
  moreover have "filter (\<lambda>m. m \<noteq> n) (nodeSet r) = nodeSet r"
    using assms(2) by (auto simp: filter_id_conv)
  ultimately show ?thesis
    using assms by (simp add: ring_remove_def ring_add_def filter_sort sort_key_sorted_id ring_ok_def)
qed

lemma ring_points_remove:
  assumes "ring_ok h r"
  shows "ring_points (ring_remove n r) = filter (\<lambda>p. rp_node p \<noteq> n) (ring_points r)"
proof (cases "n \<in> set (nodeSet r)")
  case True
  then show ?thesis by (simp add: ring_remove_def)
next
  case False
  with ring_ok_nodes [OF assms] have "\<forall>p \<in> set (ring_points r). rp_node p \<noteq> n" by blast
  with False show ?thesis by (simp add: ring_remove_def)
qed

section \<open>Properties\<close>

text \<open>C10: \<open>getNode\<close> is the clockwise successor of the key's hash: after any construction the
  binary search returns the owner of the first ring point at or past the hash in ring
  order, or of the first point when there is none; it finds an owner exactly when the ring
  has a node, and that owner is a current node.\<close>

theorem getNode_correct:
  assumes "ring_ok h r" and "0 < virtualNodes r"
  shows "getNode h key r = successor (h key) (ring_points r) \<and>
    (getNode h key r = None \<longleftrightarrow> ring_nodes r = []) \<and>
    (\<forall>n. getNode h key r = Some n \<longrightarrow> n \<in> set (ring_nodes r))"
  using assms ring_ok_nodes [OF assms(1)]
  by (auto simp: getNode_successor successor_None ring_points_empty ring_nodes_def dest!: successor_mem)

definition len_hash :: "jsstring \<Rightarrow> nat" where
  \<comment> \<open>a concrete stand-in for the hash, used by the witnesses\<close>
  "len_hash s = foldl (\<lambda>a c. (31 * a + of_char c) mod 4294967296) 7 s"

theorem getNode_correct_witness:
  "getNode len_hash ''k'' (new_ring len_hash [''n1'', ''n2''] (Some 3)) \<noteq> None"
proof -
  have v: "virtualNodes (new_ring len_hash [''n1'', ''n2''] (Some 3)) = 3"
    and n: "ring_nodes (new_ring len_hash [''n1'', ''n2''] (Some 3)) = [''n1'', ''n2'']"
    by (simp_all add: new_ring_def frame_simps ring_nodes_def ring_add_def)
  show ?thesis
    using getNode_correct [OF ring_ok_new, of len_hash "[''n1'', ''n2'']" "Some 3" "''k''"]
    unfolding v n by (metis list.distinct(1) zero_less_numeral)
qed

text \<open>C20: Removing a node moves only that node's keys: a key owned by another node keeps its
  owner.\<close>

theorem remove_keeps_other_keys:
  assumes "ring_ok h r" and "getNode h key r = Some m" and "m \<noteq> n"
  shows "getNode h key (ring_remove n r) = Some m"
  using assms by (simp add: getNode_successor successor_filter inv_intros ring_points_remove)

theorem remove_keeps_other_keys_witness:
  "\<exists>m. getNode len_hash ''k'' (ring_remove ''zz'' (new_ring len_hash [''n1'', ''n2''] (Some 3))) = Some m"
proof -
  let ?r = "new_ring len_hash [''n1'', ''n2''] (Some 3)"
  have v: "virtualNodes ?r = 3" and n: "nodeSet ?r = [''n1'', ''n2'']"
    by (simp_all add: new_ring_def frame_simps ring_add_def)
  have "getNode len_hash ''k'' ?r \<noteq> None"
    using ring_points_empty [OF ring_ok_new, of len_hash "[''n1'', ''n2'']" "Some 3"] v n
    by (simp add: getNode_successor ring_ok_new successor_None)
  then obtain m where m: "getNode len_hash ''k'' ?r = Some m" by blast
  then have "m \<in> set (nodeSet ?r)"
    using ring_ok_nodes [OF ring_ok_new] by (auto simp: getNode_successor ring_ok_new dest!: successor_mem)
  then have "m \<noteq> ''zz''" using n by auto
  from remove_keeps_other_keys [OF ring_ok_new m this] show ?thesis by blast
qed

text \<open>Adding a node takes keys only for itself: afterwards a key is owned by the new node or
  by its former owner; and removing the node again restores the ring exactly.\<close>

lemma add_moves_keys_only_to_new_node:
  assumes "ring_ok h r" and "n \<notin> set (ring_nodes r)"
  shows "(getNode h key (ring_add h n r) = Some n \<or> getNode h key (ring_add h n r) = getNode h key r) \<and>
    ring_remove n (ring_add h n r) = r"
proof -
  have undo: "ring_remove n (ring_add h n r) = r"
    using assms by (intro remove_add) (auto simp: ring_nodes_def)
  have ok: "ring_ok h (ring_add h n r)" using assms(1) by (rule ring_ok_add)
  show ?thesis
  proof (cases "getNode h key (ring_add h n r)")
    case None
    then have "ring_points (ring_add h n r) = []"
      using ok by (simp add: getNode_successor successor_None)
    then have "ring_points (ring_remove n (ring_add h n r)) = []"
      by (simp add: ring_remove_def)
    with None undo show ?thesis by (simp add: getNode_def)
  next
    case (Some m)
    have "getNode h key (ring_remove n (ring_add h n r)) = Some m" if "m \<noteq> n"
      using that Some ok by (simp add: getNode_successor successor_filter inv_intros ring_points_remove)
    with Some undo show ?thesis by (cases "m = n") simp_all
  qed
qed

lemma add_moves_keys_only_to_new_node_witness:
  "ring_remove ''n3'' (ring_add len_hash ''n3'' (new_ring len_hash [''n1''] (Some 2))) =
     new_ring len_hash [''n1''] (Some 2)"
proof -
  have "''n3'' \<notin> set (ring_nodes (new_ring len_hash [''n1''] (Some 2)))"
    by (simp add: new_ring_def ring_nodes_def ring_add_def)
  from add_moves_keys_only_to_new_node [OF ring_ok_new this] show ?thesis by blast
qed

lemma mset_concat_map: "mset xs = mset ys \<Longrightarrow> mset (concat (map f xs)) = mset (concat (map f ys))"
proof -
  have "mset (concat (map f zs)) = \<Sum>\<^sub># (image_mset (\<lambda>z. mset (f z)) (mset zs))" for zs
    by (induction zs) simp_all
  then show "mset xs = mset ys \<Longrightarrow> mset (concat (map f xs)) = mset (concat (map f ys))" by simp
qed

lemma ring_points_unique:
  assumes "ring_ok h r" and "ring_ok h r'" and "set (nodeSet r) = set (nodeSet r')"
    and "virtualNodes r = virtualNodes r'" and "distinct (map rp_hash (ring_points r))"
  shows "ring_points r = ring_points r'"
proof -
  have "mset (nodeSet r) = mset (nodeSet r')"
    using assms(1,2,3) by (simp add: ring_ok_def set_eq_iff_mset_eq_distinct)
  then have m: "mset (ring_points r) = mset (ring_points r')"
    using assms(1,2,4) mset_concat_map by (simp add: ring_ok_def)
  then have "mset (map rp_hash (ring_points r)) = mset (map rp_hash (ring_points r'))" by simp
  then have d: "distinct (map rp_hash (ring_points r'))"
    using assms(5) mset_eq_imp_distinct_iff by blast
  have s: "set (ring_points r) = set (ring_points r')"
    using m by (rule mset_eq_setD)
  have "inj_on rp_hash (set (ring_points r) \<union> set (ring_points r'))"
    using assms(5) s by (simp add: distinct_map)
  then show ?thesis
    using assms(1,2,5) d s by (intro map_sorted_distinct_set_unique [of rp_hash]) (simp_all add: ring_ok_def)
qed

text \<open>C21: Routing depends on the set of nodes only: two rings with the same nodes and virtual
  node count - two gateways that learned their nodes in different orders, with any history of
  additions and removals - send every key to the same node, provided no two ring points
  have the same hash.\<close>

theorem routing_order_independent:
  assumes "ring_ok h r" and "ring_ok h r'" and "set (ring_nodes r) = set (ring_nodes r')"
    and "virtualNodes r = virtualNodes r'" and "distinct (map rp_hash (ring_points r))"
  shows "getNode h key r = getNode h key r'"
  using ring_points_unique [of h r r'] assms by (simp add: getNode_def ring_nodes_def)

theorem routing_order_independent_witness:
  "getNode len_hash ''key'' (new_ring len_hash [''a'', ''b''] (Some 1)) =
   getNode len_hash ''key'' (new_ring len_hash [''b'', ''a''] (Some 1))"
proof -
  let ?r = "new_ring len_hash [''a'', ''b''] (Some 1)"
  let ?r' = "new_ring len_hash [''b'', ''a''] (Some 1)"
  have n: "set (ring_nodes ?r) = set (ring_nodes ?r')" "virtualNodes ?r = virtualNodes ?r'"
    by (auto simp: new_ring_def ring_nodes_def ring_add_def)
  have "show_nat 0 = ''0''"
    by code_simp
  then have "distinct (map rp_hash (ring_points ?r))"
    by (simp add: new_ring_def ring_add_def vnode_points_def len_hash_def)
  from routing_order_independent [OF ring_ok_new ring_ok_new n this] show ?thesis .
qed

end
