(* ===== verification/Cluster.thy ===== *)
theory Cluster
  imports HashRing
begin

text \<open>
  \<open>src/network/cluster.ts\<close>: the parsing of a comma-separated list of node URLs and the
  router over the ring. The locale \<open>node_router\<close> is what the gateway and its health
  checker rely on.
\<close>

section \<open>Parsing node lists\<close>

definition normalize_url :: "jsstring \<Rightarrow> jsstring" where
  \<comment> \<open>\<open>s.trim().replace(/\\/$/, "")\<close>\<close>
  "normalize_url s = strip_slash (trim s)"

definition resolveClusterNodes :: "jsstring option \<Rightarrow> jsstring list" where
  "resolveClusterNodes envValue = (case envValue of
       None \<Rightarrow> []
     | Some v \<Rightarrow> if v = [] then []
         else filter (\<lambda>s. 0 < length s) (map normalize_url (split_on CHR '','' v)))"

section \<open>The router\<close>

type_synonym cluster_router = hash_ring

definition new_router :: "(jsstring \<Rightarrow> nat) \<Rightarrow> jsstring list \<Rightarrow> nat option \<Rightarrow> cluster_router" where
  "new_router h nodeUrls vn = new_ring h nodeUrls vn"

definition nodeFor :: "(jsstring \<Rightarrow> nat) \<Rightarrow> jsstring \<Rightarrow> cluster_router \<Rightarrow> jsstring option" where
  "nodeFor h key router = getNode h key router"

definition addNode :: "(jsstring \<Rightarrow> nat) \<Rightarrow> jsstring \<Rightarrow> cluster_router \<Rightarrow> cluster_router" where
  "addNode h url router = ring_add h url router"

definition removeNode :: "jsstring \<Rightarrow> cluster_router \<Rightarrow> cluster_router" where
  "removeNode url router = ring_remove url router"

definition router_nodes :: "cluster_router \<Rightarrow> jsstring list" where
  "router_nodes router = ring_nodes router"

definition router_size :: "cluster_router \<Rightarrow> nat" where
  "router_size router = ring_size router"

section \<open>The interface of a router\<close>

locale node_router =
  fixes route :: "'k \<Rightarrow> 'r \<Rightarrow> 'n option"
    and join :: "'n \<Rightarrow> 'r \<Rightarrow> 'r"
    and leave :: "'n \<Rightarrow> 'r \<Rightarrow> 'r"
    and members :: "'r \<Rightarrow> 'n list"
    and good :: "'r \<Rightarrow> bool"
  assumes members_join: "members (join n r) = (if n \<in> set (members r) then members r else members r @ [n])"
    and members_leave: "members (leave n r) = filter (\<lambda>m. m \<noteq> n) (members r)"
    and route_None: "good r \<Longrightarrow> route k r = None \<longleftrightarrow> members r = []"
    and route_member: "good r \<Longrightarrow> route k r = Some n \<Longrightarrow> n \<in> set (members r)"
    and good_join: "good r \<Longrightarrow> good (join n r)"
    and good_leave: "good r \<Longrightarrow> good (leave n r)"
    and leave_stable: "good r \<Longrightarrow> route k r = Some m \<Longrightarrow> m \<noteq> n \<Longrightarrow> route k (leave n r) = Some m"
begin

text \<open>
  A router that mirrors a set of nodes: its members are the nodes for which \<open>up\<close> holds.
\<close>

definition mirrors :: "('n \<Rightarrow> bool) \<Rightarrow> 'r \<Rightarrow> bool" where
  "mirrors up r \<longleftrightarrow> good r \<and> (\<forall>n. n \<in> set (members r) \<longleftrightarrow> up n)"

lemma mirrors_join: "mirrors up r \<Longrightarrow> mirrors (up(n := True)) (join n r)"
  by (auto simp: mirrors_def members_join good_join)

lemma mirrors_leave: "mirrors up r \<Longrightarrow> mirrors (up(n := False)) (leave n r)"
  by (auto simp: mirrors_def members_leave good_leave)

lemma mirrors_route: "mirrors up r \<Longrightarrow> route k r = Some n \<Longrightarrow> up n"
  by (auto simp: mirrors_def dest: route_member)

lemma mirrors_total: "mirrors up r \<Longrightarrow> up n \<Longrightarrow> \<exists>m. route k r = Some m"
  using route_None [of r k] by (cases "route k r") (auto simp: mirrors_def)

lemma leave_others: "mirrors up r \<Longrightarrow> route k r = Some m \<Longrightarrow> m \<noteq> n \<Longrightarrow> route k (leave n r) = Some m"
  by (simp add: mirrors_def leave_stable)

end

definition router_ok :: "(jsstring \<Rightarrow> nat) \<Rightarrow> cluster_router \<Rightarrow> bool" where
  "router_ok h r \<longleftrightarrow> ring_ok h r \<and> 0 < virtualNodes r"

interpretation cr: node_router "nodeFor h" "addNode h" removeNode router_nodes "router_ok h" for h
proof (unfold_locales, goal_cases)
  case (1 n r)
  show ?case by (simp add: router_nodes_def ring_nodes_def addNode_def ring_add_def)
next
  case (2 n r)
  show ?case by (simp add: router_nodes_def ring_nodes_def removeNode_def ring_remove_def filter_neq_absent)
next
  case (3 r k)
  then show ?case
    using ring_points_empty [of h r]
    by (simp add: router_ok_def nodeFor_def router_nodes_def ring_nodes_def getNode_successor successor_None)
next
  case (4 r k n)
  then show ?case
    using ring_ok_nodes [of h r]
    by (auto simp: router_ok_def nodeFor_def router_nodes_def ring_nodes_def getNode_successor dest!: successor_mem)
next
  case (5 r n)
  then show ?case by (simp add: router_ok_def addNode_def inv_intros frame_simps)
next
  case (6 r n)
  then show ?case by (simp add: router_ok_def removeNode_def inv_intros frame_simps)
next
  case (7 r k m n)
  then show ?case
    using ring_points_remove [of h r n] ring_ok_remove [of h r n] successor_filter [of "h k" "ring_points r" m n]
    by (auto simp: router_ok_def nodeFor_def removeNode_def getNode_successor)
qed

lemma router_nodes_adds:
  "set (nodeSet (foldl (\<lambda>r n. ring_add h n r) r nodes)) = set (nodeSet r) \<union> set nodes"
  by (induction nodes arbitrary: r) (auto simp: ring_add_def)

lemma virtualNodes_adds: "virtualNodes (foldl (\<lambda>r n. ring_add h n r) r nodes) = virtualNodes r"
  by (induction nodes arbitrary: r) (auto simp: frame_simps)

lemma new_router_ok: "vn \<noteq> Some 0 \<Longrightarrow> router_ok h (new_router h urls vn)"
  using ring_ok_new [of h urls vn]
  by (auto simp: router_ok_def new_router_def)
    (auto simp: new_ring_def virtualNodes_adds DEFAULT_VIRTUAL_NODES_def split: option.splits)

lemma new_router_nodes: "set (router_nodes (new_router h urls vn)) = set urls"
  by (simp add: router_nodes_def ring_nodes_def new_router_def new_ring_def router_nodes_adds)

lemma router_size_nodes: "router_size r = length (router_nodes r)"
  by (simp add: router_size_def ring_size_def router_nodes_def ring_nodes_def)

section \<open>Properties of the parser\<close>

lemma set_trim: "set (trim s) \<subseteq> set s"
  unfolding trim_def by (auto dest!: set_dropWhileD)

lemma set_normalize_url: "set (normalize_url w) \<subseteq> set w"
  using set_strip_slash [of "trim w"] set_trim [of w] by (auto simp: normalize_url_def)

text \<open>Parsing a node list never yields an empty URL or one with a comma, an unset or empty
  variable yields no node, and writing URLs that need no cleaning separated by commas is
  read back exactly.\<close>

lemma resolveClusterNodes_correct:
  assumes "urls \<noteq> []" and "\<forall>u \<in> set urls. u \<noteq> [] \<and> CHR '','' \<notin> set u \<and> normalize_url u = u"
  shows "resolveClusterNodes (Some (join_on CHR '','' urls)) = urls \<and>
    resolveClusterNodes None = [] \<and> resolveClusterNodes (Some []) = [] \<and>
    (\<forall>v. \<forall>u \<in> set (resolveClusterNodes v). u \<noteq> [] \<and> CHR '','' \<notin> set u)"
proof -
  have "split_on CHR '','' (join_on CHR '','' urls) = urls"
    using assms by (intro split_join) auto
  moreover have "join_on CHR '','' urls \<noteq> []"
    using assms by (cases urls) (auto simp: join_on_def)
  moreover have "map normalize_url urls = urls"
    using assms(2) by (simp add: map_idI)
  moreover have "filter (\<lambda>s. 0 < length s) urls = urls"
    using assms(2) by (simp add: filter_id_conv)
  ultimately have 1: "resolveClusterNodes (Some (join_on CHR '','' urls)) = urls"
    by (simp add: resolveClusterNodes_def)
  have "u \<noteq> [] \<and> CHR '','' \<notin> set u" if u: "u \<in> set (resolveClusterNodes v)" for v u
  proof -
    from u obtain w x where w: "w \<in> set (split_on CHR '','' x)" "u = normalize_url w" "u \<noteq> []"
      by (auto simp: resolveClusterNodes_def split: option.splits if_splits)
    with split_on_no_sep [OF w(1)] set_normalize_url [of w] show ?thesis by blast
  qed
  moreover have "resolveClusterNodes None = []" and "resolveClusterNodes (Some []) = []"
    by (simp_all add: resolveClusterNodes_def)
  ultimately show ?thesis using 1 by blast
qed

lemma resolveClusterNodes_correct_witness:
  "resolveClusterNodes (Some ''http://a,http://b'') = [''http://a'', ''http://b'']"
proof -
  have "normalize_url ''http://a'' = ''http://a''" "normalize_url ''http://b'' = ''http://b''"
    by (simp_all add: normalize_url_def trim_def is_ws_def strip_slash_def)
  then show ?thesis
    using resolveClusterNodes_correct [of "[''http://a'', ''http://b'']"] by (simp add: join_on_def)
qed

end
