(* ===== verification/HealthCheck.thy ===== *)
theory HealthCheck
  imports Cluster
begin

text \<open>
  \<open>src/network/health-check.ts\<close>: the gateway's health checker. Its state is the map from
  known node URLs to their last known health and the router it keeps in sync. A check of
  all nodes starts one ping per known node; the pings answer later, in any order and
  possibly after nodes were added or removed, so an answer is an event of its own
  (\<open>ping_result\<close>). Whether a ping succeeds is the network's choice.
\<close>

section \<open>State and operations\<close>

record health_check =
  hc_health :: "(jsstring, bool) jsmap"
  hc_router :: cluster_router

definition startHealthChecks :: "cluster_router \<Rightarrow> jsstring list \<Rightarrow> health_check" where
  "startHealthChecks router initialNodes =
     \<lparr>hc_health = foldl (\<lambda>m url. jm_set url True m) [] initialNodes, hc_router = router\<rparr>"

definition check_all_targets :: "health_check \<Rightarrow> jsstring list" where
  \<comment> \<open>the URLs a tick pings: the keys known when it starts\<close>
  "check_all_targets hc = jm_keys (hc_health hc)"

definition ping_result :: "(jsstring \<Rightarrow> nat) \<Rightarrow> jsstring \<Rightarrow> bool \<Rightarrow> health_check \<Rightarrow> health_check" where
  \<comment> \<open>the rest of the \<open>checkAll\<close> callback, after \<open>await pingHealthy(url)\<close> gave \<open>healthy\<close>\<close>
  "ping_result h url healthy hc = (case jm_get (hc_health hc) url of
       None \<Rightarrow> hc
     | Some wasHealthy \<Rightarrow>
         if healthy = wasHealthy then hc
         else hc\<lparr>hc_health := jm_set url healthy (hc_health hc),
                hc_router := (if healthy then addNode h url (hc_router hc)
                              else removeNode url (hc_router hc))\<rparr>)"

definition hc_status :: "health_check \<Rightarrow> (jsstring \<times> bool) list" where
  "hc_status hc = hc_health hc"

definition hc_addNode :: "(jsstring \<Rightarrow> nat) \<Rightarrow> jsstring \<Rightarrow> health_check \<Rightarrow> health_check" where
  "hc_addNode h url hc = (if jm_has (hc_health hc) url then hc
     else hc\<lparr>hc_health := jm_set url True (hc_health hc), hc_router := addNode h url (hc_router hc)\<rparr>)"

definition hc_removeNode :: "jsstring \<Rightarrow> health_check \<Rightarrow> health_check" where
  "hc_removeNode url hc = (if \<not> jm_has (hc_health hc) url then hc
     else hc\<lparr>hc_health := jm_delete url (hc_health hc), hc_router := removeNode url (hc_router hc)\<rparr>)"

definition ping_ok :: "nat option \<Rightarrow> bool" where
  \<comment> \<open>\<open>pingHealthy\<close>: \<open>None\<close> is a network error or the timeout; \<open>res.ok\<close> is a 2xx status\<close>
  "ping_ok response = (case response of None \<Rightarrow> False | Some status \<Rightarrow> 200 \<le> status \<and> status < 300)"

section \<open>Runs\<close>

datatype hc_event =
  HAdd jsstring
  | HRemove jsstring
  | HPing jsstring "nat option"

fun hc_step :: "(jsstring \<Rightarrow> nat) \<Rightarrow> health_check \<Rightarrow> hc_event \<Rightarrow> health_check" where
  "hc_step h hc (HAdd url) = hc_addNode h url hc"
| "hc_step h hc (HRemove url) = hc_removeNode url hc"
| "hc_step h hc (HPing url response) = ping_result h url (ping_ok response) hc"

definition hc_run :: "(jsstring \<Rightarrow> nat) \<Rightarrow> health_check \<Rightarrow> hc_event list \<Rightarrow> health_check" where
  "hc_run h hc evs = foldl (hc_step h) hc evs"

section \<open>The router mirrors the healthy nodes\<close>

definition is_up :: "health_check \<Rightarrow> jsstring \<Rightarrow> bool" where
  "is_up hc url \<longleftrightarrow> jm_get (hc_health hc) url = Some True"

definition hc_ok :: "(jsstring \<Rightarrow> nat) \<Rightarrow> health_check \<Rightarrow> bool" where
  "hc_ok h hc \<longleftrightarrow> jm_wf (hc_health hc) \<and> cr.mirrors h (is_up hc) (hc_router hc)"

lemma is_up_set: "is_up (hc\<lparr>hc_health := jm_set url b (hc_health hc), hc_router := r\<rparr>) = (is_up hc)(url := b)"
  by (auto simp: is_up_def fun_eq_iff js_simps)

lemma is_up_delete: "is_up (hc\<lparr>hc_health := jm_delete url (hc_health hc), hc_router := r\<rparr>) = (is_up hc)(url := False)"
  by (auto simp: is_up_def fun_eq_iff js_simps)

lemma hc_ok_step [inv_intros]: "hc_ok h hc \<Longrightarrow> hc_ok h (hc_step h hc ev)"
proof (cases ev)
  case (HAdd url)
  then show "hc_ok h hc \<Longrightarrow> ?thesis"
    by (simp add: hc_ok_def hc_addNode_def is_up_set cr.mirrors_join inv_intros)
next
  case (HRemove url)
  then show "hc_ok h hc \<Longrightarrow> ?thesis"
    by (simp add: hc_ok_def hc_removeNode_def is_up_delete cr.mirrors_leave inv_intros)
next
  case (HPing url response)
  then show "hc_ok h hc \<Longrightarrow> ?thesis"
    by (simp add: hc_ok_def ping_result_def is_up_set cr.mirrors_join cr.mirrors_leave inv_intros
        split: option.splits)
qed

lemma hc_ok_run: "hc_ok h hc \<Longrightarrow> hc_ok h (hc_run h hc evs)"
  unfolding hc_run_def by (induction evs arbitrary: hc) (auto simp: inv_intros)

lemma initial_health:
  "jm_wf m \<Longrightarrow> jm_wf (foldl (\<lambda>m url. jm_set url True m) m urls) \<and>
    (\<forall>u. jm_get (foldl (\<lambda>m url. jm_set url True m) m urls) u =
      (if u \<in> set urls then Some True else jm_get m u))"
  by (induction urls arbitrary: m) (auto simp: inv_intros js_simps)

lemma hc_ok_start:
  assumes "router_ok h router" and "set (router_nodes router) = set urls"
  shows "hc_ok h (startHealthChecks router urls)"
  using assms initial_health [of "[]" urls]
  by (auto simp: hc_ok_def startHealthChecks_def cr.mirrors_def is_up_def)

text \<open>Whatever nodes are registered and removed and however the pings answer, in whatever
  order: a key is only ever routed to a node that is known and was healthy when last
  checked, and as long as one such node exists every key is routed.\<close>

lemma routes_only_to_healthy:
  assumes "vn \<noteq> Some 0" and "hc = hc_run h (startHealthChecks (new_router h urls vn) urls) evs"
  shows "(\<forall>key n. nodeFor h key (hc_router hc) = Some n \<longrightarrow> jm_get (hc_health hc) n = Some True) \<and>
    (\<forall>key n. jm_get (hc_health hc) n = Some True \<longrightarrow> nodeFor h key (hc_router hc) \<noteq> None)"
proof -
  have "hc_ok h hc"
    unfolding assms(2) using assms(1) by (intro hc_ok_run hc_ok_start new_router_ok new_router_nodes)
  then have m: "cr.mirrors h (is_up hc) (hc_router hc)" by (simp add: hc_ok_def)
  show ?thesis
    using cr.mirrors_route [OF m] cr.mirrors_total [OF m] by (force simp: is_up_def)
qed

lemma routes_only_to_healthy_witness:
  "\<forall>key. nodeFor len_hash key (hc_router (hc_run len_hash
      (startHealthChecks (new_router len_hash [''a'', ''b''] None) [''a'', ''b'']) [HPing ''a'' None])) \<noteq> None"
proof -
  let ?hc = "hc_run len_hash (startHealthChecks (new_router len_hash [''a'', ''b''] None) [''a'', ''b'']) [HPing ''a'' None]"
  have "jm_get (hc_health ?hc) ''b'' = Some True"
    by (simp add: hc_run_def startHealthChecks_def ping_result_def ping_ok_def)
  then show ?thesis
    using routes_only_to_healthy [OF _ refl, of None len_hash "[''a'', ''b'']" "[HPing ''a'' None]"] by blast
qed

text \<open>A ping that answers after its node was deregistered changes nothing - it cannot bring
  the node back into the map or the ring - and one failed check of a registered node takes
  it out of the ring, one successful check puts it back.\<close>

lemma ping_after_removal:
  assumes "hc_ok h hc"
  shows "ping_result h url b (hc_removeNode url hc) = hc_removeNode url hc \<and>
    url \<notin> set (router_nodes (hc_router (hc_removeNode url hc))) \<and>
    (jm_has (hc_health hc) url \<longrightarrow>
      url \<notin> set (router_nodes (hc_router (ping_result h url False hc))) \<and>
      url \<in> set (router_nodes (hc_router (ping_result h url True (ping_result h url False hc)))))"
proof -
  have ok: "hc_ok h (hc_removeNode url hc)" "hc_ok h (ping_result h url False hc)"
      "hc_ok h (ping_result h url True (ping_result h url False hc))"
    using hc_ok_step [OF assms, of "HRemove url"] hc_ok_step [OF assms, of "HPing url None"]
      hc_ok_step [OF hc_ok_step [OF assms, of "HPing url None"], of "HPing url (Some 200)"]
    by (simp_all add: ping_ok_def)
  have up: "url \<in> set (router_nodes (hc_router x)) \<longleftrightarrow> is_up x url" if "hc_ok h x" for x
    using that by (simp add: hc_ok_def cr.mirrors_def)
  have gone: "jm_get (hc_health (hc_removeNode url hc)) url = None"
    by (simp add: hc_removeNode_def jm_has_def js_simps)
  then have "ping_result h url b (hc_removeNode url hc) = hc_removeNode url hc"
    by (simp add: ping_result_def)
  moreover have "\<not> is_up (hc_removeNode url hc) url"
    using gone by (simp add: is_up_def)
  moreover have "\<not> is_up (ping_result h url False hc) url"
    by (auto simp: is_up_def ping_result_def js_simps split: option.splits)
  moreover have "is_up (ping_result h url True (ping_result h url False hc)) url" if "jm_has (hc_health hc) url"
    using that by (auto simp: is_up_def ping_result_def jm_has_def js_simps split: option.splits)
  ultimately show ?thesis using up ok by blast
qed

lemma ping_after_removal_witness:
  "ping_result len_hash ''a'' True (hc_removeNode ''a'' (startHealthChecks (new_router len_hash [''a''] None) [''a''])) =
     hc_removeNode ''a'' (startHealthChecks (new_router len_hash [''a''] None) [''a''])"
proof -
  have "hc_ok len_hash (startHealthChecks (new_router len_hash [''a''] None) [''a''])"
    by (rule hc_ok_start) (simp_all add: new_router_ok new_router_nodes)
  from ping_after_removal [OF this] show ?thesis by blast
qed

end
