(* ===== verification/PrimaryMonitor.thy ===== *)
theory PrimaryMonitor
  imports HealthCheck
begin

text \<open>
  \<open>src/network/primary-monitor.ts\<close>: a replica's monitor of its primary. A check starts when
  the interval timer fires and ends when the ping has answered or timed out, so a check can
  still be in flight when the monitor is stopped; \<open>stop\<close> only clears the timer.
\<close>

section \<open>State and operations\<close>

record primary_monitor =
  pm_url :: jsstring
  pm_healthy :: bool
  pm_failures :: nat
  pm_timer :: bool
  pm_inFlight :: nat \<comment> \<open>checks that wait for their ping\<close>

definition startPrimaryMonitor :: "jsstring \<Rightarrow> primary_monitor" where
  "startPrimaryMonitor primaryUrl =
     \<lparr>pm_url = primaryUrl, pm_healthy = True, pm_failures = 0, pm_timer = True, pm_inFlight = 0\<rparr>"

definition pm_stop :: "primary_monitor \<Rightarrow> primary_monitor" where
  "pm_stop m = m\<lparr>pm_timer := False\<rparr>"

definition isPrimaryHealthy :: "primary_monitor \<Rightarrow> bool" where
  "isPrimaryHealthy m = pm_healthy m"

definition consecutiveFailures :: "primary_monitor \<Rightarrow> nat" where
  "consecutiveFailures m = pm_failures m"

definition pm_tick :: "primary_monitor \<Rightarrow> primary_monitor" where
  \<comment> \<open>the timer fires: \<open>check\<close> up to its \<open>await\<close>\<close>
  "pm_tick m = (if pm_timer m then m\<lparr>pm_inFlight := pm_inFlight m + 1\<rparr> else m)"

definition pm_check :: "bool \<Rightarrow> primary_monitor \<Rightarrow> primary_monitor \<times> nat option" where
  \<comment> \<open>\<open>check\<close> after its \<open>await\<close>, and the argument of the call of \<open>onFailure\<close>, if it makes one\<close>
  "pm_check ok m =
     (if ok then (m\<lparr>pm_healthy := True, pm_failures := 0\<rparr>, None)
      else (m\<lparr>pm_failures := pm_failures m + 1, pm_healthy := False\<rparr>, Some (pm_failures m + 1)))"

definition pm_answer :: "nat option \<Rightarrow> primary_monitor \<Rightarrow> primary_monitor \<times> nat option" where
  \<comment> \<open>the ping of a check in flight answers with a status, or fails\<close>
  "pm_answer response m = (if pm_inFlight m = 0 then (m, None)
     else pm_check (ping_ok response) (m\<lparr>pm_inFlight := pm_inFlight m - 1\<rparr>))"

section \<open>Runs of checks\<close>

fun pm_run :: "bool list \<Rightarrow> primary_monitor \<Rightarrow> primary_monitor \<times> nat list" where
  "pm_run [] m = (m, [])"
| "pm_run (ok # oks) m = (case pm_check ok m of (m1, call) \<Rightarrow>
     (case pm_run oks m1 of (m2, calls) \<Rightarrow> (m2, (case call of None \<Rightarrow> [] | Some n \<Rightarrow> [n]) @ calls)))"

definition streak :: "bool list \<Rightarrow> nat" where
  \<comment> \<open>how many checks in a row failed at the end\<close>
  "streak oks = length (takeWhile Not (rev oks))"

lemma streak_simps [simp]: "streak [] = 0" "streak (oks @ [True]) = 0" "streak (oks @ [False]) = streak oks + 1"
  by (simp_all add: streak_def)

lemma pm_run_snoc: "pm_run (oks @ [ok]) m = (case pm_run oks m of (m1, calls) \<Rightarrow>
    (case pm_check ok m1 of (m2, call) \<Rightarrow> (m2, calls @ (case call of None \<Rightarrow> [] | Some n \<Rightarrow> [n]))))"
  by (induction oks arbitrary: m) (auto split: prod.splits option.splits)

lemma upt_filter_snoc:
  "filter (\<lambda>i. \<not> (oks @ [ok]) ! i) [0..<length (oks @ [ok])] =
     filter (\<lambda>i. \<not> oks ! i) [0..<length oks] @ (if ok then [] else [length oks])"
  by (auto intro: filter_cong simp: nth_append)

text \<open>The monitor reports exactly the streak: \<open>consecutiveFailures\<close> is the number of failed checks
  since the last success, the primary counts as healthy exactly when that number is zero -
  also before the first check - and every failed check calls \<open>onFailure\<close> once, with the
  length of the streak it ends.\<close>

lemma monitor_reports_streak:
  "case pm_run oks (startPrimaryMonitor url) of (m, calls) \<Rightarrow>
     consecutiveFailures m = streak oks \<and> isPrimaryHealthy m = (streak oks = 0) \<and>
     calls = map (\<lambda>i. streak (take (i + 1) oks)) (filter (\<lambda>i. \<not> oks ! i) [0..<length oks])"
proof (induction oks rule: rev_induct)
  case Nil
  then show ?case by (simp add: startPrimaryMonitor_def consecutiveFailures_def isPrimaryHealthy_def)
next
  case (snoc ok oks)
  obtain m calls where r: "pm_run oks (startPrimaryMonitor url) = (m, calls)" by fastforce
  have "map (\<lambda>i. streak (take (i + 1) (oks @ [ok]))) (filter (\<lambda>i. \<not> oks ! i) [0..<length oks]) =
      map (\<lambda>i. streak (take (i + 1) oks)) (filter (\<lambda>i. \<not> oks ! i) [0..<length oks])"
    by (intro map_cong) auto
  then show ?case using snoc
    unfolding upt_filter_snoc map_append pm_run_snoc r
    by (cases ok) (auto simp: pm_check_def consecutiveFailures_def isPrimaryHealthy_def)
qed

end
