(* ===== verification/Metrics.thy ===== *)
theory Metrics
  imports Prelude JsNum
begin

text \<open>
  \<open>src/core/metrics.ts\<close>: operation counters, the ring buffer of latency samples, the queue of
  operation times and the snapshot read off them. Latencies are exact rationals, so the
  running sum accumulates no rounding error; the clock is an argument of each operation.
\<close>

section \<open>State and operations\<close>

datatype OpType = OpGet | OpSet | OpDelete

record latency_stats =
  avgUs :: "rat option"
  p95Us :: "rat option"
  samples :: nat

record MetricsSnapshot =
  ms_uptimeSec :: rat
  ms_hits :: nat
  ms_misses :: nat
  ms_hitRate :: "rat option"
  ms_sets :: nat
  ms_deletes :: nat
  ms_opsPerSec :: rat
  ms_latency :: latency_stats

definition LATENCY_SAMPLE_CAP :: nat where
  "LATENCY_SAMPLE_CAP = 512"

definition THROUGHPUT_WINDOW_MS :: int where
  "THROUGHPUT_WINDOW_MS = 10000"

definition HISTORY_CAP :: nat where
  "HISTORY_CAP = 360"

record metrics =
  m_hits :: nat
  m_misses :: nat
  m_sets :: nat
  m_deletes :: nat
  startedAt :: time_ms
  latenciesUs :: "rat list"
  latencyIdx :: nat
  latencySum :: rat
  opTimestamps :: "time_ms list"
  opTimestampsHead :: nat
  historyTimer :: bool
  historyEntries :: "(time_ms \<times> MetricsSnapshot) list"

definition new_metrics :: "time_ms \<Rightarrow> metrics" where
  "new_metrics now = \<lparr>m_hits = 0, m_misses = 0, m_sets = 0, m_deletes = 0, startedAt = now, latenciesUs = [],
     latencyIdx = 0, latencySum = 0, opTimestamps = [], opTimestampsHead = 0, historyTimer = False, historyEntries = []\<rparr>"

definition count_op :: "OpType \<Rightarrow> bool \<Rightarrow> metrics \<Rightarrow> metrics" where
  "count_op op hit m = (case op of
       OpGet \<Rightarrow> if hit then m\<lparr>m_hits := m_hits m + 1\<rparr> else m\<lparr>m_misses := m_misses m + 1\<rparr>
     | OpSet \<Rightarrow> m\<lparr>m_sets := m_sets m + 1\<rparr>
     | OpDelete \<Rightarrow> m\<lparr>m_deletes := m_deletes m + 1\<rparr>)"

definition add_sample :: "rat \<Rightarrow> metrics \<Rightarrow> metrics" where
  "add_sample latencyUs m =
     (if length (latenciesUs m) < LATENCY_SAMPLE_CAP
      then m\<lparr>latenciesUs := latenciesUs m @ [latencyUs], latencySum := latencySum m + latencyUs\<rparr>
      else m\<lparr>latencySum := latencySum m + (latencyUs - latenciesUs m ! latencyIdx m),
             latenciesUs := (latenciesUs m)[latencyIdx m := latencyUs],
             latencyIdx := (latencyIdx m + 1) mod LATENCY_SAMPLE_CAP\<rparr>)"

function advance_head :: "int list \<Rightarrow> int \<Rightarrow> nat \<Rightarrow> nat" where
  "advance_head ts cutoff hp = (if hp < length ts \<and> ts ! hp < cutoff then advance_head ts cutoff (hp + 1) else hp)"
  by pat_completeness auto
termination
  by (relation "measure (\<lambda>(ts, _, hp). length ts - hp)") auto

declare advance_head.simps [simp del]

definition note_time :: "time_ms \<Rightarrow> metrics \<Rightarrow> metrics" where
  "note_time now m =
     (let ts = opTimestamps m @ [now];
          hp = advance_head ts (now - THROUGHPUT_WINDOW_MS) (opTimestampsHead m)
      in if 256 < hp \<and> length ts < hp * 2
         then m\<lparr>opTimestamps := drop hp ts, opTimestampsHead := 0\<rparr>
         else m\<lparr>opTimestamps := ts, opTimestampsHead := hp\<rparr>)"

definition metrics_record :: "OpType \<Rightarrow> rat \<Rightarrow> bool \<Rightarrow> time_ms \<Rightarrow> metrics \<Rightarrow> metrics" where
  \<comment> \<open>\<open>hit\<close> is the truth of the optional argument\<close>
  "metrics_record op latencyUs hit now m = note_time now (add_sample latencyUs (count_op op hit m))"

definition uptimeSec :: "time_ms \<Rightarrow> metrics \<Rightarrow> rat" where
  "uptimeSec now m = of_int (now - startedAt m) / 1000"

definition p95 :: "rat list \<Rightarrow> rat option" where
  \<comment> \<open>\<open>Math.ceil(N * 0.95)\<close> is \<open>\<lceil>19 N / 20\<rceil>\<close>: for the lengths up to 512 the product of doubles
    rounds to the exact integer whenever there is one\<close>
  "p95 sorted_samples = (if 0 < length sorted_samples
     then Some (sorted_samples ! min (length sorted_samples - 1)
       (nat (max 0 (\<lceil>of_nat (length sorted_samples) * (95 / 100 :: rat)\<rceil> - 1))))
     else None)"

definition round2 :: "rat \<Rightarrow> rat" where
  \<comment> \<open>\<open>Math.round(avg * 100) / 100\<close>\<close>
  "round2 x = of_int \<lfloor>x * 100 + 1 / 2\<rfloor> / 100"

definition metrics_snapshot :: "time_ms \<Rightarrow> metrics \<Rightarrow> MetricsSnapshot" where
  "metrics_snapshot now m =
     (let reads = m_hits m + m_misses m;
          sorted_samples = sort (latenciesUs m);
          avg = (if 0 < length (latenciesUs m) then Some (latencySum m / of_nat (length (latenciesUs m))) else None);
          cutoff = now - THROUGHPUT_WINDOW_MS;
          lo = bsearch (\<lambda>mid. opTimestamps m ! mid < cutoff) (opTimestampsHead m) (length (opTimestamps m));
          recentCount = length (opTimestamps m) - lo
      in \<lparr>ms_uptimeSec = uptimeSec now m, ms_hits = m_hits m, ms_misses = m_misses m,
          ms_hitRate = (if 0 < reads then Some (of_nat (m_hits m) / of_nat reads) else None),
          ms_sets = m_sets m, ms_deletes = m_deletes m,
          ms_opsPerSec = of_nat recentCount / (of_int THROUGHPUT_WINDOW_MS / 1000),
          ms_latency = \<lparr>avgUs = map_option round2 avg, p95Us = p95 sorted_samples,
            samples = length sorted_samples\<rparr>\<rparr>)"

definition stopHistory :: "metrics \<Rightarrow> metrics" where
  "stopHistory m = (if historyTimer m then m\<lparr>historyTimer := False\<rparr> else m)"

definition startHistory :: "metrics \<Rightarrow> metrics" where
  "startHistory m = (stopHistory m)\<lparr>historyTimer := True\<rparr>"

definition history_tick :: "time_ms \<Rightarrow> metrics \<Rightarrow> metrics" where
  \<comment> \<open>the interval callback: \<open>slice(-(HISTORY_CAP - 1))\<close> and the new entry\<close>
  "history_tick now m = m\<lparr>historyEntries :=
     drop (length (historyEntries m) - (HISTORY_CAP - 1)) (historyEntries m) @ [(now, metrics_snapshot now m)]\<rparr>"

section \<open>The log a collector summarizes\<close>

type_synonym op_event = "OpType \<times> rat \<times> bool \<times> time_ms"

definition metrics_run :: "metrics \<Rightarrow> op_event list \<Rightarrow> metrics" where
  "metrics_run m evs = foldl (\<lambda>m (op, us, hit, now). metrics_record op us hit now m) m evs"

definition lastn :: "nat \<Rightarrow> 'a list \<Rightarrow> 'a list" where
  "lastn n xs = drop (length xs - n) xs"

definition ev_time :: "op_event \<Rightarrow> time_ms" where
  "ev_time e = snd (snd (snd e))"

definition ev_latency :: "op_event \<Rightarrow> rat" where
  "ev_latency e = fst (snd e)"

lemma lastn_snoc: "length xs < n \<Longrightarrow> lastn n (xs @ [x]) = lastn n xs @ [x]"
  by (simp add: lastn_def)

lemma lastn_snoc_full:
  assumes "n \<le> length xs" and "0 < n"
  shows "lastn n (xs @ [x]) = tl (lastn n xs) @ [x]"
proof -
  have "Suc (length xs) - n = Suc (length xs - n)" using assms(1) by simp
  then show ?thesis using assms by (simp add: lastn_def drop_Suc tl_drop)
qed

lemma length_lastn [simp]: "length (lastn n xs) = min n (length xs)"
  by (simp add: lastn_def min_def)

subsection \<open>The ring buffer\<close>

definition ring_inv :: "metrics \<Rightarrow> rat list \<Rightarrow> bool" where
  "ring_inv m ls \<longleftrightarrow> latencyIdx m < LATENCY_SAMPLE_CAP \<and>
     length (latenciesUs m) = min LATENCY_SAMPLE_CAP (length ls) \<and>
     (length ls < LATENCY_SAMPLE_CAP \<longrightarrow> latencyIdx m = 0) \<and>
     drop (latencyIdx m) (latenciesUs m) @ take (latencyIdx m) (latenciesUs m) = lastn LATENCY_SAMPLE_CAP ls \<and>
     latencySum m = sum_list (latenciesUs m)"

lemma sum_list_update_rat: "i < length xs \<Longrightarrow> sum_list (xs[i := x]) = sum_list xs + (x - xs ! i :: rat)"
  by (induction xs arbitrary: i) (auto split: nat.splits)

lemma rotate_update:
  assumes "i < length xs"
  shows "drop (Suc i mod length xs) (xs[i := x]) @ take (Suc i mod length xs) (xs[i := x]) = tl (drop i xs @ take i xs) @ [x]"
proof (cases "Suc i = length xs")
  case True
  then have "drop i xs = [xs ! i]" using assms Cons_nth_drop_Suc [of i xs] by simp
  then have "tl (drop i xs @ take i xs) = take i xs" by simp
  moreover have "xs[i := x] = take i xs @ [x]" using assms True by (simp add: upd_conv_take_nth_drop)
  ultimately show ?thesis using True by simp
next
  case False
  then have "Suc i < length xs" using assms by simp
  moreover have "tl (drop i xs) = drop (Suc i) xs" by (simp add: drop_Suc tl_drop)
  moreover have "drop i xs \<noteq> []" using assms by simp
  ultimately show ?thesis
    using assms by (simp add: tl_append2 take_Suc_conv_app_nth take_update_swap list_update_append min_def)
qed

lemma add_sample_ring: "ring_inv m ls \<Longrightarrow> ring_inv (add_sample us m) (ls @ [us])"
proof -
  assume inv: "ring_inv m ls"
  have cap: "0 < LATENCY_SAMPLE_CAP" by (simp add: LATENCY_SAMPLE_CAP_def)
  show ?thesis
  proof (cases "length ls < LATENCY_SAMPLE_CAP")
    case True
    then have "length (latenciesUs m) < LATENCY_SAMPLE_CAP" "latencyIdx m = 0" using inv by (auto simp: ring_inv_def)
    with inv True show ?thesis by (auto simp: ring_inv_def add_sample_def lastn_snoc)
  next
    case False
    then have len: "length (latenciesUs m) = LATENCY_SAMPLE_CAP" and idx: "latencyIdx m < length (latenciesUs m)"
      using inv by (auto simp: ring_inv_def)
    then show ?thesis
      using inv False cap rotate_update [OF idx, of us] sum_list_update_rat [OF idx, of us]
        lastn_snoc_full [of LATENCY_SAMPLE_CAP ls us]
      by (simp add: ring_inv_def add_sample_def)
  qed
qed

lemma ring_samples: "ring_inv m ls \<Longrightarrow> mset (latenciesUs m) = mset (lastn LATENCY_SAMPLE_CAP ls)"
proof -
  assume "ring_inv m ls"
  then have "mset (drop (latencyIdx m) (latenciesUs m) @ take (latencyIdx m) (latenciesUs m)) =
      mset (lastn LATENCY_SAMPLE_CAP ls)" by (simp add: ring_inv_def)
  then show ?thesis by (metis append_take_drop_id mset_append union_commute)
qed

subsection \<open>The queue of times\<close>

definition queue_inv :: "metrics \<Rightarrow> time_ms list \<Rightarrow> bool" where
  \<comment> \<open>what was dropped, or lies before the head, is out of the window\<close>
  "queue_inv m ts \<longleftrightarrow> opTimestampsHead m \<le> length (opTimestamps m) \<and>
     (\<exists>old. ts = old @ opTimestamps m \<and>
        (\<forall>t \<in> set old \<union> set (take (opTimestampsHead m) (opTimestamps m)). t < last ts - THROUGHPUT_WINDOW_MS)) \<and>
     (opTimestampsHead m \<le> 256 \<or> opTimestampsHead m * 2 \<le> length (opTimestamps m))"

lemma advance_head_props:
  "hp \<le> length ts \<Longrightarrow> hp \<le> advance_head ts c hp \<and> advance_head ts c hp \<le> length ts \<and>
    (\<forall>i. hp \<le> i \<and> i < advance_head ts c hp \<longrightarrow> ts ! i < c) \<and>
    (advance_head ts c hp < length ts \<longrightarrow> \<not> ts ! advance_head ts c hp < c)"
proof (induction ts c hp rule: advance_head.induct)
  case (1 ts c hp)
  show ?case
  proof (cases "hp < length ts \<and> ts ! hp < c")
    case True
    then have "Suc hp \<le> advance_head ts c (Suc hp) \<and> advance_head ts c (Suc hp) \<le> length ts \<and>
      (\<forall>i. Suc hp \<le> i \<and> i < advance_head ts c (Suc hp) \<longrightarrow> ts ! i < c) \<and>
      (advance_head ts c (Suc hp) < length ts \<longrightarrow> \<not> ts ! advance_head ts c (Suc hp) < c)"
      using 1 by simp
    with True show ?thesis
      by (subst (1 2 3 4 5) advance_head.simps) (simp, metis Suc_leI le_neq_implies_less Suc_leD)
  next
    case False
    then have "advance_head ts c hp = hp" by (auto simp: advance_head.simps [of ts c hp])
    with False 1 show ?thesis by auto
  qed
qed

lemma take_advance:
  assumes "hp \<le> length ts" and "\<forall>t \<in> set (take hp ts). t < c"
  shows "\<forall>t \<in> set (take (advance_head ts c hp) ts). t < c"
proof
  fix t
  assume "t \<in> set (take (advance_head ts c hp) ts)"
  then obtain i where i: "i < advance_head ts c hp" "i < length ts" "t = ts ! i"
    by (auto simp: in_set_conv_nth)
  show "t < c"
  proof (cases "i < hp")
    case True
    then have "ts ! i \<in> set (take hp ts)" using i(2) by (auto simp: in_set_conv_nth intro!: exI [of _ i])
    with assms(2) i(3) show ?thesis by blast
  next
    case False
    then show ?thesis using advance_head_props [OF assms(1), of c] i by auto
  qed
qed

lemma note_time_queue:
  assumes "queue_inv m ts" and "sorted (ts @ [now])"
  shows "queue_inv (note_time now m) (ts @ [now])"
proof -
  let ?ts = "opTimestamps m @ [now]" and ?c = "now - THROUGHPUT_WINDOW_MS"
  let ?hp = "advance_head ?ts ?c (opTimestampsHead m)"
  obtain old where old: "ts = old @ opTimestamps m" and hp: "opTimestampsHead m \<le> length (opTimestamps m)"
    and out: "\<forall>t \<in> set old \<union> set (take (opTimestampsHead m) (opTimestamps m)). t < last ts - THROUGHPUT_WINDOW_MS"
    using assms(1) by (auto simp: queue_inv_def)
  have le: "last ts \<le> now" if "ts \<noteq> []" using assms(2) that by (simp add: sorted_append)
  have out': "t < ?c" if "t \<in> set old \<union> set (take (opTimestampsHead m) (opTimestamps m))" for t
  proof -
    have "t \<in> set ts" using that old set_take_subset by fastforce
    then have "last ts \<le> now" by (intro le) auto
    then show ?thesis using bspec [OF out that] by linarith
  qed
  have hp': "opTimestampsHead m \<le> length ?ts" using hp by simp
  have tk: "\<forall>t \<in> set (take ?hp ?ts). t < ?c"
    using hp out' by (intro take_advance [OF hp']) auto
  note adv = advance_head_props [OF hp', of ?c]
  show ?thesis
  proof (cases "256 < ?hp \<and> length ?ts < ?hp * 2")
    case True
    have "ts @ [now] = (old @ take ?hp ?ts) @ drop ?hp ?ts"
      unfolding append.assoc append_take_drop_id by (simp add: old)
    moreover have "\<forall>t \<in> set (old @ take ?hp ?ts). t < last (ts @ [now]) - THROUGHPUT_WINDOW_MS" using out' tk by auto
    ultimately show ?thesis using True by (auto simp: queue_inv_def note_time_def Let_def)
  next
    case False
    have "ts @ [now] = old @ ?ts" by (simp add: old)
    moreover have "\<forall>t \<in> set old \<union> set (take ?hp ?ts). t < last (ts @ [now]) - THROUGHPUT_WINDOW_MS" using out' tk by auto
    ultimately show ?thesis using False adv by (auto simp: queue_inv_def note_time_def Let_def)
  qed
qed

lemma record_rings:
  "ring_inv m ls \<Longrightarrow> ring_inv (metrics_record op us hit now m) (ls @ [us])"
proof -
  assume "ring_inv m ls"
  then have "ring_inv (count_op op hit m) ls" by (simp add: ring_inv_def count_op_def split: OpType.splits)
  then have "ring_inv (add_sample us (count_op op hit m)) (ls @ [us])" by (rule add_sample_ring)
  then show ?thesis by (simp add: metrics_record_def note_time_def ring_inv_def Let_def)
qed

lemma record_queue:
  "queue_inv m ts \<Longrightarrow> sorted (ts @ [now]) \<Longrightarrow> queue_inv (metrics_record op us hit now m) (ts @ [now])"
proof -
  assume q: "queue_inv m ts" and s: "sorted (ts @ [now])"
  have "queue_inv (add_sample us (count_op op hit m)) ts"
    using q by (auto simp: queue_inv_def add_sample_def count_op_def split: OpType.splits)
  from note_time_queue [OF this s] show ?thesis by (simp add: metrics_record_def)
qed

definition counts_inv :: "metrics \<Rightarrow> op_event list \<Rightarrow> bool" where
  "counts_inv m evs \<longleftrightarrow>
     m_hits m = length (filter (\<lambda>(op, _, hit, _). op = OpGet \<and> hit) evs) \<and>
     m_misses m = length (filter (\<lambda>(op, _, hit, _). op = OpGet \<and> \<not> hit) evs) \<and>
     m_sets m = length (filter (\<lambda>(op, _). op = OpSet) evs) \<and>
     m_deletes m = length (filter (\<lambda>(op, _). op = OpDelete) evs)"

lemma record_counts: "counts_inv m evs \<Longrightarrow> counts_inv (metrics_record op us hit now m) (evs @ [(op, us, hit, now)])"
  by (cases op) (simp_all add: counts_inv_def metrics_record_def note_time_def add_sample_def count_op_def Let_def)

lemma startedAt_run [simp]: "startedAt (metrics_record op us hit now m) = startedAt m"
  by (simp add: metrics_record_def note_time_def add_sample_def count_op_def Let_def split: OpType.splits)

lemma metrics_run_inv:
  assumes "sorted (map ev_time evs)"
  shows "ring_inv (metrics_run (new_metrics t0) evs) (map ev_latency evs) \<and>
    queue_inv (metrics_run (new_metrics t0) evs) (map ev_time evs) \<and>
    counts_inv (metrics_run (new_metrics t0) evs) evs \<and> startedAt (metrics_run (new_metrics t0) evs) = t0"
  using assms
proof (induction evs rule: rev_induct)
  case Nil
  show ?case
    by (simp add: metrics_run_def new_metrics_def ring_inv_def queue_inv_def counts_inv_def lastn_def LATENCY_SAMPLE_CAP_def)
next
  case (snoc e evs)
  obtain op us hit now where e: "e = (op, us, hit, now)" by (cases e)
  have step: "metrics_run (new_metrics t0) (evs @ [e]) = metrics_record op us hit now (metrics_run (new_metrics t0) evs)"
    by (simp add: metrics_run_def e)
  have "sorted (map ev_time evs)" using snoc.prems by (simp add: sorted_append)
  then have IH: "ring_inv (metrics_run (new_metrics t0) evs) (map ev_latency evs)"
      "queue_inv (metrics_run (new_metrics t0) evs) (map ev_time evs)"
      "counts_inv (metrics_run (new_metrics t0) evs) evs" "startedAt (metrics_run (new_metrics t0) evs) = t0"
    using snoc.IH by simp_all
  have now: "ev_time e = now" and latency: "ev_latency (op, us, hit, now) = us"
    by (simp_all add: e ev_time_def ev_latency_def)
  have "sorted (map ev_time evs @ [now])" using snoc.prems by (simp add: now)
  from record_queue [OF IH(2) this] record_rings [OF IH(1)] record_counts [OF IH(3)] IH(4) show ?case
    unfolding step map_append list.map now by (simp add: e latency)
qed

lemma filter_sorted_split:
  assumes "sorted ts" and "r \<le> length ts" and "\<forall>i < r. ts ! i < (c :: int)" and "\<forall>i. r \<le> i \<and> i < length ts \<longrightarrow> c \<le> ts ! i"
  shows "length (filter (\<lambda>t. c \<le> t) ts) = length ts - r"
proof -
  have "filter (\<lambda>t. c \<le> t) (take r ts) = []"
    using assms(3) by (auto simp: filter_empty_conv in_set_conv_nth not_le)
  moreover have "filter (\<lambda>t. c \<le> t) (drop r ts) = drop r ts"
    using assms(2,4) by (auto simp: filter_id_conv in_set_conv_nth)
  moreover have "filter (\<lambda>t. c \<le> t) ts = filter (\<lambda>t. c \<le> t) (take r ts) @ filter (\<lambda>t. c \<le> t) (drop r ts)"
    by (metis append_take_drop_id filter_append)
  ultimately show ?thesis by simp
qed

lemma recent_count:
  assumes "queue_inv m ts" and "sorted ts" and "\<forall>t \<in> set ts. t \<le> now" and "c = now - THROUGHPUT_WINDOW_MS"
    and "lo = bsearch (\<lambda>i. opTimestamps m ! i < c) (opTimestampsHead m) (length (opTimestamps m))"
  shows "length (opTimestamps m) - lo = length (filter (\<lambda>t. c \<le> t) ts)"
proof -
  obtain old where old: "ts = old @ opTimestamps m" and hp: "opTimestampsHead m \<le> length (opTimestamps m)"
    and out: "\<forall>t \<in> set old \<union> set (take (opTimestampsHead m) (opTimestamps m)). t < last ts - THROUGHPUT_WINDOW_MS"
    using assms(1) by (auto simp: queue_inv_def)
  have s: "sorted (opTimestamps m)" using assms(2) old by (simp add: sorted_append)
  have out': "t < c" if "t \<in> set old \<union> set (take (opTimestampsHead m) (opTimestamps m))" for t
  proof -
    have "ts \<noteq> []" using that old by auto
    then have "last ts \<le> now" using assms(3) by simp
    then show ?thesis using bspec [OF out that] assms(4) by linarith
  qed
  have mono: "opTimestamps m ! i < c" if "i \<le> j" "j < length (opTimestamps m)" "opTimestamps m ! j < c" for i j
    using sorted_nth_mono [OF s that(1,2)] that(3) by simp
  have b: "opTimestampsHead m \<le> lo \<and> lo \<le> length (opTimestamps m) \<and>
      (\<forall>i. opTimestampsHead m \<le> i \<and> i < lo \<longrightarrow> opTimestamps m ! i < c) \<and>
      (\<forall>i. lo \<le> i \<and> i < length (opTimestamps m) \<longrightarrow> \<not> opTimestamps m ! i < c)"
    unfolding assms(5) by (rule bsearch_correct) (rule hp, blast intro: mono)
  have below: "opTimestamps m ! i < c" if "i < lo" for i
  proof (cases "i < opTimestampsHead m")
    case True
    then have "opTimestamps m ! i \<in> set (take (opTimestampsHead m) (opTimestamps m))"
      using hp by (auto simp: in_set_conv_nth intro!: exI [of _ i])
    then show ?thesis using out' by blast
  next
    case False
    then show ?thesis using b that by auto
  qed
  have "length (filter (\<lambda>t. c \<le> t) (opTimestamps m)) = length (opTimestamps m) - lo"
    using b below by (intro filter_sorted_split [OF s]) (auto simp: not_less)
  moreover have "filter (\<lambda>t. c \<le> t) old = []" using out' by (auto simp: filter_empty_conv not_le)
  ultimately show ?thesis by (simp add: old)
qed

section \<open>Properties\<close>

text \<open>C32: A snapshot is what the log of operations says: whatever was recorded, at times that do
  not decrease, the counters are the numbers of operations of each kind, the hit rate their
  quotient, the throughput the operations of the last ten seconds divided by ten - although
  the queue drops and compacts its old part - and average and percentile are those of the
  last 512 latencies, although the ring buffer overwrites in place and the sum is adjusted
  incrementally.\<close>

theorem snapshot_summarizes_log:
  assumes "sorted (map ev_time evs)" and "\<forall>e \<in> set evs. ev_time e \<le> now"
    and "m = metrics_run (new_metrics t0) evs" and "recent = lastn LATENCY_SAMPLE_CAP (map ev_latency evs)"
    and "gets = filter (\<lambda>(op, _). op = OpGet) evs"
  shows "metrics_snapshot now m =
    \<lparr>ms_uptimeSec = of_int (now - t0) / 1000,
     ms_hits = length (filter (\<lambda>(_, _, hit, _). hit) gets),
     ms_misses = length (filter (\<lambda>(_, _, hit, _). \<not> hit) gets),
     ms_hitRate = (if gets = [] then None
       else Some (of_nat (length (filter (\<lambda>(_, _, hit, _). hit) gets)) / of_nat (length gets))),
     ms_sets = length (filter (\<lambda>(op, _). op = OpSet) evs),
     ms_deletes = length (filter (\<lambda>(op, _). op = OpDelete) evs),
     ms_opsPerSec = of_nat (length (filter (\<lambda>e. now - 10000 \<le> ev_time e) evs)) / 10,
     ms_latency = \<lparr>avgUs = (if evs = [] then None else Some (round2 (sum_list recent / of_nat (length recent)))),
       p95Us = p95 (sort recent), samples = min 512 (length evs)\<rparr>\<rparr>"
proof -
  have inv: "ring_inv m (map ev_latency evs)" "queue_inv m (map ev_time evs)" "counts_inv m evs" "startedAt m = t0"
    using metrics_run_inv [OF assms(1), of t0] assms(3) by simp_all
  have ms: "mset (latenciesUs m) = mset recent" using ring_samples [OF inv(1)] assms(4) by simp
  then have sorted_eq: "sort (latenciesUs m) = sort recent" by (intro properties_for_sort) simp_all
  have len: "length (latenciesUs m) = length recent" using ms by (metis size_mset)
  have sum: "latencySum m = sum_list recent"
    using inv(1) ms sum_mset_sum_list [of recent] sum_mset_sum_list [of "latenciesUs m"] by (simp add: ring_inv_def)
  have rl: "length recent = min 512 (length evs)" by (simp add: assms(4) LATENCY_SAMPLE_CAP_def)
  have cnt: "length (opTimestamps m) - bsearch (\<lambda>i. opTimestamps m ! i < now - THROUGHPUT_WINDOW_MS)
      (opTimestampsHead m) (length (opTimestamps m)) = length (filter (\<lambda>e. now - 10000 \<le> ev_time e) evs)"
    using recent_count [OF inv(2) assms(1) _ refl refl] assms(2)
    by (simp add: filter_map o_def THROUGHPUT_WINDOW_MS_def)
  have hits: "m_hits m = length (filter (\<lambda>(_, _, hit, _). hit) gets)"
    and misses: "m_misses m = length (filter (\<lambda>(_, _, hit, _). \<not> hit) gets)"
    using inv(3) by (simp_all add: counts_inv_def assms(5) case_prod_unfold conj_commute)
  have reads: "m_hits m + m_misses m = length gets"
    unfolding hits misses using sum_length_filter_compl [of "\<lambda>(_, _, hit, _). hit" gets] by (simp add: case_prod_unfold)
  show ?thesis
    using inv(3,4) reads cnt
    by (simp add: metrics_snapshot_def sorted_eq len sum rl uptimeSec_def THROUGHPUT_WINDOW_MS_def
        hits [symmetric] misses [symmetric] counts_inv_def)
qed

theorem snapshot_summarizes_log_witness:
  "ms_opsPerSec (metrics_snapshot 12500 (metrics_run (new_metrics 0)
     [(OpGet, 5, True, 1000), (OpSet, 7, False, 12000), (OpGet, 9, False, 12000)])) = 1 / 5"
  using snapshot_summarizes_log [of "[(OpGet, 5, True, 1000), (OpSet, 7, False, 12000), (OpGet, 9, False, 12000)]" 12500,
      OF _ _ refl refl refl, of 0]
  by (simp add: ev_time_def)

lemma percent_scale1: "c - 1 < n * (95 / 100) \<Longrightarrow> 20 * (c - 1) < 19 * (n :: rat)"
  by (simp add: field_simps)

lemma percent_scale2: "n * (95 / 100) \<le> c \<Longrightarrow> 19 * n \<le> 20 * (c :: rat)"
  by (simp add: field_simps)

lemma length_filter_take_le: "length (filter P (take n xs)) \<le> length (filter P xs)"
  by (metis append_take_drop_id filter_append le_add1 length_append)

lemma length_filter_drop_le: "length (filter P (drop n xs)) \<le> length (filter P xs)"
  by (metis append_take_drop_id filter_append le_add2 length_append)

text \<open>The percentile is the nearest rank: it is one of the samples, at least 95 percent of the
  samples are no larger, and fewer than 95 percent are smaller.\<close>

lemma p95_nearest_rank:
  assumes "sorted xs" and "p95 xs = Some v"
  shows "v \<in> set xs \<and> 19 * length xs \<le> 20 * length (filter (\<lambda>x. x \<le> v) xs) \<and>
    20 * length (filter (\<lambda>x. x < v) xs) < 19 * length xs"
proof -
  let ?n = "length xs" and ?c = "\<lceil>of_nat (length xs) * (95 / 100 :: rat)\<rceil>"
  have n: "0 < ?n" using assms(2) by (simp add: p95_def split: if_splits)
  have c: "of_int ?c - 1 < (of_nat ?n * (95 / 100) :: rat)" "(of_nat ?n * (95 / 100) :: rat) \<le> of_int ?c"
    using ceiling_correct [of "of_nat ?n * (95 / 100) :: rat"] by blast+
  note c1 = percent_scale1 [OF c(1)] and c2 = percent_scale2 [OF c(2)]
  from c1 c2 have "(of_int (20 * (?c - 1)) :: rat) < of_int (19 * int ?n)" "(of_int (19 * int ?n) :: rat) \<le> of_int (20 * ?c)"
    by (simp_all only: of_int_mult of_int_diff of_int_numeral of_int_of_nat_eq of_int_1)
  then have i: "20 * (?c - 1) < 19 * int ?n" "19 * int ?n \<le> 20 * ?c" by (simp_all only: of_int_less_iff of_int_le_iff)
  then have pos: "0 < ?c" "?c \<le> int ?n" using n by linarith+
  obtain r where r: "?c = int (Suc r)" using pos(1) by (metis zero_less_imp_eq_int Suc_pred)
  then have idx: "r < ?n" "20 * r < 19 * ?n" "19 * ?n \<le> 20 * Suc r" using i pos by simp_all
  have v: "v = xs ! r" using assms(2) n r idx(1) by (simp add: p95_def)
  have "filter (\<lambda>x. x \<le> v) (take (Suc r) xs) = take (Suc r) xs"
    using idx(1) sorted_nth_mono [OF assms(1), of _ r] v by (auto simp: filter_id_conv in_set_conv_nth)
  then have "Suc r \<le> length (filter (\<lambda>x. x \<le> v) xs)"
    using idx(1) length_filter_take_le [of "\<lambda>x. x \<le> v" "Suc r" xs] by simp
  moreover have "length (filter (\<lambda>x. x < v) xs) \<le> r"
  proof -
    have "filter (\<lambda>x. x < v) (drop r xs) = []"
      using sorted_nth_mono [OF assms(1), of r] v idx(1) by (auto simp: filter_empty_conv in_set_conv_nth not_less)
    then have "filter (\<lambda>x. x < v) xs = filter (\<lambda>x. x < v) (take r xs)"
      by (metis append_Nil2 append_take_drop_id filter_append)
    also have "length \<dots> \<le> length (take r xs)" by (rule length_filter_le)
    finally show ?thesis by simp
  qed
  ultimately show ?thesis using idx v nth_mem [OF idx(1)] by simp
qed

lemma p95_nearest_rank_witness: "p95 [1, 2, 3 :: rat] = Some 3 \<and> 20 * length (filter (\<lambda>x. x < 3) [1, 2, 3 :: rat]) < 57"
proof -
  have p: "p95 [1, 2, 3] = Some 3" by code_simp
  then show ?thesis using p95_nearest_rank [of "[1, 2, 3]" 3] by simp
qed

lemma drop_sorted_ge:
  assumes "sorted ts" and "k < length ts \<longrightarrow> \<not> ts ! k < (c :: int)"
  shows "\<forall>t \<in> set (drop k ts). c \<le> t"
proof (cases "k < length ts")
  case True
  then have "drop k ts = ts ! k # drop (Suc k) ts" by (simp add: Cons_nth_drop_Suc)
  moreover have "sorted (drop k ts)" using assms(1) by (rule sorted_wrt_drop)
  ultimately have "\<forall>t \<in> set (drop k ts). ts ! k \<le> t" by auto
  moreover have "c \<le> ts ! k" using assms(2) True by simp
  ultimately show ?thesis by (meson order_trans)
qed simp

lemma note_time_live:
  assumes "sorted (opTimestamps m @ [now])" and "opTimestampsHead m \<le> length (opTimestamps m)"
  shows "\<forall>t \<in> set (drop (opTimestampsHead (note_time now m)) (opTimestamps (note_time now m))). now - THROUGHPUT_WINDOW_MS \<le> t"
proof -
  let ?ts = "opTimestamps m @ [now]" and ?c = "now - THROUGHPUT_WINDOW_MS"
  let ?hp = "advance_head ?ts ?c (opTimestampsHead m)"
  have "opTimestampsHead m \<le> length ?ts" using assms(2) by simp
  then have "?hp < length ?ts \<longrightarrow> \<not> ?ts ! ?hp < ?c" using advance_head_props by blast
  with assms(1) have "\<forall>t \<in> set (drop ?hp ?ts). ?c \<le> t" by (rule drop_sorted_ge)
  moreover have "drop (opTimestampsHead (note_time now m)) (opTimestamps (note_time now m)) = drop ?hp ?ts"
    by (simp add: note_time_def Let_def del: drop_append)
  ultimately show ?thesis by simp
qed

lemma history_ticks_bounded:
  "length (historyEntries m) \<le> HISTORY_CAP \<Longrightarrow> length (historyEntries (foldl (\<lambda>m now. history_tick now m) m ticks)) \<le> HISTORY_CAP"
  by (induction ticks arbitrary: m) (auto simp: history_tick_def HISTORY_CAP_def)

lemma record_history [simp]: "historyEntries (metrics_record op us hit now m) = historyEntries m"
  by (simp add: metrics_record_def note_time_def add_sample_def count_op_def Let_def split: OpType.splits)

lemma run_history: "historyEntries (metrics_run m evs) = historyEntries m"
  unfolding metrics_run_def by (induction evs arbitrary: m) (auto simp: case_prod_unfold)

text \<open>Memory is bounded by the recent load: at most 512 latencies are kept, at most twice the
  number of operations of the last ten seconds plus 256 operation times, and at most 360
  history entries however often the timer fires.\<close>

lemma metrics_memory_bounded:
  assumes "sorted (map ev_time (evs @ [e]))" and "m = metrics_run (new_metrics t0) (evs @ [e])"
    and "recent = length (filter (\<lambda>d. ev_time e - 10000 \<le> ev_time d) (evs @ [e]))"
  shows "length (latenciesUs m) \<le> 512 \<and> length (opTimestamps m) \<le> 2 * recent + 256 \<and>
    length (historyEntries (foldl (\<lambda>m now. history_tick now m) m ticks)) \<le> 360"
proof -
  obtain op us hit now where e: "e = (op, us, hit, now)" by (cases e)
  let ?m0 = "metrics_run (new_metrics t0) evs"
  let ?m1 = "add_sample us (count_op op hit ?m0)"
  have inv: "ring_inv m (map ev_latency (evs @ [e]))" "queue_inv m (map ev_time (evs @ [e]))"
    using metrics_run_inv [OF assms(1), of t0] assms(2) by simp_all
  have m: "m = note_time now ?m1" using assms(2) by (simp add: metrics_run_def e metrics_record_def)
  have "sorted (map ev_time evs)" using assms(1) by (simp add: sorted_append)
  then have q0: "queue_inv ?m0 (map ev_time evs)" using metrics_run_inv by simp
  have same: "opTimestamps ?m1 = opTimestamps ?m0" "opTimestampsHead ?m1 = opTimestampsHead ?m0"
    by (simp_all add: add_sample_def count_op_def split: OpType.splits)
  obtain old where old: "map ev_time evs = old @ opTimestamps ?m0" using q0 by (auto simp: queue_inv_def)
  have now: "ev_time e = now" by (simp add: e ev_time_def)
  have "sorted ((old @ opTimestamps ?m0) @ [now])" using assms(1) by (simp add: now flip: old)
  then have "sorted (opTimestamps ?m1 @ [now])" by (simp add: same sorted_append)
  moreover have "opTimestampsHead ?m1 \<le> length (opTimestamps ?m1)" using q0 by (simp add: same queue_inv_def)
  ultimately have live: "\<forall>t \<in> set (drop (opTimestampsHead m) (opTimestamps m)). now - THROUGHPUT_WINDOW_MS \<le> t"
    unfolding m by (rule note_time_live)
  obtain old' where old': "map ev_time (evs @ [e]) = old' @ opTimestamps m" using inv(2) by (auto simp: queue_inv_def)
  have "length (drop (opTimestampsHead m) (opTimestamps m)) =
      length (filter (\<lambda>t. now - 10000 \<le> t) (drop (opTimestampsHead m) (opTimestamps m)))"
    using live by (simp add: filter_True THROUGHPUT_WINDOW_MS_def)
  also have "\<dots> \<le> length (filter (\<lambda>t. now - 10000 \<le> t) (opTimestamps m))"
    by (rule length_filter_drop_le)
  also have "\<dots> \<le> length (filter (\<lambda>t. now - 10000 \<le> t) (map ev_time (evs @ [e])))"
    unfolding old' by simp
  also have "\<dots> = recent" by (simp only: assms(3) now filter_map o_def length_map)
  finally have "length (opTimestamps m) - opTimestampsHead m \<le> recent" by simp
  moreover have "opTimestampsHead m \<le> 256 \<or> opTimestampsHead m * 2 \<le> length (opTimestamps m)"
    "opTimestampsHead m \<le> length (opTimestamps m)" using inv(2) by (simp_all add: queue_inv_def)
  ultimately have "length (opTimestamps m) \<le> 2 * recent + 256" by linarith
  moreover have "length (latenciesUs m) \<le> 512" using inv(1) by (simp add: ring_inv_def LATENCY_SAMPLE_CAP_def)
  moreover have "length (historyEntries (foldl (\<lambda>m now. history_tick now m) m ticks)) \<le> 360"
    using history_ticks_bounded [of m ticks] by (simp add: assms(2) run_history new_metrics_def HISTORY_CAP_def)
  ultimately show ?thesis by blast
qed

lemma metrics_memory_bounded_witness:
  "length (opTimestamps (metrics_run (new_metrics 0) [(OpSet, 1, False, 10), (OpGet, 2, True, 20000)])) \<le> 258"
proof -
  let ?e = "(OpGet, 2, True, 20000) :: op_event"
  have r: "1 = length (filter (\<lambda>d. ev_time ?e - 10000 \<le> ev_time d) ([(OpSet, 1, False, 10)] @ [?e]))"
    by (simp add: ev_time_def)
  show ?thesis
    using metrics_memory_bounded [of "[(OpSet, 1, False, 10)]" ?e, OF _ refl r, of 0] by (simp add: ev_time_def)
qed

end
