(* ===== verification/Auth.thy ===== *)
theory Auth
  imports JsString
begin

text \<open>
  \<open>src/network/auth.ts\<close>: the shared-secret check. A request's headers are a function from
  lower-case header names, as \<open>req.header\<close> is.
\<close>

type_synonym headers = "jsstring \<Rightarrow> jsstring option"

definition EXEMPT_PATHS :: "jsstring list" where
  "EXEMPT_PATHS = [''/health'']"

definition safeEqual :: "jsstring \<Rightarrow> jsstring \<Rightarrow> bool" where
  \<comment> \<open>\<open>Buffer.from\<close> is the UTF-8 encoding; \<open>timingSafeEqual\<close> compares bytes of equal number\<close>
  "safeEqual a b = (let bufA = utf8 a; bufB = utf8 b in
     if length bufA \<noteq> length bufB then False else bufA = bufB)"

definition presentedKey :: "headers \<Rightarrow> jsstring option" where
  "presentedKey header = (case header ''x-api-key'' of
       Some (c # cs) \<Rightarrow> Some (c # cs)
     | _ \<Rightarrow> (case header ''authorization'' of
           Some (c # cs) \<Rightarrow> (case split_on CHR '' '' (c # cs) of
               scheme # token # _ \<Rightarrow> if scheme = ''Bearer'' \<and> token \<noteq> [] then Some token else None
             | _ \<Rightarrow> None)
         | _ \<Rightarrow> None))"

definition createAuthMiddleware :: "jsstring option \<Rightarrow> jsstring \<Rightarrow> headers \<Rightarrow> bool" where
  \<comment> \<open>\<open>True\<close> is \<open>next()\<close>, \<open>False\<close> the 401\<close>
  "createAuthMiddleware apiKey path header = (case apiKey of
       None \<Rightarrow> True
     | Some key \<Rightarrow> if key = [] \<or> path \<in> set EXEMPT_PATHS then True
         else (case presentedKey header of
             None \<Rightarrow> False
           | Some presented \<Rightarrow> \<not> (presented = [] \<or> \<not> safeEqual presented key)))"

definition authHeader :: "jsstring option \<Rightarrow> (jsstring \<times> jsstring) list" where
  "authHeader apiKey = (case apiKey of
       Some (c # cs) \<Rightarrow> [(''x-api-key'', c # cs)]
     | _ \<Rightarrow> [])"

lemma safeEqual_iff [simp]: "safeEqual a b \<longleftrightarrow> a = b"
  by (auto simp: safeEqual_def Let_def)

lemma presentedKey_nonempty: "presentedKey header = Some k \<Longrightarrow> k \<noteq> []"
  by (auto simp: presentedKey_def split: option.splits list.splits if_splits)

lemma split_second: "split_on c s = a # b # ws \<Longrightarrow> c \<notin> set b"
  using split_on_no_sep [of b c s] by simp

text \<open>The check lets a request through exactly when no (or an empty) key is configured, the
  path is \<open>/health\<close>, or the presented key is the configured one, byte for byte; what
  \<open>authHeader\<close> attaches to an internal request always passes the check of a node with the
  same key; and a key with a space in it can be presented as \<open>X-API-Key\<close> only.\<close>

lemma auth_exact:
  "createAuthMiddleware apiKey path header =
     (apiKey \<in> {None, Some []} \<or> path = ''/health'' \<or> presentedKey header = apiKey) \<and>
   createAuthMiddleware apiKey path (map_of (authHeader apiKey)) \<and>
   (header ''x-api-key'' \<in> {None, Some []} \<and> apiKey = Some key \<and> CHR '' '' \<in> set key \<longrightarrow> presentedKey header \<noteq> apiKey)"
proof -
  have "createAuthMiddleware apiKey path header =
     (apiKey \<in> {None, Some []} \<or> path = ''/health'' \<or> presentedKey header = apiKey)" for header
    using presentedKey_nonempty [of header]
    by (auto simp: createAuthMiddleware_def EXEMPT_PATHS_def split: option.splits)
  moreover have "presentedKey (map_of (authHeader apiKey)) = apiKey" if "apiKey \<notin> {None, Some []}"
    using that by (auto simp: authHeader_def presentedKey_def split: option.splits list.splits)
  moreover have "CHR '' '' \<notin> set key" if "header ''x-api-key'' \<in> {None, Some []}" "presentedKey header = Some key"
    using that by (auto simp: presentedKey_def split: option.splits list.splits if_splits dest!: split_second)
  ultimately show ?thesis by blast
qed

lemma auth_exact_witness:
  "presentedKey (\<lambda>n. if n = ''authorization'' then Some ''Bearer a b'' else None) \<noteq> Some ''a b''"
  using auth_exact [of "Some ''a b''" _ "\<lambda>n. if n = ''authorization'' then Some ''Bearer a b'' else None" "''a b''"] by simp

end
