(* ===== verification/Server.thy ===== *)
theory Server
  imports Persistence PrimaryMonitor NodeRole Metrics Auth Env
begin

text \<open>
  \<open>src/network/server.ts\<close>: the process of a node - its startup, its monitoring of the primary,
  its campaigns, its reaction to a new leader, its announcements to gateways and its
  shutdown. What is asynchronous in the code (timers, pings, votes, the pull of a
  snapshot) is an event of its own: \<open>server_step\<close> is one step of the event loop.
\<close>

section \<open>Configuration and state\<close>

record server_config =
  sc_persistPath :: "jsstring option"
  sc_gatewayUrls :: "jsstring list"
  sc_selfUrl :: "jsstring option"
  sc_autoPromote :: bool
  sc_threshold :: nat
  sc_peerUrls :: "jsstring list"
  sc_candidateId :: jsstring

record server =
  sv_role :: node_role
  sv_store :: cache_store
  sv_metrics :: metrics
  sv_monitors :: "primary_monitor list" \<comment> \<open>all that were started; the last one is \<open>primaryMonitorHandle\<close>\<close>
  sv_campaign :: "nat option" \<comment> \<open>the term of the election in flight; \<open>None\<close> is \<open>electionInFlight = false\<close>\<close>
  sv_autoPersist :: bool
  sv_listening :: bool

definition truthy :: "jsstring option \<Rightarrow> jsstring option" where
  \<comment> \<open>the string when it is neither \<open>undefined\<close> nor empty\<close>
  "truthy v = (case v of Some (c # cs) \<Rightarrow> Some (c # cs) | _ \<Rightarrow> None)"

definition read_server_config :: "env \<Rightarrow> server_config" where
  "read_server_config env =
     \<lparr>sc_persistPath = env ''INKCACHE_PERSIST_PATH'',
      sc_gatewayUrls = resolveReplicaUrls (env ''INKCACHE_GATEWAY_URL''),
      sc_selfUrl = env ''INKCACHE_SELF_URL'',
      sc_autoPromote = (env ''INKCACHE_AUTO_PROMOTE'' = Some ''true''),
      sc_threshold = parsePositiveInt (env ''INKCACHE_AUTO_PROMOTE_THRESHOLD'') 3 None,
      sc_peerUrls = resolveReplicaUrls (env ''INKCACHE_PEER_URLS''),
      sc_candidateId = self_identity env\<rparr>"

definition listen_port :: "env \<Rightarrow> nat" where
  "listen_port env = parsePositiveInt (env ''INKCACHE_PORT'') 8080 (Some 65535)"

definition persist_interval_ms :: "env \<Rightarrow> nat" where
  "persist_interval_ms env = parsePositiveInt (env ''INKCACHE_PERSIST_INTERVAL'') 60 None * 1000"

definition monitor_interval_ms :: "env \<Rightarrow> nat" where
  "monitor_interval_ms env = parsePositiveInt (env ''INKCACHE_PRIMARY_MONITOR_INTERVAL'') 2000 None"

text \<open>\<open>app.listen\<close> throws for a port that is none; no value of the variables can make it.\<close>

lemma process_numbers: "0 < listen_port env \<and> listen_port env \<le> 65535 \<and> 0 < persist_interval_ms env \<and>
    0 < monitor_interval_ms env \<and> 0 < sc_threshold (read_server_config env)"
  by (simp add: listen_port_def persist_interval_ms_def monitor_interval_ms_def read_server_config_def
      parsePositiveInt_pos parsePositiveInt_le)

section \<open>Monitoring and campaigning\<close>

definition stop_monitor :: "primary_monitor list \<Rightarrow> primary_monitor list" where
  \<comment> \<open>\<open>primaryMonitorHandle?.stop()\<close>\<close>
  "stop_monitor ms = (if ms = [] then [] else butlast ms @ [pm_stop (last ms)])"

definition attachPrimaryMonitor :: "jsstring \<Rightarrow> server \<Rightarrow> server" where
  "attachPrimaryMonitor primaryUrl sv = sv\<lparr>sv_monitors := stop_monitor (sv_monitors sv) @ [startPrimaryMonitor primaryUrl]\<rparr>"

definition campaignForPrimary :: "server \<Rightarrow> server" where
  \<comment> \<open>up to the \<open>await\<close> of \<open>runElection\<close>\<close>
  "campaignForPrimary sv = (if sv_campaign sv \<noteq> None then sv
     else case campaign_begin (sv_role sv) of (nd, t) \<Rightarrow> sv\<lparr>sv_role := nd, sv_campaign := Some t\<rparr>)"

definition campaign_settled :: "server_config \<Rightarrow> bool list \<Rightarrow> server \<Rightarrow> server \<times> (jsstring \<times> json) list" where
  \<comment> \<open>the rest of \<open>campaignForPrimary\<close>, when every peer's vote is in; and the announcements sent\<close>
  "campaign_settled cfg grants sv = (case sv_campaign sv of
       None \<Rightarrow> (sv, [])
     | Some t \<Rightarrow>
         let result = election_result t grants;
             (nd, sent) = campaign_end (sc_peerUrls cfg) (sc_candidateId cfg) result (sv_role sv);
             promoted = (won result \<and> snd (promoteToPrimary (sc_peerUrls cfg) (sv_role sv)))
         in (sv\<lparr>sv_role := nd, sv_campaign := None,
               sv_monitors := (if promoted then stop_monitor (sv_monitors sv) else sv_monitors sv)\<rparr>, sent))"

definition on_failure :: "server_config \<Rightarrow> nat option \<Rightarrow> server \<Rightarrow> server" where
  \<comment> \<open>the callback \<open>attachPrimaryMonitor\<close> passes to its monitor, for the call it got, if any\<close>
  "on_failure cfg call sv = (case call of
       None \<Rightarrow> sv
     | Some failures \<Rightarrow> if \<not> sc_autoPromote cfg then sv
         else if failures < sc_threshold cfg then sv
         else campaignForPrimary sv)"

definition ping_answered :: "server_config \<Rightarrow> nat \<Rightarrow> nat option \<Rightarrow> server \<Rightarrow> server" where
  "ping_answered cfg i response sv =
     (if i < length (sv_monitors sv)
      then case pm_answer response (sv_monitors sv ! i) of
        (m, call) \<Rightarrow> on_failure cfg call (sv\<lparr>sv_monitors := (sv_monitors sv)[i := m]\<rparr>)
      else sv)"

definition timer_fired :: "nat \<Rightarrow> server \<Rightarrow> server" where
  "timer_fired i sv = (if i < length (sv_monitors sv)
     then sv\<lparr>sv_monitors := (sv_monitors sv)[i := pm_tick (sv_monitors sv ! i)]\<rparr> else sv)"

section \<open>A new leader\<close>

definition elected_url :: "json option \<Rightarrow> node_role \<Rightarrow> jsstring option" where
  \<comment> \<open>the argument of \<open>onLeaderElected\<close> when \<open>POST /election/leader\<close> calls it\<close>
  "elected_url body nd = (case (as_term (read_field ''term'' (nullish_to_obj body)),
       nonempty_string (read_field ''primaryUrl'' (nullish_to_obj body))) of
       (Some t, Some url) \<Rightarrow> if t < currentTerm (nr_election nd) then None else Some url
     | _ \<Rightarrow> None)"

definition leader_announced :: "json option \<Rightarrow> server \<Rightarrow> server" where
  \<comment> \<open>the handler and the hook of \<open>setOnLeaderElected\<close>; the pull it starts ends in \<open>snapshot_pulled\<close>\<close>
  "leader_announced body sv =
     (let sv' = sv\<lparr>sv_role := fst (post_leader body (sv_role sv))\<rparr>
      in case elected_url body (sv_role sv) of None \<Rightarrow> sv' | Some url \<Rightarrow> attachPrimaryMonitor url sv')"

definition snapshot_pulled :: "(nat \<Rightarrow> (time_ms \<times> snapshot_rows) option) \<Rightarrow> server \<Rightarrow> server" where
  \<comment> \<open>\<open>syncFromPrimary(store, primaryUrl, undefined, undefined, API_KEY)\<close>: five attempts\<close>
  "snapshot_pulled response sv = sv\<lparr>sv_store := fst (syncFromPrimary 5 response (sv_store sv))\<rparr>"

section \<open>The event loop\<close>

datatype server_event =
  Timer nat \<comment> \<open>the timer of the \<open>i\<close>-th monitor fires\<close>
  | Ping nat "nat option" \<comment> \<open>a ping of the \<open>i\<close>-th monitor settles\<close>
  | Votes "bool list" \<comment> \<open>the votes of the election in flight are in\<close>
  | VoteRequested "json option"
  | LeaderAnnounced "json option"
  | PromoteRequested "json option"
  | Pulled "nat \<Rightarrow> (time_ms \<times> snapshot_rows) option"

fun server_step :: "server_config \<Rightarrow> server \<Rightarrow> server_event \<Rightarrow> server" where
  "server_step cfg sv (Timer i) = timer_fired i sv"
| "server_step cfg sv (Ping i response) = ping_answered cfg i response sv"
| "server_step cfg sv (Votes grants) = fst (campaign_settled cfg grants sv)"
| "server_step cfg sv (VoteRequested body) = sv\<lparr>sv_role := fst (post_request_vote body (sv_role sv))\<rparr>"
| "server_step cfg sv (LeaderAnnounced body) = leader_announced body sv"
| "server_step cfg sv (PromoteRequested body) = sv\<lparr>sv_role := fst (post_promote body (sv_role sv))\<rparr>"
| "server_step cfg sv (Pulled response) = snapshot_pulled response sv"

definition server_run :: "server_config \<Rightarrow> server \<Rightarrow> server_event list \<Rightarrow> server" where
  "server_run cfg sv evs = foldl (server_step cfg) sv evs"

section \<open>Gateways\<close>

datatype announcement = Register | Deregister

definition announceToGateway :: "server_config \<Rightarrow> announcement \<Rightarrow> (jsstring \<times> jsstring \<times> json) list" where
  \<comment> \<open>the requests issued: method, URL and body\<close>
  "announceToGateway cfg op = (case truthy (sc_selfUrl cfg) of
       None \<Rightarrow> []
     | Some self \<Rightarrow> map (\<lambda>gatewayUrl. (case op of Register \<Rightarrow> ''POST'' | Deregister \<Rightarrow> ''DELETE'',
         gatewayUrl @ ''/cluster/nodes'', JObj [(''url'', JStr self)])) (sc_gatewayUrls cfg))"

definition announcement_warns :: "announcement \<Rightarrow> nat option \<Rightarrow> bool" where
  \<comment> \<open>whether the outcome of one request is logged as a warning; \<open>None\<close> is a network error\<close>
  "announcement_warns op status = (case status of
       None \<Rightarrow> True
     | Some s \<Rightarrow> \<not> (200 \<le> s \<and> s < 300) \<and> \<not> (op = Register \<and> s = 409))"

section \<open>Startup and shutdown\<close>

definition load_persisted :: "server_config \<Rightarrow> time_ms \<Rightarrow> filesystem \<Rightarrow> server \<Rightarrow> server option" where
  \<comment> \<open>\<open>None\<close>: \<open>loadSnapshot\<close> rejects, hence so does \<open>start\<close>, and the unhandled rejection ends the process\<close>
  "load_persisted cfg now fs sv = (case truthy (sc_persistPath cfg) of
       None \<Rightarrow> Some sv
     | Some path \<Rightarrow> (case loadSnapshot now (read_file path fs) (sv_store sv) of
           (store', Throws) \<Rightarrow> None
         | (store', _) \<Rightarrow> Some (sv\<lparr>sv_store := store', sv_autoPersist := True\<rparr>)))"

definition follow_primary :: "(nat \<Rightarrow> (time_ms \<times> snapshot_rows) option) \<Rightarrow> server \<Rightarrow> server" where
  "follow_primary response sv = (case (nr_role (sv_role sv), truthy (nr_primaryUrl (sv_role sv))) of
       (Replica, Some url) \<Rightarrow> attachPrimaryMonitor url (snapshot_pulled response sv)
     | _ \<Rightarrow> sv)"

definition start_server :: "server_config \<Rightarrow> time_ms \<Rightarrow> filesystem
    \<Rightarrow> (nat \<Rightarrow> (time_ms \<times> snapshot_rows) option) \<Rightarrow> server \<Rightarrow> server option" where
  \<comment> \<open>\<open>start\<close> up to \<open>app.listen\<close>; the announcement to the gateways follows\<close>
  "start_server cfg now fs response sv = (case load_persisted cfg now fs sv of
       None \<Rightarrow> None
     | Some sv1 \<Rightarrow> let sv2 = follow_primary response sv1
         in Some (sv2\<lparr>sv_store := startSweeper 5000 (sv_store sv2), sv_metrics := startHistory (sv_metrics sv2),
              sv_listening := True\<rparr>))"

section \<open>Invariants of the event loop\<close>

definition one_timer :: "server \<Rightarrow> bool" where
  \<comment> \<open>only the current monitor's timer can be running\<close>
  "one_timer sv \<longleftrightarrow> (\<forall>i. i + 1 < length (sv_monitors sv) \<longrightarrow> \<not> pm_timer (sv_monitors sv ! i))"

lemma stop_monitor_props [simp]:
  "length (stop_monitor ms) = length ms" "i < length ms \<Longrightarrow> pm_timer (stop_monitor ms ! i) \<longleftrightarrow> pm_timer (ms ! i) \<and> i + 1 < length ms"
  by (auto simp: stop_monitor_def nth_append nth_butlast pm_stop_def last_conv_nth less_Suc_eq
      split: if_splits dest: less_antisym) 

lemma pm_check_timer [simp]: "pm_timer (fst (pm_check ok m)) = pm_timer m"
  by (simp add: pm_check_def)

lemma pm_answer_timer [simp]: "pm_timer (fst (pm_answer r m)) = pm_timer m"
  by (simp add: pm_answer_def)

lemma pm_tick_timer [simp]: "pm_timer (pm_tick m) = pm_timer m"
  by (simp add: pm_tick_def)

lemma on_failure_monitors [simp]: "sv_monitors (on_failure cfg call sv) = sv_monitors sv"
  by (simp add: on_failure_def campaignForPrimary_def split: option.splits prod.splits)

lemma one_timer_update: "one_timer sv \<Longrightarrow> pm_timer m = pm_timer (sv_monitors sv ! i) \<Longrightarrow>
    one_timer (sv\<lparr>sv_monitors := (sv_monitors sv)[i := m]\<rparr>)"
  unfolding one_timer_def by (simp, metis nth_list_update_eq nth_list_update_neq Suc_lessD)

lemma one_timer_cong: "sv_monitors sv' = sv_monitors sv \<Longrightarrow> one_timer sv' = one_timer sv"
  by (simp add: one_timer_def)

lemma one_timer_attach: "one_timer sv \<Longrightarrow> one_timer (attachPrimaryMonitor url sv)"
  by (auto simp: one_timer_def attachPrimaryMonitor_def nth_append)

lemma step_one_timer: "one_timer sv \<Longrightarrow> one_timer (server_step cfg sv ev)"
proof (cases ev)
  case (Timer i)
  then show "one_timer sv \<Longrightarrow> ?thesis" by (simp add: timer_fired_def one_timer_update)
next
  case (Ping i r)
  then show "one_timer sv \<Longrightarrow> ?thesis"
    using one_timer_cong [OF on_failure_monitors] one_timer_update
    by (auto simp: ping_answered_def split: prod.splits) (metis fst_conv one_timer_update pm_answer_timer)
next
  case (Votes gs)
  then show "one_timer sv \<Longrightarrow> ?thesis"
    by (auto simp: campaign_settled_def one_timer_def Let_def split: option.splits prod.splits)
next
  case (LeaderAnnounced body)
  then show "one_timer sv \<Longrightarrow> ?thesis"
    using one_timer_cong [of "sv\<lparr>sv_role := fst (post_leader body (sv_role sv))\<rparr>" sv]
    by (auto simp: leader_announced_def Let_def one_timer_attach split: option.splits)
next
  case (VoteRequested body)
  then show "one_timer sv \<Longrightarrow> ?thesis" by (simp add: one_timer_def)
next
  case (PromoteRequested body)
  then show "one_timer sv \<Longrightarrow> ?thesis" by (simp add: one_timer_def)
next
  case (Pulled response)
  then show "one_timer sv \<Longrightarrow> ?thesis" by (simp add: one_timer_def snapshot_pulled_def)
qed

lemma run_one_timer: "one_timer sv \<Longrightarrow> one_timer (server_run cfg sv evs)"
  unfolding server_run_def by (induction evs arbitrary: sv) (simp_all add: step_one_timer)

definition is_check :: "server_event \<Rightarrow> bool" where
  "is_check ev \<longleftrightarrow> (case ev of Timer _ \<Rightarrow> True | Ping _ _ \<Rightarrow> True | _ \<Rightarrow> False)"

lemma check_step:
  assumes "is_check ev"
  shows "(sv_role (server_step cfg sv ev) = sv_role sv \<and> sv_campaign (server_step cfg sv ev) = sv_campaign sv) \<or>
    (sv_campaign sv = None \<and> sv_role (server_step cfg sv ev) = fst (campaign_begin (sv_role sv)) \<and>
     sv_campaign (server_step cfg sv ev) = Some (snd (campaign_begin (sv_role sv))))"
  using assms
  by (cases ev) (auto simp: is_check_def timer_fired_def ping_answered_def on_failure_def campaignForPrimary_def
      split: option.splits prod.splits)

lemma checks_run:
  assumes "\<forall>ev \<in> set evs. is_check ev"
  shows "(sv_role (server_run cfg sv evs) = sv_role sv \<and> sv_campaign (server_run cfg sv evs) = sv_campaign sv) \<or>
    (sv_campaign sv = None \<and> sv_role (server_run cfg sv evs) = fst (campaign_begin (sv_role sv)) \<and>
     sv_campaign (server_run cfg sv evs) = Some (snd (campaign_begin (sv_role sv))))"
  using assms
proof (induction evs arbitrary: sv)
  case Nil
  then show ?case by (simp add: server_run_def)
next
  case (Cons ev evs)
  have "server_run cfg sv (ev # evs) = server_run cfg (server_step cfg sv ev) evs" by (simp add: server_run_def)
  then show ?case using Cons.IH [of "server_step cfg sv ev"] Cons.prems check_step [of ev cfg sv] by auto
qed

section \<open>Properties\<close>

definition new_server :: "node_role \<Rightarrow> cache_store \<Rightarrow> metrics \<Rightarrow> server" where
  "new_server nd store m = \<lparr>sv_role = nd, sv_store = store, sv_metrics = m, sv_monitors = [], sv_campaign = None,
     sv_autoPersist = False, sv_listening = False\<rparr>"

text \<open>A node never polls two primaries and never has two campaigns in flight: in every state its
  event loop reaches from startup only the monitor attached last has a running timer; and
  from any state on, checks alone, however many fail, start at most one campaign, and none
  while the votes of an earlier one are still out.\<close>

lemma one_monitor_one_campaign:
  assumes "\<forall>ev \<in> set checks. is_check ev"
  shows "(\<forall>i. i + 1 < length (sv_monitors (server_run cfg (follow_primary response (new_server nd store m)) evs)) \<longrightarrow>
      \<not> pm_timer (sv_monitors (server_run cfg (follow_primary response (new_server nd store m)) evs) ! i)) \<and>
    sv_role (server_run cfg sv checks) \<in> {sv_role sv, fst (campaign_begin (sv_role sv))} \<and>
    (sv_campaign sv \<noteq> None \<longrightarrow> sv_role (server_run cfg sv checks) = sv_role sv)"
proof -
  have "one_timer (new_server nd store m)" by (simp add: one_timer_def new_server_def)
  then have "one_timer (follow_primary response (new_server nd store m))"
    using one_timer_cong [of "snapshot_pulled response (new_server nd store m)" "new_server nd store m"]
    by (auto simp: follow_primary_def snapshot_pulled_def one_timer_attach split: role.splits option.splits)
  from run_one_timer [OF this, of cfg evs] have "\<forall>i. i + 1 < length (sv_monitors (server_run cfg (follow_primary response (new_server nd store m)) evs)) \<longrightarrow>
      \<not> pm_timer (sv_monitors (server_run cfg (follow_primary response (new_server nd store m)) evs) ! i)"
    unfolding one_timer_def .
  then show ?thesis using checks_run [OF assms, of cfg sv] by auto
qed

definition demo_server_config :: server_config where
  "demo_server_config = \<lparr>sc_persistPath = Some ''s'', sc_gatewayUrls = [''http://g''], sc_selfUrl = Some ''http://b'',
     sc_autoPromote = True, sc_threshold = 2, sc_peerUrls = [''http://c''], sc_candidateId = ''http://b''\<rparr>"

definition demo_role :: "role \<Rightarrow> node_role" where
  "demo_role ro = \<lparr>nr_role = ro, nr_replicaUrls = [], nr_primaryUrl = Some ''http://a'', nr_election = new_election ''http://b''\<rparr>"

definition demo_server :: server where
  "demo_server = attachPrimaryMonitor ''http://a'' (new_server (demo_role Replica) (new_cache (small_opts LRU)) (new_metrics 0))"

lemma demo_server_simps [simp]:
  "sv_monitors demo_server = [startPrimaryMonitor ''http://a'']" "sv_role demo_server = demo_role Replica"
  "sv_campaign demo_server = None" "sc_autoPromote demo_server_config" "sc_threshold demo_server_config = 2"
  "sc_peerUrls demo_server_config = [''http://c'']" "sc_candidateId demo_server_config = ''http://b''"
  "nr_role (demo_role ro) = ro" "currentTerm (nr_election (demo_role ro)) = 0"
  by (simp_all add: demo_server_def attachPrimaryMonitor_def new_server_def stop_monitor_def demo_server_config_def
      demo_role_def new_election_def)

lemma one_monitor_one_campaign_witness:
  "sv_role (server_run demo_server_config demo_server [Timer 0, Ping 0 None, Timer 0, Ping 0 None, Ping 7 None])
     \<in> {demo_role Replica, fst (campaign_begin (demo_role Replica))}"
proof -
  have "\<forall>ev \<in> set [Timer 0, Ping 0 None, Timer 0, Ping 0 None, Ping 7 None]. is_check ev" by (simp add: is_check_def)
  from one_monitor_one_campaign [OF this, of demo_server_config _ _ _ _ _ demo_server] show ?thesis by simp
qed

definition failed_check :: "nat \<Rightarrow> server_event list" where
  "failed_check i = [Timer i, Ping i None]"

lemma failed_check_run:
  assumes "i < length (sv_monitors sv)" and "pm_timer (sv_monitors sv ! i)" and "pm_inFlight (sv_monitors sv ! i) = 0"
  shows "server_run cfg sv (failed_check i) = on_failure cfg (Some (pm_failures (sv_monitors sv ! i) + 1))
    (sv\<lparr>sv_monitors := (sv_monitors sv)[i := (sv_monitors sv ! i)\<lparr>pm_failures := pm_failures (sv_monitors sv ! i) + 1, pm_healthy := False\<rparr>]\<rparr>)"
  using assms by (cases "sv_monitors sv ! i")
    (simp add: server_run_def failed_check_def timer_fired_def ping_answered_def pm_tick_def pm_answer_def
      pm_check_def ping_ok_def)

lemma failed_checks_Suc: "concat (replicate (Suc n) (failed_check i)) = concat (replicate n (failed_check i)) @ failed_check i"
  by (induction n) simp_all

lemma server_run_append: "server_run cfg sv (xs @ ys) = server_run cfg (server_run cfg sv xs) ys"
  by (simp add: server_run_def)

lemma failed_checks_below:
  assumes "sv_monitors sv = [startPrimaryMonitor url]" and "n < sc_threshold cfg"
  shows "server_run cfg sv (concat (replicate n (failed_check 0))) =
    sv\<lparr>sv_monitors := [(startPrimaryMonitor url)\<lparr>pm_failures := n, pm_healthy := (n = 0)\<rparr>]\<rparr>"
  using assms(2)
proof (induction n)
  case 0
  then show ?case using assms(1) by (simp add: server_run_def startPrimaryMonitor_def)
next
  case (Suc n)
  let ?sv = "sv\<lparr>sv_monitors := [(startPrimaryMonitor url)\<lparr>pm_failures := n, pm_healthy := (n = 0)\<rparr>]\<rparr>"
  have "server_run cfg sv (concat (replicate (Suc n) (failed_check 0))) = server_run cfg ?sv (failed_check 0)"
    using Suc by (simp only: failed_checks_Suc server_run_append)
  also have "\<dots> = sv\<lparr>sv_monitors := [(startPrimaryMonitor url)\<lparr>pm_failures := Suc n, pm_healthy := False\<rparr>]\<rparr>"
    using failed_check_run [of 0 ?sv cfg] Suc.prems by (simp add: startPrimaryMonitor_def on_failure_def)
  finally show ?case by simp
qed

text \<open>C5: A replica whose primary is gone takes over, and not before the configured number of checks
  has failed: with automatic promotion on, fewer failed checks than the threshold start
  nothing; the one that reaches it starts a campaign in the next term; and when a majority
  grants its votes the node is a primary that forwards to its peers, has told every one of
  them, and polls the old primary no longer.\<close>

theorem dead_primary_is_replaced:
  assumes "sv_monitors sv = [startPrimaryMonitor url]" and "nr_role (sv_role sv) = Replica" and "sv_campaign sv = None"
    and "sc_autoPromote cfg" and "0 < sc_threshold cfg" and "currentTerm (nr_election (sv_role sv)) < 2 ^ 53"
    and "hasMajority (1 + length (filter (\<lambda>g. g) grants)) (length grants + 1)"
    and "sv1 = server_run cfg sv (concat (replicate (sc_threshold cfg) (failed_check 0)))"
    and "campaign_settled cfg grants sv1 = (sv2, sent)"
  shows "(\<forall>n < sc_threshold cfg. sv_role (server_run cfg sv (concat (replicate n (failed_check 0)))) = sv_role sv) \<and>
    sv_campaign sv1 = Some (currentTerm (nr_election (sv_role sv)) + 1) \<and> nr_role (sv_role sv1) = Replica \<and>
    nr_role (sv_role sv2) = Primary \<and> nr_replicaUrls (sv_role sv2) = sc_peerUrls cfg \<and> sv_campaign sv2 = None \<and>
    sent = announceLeader (sc_peerUrls cfg) (currentTerm (nr_election (sv_role sv)) + 1) (sc_candidateId cfg) \<and>
    \<not> pm_timer (sv_monitors sv2 ! 0)"
proof -
  obtain n where n: "sc_threshold cfg = Suc n" using assms(5) by (cases "sc_threshold cfg") auto
  let ?sv = "sv\<lparr>sv_monitors := [(startPrimaryMonitor url)\<lparr>pm_failures := n, pm_healthy := (n = 0)\<rparr>]\<rparr>"
  have below: "sv_role (server_run cfg sv (concat (replicate k (failed_check 0)))) = sv_role sv" if "k < sc_threshold cfg" for k
    using failed_checks_below [OF assms(1) that] by simp
  have "sv1 = server_run cfg ?sv (failed_check 0)"
    using failed_checks_below [OF assms(1), of n cfg] n assms(8) by (simp only: failed_checks_Suc server_run_append)
  also have "\<dots> = campaignForPrimary (sv\<lparr>sv_monitors := [(startPrimaryMonitor url)\<lparr>pm_failures := Suc n, pm_healthy := False\<rparr>]\<rparr>)"
    using failed_check_run [of 0 ?sv cfg] assms(4) n by (simp add: startPrimaryMonitor_def on_failure_def)
  finally have sv1: "sv1 = campaignForPrimary (sv\<lparr>sv_monitors := [(startPrimaryMonitor url)\<lparr>pm_failures := Suc n, pm_healthy := False\<rparr>]\<rparr>)" .
  have begun: "sv_campaign sv1 = Some (currentTerm (nr_election (sv_role sv)) + 1)" "nr_role (sv_role sv1) = Replica"
      "length (sv_monitors sv1) = 1"
    using assms(2,3,6) by (simp_all add: sv1 campaignForPrimary_def campaign_begin_def startElection_def js_succ_exact)
  have won: "won (election_result t grants)" for t using assms(7) by simp
  have "nr_role (sv_role sv2) = Primary \<and> nr_replicaUrls (sv_role sv2) = sc_peerUrls cfg \<and> sv_campaign sv2 = None \<and>
    sent = announceLeader (sc_peerUrls cfg) (currentTerm (nr_election (sv_role sv)) + 1) (sc_candidateId cfg) \<and>
    sv_monitors sv2 = stop_monitor (sv_monitors sv1)"
    using assms(9) begun won by (auto simp: campaign_settled_def campaign_end_def promoteToPrimary_def Let_def)
  then show ?thesis using below begun stop_monitor_props(2) [of 0 "sv_monitors sv1"] by simp
qed

theorem dead_primary_is_replaced_witness:
  "nr_role (sv_role (fst (campaign_settled demo_server_config [True]
     (server_run demo_server_config demo_server (concat (replicate 2 (failed_check 0))))))) = Primary"
proof -
  obtain sv2 sent where s: "campaign_settled demo_server_config [True]
      (server_run demo_server_config demo_server (concat (replicate 2 (failed_check 0)))) = (sv2, sent)" by fastforce
  have "server_run demo_server_config demo_server (concat (replicate 2 (failed_check 0))) =
      server_run demo_server_config demo_server (concat (replicate (sc_threshold demo_server_config) (failed_check 0)))" by simp
  from dead_primary_is_replaced [OF _ _ _ _ _ _ _ this s] show ?thesis by (simp add: s hasMajority_iff)
qed

text \<open>Stopping a monitor does not stop its last check: when a node whose old monitor is one failure
  short of the threshold adopts a newly elected leader while a check of the old primary is
  in flight, the failure of that check starts a campaign against the new leader - which the
  node follows, has never found unhealthy and may win the election against.\<close>

lemma stale_check_campaigns_against_new_leader:
  assumes "sc_autoPromote cfg" and "sv_campaign sv = None" and "sv_monitors sv = ms @ [old]" and "0 < pm_inFlight old"
    and "sc_threshold cfg \<le> pm_failures old + 1" and "elected_url body (sv_role sv) = Some url"
    and "sv1 = server_run cfg sv [LeaderAnnounced body, Ping (length ms) None]"
    and "currentTerm (nr_election (fst (post_leader body (sv_role sv)))) < 2 ^ 53"
    and "hasMajority (1 + length (filter (\<lambda>g. g) grants)) (length grants + 1)"
  shows "nr_primaryUrl (sv_role sv1) = Some url \<and> sv_monitors sv1 ! Suc (length ms) = startPrimaryMonitor url \<and>
    sv_campaign sv1 = Some (currentTerm (nr_election (fst (post_leader body (sv_role sv)))) + 1) \<and>
    nr_role (sv_role (server_step cfg sv1 (Votes grants))) = Primary"
proof -
  let ?nd = "fst (post_leader body (sv_role sv))"
  have nd: "nr_primaryUrl ?nd = Some url" "nr_role ?nd = Replica"
    using assms(6) by (auto simp: elected_url_def post_leader_def adopt_leader_def Let_def split: option.splits if_splits)
  have "sv1 = campaignForPrimary (sv\<lparr>sv_role := ?nd,
      sv_monitors := ms @ [(pm_stop old)\<lparr>pm_inFlight := pm_inFlight old - 1, pm_failures := pm_failures old + 1, pm_healthy := False\<rparr>,
        startPrimaryMonitor url]\<rparr>)"
    using assms(1-7) by (simp add: server_run_def leader_announced_def attachPrimaryMonitor_def stop_monitor_def
        ping_answered_def nth_append pm_answer_def pm_check_def ping_ok_def pm_stop_def on_failure_def list_update_append)
  then have sv1: "sv_role sv1 = fst (campaign_begin ?nd)" "sv_campaign sv1 = Some (snd (campaign_begin ?nd))"
      "sv_monitors sv1 ! Suc (length ms) = startPrimaryMonitor url"
    using assms(2) by (simp_all add: campaignForPrimary_def nth_append split: prod.splits)
  have won: "won (election_result t grants)" for t using assms(9) by simp
  have "nr_role (sv_role (server_step cfg sv1 (Votes grants))) = Primary"
    using sv1(2) won by (simp add: campaign_settled_def campaign_end_def promoteToPrimary_def Let_def split: prod.splits)
  then show ?thesis using sv1 nd assms(8) by (simp add: campaign_begin_def startElection_def js_succ_exact)
qed

lemma stale_check_campaigns_against_new_leader_witness:
  "nr_role (sv_role (server_step demo_server_config
     (server_run demo_server_config (demo_server\<lparr>sv_monitors := [] @ [(startPrimaryMonitor ''http://a'')\<lparr>pm_failures := 1, pm_inFlight := 1\<rparr>]\<rparr>)
       [LeaderAnnounced (Some (JObj [(''term'', json_nat 1), (''primaryUrl'', JStr ''http://c'')])), Ping (length ([] :: primary_monitor list)) None])
     (Votes [True]))) = Primary"
proof -
  let ?b = "Some (JObj [(''term'', json_nat 1), (''primaryUrl'', JStr ''http://c'')])"
  have "elected_url ?b (demo_role Replica) = Some ''http://c''"
    by (simp add: elected_url_def nullish_to_obj_def)
  moreover have "currentTerm (nr_election (fst (post_leader ?b (demo_role Replica)))) < 2 ^ 53"
    by (simp add: post_leader_def nullish_to_obj_def adopt_leader_def Let_def observeTerm_def)
  ultimately show ?thesis
    using stale_check_campaigns_against_new_leader [of demo_server_config
      "demo_server\<lparr>sv_monitors := [] @ [(startPrimaryMonitor ''http://a'')\<lparr>pm_failures := 1, pm_inFlight := 1\<rparr>]\<rparr>" "[]" _ ?b "''http://c''" _ "[True]",
      OF _ _ _ _ _ _ refl]
    by (simp add: hasMajority_iff)
qed

lemma promote_request_monitors:
  "sv_monitors (server_step cfg sv (PromoteRequested body)) = sv_monitors sv"
  "sv_campaign (server_step cfg sv (PromoteRequested body)) = sv_campaign sv"
  by simp_all

definition campaign_round :: "bool list \<Rightarrow> server_event list" where
  \<comment> \<open>a failed check and the votes of the campaign it starts\<close>
  "campaign_round grants = failed_check 0 @ [Votes grants]"

lemma primary_campaign_round:
  assumes "sc_autoPromote cfg" and "sv_monitors sv = [m]" and "pm_timer m" and "pm_inFlight m = 0" and "sc_threshold cfg \<le> pm_failures m + 1"
    and "nr_role (sv_role sv) = Primary" and "sv_campaign sv = None" and "currentTerm (nr_election (sv_role sv)) < 2 ^ 53"
    and "sv1 = server_run cfg sv (campaign_round grants)"
  shows "nr_role (sv_role sv1) = Primary" and "currentTerm (nr_election (sv_role sv1)) = currentTerm (nr_election (sv_role sv)) + 1"
    and "sv_monitors sv1 = [m\<lparr>pm_failures := pm_failures m + 1, pm_healthy := False\<rparr>]" and "sv_campaign sv1 = None"
proof -
  let ?sv = "sv\<lparr>sv_monitors := [m\<lparr>pm_failures := pm_failures m + 1, pm_healthy := False\<rparr>]\<rparr>"
  have "server_run cfg sv (failed_check 0) = campaignForPrimary ?sv"
    using failed_check_run [of 0 sv cfg] assms by (simp add: on_failure_def)
  then have sv1: "sv1 = fst (campaign_settled cfg grants (campaignForPrimary ?sv))"
    using assms(9) by (simp add: campaign_round_def server_run_append) (simp add: server_run_def)
  then show "nr_role (sv_role sv1) = Primary" "currentTerm (nr_election (sv_role sv1)) = currentTerm (nr_election (sv_role sv)) + 1"
      "sv_monitors sv1 = [m\<lparr>pm_failures := pm_failures m + 1, pm_healthy := False\<rparr>]" "sv_campaign sv1 = None"
    using assms(6-8) by (auto simp: campaignForPrimary_def campaign_begin_def startElection_def js_succ_exact campaign_settled_def
        campaign_end_def promoteToPrimary_def Let_def)
qed

text \<open>A manual promotion does not end the campaigning: a replica that is made primary by
  \<open>POST /promote\<close> while its old primary fails its checks keeps its monitor, and every further
  failed check is another election in yet another term - however the votes fall - although
  it is the primary and has nothing to win.\<close>

lemma promoted_node_keeps_campaigning:
  assumes "sc_autoPromote cfg" and "sv_monitors sv = [m]" and "pm_timer m" and "pm_inFlight m = 0" and "sc_threshold cfg \<le> pm_failures m + 1"
    and "sv_campaign sv = None" and "nr_role (sv_role (server_step cfg sv (PromoteRequested body))) = Primary"
    and "currentTerm (nr_election (sv_role sv)) + length tallies < 2 ^ 53"
    and "sv1 = server_run cfg sv (PromoteRequested body # concat (map campaign_round tallies))"
  shows "nr_role (sv_role sv1) = Primary \<and> currentTerm (nr_election (sv_role sv1)) = currentTerm (nr_election (sv_role sv)) + length tallies \<and>
    pm_timer (sv_monitors sv1 ! 0)"
proof -
  have rounds: "nr_role (sv_role (server_run cfg s (concat (map campaign_round tallies)))) = Primary \<and>
      currentTerm (nr_election (sv_role (server_run cfg s (concat (map campaign_round tallies))))) = currentTerm (nr_election (sv_role s)) + length tallies \<and>
      pm_timer (sv_monitors (server_run cfg s (concat (map campaign_round tallies))) ! 0)"
    if "sv_monitors s = [m]" "pm_timer m" "pm_inFlight m = 0" "sc_threshold cfg \<le> pm_failures m + 1" "nr_role (sv_role s) = Primary"
      "sv_campaign s = None" "currentTerm (nr_election (sv_role s)) + length tallies < 2 ^ 53" for s m
    using that
  proof (induction tallies arbitrary: s m)
    case Nil
    then show ?case by (simp add: server_run_def)
  next
    case (Cons grants tallies)
    let ?s = "server_run cfg s (campaign_round grants)"
    have "currentTerm (nr_election (sv_role s)) < 2 ^ 53" using Cons.prems(7) by simp
    note r = primary_campaign_round [OF assms(1) Cons.prems(1-6) this refl, of grants]
    show ?case
      using Cons.IH [of ?s "m\<lparr>pm_failures := pm_failures m + 1, pm_healthy := False\<rparr>"] Cons.prems r
      by (simp add: server_run_append)
  qed
  let ?s = "server_step cfg sv (PromoteRequested body)"
  have "server_run cfg sv (PromoteRequested body # evs) = server_run cfg ?s evs" for evs by (simp add: server_run_def)
  moreover have "sv_role ?s = fst (post_promote body (sv_role sv))" by simp
  then have "currentTerm (nr_election (sv_role ?s)) = currentTerm (nr_election (sv_role sv))" by simp
  ultimately show ?thesis
    using rounds [of ?s m] assms by (simp del: server_step.simps add: promote_request_monitors)
qed

lemma promoted_node_keeps_campaigning_witness:
  "currentTerm (nr_election (sv_role (server_run demo_server_config
     (demo_server\<lparr>sv_monitors := [(startPrimaryMonitor ''http://a'')\<lparr>pm_failures := 1\<rparr>]\<rparr>)
     (PromoteRequested None # concat (map campaign_round [[True], [False], [True]]))))) = 3"
  using promoted_node_keeps_campaigning [of demo_server_config
      "demo_server\<lparr>sv_monitors := [(startPrimaryMonitor ''http://a'')\<lparr>pm_failures := 1\<rparr>]\<rparr>" _ None "[[True], [False], [True]]",
      OF _ _ _ _ _ _ _ _ refl]
  by (simp add: startPrimaryMonitor_def post_promote_def promote_node_def promoteToPrimary_def nullish_to_obj_def)

text \<open>C29: Startup ends in a listening node with its sweeper and its metrics history running -
  whatever the primary answers, and with its primary monitored exactly when it is a replica
  that has one -, unless a persistence file is configured whose content makes its loading
  throw: the JSON text \<open>null\<close>, or a \<open>keys\<close> array with a well-formed row whose \<open>ttl\<close> has no
  primitive value (an object with its own \<open>toString\<close>, say). Then, and only then, the
  process ends instead of starting.\<close>

theorem start_outcomes:
  "case start_server cfg now fs response (new_server nd store m) of
     None \<Rightarrow> \<exists>path. truthy (sc_persistPath cfg) = Some path \<and> unloadable (read_file path fs)
   | Some sv \<Rightarrow> sv_listening sv \<and> sweepTimer (sv_store sv) = Some 5000 \<and> historyTimer (sv_metrics sv) \<and>
       (\<forall>path. truthy (sc_persistPath cfg) = Some path \<longrightarrow> \<not> unloadable (read_file path fs)) \<and>
       map pm_url (sv_monitors sv) = (case (nr_role nd, truthy (nr_primaryUrl nd)) of (Replica, Some url) \<Rightarrow> [url] | _ \<Rightarrow> [])"
proof -
  have follow: "map pm_url (sv_monitors (follow_primary response sv)) =
      (case (nr_role nd, truthy (nr_primaryUrl nd)) of (Replica, Some url) \<Rightarrow> [url] | _ \<Rightarrow> [])"
    if "sv_role sv = nd" "sv_monitors sv = []" for sv
    using that by (auto simp: follow_primary_def attachPrimaryMonitor_def snapshot_pulled_def stop_monitor_def startPrimaryMonitor_def
        split: role.splits option.splits)
  show ?thesis
  proof (cases "truthy (sc_persistPath cfg)")
    case None
    then show ?thesis using follow [of "new_server nd store m"]
      by (simp add: start_server_def load_persisted_def Let_def startSweeper_def startHistory_def new_server_def)
  next
    case (Some path)
    obtain s out where l: "loadSnapshot now (read_file path fs) store = (s, out)" by fastforce
    then have t: "out = Throws \<longleftrightarrow> unloadable (read_file path fs)" using loadSnapshot_throws [of now "read_file path fs" store] by simp
    show ?thesis using Some l t follow [of "(new_server nd store m)\<lparr>sv_store := s, sv_autoPersist := True\<rparr>"]
      by (cases out) (simp_all add: start_server_def load_persisted_def Let_def startSweeper_def startHistory_def new_server_def)
  qed
qed

theorem start_outcomes_witness:
  "start_server demo_server_config 0 demo_fs (\<lambda>_. None) (new_server (demo_role Primary) (new_cache (small_opts LRU)) (new_metrics 0)) = None"
proof (cases "start_server demo_server_config 0 demo_fs (\<lambda>_. None) (new_server (demo_role Primary) (new_cache (small_opts LRU)) (new_metrics 0))")
  case (Some sv)
  have "truthy (sc_persistPath demo_server_config) = Some ''s''" by (simp add: demo_server_config_def truthy_def)
  moreover have "unloadable (read_file ''s'' demo_fs)" by (simp add: unloadable_def read_file_def demo_fs_def)
  ultimately show ?thesis
    using start_outcomes [where cfg = demo_server_config and now = 0 and fs = demo_fs and response = "\<lambda>_. None"
        and nd = "demo_role Primary" and store = "new_cache (small_opts LRU)" and m = "new_metrics 0"] Some
    by simp
qed

lemma sweeper_timer_visible [simp]: "visible t (startSweeper i s) = visible t s" "visible t (stopSweeper s) = visible t s"
  by (simp_all add: visible_def fun_eq_iff startSweeper_def stopSweeper_def)

lemma stopSweeper_export: "snd (exportEntries now (stopSweeper s)) = snd (exportEntries now s)"
  by (simp add: exportEntries_def stopSweeper_def Let_def split: prod.splits)

lemma load_rows_keeps:
  assumes "cache_ok s" and "card (stored_keys s \<union> fst ` set rows) \<le> maxEntries s" and "now \<le> t" and "k \<notin> fst ` set rows"
  shows "visible t (load_rows now rows s) k = visible t s k"
  using assms
proof (induction rows arbitrary: s)
  case Nil
  then show ?case by simp
next
  case (Cons row rows)
  obtain x v ttl where row: "row = (x, v, ttl)" by (cases row)
  let ?s = "cache_set now x v ttl s"
  have ok: "cache_ok ?s" "maxEntries ?s = maxEntries s" "stored_keys ?s \<subseteq> insert x (stored_keys s)"
    using Cons.prems(1) by (simp_all add: cache_set_ok kept_maxEntries stored_cache_set)
  have fin: "finite (stored_keys s \<union> fst ` set (row # rows))" by (simp add: stored_keys_def)
  have "card (stored_keys ?s \<union> fst ` set rows) \<le> card (stored_keys s \<union> fst ` set (row # rows))"
    using ok(3) row by (intro card_mono [OF fin]) auto
  moreover have "card (insert x (stored_keys s)) \<le> card (stored_keys s \<union> fst ` set (row # rows))"
    using row by (intro card_mono [OF fin]) auto
  ultimately have room: "card (stored_keys ?s \<union> fst ` set rows) \<le> maxEntries ?s" "card (insert x (stored_keys s)) \<le> maxEntries s"
    using Cons.prems(2) ok(2) by simp_all
  have "visible t ?s k = visible t s k"
    using kv.put_view [OF Cons.prems(1) room(2) Cons.prems(3), of v ttl] Cons.prems(4) row by simp
  then show ?case using Cons.IH [OF ok(1) room(1) Cons.prems(3)] Cons.prems(4) row by simp
qed

text \<open>Re-synchronising with a new leader does not remove anything: a key that the leader does not
  have - deleted there while this node followed someone else - stays readable here, with its
  old value, although the node now follows that leader; the pull only adds and overwrites.\<close>

lemma resync_keeps_deleted_keys:
  assumes "cache_ok (sv_store sv)" and "response 1 = Some (now, rows)"
    and "card (stored_keys (sv_store sv) \<union> fst ` set rows) \<le> maxEntries (sv_store sv)"
    and "elected_url body (sv_role sv) = Some url" and "k \<notin> fst ` set rows" and "now \<le> t"
    and "sv1 = server_run cfg sv [LeaderAnnounced body, Pulled response]"
  shows "nr_role (sv_role sv1) = Replica \<and> nr_primaryUrl (sv_role sv1) = Some url \<and>
    visible t (sv_store sv1) k = visible t (sv_store sv) k"
proof -
  have nd: "nr_primaryUrl (fst (post_leader body (sv_role sv))) = Some url" "nr_role (fst (post_leader body (sv_role sv))) = Replica"
    using assms(4) by (auto simp: elected_url_def post_leader_def adopt_leader_def Let_def split: option.splits if_splits)
  have "fst (syncFromPrimary 5 response (sv_store sv)) = load_rows now rows (sv_store sv)"
    using assms(2) by (simp add: syncFromPrimary_def eval_nat_numeral)
  then have "sv_store sv1 = load_rows now rows (sv_store sv)" "sv_role sv1 = fst (post_leader body (sv_role sv))"
    using assms(4,7) by (simp_all add: server_run_def leader_announced_def attachPrimaryMonitor_def snapshot_pulled_def)
  then show ?thesis using nd load_rows_keeps [OF assms(1,3,6,5)] by simp
qed

lemma resync_keeps_deleted_keys_witness:
  "visible 9 (sv_store (server_run demo_server_config (demo_server\<lparr>sv_store := cache_set 1 ''k'' ''v'' None (new_cache (small_opts LRU))\<rparr>)
     [LeaderAnnounced (Some (JObj [(''term'', json_nat 1), (''primaryUrl'', JStr ''http://c'')])), Pulled (\<lambda>_. Some (5, []))])) ''k''
   = Some (''v'', None)"
proof -
  let ?s = "cache_set 1 ''k'' ''v'' None (new_cache (small_opts LRU))"
  let ?b = "Some (JObj [(''term'', json_nat 1), (''primaryUrl'', JStr ''http://c'')])"
  have ok: "cache_ok (new_cache (small_opts LRU))" "entries (new_cache (small_opts LRU)) = []" "maxEntries (new_cache (small_opts LRU)) = 2"
    by (rule new_cache_ok; simp add: small_opts_def) (simp_all add: new_cache_def small_opts_def)
  have s: "cache_ok ?s" "maxEntries ?s = 2" using ok by (simp_all add: cache_set_ok kept_maxEntries)
  have "stored_keys ?s \<subseteq> {''k''}" using stored_cache_set [OF ok(1), of 1 "''k''" "''v''" None] ok(2) by (simp add: stored_keys_def jm_keys_def)
  then have "card (stored_keys ?s \<union> fst ` set []) \<le> maxEntries ?s" using card_mono [of "{''k''}" "stored_keys ?s"] s(2) by simp
  then have "visible 9 (sv_store (server_run demo_server_config (demo_server\<lparr>sv_store := ?s\<rparr>) [LeaderAnnounced ?b, Pulled (\<lambda>_. Some (5, []))])) ''k''
      = visible 9 (sv_store (demo_server\<lparr>sv_store := ?s\<rparr>)) ''k''"
    using resync_keeps_deleted_keys [of "demo_server\<lparr>sv_store := ?s\<rparr>" "\<lambda>_. Some (5, [])" 5 "[]" ?b "''http://c''" "''k''" 9, OF _ _ _ _ _ _ refl] s(1)
    by (simp add: elected_url_def nullish_to_obj_def)
  also have "\<dots> = Some (''v'', None)"
    using kv.put_view [of "new_cache (small_opts LRU)" "''k''" 1 9 "''v''" None] ok
    by (simp add: stored_keys_def jm_keys_def deadline_def not_due_def)
  finally show ?thesis .
qed

end
