(* ===== verification/RateLimit.thy ===== *)
theory RateLimit
  imports JsMap JsNum
begin

text \<open>
  \<open>src/network/rate-limit.ts\<close>: the fixed-window limiter. One request is one step; the clock
  and the client's address are inputs.
\<close>

section \<open>State and operations\<close>

record bucket =
  bk_count :: nat
  bk_resetAt :: time_ms

record rate_limiter =
  rl_limit :: nat
  rl_windowMs :: nat
  rl_maxTrackedClients :: nat
  rl_buckets :: "(jsstring, bucket) jsmap"

datatype verdict = Pass | Reject int \<comment> \<open>429 with this \<open>Retry-After\<close>\<close>

definition DEFAULT_MAX_TRACKED_CLIENTS :: nat where
  "DEFAULT_MAX_TRACKED_CLIENTS = 10000"

definition RATE_EXEMPT_PATHS :: "jsstring list" where
  "RATE_EXEMPT_PATHS = [''/health'']"

definition createRateLimiter :: "nat \<Rightarrow> nat \<Rightarrow> nat option \<Rightarrow> rate_limiter" where
  "createRateLimiter limit windowMs cap = \<lparr>rl_limit = limit, rl_windowMs = windowMs,
     rl_maxTrackedClients = (case cap of None \<Rightarrow> DEFAULT_MAX_TRACKED_CLIENTS | Some n \<Rightarrow> n), rl_buckets = []\<rparr>"

definition client_key :: "jsstring option \<Rightarrow> jsstring" where
  "client_key ip = (case ip of None \<Rightarrow> ''unknown'' | Some a \<Rightarrow> a)"

definition evict_client :: "nat \<Rightarrow> (jsstring, bucket) jsmap \<Rightarrow> (jsstring, bucket) jsmap" where
  "evict_client cap m = (if cap \<le> jm_size m then (case m of [] \<Rightarrow> m | (oldest, _) # _ \<Rightarrow> jm_delete oldest m) else m)"

definition open_bucket :: "time_ms \<Rightarrow> jsstring \<Rightarrow> rate_limiter \<Rightarrow> (jsstring, bucket) jsmap \<times> bucket" where
  \<comment> \<open>the map and the client's bucket before \<open>bucket.count++\<close>\<close>
  "open_bucket now key rl = (let fresh = \<lparr>bk_count = 0, bk_resetAt = now + int (rl_windowMs rl)\<rparr> in
     case jm_get (rl_buckets rl) key of
       None \<Rightarrow> (jm_set key fresh (evict_client (rl_maxTrackedClients rl) (rl_buckets rl)), fresh)
     | Some b \<Rightarrow> if bk_resetAt b \<le> now then (jm_set key fresh (rl_buckets rl), fresh) else (rl_buckets rl, b))"

definition limit_request :: "time_ms \<Rightarrow> jsstring \<Rightarrow> jsstring option \<Rightarrow> rate_limiter \<Rightarrow> rate_limiter \<times> verdict" where
  "limit_request now path ip rl =
     (if path \<in> set RATE_EXEMPT_PATHS then (rl, Pass)
      else let (m, b) = open_bucket now (client_key ip) rl;
               b' = b\<lparr>bk_count := bk_count b + 1\<rparr>;
               rl' = rl\<lparr>rl_buckets := jm_set (client_key ip) b' m\<rparr>
        in if rl_limit rl < bk_count b'
           then (rl', Reject \<lceil>of_int (bk_resetAt b' - now) / (1000 :: rat)\<rceil>)
           else (rl', Pass))"

section \<open>Runs\<close>

type_synonym request = "time_ms \<times> jsstring \<times> jsstring option"

fun limit_run :: "rate_limiter \<Rightarrow> request list \<Rightarrow> rate_limiter" where
  "limit_run rl [] = rl"
| "limit_run rl ((now, path, ip) # reqs) = limit_run (fst (limit_request now path ip rl)) reqs"

fun admitted :: "jsstring \<Rightarrow> rate_limiter \<Rightarrow> request list \<Rightarrow> time_ms list" where
  \<comment> \<open>when requests of a client to limited paths were let through\<close>
  "admitted key rl [] = []"
| "admitted key rl ((now, path, ip) # reqs) =
     (case limit_request now path ip rl of (rl', v) \<Rightarrow>
       (if client_key ip = key \<and> path \<notin> set RATE_EXEMPT_PATHS \<and> v = Pass then [now] else []) @ admitted key rl' reqs)"

definition clients :: "request list \<Rightarrow> jsstring set" where
  "clients reqs = (\<lambda>(_, _, ip). client_key ip) ` set reqs"

section \<open>The table stays bounded\<close>

definition limiter_ok :: "rate_limiter \<Rightarrow> bool" where
  "limiter_ok rl \<longleftrightarrow> 0 < rl_maxTrackedClients rl \<and> jm_wf (rl_buckets rl) \<and> jm_size (rl_buckets rl) \<le> rl_maxTrackedClients rl"

lemma limit_request_settings [simp]:
  "rl_limit (fst (limit_request now path ip rl)) = rl_limit rl"
  "rl_windowMs (fst (limit_request now path ip rl)) = rl_windowMs rl"
  "rl_maxTrackedClients (fst (limit_request now path ip rl)) = rl_maxTrackedClients rl"
  by (simp_all add: limit_request_def Let_def split: prod.splits)

lemma evict_client_room:
  assumes "jm_wf m" and "jm_size m \<le> cap" and "0 < cap"
  shows "jm_wf (evict_client cap m)" and "jm_size (evict_client cap m) < cap"
proof -
  show "jm_wf (evict_client cap m)" using assms(1) by (auto simp: evict_client_def inv_intros split: list.splits)
  show "jm_size (evict_client cap m) < cap"
  proof (cases "cap \<le> jm_size m")
    case True
    with assms(3) obtain k v rest where m: "m = (k, v) # rest" by (cases m) (auto simp: jm_size_def)
    then have "Suc (jm_size (jm_delete k m)) = jm_size m"
      using jm.length_remove_present [OF assms(1), of k] by (simp add: jm_size_keys) (simp add: jm_keys_def)
    with True m assms(2) show ?thesis by (simp add: evict_client_def)
  qed (simp add: evict_client_def)
qed

lemma open_bucket_ok:
  assumes "limiter_ok rl" and "open_bucket now key rl = (m, b)"
  shows "jm_wf m \<and> jm_size m \<le> rl_maxTrackedClients rl \<and> jm_get m key = Some b"
proof (cases "jm_get (rl_buckets rl) key")
  case None
  have wf: "jm_wf (rl_buckets rl)" "jm_size (rl_buckets rl) \<le> rl_maxTrackedClients rl" "0 < rl_maxTrackedClients rl"
    using assms(1) by (simp_all add: limiter_ok_def)
  from evict_client_room [OF this] None assms(2) show ?thesis
    by (auto simp: open_bucket_def Let_def inv_intros jm_get_set jm_size_keys jm_keys_set)
next
  case (Some b')
  then have "key \<in> set (jm_keys (rl_buckets rl))" using jm_get_None [of "rl_buckets rl" key] by auto
  with Some assms show ?thesis
    by (auto simp: open_bucket_def Let_def limiter_ok_def inv_intros jm_get_set jm_size_keys jm_keys_set split: if_splits)
qed

lemma limit_request_ok [inv_intros]:
  assumes "limiter_ok rl"
  shows "limiter_ok (fst (limit_request now path ip rl))"
proof (cases "path \<in> set RATE_EXEMPT_PATHS")
  case True
  with assms show ?thesis by (simp add: limit_request_def)
next
  case False
  obtain m b where mb: "open_bucket now (client_key ip) rl = (m, b)" by (cases "open_bucket now (client_key ip) rl")
  note ok = open_bucket_ok [OF assms mb]
  then have "client_key ip \<in> set (jm_keys m)" using jm_get_None [of m "client_key ip"] by auto
  with ok assms False mb show ?thesis
    by (auto simp: limit_request_def Let_def limiter_ok_def inv_intros jm_size_keys jm_keys_set)
qed

lemma limit_run_ok: "limiter_ok rl \<Longrightarrow> limiter_ok (limit_run rl reqs)"
  by (induction rl reqs rule: limit_run.induct) (auto simp: inv_intros)

section \<open>The budget of one client\<close>

definition between :: "time_ms \<Rightarrow> time_ms \<Rightarrow> time_ms list \<Rightarrow> nat" where
  "between t u ts = length (filter (\<lambda>x. t \<le> x \<and> x < u) ts)"

lemma between_snoc: "between t u (ts @ [x]) = between t u ts + (if t \<le> x \<and> x < u then 1 else 0)"
  by (simp add: between_def)

lemma between_mono: "t' \<le> t \<Longrightarrow> u \<le> u' \<Longrightarrow> between t u ts \<le> between t' u' ts"
  unfolding between_def by (induction ts) auto

lemma between_split: "between t v ts \<le> between t u ts + between u v ts"
  unfolding between_def by (induction ts) auto

definition budget_inv :: "nat \<Rightarrow> nat \<Rightarrow> bucket option \<Rightarrow> time_ms list \<Rightarrow> bool" where
  \<comment> \<open>\<open>A\<close> are the admissions of the client so far; its current window is \<open>[s, s + w)\<close>\<close>
  "budget_inv limit w b A \<longleftrightarrow> (case b of
       None \<Rightarrow> A = []
     | Some b \<Rightarrow> let r = bk_resetAt b; s = r - int w in
         (\<forall>x \<in> set A. x < r) \<and> between s r A = min (bk_count b) limit \<and>
         (\<forall>t > s - int w. between t s A \<le> limit) \<and>
         (\<forall>t. between t (t + int w) A \<le> 2 * limit))"

definition bucket_step :: "nat \<Rightarrow> nat \<Rightarrow> time_ms \<Rightarrow> bucket option \<Rightarrow> bucket" where
  "bucket_step limit w now b = (case b of
       None \<Rightarrow> \<lparr>bk_count = 1, bk_resetAt = now + int w\<rparr>
     | Some b \<Rightarrow> if bk_resetAt b \<le> now then \<lparr>bk_count = 1, bk_resetAt = now + int w\<rparr>
         else b\<lparr>bk_count := bk_count b + 1\<rparr>)"

lemma between_none: "\<forall>x \<in> set A. x < t \<Longrightarrow> between t u A = 0"
  unfolding between_def by (auto simp: filter_empty_conv)

lemma budget_fresh:
  assumes "0 < w" and "\<forall>x \<in> set A. x < now" and "\<forall>t > now - int w. between t now A \<le> limit"
    and "\<forall>t. between t (t + int w) A \<le> 2 * limit" and "A' = (if 1 \<le> limit then A @ [now] else A)"
  shows "budget_inv limit w (Some \<lparr>bk_count = 1, bk_resetAt = now + int w\<rparr>) A'"
proof -
  have cur: "between now (now + int w) A = 0" using assms(2) by (rule between_none)
  have older: "between t now (A @ [now]) = between t now A" for t by (simp add: between_snoc)
  have all: "between t (t + int w) (A @ [now]) \<le> 2 * limit" if "1 \<le> limit" for t
  proof (cases "t \<le> now \<and> now < t + int w")
    case True
    then have "between t (t + int w) A \<le> between t now A + between now (t + int w) A" by (intro between_split)
    moreover have "between now (t + int w) A = 0" using assms(2) by (rule between_none)
    moreover have "between t now A \<le> limit" using assms(3) True by auto
    ultimately show ?thesis using True that by (simp add: between_snoc)
  next
    case False
    then show ?thesis using assms(4) by (auto simp: between_snoc)
  qed
  have lt: "\<forall>x \<in> set A. x < now + int w" using assms(1,2) by fastforce
  show ?thesis
    using assms(1,3,4,5) cur older all lt by (auto simp: budget_inv_def Let_def between_snoc)
qed

lemma budget_same_window:
  assumes "budget_inv limit w (Some b) A" and "now < bk_resetAt b" and "bk_resetAt b - int w \<le> now"
    and "A' = (if bk_count b + 1 \<le> limit then A @ [now] else A)"
  shows "budget_inv limit w (Some (b\<lparr>bk_count := bk_count b + 1\<rparr>)) A'"
proof -
  let ?r = "bk_resetAt b" and ?s = "bk_resetAt b - int w"
  have inv: "\<forall>x \<in> set A. x < ?r" "between ?s ?r A = min (bk_count b) limit"
      "\<forall>t > ?s - int w. between t ?s A \<le> limit" "\<forall>t. between t (t + int w) A \<le> 2 * limit"
    using assms(1) by (simp_all add: budget_inv_def Let_def)
  have all: "between t (t + int w) (A @ [now]) \<le> 2 * limit" if lim: "bk_count b + 1 \<le> limit" for t
  proof (cases "t \<le> now \<and> now < t + int w")
    case True
    show ?thesis
    proof (cases "t \<le> ?s")
      case le: True
      have "between t (t + int w) A \<le> between t ?s A + between ?s (t + int w) A" by (rule between_split)
      moreover have "between ?s (t + int w) A \<le> between ?s ?r A" using le by (intro between_mono) auto
      moreover have "between t ?s A \<le> limit" using inv(3) True assms(3) by auto
      ultimately have "between t (t + int w) A \<le> limit + bk_count b" using inv(2) by simp
      then show ?thesis using True lim by (simp add: between_snoc)
    next
      case gt: False
      have "between t (t + int w) A \<le> between t ?r A + between ?r (t + int w) A" by (rule between_split)
      moreover have "between ?r (t + int w) A = 0" using inv(1) by (rule between_none)
      moreover have "between t ?r A \<le> between ?s ?r A" using gt by (intro between_mono) auto
      ultimately have "between t (t + int w) A \<le> bk_count b" using inv(2) by simp
      then show ?thesis using True lim by (simp add: between_snoc)
    qed
  next
    case False
    then show ?thesis using inv(4) by (auto simp: between_snoc)
  qed
  show ?thesis
    using assms(2-4) inv all by (auto simp: budget_inv_def Let_def between_snoc)
qed

lemma budget_step:
  assumes "budget_inv limit w b A" and "0 < w" and "\<forall>c. b = Some c \<longrightarrow> bk_resetAt c - int w \<le> now"
  shows "budget_inv limit w (Some (bucket_step limit w now b))
    (if bk_count (bucket_step limit w now b) \<le> limit then A @ [now] else A)"
proof (cases "\<exists>c. b = Some c \<and> now < bk_resetAt c")
  case True
  then obtain c where c: "b = Some c" "now < bk_resetAt c" by blast
  with assms show ?thesis using budget_same_window [of limit w c A now] by (simp add: bucket_step_def)
next
  case False
  then have step: "bucket_step limit w now b = \<lparr>bk_count = 1, bk_resetAt = now + int w\<rparr>"
    by (auto simp: bucket_step_def split: option.splits)
  have lt: "\<forall>x \<in> set A. x < now" using assms(1) False by (fastforce simp: budget_inv_def Let_def split: option.splits)
  have recent: "between t now A \<le> limit" if "now - int w < t" for t
  proof (cases b)
    case None
    then show ?thesis using assms(1) by (simp add: budget_inv_def between_def)
  next
    case (Some c)
    then have r: "bk_resetAt c \<le> now" using False by auto
    have inv: "\<forall>x \<in> set A. x < bk_resetAt c" "between (bk_resetAt c - int w) (bk_resetAt c) A \<le> limit"
      using assms(1) Some by (simp_all add: budget_inv_def Let_def)
    have "between t now A \<le> between t (bk_resetAt c) A + between (bk_resetAt c) now A" by (rule between_split)
    moreover have "between (bk_resetAt c) now A = 0" using inv(1) by (rule between_none)
    moreover have "between t (bk_resetAt c) A \<le> between (bk_resetAt c - int w) (bk_resetAt c) A"
      using that r by (intro between_mono) auto
    ultimately show ?thesis using inv(2) by simp
  qed
  have "\<forall>t. between t (t + int w) A \<le> 2 * limit"
    using assms(1) by (auto simp: budget_inv_def Let_def between_def split: option.splits)
  then show ?thesis
    unfolding step using assms(2) lt recent by (intro budget_fresh [of w A now]) simp_all
qed

text \<open>
  As long as no client has to be evicted, a client's bucket changes with its own requests
  only, and by \<open>bucket_step\<close>.
\<close>

lemma open_bucket_get:
  assumes "limiter_ok rl" and "set (jm_keys (rl_buckets rl)) \<subseteq> K" and "finite K" and "card K \<le> rl_maxTrackedClients rl"
    and "key \<in> K" and "open_bucket now key rl = (m, b)"
  shows "(\<forall>k. k \<noteq> key \<longrightarrow> jm_get m k = jm_get (rl_buckets rl) k) \<and> set (jm_keys m) \<subseteq> K \<and>
    bucket_step (rl_limit rl) (rl_windowMs rl) now (jm_get (rl_buckets rl) key) = b\<lparr>bk_count := bk_count b + 1\<rparr>"
proof (cases "jm_get (rl_buckets rl) key")
  case None
  then have absent: "key \<notin> set (jm_keys (rl_buckets rl))" by (simp add: jm_get_None)
  then have "set (jm_keys (rl_buckets rl)) \<subset> K" using assms(2,5) by blast
  then have "card (set (jm_keys (rl_buckets rl))) < card K" using assms(3) by (rule psubset_card_mono [rotated])
  then have "jm_size (rl_buckets rl) < rl_maxTrackedClients rl"
    using assms(1,4) by (simp add: limiter_ok_def jm_size_keys jm_wf_keys distinct_card)
  then have "evict_client (rl_maxTrackedClients rl) (rl_buckets rl) = rl_buckets rl" by (simp add: evict_client_def)
  with None absent assms(2,5,6) show ?thesis
    by (auto simp: open_bucket_def Let_def bucket_step_def jm_get_set jm_keys_set)
next
  case (Some b')
  then have "key \<in> set (jm_keys (rl_buckets rl))" using jm_get_None [of "rl_buckets rl" key] by auto
  with Some assms(2,6) show ?thesis
    by (auto simp: open_bucket_def Let_def bucket_step_def jm_get_set jm_keys_set split: if_splits)
qed

lemma limit_request_bucket:
  assumes "limiter_ok rl" and "set (jm_keys (rl_buckets rl)) \<subseteq> K" and "finite K" and "card K \<le> rl_maxTrackedClients rl"
    and "client_key ip \<in> K" and "path \<notin> set RATE_EXEMPT_PATHS" and "limit_request now path ip rl = (rl', v)"
  shows "jm_get (rl_buckets rl') k = (if k = client_key ip
        then Some (bucket_step (rl_limit rl) (rl_windowMs rl) now (jm_get (rl_buckets rl) k)) else jm_get (rl_buckets rl) k)"
    and "set (jm_keys (rl_buckets rl')) \<subseteq> K"
    and "v = Pass \<longleftrightarrow> bk_count (bucket_step (rl_limit rl) (rl_windowMs rl) now (jm_get (rl_buckets rl) (client_key ip))) \<le> rl_limit rl"
proof -
  obtain m b where mb: "open_bucket now (client_key ip) rl = (m, b)" by (cases "open_bucket now (client_key ip) rl")
  note g = open_bucket_get [OF assms(1-5) mb]
  have rl': "rl_buckets rl' = jm_set (client_key ip) (b\<lparr>bk_count := bk_count b + 1\<rparr>) m"
    and v: "v = Pass \<longleftrightarrow> bk_count b + 1 \<le> rl_limit rl"
    using assms(6,7) mb by (auto simp: limit_request_def Let_def split: if_splits)
  show "jm_get (rl_buckets rl') k = (if k = client_key ip
        then Some (bucket_step (rl_limit rl) (rl_windowMs rl) now (jm_get (rl_buckets rl) k)) else jm_get (rl_buckets rl) k)"
    using g by (simp add: rl' jm_get_set)
  show "set (jm_keys (rl_buckets rl')) \<subseteq> K" using g assms(5) by (auto simp: rl' jm_keys_set)
  show "v = Pass \<longleftrightarrow> bk_count (bucket_step (rl_limit rl) (rl_windowMs rl) now (jm_get (rl_buckets rl) (client_key ip))) \<le> rl_limit rl"
    using g v by simp
qed

definition window_open :: "time_ms \<Rightarrow> rate_limiter \<Rightarrow> jsstring \<Rightarrow> bool" where
  "window_open now rl key \<longleftrightarrow> (\<forall>b. jm_get (rl_buckets rl) key = Some b \<longrightarrow> bk_resetAt b - int (rl_windowMs rl) \<le> now)"

lemma budget_run:
  assumes "limiter_ok rl" and "set (jm_keys (rl_buckets rl)) \<subseteq> K" and "finite K" and "card K \<le> rl_maxTrackedClients rl"
    and "clients reqs \<subseteq> K" and "0 < rl_windowMs rl" and "sorted (map fst reqs)" and "\<forall>r \<in> set reqs. t0 \<le> fst r"
    and "window_open t0 rl key" and "budget_inv (rl_limit rl) (rl_windowMs rl) (jm_get (rl_buckets rl) key) A"
  shows "\<exists>b. budget_inv (rl_limit rl) (rl_windowMs rl) b (A @ admitted key rl reqs)"
  using assms
proof (induction reqs arbitrary: rl A t0)
  case Nil
  then show ?case by auto
next
  case (Cons req reqs)
  obtain now path ip where req: "req = (now, path, ip)" by (cases req)
  obtain rl' v where step: "limit_request now path ip rl = (rl', v)" by (cases "limit_request now path ip rl")
  have K: "clients reqs \<subseteq> K" "client_key ip \<in> K" using Cons.prems(5) by (auto simp: clients_def req)
  have t: "t0 \<le> now" "sorted (map fst reqs)" "\<forall>r \<in> set reqs. now \<le> fst r"
    using Cons.prems(7,8) by (auto simp: req)
  have keep: "rl_limit rl' = rl_limit rl" "rl_windowMs rl' = rl_windowMs rl" "rl_maxTrackedClients rl' = rl_maxTrackedClients rl"
    "limiter_ok rl'"
    using limit_request_settings [of now path ip rl] limit_request_ok [OF Cons.prems(1), of now path ip] step by simp_all
  have open0: "window_open now rl key" using Cons.prems(9) t(1) by (fastforce simp: window_open_def)
  show ?case
  proof (cases "path \<in> set RATE_EXEMPT_PATHS")
    case True
    then have "rl' = rl" using step by (simp add: limit_request_def)
    then show ?thesis
      using Cons.IH [OF Cons.prems(1-4) K(1) Cons.prems(6) t(2,3) open0 Cons.prems(10)] step True by (simp add: req)
  next
    case False
    note b = limit_request_bucket [OF Cons.prems(1-4) K(2) False step]
    let ?A = "A @ (if client_key ip = key \<and> v = Pass then [now] else [])"
    have inv: "budget_inv (rl_limit rl') (rl_windowMs rl') (jm_get (rl_buckets rl') key) ?A"
    proof (cases "client_key ip = key")
      case True
      have "budget_inv (rl_limit rl) (rl_windowMs rl)
          (Some (bucket_step (rl_limit rl) (rl_windowMs rl) now (jm_get (rl_buckets rl) key)))
          (if bk_count (bucket_step (rl_limit rl) (rl_windowMs rl) now (jm_get (rl_buckets rl) key)) \<le> rl_limit rl
           then A @ [now] else A)"
        using budget_step [OF Cons.prems(10,6)] open0 by (simp add: window_open_def)
      then show ?thesis using True b(1) [of key] b(3) by (auto simp: keep split: if_splits)
    next
      case False
      then show ?thesis using Cons.prems(10) b(1) [of key] by (simp add: keep)
    qed
    have "window_open now rl' key"
      using open0 b(1) [of key] by (auto simp: window_open_def keep bucket_step_def split: option.splits if_splits)
    from Cons.IH [OF keep(4) b(2) Cons.prems(3) _ K(1) _ t(2,3) this inv]
    obtain b where "budget_inv (rl_limit rl) (rl_windowMs rl) b (?A @ admitted key rl' reqs)"
      using Cons.prems(4,6) by (auto simp: keep)
    then show ?thesis using step False by (auto simp: req)
  qed
qed

section \<open>Properties\<close>

text \<open>C33: The limiter bounds its table and its clients. However many addresses send requests, in
  whatever order, the table never outgrows \<open>maxTrackedClients\<close>. As long as no more than that
  many different addresses ever appear - so that no bucket is evicted -, for every client, in
  every interval of the window's length, wherever it starts, at most \<open>2 * limit\<close> of its
  requests to limited paths are let through (the documented burst at a window boundary).
  With more addresses an evicted client starts over with a fresh bucket.\<close>

theorem rate_limit_budget:
  assumes "0 < cap"
  shows "jm_size (rl_buckets (limit_run (createRateLimiter limit windowMs (Some cap)) reqs)) \<le> cap \<and>
    (sorted (map fst reqs) \<and> card (clients reqs) \<le> cap \<and> 0 < windowMs \<longrightarrow>
      between t (t + int windowMs) (admitted key (createRateLimiter limit windowMs (Some cap)) reqs) \<le> 2 * limit)"
proof -
  let ?rl = "createRateLimiter limit windowMs (Some cap)"
  have rl: "limiter_ok ?rl" "rl_buckets ?rl = []" "rl_limit ?rl = limit" "rl_windowMs ?rl = windowMs" "rl_maxTrackedClients ?rl = cap"
    using assms by (simp_all add: createRateLimiter_def limiter_ok_def jm_size_def)
  have run: "rl_maxTrackedClients (limit_run rl reqs) = rl_maxTrackedClients rl" for rl
    by (induction rl reqs rule: limit_run.induct) simp_all
  have "limiter_ok (limit_run ?rl reqs)" using rl(1) by (rule limit_run_ok)
  then have "jm_size (rl_buckets (limit_run ?rl reqs)) \<le> cap" by (simp add: limiter_ok_def run rl)
  moreover have "between t (t + int windowMs) (admitted key ?rl reqs) \<le> 2 * limit"
    if s: "sorted (map fst reqs)" and c: "card (clients reqs) \<le> cap" and w: "0 < windowMs"
  proof -
    have fin: "finite (clients reqs)" by (simp add: clients_def)
    have start: "window_open (Min (insert 0 (fst ` set reqs))) ?rl key" by (simp add: window_open_def rl)
    have early: "\<forall>r \<in> set reqs. Min (insert 0 (fst ` set reqs)) \<le> fst r" by simp
    have "budget_inv (rl_limit ?rl) (rl_windowMs ?rl) (jm_get (rl_buckets ?rl) key) []" by (simp add: rl budget_inv_def)
    from budget_run [OF rl(1) _ fin _ order_refl _ s early start this]
    obtain b where "budget_inv limit windowMs b (admitted key ?rl reqs)"
      using c w by (auto simp: rl jm_keys_def)
    then show ?thesis by (auto simp: budget_inv_def Let_def between_def split: option.splits)
  qed
  ultimately show ?thesis by blast
qed

theorem rate_limit_budget_witness:
  "between 500 1500 (admitted ''x'' (createRateLimiter 1 1000 (Some 2))
     [(0, ''/get/a'', Some ''x''), (900, ''/get/a'', Some ''y''), (999, ''/get/a'', Some ''x''), (1000, ''/get/a'', Some ''x'')]) \<le> 2"
proof -
  have c: "clients [(0, ''/get/a'', Some ''x''), (900, ''/get/a'', Some ''y''), (999, ''/get/a'', Some ''x''), (1000, ''/get/a'', Some ''x'')]
      = {''x'', ''y''}"
    by (auto simp: clients_def client_key_def)
  show ?thesis
    using rate_limit_budget [of 2 1 1000 "[(0, ''/get/a'', Some ''x''), (900, ''/get/a'', Some ''y''), (999, ''/get/a'', Some ''x''), (1000, ''/get/a'', Some ''x'')]"
        500 "''x''"]
    by (simp add: c)
qed

lemma retry_seconds:
  assumes "now < r" and "retry = \<lceil>of_int (r - now) / (1000 :: rat)\<rceil>"
  shows "1 \<le> retry" and "r \<le> now + 1000 * retry"
proof -
  have "(0 :: rat) < of_int (r - now) / 1000" using assms(1) by simp
  then show "1 \<le> retry" unfolding assms(2) by (simp add: ceiling_le_iff not_less [symmetric] one_le_ceiling)
  have "of_int (r - now) / (1000 :: rat) \<le> of_int retry" unfolding assms(2) by (rule le_of_int_ceiling)
  then have "(of_int (r - now) :: rat) \<le> of_int (1000 * retry)" by (simp add: field_simps)
  then show "r \<le> now + 1000 * retry" by (simp only: of_int_le_iff)
qed

text \<open>A rejection is honest: it happens only when the client used up its limit in a window that
  is still open, \<open>Retry-After\<close> is at least one second, and a request made that much later, with
  none in between, is let through.\<close>

lemma retry_after_honest:
  assumes "limiter_ok rl" and "limit_request now path ip rl = (rl', Reject retry)" and "0 < rl_limit rl"
    and "now + 1000 * retry \<le> later"
  shows "1 \<le> retry \<and> path \<notin> set RATE_EXEMPT_PATHS \<and>
    (\<exists>b. jm_get (rl_buckets rl) (client_key ip) = Some b \<and> rl_limit rl \<le> bk_count b \<and> now < bk_resetAt b) \<and>
    snd (limit_request later path ip rl') = Pass"
proof -
  have path: "path \<notin> set RATE_EXEMPT_PATHS" using assms(2) by (auto simp: limit_request_def)
  obtain m b where mb: "open_bucket now (client_key ip) rl = (m, b)" by (cases "open_bucket now (client_key ip) rl")
  have full: "rl_limit rl \<le> bk_count b" and retry: "retry = \<lceil>of_int (bk_resetAt b - now) / (1000 :: rat)\<rceil>"
    and rl': "rl' = rl\<lparr>rl_buckets := jm_set (client_key ip) (b\<lparr>bk_count := bk_count b + 1\<rparr>) m\<rparr>"
    using assms(2) path mb by (auto simp: limit_request_def Let_def split: if_splits)
  have b: "jm_get (rl_buckets rl) (client_key ip) = Some b" "now < bk_resetAt b"
    using mb full assms(3) by (auto simp: open_bucket_def Let_def split: option.splits if_splits)
  note r = retry_seconds [OF b(2) retry]
  then have "bk_resetAt b \<le> later" using assms(4) by simp
  then have "snd (limit_request later path ip rl') = Pass"
    using path assms(3) by (simp add: limit_request_def rl' open_bucket_def jm_get_set Let_def)
  then show ?thesis using r path b full by blast
qed

lemma retry_after_honest_witness:
  "snd (limit_request 1000 ''/set'' None (limit_run (createRateLimiter 1 1000 None) [(0, ''/set'', None), (0, ''/set'', None)])) = Pass"
proof -
  let ?rl = "limit_run (createRateLimiter 1 1000 None) [(0, ''/set'', None)]"
  have ok: "limiter_ok ?rl"
    by (rule limit_run_ok) (simp add: limiter_ok_def createRateLimiter_def DEFAULT_MAX_TRACKED_CLIENTS_def jm_size_def)
  have step: "limit_request 0 ''/set'' None ?rl = (fst (limit_request 0 ''/set'' None ?rl), Reject 1)"
    by (simp add: limit_request_def createRateLimiter_def open_bucket_def RATE_EXEMPT_PATHS_def client_key_def
        DEFAULT_MAX_TRACKED_CLIENTS_def evict_client_def jm_size_def Let_def)
  have lim: "0 < rl_limit ?rl" by (simp add: createRateLimiter_def)
  from retry_after_honest [OF ok step lim, of 1000] show ?thesis by simp
qed

end
