(* ===== verification/AccessPredictor.thy ===== *)
theory AccessPredictor
  imports JsMap JsNum
begin

text \<open>
  \<open>src/core/access-predictor.ts\<close>: a bounded table of which key was read right after which
  other key, and the predictions read off it. A probability is an exact quotient.
\<close>

section \<open>State and operations\<close>

type_synonym candidates = "(jsstring, nat) jsmap"

record access_predictor =
  transitions :: "(jsstring, candidates) jsmap"
  lastKey :: "jsstring option"
  maxTrackedKeys :: nat
  maxCandidatesPerKey :: nat

record prediction =
  pr_key :: jsstring
  pr_count :: nat
  pr_probability :: rat

definition DEFAULT_MAX_TRACKED_KEYS :: nat where
  "DEFAULT_MAX_TRACKED_KEYS = 2000"

definition DEFAULT_MAX_CANDIDATES_PER_KEY :: nat where
  "DEFAULT_MAX_CANDIDATES_PER_KEY = 20"

definition new_predictor :: "nat option \<Rightarrow> nat option \<Rightarrow> access_predictor" where
  "new_predictor tracked perKey = \<lparr>transitions = [], lastKey = None,
     maxTrackedKeys = (case tracked of None \<Rightarrow> DEFAULT_MAX_TRACKED_KEYS | Some n \<Rightarrow> n),
     maxCandidatesPerKey = (case perKey of None \<Rightarrow> DEFAULT_MAX_CANDIDATES_PER_KEY | Some n \<Rightarrow> n)\<rparr>"

definition make_slot :: "nat \<Rightarrow> (jsstring, candidates) jsmap \<Rightarrow> (jsstring, candidates) jsmap" where
  \<comment> \<open>give up the oldest entry when the table is full\<close>
  "make_slot cap ts = (if cap \<le> jm_size ts
     then (case ts of [] \<Rightarrow> ts | (oldest, _) # _ \<Rightarrow> jm_delete oldest ts) else ts)"

definition open_slot :: "jsstring \<Rightarrow> nat \<Rightarrow> (jsstring, candidates) jsmap \<Rightarrow> (jsstring, candidates) jsmap" where
  \<comment> \<open>\<open>transitions\<close> with an entry for the preceding key\<close>
  "open_slot f cap ts = (if jm_has ts f then ts else jm_set f [] (make_slot cap ts))"

definition bump :: "jsstring \<Rightarrow> candidates \<Rightarrow> candidates" where
  "bump key cs = jm_set key ((case jm_get cs key of None \<Rightarrow> 0 | Some n \<Rightarrow> n) + 1) cs"

fun worst_loop :: "candidates \<Rightarrow> jsstring option \<Rightarrow> nat option \<Rightarrow> jsstring option" where
  \<comment> \<open>\<open>None\<close> for \<open>worstCount\<close> is the initial \<open>Infinity\<close>\<close>
  "worst_loop [] worstKey worstCount = worstKey"
| "worst_loop ((k, c) # rest) worstKey worstCount =
     (if (case worstCount of None \<Rightarrow> True | Some w \<Rightarrow> c < w) then worst_loop rest (Some k) (Some c)
      else worst_loop rest worstKey worstCount)"

definition drop_worst :: "nat \<Rightarrow> candidates \<Rightarrow> candidates" where
  "drop_worst cap cs = (if cap < jm_size cs
     then (case worst_loop cs None None of None \<Rightarrow> cs | Some k \<Rightarrow> jm_delete k cs) else cs)"

definition predictor_record :: "jsstring \<Rightarrow> access_predictor \<Rightarrow> access_predictor" where
  "predictor_record key p = (case lastKey p of
       None \<Rightarrow> p\<lparr>lastKey := Some key\<rparr>
     | Some f \<Rightarrow> if f = key then p\<lparr>lastKey := Some key\<rparr>
         else let ts = open_slot f (maxTrackedKeys p) (transitions p);
                cs = (case jm_get ts f of None \<Rightarrow> [] | Some c \<Rightarrow> c)
           in p\<lparr>lastKey := Some key,
                transitions := jm_set f (drop_worst (maxCandidatesPerKey p) (bump key cs)) ts\<rparr>)"

definition predict :: "jsstring \<Rightarrow> nat \<Rightarrow> access_predictor \<Rightarrow> prediction list" where
  "predict key topN p = (case jm_get (transitions p) key of
       None \<Rightarrow> []
     | Some cs \<Rightarrow> if jm_size cs = 0 then []
         else let total = sum_list (map snd cs) in
           map (\<lambda>(k, n). \<lparr>pr_key = k, pr_count = n, pr_probability = of_nat n / of_nat total\<rparr>)
             (take topN (sort_key (\<lambda>e. - int (snd e)) cs)))"

definition predictor_size :: "access_predictor \<Rightarrow> nat" where
  "predictor_size p = jm_size (transitions p)"

definition predictor_run :: "access_predictor \<Rightarrow> jsstring list \<Rightarrow> access_predictor" where
  "predictor_run p keys = foldl (\<lambda>p key. predictor_record key p) p keys"

section \<open>The invariant\<close>

definition candidates_ok :: "nat \<Rightarrow> jsstring \<Rightarrow> candidates \<Rightarrow> bool" where
  "candidates_ok cap f cs \<longleftrightarrow> jm_wf cs \<and> jm_size cs \<le> cap \<and> f \<notin> set (jm_keys cs) \<and> (\<forall>e \<in> set cs. 0 < snd e)"

definition predictor_ok :: "access_predictor \<Rightarrow> bool" where
  "predictor_ok p \<longleftrightarrow> 0 < maxTrackedKeys p \<and> jm_wf (transitions p) \<and> jm_size (transitions p) \<le> maxTrackedKeys p \<and>
     (\<forall>(f, cs) \<in> set (transitions p). candidates_ok (maxCandidatesPerKey p) f cs)"

lemma worst_loop_Some:
  "worst_loop rest (Some k) (Some c) = Some (fst (first_min_from snd (k, c) rest))"
  by (induction rest arbitrary: k c) auto

lemma worst_loop_eq: "worst_loop cs None None = map_option fst (first_min snd cs)"
  by (cases cs) (auto simp: first_min_def worst_loop_Some)

lemma drop_worst_sub: "set (drop_worst cap cs) \<subseteq> set cs"
  by (auto simp: drop_worst_def jm_delete_entries split: option.splits)

lemma drop_worst_wf: "jm_wf cs \<Longrightarrow> jm_wf (drop_worst cap cs)"
  by (auto simp: drop_worst_def inv_intros split: option.splits)

lemma drop_worst_keys: "set (jm_keys (drop_worst cap cs)) \<subseteq> set (jm_keys cs)"
  using drop_worst_sub [of cap cs] by (auto simp: jm_keys_def)

lemma drop_worst_size: "jm_wf cs \<Longrightarrow> jm_size cs \<le> Suc cap \<Longrightarrow> jm_size (drop_worst cap cs) \<le> cap"
proof -
  assume wf: "jm_wf cs" and size: "jm_size cs \<le> Suc cap"
  show ?thesis
  proof (cases "cap < jm_size cs")
    case False
    then show ?thesis by (simp add: drop_worst_def)
  next
    case True
    then have "cs \<noteq> []" by (auto simp: jm_size_def)
    then obtain e where e: "first_min snd cs = Some e" by (cases "first_min snd cs") auto
    then have "fst e \<in> set (jm_keys cs)" using first_min_mem by (fastforce simp: jm_keys_def)
    then have "Suc (jm_size (jm_delete (fst e) cs)) = jm_size cs"
      using jm.length_remove_present [OF wf] by (simp add: jm_size_keys)
    with True size e show ?thesis by (simp add: drop_worst_def worst_loop_eq)
  qed
qed

lemma bump_ok:
  assumes "jm_wf cs" and "\<forall>e \<in> set cs. 0 < snd e"
  shows "jm_wf (bump key cs)" and "\<forall>e \<in> set (bump key cs). 0 < snd e"
    and "set (jm_keys (bump key cs)) = insert key (set (jm_keys cs))" and "jm_size (bump key cs) \<le> Suc (jm_size cs)"
  using assms jm_set_entries [of _ key _ cs]
  by (auto simp: bump_def inv_intros jm_keys_set jm_size_keys dest: jm_set_entries)

lemma new_candidates_ok:
  assumes "candidates_ok cap f cs" and "f \<noteq> key"
  shows "candidates_ok cap f (drop_worst cap (bump key cs))"
proof -
  have c: "jm_wf cs" "\<forall>e \<in> set cs. 0 < snd e" "jm_size cs \<le> cap" "f \<notin> set (jm_keys cs)"
    using assms(1) by (auto simp: candidates_ok_def)
  note b = bump_ok [OF c(1,2), of key]
  have "jm_size (bump key cs) \<le> Suc cap" using b(4) c(3) by simp
  moreover have "f \<notin> set (jm_keys (drop_worst cap (bump key cs)))"
    using drop_worst_keys [of cap "bump key cs"] b(3) c(4) assms(2) by auto
  ultimately show ?thesis
    using drop_worst_sub [of cap "bump key cs"] b drop_worst_wf drop_worst_size
    by (auto simp: candidates_ok_def)
qed

lemma open_slot_ok:
  assumes "jm_wf ts" and "jm_size ts \<le> cap" and "0 < cap"
  shows "jm_wf (open_slot f cap ts)" and "jm_size (open_slot f cap ts) \<le> cap" and "jm_has (open_slot f cap ts) f"
    and "set (open_slot f cap ts) \<subseteq> insert (f, []) (set ts)"
proof -
  have wf: "jm_wf (make_slot cap ts)" using assms(1) by (auto simp: make_slot_def inv_intros split: list.splits)
  have sub: "set (make_slot cap ts) \<subseteq> set ts" by (auto simp: make_slot_def jm_delete_entries split: list.splits)
  have room: "jm_size (make_slot cap ts) < cap"
  proof (cases "cap \<le> jm_size ts")
    case True
    with assms(3) obtain k v rest where ts: "ts = (k, v) # rest" by (cases ts) (auto simp: jm_size_def)
    then have "Suc (jm_size (jm_delete k ts)) = jm_size ts"
      using jm.length_remove_present [OF assms(1), of k] by (simp add: jm_size_keys) (simp add: jm_keys_def)
    with True ts assms(2) show ?thesis by (simp add: make_slot_def)
  qed (simp add: make_slot_def)
  show "jm_wf (open_slot f cap ts)" using assms(1) wf by (simp add: open_slot_def inv_intros)
  show "jm_size (open_slot f cap ts) \<le> cap"
    using assms(2) room by (auto simp: open_slot_def jm_size_keys jm_keys_set)
  show "jm_has (open_slot f cap ts) f" by (auto simp: open_slot_def jm_has_iff jm_keys_set)
  show "set (open_slot f cap ts) \<subseteq> insert (f, []) (set ts)"
    using sub by (auto simp: open_slot_def dest!: jm_set_entries)
qed

lemma candidates_ok_Nil [simp]: "candidates_ok cap f []"
  by (simp add: candidates_ok_def jm_size_def jm_keys_def)

lemma predictor_record_ok [inv_intros]:
  assumes "predictor_ok p"
  shows "predictor_ok (predictor_record key p)"
proof (cases "\<exists>f. lastKey p = Some f \<and> f \<noteq> key")
  case False
  with assms show ?thesis by (auto simp: predictor_record_def predictor_ok_def split: option.splits)
next
  case True
  then obtain f where f: "lastKey p = Some f" "f \<noteq> key" by blast
  let ?ts = "open_slot f (maxTrackedKeys p) (transitions p)" and ?cap = "maxCandidatesPerKey p"
  have ok: "0 < maxTrackedKeys p" "jm_wf (transitions p)" "jm_size (transitions p) \<le> maxTrackedKeys p"
    and cs: "\<And>f cs. (f, cs) \<in> set (transitions p) \<Longrightarrow> candidates_ok ?cap f cs"
    using assms by (auto simp: predictor_ok_def)
  note slot = open_slot_ok [OF ok(2,3,1), of f]
  have cs': "candidates_ok ?cap g c" if "(g, c) \<in> set ?ts" for g c
    using slot(4) that cs [of g c] by auto
  obtain c where c: "jm_get ?ts f = Some c" using slot(3) by (auto simp: jm_has_def)
  then have "(f, c) \<in> set ?ts" using jm_entry_get [OF slot(1)] by simp
  then have new: "candidates_ok ?cap f (drop_worst ?cap (bump key c))"
    using new_candidates_ok [OF cs' f(2)] by simp
  have size: "jm_size (jm_set f x ?ts) \<le> maxTrackedKeys p" for x
    using slot(2,3) by (simp add: jm_size_keys jm_keys_set jm_has_iff)
  have all: "\<forall>(g, d) \<in> set (jm_set f (drop_worst ?cap (bump key c)) ?ts). candidates_ok ?cap g d"
    using new cs' by (auto dest!: jm_set_entries)
  show ?thesis
    using ok slot(1) size all f c by (simp add: predictor_record_def predictor_ok_def inv_intros)
qed

lemma predictor_run_ok: "predictor_ok p \<Longrightarrow> predictor_ok (predictor_run p keys)"
  unfolding predictor_run_def by (induction keys arbitrary: p) (auto simp: inv_intros)

lemma predictor_record_caps [frame_simps]:
  "maxTrackedKeys (predictor_record key p) = maxTrackedKeys p"
  "maxCandidatesPerKey (predictor_record key p) = maxCandidatesPerKey p"
  by (simp_all add: predictor_record_def Let_def split: option.splits)

lemma predictor_run_caps:
  "maxTrackedKeys (predictor_run p keys) = maxTrackedKeys p \<and> maxCandidatesPerKey (predictor_run p keys) = maxCandidatesPerKey p"
  unfolding predictor_run_def by (induction keys arbitrary: p) (auto simp: frame_simps)

section \<open>Properties\<close>

text \<open>Memory is bounded whatever is read: a predictor never tracks more than
  \<open>maxTrackedKeys\<close> keys, nor more than \<open>maxCandidatesPerKey\<close> followers of one of them; a key is
  never its own follower, and every recorded follower was seen at least once.\<close>

lemma predictor_bounded:
  assumes "predictor_run (new_predictor (Some tracked) (Some perKey)) keys = p" and "0 < tracked"
  shows "predictor_size p \<le> tracked \<and> distinct (jm_keys (transitions p)) \<and>
    (\<forall>(f, cs) \<in> set (transitions p). jm_size cs \<le> perKey \<and> distinct (jm_keys cs) \<and> f \<notin> set (jm_keys cs) \<and>
      (\<forall>e \<in> set cs. 0 < snd e))"
proof -
  have "predictor_ok (new_predictor (Some tracked) (Some perKey))"
    using assms(2) by (simp add: predictor_ok_def new_predictor_def jm_size_def)
  then have "predictor_ok p" using assms(1) predictor_run_ok by blast
  moreover have "maxTrackedKeys p = tracked" "maxCandidatesPerKey p = perKey"
    using predictor_run_caps [of "new_predictor (Some tracked) (Some perKey)" keys] assms(1)
    by (simp_all add: new_predictor_def)
  ultimately show ?thesis
    by (auto simp: predictor_ok_def predictor_size_def candidates_ok_def jm_wf_keys)
qed

lemma predictor_bounded_witness:
  "predictor_size (predictor_run (new_predictor (Some 2) (Some 1)) [''a'', ''b'', ''c'', ''a'', ''c'']) \<le> 2"
  using predictor_bounded [of 2 1 "[''a'', ''b'', ''c'', ''a'', ''c'']", OF refl] by simp

lemma predict_eq:
  assumes "jm_get (transitions p) key = Some cs" and "cs \<noteq> []"
  shows "predict key topN p = map (\<lambda>(k, n). \<lparr>pr_key = k, pr_count = n,
      pr_probability = of_nat n / of_nat (sum_list (map snd cs))\<rparr>) (take topN (sort_key (\<lambda>e. - int (snd e)) cs))"
  using assms by (simp add: predict_def jm_size_def Let_def)

abbreviation by_count :: "candidates \<Rightarrow> candidates" where
  "by_count cs \<equiv> sort_key (\<lambda>e. - int (snd e)) cs"

lemma by_count_desc: "sorted_wrt (\<lambda>a b. snd b \<le> snd a) (by_count cs)"
proof -
  have "sorted (map (\<lambda>e. - int (snd e)) (by_count cs))" by (rule sorted_sort_key)
  then have "sorted_wrt (\<lambda>a b. - int (snd a) \<le> - int (snd b)) (by_count cs)"
    by (simp add: sorted_wrt_map)
  then show ?thesis by (rule sorted_wrt_mono_rel [rotated]) simp
qed

lemma sort_key_const: "\<forall>x \<in> set xs. f x = c \<Longrightarrow> sort_key f xs = xs"
proof (induction xs)
  case Nil
  then show ?case by simp
next
  case (Cons x xs)
  then have "sort_key f xs = xs" "\<forall>y \<in> set xs. f x \<le> f y" by auto
  then show ?case by (simp add: insort_is_Cons)
qed

lemma by_count_stable: "filter (\<lambda>e. snd e = n) (by_count cs) = filter (\<lambda>e. snd e = n) cs"
  by (simp add: filter_sort_key sort_key_const [where c = "- int n"])

lemma sum_list_take_le: "sum_list (take n ns) \<le> (sum_list ns :: nat)"
  by (metis append_take_drop_id le_add1 sum_list_append)

lemma sum_by_count: "sum_list (map snd (by_count cs)) = sum_list (map snd cs)"
proof -
  have "mset (map snd (by_count cs)) = mset (map snd cs)" by simp
  then show ?thesis by (metis sum_mset_sum_list)
qed

lemma distinct_by_count: "jm_wf cs \<Longrightarrow> distinct (map fst (take n (by_count cs)))"
proof -
  assume "jm_wf cs"
  then have "distinct (map fst (by_count cs))"
    by (metis distinct_map jm_wf_def distinct_sort set_sort)
  then show ?thesis by (metis distinct_take take_map)
qed

lemma probabilities_sum:
  "sum_list (map (\<lambda>e. (of_nat (snd e) :: rat) / of_nat t) es) = of_nat (sum_list (map snd es)) / of_nat t"
  by (induction es) (simp_all add: add_divide_distrib)

lemma by_count_rest:
  "e \<in> set (drop n (by_count cs)) \<Longrightarrow> a \<in> set (take n (by_count cs)) \<Longrightarrow> snd e \<le> snd a"
proof -
  have "sorted_wrt (\<lambda>a b. snd b \<le> snd a) (take n (by_count cs) @ drop n (by_count cs))" using by_count_desc [of cs] by simp
  then show "e \<in> set (drop n (by_count cs)) \<Longrightarrow> a \<in> set (take n (by_count cs)) \<Longrightarrow> snd e \<le> snd a"
    unfolding sorted_wrt_append by blast
qed

lemma total_pos:
  fixes cs :: candidates
  assumes "cs \<noteq> []" and "\<forall>e \<in> set cs. 0 < snd e"
  shows "0 < sum_list (map snd cs)"
proof -
  obtain e where e: "e \<in> set cs" using assms(1) by (cases cs) auto
  then have "0 < snd e" "snd e \<le> sum_list (map snd cs)"
    using assms(2) member_le_sum_list [of "snd e" "map snd cs"] by auto
  then show ?thesis by simp
qed

lemma shares_of_total:
  fixes cs :: candidates
  assumes "0 < sum_list (map snd cs)"
    and "share = sum_list (map (\<lambda>e. (of_nat (snd e) :: rat) / of_nat (sum_list (map snd cs))) (take n (by_count cs)))"
  shows "share \<le> 1 \<and> (share = 1 \<or> n < length cs)"
proof -
  let ?top = "take n (by_count cs)" and ?total = "sum_list (map snd cs)"
  have share: "share = of_nat (sum_list (map snd ?top)) / of_nat ?total" unfolding assms(2) by (rule probabilities_sum)
  have "sum_list (map snd ?top) \<le> ?total"
    using sum_list_take_le [of n "map snd (by_count cs)"] by (simp add: take_map sum_by_count)
  then have "share \<le> 1" using assms(1) by (simp add: share)
  moreover have "share = 1" if "\<not> n < length cs"
  proof -
    have eq: "sum_list (map snd ?top) = ?total" using that by (simp only: take_all length_sort not_less sum_by_count)
    have "(of_nat ?total :: rat) \<noteq> 0" using assms(1) by (simp only: of_nat_eq_0_iff)
    from divide_self [OF this] show ?thesis by (simp only: share eq)
  qed
  ultimately show ?thesis by blast
qed

text \<open>What \<open>predict\<close> returns: at most \<open>topN\<close> followers of the key, each once, most frequent
  first and equally frequent ones in the order they were first seen; nothing left out is
  more frequent than anything listed; each probability is the follower's share of the
  transitions the table holds for the key, so it is positive, they add up to at most 1, and
  to exactly 1 when every follower is listed.\<close>

lemma predict_of_table:
  assumes "predictor_ok p" and "jm_get (transitions p) key = Some cs" and "predict key topN p = ps"
  shows "map (\<lambda>q. (pr_key q, pr_count q)) ps = take topN (by_count cs) \<and>
    length ps = min topN (length cs) \<and> distinct (map pr_key ps) \<and> key \<notin> set (map pr_key ps) \<and>
    sorted_wrt (\<lambda>a b. pr_count b \<le> pr_count a) ps \<and>
    (\<forall>n. filter (\<lambda>e. snd e = n) (by_count cs) = filter (\<lambda>e. snd e = n) cs) \<and>
    (\<forall>e \<in> set (drop topN (by_count cs)). \<forall>q \<in> set ps. snd e \<le> pr_count q) \<and>
    (\<forall>q \<in> set ps. pr_probability q = of_nat (pr_count q) / of_nat (sum_list (map snd cs)) \<and> 0 < pr_probability q) \<and>
    sum_list (map pr_probability ps) \<le> 1 \<and>
    (sum_list (map pr_probability ps) = 1 \<or> topN < length cs \<or> cs = [])"
proof (cases "cs = []")
  case True
  with assms show ?thesis by (auto simp: predict_def jm_size_def)
next
  case False
  let ?top = "take topN (by_count cs)" and ?total = "sum_list (map snd cs)"
  have ps: "ps = map (\<lambda>(k, n). \<lparr>pr_key = k, pr_count = n, pr_probability = of_nat n / of_nat ?total\<rparr>) ?top"
    using predict_eq [OF assms(2) False] assms(3) by simp
  have "(key, cs) \<in> set (transitions p)"
    using jm_entry_get [of "transitions p" key cs] assms(1,2) by (simp add: predictor_ok_def)
  then have ok: "jm_wf cs" "key \<notin> set (jm_keys cs)" "\<forall>e \<in> set cs. 0 < snd e"
    using assms(1) by (auto simp: predictor_ok_def candidates_ok_def)
  have sub: "set ?top \<subseteq> set cs" using set_take_subset [of topN "by_count cs"] by simp
  have total: "0 < ?total" by (rule total_pos [OF False ok(3)])
  have pairs: "map (\<lambda>q. (pr_key q, pr_count q)) ps = ?top" and "map pr_key ps = map fst ?top"
    and shares: "map pr_probability ps = map (\<lambda>e. of_nat (snd e) / of_nat ?total) ?top"
    by (simp_all add: ps o_def case_prod_unfold)
  then have keys: "distinct (map pr_key ps)" "key \<notin> set (map pr_key ps)"
    using distinct_by_count [OF ok(1)] sub ok(2) by (auto simp: jm_keys_def)
  have "sorted_wrt (\<lambda>a b. snd b \<le> snd a) ?top" using by_count_desc by (rule sorted_wrt_take)
  then have desc: "sorted_wrt (\<lambda>a b. pr_count b \<le> pr_count a) ps"
    by (simp add: ps sorted_wrt_map case_prod_unfold)
  have rest: "\<forall>e \<in> set (drop topN (by_count cs)). \<forall>q \<in> set ps. snd e \<le> pr_count q"
    using by_count_rest [of _ topN cs] by (fastforce simp: ps)
  have prob: "\<forall>q \<in> set ps. pr_probability q = of_nat (pr_count q) / of_nat ?total \<and> 0 < pr_probability q"
    using total sub ok(3) by (fastforce simp: ps)
  have len: "length ps = min topN (length cs)" by (simp add: ps)
  show ?thesis
    using pairs len keys desc by_count_stable [of _ cs] rest prob shares_of_total [OF total, of _ topN, folded shares] by blast
qed

section \<open>Counting\<close>

definition transition_count :: "access_predictor \<Rightarrow> jsstring \<Rightarrow> jsstring \<Rightarrow> nat" where
  "transition_count p f t = (case jm_get (transitions p) f of None \<Rightarrow> 0
     | Some cs \<Rightarrow> (case jm_get cs t of None \<Rightarrow> 0 | Some n \<Rightarrow> n))"

fun adjacent_count :: "jsstring \<Rightarrow> jsstring \<Rightarrow> jsstring list \<Rightarrow> nat" where
  \<comment> \<open>how often \<open>t\<close> directly follows \<open>f\<close>\<close>
  "adjacent_count f t (x # y # ks) = (if x = f \<and> y = t then 1 else 0) + adjacent_count f t (y # ks)"
| "adjacent_count f t _ = 0"

lemma adjacent_count_snoc:
  "adjacent_count f t (ks @ [x, y]) = adjacent_count f t (ks @ [x]) + (if x = f \<and> y = t then 1 else 0)"
proof (induction ks)
  case Nil
  then show ?case by simp
next
  case (Cons k ks)
  then show ?case by (cases ks) auto
qed

lemma adjacent_count_last:
  "xs \<noteq> [] \<Longrightarrow> adjacent_count f t (xs @ [y]) = adjacent_count f t xs + (if last xs = f \<and> y = t then 1 else 0)"
  using adjacent_count_snoc [of f t "butlast xs" "last xs" y] by (cases xs rule: rev_cases) simp_all

fun followers :: "jsstring \<Rightarrow> jsstring list \<Rightarrow> jsstring list" where
  \<comment> \<open>the other keys read right after \<open>f\<close>, in order: the observed transitions away from it\<close>
  "followers f (x # y # ks) = (if x = f \<and> y \<noteq> f then [y] else []) @ followers f (y # ks)"
| "followers f _ = []"

lemma followers_last: "xs \<noteq> [] \<Longrightarrow> followers f (xs @ [y]) = followers f xs @ (if last xs = f \<and> y \<noteq> f then [y] else [])"
  by (induction f xs rule: followers.induct) auto

definition tally :: "jsstring list \<Rightarrow> candidates" where
  \<comment> \<open>each key once, in the order of first occurrence, with its number of occurrences\<close>
  "tally fs = map (\<lambda>t. (t, count_list fs t)) (rev (remdups (rev fs)))"

lemma jm_set_map: "k \<in> set ks \<Longrightarrow> distinct ks \<Longrightarrow> jm_set k v (map (\<lambda>t. (t, g t)) ks) = map (\<lambda>t. (t, if t = k then v else g t)) ks"
  by (induction ks) auto

lemma tally_keys [simp]: "jm_keys (tally fs) = rev (remdups (rev fs))"
  by (simp add: tally_def jm_keys_def o_def)

lemma tally_get: "jm_get (tally fs) t = (if t \<in> set fs then Some (count_list fs t) else None)"
  by (auto simp: tally_def jm_get_def map_of_map_restrict restrict_map_def)

lemma tally_snoc: "tally (fs @ [y]) = bump y (tally fs)"
proof (cases "y \<in> set fs")
  case True
  then have "bump y (tally fs) = jm_set y (Suc (count_list fs y)) (tally fs)" by (simp add: bump_def tally_get)
  also have "\<dots> = map (\<lambda>t. (t, if t = y then Suc (count_list fs y) else count_list fs t)) (rev (remdups (rev fs)))"
    unfolding tally_def by (rule jm_set_map) (use True in auto)
  also have "\<dots> = tally (fs @ [y])" using True by (auto simp: tally_def)
  finally show ?thesis by simp
next
  case False
  then have "bump y (tally fs) = tally fs @ [(y, 1)]" by (simp add: bump_def tally_get jm_set_append)
  then show ?thesis using False by (auto simp: tally_def count_list_0_iff)
qed

lemma tally_total: "sum_list (map snd (tally fs)) = length fs"
  by (simp add: tally_def o_def sum_list_distinct_conv_sum_set sum_count_set)

definition tracks_within :: "jsstring set \<Rightarrow> access_predictor \<Rightarrow> bool" where
  \<comment> \<open>everything in the table was read\<close>
  "tracks_within K p \<longleftrightarrow> set (jm_keys (transitions p)) \<subseteq> K \<and>
     (\<forall>f cs. jm_get (transitions p) f = Some cs \<longrightarrow> set (jm_keys cs) \<subseteq> K - {f} \<and> jm_wf cs)"

lemma drop_worst_room: "jm_size cs \<le> cap \<Longrightarrow> drop_worst cap cs = cs"
  by (simp add: drop_worst_def)

lemma jm_size_card: "jm_wf m \<Longrightarrow> jm_size m = card (set (jm_keys m))"
  by (simp add: jm_size_keys jm_wf_keys distinct_card)

lemma record_no_eviction:
  assumes "predictor_ok p" and "tracks_within K p" and "finite K" and "card K \<le> maxTrackedKeys p"
    and "card K \<le> Suc (maxCandidatesPerKey p)" and "lastKey p = Some x" and "x \<in> K" and "y \<in> K" and "x \<noteq> y"
  shows "tracks_within K (predictor_record y p) \<and>
    (\<forall>f t. transition_count (predictor_record y p) f t = transition_count p f t + (if x = f \<and> y = t then 1 else 0)) \<and>
    (\<forall>f. jm_get (transitions (predictor_record y p)) f =
      (if f = x then Some (bump y (case jm_get (transitions p) x of None \<Rightarrow> [] | Some cs \<Rightarrow> cs)) else jm_get (transitions p) f))"
proof -
  let ?ts = "open_slot x (maxTrackedKeys p) (transitions p)"
  have wf: "jm_wf (transitions p)" using assms(1) by (simp add: predictor_ok_def)
  have K: "set (jm_keys (transitions p)) \<subseteq> K"
    and Kc: "\<And>f cs. jm_get (transitions p) f = Some cs \<Longrightarrow> set (jm_keys cs) \<subseteq> K - {f} \<and> jm_wf cs"
    using assms(2) by (auto simp: tracks_within_def)
  have room: "make_slot (maxTrackedKeys p) (transitions p) = transitions p" if "x \<notin> set (jm_keys (transitions p))"
  proof -
    have "set (jm_keys (transitions p)) \<subset> K" using K that assms(7) by blast
    then have "jm_size (transitions p) < card K" using psubset_card_mono [OF assms(3)] wf by (simp add: jm_size_card)
    then show ?thesis using assms(4) by (simp add: make_slot_def)
  qed
  have slot: "jm_get ?ts f = (if f = x then Some (case jm_get (transitions p) x of None \<Rightarrow> [] | Some cs \<Rightarrow> cs)
      else jm_get (transitions p) f)" for f
    using room jm_get_None [of "transitions p" x]
    by (auto simp: open_slot_def jm_has_iff jm_get_set split: option.splits)
  let ?cs = "case jm_get (transitions p) x of None \<Rightarrow> [] | Some cs \<Rightarrow> cs"
  have cs: "set (jm_keys ?cs) \<subseteq> K - {x}" "jm_wf ?cs"
    using Kc [of x] by (cases "jm_get (transitions p) x"; simp add: jm_keys_def [of "[]"])+
  have bump: "set (jm_keys (bump y ?cs)) \<subseteq> K - {x}" "jm_wf (bump y ?cs)"
    using cs assms(8,9) by (auto simp: bump_def jm_keys_set inv_intros)
  have "card (K - {x}) = card K - 1" using assms(7) by simp
  then have "jm_size (bump y ?cs) \<le> maxCandidatesPerKey p"
    using card_mono [OF _ bump(1)] assms(3,5) bump(2) by (simp add: jm_size_card)
  then have rec: "transitions (predictor_record y p) = jm_set x (bump y ?cs) ?ts"
    using assms(6,9) slot [of x] by (simp add: predictor_record_def drop_worst_room)
  have get: "jm_get (transitions (predictor_record y p)) f =
      (if f = x then Some (bump y ?cs) else jm_get (transitions p) f)" for f
    by (simp add: rec jm_get_set slot)
  have "set (jm_keys (transitions (predictor_record y p))) \<subseteq> K"
  proof
    fix f assume "f \<in> set (jm_keys (transitions (predictor_record y p)))"
    then have "jm_get (transitions (predictor_record y p)) f \<noteq> None" by (simp add: jm_get_None)
    then show "f \<in> K" using get [of f] assms(7) K jm_get_None [of "transitions p" f] by (auto split: if_splits)
  qed
  then have "tracks_within K (predictor_record y p)"
    using get bump Kc by (auto simp: tracks_within_def)
  moreover have "transition_count (predictor_record y p) f t = transition_count p f t + (if x = f \<and> y = t then 1 else 0)" for f t
    by (auto simp: transition_count_def get bump_def jm_get_set split: option.splits)
  ultimately show ?thesis using get by blast
qed

lemma lastKey_record: "lastKey (predictor_record key p) = Some key"
  by (simp add: predictor_record_def Let_def split: option.splits)

lemma record_same:
  "lastKey p \<in> {None, Some y} \<Longrightarrow> transitions (predictor_record y p) = transitions p"
  by (auto simp: predictor_record_def)

lemma counts_run:
  assumes "0 < tracked" and "card (set ks) \<le> tracked" and "card (set ks) \<le> Suc perKey"
  shows "(\<forall>f t. f \<noteq> t \<longrightarrow> transition_count (predictor_run (new_predictor (Some tracked) (Some perKey)) ks) f t = adjacent_count f t ks) \<and>
    (\<forall>f. jm_get (transitions (predictor_run (new_predictor (Some tracked) (Some perKey)) ks)) f =
      (if followers f ks = [] then None else Some (tally (followers f ks))))"
proof -
  let ?run = "predictor_run (new_predictor (Some tracked) (Some perKey))" and ?K = "set ks"
  have start: "predictor_ok (new_predictor (Some tracked) (Some perKey))"
    using assms(1) by (simp add: predictor_ok_def new_predictor_def jm_size_def)
  have caps: "maxTrackedKeys (?run xs) = tracked" "maxCandidatesPerKey (?run xs) = perKey" for xs
    using predictor_run_caps [of _ xs] by (simp_all add: new_predictor_def)
  have "tracks_within ?K (?run xs) \<and> (xs \<noteq> [] \<longrightarrow> lastKey (?run xs) = Some (last xs)) \<and>
      (\<forall>f t. f \<noteq> t \<longrightarrow> transition_count (?run xs) f t = adjacent_count f t xs) \<and>
      (\<forall>f. jm_get (transitions (?run xs)) f = (if followers f xs = [] then None else Some (tally (followers f xs))))" if "set xs \<subseteq> ?K" for xs
    using that
  proof (induction xs rule: rev_induct)
    case Nil
    then show ?case by (simp add: predictor_run_def new_predictor_def tracks_within_def transition_count_def jm_keys_def)
  next
    case (snoc y xs)
    let ?p = "?run xs"
    have step: "?run (xs @ [y]) = predictor_record y ?p" by (simp add: predictor_run_def)
    have IH: "tracks_within ?K ?p" "xs \<noteq> [] \<longrightarrow> lastKey ?p = Some (last xs)"
      "\<forall>f t. f \<noteq> t \<longrightarrow> transition_count ?p f t = adjacent_count f t xs"
      "\<forall>f. jm_get (transitions ?p) f = (if followers f xs = [] then None else Some (tally (followers f xs)))"
      using snoc by simp_all
    have last: "lastKey (predictor_record y ?p) = Some y" by (rule lastKey_record)
    show ?case
    proof (cases "xs = [] \<or> last xs = y")
      case True
      have lk: "lastKey ?p \<in> {None, Some y}"
        using True IH(2) by (cases "xs = []") (auto simp: predictor_run_def new_predictor_def)
      have "adjacent_count f t (xs @ [y]) = adjacent_count f t xs" if "f \<noteq> t" for f t
        using True that adjacent_count_last [of xs f t y] by (cases "xs = []") auto
      moreover have "followers f (xs @ [y]) = followers f xs" for f
        using True followers_last [of xs f y] by (cases "xs = []") auto
      ultimately show ?thesis
        using IH record_same [OF lk] last by (simp add: step tracks_within_def transition_count_def)
    next
      case False
      then have ne: "xs \<noteq> []" "last xs \<noteq> y" by simp_all
      have mem: "last xs \<in> ?K" "y \<in> ?K" using ne snoc.prems last_in_set [of xs] by auto
      have ok: "predictor_ok ?p" using start by (rule predictor_run_ok)
      have lk: "lastKey ?p = Some (last xs)" using IH(2) ne by simp
      have "card ?K \<le> maxTrackedKeys ?p" "card ?K \<le> Suc (maxCandidatesPerKey ?p)"
        using assms(2,3) by (simp_all add: caps)
      from record_no_eviction [OF ok IH(1) _ this lk mem ne(2)]
      have r: "tracks_within ?K (predictor_record y ?p)"
        "\<forall>f t. transition_count (predictor_record y ?p) f t = transition_count ?p f t + (if last xs = f \<and> y = t then 1 else 0)"
        "\<forall>f. jm_get (transitions (predictor_record y ?p)) f =
          (if f = last xs then Some (bump y (case jm_get (transitions ?p) (last xs) of None \<Rightarrow> [] | Some cs \<Rightarrow> cs)) else jm_get (transitions ?p) f)"
        by blast+
      have "adjacent_count f t (xs @ [y]) = adjacent_count f t xs + (if last xs = f \<and> y = t then 1 else 0)" for f t
        using ne(1) by (rule adjacent_count_last)
      moreover have "jm_get (transitions (predictor_record y ?p)) f =
          (if followers f (xs @ [y]) = [] then None else Some (tally (followers f (xs @ [y]))))" for f
      proof -
        have "tally [] = []" by (simp add: tally_def)
        then have "bump y (case jm_get (transitions ?p) (last xs) of None \<Rightarrow> [] | Some cs \<Rightarrow> cs) = tally (followers (last xs) xs @ [y])"
          using IH(4) by (simp add: tally_snoc)
        then show ?thesis using r(3) IH(4) ne followers_last [OF ne(1), of f y] by auto
      qed
      ultimately show ?thesis using r IH(3) last by (simp add: step)
    qed
  qed
  then show ?thesis by blast
qed

text \<open>Counting is exact while nothing has to be given up: if the keys read are at most
  \<open>maxTrackedKeys\<close> different ones, and at most one more than \<open>maxCandidatesPerKey\<close>, the count for a
  pair of different keys is the number of times the second was read directly after the
  first.\<close>

lemma predictor_counts_exact:
  assumes "0 < tracked" and "card (set ks) \<le> tracked" and "card (set ks) \<le> Suc perKey" and "f \<noteq> t"
  shows "transition_count (predictor_run (new_predictor (Some tracked) (Some perKey)) ks) f t = adjacent_count f t ks"
  using counts_run [OF assms(1-3)] assms(4) by blast

lemma predictor_counts_exact_witness:
  "transition_count (predictor_run (new_predictor (Some 3) (Some 2)) [''a'', ''b'', ''a'', ''c'', ''a'', ''b'']) ''a'' ''b'' = 2"
proof -
  have c: "card (set [''a'', ''b'', ''a'', ''c'', ''a'', ''b'']) = 3" by code_simp
  show ?thesis
    using predictor_counts_exact [of 3 "[''a'', ''b'', ''a'', ''c'', ''a'', ''b'']" 2 "''a''" "''b''", unfolded c] by simp
qed



text \<open>Once a follower had to be dropped, the probability is no longer the share of every observed
  transition that the interface documents: the dropped ones are missing from the total.\<close>

lemma dropped_candidates_inflate_shares:
  "predict ''a'' 3 (predictor_run (new_predictor (Some 5) (Some 1)) [''a'', ''b'', ''a'', ''c'']) =
     [\<lparr>pr_key = ''c'', pr_count = 1, pr_probability = 1\<rparr>] \<and>
   count_list (followers ''a'' [''a'', ''b'', ''a'', ''c'']) ''c'' = 1 \<and> length (followers ''a'' [''a'', ''b'', ''a'', ''c'']) = 2"
proof -
  have "jm_get (transitions (predictor_run (new_predictor (Some 5) (Some 1)) [''a'', ''b'', ''a'', ''c''])) ''a'' = Some [(''c'', 1)]"
    by code_simp
  then show ?thesis by (simp add: predict_def jm_size_def)
qed

text \<open>A full candidate list never learns: once a key has \<open>maxCandidatesPerKey\<close> followers, each
  seen at least twice, the follower dropped to make room for a new one is the new one itself,
  whose count is 1, so a follower it has not seen yet is forgotten every time it occurs.\<close>

lemma full_candidates_never_learn:
  assumes "predictor_ok p" and "lastKey p = Some f" and "jm_get (transitions p) f = Some cs"
    and "jm_size cs = maxCandidatesPerKey p" and "\<forall>e \<in> set cs. 2 \<le> snd e"
    and "y \<noteq> f" and "y \<notin> set (jm_keys cs)"
  shows "jm_get (transitions (predictor_record y p)) f = Some cs \<and>
    transition_count (predictor_record y p) f y = 0 \<and> predict f n (predictor_record y p) = predict f n p"
proof -
  have has: "jm_has (transitions p) f" using assms(3) by (simp add: jm_has_def)
  have bump: "bump y cs = cs @ [(y, Suc 0)]"
    using assms(7) jm_get_None [of cs y] by (simp add: bump_def jm_set_append)
  have "first_min_from snd x (xs @ [(y, Suc 0)]) = (y, Suc 0)"
    if "2 \<le> snd x" "\<forall>e \<in> set xs. 2 \<le> snd e" for x and xs :: candidates
    using that by (induction xs arbitrary: x) auto
  then have worst: "first_min snd (cs @ [(y, Suc 0)]) = Some (y, Suc 0)"
    using assms(5) by (cases cs) (simp_all add: first_min_def)
  have "jm_size (cs @ [(y, Suc 0)]) = Suc (maxCandidatesPerKey p)" using assms(4) by (simp add: jm_size_def)
  then have "drop_worst (maxCandidatesPerKey p) (bump y cs) = jm_delete y (cs @ [(y, Suc 0)])"
    by (simp add: bump drop_worst_def worst_loop_eq worst)
  also have "\<dots> = cs" using jm_delete_absent [OF assms(7)] by (simp add: jm_delete_append) (simp add: jm_delete_def)
  finally have drop: "drop_worst (maxCandidatesPerKey p) (bump y cs) = cs" .
  have "jm_get (transitions (predictor_record y p)) f = Some cs"
    using assms(2,3,6) has drop by (simp add: predictor_record_def open_slot_def jm_get_set)
  then show ?thesis
    using assms(3,7) jm_get_None [of cs y] by (simp add: transition_count_def predict_def)
qed

lemma full_candidates_never_learn_witness:
  "transition_count (predictor_run (new_predictor (Some 5) (Some 1)) [''a'', ''b'', ''a'', ''b'', ''a'', ''c'']) ''a'' ''c'' = 0"
proof -
  let ?p = "predictor_run (new_predictor (Some 5) (Some 1)) [''a'', ''b'', ''a'', ''b'', ''a'']"
  have ok: "predictor_ok ?p"
    by (rule predictor_run_ok) (simp add: predictor_ok_def new_predictor_def jm_size_def)
  have p: "lastKey ?p = Some ''a''" "jm_get (transitions ?p) ''a'' = Some [(''b'', 2)]" "maxCandidatesPerKey ?p = 1"
    by code_simp+
  have size: "jm_size [(''b'', 2 :: nat)] = maxCandidatesPerKey ?p" by (simp only: p(3)) (simp add: jm_size_def)
  have "transition_count (predictor_record ''c'' ?p) ''a'' ''c'' = 0"
    using full_candidates_never_learn [OF ok p(1,2) size, of "''c''"] by (simp add: jm_keys_def)
  then show ?thesis by (simp add: predictor_run_def)
qed

end
