(* ===== verification/App.thy ===== *)
theory App
  imports Persistence PrimaryMonitor NodeRole Auth RateLimit Env AccessPredictor Metrics
begin

text \<open>
  \<open>src/network/app.ts\<close>: a node's REST API. \<open>node_app\<close> is the module's state, every handler is
  a function from it and the request to the new state, the response and the operations
  forwarded to replicas; \<open>app_handle\<close> is the whole chain a request passes: rate limiter,
  authentication, body parser, handler. Clock readings are inputs. Which handler a request
  reaches and with which path parameter is the router's choice (Express), hence a \<open>route\<close>.
\<close>

section \<open>Configuration and state\<close>

record app_config =
  cf_nodeId :: jsstring
  cf_maxKeyLength :: nat
  cf_evictionSampleSize :: nat
  cf_apiKey :: "jsstring option"
  cf_version :: jsstring

record node_app =
  ap_store :: cache_store
  ap_metrics :: metrics
  ap_predictor :: access_predictor
  ap_role :: node_role
  ap_monitor :: "primary_monitor option"
  ap_limiter :: "rate_limiter option"

definition read_config :: "env \<Rightarrow> jsstring \<Rightarrow> app_config" where
  "read_config env version =
     \<lparr>cf_nodeId = node_id env,
      cf_maxKeyLength = parsePositiveInt (env ''INKCACHE_MAX_KEY_LENGTH'') 256 None,
      cf_evictionSampleSize = parsePositiveInt (env ''INKCACHE_EVICTION_SAMPLE'') 5 None,
      cf_apiKey = env ''INKCACHE_API_KEY'', cf_version = version\<rparr>"

definition new_limiter :: "env \<Rightarrow> rate_limiter option" where
  "new_limiter env = (case env ''INKCACHE_RATE_LIMIT'' of
       None \<Rightarrow> None
     | Some v \<Rightarrow> Some (createRateLimiter (parsePositiveInt (Some v) 100 None)
         (parsePositiveInt (env ''INKCACHE_RATE_LIMIT_WINDOW'') 10 None * 1000) None))"

definition new_app :: "env \<Rightarrow> time_ms \<Rightarrow> node_app" where
  "new_app env now =
     \<lparr>ap_store = new_cache \<lparr>opt_maxEntries = Some (parsePositiveInt (env ''INKCACHE_MAX_ENTRIES'') 512 None),
         opt_policy = Some (resolveEvictionPolicy (env ''INKCACHE_EVICTION_POLICY'')),
         opt_evictionSampleSize = Some (parsePositiveInt (env ''INKCACHE_EVICTION_SAMPLE'') 5 None)\<rparr>,
      ap_metrics = new_metrics now, ap_predictor = new_predictor None None,
      ap_role = new_role (env ''INKCACHE_ROLE'') (env ''INKCACHE_REPLICA_URLS'') (env ''INKCACHE_PRIMARY_URL'')
        (self_identity env),
      ap_monitor = None, ap_limiter = new_limiter env\<rparr>"

section \<open>Requests\<close>

record clock =
  ck_now :: time_ms \<comment> \<open>the first reading\<close>
  ck_op :: time_ms \<comment> \<open>the reading the store's operation makes\<close>
  ck_ttl :: time_ms \<comment> \<open>its reading for a remaining time\<close>
  ck_rec :: time_ms \<comment> \<open>the reading of \<open>metrics.record\<close>\<close>
  ck_us :: rat \<comment> \<open>the latency \<open>timed\<close> measures\<close>
  ck_iso :: jsstring \<comment> \<open>\<open>new Date().toISOString()\<close>\<close>

datatype parsed_body =
  Parsed "json option" \<comment> \<open>\<open>req.body\<close>\<close>
  | Malformed \<comment> \<open>\<open>express.json\<close> throws a \<open>SyntaxError\<close>\<close>
  | TooLarge \<comment> \<open>\<open>express.json\<close> throws its 413\<close>
  | Unreadable \<comment> \<open>it throws anything else: a charset or encoding it does not support (415), a body it cannot inflate\<close>

text \<open>
  The body of \<open>/internal/replicate\<close> as far as it has the type \<open>ReplicationOp\<close>; \<open>UnknownOp\<close> is an
  \<open>op\<close> field that no case of the switch names. Bodies whose other fields have the wrong type
  are outside the model: no program of the repository sends them.
\<close>

datatype replicate_body = NoOp | UnknownOp | ReplOp ReplicationOp

definition op_json :: "ReplicationOp \<Rightarrow> json" where
  \<comment> \<open>what \<open>forwardToReplicas\<close> sends: \<open>JSON.stringify\<close> drops a \<open>ttl\<close> that is \<open>undefined\<close>\<close>
  "op_json op = (case op of
       RSet k v ttl \<Rightarrow> JObj ([(''op'', JStr ''set''), (''key'', JStr k), (''value'', JStr v)] @
         (case ttl of None \<Rightarrow> [] | Some x \<Rightarrow> [(''ttl'', json_num x)]))
     | RDelete k \<Rightarrow> JObj [(''op'', JStr ''delete''), (''key'', JStr k)]
     | RInvalidate p \<Rightarrow> JObj [(''op'', JStr ''invalidate''), (''prefix'', JStr p)]
     | RFlush \<Rightarrow> JObj [(''op'', JStr ''flush'')])"

definition read_op_fields :: "jsstring \<Rightarrow> (jsstring \<times> json) list \<Rightarrow> replicate_body option" where
  "read_op_fields name fs =
     (if name = ''set'' then (case (as_string (map_of fs ''key''), as_string (map_of fs ''value''), map_of fs ''ttl'') of
          (Some k, Some v, None) \<Rightarrow> Some (ReplOp (RSet k v None))
        | (Some k, Some v, Some (JNum x)) \<Rightarrow> Some (ReplOp (RSet k v (Some x)))
        | _ \<Rightarrow> None)
      else if name = ''delete'' then map_option (\<lambda>k. ReplOp (RDelete k)) (as_string (map_of fs ''key''))
      else if name = ''invalidate'' then map_option (\<lambda>p. ReplOp (RInvalidate p)) (as_string (map_of fs ''prefix''))
      else if name = ''flush'' then Some (ReplOp RFlush)
      else Some UnknownOp)"

definition read_replicate_body :: "json option \<Rightarrow> replicate_body option" where
  \<comment> \<open>the guard of \<open>/internal/replicate\<close> and the switch of \<open>applyReplicationOp\<close>; \<open>None\<close> is outside the model\<close>
  "read_replicate_body body = (case body of
       Some (JObj fs) \<Rightarrow> (case as_string (map_of fs ''op'') of None \<Rightarrow> Some NoOp | Some name \<Rightarrow> read_op_fields name fs)
     | _ \<Rightarrow> Some NoOp)"

datatype route =
  SetR | GetR jsstring | PredictR jsstring "jsstring option" | DeleteR jsstring | InvalidateR
  | KeysR | KeysStatsR | SnapshotR | RestoreR | FlushR | ReplicateR replicate_body
  | PromoteR | RequestVoteR | LeaderR | MetricsR | HistoryR | VersionR | HealthR | UnknownR
  | BadPathR \<comment> \<open>the parameter of the path is no valid percent encoding\<close>

record http_request =
  rq_route :: route
  rq_path :: jsstring
  rq_headers :: headers
  rq_ip :: "jsstring option"
  rq_body :: parsed_body

type_synonym app_result = "node_app \<times> response \<times> (jsstring \<times> ReplicationOp) list"

definition reply :: "node_app \<Rightarrow> response \<Rightarrow> app_result" where
  "reply ap r = (ap, r, [])"

section \<open>Validation\<close>

definition ttl_valid :: "time_ms \<Rightarrow> json option \<Rightarrow> bool" where
  "ttl_valid now ttl = (case ttl of
       None \<Rightarrow> True
     | Some (JNum t) \<Rightarrow> is_finite t \<and> \<not> t \<le> Fin 0 \<and> is_finite (num_of_int now + t * Fin 1000)
     | Some _ \<Rightarrow> False)"

definition validateEntry :: "nat \<Rightarrow> time_ms \<Rightarrow> json option \<Rightarrow> jsstring + (jsstring \<times> jsstring \<times> jsnum option)" where
  "validateEntry maxKeyLength now input =
     (let raw = nullish_to_obj input;
          ttl = (if read_field ''ttl'' raw = Some JNull then None else read_field ''ttl'' raw)
      in case as_string (read_field ''key'' raw) of
           None \<Rightarrow> Inl ''key must be a non-empty string''
         | Some key \<Rightarrow>
             if length (trim key) = 0 then Inl ''key must be a non-empty string''
             else if maxKeyLength < length key
             then Inl (''key must be at most '' @ show_nat maxKeyLength @ '' characters'')
             else (case as_string (read_field ''value'' raw) of
                 None \<Rightarrow> Inl ''value must be a string''
               | Some v \<Rightarrow>
                   if \<not> ttl_valid now ttl then Inl ''ttl must be a positive number of seconds''
                   else Inr (key, v, as_number ttl)))"

fun validate_all :: "nat \<Rightarrow> time_ms \<Rightarrow> nat \<Rightarrow> json list \<Rightarrow> snapshot_rows \<Rightarrow> (nat \<times> jsstring) + snapshot_rows" where
  \<comment> \<open>the loop of \<open>/restore\<close>: \<open>i\<close> is the index, \<open>validated\<close> what was pushed so far\<close>
  "validate_all maxKeyLength now i [] validated = Inr validated"
| "validate_all maxKeyLength now i (k # keys) validated = (case validateEntry maxKeyLength now (Some k) of
       Inl e \<Rightarrow> Inl (i, e)
     | Inr row \<Rightarrow> validate_all maxKeyLength now (i + 1) keys (validated @ [row]))"

section \<open>Handlers of the cache\<close>

definition post_set :: "app_config \<Rightarrow> clock \<Rightarrow> json option \<Rightarrow> node_app \<Rightarrow> app_result" where
  "post_set cf ck body ap = (case rejectIfReplica (ap_role ap) of
       Some r \<Rightarrow> reply ap r
     | None \<Rightarrow> (case validateEntry (cf_maxKeyLength cf) (ck_now ck) body of
           Inl e \<Rightarrow> reply ap (error_response 400 e)
         | Inr (key, v, ttl) \<Rightarrow>
             (ap\<lparr>ap_store := cache_set (ck_op ck) key v ttl (ap_store ap),
                 ap_metrics := metrics_record OpType.OpSet (ck_us ck) False (ck_rec ck) (ap_metrics ap)\<rparr>,
              ok_response [(''ok'', JBool True), (''key'', JStr key), (''ttl'', ttl_json ttl)],
              forwardToReplicas (nr_replicaUrls (ap_role ap)) (RSet key v ttl))))"

definition get_key :: "clock \<Rightarrow> jsstring \<Rightarrow> node_app \<Rightarrow> app_result" where
  "get_key ck key ap =
     (let (store', result) = getWithTtl (ck_op ck) (ck_ttl ck) key (ap_store ap);
          ap' = ap\<lparr>ap_store := store',
            ap_metrics := metrics_record OpType.OpGet (ck_us ck) (result \<noteq> None) (ck_rec ck) (ap_metrics ap),
            ap_predictor := predictor_record key (ap_predictor ap)\<rparr>
      in reply ap' (case result of
           None \<Rightarrow> \<lparr>res_status = 404, res_body = JObj [(''error'', JStr ''miss''), (''key'', JStr key)]\<rparr>
         | Some (v, ttl) \<Rightarrow> ok_response [(''key'', JStr key), (''value'', JStr v), (''ttl'', ttl_json ttl)]))"

definition top_n :: "jsstring option \<Rightarrow> nat" where
  \<comment> \<open>\<open>/^[1-9]\\d*$/\<close> and \<open>Math.min(20, Number(topNRaw))\<close>; \<open>None\<close> is absent or no single string\<close>
  "top_n topNRaw = (case topNRaw of
       Some (c # cs) \<Rightarrow> if is_digit c \<and> c \<noteq> CHR ''0'' \<and> list_all is_digit cs then min 20 (digits_val (c # cs)) else 3
     | _ \<Rightarrow> 3)"

definition prediction_json :: "prediction \<Rightarrow> json" where
  "prediction_json p = JObj [(''key'', JStr (pr_key p)), (''count'', json_nat (pr_count p)),
     (''probability'', JNum (Fin (pr_probability p)))]"

definition predict_key :: "jsstring \<Rightarrow> jsstring option \<Rightarrow> node_app \<Rightarrow> app_result" where
  "predict_key key topNRaw ap = reply ap (ok_response [(''key'', JStr key),
     (''predictions'', JArr (map prediction_json (predict key (top_n topNRaw) (ap_predictor ap))))])"

definition delete_key :: "clock \<Rightarrow> jsstring \<Rightarrow> node_app \<Rightarrow> app_result" where
  "delete_key ck key ap = (case rejectIfReplica (ap_role ap) of
       Some r \<Rightarrow> reply ap r
     | None \<Rightarrow> (case cache_delete key (ap_store ap) of (store', deleted) \<Rightarrow>
         (ap\<lparr>ap_store := store',
             ap_metrics := metrics_record OpType.OpDelete (ck_us ck) False (ck_rec ck) (ap_metrics ap)\<rparr>,
          ok_response [(''ok'', JBool True), (''key'', JStr key), (''deleted'', JBool deleted)],
          forwardToReplicas (nr_replicaUrls (ap_role ap)) (RDelete key))))"

definition post_invalidate :: "app_config \<Rightarrow> json option \<Rightarrow> node_app \<Rightarrow> app_result" where
  "post_invalidate cf body ap = (case rejectIfReplica (ap_role ap) of
       Some r \<Rightarrow> reply ap r
     | None \<Rightarrow> (case as_string (read_field ''prefix'' (nullish_to_obj body)) of
           None \<Rightarrow> reply ap (error_response 400 ''prefix must be a string'')
         | Some p \<Rightarrow>
             if cf_maxKeyLength cf < length p
             then reply ap (error_response 400
               (''prefix must be at most '' @ show_nat (cf_maxKeyLength cf) @ '' characters''))
             else (case deleteByPrefix p (ap_store ap) of (store', dropped) \<Rightarrow>
               (ap\<lparr>ap_store := store'\<rparr>,
                ok_response [(''ok'', JBool True), (''prefix'', JStr p), (''dropped'', json_nat dropped)],
                forwardToReplicas (nr_replicaUrls (ap_role ap)) (RInvalidate p)))))"

definition get_keys :: "clock \<Rightarrow> node_app \<Rightarrow> app_result" where
  "get_keys ck ap = (case cache_keys (ck_op ck) (ap_store ap) of (store', ks) \<Rightarrow>
     reply (ap\<lparr>ap_store := store'\<rparr>)
       (ok_response [(''keys'', JArr (map JStr ks)), (''count'', json_nat (cache_size store'))]))"

definition stats_row :: "jsstring \<times> nat \<times> jsnum option \<Rightarrow> json" where
  "stats_row row = (case row of (k, h, ttl) \<Rightarrow>
     JObj [(''key'', JStr k), (''hits'', json_nat h), (''ttl'', ttl_json ttl)])"

definition get_keys_stats :: "clock \<Rightarrow> node_app \<Rightarrow> app_result" where
  "get_keys_stats ck ap = (case detailedKeys (ck_op ck) (ap_store ap) of (store', rows) \<Rightarrow>
     reply (ap\<lparr>ap_store := store'\<rparr>)
       (ok_response [(''keys'', JArr (map stats_row rows)), (''count'', json_nat (cache_size store'))]))"

definition get_snapshot :: "clock \<Rightarrow> node_app \<Rightarrow> app_result" where
  "get_snapshot ck ap = (case exportEntries (ck_op ck) (ap_store ap) of (store', rows) \<Rightarrow>
     reply (ap\<lparr>ap_store := store'\<rparr>)
       (ok_response [(''keys'', JArr (map row_json rows)), (''count'', json_nat (length rows))]))"

definition post_restore :: "app_config \<Rightarrow> clock \<Rightarrow> json option \<Rightarrow> node_app \<Rightarrow> app_result" where
  "post_restore cf ck body ap = (case rejectIfReplica (ap_role ap) of
       Some r \<Rightarrow> reply ap r
     | None \<Rightarrow> (case read_field ''keys'' (nullish_to_obj body) of
           Some (JArr ks) \<Rightarrow> (case validate_all (cf_maxKeyLength cf) (ck_now ck) 0 ks [] of
               Inl (i, e) \<Rightarrow> reply ap (error_response 400 (''keys['' @ show_nat i @ '']: '' @ e))
             | Inr validated \<Rightarrow> reply (ap\<lparr>ap_store := load_rows (ck_op ck) validated (ap_store ap)\<rparr>)
                 (ok_response [(''ok'', JBool True), (''loaded'', json_nat (length validated))]))
         | _ \<Rightarrow> reply ap (error_response 400 ''keys must be an array'')))"

definition post_flush :: "node_app \<Rightarrow> app_result" where
  "post_flush ap = (case rejectIfReplica (ap_role ap) of
       Some r \<Rightarrow> reply ap r
     | None \<Rightarrow> (ap\<lparr>ap_store := cache_clear (ap_store ap)\<rparr>,
         ok_response [(''ok'', JBool True), (''dropped'', json_nat (cache_size (ap_store ap)))],
         forwardToReplicas (nr_replicaUrls (ap_role ap)) RFlush))"

definition post_replicate :: "clock \<Rightarrow> replicate_body \<Rightarrow> node_app \<Rightarrow> app_result" where
  "post_replicate ck body ap = (case body of
       NoOp \<Rightarrow> reply ap (error_response 400 ''malformed replication op'')
     | UnknownOp \<Rightarrow> reply ap (ok_response [(''ok'', JBool True)])
     | ReplOp op \<Rightarrow> reply (ap\<lparr>ap_store := applyReplicationOp (ck_op ck) (ap_store ap) op\<rparr>)
         (ok_response [(''ok'', JBool True)]))"

section \<open>Handlers of the node\<close>

definition with_role :: "(node_role \<Rightarrow> node_role \<times> response) \<Rightarrow> node_app \<Rightarrow> app_result" where
  "with_role f ap = (case f (ap_role ap) of (nd, r) \<Rightarrow> reply (ap\<lparr>ap_role := nd\<rparr>) r)"

definition role_json :: "role \<Rightarrow> json" where
  "role_json r = JStr (case r of Primary \<Rightarrow> ''primary'' | Replica \<Rightarrow> ''replica'')"

definition opt_field :: "jsstring \<Rightarrow> jsstring option \<Rightarrow> (jsstring \<times> json) list" where
  \<comment> \<open>\<open>JSON.stringify\<close> drops a field that is \<open>undefined\<close>\<close>
  "opt_field k v = (case v of None \<Rightarrow> [] | Some s \<Rightarrow> [(k, JStr s)])"

definition rat_json :: "rat option \<Rightarrow> json" where
  "rat_json x = (case x of None \<Rightarrow> JNull | Some q \<Rightarrow> JNum (Fin q))"

definition snapshot_fields :: "MetricsSnapshot \<Rightarrow> (jsstring \<times> json) list" where
  "snapshot_fields s = [(''uptimeSec'', rat_json (Some (ms_uptimeSec s))), (''hits'', json_nat (ms_hits s)),
     (''misses'', json_nat (ms_misses s)), (''hitRate'', rat_json (ms_hitRate s)), (''sets'', json_nat (ms_sets s)),
     (''deletes'', json_nat (ms_deletes s)), (''opsPerSec'', rat_json (Some (ms_opsPerSec s))),
     (''latency'', JObj [(''avgUs'', rat_json (avgUs (ms_latency s))), (''p95Us'', rat_json (p95Us (ms_latency s))),
       (''samples'', json_nat (samples (ms_latency s)))])]"

definition policy_name :: "eviction_policy \<Rightarrow> jsstring" where
  "policy_name p = (case p of LRU \<Rightarrow> ''lru'' | AccessAware \<Rightarrow> ''access-aware'' | LFU \<Rightarrow> ''lfu'')"

definition get_metrics :: "app_config \<Rightarrow> clock \<Rightarrow> node_app \<Rightarrow> app_result" where
  "get_metrics cf ck ap = reply ap (ok_response
     ([(''node'', JStr (cf_nodeId cf)), (''role'', role_json (nr_role (ap_role ap)))] @
      (if nr_role (ap_role ap) = Primary then [(''replicaCount'', json_nat (length (nr_replicaUrls (ap_role ap))))]
       else opt_field ''primaryUrl'' (nr_primaryUrl (ap_role ap))) @
      [(''keys'', json_nat (cache_size (ap_store ap))), (''maxEntries'', json_nat (maxEntries (ap_store ap))),
       (''evictions'', json_nat (evictionCount (ap_store ap))),
       (''evictionPolicy'', JStr (policy_name (policy (ap_store ap)))),
       (''evictionSampleSize'', json_nat (cf_evictionSampleSize cf))] @
      snapshot_fields (metrics_snapshot (ck_now ck) (ap_metrics ap))))"

definition get_metrics_history :: "node_app \<Rightarrow> app_result" where
  "get_metrics_history ap = reply ap (ok_response [(''samples'', JArr (map
     (\<lambda>(at_ms, s). JObj ((''at'', JNum (num_of_int at_ms)) # snapshot_fields s)) (historyEntries (ap_metrics ap))))])"

definition get_version :: "app_config \<Rightarrow> node_app \<Rightarrow> app_result" where
  "get_version cf ap = reply ap (ok_response [(''name'', JStr ''inkcache''), (''version'', JStr (cf_version cf)),
     (''node'', JStr (cf_nodeId cf))])"

definition get_health :: "app_config \<Rightarrow> clock \<Rightarrow> node_app \<Rightarrow> app_result" where
  "get_health cf ck ap = reply ap (ok_response
     ([(''status'', JStr ''ok''), (''node'', JStr (cf_nodeId cf)), (''role'', role_json (nr_role (ap_role ap))),
       (''uptimeSec'', JNum (Fin (uptimeSec (ck_now ck) (ap_metrics ap)))),
       (''keys'', json_nat (cache_size (ap_store ap))), (''timestamp'', JStr (ck_iso ck))] @
      (case (nr_role (ap_role ap), ap_monitor ap) of
         (Replica, Some m) \<Rightarrow> [(''primaryHealthy'', JBool (isPrimaryHealthy m)),
           (''primaryConsecutiveFailures'', json_nat (consecutiveFailures m))]
       | _ \<Rightarrow> [])))"

section \<open>The chain\<close>

fun app_route :: "app_config \<Rightarrow> clock \<Rightarrow> http_request \<Rightarrow> json option \<Rightarrow> node_app \<Rightarrow> app_result" where
  "app_route cf ck req body ap = (case rq_route req of
       SetR \<Rightarrow> post_set cf ck body ap
     | GetR key \<Rightarrow> get_key ck key ap
     | PredictR key topN \<Rightarrow> predict_key key topN ap
     | DeleteR key \<Rightarrow> delete_key ck key ap
     | InvalidateR \<Rightarrow> post_invalidate cf body ap
     | KeysR \<Rightarrow> get_keys ck ap
     | KeysStatsR \<Rightarrow> get_keys_stats ck ap
     | SnapshotR \<Rightarrow> get_snapshot ck ap
     | RestoreR \<Rightarrow> post_restore cf ck body ap
     | FlushR \<Rightarrow> post_flush ap
     | ReplicateR op \<Rightarrow> post_replicate ck op ap
     | PromoteR \<Rightarrow> with_role (post_promote body) ap
     | RequestVoteR \<Rightarrow> with_role (post_request_vote body) ap
     | LeaderR \<Rightarrow> with_role (post_leader body) ap
     | MetricsR \<Rightarrow> get_metrics cf ck ap
     | HistoryR \<Rightarrow> get_metrics_history ap
     | VersionR \<Rightarrow> get_version cf ap
     | HealthR \<Rightarrow> get_health cf ck ap
     | UnknownR \<Rightarrow> reply ap \<lparr>res_status = 404,
         res_body = JObj [(''error'', JStr ''not found''), (''path'', JStr (rq_path req))]\<rparr>
     | BadPathR \<Rightarrow> reply ap (error_response 500 ''internal server error''))"

declare app_route.simps [simp del]

definition after_limiter :: "app_config \<Rightarrow> clock \<Rightarrow> http_request \<Rightarrow> node_app \<Rightarrow> app_result" where
  "after_limiter cf ck req ap =
     (if \<not> createAuthMiddleware (cf_apiKey cf) (rq_path req) (rq_headers req)
      then reply ap (error_response 401 ''missing or invalid API key'')
      else (case rq_body req of
           Malformed \<Rightarrow> reply ap (error_response 400 ''malformed JSON body'')
         | TooLarge \<Rightarrow> reply ap (error_response 413 ''request body too large (max 64kb)'')
         | Unreadable \<Rightarrow> reply ap (error_response 500 ''internal server error'')
         | Parsed body \<Rightarrow> app_route cf ck req body ap))"

definition app_handle :: "app_config \<Rightarrow> clock \<Rightarrow> http_request \<Rightarrow> node_app \<Rightarrow> app_result" where
  "app_handle cf ck req ap = (case ap_limiter ap of
       None \<Rightarrow> after_limiter cf ck req ap
     | Some rl \<Rightarrow> (case limit_request (ck_now ck) (rq_path req) (rq_ip req) rl of
           (rl', Reject _) \<Rightarrow> reply (ap\<lparr>ap_limiter := Some rl'\<rparr>) (error_response 429 ''rate limit exceeded'')
         | (rl', Pass) \<Rightarrow> after_limiter cf ck req (ap\<lparr>ap_limiter := Some rl'\<rparr>)))"

end
