(* ===== verification/Text.thy ===== *)
theory Text
  imports Http
begin

text \<open>
  What the dashboard needs of JavaScript's strings beyond \<open>JsString\<close>: texts with characters
  outside Latin-1 as lists of UTF-16 code units, \<open>String(v)\<close> of a JSON value, \<open>JSON.stringify\<close>,
  \<open>toFixed(1)\<close>, \<open>toLowerCase\<close>, and \<open>slice(-n)\<close> of an array. \<open>str\<close> is the conversion of a number
  that is not an integer below \<open>10 ^ 21\<close> to its shortest decimal representation.
\<close>

section \<open>Code units\<close>

type_synonym utf16 = "nat list"

definition units :: "jsstring \<Rightarrow> utf16" where
  "units s = map of_char s"

definition em_dash :: utf16 where
  "em_dash = [8212]"

definition repeat :: "nat \<Rightarrow> 'a list \<Rightarrow> 'a list" where
  "repeat n t = concat (replicate n t)"

definition slice_last :: "nat \<Rightarrow> 'a list \<Rightarrow> 'a list" where
  \<comment> \<open>\<open>xs.slice(-n)\<close> for \<open>n > 0\<close>\<close>
  "slice_last n xs = drop (length xs - n) xs"

definition push_capped :: "nat \<Rightarrow> 'a list \<Rightarrow> 'a \<Rightarrow> 'a list" where
  \<comment> \<open>\<open>[...xs.slice(-(cap - 1)), x]\<close>\<close>
  "push_capped cap xs x = slice_last (cap - 1) xs @ [x]"

definition lower_char :: "char \<Rightarrow> char" where
  "lower_char c = (let n = of_char c :: nat
     in if 65 \<le> n \<and> n \<le> 90 \<or> 192 \<le> n \<and> n \<le> 222 \<and> n \<noteq> 215 then char_of (n + 32) else c)"

definition toLowerCase :: "jsstring \<Rightarrow> jsstring" where
  "toLowerCase s = map lower_char s"

section \<open>Numbers and JSON values as text\<close>

definition show_int :: "int \<Rightarrow> jsstring" where
  "show_int i = (if i < 0 then CHR ''-'' # show_nat (nat (- i)) else show_nat (nat i))"

definition rat_text :: "(rat \<Rightarrow> jsstring) \<Rightarrow> rat \<Rightarrow> jsstring" where
  "rat_text str q = (if of_int \<lfloor>q\<rfloor> = q \<and> \<bar>q\<bar> < 10 ^ 21 then show_int \<lfloor>q\<rfloor> else str q)"

fun num_text :: "(rat \<Rightarrow> jsstring) \<Rightarrow> jsnum \<Rightarrow> jsstring" where
  "num_text str (Fin q) = rat_text str q"
| "num_text str PosInf = ''Infinity''"
| "num_text str NegInf = ''-Infinity''"
| "num_text str NaN = ''NaN''"

fun to_text :: "(rat \<Rightarrow> jsstring) \<Rightarrow> json \<Rightarrow> jsstring" where
  \<comment> \<open>\<open>String(v)\<close>; the elements \<open>null\<close> of an array are empty\<close>
  "to_text str JNull = ''null''"
| "to_text str (JBool b) = (if b then ''true'' else ''false'')"
| "to_text str (JNum x) = num_text str x"
| "to_text str (JStr s) = s"
| "to_text str (JArr xs) = join_on CHR '','' (map (\<lambda>x. if x = JNull then [] else to_text str x) xs)"
| "to_text str (JObj fs) = ''[object Object]''"

definition opt_text :: "(rat \<Rightarrow> jsstring) \<Rightarrow> json option \<Rightarrow> jsstring" where
  "opt_text str v = (case v of None \<Rightarrow> ''undefined'' | Some j \<Rightarrow> to_text str j)"

definition quote_char :: "char \<Rightarrow> jsstring" where
  "quote_char c = (let n = of_char c :: nat
     in if n = 34 \<or> n = 92 then [char_of (92 :: nat), c]
        else if n = 8 then char_of (92 :: nat) # ''b''
        else if n = 9 then char_of (92 :: nat) # ''t''
        else if n = 10 then char_of (92 :: nat) # ''n''
        else if n = 12 then char_of (92 :: nat) # ''f''
        else if n = 13 then char_of (92 :: nat) # ''r''
        else if n < 32 then char_of (92 :: nat) # ''u00'' @ [digit_char (n div 16),
          if n mod 16 < 10 then digit_char (n mod 16) else char_of (87 + n mod 16)]
        else [c])"

definition json_quote :: "jsstring \<Rightarrow> jsstring" where
  "json_quote s = char_of (34 :: nat) # concat (map quote_char s) @ [char_of (34 :: nat)]"

fun stringify :: "(rat \<Rightarrow> jsstring) \<Rightarrow> json \<Rightarrow> jsstring" where
  "stringify str JNull = ''null''"
| "stringify str (JBool b) = (if b then ''true'' else ''false'')"
| "stringify str (JNum x) = (if is_finite x then num_text str x else ''null'')"
| "stringify str (JStr s) = json_quote s"
| "stringify str (JArr xs) = ''['' @ join_on CHR '','' (map (stringify str) xs) @ '']''"
| "stringify str (JObj fs) = ''{'' @ join_on CHR '','' (map (\<lambda>(k, v). json_quote k @ '':'' @ stringify str v) fs) @ ''}''"

definition to_fixed1 :: "(rat \<Rightarrow> jsstring) \<Rightarrow> jsnum \<Rightarrow> jsstring" where
  \<comment> \<open>\<open>toFixed(1)\<close>: of two nearest numbers with one decimal, the larger in magnitude\<close>
  "to_fixed1 str x = (case x of
       Fin q \<Rightarrow> if 10 ^ 21 \<le> \<bar>q\<bar> then rat_text str q
         else let n = nat \<lfloor>\<bar>q\<bar> * 10 + 1 / 2\<rfloor>
           in (if q < 0 then ''-'' else []) @ show_nat (n div 10) @ ''.'' @ show_nat (n mod 10)
     | _ \<Rightarrow> num_text str x)"

fun json_truthy :: "json option \<Rightarrow> bool" where
  "json_truthy None = False"
| "json_truthy (Some JNull) = False"
| "json_truthy (Some (JBool b)) = b"
| "json_truthy (Some (JNum x)) = (x \<noteq> Fin 0 \<and> x \<noteq> NaN)"
| "json_truthy (Some (JStr s)) = (s \<noteq> [])"
| "json_truthy (Some _) = True"

section \<open>Capped lists\<close>

lemma length_slice_last [simp]: "length (slice_last n xs) = min n (length xs)"
  by (simp add: slice_last_def)

lemma slice_last_all [simp]: "length xs \<le> n \<Longrightarrow> slice_last n xs = xs"
  by (simp add: slice_last_def)

lemma slice_last_snoc: "slice_last (Suc n) (xs @ [x]) = slice_last n xs @ [x]"
  by (simp add: slice_last_def)

lemma slice_last_slice: "m \<le> n \<Longrightarrow> slice_last m (slice_last n xs) = slice_last m xs"
  by (auto simp: slice_last_def intro!: arg_cong [where f = "\<lambda>k. drop k xs"])

lemma push_capped_slice: "0 < cap \<Longrightarrow> push_capped cap (slice_last cap xs) x = slice_last cap (xs @ [x])"
  by (cases cap) (simp_all add: push_capped_def slice_last_snoc slice_last_slice)

lemma foldl_push_capped: "0 < cap \<Longrightarrow> foldl (push_capped cap) (slice_last cap xs) ys = slice_last cap (xs @ ys)"
  by (induction ys arbitrary: xs) (simp_all add: push_capped_slice)

lemma length_push_capped: "0 < cap \<Longrightarrow> length (push_capped cap xs x) \<le> cap"
  by (simp add: push_capped_def)

lemma units_append [simp]: "units (s @ t) = units s @ units t"
  by (simp add: units_def)

lemma units_inject [simp]: "units s = units t \<longleftrightarrow> s = t"
  by (simp add: units_def inj_map_eq_map inj_def)

lemma to_text_nat [simp]: "n < 10 ^ 21 \<Longrightarrow> to_text str (json_nat n) = show_nat n"
  by (simp add: json_nat_def num_of_nat_def rat_text_def show_int_def)

end
