(* ===== verification/AppSpec.thy ===== *)
theory AppSpec
  imports App Text
begin

text \<open>
  What the REST API of \<open>App\<close> promises: an invariant of every reachable state, what a request
  does to the store and what it forwards, the convergence of a primary and its replica as a
  whole, all-or-nothing restore, and the guards of the chain.
\<close>

section \<open>Runs of requests\<close>

type_synonym app_input = "clock \<times> http_request"

fun app_step :: "app_config \<Rightarrow> node_app \<Rightarrow> app_input \<Rightarrow> node_app" where
  "app_step cf ap (ck, req) = fst (app_handle cf ck req ap)"

definition app_run :: "app_config \<Rightarrow> node_app \<Rightarrow> app_input list \<Rightarrow> node_app" where
  "app_run cf ap ins = foldl (app_step cf) ap ins"

fun sent :: "app_config \<Rightarrow> node_app \<Rightarrow> app_input list \<Rightarrow> (time_ms \<times> jsstring \<times> ReplicationOp) list" where
  \<comment> \<open>the operations forwarded during a run, each with the time its handler applied it\<close>
  "sent cf ap [] = []"
| "sent cf ap ((ck, req) # ins) = (case app_handle cf ck req ap of (ap', r, ops) \<Rightarrow>
     map (\<lambda>(url, op). (ck_op ck, url, op)) ops @ sent cf ap' ins)"

fun replicated :: "app_config \<Rightarrow> node_app \<Rightarrow> app_input list \<Rightarrow> (time_ms \<times> ReplicationOp) list" where
  \<comment> \<open>the operations of the replicate requests that were answered with 200\<close>
  "replicated cf ap [] = []"
| "replicated cf ap ((ck, req) # ins) = (case app_handle cf ck req ap of (ap', r, ops) \<Rightarrow>
     (case rq_route req of ReplicateR (ReplOp op) \<Rightarrow> if res_status r = 200 then [(ck_op ck, op)] else [] | _ \<Rightarrow> []) @
     replicated cf ap' ins)"

section \<open>What a request does to the store\<close>

definition client_write :: "app_config \<Rightarrow> clock \<Rightarrow> http_request \<Rightarrow> json option \<Rightarrow> ReplicationOp option" where
  \<comment> \<open>the operation that an accepted write of a client stands for\<close>
  "client_write cf ck req body = (case rq_route req of
       SetR \<Rightarrow> (case validateEntry (cf_maxKeyLength cf) (ck_now ck) body of
           Inl e \<Rightarrow> None | Inr (k, v, ttl) \<Rightarrow> Some (RSet k v ttl))
     | DeleteR k \<Rightarrow> Some (RDelete k)
     | InvalidateR \<Rightarrow> (case as_string (read_field ''prefix'' (nullish_to_obj body)) of
           None \<Rightarrow> None | Some p \<Rightarrow> if cf_maxKeyLength cf < length p then None else Some (RInvalidate p))
     | FlushR \<Rightarrow> Some RFlush
     | _ \<Rightarrow> None)"

definition read_op :: "clock \<Rightarrow> http_request \<Rightarrow> cache_op option" where
  "read_op ck req = (case rq_route req of
       GetR k \<Rightarrow> Some (OpGetWithTtl (ck_ttl ck) k)
     | KeysR \<Rightarrow> Some OpKeys
     | KeysStatsR \<Rightarrow> Some OpDetailedKeys
     | SnapshotR \<Rightarrow> Some OpExport
     | _ \<Rightarrow> None)"

definition is_write_route :: "route \<Rightarrow> bool" where
  "is_write_route r \<longleftrightarrow> (case r of SetR \<Rightarrow> True | DeleteR _ \<Rightarrow> True | InvalidateR \<Rightarrow> True | FlushR \<Rightarrow> True | RestoreR \<Rightarrow> True | _ \<Rightarrow> False)"

definition changes_role :: "route \<Rightarrow> bool" where
  "changes_role r \<longleftrightarrow> r \<in> {PromoteR, RequestVoteR, LeaderR}"

lemmas handler_defs = post_set_def get_key_def predict_key_def delete_key_def post_invalidate_def get_keys_def
  get_keys_stats_def get_snapshot_def post_restore_def post_flush_def post_replicate_def with_role_def
  get_metrics_def get_metrics_history_def get_version_def get_health_def reply_def

lemma route_primary:
  assumes "nr_role (ap_role ap) = Primary" and "rq_route req \<noteq> RestoreR" and "\<forall>b. rq_route req \<noteq> ReplicateR b"
    and "app_route cf ck req body ap = (ap', r, ops)"
  shows "(case client_write cf ck req body of
      Some op \<Rightarrow> ap_store ap' = applyReplicationOp (ck_op ck) (ap_store ap) op \<and>
        ops = forwardToReplicas (nr_replicaUrls (ap_role ap)) op \<and> res_status r = 200
    | None \<Rightarrow> ops = [] \<and> ap_store ap' = (case read_op ck req of Some q \<Rightarrow> read_step (ck_op ck) q (ap_store ap) | None \<Rightarrow> ap_store ap) \<and>
        (is_write_route (rq_route req) \<longrightarrow> res_status r = 400))"
  using assms
  by (cases "rq_route req")
    (auto simp: app_route.simps handler_defs rejectIfReplica_def client_write_def read_op_def read_step_def is_write_route_def
      split: prod.splits option.splits sum.splits if_splits json.splits)

lemma route_replica:
  assumes "nr_role (ap_role ap) = Replica" and "app_route cf ck req body ap = (ap', r, ops)"
  shows "ops = [] \<and> (is_write_route (rq_route req) \<longrightarrow> res_status r = 409 \<and> ap' = ap) \<and>
    ap_store ap' = (case rq_route req of
      ReplicateR (ReplOp op) \<Rightarrow> applyReplicationOp (ck_op ck) (ap_store ap) op
    | _ \<Rightarrow> (case read_op ck req of Some q \<Rightarrow> read_step (ck_op ck) q (ap_store ap) | None \<Rightarrow> ap_store ap)) \<and>
    (\<forall>op. rq_route req = ReplicateR (ReplOp op) \<longrightarrow> res_status r = 200)"
  using assms
  by (cases "rq_route req")
    (auto simp: app_route.simps handler_defs rejectIfReplica_def read_op_def read_step_def is_write_route_def
      split: prod.splits option.splits replicate_body.splits)

lemma route_role: "\<not> changes_role (rq_route req) \<Longrightarrow> ap_role (fst (app_route cf ck req body ap)) = ap_role ap"
  by (cases "rq_route req")
    (auto simp: app_route.simps handler_defs changes_role_def split: prod.splits option.splits sum.splits json.splits replicate_body.splits)

lemma route_limiter: "ap_limiter (fst (app_route cf ck req body ap)) = ap_limiter ap"
  by (cases "rq_route req")
    (auto simp: app_route.simps handler_defs split: prod.splits option.splits sum.splits json.splits replicate_body.splits)

text \<open>
  A request either is stopped by the chain - nothing but the limiter changes - or reaches its
  handler.
\<close>

definition app_limited :: "clock \<Rightarrow> http_request \<Rightarrow> node_app \<Rightarrow> node_app + node_app" where
  \<comment> \<open>the limiter's part of a request: \<open>Inl\<close> when it answers with 429\<close>
  "app_limited ck req ap = (case ap_limiter ap of
       None \<Rightarrow> Inr ap
     | Some rl \<Rightarrow> (case limit_request (ck_now ck) (rq_path req) (rq_ip req) rl of
           (rl', Reject _) \<Rightarrow> Inl (ap\<lparr>ap_limiter := Some rl'\<rparr>)
         | (rl', Pass) \<Rightarrow> Inr (ap\<lparr>ap_limiter := Some rl'\<rparr>)))"

lemma app_handle_limited: "app_handle cf ck req ap = (case app_limited ck req ap of
    Inl ap' \<Rightarrow> reply ap' (error_response 429 ''rate limit exceeded'') | Inr ap' \<Rightarrow> after_limiter cf ck req ap')"
  by (simp add: app_handle_def app_limited_def split: option.splits prod.splits verdict.splits)

lemma app_limited_shape: "\<exists>rl. app_limited ck req ap \<in> {Inl (ap\<lparr>ap_limiter := rl\<rparr>), Inr (ap\<lparr>ap_limiter := rl\<rparr>)}"
proof (cases "ap_limiter ap")
  case None
  then have "ap = ap\<lparr>ap_limiter := None\<rparr>" by simp
  then show ?thesis unfolding app_limited_def None by auto
next
  case (Some rl)
  obtain rl' v where "limit_request (ck_now ck) (rq_path req) (rq_ip req) rl = (rl', v)" by fastforce
  then show ?thesis using Some by (intro exI [of _ "Some rl'"]) (cases v; simp add: app_limited_def)
qed

lemma app_handle_cases:
  obtains (stopped) rl r where "app_handle cf ck req ap = (ap\<lparr>ap_limiter := rl\<rparr>, r, [])" "res_status r \<in> {400, 401, 413, 429, 500}"
  | (routed) rl body where "app_handle cf ck req ap = app_route cf ck req body (ap\<lparr>ap_limiter := rl\<rparr>)"
      "rq_body req = Parsed body" "createAuthMiddleware (cf_apiKey cf) (rq_path req) (rq_headers req)"
proof (cases "app_limited ck req ap")
  case (Inl a)
  then obtain rl where "a = ap\<lparr>ap_limiter := rl\<rparr>" using app_limited_shape [of ck req ap] by auto
  then show ?thesis using Inl by (intro stopped [of rl "error_response 429 ''rate limit exceeded''"]) (simp_all add: app_handle_limited reply_def)
next
  case (Inr a)
  then obtain rl where a: "a = ap\<lparr>ap_limiter := rl\<rparr>" using app_limited_shape [of ck req ap] by auto
  have h: "app_handle cf ck req ap = after_limiter cf ck req a" using Inr by (simp add: app_handle_limited)
  show ?thesis
  proof (cases "createAuthMiddleware (cf_apiKey cf) (rq_path req) (rq_headers req)")
    case True
    show ?thesis
    proof (cases "rq_body req")
      case (Parsed body)
      show ?thesis by (rule routed [of body rl]) (use h a True Parsed in \<open>simp_all add: after_limiter_def\<close>)
    next
      case Malformed
      show ?thesis by (rule stopped [of rl "error_response 400 ''malformed JSON body''"]) (use h a True Malformed in \<open>simp_all add: after_limiter_def reply_def\<close>)
    next
      case TooLarge
      show ?thesis by (rule stopped [of rl "error_response 413 ''request body too large (max 64kb)''"]) (use h a True TooLarge in \<open>simp_all add: after_limiter_def reply_def\<close>)
    next
      case Unreadable
      show ?thesis by (rule stopped [of rl "error_response 500 ''internal server error''"]) (use h a True Unreadable in \<open>simp_all add: after_limiter_def reply_def\<close>)
    qed
  next
    case False
    show ?thesis by (rule stopped [of rl "error_response 401 ''missing or invalid API key''"]) (use h a False in \<open>simp_all add: after_limiter_def reply_def\<close>)
  qed
qed

lemma handle_role: "\<not> changes_role (rq_route req) \<Longrightarrow> ap_role (fst (app_handle cf ck req ap)) = ap_role ap"
  by (rule app_handle_cases [of cf ck req ap]) (auto simp: route_role)

definition events_at :: "time_ms \<Rightarrow> (time_ms \<times> node_event) list \<Rightarrow> bool" where
  "events_at t evs \<longleftrightarrow> (\<forall>e \<in> set evs. fst e = t) \<and> length evs \<le> 1"

lemma handle_primary:
  assumes "nr_role (ap_role ap) = Primary" and "rq_route req \<noteq> RestoreR" and "\<forall>b. rq_route req \<noteq> ReplicateR b"
    and "app_handle cf ck req ap = (ap', r, ops)"
  shows "\<exists>evs. ap_store ap' = node_run (ap_store ap) evs \<and> events_at (ck_op ck) evs \<and>
    ops = concat (map (\<lambda>w. forwardToReplicas (nr_replicaUrls (ap_role ap)) (snd w)) (writes_of evs))"
proof (rule app_handle_cases [of cf ck req ap])
  fix rl r'
  assume "app_handle cf ck req ap = (ap\<lparr>ap_limiter := rl\<rparr>, r', [])"
  then show ?thesis using assms(4) by (intro exI [of _ "[]"]) (simp add: node_run_def events_at_def)
next
  fix rl body
  assume "app_handle cf ck req ap = app_route cf ck req body (ap\<lparr>ap_limiter := rl\<rparr>)"
  then have route: "app_route cf ck req body (ap\<lparr>ap_limiter := rl\<rparr>) = (ap', r, ops)" using assms(4) by simp
  let ?evs = "case client_write cf ck req body of Some op \<Rightarrow> [(ck_op ck, Write op)]
    | None \<Rightarrow> (case read_op ck req of Some q \<Rightarrow> [(ck_op ck, Read q)] | None \<Rightarrow> [])"
  have "ap_store ap' = node_run (ap_store ap) ?evs \<and> events_at (ck_op ck) ?evs \<and>
    ops = concat (map (\<lambda>w. forwardToReplicas (nr_replicaUrls (ap_role ap)) (snd w)) (writes_of ?evs))"
    using route_primary [OF _ assms(2,3) route] assms(1)
    by (auto simp: node_run_def events_at_def split: option.splits)
  then show ?thesis by blast
qed

lemma handle_replica:
  assumes "nr_role (ap_role ap) = Replica" and "app_handle cf ck req ap = (ap', r, ops)"
  shows "\<exists>evs. ap_store ap' = node_run (ap_store ap) evs \<and> events_at (ck_op ck) evs \<and> ops = [] \<and>
    writes_of evs = (case rq_route req of ReplicateR (ReplOp op) \<Rightarrow> if res_status r = 200 then [(ck_op ck, op)] else [] | _ \<Rightarrow> [])"
proof (rule app_handle_cases [of cf ck req ap])
  fix rl r'
  assume "app_handle cf ck req ap = (ap\<lparr>ap_limiter := rl\<rparr>, r', [])" and "res_status r' \<in> {400, 401, 413, 429, 500}"
  then show ?thesis using assms(2)
    by (intro exI [of _ "[]"]) (auto simp: node_run_def events_at_def split: route.splits replicate_body.splits)
next
  fix rl body
  assume "app_handle cf ck req ap = app_route cf ck req body (ap\<lparr>ap_limiter := rl\<rparr>)"
  then have route: "app_route cf ck req body (ap\<lparr>ap_limiter := rl\<rparr>) = (ap', r, ops)" using assms(2) by simp
  let ?evs = "case rq_route req of ReplicateR (ReplOp op) \<Rightarrow> [(ck_op ck, Write op)]
    | _ \<Rightarrow> (case read_op ck req of Some q \<Rightarrow> [(ck_op ck, Read q)] | None \<Rightarrow> [])"
  have "ap_store ap' = node_run (ap_store ap) ?evs \<and> events_at (ck_op ck) ?evs \<and> ops = [] \<and>
    writes_of ?evs = (case rq_route req of ReplicateR (ReplOp op) \<Rightarrow> if res_status r = 200 then [(ck_op ck, op)] else [] | _ \<Rightarrow> [])"
    using route_replica [OF _ route] assms(1)
    by (auto simp: node_run_def events_at_def split: option.splits route.splits replicate_body.splits)
  then show ?thesis by blast
qed

section \<open>A primary and its replica\<close>

lemma writes_of_append: "writes_of (xs @ ys) = writes_of xs @ writes_of ys"
  by (induction xs rule: writes_of.induct) auto

lemma node_run_append: "node_run s (xs @ ys) = node_run (node_run s xs) ys"
  by (simp add: node_run_def)

definition times_within :: "time_ms list \<Rightarrow> time_ms list \<Rightarrow> bool" where
  \<comment> \<open>sorted whenever \<open>ts\<close> is, and among \<open>ts\<close>\<close>
  "times_within xs ts \<longleftrightarrow> set xs \<subseteq> set ts \<and> (sorted ts \<longrightarrow> sorted xs)"

lemma times_within_Cons:
  assumes "events_at t evs" and "times_within (map fst evs') ts"
  shows "times_within (map fst (evs @ evs')) (t # ts)"
proof -
  have "evs = [] \<or> (\<exists>ev. evs = [(t, ev)])"
    using assms(1) by (cases evs) (auto simp: events_at_def)
  then show ?thesis using assms(2) by (auto simp: times_within_def subset_iff)
qed

definition plain_client :: "app_input \<Rightarrow> bool" where
  \<comment> \<open>a client's request that neither changes roles nor restores a snapshot\<close>
  "plain_client i \<longleftrightarrow> \<not> changes_role (rq_route (snd i)) \<and> rq_route (snd i) \<noteq> RestoreR \<and> (\<forall>b. rq_route (snd i) \<noteq> ReplicateR b)"

definition op_times :: "app_input list \<Rightarrow> time_ms list" where
  "op_times ins = map (\<lambda>i. ck_op (fst i)) ins"

lemma primary_trace:
  assumes "nr_role (ap_role ap) = Primary" and "\<forall>i \<in> set ins. plain_client i"
  shows "\<exists>evs. ap_store (app_run cf ap ins) = node_run (ap_store ap) evs \<and> times_within (map fst evs) (op_times ins) \<and>
    sent cf ap ins = concat (map (\<lambda>w. map (\<lambda>(url, op). (fst w, url, op))
      (forwardToReplicas (nr_replicaUrls (ap_role ap)) (snd w))) (writes_of evs))"
  using assms
proof (induction ins arbitrary: ap)
  case Nil
  show ?case by (intro exI [of _ "[]"]) (simp add: app_run_def node_run_def times_within_def)
next
  case (Cons i ins)
  obtain ck req where i: "i = (ck, req)" by (cases i)
  obtain ap' r ops where h: "app_handle cf ck req ap = (ap', r, ops)" by (metis prod_cases3)
  have req: "\<not> changes_role (rq_route req)" "rq_route req \<noteq> RestoreR" "\<forall>b. rq_route req \<noteq> ReplicateR b"
    using Cons.prems(2) i by (simp_all add: plain_client_def)
  have role: "ap_role ap' = ap_role ap" using handle_role [OF req(1), of cf ck ap] h by simp
  obtain evs where evs: "ap_store ap' = node_run (ap_store ap) evs" "events_at (ck_op ck) evs"
      "ops = concat (map (\<lambda>w. forwardToReplicas (nr_replicaUrls (ap_role ap)) (snd w)) (writes_of evs))"
    using handle_primary [OF Cons.prems(1) req(2,3) h] by blast
  obtain evs' where evs': "ap_store (app_run cf ap' ins) = node_run (ap_store ap') evs'"
      "times_within (map fst evs') (op_times ins)"
      "sent cf ap' ins = concat (map (\<lambda>w. map (\<lambda>(url, op). (fst w, url, op))
        (forwardToReplicas (nr_replicaUrls (ap_role ap)) (snd w))) (writes_of evs'))"
    using Cons.IH [of ap'] Cons.prems role by auto
  have times: "\<forall>w \<in> set (writes_of evs). fst w = ck_op ck"
    by (rule writes_of_all) (use evs(2) in \<open>simp add: events_at_def\<close>)
  have "map (\<lambda>(url, op). (ck_op ck, url, op)) ops = concat (map (\<lambda>w. map (\<lambda>(url, op). (fst w, url, op))
      (forwardToReplicas (nr_replicaUrls (ap_role ap)) (snd w))) (writes_of evs))"
    unfolding evs(3) map_concat map_map o_def using times by (intro arg_cong [where f = concat] map_cong) auto
  then show ?case
    using evs(1) evs' h i times_within_Cons [OF evs(2) evs'(2)]
    by (intro exI [of _ "evs @ evs'"]) (simp add: app_run_def op_times_def node_run_append writes_of_append)
qed

lemma replica_trace:
  assumes "nr_role (ap_role ap) = Replica" and "\<forall>i \<in> set ins. \<not> changes_role (rq_route (snd i))"
  shows "\<exists>evs. ap_store (app_run cf ap ins) = node_run (ap_store ap) evs \<and> times_within (map fst evs) (op_times ins) \<and>
    sent cf ap ins = [] \<and> replicated cf ap ins = writes_of evs"
  using assms
proof (induction ins arbitrary: ap)
  case Nil
  show ?case by (intro exI [of _ "[]"]) (simp add: app_run_def node_run_def times_within_def)
next
  case (Cons i ins)
  obtain ck req where i: "i = (ck, req)" by (cases i)
  obtain ap' r ops where h: "app_handle cf ck req ap = (ap', r, ops)" by (metis prod_cases3)
  have "ap_role ap' = ap_role ap" using handle_role [of req cf ck ap] h Cons.prems(2) i by simp
  then obtain evs' where evs': "ap_store (app_run cf ap' ins) = node_run (ap_store ap') evs'"
      "times_within (map fst evs') (op_times ins)" "sent cf ap' ins = []" "replicated cf ap' ins = writes_of evs'"
    using Cons.IH [of ap'] Cons.prems by auto
  obtain evs where evs: "ap_store ap' = node_run (ap_store ap) evs" "events_at (ck_op ck) evs" "ops = []"
      "writes_of evs = (case rq_route req of ReplicateR (ReplOp op) \<Rightarrow> if res_status r = 200 then [(ck_op ck, op)] else [] | _ \<Rightarrow> [])"
    using handle_replica [OF Cons.prems(1) h] by blast
  show ?case
    using evs evs' h i times_within_Cons [OF evs(2) evs'(2)]
    by (intro exI [of _ "evs @ evs'"]) (simp add: app_run_def op_times_def node_run_append writes_of_append)
qed

definition sent_to :: "jsstring \<Rightarrow> (time_ms \<times> jsstring \<times> ReplicationOp) list \<Rightarrow> (time_ms \<times> ReplicationOp) list" where
  "sent_to url xs = map (\<lambda>(t, u, op). (t, op)) (filter (\<lambda>(t, u, op). u = url @ ''/internal/replicate'') xs)"

lemma sent_to_forward:
  assumes "distinct urls" and "url \<in> set urls"
  shows "sent_to url (concat (map (\<lambda>w. map (\<lambda>(u, op). (fst w, u, op)) (forwardToReplicas urls (snd w))) ws)) = ws"
proof (induction ws)
  case Nil
  show ?case by (simp add: sent_to_def)
next
  case (Cons w ws)
  have "filter (\<lambda>u. u = url) urls = [url]" using assms
    by (induction urls) (auto simp: filter_empty_conv)
  then have "sent_to url (map (\<lambda>(u, op). (fst w, u, op)) (forwardToReplicas urls (snd w))) = [w]"
    by (simp add: sent_to_def forwardToReplicas_def filter_map comp_def)
  with Cons show ?case by (simp add: sent_to_def)
qed

text \<open>C3: Primary and replica agree, as whole nodes. Let a primary with a list of distinct replicas
  and one of these replicas both start with empty stores and serve any requests - writes,
  reads, listings, rejected ones - that neither restore a snapshot nor change roles. If the
  replica answered 200 to exactly the operations the primary forwarded to it, in order and
  each at most \<open>D\<close> milliseconds after the primary applied it, and neither node is ever full,
  then keys that never expire read the same on both, a key readable on the primary is
  readable with the same value on the replica, and one still readable on the replica \<open>D\<close>
  later was readable on the primary.\<close>

theorem primary_replica_agree:
  assumes "nr_role (ap_role p) = Primary" and "nr_role (ap_role r) = Replica"
    and "distinct (nr_replicaUrls (ap_role p))" and "url \<in> set (nr_replicaUrls (ap_role p))"
    and "\<forall>i \<in> set pins. plain_client i" and "\<forall>i \<in> set rins. \<not> changes_role (rq_route (snd i))"
    and "cache_ok (ap_store p)" and "cache_ok (ap_store r)" and "entries (ap_store p) = []" and "entries (ap_store r) = []"
    and "ws = sent_to url (sent pcf p pins)" and "delivered D ws (replicated rcf r rins)" and "0 \<le> D"
    and "card (log_keys ws) \<le> maxEntries (ap_store p)" and "card (log_keys ws) \<le> maxEntries (ap_store r)"
    and "sorted (0 # op_times pins)" and "sorted (0 # op_times rins)"
    and "\<forall>x \<in> set (op_times pins) \<union> set (op_times rins). x \<le> t1" and "0 \<le> t1" and "t1 \<le> t"
    and "\<forall>w \<in> set ws. ttl_in_range t1 (snd w)"
  shows "(visible t (ap_store (app_run pcf p pins)) k = Some (v, None)) =
      (visible t (ap_store (app_run rcf r rins)) k = Some (v, None)) \<and>
    (map_option fst (visible t (ap_store (app_run pcf p pins)) k) = Some v \<longrightarrow>
      map_option fst (visible t (ap_store (app_run rcf r rins)) k) = Some v) \<and>
    (map_option fst (visible (t + D) (ap_store (app_run rcf r rins)) k) = Some v \<longrightarrow>
      map_option fst (visible t (ap_store (app_run pcf p pins)) k) = Some v)"
proof -
  obtain pev where pev: "ap_store (app_run pcf p pins) = node_run (ap_store p) pev" "times_within (map fst pev) (op_times pins)"
      "sent pcf p pins = concat (map (\<lambda>w. map (\<lambda>(u, op). (fst w, u, op))
        (forwardToReplicas (nr_replicaUrls (ap_role p)) (snd w))) (writes_of pev))"
    using primary_trace [OF assms(1,5)] by blast
  obtain rvs where rvs: "ap_store (app_run rcf r rins) = node_run (ap_store r) rvs" "times_within (map fst rvs) (op_times rins)"
      "replicated rcf r rins = writes_of rvs"
    using replica_trace [OF assms(2,6)] by blast
  have ws: "ws = writes_of pev" unfolding assms(11) pev(3) by (rule sent_to_forward [OF assms(3,4)])
  have sorted: "sorted (0 # map fst pev)" "sorted (0 # map fst rvs)"
    using assms(16,17) pev(2) rvs(2) unfolding times_within_def sorted_simps by blast+
  have bound: "\<forall>e \<in> set pev \<union> set rvs. fst e \<le> t1"
    using assms(18) pev(2) rvs(2) unfolding times_within_def by (auto simp: subset_iff)
  show ?thesis
    unfolding pev(1) rvs(1)
    by (rule replica_converges) (use assms ws rvs(3) sorted bound in auto)
qed

definition demo_config :: app_config where
  "demo_config = \<lparr>cf_nodeId = ''n'', cf_maxKeyLength = 256, cf_evictionSampleSize = 5, cf_apiKey = None, cf_version = ''1''\<rparr>"

definition demo_app :: "role \<Rightarrow> jsstring list \<Rightarrow> node_app" where
  "demo_app ro urls = \<lparr>ap_store = new_cache (small_opts LRU), ap_metrics = new_metrics 0, ap_predictor = new_predictor None None,
     ap_role = \<lparr>nr_role = ro, nr_replicaUrls = urls, nr_primaryUrl = None, nr_election = new_election ''n''\<rparr>,
     ap_monitor = None, ap_limiter = None\<rparr>"

definition demo_input :: "time_ms \<Rightarrow> route \<Rightarrow> json \<Rightarrow> app_input" where
  "demo_input t rt body = (\<lparr>ck_now = t, ck_op = t, ck_ttl = t, ck_rec = t, ck_us = 1, ck_iso = ''now''\<rparr>,
     \<lparr>rq_route = rt, rq_path = ''/'', rq_headers = (\<lambda>_. None), rq_ip = None, rq_body = Parsed (Some body)\<rparr>)"

definition demo_body :: json where
  "demo_body = JObj [(''key'', JStr ''a''), (''value'', JStr ''1'')]"

definition at_time :: "time_ms \<Rightarrow> clock" where
  "at_time t = fst (demo_input t SnapshotR JNull)"

lemma at_time_simps [simp]: "ck_now (at_time t) = t" "ck_op (at_time t) = t" "ck_ttl (at_time t) = t"
  by (simp_all add: at_time_def demo_input_def)

lemma demo_app_simps [simp]:
  "ap_store (demo_app ro urls) = new_cache (small_opts LRU)" "nr_role (ap_role (demo_app ro urls)) = ro"
  "nr_replicaUrls (ap_role (demo_app ro urls)) = urls" "ap_limiter (demo_app ro urls) = None"
  by (simp_all add: demo_app_def)

lemma demo_store: "cache_ok (new_cache (small_opts p))" "entries (new_cache (small_opts p)) = []" "maxEntries (new_cache (small_opts p)) = 2"
  by (rule new_cache_ok; simp add: small_opts_def) (simp_all add: new_cache_def small_opts_def)

lemma demo_valid: "validateEntry 256 t (Some demo_body) = Inr (''a'', ''1'', None)"
  by (simp add: validateEntry_def demo_body_def nullish_to_obj_def ttl_valid_def trim_def is_ws_def)

lemmas demo_defs = demo_config_def demo_input_def app_handle_def after_limiter_def createAuthMiddleware_def app_route.simps

lemma demo_set:
  assumes "demo_input t SetR demo_body = (ck, req)"
  shows "snd (app_handle demo_config ck req (demo_app Primary urls)) =
    (ok_response [(''ok'', JBool True), (''key'', JStr ''a''), (''ttl'', JNull)], forwardToReplicas urls (RSet ''a'' ''1'' None))"
  using assms by (auto simp: demo_defs post_set_def rejectIfReplica_def demo_valid ttl_json_def)

lemma demo_replicate:
  assumes "demo_input t (ReplicateR (ReplOp op)) body = (ck, req)"
  shows "res_status (fst (snd (app_handle demo_config ck req (demo_app Replica urls)))) = 200"
  using assms by (auto simp: demo_defs post_replicate_def reply_def)

theorem primary_replica_agree_witness:
  "(visible 50 (ap_store (app_run demo_config (demo_app Primary [''r'']) [demo_input 10 SetR demo_body])) ''a'' = Some (''1'', None)) =
   (visible 50 (ap_store (app_run demo_config (demo_app Replica [])
     [demo_input 12 (ReplicateR (ReplOp (RSet ''a'' ''1'' None))) JNull])) ''a'' = Some (''1'', None))"
proof -
  let ?pi = "[demo_input 10 SetR demo_body]" and ?ri = "[demo_input 12 (ReplicateR (ReplOp (RSet ''a'' ''1'' None))) JNull]"
  obtain ck req where i: "demo_input 10 SetR demo_body = (ck, req)" by fastforce
  obtain ck' req' where j: "demo_input 12 (ReplicateR (ReplOp (RSet ''a'' ''1'' None))) JNull = (ck', req')" by fastforce
  have ck: "ck_op ck = 10" "ck_op ck' = 12" "rq_route req' = ReplicateR (ReplOp (RSet ''a'' ''1'' None))" "rq_route req = SetR"
    using i j by (auto simp: demo_input_def)
  have s: "sent_to ''r'' (sent demo_config (demo_app Primary [''r'']) ?pi) = [(10, RSet ''a'' ''1'' None)]"
    using demo_set [OF i, of "[''r'']"] ck
    by (auto simp: i sent_to_def forwardToReplicas_def split: prod.splits)
  have d: "replicated demo_config (demo_app Replica []) ?ri = [(12, RSet ''a'' ''1'' None)]"
    using demo_replicate [OF j, of "[]"] ck by (auto simp: j split: prod.splits)
  have i': "plain_client (demo_input 10 SetR demo_body)" "op_times ?pi = [10]" "op_times ?ri = [12]"
      "\<forall>i \<in> set ?ri. \<not> changes_role (rq_route (snd i))"
    by (simp_all add: demo_input_def plain_client_def changes_role_def op_times_def)
  show ?thesis
    by (rule primary_replica_agree [where D = 10 and ?t1.0 = 50 and t = 50 and url = "''r''", THEN conjunct1])
      (simp_all only: s d i' demo_app_simps demo_store, simp_all add: i' delivered_def log_keys_def)
qed

section \<open>Validated entries\<close>

definition key_ok :: "nat \<Rightarrow> jsstring \<Rightarrow> bool" where
  "key_ok maxKeyLength k \<longleftrightarrow> trim k \<noteq> [] \<and> length k \<le> maxKeyLength"

lemma validateEntry_Inr:
  "validateEntry mk now input = Inr (k, v, ttl) \<longleftrightarrow>
    read_field ''key'' (nullish_to_obj input) = Some (JStr k) \<and> key_ok mk k \<and>
    read_field ''value'' (nullish_to_obj input) = Some (JStr v) \<and>
    (case ttl of None \<Rightarrow> read_field ''ttl'' (nullish_to_obj input) \<in> {None, Some JNull}
     | Some t \<Rightarrow> read_field ''ttl'' (nullish_to_obj input) = Some (JNum t) \<and> ttl_valid now (Some (JNum t)))"
proof -
  have s: "as_string x = Some y \<longleftrightarrow> x = Some (JStr y)" for x y by (cases x rule: as_string.cases) auto
  show ?thesis
    by (cases "read_field ''ttl'' (nullish_to_obj input)"; cases ttl)
      (auto simp: validateEntry_def Let_def key_ok_def s ttl_valid_def not_less as_number.simps split: option.splits if_splits json.splits)
qed

lemma validate_all_Inr:
  "validate_all mk now i ks acc = Inr rows \<longleftrightarrow>
    (\<exists>new. rows = acc @ new \<and> map (\<lambda>k. validateEntry mk now (Some k)) ks = map Inr new)"
proof (induction mk now i ks acc arbitrary: rows rule: validate_all.induct)
  case (2 mk now i k ks acc)
  then show ?case by (cases "validateEntry mk now (Some k)") (auto simp: Cons_eq_map_conv map_eq_Cons_conv)
qed auto

lemma validate_all_Inl:
  "validate_all mk now i ks acc = Inl (j, e) \<Longrightarrow> i \<le> j \<and> j < i + length ks \<and>
    validateEntry mk now (Some (ks ! (j - i))) = Inl e \<and>
    (\<forall>l < j - i. \<exists>row. validateEntry mk now (Some (ks ! l)) = Inr row)"
proof (induction mk now i ks acc rule: validate_all.induct)
  case (2 mk now i k ks acc)
  show ?case
  proof (cases "validateEntry mk now (Some k)")
    case (Inl e')
    then show ?thesis using 2 by simp
  next
    case (Inr row)
    then have "i + 1 \<le> j \<and> j < i + 1 + length ks \<and> validateEntry mk now (Some (ks ! (j - (i + 1)))) = Inl e \<and>
        (\<forall>l < j - (i + 1). \<exists>row. validateEntry mk now (Some (ks ! l)) = Inr row)"
      using 2 by simp
    moreover have "(k # ks) ! l = (if l = 0 then k else ks ! (l - 1))" for l by (cases l) auto
    moreover have "\<forall>l < j - i. l \<noteq> 0 \<longrightarrow> l - 1 < j - (i + 1)" by auto
    ultimately show ?thesis using Inr by (cases row) (auto simp: nth_Cons')
  qed
qed simp

lemma client_write_keys: "client_write cf ck req body = Some op \<Longrightarrow> \<forall>k \<in> op_keys op. key_ok (cf_maxKeyLength cf) k"
  by (auto simp: client_write_def validateEntry_Inr split: route.splits sum.splits option.splits if_splits)

lemma validated_keys:
  assumes "validate_all mk now i ks [] = Inr rows"
  shows "\<forall>k \<in> log_keys (writes_of (rows_events t rows)). key_ok mk k"
proof -
  have "map (\<lambda>k. validateEntry mk now (Some k)) ks = map Inr rows" using assms by (simp add: validate_all_Inr)
  then have "\<forall>row \<in> set rows. key_ok mk (fst row)"
    by (metis (no_types, lifting) image_iff list.set_map prod.collapse validateEntry_Inr)
  then show ?thesis by (auto simp: writes_of_rows log_keys_def)
qed

section \<open>An invariant of every node\<close>

lemma route_store:
  assumes "app_route cf ck req body ap = (ap', r, ops)"
  shows "\<exists>evs. ap_store ap' = node_run (ap_store ap) evs \<and>
    ((\<forall>b. rq_route req \<noteq> ReplicateR b) \<longrightarrow> (\<forall>k \<in> log_keys (writes_of evs). key_ok (cf_maxKeyLength cf) k))"
proof (cases "nr_role (ap_role ap)")
  case Replica
  let ?evs = "case rq_route req of ReplicateR (ReplOp op) \<Rightarrow> [(ck_op ck, Write op)]
    | _ \<Rightarrow> (case read_op ck req of Some q \<Rightarrow> [(ck_op ck, Read q)] | None \<Rightarrow> [])"
  show ?thesis using route_replica [OF Replica assms]
    by (intro exI [of _ ?evs]) (auto simp: node_run_def log_keys_def split: option.splits route.splits replicate_body.splits)
next
  case Primary
  show ?thesis
  proof (cases "rq_route req = RestoreR \<or> (\<exists>b. rq_route req = ReplicateR b)")
    case False
    let ?evs = "case client_write cf ck req body of Some op \<Rightarrow> [(ck_op ck, Write op)]
      | None \<Rightarrow> (case read_op ck req of Some q \<Rightarrow> [(ck_op ck, Read q)] | None \<Rightarrow> [])"
    show ?thesis using route_primary [OF Primary _ _ assms] False client_write_keys [of cf ck req body]
      by (intro exI [of _ ?evs]) (auto simp: node_run_def log_keys_def split: option.splits)
  next
    case True
    then consider "rq_route req = RestoreR" | b where "rq_route req = ReplicateR b" by blast
    then show ?thesis
    proof cases
      case 1
      then show ?thesis using assms Primary validated_keys
        by (auto simp: app_route.simps handler_defs rejectIfReplica_def load_rows_node_run
            intro: exI [of _ "[]"] split: option.splits json.splits sum.splits) (auto simp: node_run_def log_keys_def intro: exI [of _ "[]"])
    next
      case (2 b)
      let ?evs = "case b of ReplOp op \<Rightarrow> [(ck_op ck, Write op)] | _ \<Rightarrow> []"
      show ?thesis using assms 2
        by (intro exI [of _ ?evs]) (auto simp: app_route.simps handler_defs node_run_def split: replicate_body.splits)
    qed
  qed
qed

lemma node_run_frame:
  assumes "cache_ok s"
  shows "cache_ok (node_run s evs) \<and> maxEntries (node_run s evs) = maxEntries s \<and>
    stored_keys (node_run s evs) \<subseteq> log_keys (writes_of evs) \<union> stored_keys s"
  using assms
proof (induction evs arbitrary: s)
  case Nil
  then show ?case by (simp add: node_run_def)
next
  case (Cons e evs)
  obtain now ev where e: "e = (now, ev)" by (cases e)
  note st = node_step_ok [OF Cons.prems, of now ev]
  have "node_run s (e # evs) = node_run (node_step s (now, ev)) evs" by (simp add: e node_run_def)
  moreover have "log_keys (writes_of (e # evs)) = log_keys (writes_of [(now, ev)]) \<union> log_keys (writes_of evs)"
    using log_keys_Cons [of e evs] e by simp
  ultimately show ?case using Cons.IH [OF st(1)] st by auto
qed

lemma record_samples: "length (latenciesUs m) \<le> LATENCY_SAMPLE_CAP \<Longrightarrow>
    length (latenciesUs (metrics_record op us hit now m)) \<le> LATENCY_SAMPLE_CAP"
proof -
  have n: "latenciesUs (note_time now x) = latenciesUs x" for x by (simp add: note_time_def Let_def)
  have c: "latenciesUs (count_op op hit x) = latenciesUs x" for x by (simp add: count_op_def split: OpType.splits)
  show "length (latenciesUs m) \<le> LATENCY_SAMPLE_CAP \<Longrightarrow> ?thesis"
    by (simp add: metrics_record_def n add_sample_def c)
qed

lemma route_other:
  assumes "app_route cf ck req body ap = (ap', r, ops)"
  shows "(\<exists>k. ap_predictor ap' = predictor_record k (ap_predictor ap)) \<or> ap_predictor ap' = ap_predictor ap"
    and "(\<exists>op us hit now. ap_metrics ap' = metrics_record op us hit now (ap_metrics ap)) \<or> ap_metrics ap' = ap_metrics ap"
    and "ap_limiter ap' = ap_limiter ap"
  using assms
  by (cases "rq_route req";
      fastforce simp: app_route.simps handler_defs split: prod.splits option.splits sum.splits json.splits if_splits replicate_body.splits)+

definition app_ok :: "node_app \<Rightarrow> bool" where
  "app_ok ap \<longleftrightarrow> cache_ok (ap_store ap) \<and> predictor_ok (ap_predictor ap) \<and>
     length (latenciesUs (ap_metrics ap)) \<le> LATENCY_SAMPLE_CAP \<and> (\<forall>rl. ap_limiter ap = Some rl \<longrightarrow> limiter_ok rl)"

definition app_caps :: "node_app \<Rightarrow> nat \<times> nat \<times> nat \<times> nat option" where
  "app_caps ap = (maxEntries (ap_store ap), maxTrackedKeys (ap_predictor ap), maxCandidatesPerKey (ap_predictor ap),
     map_option rl_maxTrackedClients (ap_limiter ap))"

lemma app_route_ok:
  assumes "app_ok ap" and "app_route cf ck req body ap = (ap', r, ops)"
  shows "app_ok ap' \<and> app_caps ap' = app_caps ap"
proof -
  obtain evs where "ap_store ap' = node_run (ap_store ap) evs" using route_store [OF assms(2)] by blast
  then have "cache_ok (ap_store ap') \<and> maxEntries (ap_store ap') = maxEntries (ap_store ap)"
    using assms(1) node_run_frame by (simp add: app_ok_def)
  then show ?thesis
    using route_other [OF assms(2)] assms(1) unfolding app_ok_def app_caps_def
    by (auto simp: inv_intros frame_simps record_samples)
qed

lemma limited_ok:
  assumes "app_ok ap"
  shows "\<exists>b. app_limited ck req ap = Inl b \<and> app_ok b \<and> app_caps b = app_caps ap \<and> ap_store b = ap_store ap
    \<or> app_limited ck req ap = Inr b \<and> app_ok b \<and> app_caps b = app_caps ap \<and> ap_store b = ap_store ap"
proof (cases "ap_limiter ap")
  case None
  then show ?thesis using assms by (simp add: app_limited_def)
next
  case (Some rl)
  obtain rl' v where l: "limit_request (ck_now ck) (rq_path req) (rq_ip req) rl = (rl', v)" by fastforce
  have "limiter_ok rl" using assms Some by (simp add: app_ok_def)
  then have "limiter_ok rl'" "rl_maxTrackedClients rl' = rl_maxTrackedClients rl"
    using limit_request_ok [of rl "ck_now ck" "rq_path req" "rq_ip req"]
      limit_request_settings(3) [of "ck_now ck" "rq_path req" "rq_ip req" rl] l by simp_all
  then show ?thesis using assms Some l by (cases v) (auto simp: app_limited_def app_ok_def app_caps_def)
qed

lemma app_handle_ok:
  assumes "app_ok ap" and "app_handle cf ck req ap = (ap', r, ops)"
  shows "app_ok ap' \<and> app_caps ap' = app_caps ap"
proof -
  obtain b where b: "app_limited ck req ap \<in> {Inl b, Inr b}" "app_ok b" "app_caps b = app_caps ap"
    using limited_ok [OF assms(1), of ck req] by blast
  have "app_ok a \<and> app_caps a = app_caps ap" if "after_limiter cf ck req b = (a, r, ops)" for a
    using that b app_route_ok [OF b(2), of cf ck req]
    by (auto simp: after_limiter_def reply_def split: if_splits parsed_body.splits)
  then show ?thesis using assms(2) b by (auto simp: app_handle_limited reply_def)
qed

lemma app_run_ok: "app_ok ap \<Longrightarrow> app_ok (app_run cf ap ins) \<and> app_caps (app_run cf ap ins) = app_caps ap"
proof (induction ins arbitrary: ap)
  case Nil
  then show ?case by (simp add: app_run_def)
next
  case (Cons i ins)
  obtain ck req where i: "i = (ck, req)" by (cases i)
  obtain ap' r ops where h: "app_handle cf ck req ap = (ap', r, ops)" by (metis prod_cases3)
  show ?case using Cons.IH [of ap'] app_handle_ok [OF Cons.prems h] by (simp add: app_run_def i h)
qed

section \<open>Properties of a node\<close>

lemma parse_nonzero: "0 < fallback \<Longrightarrow> parsePositiveInt v fallback cap \<noteq> 0"
  using parsePositiveInt_pos [of fallback v cap] by simp

lemma new_app_ok: "app_ok (new_app env t0)"
  by (auto simp: app_ok_def new_app_def new_predictor_def predictor_ok_def jm_size_def new_metrics_def new_limiter_def
      limiter_ok_def createRateLimiter_def DEFAULT_MAX_TRACKED_KEYS_def DEFAULT_MAX_TRACKED_CLIENTS_def
      parse_nonzero intro!: new_cache_ok split: option.splits)

lemma new_app_caps: "app_caps (new_app env t0) =
    (parsePositiveInt (env ''INKCACHE_MAX_ENTRIES'') 512 None, 2000, 20, map_option (\<lambda>_. 10000) (env ''INKCACHE_RATE_LIMIT''))"
  by (simp add: app_caps_def new_app_def new_cache_def new_predictor_def new_limiter_def createRateLimiter_def
      DEFAULT_MAX_TRACKED_KEYS_def DEFAULT_MAX_CANDIDATES_PER_KEY_def DEFAULT_MAX_TRACKED_CLIENTS_def split: option.splits)

lemma app_within_caps:
  assumes "app_ok ap" and "app_caps ap = app_caps (new_app env t0)"
  shows "cache_size (ap_store ap) \<le> parsePositiveInt (env ''INKCACHE_MAX_ENTRIES'') 512 None \<and>
    distinct (jm_keys (entries (ap_store ap))) \<and> predictor_size (ap_predictor ap) \<le> 2000 \<and>
    (\<forall>(f, cs) \<in> set (transitions (ap_predictor ap)). jm_size cs \<le> 20) \<and>
    length (latenciesUs (ap_metrics ap)) \<le> 512 \<and>
    (\<forall>rl. ap_limiter ap = Some rl \<longrightarrow> jm_size (rl_buckets rl) \<le> 10000)"
proof -
  have "cache_ok (ap_store ap)" "predictor_ok (ap_predictor ap)" "length (latenciesUs (ap_metrics ap)) \<le> 512"
    "\<forall>rl. ap_limiter ap = Some rl \<longrightarrow> limiter_ok rl"
    using assms(1) by (simp_all add: app_ok_def LATENCY_SAMPLE_CAP_def)
  moreover have "maxEntries (ap_store ap) = parsePositiveInt (env ''INKCACHE_MAX_ENTRIES'') 512 None"
    "maxTrackedKeys (ap_predictor ap) = 2000" "maxCandidatesPerKey (ap_predictor ap) = 20"
    "\<forall>rl. ap_limiter ap = Some rl \<longrightarrow> rl_maxTrackedClients rl = 10000"
    using assms(2) unfolding new_app_caps by (auto simp: app_caps_def dest!: map_option_eq_Some [THEN iffD1, OF sym])
  ultimately show ?thesis
    by (auto simp: cache_size_def cache_ok_def predictor_ok_def predictor_size_def candidates_ok_def limiter_ok_def jm_wf_keys)
qed

lemma handle_store:
  assumes "app_handle cf ck req ap = (ap', r, ops)"
  shows "\<exists>evs. ap_store ap' = node_run (ap_store ap) evs \<and>
    ((\<forall>b. rq_route req \<noteq> ReplicateR b) \<longrightarrow> (\<forall>k \<in> log_keys (writes_of evs). key_ok (cf_maxKeyLength cf) k))"
proof (rule app_handle_cases [of cf ck req ap])
  fix rl r'
  assume "app_handle cf ck req ap = (ap\<lparr>ap_limiter := rl\<rparr>, r', [])"
  then show ?thesis using assms by (intro exI [of _ "[]"]) (simp add: node_run_def log_keys_def)
next
  fix rl body
  assume "app_handle cf ck req ap = app_route cf ck req body (ap\<lparr>ap_limiter := rl\<rparr>)"
  then have "app_route cf ck req body (ap\<lparr>ap_limiter := rl\<rparr>) = (ap', r, ops)" using assms by simp
  from route_store [OF this] show ?thesis by simp
qed

text \<open>C25: A node that only ever serves clients - no \<open>/internal/replicate\<close> - stores no key that is
  blank or longer than \<open>INKCACHE_MAX_KEY_LENGTH\<close>, whichever endpoint wrote it.\<close>

theorem stored_keys_valid:
  assumes "\<forall>i \<in> set ins. \<forall>b. rq_route (snd i) \<noteq> ReplicateR b"
    and "k \<in> stored_keys (ap_store (app_run cf (new_app env t0) ins))"
  shows "trim k \<noteq> [] \<and> length k \<le> cf_maxKeyLength cf"
proof -
  have "stored_keys (ap_store (app_run cf ap ins)) \<subseteq> {k. key_ok (cf_maxKeyLength cf) k} \<union> stored_keys (ap_store ap)"
    if "app_ok ap" for ap
    using assms(1) that
  proof (induction ins arbitrary: ap)
    case Nil
    then show ?case by (simp add: app_run_def)
  next
    case (Cons i ins)
    obtain ck req where i: "i = (ck, req)" by (cases i)
    obtain ap' r ops where h: "app_handle cf ck req ap = (ap', r, ops)" by (metis prod_cases3)
    obtain evs where evs: "ap_store ap' = node_run (ap_store ap) evs" "\<forall>k \<in> log_keys (writes_of evs). key_ok (cf_maxKeyLength cf) k"
      using handle_store [OF h] Cons.prems(1) i by auto
    have "cache_ok (ap_store ap)" using Cons.prems(2) by (simp add: app_ok_def)
    from node_run_frame [OF this, of evs] have "stored_keys (ap_store ap') \<subseteq> {k. key_ok (cf_maxKeyLength cf) k} \<union> stored_keys (ap_store ap)"
      using evs by auto
    moreover have "app_ok ap'" using app_handle_ok [OF Cons.prems(2) h] by simp
    ultimately show ?case using Cons.IH [of ap'] Cons.prems(1) by (auto simp: app_run_def i h)
  qed
  from this [OF new_app_ok, of env t0] assms(2) show ?thesis
    by (auto simp: key_ok_def new_app_def new_cache_def stored_keys_def jm_keys_def)
qed

theorem stored_keys_valid_witness:
  "''a'' \<in> stored_keys (ap_store (app_run demo_config (new_app (\<lambda>_. None) 0) [demo_input 5 SetR demo_body])) \<and>
   length ''a'' \<le> cf_maxKeyLength demo_config"
proof -
  let ?ap = "new_app (\<lambda>_. None) 0"
  have "app_run demo_config ?ap [demo_input 5 SetR demo_body] = fst (post_set demo_config (at_time 5) (Some demo_body) ?ap)"
    by (simp add: app_run_def demo_defs at_time_def new_app_def new_limiter_def split: prod.splits)
  also have "ap_store \<dots> = cache_set 5 ''a'' ''1'' None (ap_store ?ap)"
    by (simp add: post_set_def demo_config_def new_app_def new_role_def rejectIfReplica_def demo_valid)
  finally have "''a'' \<in> stored_keys (ap_store (app_run demo_config ?ap [demo_input 5 SetR demo_body]))"
    by (simp add: stored_keys_def cache_set_make_room jm_keys_set)
  moreover have "\<forall>i \<in> set [demo_input 5 SetR demo_body]. \<forall>b. rq_route (snd i) \<noteq> ReplicateR b" by (simp add: demo_input_def)
  ultimately show ?thesis using stored_keys_valid [of "[demo_input 5 SetR demo_body]" "''a''" demo_config "\<lambda>_. None" 0] by blast
qed

text \<open>C26: \<open>POST /restore\<close> is all or nothing: when every row of the array is valid, all of them are set,
  in order, and counted; otherwise the answer is a 400 that names the first invalid row and
  its error, and nothing is changed.\<close>

theorem restore_all_or_nothing:
  assumes "nr_role (ap_role ap) = Primary" and "read_field ''keys'' (nullish_to_obj body) = Some (JArr ks)"
  shows "(\<exists>rows. map (\<lambda>k. validateEntry (cf_maxKeyLength cf) (ck_now ck) (Some k)) ks = map Inr rows \<and>
      post_restore cf ck body ap = (ap\<lparr>ap_store := load_rows (ck_op ck) rows (ap_store ap)\<rparr>,
        ok_response [(''ok'', JBool True), (''loaded'', json_nat (length ks))], [])) \<or>
    (\<exists>i e. i < length ks \<and> validateEntry (cf_maxKeyLength cf) (ck_now ck) (Some (ks ! i)) = Inl e \<and>
      (\<forall>l < i. \<exists>row. validateEntry (cf_maxKeyLength cf) (ck_now ck) (Some (ks ! l)) = Inr row) \<and>
      post_restore cf ck body ap = (ap, error_response 400 (''keys['' @ show_nat i @ '']: '' @ e), []))"
proof (cases "validate_all (cf_maxKeyLength cf) (ck_now ck) 0 ks []")
  case (Inl ie)
  obtain i e where ie: "ie = (i, e)" by (cases ie)
  from validate_all_Inl [OF Inl [unfolded ie]] assms Inl ie show ?thesis
    by (intro disjI2 exI [of _ i] exI [of _ e]) (simp add: post_restore_def rejectIfReplica_def reply_def)
next
  case (Inr rows)
  then have m: "map (\<lambda>k. validateEntry (cf_maxKeyLength cf) (ck_now ck) (Some k)) ks = map Inr rows" by (simp add: validate_all_Inr)
  then have "length rows = length ks" by (metis length_map)
  then show ?thesis using m assms Inr
    by (intro disjI1 exI [of _ rows]) (simp add: post_restore_def rejectIfReplica_def reply_def)
qed

theorem restore_all_or_nothing_witness:
  "fst (post_restore demo_config (fst (demo_input 5 RestoreR JNull)) (Some (JObj [(''keys'', JArr [demo_body, JNull])])) (demo_app Primary []))
     = demo_app Primary []"
proof -
  have bad: "validateEntry 256 t (Some JNull) = Inl ''key must be a non-empty string''" for t
    by (simp add: validateEntry_def nullish_to_obj_def)
  show ?thesis
    using restore_all_or_nothing [of "demo_app Primary []" "Some (JObj [(''keys'', JArr [demo_body, JNull])])" "[demo_body, JNull]"
        demo_config "fst (demo_input 5 RestoreR JNull)"] bad
    by (auto simp: nullish_to_obj_def demo_config_def demo_valid less_Suc_eq map_eq_Cons_conv Cons_eq_map_conv)
qed

lemma row_json_valid:
  assumes "key_ok mk k" and "case ttl of None \<Rightarrow> True | Some x \<Rightarrow> is_finite x \<and> ttl_valid now (Some (JNum x))"
  shows "validateEntry mk now (Some (row_json (k, v, ttl))) = Inr (k, v, ttl)"
  using assms by (cases ttl) (auto simp: validateEntry_Inr row_json_def ttl_json_def json_num_def nullish_to_obj_def is_finite_iff
      split: option.splits)

lemma exported_valid:
  assumes "cache_ok p" and "0 \<le> now" and "now \<le> now'" and "now' \<le> later" and "\<forall>k \<in> stored_keys p. key_ok mk k"
    and "\<forall>k v x. visible now p k = Some (v, Some x) \<longrightarrow> (\<exists>d. x = Fin d \<and> d + of_int later < overflow_limit)"
  shows "map (\<lambda>j. validateEntry mk now' (Some j)) (map row_json (snd (exportEntries now p))) = map Inr (snd (exportEntries now p))"
proof -
  note wf = cache_okD(1) [OF assms(1)]
  have "validateEntry mk now' (Some (row_json row)) = Inr row" if mem: "row \<in> set (snd (exportEntries now p))" for row
  proof -
    obtain k v ttl where row: "row = (k, v, ttl)" by (cases row)
    have keys: "map fst (snd (exportEntries now p)) = snd (cache_keys now p)" by (rule export_keys [OF wf])
    have "k \<in> set (map fst (snd (exportEntries now p)))" using mem row by force
    then have "k \<in> stored_keys p" unfolding keys by (simp add: cache_keys_result [OF wf] stored_keys_def)
    then have k: "key_ok mk k" using assms(5) by blast
    have "distinct (map fst (snd (exportEntries now p)))"
      using wf by (simp add: keys cache_keys_result [OF wf] jm_wf_keys)
    then have "map_of (snd (exportEntries now p)) k = Some (v, ttl)" using mem row by simp
    then obtain d where d: "visible now p k = Some (v, d)" "ttl = map_option (remaining_ttl now) d"
      by (auto simp: map_of_export [OF wf])
    have "is_finite x \<and> ttl_valid now' (Some (JNum x))" if ttl: "ttl = Some x" for x
    proof -
      obtain a where a: "d = Some a" "x = remaining_ttl now a" using d(2) ttl by (cases d) auto
      then obtain q where "a = Fin q" and "q + of_int later < overflow_limit" using assms(6) d(1) by blast
      then have q: "d = Some (Fin q)" "q + of_int later < overflow_limit" "x = remaining_ttl now (Fin q)" using a by simp_all
      have lt: "of_int now < q" using visible_deadline_ahead d(1) q(1) by simp
      have n: "0 \<le> (of_int now :: rat)" "(of_int now :: rat) \<le> of_int now'" "(of_int now' :: rat) \<le> of_int later"
        using assms(2-4) by simp_all
      have "\<bar>q - of_int now\<bar> < overflow_limit" using lt n q(2) by (simp add: abs_less_iff)
      then have x: "x = Fin ((q - of_int now) / 1000)" using lt by (simp add: q(3) remaining_ttl_Fin)
      have "deadline now' (Some x) = Some (Fin (q + of_int (now' - now)))"
        unfolding q(3) using lt assms(2,3) q(2) n by (intro reload_deadline) simp_all
      then have "num_of_int now' + x * Fin 1000 = Fin (q + of_int (now' - now))"
        by (simp add: deadline_def split: if_splits)
      then show ?thesis using x lt by (simp add: ttl_valid_def)
    qed
    then show ?thesis unfolding row using k by (intro row_json_valid) (auto split: option.splits)
  qed
  then show ?thesis by simp
qed

definition express_json :: "(rat \<Rightarrow> jsstring) \<Rightarrow> json \<Rightarrow> parsed_body" where
  \<comment> \<open>what \<open>express.json({ limit: "64kb" })\<close> makes of a value a client sends with \<open>JSON.stringify\<close>\<close>
  "express_json str j = (if 64 * 1024 < length (utf8 (stringify str j)) then TooLarge else Parsed (Some j))"

lemma snapshot_accepted:
  assumes "cache_ok (ap_store p)" and "nr_role (ap_role r) = Primary"
    and "0 \<le> ck_op ck" and "ck_op ck \<le> ck_now ck'" and "ck_now ck' \<le> ck_op ck'"
    and "\<forall>k \<in> stored_keys (ap_store p). key_ok (cf_maxKeyLength cf) k"
    and "\<forall>k v x. visible (ck_op ck) (ap_store p) k = Some (v, Some x) \<longrightarrow> (\<exists>d. x = Fin d \<and> d + of_int (ck_op ck') < overflow_limit)"
    and "get_snapshot ck p = (p', snap, ops)" and "rows = snd (exportEntries (ck_op ck) (ap_store p))"
  shows "post_restore cf ck' (Some (res_body snap)) r =
      (r\<lparr>ap_store := load_rows (ck_op ck') rows (ap_store r)\<rparr>, ok_response [(''ok'', JBool True), (''loaded'', json_nat (length rows))], [])"
proof -
  have snap: "res_body snap = JObj [(''keys'', JArr (map row_json rows)), (''count'', json_nat (length rows))]"
    using assms(8,9) by (auto simp: get_snapshot_def reply_def split: prod.splits)
  have "validate_all (cf_maxKeyLength cf) (ck_now ck') 0 (map row_json rows) [] = Inr rows"
    using exported_valid [OF assms(1,3,4,5,6,7)] by (simp only: validate_all_Inr assms(9)) simp
  then show ?thesis using assms(2) by (simp add: post_restore_def rejectIfReplica_def snap nullish_to_obj_def reply_def)
qed

lemma snapshot_answer:
  assumes "rq_route req = SnapshotR" and "app_handle cf ck req p = (p', snap, ops)" and "res_status snap = 200"
  obtains q' where "get_snapshot ck p = (q', snap, ops)" "ap_store p' = fst (exportEntries (ck_op ck) (ap_store p))"
proof (rule app_handle_cases [of cf ck req p])
  fix rl body
  assume "app_handle cf ck req p = app_route cf ck req body (p\<lparr>ap_limiter := rl\<rparr>)"
  then have "get_snapshot ck (p\<lparr>ap_limiter := rl\<rparr>) = (p', snap, ops)" using assms(1,2) by (simp add: app_route.simps)
  then show ?thesis
    by (intro that [of "p\<lparr>ap_store := fst (exportEntries (ck_op ck) (ap_store p))\<rparr>"]) (auto simp: get_snapshot_def reply_def split: prod.splits)
qed (use assms in auto)

lemma restore_answer:
  assumes "rq_route req = RestoreR" and "app_handle cf ck req r = (r', resp, ops)" and "res_status resp \<notin> {401, 429}"
    and "rq_body req = express_json str j"
  obtains (large) rl where "64 * 1024 < length (utf8 (stringify str j))" "r' = r\<lparr>ap_limiter := rl\<rparr>" "res_status resp = 413"
  | (small) rl where "length (utf8 (stringify str j)) \<le> 64 * 1024" "post_restore cf ck (Some j) (r\<lparr>ap_limiter := rl\<rparr>) = (r', resp, ops)"
proof (cases "app_limited ck req r")
  case (Inl a)
  then show ?thesis using assms(2,3) by (simp add: app_handle_limited reply_def error_response_def) auto
next
  case (Inr a)
  then obtain rl where a: "a = r\<lparr>ap_limiter := rl\<rparr>" using app_limited_shape [of ck req r] by auto
  have h: "after_limiter cf ck req (r\<lparr>ap_limiter := rl\<rparr>) = (r', resp, ops)" using Inr assms(2) by (simp add: app_handle_limited a)
  have auth: "createAuthMiddleware (cf_apiKey cf) (rq_path req) (rq_headers req)"
    using h assms(3) by (auto simp: after_limiter_def reply_def error_response_def split: if_splits)
  show ?thesis
  proof (cases "64 * 1024 < length (utf8 (stringify str j))")
    case True
    then show ?thesis using h auth assms(4)
      by (intro large [of rl]) (auto simp: after_limiter_def express_json_def reply_def error_response_def)
  next
    case False
    then show ?thesis using h auth assms(1,4)
      by (intro small [of rl]) (auto simp: after_limiter_def express_json_def app_route.simps)
  qed
qed

text \<open>C11: Backup and restore over HTTP: let \<open>GET /snapshot\<close> of a node with valid keys be answered, and
  its body be POSTed to \<open>/restore\<close> of an empty primary with enough room, past its limiter and
  key. A body of at most 64 kB is accepted, and the second node then reads key by key as the
  first one did, keys without a deadline without one and every deadline later by exactly the
  time between the two requests; a larger one is refused with a 413 and nothing is stored.
  Taking the snapshot changes nothing that can be read.\<close>

theorem snapshot_restore_roundtrip:
  assumes "rq_route req = SnapshotR" and "app_handle cf ck req p = (p', snap, ops)" and "res_status snap = 200"
    and "rq_route req' = RestoreR" and "rq_body req' = express_json str (res_body snap)"
    and "app_handle cf' ck' req' r = (r', resp, ops')" and "res_status resp \<notin> {401, 429}"
    and "cache_ok (ap_store p)" and "cache_ok (ap_store r)" and "entries (ap_store r) = []" and "nr_role (ap_role r) = Primary"
    and "length (snd (exportEntries (ck_op ck) (ap_store p))) \<le> maxEntries (ap_store r)"
    and "\<forall>k \<in> stored_keys (ap_store p). key_ok (cf_maxKeyLength cf') k"
    and "0 \<le> ck_op ck" and "ck_op ck \<le> ck_now ck'" and "ck_now ck' \<le> ck_op ck'" and "ck_op ck' \<le> t"
    and "\<forall>k v x. visible (ck_op ck) (ap_store p) k = Some (v, Some x) \<longrightarrow> (\<exists>d. x = Fin d \<and> d + of_int (ck_op ck') < overflow_limit)"
  shows "visible t (ap_store p') k = visible t (ap_store p) k \<and>
    (if 64 * 1024 < length (utf8 (stringify str (res_body snap))) then res_status resp = 413 \<and> ap_store r' = ap_store r
     else res_status resp = 200 \<and>
       visible t (ap_store r') k = (case visible (ck_op ck) (ap_store p) k of None \<Rightarrow> None
        | Some (v, d) \<Rightarrow> if not_due t (shift_deadline (ck_op ck' - ck_op ck) d)
            then Some (v, shift_deadline (ck_op ck' - ck_op ck) d) else None))"
proof (rule snapshot_answer [OF assms(1-3)])
  fix q'
  let ?rows = "snd (exportEntries (ck_op ck) (ap_store p))"
  assume g: "get_snapshot ck p = (q', snap, ops)" and p': "ap_store p' = fst (exportEntries (ck_op ck) (ap_store p))"
  have kept: "visible t (ap_store p') k = visible t (ap_store p) k"
    using visible_read [OF assms(8), of OpExport "ck_op ck" t] assms(15-17) by (simp add: p')
  show ?thesis
  proof (rule restore_answer [OF assms(4,6,7,5)])
    fix rl
    assume "64 * 1024 < length (utf8 (stringify str (res_body snap)))" "r' = r\<lparr>ap_limiter := rl\<rparr>" "res_status resp = 413"
    then show ?thesis using kept by simp
  next
    fix rl
    assume small: "length (utf8 (stringify str (res_body snap))) \<le> 64 * 1024"
      and post: "post_restore cf' ck' (Some (res_body snap)) (r\<lparr>ap_limiter := rl\<rparr>) = (r', resp, ops')"
    have "nr_role (ap_role (r\<lparr>ap_limiter := rl\<rparr>)) = Primary" using assms(11) by simp
    from snapshot_accepted [OF assms(8) this assms(14,15,16,13,18) g refl] post
    have "ap_store r' = load_rows (ck_op ck') ?rows (ap_store r)" "res_status resp = 200" by auto
    moreover have "ck_op ck \<le> ck_op ck'" using assms(15,16) by simp
    ultimately show ?thesis
      using kept small reload_visible [OF assms(8,9,10,12,14) _ assms(17,18), of k] by simp
  qed
qed

lemma ttl_cache_export: "snd (exportEntries 1500 ttl_cache) = [(''b'', ''2'', None), (''a'', ''1'', Some (Fin (3 / 2)))]"
proof -
  have l: "(10000 :: rat) < overflow_limit" using overflow_limit_large by simp
  then have "\<bar>3000 - of_int 1500 :: rat\<bar> < overflow_limit" by simp
  then have "remaining_ttl 1500 (Fin 3000) = Fin (3 / 2)" by (simp add: remaining_ttl_Fin)
  then show ?thesis
    by (simp add: exportEntries_def collect_entries_eq live_entries_def ttl_cache_entries isExpired_def num_of_int_def entry_ttl_def Let_def)
qed

lemma demo_snapshot_small:
  "length (utf8 (stringify (\<lambda>_. ''1'') (JObj [(''keys'', JArr (map row_json (snd (exportEntries 1500 ttl_cache)))), (''count'', json_nat 2)]))) \<le> 65536"
proof -
  have "\<lfloor>3 / 2 :: rat\<rfloor> = 1" by (simp add: floor_unique)
  then show ?thesis
    by (simp add: ttl_cache_export row_json_def ttl_json_def json_num_def json_nat_def num_of_nat_def join_on_def json_quote_def quote_char_def
      utf8_def utf8_char_def rat_text_def show_int_def show_nat.simps Let_def)
qed

definition plain_request :: "route \<Rightarrow> parsed_body \<Rightarrow> http_request" where
  "plain_request rt body = \<lparr>rq_route = rt, rq_path = ''/'', rq_headers = (\<lambda>_. None), rq_ip = None, rq_body = body\<rparr>"

theorem snapshot_restore_roundtrip_witness:
  "case app_handle demo_config (at_time 1500) (plain_request SnapshotR (Parsed None)) (demo_app Primary []\<lparr>ap_store := ttl_cache\<rparr>) of (p', snap, ops) \<Rightarrow>
     (case app_handle demo_config (at_time 2000) (plain_request RestoreR (express_json (\<lambda>_. ''1'') (res_body snap))) (demo_app Primary []) of
        (r', resp, ops') \<Rightarrow> res_status resp = 200 \<and> visible 2600 (ap_store r') ''a'' = Some (''1'', Some (Fin 3500)))"
proof -
  let ?p = "demo_app Primary []\<lparr>ap_store := ttl_cache\<rparr>"
  obtain p' snap ops where g: "app_handle demo_config (at_time 1500) (plain_request SnapshotR (Parsed None)) ?p = (p', snap, ops)"
    by (metis prod_cases3)
  obtain r' resp ops' where r: "app_handle demo_config (at_time 2000) (plain_request RestoreR (express_json (\<lambda>_. ''1'') (res_body snap)))
      (demo_app Primary []) = (r', resp, ops')" by (metis prod_cases3)
  have s200: "res_status snap = 200 \<and> res_body snap = JObj [(''keys'', JArr (map row_json (snd (exportEntries 1500 ttl_cache)))), (''count'', json_nat 2)]"
    using g ttl_cache_export_length by (auto simp: app_handle_def after_limiter_def plain_request_def demo_app_def demo_config_def createAuthMiddleware_def
        app_route.simps get_snapshot_def reply_def split: prod.splits)
  have passes: "res_status resp \<notin> {401, 429}"
    using r by (auto simp: app_handle_def after_limiter_def plain_request_def demo_app_def demo_config_def createAuthMiddleware_def
        app_route.simps post_restore_def rejectIfReplica_def reply_def express_json_def split: prod.splits if_splits option.splits json.splits sum.splits)
  have l: "(10000 :: rat) < overflow_limit" using overflow_limit_large by simp
  have d: "\<forall>k v x. visible 1500 ttl_cache k = Some (v, Some x) \<longrightarrow> (\<exists>d. x = Fin d \<and> d + of_int 2000 < overflow_limit)"
    using l by (auto simp: ttl_cache_visible split: if_splits)
  have k: "\<forall>k \<in> stored_keys ttl_cache. key_ok 256 k"
    by (simp add: stored_keys_def ttl_cache_entries jm_keys_def key_ok_def trim_def is_ws_def)
  have store: "ap_store (demo_app Primary []) = new_cache (small_opts LRU)" "ap_store ?p = ttl_cache" by (simp_all add: demo_app_def)
  have "visible 2600 (ap_store p') ''a'' = visible 2600 (ap_store ?p) ''a'' \<and>
    (if 64 * 1024 < length (utf8 (stringify (\<lambda>_. ''1'') (res_body snap))) then res_status resp = 413 \<and> ap_store r' = ap_store (demo_app Primary [])
     else res_status resp = 200 \<and>
       visible 2600 (ap_store r') ''a'' = (case visible (ck_op (at_time 1500)) (ap_store ?p) ''a'' of None \<Rightarrow> None
        | Some (v, d) \<Rightarrow> if not_due 2600 (shift_deadline (ck_op (at_time 2000) - ck_op (at_time 1500)) d)
            then Some (v, shift_deadline (ck_op (at_time 2000) - ck_op (at_time 1500)) d) else None))"
    by (rule snapshot_restore_roundtrip [OF _ g conjunct1 [OF s200] _ _ r passes])
      (use d in \<open>simp_all add: store ttl_cache_ok demo_store ttl_cache_export_length demo_config_def k plain_request_def demo_app_def\<close>)
  then have "res_status resp = 200 \<and> visible 2600 (ap_store r') ''a'' = Some (''1'', Some (Fin 3500))" using demo_snapshot_small
    by (simp add: s200 not_less ttl_cache_visible shift_deadline_def not_due_def num_of_int_def)
  then show ?thesis by (simp add: g r)
qed

text \<open>With a key configured, nothing but \<open>/health\<close> answers a request that does not present it:
  the response is a 401 or a 429 whose body does not depend on the node, nothing is
  forwarded, and no part of the node changes but the limiter's count of the client.\<close>

lemma auth_guards_everything:
  assumes "cf_apiKey cf = Some key" and "key \<noteq> []" and "rq_path req \<noteq> ''/health''"
    and "presentedKey (rq_headers req) \<noteq> Some key" and "app_handle cf ck req ap = (ap', r, ops)"
  shows "r \<in> {error_response 401 ''missing or invalid API key'', error_response 429 ''rate limit exceeded''} \<and> ops = [] \<and>
    (\<exists>rl. ap' = ap\<lparr>ap_limiter := rl\<rparr>)"
proof -
  have "\<not> createAuthMiddleware (cf_apiKey cf) (rq_path req) (rq_headers req)"
    using assms(1-4) by (auto simp: createAuthMiddleware_def EXEMPT_PATHS_def split: option.splits)
  then have a: "after_limiter cf ck req b = (b, error_response 401 ''missing or invalid API key'', [])" for b
    by (simp add: after_limiter_def reply_def)
  obtain rl where "app_limited ck req ap \<in> {Inl (ap\<lparr>ap_limiter := rl\<rparr>), Inr (ap\<lparr>ap_limiter := rl\<rparr>)}"
    using app_limited_shape by blast
  then show ?thesis using assms(5) by (auto simp: app_handle_limited reply_def a)
qed

lemma auth_guards_everything_witness:
  "fst (snd (app_handle (demo_config\<lparr>cf_apiKey := Some ''s''\<rparr>) (fst (demo_input 5 FlushR JNull)) (snd (demo_input 5 FlushR JNull))
      (demo_app Primary []))) \<in> {error_response 401 ''missing or invalid API key'', error_response 429 ''rate limit exceeded''}"
proof -
  obtain ap' r ops where h: "app_handle (demo_config\<lparr>cf_apiKey := Some ''s''\<rparr>) (fst (demo_input 5 FlushR JNull))
      (snd (demo_input 5 FlushR JNull)) (demo_app Primary []) = (ap', r, ops)" by (metis prod_cases3)
  have "r \<in> {error_response 401 ''missing or invalid API key'', error_response 429 ''rate limit exceeded''}"
    by (rule auth_guards_everything [OF _ _ _ _ h, of "''s''", THEN conjunct1]) (simp_all add: demo_input_def presentedKey_def)
  then show ?thesis by (simp add: h)
qed

text \<open>C28: A replica is read-only: a request other than a replicated operation or a change of role
  never changes what any key reads as and forwards nothing; one that writes is not
  answered with success, and reaching its handler it gets a 409 and changes nothing at all.\<close>

theorem replica_read_only:
  assumes "nr_role (ap_role ap) = Replica" and "\<forall>op. rq_route req \<noteq> ReplicateR (ReplOp op)" and "cache_ok (ap_store ap)"
    and "app_handle cf ck req ap = (ap', r, ops)" and "ck_op ck \<le> t"
  shows "visible t (ap_store ap') = visible t (ap_store ap) \<and> ops = [] \<and>
    (is_write_route (rq_route req) \<longrightarrow> \<not> res_is_ok r \<and>
      fst (app_route cf ck req body ap) = ap \<and> res_status (fst (snd (app_route cf ck req body ap))) = 409)"
proof -
  obtain a2 r2 o2 where route: "app_route cf ck req body ap = (a2, r2, o2)" by (metis prod_cases3)
  have "visible t (ap_store ap') = visible t (ap_store ap) \<and> ops = [] \<and> (is_write_route (rq_route req) \<longrightarrow> \<not> res_is_ok r)"
  proof (rule app_handle_cases [of cf ck req ap])
    fix rl r'
    assume "app_handle cf ck req ap = (ap\<lparr>ap_limiter := rl\<rparr>, r', [])" and "res_status r' \<in> {400, 401, 413, 429, 500}"
    then show ?thesis using assms(4) by (auto simp: res_is_ok_def)
  next
    fix rl b
    assume "app_handle cf ck req ap = app_route cf ck req b (ap\<lparr>ap_limiter := rl\<rparr>)"
    then have h: "app_route cf ck req b (ap\<lparr>ap_limiter := rl\<rparr>) = (ap', r, ops)" using assms(4) by simp
    have "ap_store ap' = (case read_op ck req of Some q \<Rightarrow> read_step (ck_op ck) q (ap_store ap) | None \<Rightarrow> ap_store ap)"
      using route_replica [OF _ h] assms(1,2)
      by (cases "read_op ck req") (auto split: route.splits replicate_body.splits)
    then have "visible t (ap_store ap') = visible t (ap_store ap)"
      using visible_read [OF assms(3) _ assms(5)] by (simp add: read_step_def split: option.splits)
    then show ?thesis using route_replica [OF _ h] assms(1) by (simp add: res_is_ok_def)
  qed
  then show ?thesis using route_replica [OF assms(1) route] route by simp
qed

theorem replica_read_only_witness:
  "visible 9 (ap_store (fst (app_handle demo_config (at_time 5) (snd (demo_input 5 FlushR JNull)) (demo_app Replica [])))) =
     visible 9 (ap_store (demo_app Replica []))"
proof -
  obtain ap' r ops where h: "app_handle demo_config (at_time 5) (snd (demo_input 5 FlushR JNull)) (demo_app Replica []) = (ap', r, ops)"
    by (metis prod_cases3)
  have "visible 9 (ap_store ap') = visible 9 (ap_store (demo_app Replica []))"
    by (rule replica_read_only [OF _ _ _ h, THEN conjunct1]) (simp_all add: demo_input_def demo_store)
  then show ?thesis by (simp add: h)
qed

text \<open>A primary that grants a vote for a newer term refuses every client write from then on, and
  still answers \<open>/health\<close> with success, whatever its configuration and its limiter: a monitor
  that polls it counts no failure, so nothing that watches it starts another election.\<close>

lemma deposed_primary_looks_healthy:
  assumes "as_term (read_field ''term'' (nullish_to_obj body)) = Some n" and "currentTerm (nr_election (ap_role ap)) < n"
    and "nonempty_string (read_field ''candidateId'' (nullish_to_obj body)) = Some c"
    and "with_role (post_request_vote body) ap = (ap', r, ops)"
    and "is_write_route (rq_route wreq)" and "rq_path hreq = ''/health''" and "rq_route hreq = HealthR" and "rq_body hreq = Parsed b"
    and "0 < pm_inFlight m"
  shows "\<not> res_is_ok (fst (snd (app_handle cf ck wreq ap'))) \<and>
    snd (pm_answer (Some (res_status (fst (snd (app_handle cf ck hreq ap'))))) m) = None \<and>
    consecutiveFailures (fst (pm_answer (Some (res_status (fst (snd (app_handle cf ck hreq ap'))))) m)) = 0"
proof -
  have "post_request_vote body (ap_role ap) = vote_node n c (ap_role ap)"
    using assms(1,3) by (simp add: post_request_vote_def)
  then have role: "nr_role (ap_role ap') = Replica"
    using assms(2,4) vote_node_fields(1) [of n c "ap_role ap"] by (auto simp: with_role_def reply_def split: prod.splits)
  have w: "\<not> res_is_ok (fst (snd (app_handle cf ck wreq ap')))"
  proof (rule app_handle_cases [of cf ck wreq ap'])
    fix rl r'
    assume "app_handle cf ck wreq ap' = (ap'\<lparr>ap_limiter := rl\<rparr>, r', [])" and "res_status r' \<in> {400, 401, 413, 429, 500}"
    then show ?thesis by (auto simp: res_is_ok_def)
  next
    fix rl b
    assume h: "app_handle cf ck wreq ap' = app_route cf ck wreq b (ap'\<lparr>ap_limiter := rl\<rparr>)"
    obtain a2 r2 o2 where route: "app_route cf ck wreq b (ap'\<lparr>ap_limiter := rl\<rparr>) = (a2, r2, o2)" by (metis prod_cases3)
    show ?thesis using route_replica [OF _ route] role assms(5) h route by (simp add: res_is_ok_def)
  qed
  have "app_limited ck hreq ap' = Inr ap'"
    using assms(6) by (auto simp: app_limited_def limit_request_def RATE_EXEMPT_PATHS_def split: option.splits)
  moreover have "createAuthMiddleware (cf_apiKey cf) (rq_path hreq) (rq_headers hreq)"
    using assms(6) by (auto simp: createAuthMiddleware_def EXEMPT_PATHS_def split: option.splits)
  ultimately have "res_status (fst (snd (app_handle cf ck hreq ap'))) = 200"
    using assms(7,8) by (simp add: app_handle_limited after_limiter_def app_route.simps get_health_def reply_def)
  then show ?thesis using w assms(9) by (simp add: pm_answer_def pm_check_def ping_ok_def consecutiveFailures_def)
qed

lemma deposed_primary_looks_healthy_witness:
  "\<not> res_is_ok (fst (snd (app_handle demo_config (at_time 5) (snd (demo_input 5 FlushR JNull))
      (fst (with_role (post_request_vote (Some (vote_request 7 ''b''))) (demo_app Primary [])))))) "
proof -
  let ?h = "(snd (demo_input 5 HealthR JNull))\<lparr>rq_path := ''/health''\<rparr>" and ?w = "snd (demo_input 5 FlushR JNull)"
  obtain ap' r ops where v: "with_role (post_request_vote (Some (vote_request 7 ''b''))) (demo_app Primary []) = (ap', r, ops)"
    by (metis prod_cases3)
  have "\<not> res_is_ok (fst (snd (app_handle demo_config (at_time 5) ?w ap')))"
    by (rule deposed_primary_looks_healthy [OF _ _ _ v, of 7 "''b''" ?w ?h "Some JNull" "pm_tick (startPrimaryMonitor ''u'')", THEN conjunct1])
      (simp_all add: vote_request_def nullish_to_obj_def demo_app_def new_election_def demo_input_def is_write_route_def
        pm_tick_def startPrimaryMonitor_def)
  then show ?thesis by (simp add: v)
qed

text \<open>The replication wire format loses nothing: what a primary sends for an operation with a
  finite ttl is read by the replica's handler as that operation, and applied as such.\<close>

lemma replication_wire_roundtrip:
  assumes "case op of RSet k v (Some x) \<Rightarrow> is_finite x | _ \<Rightarrow> True"
  shows "read_replicate_body (Some (op_json op)) = Some (ReplOp op) \<and>
    ap_store (fst (post_replicate ck (the (read_replicate_body (Some (op_json op)))) ap)) = applyReplicationOp (ck_op ck) (ap_store ap) op"
proof -
  have "read_replicate_body (Some (op_json op)) = Some (ReplOp op)"
    using assms by (cases op) (auto simp: op_json_def read_replicate_body_def read_op_fields_def json_num_def is_finite_iff
        split: option.splits jsnum.splits)
  then show ?thesis by (simp add: post_replicate_def reply_def)
qed

lemma replication_wire_roundtrip_witness:
  "read_replicate_body (Some (op_json (RSet ''a'' ''1'' (Some (Fin 5))))) = Some (ReplOp (RSet ''a'' ''1'' (Some (Fin 5))))"
  using replication_wire_roundtrip [of "RSet ''a'' ''1'' (Some (Fin 5))"] by simp

end
