(* ===== verification/NodeProcess.thy ===== *)
theory NodeProcess
  imports Server AppSpec
begin

text \<open>
  The process of a cache node as one event loop: the REST API of \<open>App\<close>, the monitoring and
  campaigning of \<open>Server\<close>, the timers of the sweeper, of the metrics history and of the
  interval save, every save as the three operations on the file system it awaits, startup
  with its awaits, and shutdown (\<open>src/network/server.ts\<close>, \<open>src/network/persistence.ts\<close>).
\<close>

section \<open>State\<close>

datatype save_stage =
  Opening json \<comment> \<open>the payload is made, \<open>writeFile\<close> has not opened the temporary file\<close>
  | Writing nat json bool \<comment> \<open>it writes to an inode; whether another save wrote there meanwhile\<close>
  | Renaming \<comment> \<open>\<open>writeFile\<close> has resolved\<close>

record save_task =
  sk_stage :: save_stage
  sk_final :: bool \<comment> \<open>the save that a shutdown awaits\<close>

datatype start_stage = Loading | Syncing jsstring | Listening

record node_process =
  np_app :: node_app
  np_monitors :: "primary_monitor list"
  np_campaign :: "nat option"
  np_autoPersist :: bool
  np_pulls :: nat \<comment> \<open>snapshots of new leaders on their way\<close>
  np_stage :: start_stage
  np_saves :: "save_task list"
  np_shutdowns :: nat \<comment> \<open>shutdowns that await the announcement to the gateways\<close>
  np_closing :: bool \<comment> \<open>\<open>server.close\<close> was called\<close>
  np_exited :: bool
  np_fs :: filesystem

definition new_process :: "env \<Rightarrow> time_ms \<Rightarrow> filesystem \<Rightarrow> node_process" where
  \<comment> \<open>the modules are loaded, \<open>start\<close> is about to run\<close>
  "new_process env now fs = \<lparr>np_app = new_app env now, np_monitors = [], np_campaign = None, np_autoPersist = False,
     np_pulls = 0, np_stage = Loading, np_saves = [], np_shutdowns = 0, np_closing = False, np_exited = False, np_fs = fs\<rparr>"

definition current_monitor :: "primary_monitor list \<Rightarrow> primary_monitor option" where
  \<comment> \<open>what \<open>setPrimaryMonitorHandle\<close> was last given\<close>
  "current_monitor ms = (if ms = [] then None else Some (last ms))"

definition np_server :: "node_process \<Rightarrow> server" where
  "np_server p = \<lparr>sv_role = ap_role (np_app p), sv_store = ap_store (np_app p), sv_metrics = ap_metrics (np_app p),
     sv_monitors = np_monitors p, sv_campaign = np_campaign p, sv_autoPersist = np_autoPersist p,
     sv_listening = (np_stage p = Listening)\<rparr>"

definition np_put :: "server \<Rightarrow> node_process \<Rightarrow> node_process" where
  "np_put sv p = p\<lparr>np_app := (np_app p)\<lparr>ap_role := sv_role sv, ap_store := sv_store sv, ap_metrics := sv_metrics sv,
       ap_monitor := current_monitor (sv_monitors sv)\<rparr>,
     np_monitors := sv_monitors sv, np_campaign := sv_campaign sv, np_autoPersist := sv_autoPersist sv\<rparr>"

section \<open>Saves\<close>

definition begin_save :: "time_ms \<Rightarrow> bool \<Rightarrow> node_process \<Rightarrow> node_process" where
  \<comment> \<open>\<open>saveSnapshot\<close> up to its first \<open>await\<close>\<close>
  "begin_save now final p = (case exportEntries now (ap_store (np_app p)) of
     (store', rows) \<Rightarrow> p\<lparr>np_app := (np_app p)\<lparr>ap_store := store'\<rparr>,
       np_saves := np_saves p @ [\<lparr>sk_stage = Opening (snapshot_json rows), sk_final = final\<rparr>]\<rparr>)"

definition writes_to :: "nat \<Rightarrow> save_task \<Rightarrow> bool" where
  "writes_to i t = (case sk_stage t of Writing j _ _ \<Rightarrow> j = i | _ \<Rightarrow> False)"

definition mark_shared :: "nat \<Rightarrow> save_task \<Rightarrow> save_task" where
  "mark_shared i t = (case sk_stage t of
       Writing j payload shared \<Rightarrow> if j = i then t\<lparr>sk_stage := Writing j payload True\<rparr> else t
     | _ \<Rightarrow> t)"

definition set_save :: "nat \<Rightarrow> save_stage \<Rightarrow> node_process \<Rightarrow> node_process" where
  "set_save n stage p = p\<lparr>np_saves := (np_saves p)[n := (np_saves p ! n)\<lparr>sk_stage := stage\<rparr>]\<rparr>"

definition save_opened :: "jsstring \<Rightarrow> nat \<Rightarrow> node_process \<Rightarrow> node_process" where
  \<comment> \<open>the temporary file exists and is empty, also for a save that is still writing to it\<close>
  "save_opened path n p = (case sk_stage (np_saves p ! n) of
       Opening payload \<Rightarrow> (case open_truncated (tmp_path path) (np_fs p) of
         (fs', i) \<Rightarrow> set_save n (Writing i payload (list_ex (writes_to i) (np_saves p)))
           (p\<lparr>np_fs := fs', np_saves := map (mark_shared i) (np_saves p)\<rparr>))
     | _ \<Rightarrow> p)"

definition save_written :: "nat \<Rightarrow> content \<Rightarrow> node_process \<Rightarrow> node_process" where
  "save_written n c p = (case sk_stage (np_saves p ! n) of
       Writing i payload shared \<Rightarrow> set_save n Renaming (p\<lparr>np_fs := (np_fs p)\<lparr>data := (data (np_fs p))(i := c)\<rparr>\<rparr>)
     | _ \<Rightarrow> p)"

definition close_server :: "node_process \<Rightarrow> node_process" where
  \<comment> \<open>the end of \<open>shutdown\<close>; \<open>server\<close> is defined once \<open>start\<close> has called \<open>listen\<close>\<close>
  "close_server p = (if np_stage p = Listening then p\<lparr>np_closing := True\<rparr> else p\<lparr>np_exited := True\<rparr>)"

definition save_settled :: "nat \<Rightarrow> node_process \<Rightarrow> node_process" where
  \<comment> \<open>the promise of \<open>saveSnapshot\<close> is settled: a failure is only logged\<close>
  "save_settled n p = (let t = np_saves p ! n; p' = p\<lparr>np_saves := take n (np_saves p) @ drop (Suc n) (np_saves p)\<rparr>
     in if sk_final t then close_server p' else p')"

definition save_renamed :: "jsstring \<Rightarrow> nat \<Rightarrow> node_process \<Rightarrow> node_process" where
  "save_renamed path n p = save_settled n (p\<lparr>np_fs := rename_file (tmp_path path) path (np_fs p)\<rparr>)"

definition save_failed :: "nat \<Rightarrow> content \<Rightarrow> node_process \<Rightarrow> node_process" where
  "save_failed n c p = save_settled n (case sk_stage (np_saves p ! n) of
       Writing i payload shared \<Rightarrow> p\<lparr>np_fs := (np_fs p)\<lparr>data := (data (np_fs p))(i := c)\<rparr>\<rparr>
     | _ \<Rightarrow> p)"

section \<open>Startup\<close>

definition begin_listening :: "node_process \<Rightarrow> node_process" where
  "begin_listening p = p\<lparr>np_app := (np_app p)\<lparr>ap_store := startSweeper 5000 (ap_store (np_app p)),
     ap_metrics := startHistory (ap_metrics (np_app p))\<rparr>, np_stage := Listening\<rparr>"

definition file_loaded :: "server_config \<Rightarrow> time_ms \<Rightarrow> node_process \<Rightarrow> node_process" where
  \<comment> \<open>\<open>start\<close> up to the pull from the primary, if there is one\<close>
  "file_loaded cfg now p = (case load_persisted cfg now (np_fs p) (np_server p) of
       None \<Rightarrow> p\<lparr>np_exited := True\<rparr>
     | Some sv \<Rightarrow> (case (nr_role (sv_role sv), truthy (nr_primaryUrl (sv_role sv))) of
           (Replica, Some url) \<Rightarrow> (np_put sv p)\<lparr>np_stage := Syncing url\<rparr>
         | _ \<Rightarrow> begin_listening (np_put sv p)))"

definition primary_synced :: "(nat \<Rightarrow> (time_ms \<times> snapshot_rows) option) \<Rightarrow> node_process \<Rightarrow> node_process" where
  "primary_synced response p = (case np_stage p of
       Syncing url \<Rightarrow> begin_listening (np_put (attachPrimaryMonitor url (snapshot_pulled response (np_server p))) p)
     | _ \<Rightarrow> p)"

section \<open>Requests and shutdown\<close>

definition leader_hook :: "http_request \<Rightarrow> response \<Rightarrow> node_role \<Rightarrow> jsstring option" where
  \<comment> \<open>the argument of \<open>onLeaderElected\<close> when the request reached its handler, which then answers with 200\<close>
  "leader_hook req r nd = (case (rq_route req, rq_body req) of
       (LeaderR, Parsed body) \<Rightarrow> if res_status r = 200 then elected_url body nd else None
     | _ \<Rightarrow> None)"

definition np_serve :: "app_config \<Rightarrow> clock \<Rightarrow> http_request \<Rightarrow> node_process \<Rightarrow> node_process" where
  "np_serve cf ck req p = (case app_handle cf ck req (np_app p) of
     (ap', r, ops) \<Rightarrow> let p' = p\<lparr>np_app := ap'\<rparr>
       in case leader_hook req r (ap_role (np_app p)) of
            None \<Rightarrow> p'
          | Some url \<Rightarrow> (np_put (attachPrimaryMonitor url (np_server p')) p')\<lparr>np_pulls := np_pulls p + 1\<rparr>)"

definition stop_timers :: "node_process \<Rightarrow> node_process" where
  "stop_timers p = np_put ((np_server p)\<lparr>sv_store := stopSweeper (ap_store (np_app p)),
     sv_metrics := stopHistory (ap_metrics (np_app p)), sv_monitors := stop_monitor (np_monitors p), sv_autoPersist := False\<rparr>) p"

definition deregistered :: "server_config \<Rightarrow> time_ms \<Rightarrow> node_process \<Rightarrow> node_process" where
  \<comment> \<open>\<open>shutdown\<close> from the announcement to the gateways to its next \<open>await\<close>\<close>
  "deregistered cfg now p = (let p' = (stop_timers p)\<lparr>np_shutdowns := np_shutdowns p - 1\<rparr>
     in case truthy (sc_persistPath cfg) of None \<Rightarrow> close_server p' | Some path \<Rightarrow> begin_save now True p')"

section \<open>The event loop\<close>

datatype np_event =
  FileLoaded time_ms
  | PrimarySynced "nat \<Rightarrow> (time_ms \<times> snapshot_rows) option"
  | Request clock http_request
  | Internal server_event \<comment> \<open>a timer or ping of a monitor, the votes of a campaign, a pulled snapshot\<close>
  | SweepTick time_ms
  | HistoryTick time_ms
  | PersistTick time_ms
  | SaveOpened nat
  | SaveWritten nat content
  | SaveRenamed nat
  | SaveFailed nat content
  | StopSignal \<comment> \<open>\<open>SIGINT\<close> or \<open>SIGTERM\<close>\<close>
  | Deregistered time_ms
  | ProcessExit \<comment> \<open>the server has closed, or five seconds have passed\<close>

definition persist_path :: "server_config \<Rightarrow> jsstring" where
  "persist_path cfg = (case truthy (sc_persistPath cfg) of Some path \<Rightarrow> path | None \<Rightarrow> '''')"

fun internal_enabled :: "node_process \<Rightarrow> server_event \<Rightarrow> bool" where
  "internal_enabled p (Timer i) \<longleftrightarrow> i < length (np_monitors p) \<and> pm_timer (np_monitors p ! i)"
| "internal_enabled p (Ping i r) \<longleftrightarrow> i < length (np_monitors p) \<and> 0 < pm_inFlight (np_monitors p ! i)"
| "internal_enabled p (Votes gs) \<longleftrightarrow> np_campaign p \<noteq> None"
| "internal_enabled p (Pulled r) \<longleftrightarrow> 0 < np_pulls p"
| "internal_enabled p _ \<longleftrightarrow> False"

definition stage_of :: "nat \<Rightarrow> node_process \<Rightarrow> save_stage option" where
  "stage_of n p = (if n < length (np_saves p) then Some (sk_stage (np_saves p ! n)) else None)"

fun np_possible :: "server_config \<Rightarrow> node_process \<Rightarrow> np_event \<Rightarrow> bool" where
  "np_possible cfg p (FileLoaded now) \<longleftrightarrow> np_stage p = Loading"
| "np_possible cfg p (PrimarySynced r) \<longleftrightarrow> np_stage p \<noteq> Loading \<and> np_stage p \<noteq> Listening"
| "np_possible cfg p (Request ck req) \<longleftrightarrow> np_stage p = Listening"
| "np_possible cfg p (Internal ev) \<longleftrightarrow> internal_enabled p ev"
| "np_possible cfg p (SweepTick now) \<longleftrightarrow> sweepTimer (ap_store (np_app p)) \<noteq> None"
| "np_possible cfg p (HistoryTick now) \<longleftrightarrow> historyTimer (ap_metrics (np_app p))"
| "np_possible cfg p (PersistTick now) \<longleftrightarrow> np_autoPersist p"
| "np_possible cfg p (SaveOpened n) \<longleftrightarrow> (case stage_of n p of Some (Opening _) \<Rightarrow> True | _ \<Rightarrow> False)"
| "np_possible cfg p (SaveWritten n c) \<longleftrightarrow>
     (case stage_of n p of Some (Writing i payload shared) \<Rightarrow> shared \<or> c = Text payload | _ \<Rightarrow> False)"
| "np_possible cfg p (SaveRenamed n) \<longleftrightarrow> stage_of n p = Some Renaming"
| "np_possible cfg p (SaveFailed n c) \<longleftrightarrow>
     (case stage_of n p of Some (Writing i payload shared) \<Rightarrow> shared \<or> c = Partial | Some _ \<Rightarrow> True | None \<Rightarrow> False)"
| "np_possible cfg p StopSignal \<longleftrightarrow> True"
| "np_possible cfg p (Deregistered now) \<longleftrightarrow> 0 < np_shutdowns p"
| "np_possible cfg p ProcessExit \<longleftrightarrow> np_closing p"

definition np_enabled :: "server_config \<Rightarrow> node_process \<Rightarrow> np_event \<Rightarrow> bool" where
  "np_enabled cfg p ev \<longleftrightarrow> \<not> np_exited p \<and> np_possible cfg p ev"

definition on_store :: "(cache_store \<Rightarrow> cache_store) \<Rightarrow> node_process \<Rightarrow> node_process" where
  "on_store f p = p\<lparr>np_app := (np_app p)\<lparr>ap_store := f (ap_store (np_app p))\<rparr>\<rparr>"

definition on_metrics :: "(metrics \<Rightarrow> metrics) \<Rightarrow> node_process \<Rightarrow> node_process" where
  "on_metrics f p = p\<lparr>np_app := (np_app p)\<lparr>ap_metrics := f (ap_metrics (np_app p))\<rparr>\<rparr>"

definition settle_pull :: "server_event \<Rightarrow> node_process \<Rightarrow> node_process" where
  "settle_pull ev p = (case ev of Pulled _ \<Rightarrow> p\<lparr>np_pulls := np_pulls p - 1\<rparr> | _ \<Rightarrow> p)"

fun np_step :: "app_config \<Rightarrow> server_config \<Rightarrow> node_process \<Rightarrow> np_event \<Rightarrow> node_process" where
  "np_step cf cfg p (FileLoaded now) = file_loaded cfg now p"
| "np_step cf cfg p (PrimarySynced response) = primary_synced response p"
| "np_step cf cfg p (Request ck req) = np_serve cf ck req p"
| "np_step cf cfg p (Internal ev) = settle_pull ev (np_put (server_step cfg (np_server p) ev) p)"
| "np_step cf cfg p (SweepTick now) = on_store (sweeper_tick now) p"
| "np_step cf cfg p (HistoryTick now) = on_metrics (history_tick now) p"
| "np_step cf cfg p (PersistTick now) = begin_save now False p"
| "np_step cf cfg p (SaveOpened n) = save_opened (persist_path cfg) n p"
| "np_step cf cfg p (SaveWritten n c) = save_written n c p"
| "np_step cf cfg p (SaveRenamed n) = save_renamed (persist_path cfg) n p"
| "np_step cf cfg p (SaveFailed n c) = save_failed n c p"
| "np_step cf cfg p StopSignal = p\<lparr>np_shutdowns := np_shutdowns p + 1\<rparr>"
| "np_step cf cfg p (Deregistered now) = deregistered cfg now p"
| "np_step cf cfg p ProcessExit = p\<lparr>np_exited := True\<rparr>"

inductive np_reach :: "app_config \<Rightarrow> server_config \<Rightarrow> node_process \<Rightarrow> node_process \<Rightarrow> bool"
  for cf cfg p0 where
  start: "np_reach cf cfg p0 p0"
| step: "np_reach cf cfg p0 p \<Longrightarrow> np_enabled cfg p ev \<Longrightarrow> np_reach cf cfg p0 (np_step cf cfg p ev)"

inductive_cases np_reachE: "np_reach cf cfg p0 p"

definition np_run :: "app_config \<Rightarrow> server_config \<Rightarrow> node_process \<Rightarrow> np_event list \<Rightarrow> node_process" where
  "np_run cf cfg p evs = foldl (np_step cf cfg) p evs"

fun np_trace :: "app_config \<Rightarrow> server_config \<Rightarrow> node_process \<Rightarrow> np_event list \<Rightarrow> bool" where
  "np_trace cf cfg p [] \<longleftrightarrow> True"
| "np_trace cf cfg p (ev # evs) \<longleftrightarrow> np_enabled cfg p ev \<and> np_trace cf cfg (np_step cf cfg p ev) evs"

section \<open>What the steps keep\<close>

lemma np_server_put: "np_server (np_put sv p) = sv\<lparr>sv_listening := (np_stage p = Listening)\<rparr>"
  by (simp add: np_server_def np_put_def)

lemma np_put_fields [simp]:
  "np_stage (np_put sv p) = np_stage p" "np_saves (np_put sv p) = np_saves p" "np_fs (np_put sv p) = np_fs p"
  "np_shutdowns (np_put sv p) = np_shutdowns p" "np_closing (np_put sv p) = np_closing p" "np_exited (np_put sv p) = np_exited p"
  "np_pulls (np_put sv p) = np_pulls p" "np_monitors (np_put sv p) = sv_monitors sv" "np_campaign (np_put sv p) = sv_campaign sv"
  "np_autoPersist (np_put sv p) = sv_autoPersist sv" "ap_store (np_app (np_put sv p)) = sv_store sv"
  "ap_role (np_app (np_put sv p)) = sv_role sv" "ap_metrics (np_app (np_put sv p)) = sv_metrics sv"
  "ap_monitor (np_app (np_put sv p)) = current_monitor (sv_monitors sv)"
  "ap_predictor (np_app (np_put sv p)) = ap_predictor (np_app p)" "ap_limiter (np_app (np_put sv p)) = ap_limiter (np_app p)"
  by (simp_all add: np_put_def)

lemma np_server_fields [simp]:
  "sv_role (np_server p) = ap_role (np_app p)" "sv_store (np_server p) = ap_store (np_app p)"
  "sv_metrics (np_server p) = ap_metrics (np_app p)" "sv_monitors (np_server p) = np_monitors p"
  "sv_campaign (np_server p) = np_campaign p" "sv_autoPersist (np_server p) = np_autoPersist p"
  by (simp_all add: np_server_def)

lemma settle_pull_fields [simp]:
  "np_app (settle_pull ev p) = np_app p" "np_monitors (settle_pull ev p) = np_monitors p" "np_campaign (settle_pull ev p) = np_campaign p"
  "np_saves (settle_pull ev p) = np_saves p" "np_fs (settle_pull ev p) = np_fs p" "np_stage (settle_pull ev p) = np_stage p"
  "np_autoPersist (settle_pull ev p) = np_autoPersist p"
  by (simp_all add: settle_pull_def split: server_event.split)

lemma close_server_fields [simp]:
  "np_app (close_server p) = np_app p" "np_monitors (close_server p) = np_monitors p" "np_campaign (close_server p) = np_campaign p"
  "np_saves (close_server p) = np_saves p" "np_fs (close_server p) = np_fs p" "np_stage (close_server p) = np_stage p"
  by (simp_all add: close_server_def)

lemma save_steps_fields [simp]:
  "np_app (save_opened path n p) = np_app p" "np_monitors (save_opened path n p) = np_monitors p" "np_campaign (save_opened path n p) = np_campaign p"
  "np_app (save_written n c p) = np_app p" "np_monitors (save_written n c p) = np_monitors p" "np_campaign (save_written n c p) = np_campaign p"
  "np_app (save_settled n p) = np_app p" "np_monitors (save_settled n p) = np_monitors p" "np_campaign (save_settled n p) = np_campaign p"
  "np_app (save_renamed path n p) = np_app p" "np_monitors (save_renamed path n p) = np_monitors p" "np_campaign (save_renamed path n p) = np_campaign p"
  "np_app (save_failed n c p) = np_app p" "np_monitors (save_failed n c p) = np_monitors p" "np_campaign (save_failed n c p) = np_campaign p"
  by (simp_all add: save_opened_def save_written_def save_settled_def save_renamed_def save_failed_def set_save_def Let_def
      split: save_stage.split prod.split)

lemma begin_save_fields [simp]:
  "np_monitors (begin_save now final p) = np_monitors p" "np_campaign (begin_save now final p) = np_campaign p"
  "np_fs (begin_save now final p) = np_fs p" "np_stage (begin_save now final p) = np_stage p"
  "np_exited (begin_save now final p) = np_exited p"
  "np_app (begin_save now final p) = (np_app p)\<lparr>ap_store := fst (exportEntries now (ap_store (np_app p)))\<rparr>"
  "np_saves (begin_save now final p) =
     np_saves p @ [\<lparr>sk_stage = Opening (snapshot_json (snd (exportEntries now (ap_store (np_app p))))), sk_final = final\<rparr>]"
  by (simp_all add: begin_save_def split: prod.splits)

section \<open>The process does what the event loop of Server does\<close>

definition protocol_state :: "server \<Rightarrow> node_role \<times> primary_monitor list \<times> nat option" where
  "protocol_state sv = (sv_role sv, sv_monitors sv, sv_campaign sv)"

lemma protocol_stateI:
  "sv_role sv = sv_role sv' \<Longrightarrow> sv_monitors sv = sv_monitors sv' \<Longrightarrow> sv_campaign sv = sv_campaign sv' \<Longrightarrow> protocol_state sv = protocol_state sv'"
  by (simp add: protocol_state_def)

lemma protocol_stateD:
  assumes "protocol_state sv = protocol_state sv'"
  shows "sv_role sv = sv_role sv'" and "sv_monitors sv = sv_monitors sv'" and "sv_campaign sv = sv_campaign sv'"
  using assms by (simp_all add: protocol_state_def)

lemma campaign_protocol_state:
  assumes "protocol_state sv = protocol_state sv'"
  shows "protocol_state (campaignForPrimary sv) = protocol_state (campaignForPrimary sv')"
  using protocol_stateD [OF assms] by (auto simp: campaignForPrimary_def intro!: protocol_stateI split: prod.split)

lemma on_failure_protocol_state:
  assumes "protocol_state sv = protocol_state sv'"
  shows "protocol_state (on_failure cfg call sv) = protocol_state (on_failure cfg call sv')"
  using assms campaign_protocol_state [OF assms] by (simp add: on_failure_def split: option.split)

lemma server_step_protocol_state:
  assumes "protocol_state sv = protocol_state sv'"
  shows "protocol_state (server_step cfg sv ev) = protocol_state (server_step cfg sv' ev)"
proof -
  note eq = protocol_stateD [OF assms]
  show ?thesis
  proof (cases ev)
    case (Ping i r)
    have ms: "protocol_state (sv\<lparr>sv_monitors := ms\<rparr>) = protocol_state (sv'\<lparr>sv_monitors := ms\<rparr>)" for ms
      using eq by (simp add: protocol_state_def)
    show ?thesis
      using on_failure_protocol_state [OF ms, of cfg "snd (pm_answer r (sv_monitors sv' ! i))"]
      by (simp only: Ping server_step.simps ping_answered_def eq(2) case_prod_unfold assms split: if_split) simp
  next
    case (LeaderAnnounced body)
    then show ?thesis using eq
      by (auto simp: leader_announced_def attachPrimaryMonitor_def Let_def intro!: protocol_stateI split: option.split)
  next
    case (Votes gs)
    then show ?thesis using eq by (cases "sv_campaign sv'") (simp_all add: campaign_settled_def protocol_state_def Let_def split_beta)
  qed (use eq in \<open>simp_all add: timer_fired_def snapshot_pulled_def protocol_state_def\<close>)
qed

lemma server_run_protocol_state:
  "protocol_state sv = protocol_state sv' \<Longrightarrow> protocol_state (server_run cfg sv evs) = protocol_state (server_run cfg sv' evs)"
proof (induction evs arbitrary: sv sv')
  case (Cons ev evs)
  show ?case using Cons.IH [OF server_step_protocol_state [OF Cons.prems, of cfg ev]] by (simp add: server_run_def)
qed (simp add: server_run_def)

definition handler_body :: "app_config \<Rightarrow> clock \<Rightarrow> http_request \<Rightarrow> node_app \<Rightarrow> json option option" where
  \<comment> \<open>the body with which a request reaches its handler, if it does\<close>
  "handler_body cf ck req ap = (case (app_limited ck req ap, rq_body req) of
       (Inr ap', Parsed body) \<Rightarrow> if createAuthMiddleware (cf_apiKey cf) (rq_path req) (rq_headers req) then Some body else None
     | _ \<Rightarrow> None)"

definition role_request :: "http_request \<Rightarrow> json option \<Rightarrow> server_event list" where
  "role_request req body = (case rq_route req of
       PromoteR \<Rightarrow> [PromoteRequested body]
     | RequestVoteR \<Rightarrow> [VoteRequested body]
     | LeaderR \<Rightarrow> [LeaderAnnounced body]
     | _ \<Rightarrow> [])"

fun server_events :: "app_config \<Rightarrow> node_process \<Rightarrow> np_event \<Rightarrow> server_event list" where
  "server_events cf p (Internal ev) = [ev]"
| "server_events cf p (Request ck req) = (case handler_body cf ck req (np_app p) of None \<Rightarrow> [] | Some body \<Rightarrow> role_request req body)"
| "server_events cf p _ = []"

lemma handle_reached:
  assumes "handler_body cf ck req ap = Some body"
  obtains rl where "app_handle cf ck req ap = app_route cf ck req body (ap\<lparr>ap_limiter := rl\<rparr>)" "rq_body req = Parsed body"
proof -
  obtain ap' where h: "app_limited ck req ap = Inr ap'" "rq_body req = Parsed body"
      "createAuthMiddleware (cf_apiKey cf) (rq_path req) (rq_headers req)"
    using assms by (auto simp: handler_body_def split: sum.splits parsed_body.splits if_splits)
  obtain rl where "ap' = ap\<lparr>ap_limiter := rl\<rparr>" using app_limited_shape [of ck req ap] h(1) by auto
  then show ?thesis using h by (intro that [of rl]) (simp_all add: app_handle_limited after_limiter_def)
qed

lemma handle_stopped:
  assumes "handler_body cf ck req ap = None"
  obtains rl r where "app_handle cf ck req ap = (ap\<lparr>ap_limiter := rl\<rparr>, r, [])" "res_status r \<noteq> 200"
proof (rule app_handle_cases [of cf ck req ap])
  fix rl r
  assume "app_handle cf ck req ap = (ap\<lparr>ap_limiter := rl\<rparr>, r, [])" "res_status r \<in> {400, 401, 413, 429, 500}"
  then show ?thesis by (intro that [of rl r]) auto
next
  obtain rl where s: "app_limited ck req ap = Inl (ap\<lparr>ap_limiter := rl\<rparr>) \<or> app_limited ck req ap = Inr (ap\<lparr>ap_limiter := rl\<rparr>)"
    using app_limited_shape [of ck req ap] by blast
  fix rl' body
  assume "rq_body req = Parsed body" "createAuthMiddleware (cf_apiKey cf) (rq_path req) (rq_headers req)"
  then have "app_limited ck req ap = Inl (ap\<lparr>ap_limiter := rl\<rparr>)" using s assms by (auto simp: handler_body_def)
  then show ?thesis
    by (intro that [of rl "error_response 429 ''rate limit exceeded''"]) (simp_all add: app_handle_limited reply_def)
qed

lemma post_leader_status: "res_status (snd (post_leader body nd)) = 200 \<or> elected_url body nd = None"
  by (auto simp: post_leader_def elected_url_def adopt_leader_def Let_def split: option.split)

lemma serve_protocol_state:
  "protocol_state (np_server (np_serve cf ck req p)) = protocol_state (server_run cfg (np_server p) (server_events cf p (Request ck req)))"
proof (cases "handler_body cf ck req (np_app p)")
  case None
  then obtain rl r where h: "app_handle cf ck req (np_app p) = ((np_app p)\<lparr>ap_limiter := rl\<rparr>, r, [])" "res_status r \<noteq> 200"
    by (rule handle_stopped)
  then have "leader_hook req r nd = None" for nd by (simp add: leader_hook_def split: route.split parsed_body.split)
  then show ?thesis using None h by (simp add: np_serve_def Let_def server_run_def protocol_state_def np_server_def)
next
  case (Some body)
  then obtain rl where h: "app_handle cf ck req (np_app p) = app_route cf ck req body ((np_app p)\<lparr>ap_limiter := rl\<rparr>)" "rq_body req = Parsed body"
    by (rule handle_reached)
  obtain ap' r ops where route: "app_route cf ck req body ((np_app p)\<lparr>ap_limiter := rl\<rparr>) = (ap', r, ops)" by (metis prod_cases3)
  show ?thesis
  proof (cases "changes_role (rq_route req)")
    case False
    then have "role_request req body = []" "leader_hook req r (ap_role (np_app p)) = None"
      by (auto simp: changes_role_def role_request_def leader_hook_def split: route.split)
    then show ?thesis using h route Some route_role [OF False, of cf ck body "(np_app p)\<lparr>ap_limiter := rl\<rparr>"]
      by (simp add: np_serve_def Let_def server_run_def protocol_state_def np_server_def)
  next
    case True
    then consider "rq_route req = PromoteR" | "rq_route req = RequestVoteR" | "rq_route req = LeaderR"
      by (auto simp: changes_role_def)
    then show ?thesis
    proof cases
      case 3
      then have ap': "ap_role ap' = fst (post_leader body (ap_role (np_app p)))" "r = snd (post_leader body (ap_role (np_app p)))"
        using route by (auto simp: app_route.simps with_role_def reply_def split: prod.splits)
      have "leader_hook req r (ap_role (np_app p)) = elected_url body (ap_role (np_app p))"
        using 3 h(2) ap'(2) post_leader_status [of body "ap_role (np_app p)"] by (auto simp: leader_hook_def)
      then show ?thesis using 3 h route Some ap'(1)
        by (auto simp: np_serve_def Let_def server_run_def protocol_state_def role_request_def leader_announced_def
            attachPrimaryMonitor_def split: option.split)
    qed (use h route Some in \<open>auto simp: np_serve_def Let_def server_run_def protocol_state_def role_request_def leader_hook_def
          app_route.simps with_role_def reply_def split: prod.splits\<close>)
  qed
qed

definition running_event :: "np_event \<Rightarrow> bool" where
  \<comment> \<open>neither a step of the startup nor of the shutdown\<close>
  "running_event ev \<longleftrightarrow> (case ev of FileLoaded _ \<Rightarrow> False | PrimarySynced _ \<Rightarrow> False | Deregistered _ \<Rightarrow> False | _ \<Rightarrow> True)"

lemma protocol_state_same:
  "ap_role (np_app p') = ap_role (np_app p) \<Longrightarrow> np_monitors p' = np_monitors p \<Longrightarrow> np_campaign p' = np_campaign p \<Longrightarrow>
    protocol_state (np_server p') = protocol_state (np_server p)"
  by (simp add: protocol_state_def)

lemma step_protocol_state:
  assumes "running_event ev"
  shows "protocol_state (np_server (np_step cf cfg p ev)) = protocol_state (server_run cfg (np_server p) (server_events cf p ev))"
proof (cases ev)
  case (Request ck req)
  then show ?thesis using serve_protocol_state by simp
next
  case (Internal e)
  then show ?thesis by (simp add: server_run_def protocol_state_def)
qed (use assms in \<open>auto simp: running_event_def server_run_def on_store_def on_metrics_def intro!: protocol_state_same\<close>)

fun server_trace :: "app_config \<Rightarrow> server_config \<Rightarrow> node_process \<Rightarrow> np_event list \<Rightarrow> server_event list" where
  "server_trace cf cfg p [] = []"
| "server_trace cf cfg p (ev # evs) = server_events cf p ev @ server_trace cf cfg (np_step cf cfg p ev) evs"

lemma np_run_simps [simp]:
  "np_run cf cfg p [] = p" "np_run cf cfg p (ev # evs) = np_run cf cfg (np_step cf cfg p ev) evs"
  "np_run cf cfg p (xs @ ys) = np_run cf cfg (np_run cf cfg p xs) ys"
  by (simp_all add: np_run_def)

lemma run_protocol_state:
  "\<forall>ev \<in> set evs. running_event ev \<Longrightarrow>
    protocol_state (np_server (np_run cf cfg p evs)) = protocol_state (server_run cfg (np_server p) (server_trace cf cfg p evs))"
proof (induction evs arbitrary: p)
  case Nil
  then show ?case by (simp add: server_run_def)
next
  case (Cons ev evs)
  have "running_event ev" using Cons.prems by simp
  from server_run_protocol_state [OF step_protocol_state [OF this, of cf cfg p]]
  show ?case using Cons by (simp add: server_run_append)
qed

section \<open>What every event keeps\<close>

definition np_ok :: "nat \<times> nat \<times> nat \<times> nat option \<Rightarrow> node_process \<Rightarrow> bool" where
  "np_ok caps p \<longleftrightarrow> app_ok (np_app p) \<and> app_caps (np_app p) = caps \<and> one_timer (np_server p) \<and>
     ap_monitor (np_app p) = current_monitor (np_monitors p)"

definition store_like :: "cache_store \<Rightarrow> cache_store \<Rightarrow> bool" where
  "store_like s s' \<longleftrightarrow> (cache_ok s \<longrightarrow> cache_ok s') \<and> (cache_ok s \<longrightarrow> maxEntries s' = maxEntries s)"

lemma store_like_step: "store_like s (cache_step s (now, op))"
  by (simp add: store_like_def cache_step_ok cache_step_maxEntries)

lemmas store_like_ops = store_like_step [of _ _ OpExport, simplified] store_like_step [of _ _ OpTick, simplified]
  store_like_step [of _ _ "OpStartSweeper i" for i, simplified] store_like_step [of _ _ OpStopSweeper, simplified]

lemma store_like_refl: "store_like s s"
  by (simp add: store_like_def)

lemma load_rows_like: "store_like s (load_rows now rows s)"
  unfolding store_like_def
proof (induction now rows s rule: load_rows.induct)
  case (2 now key v ttl rows s)
  then show ?case using cache_set_ok [of s now key v ttl] kept_maxEntries(1) [of s now key v ttl] by auto
qed simp

lemma sync_like: "store_like s (fst (syncFromPrimary n response s))"
proof -
  have "store_like s (fst (sync_attempts n i response s))" for i
    by (induction n i response s rule: sync_attempts.induct) (simp_all add: load_rows_like store_like_refl split: option.split)
  then show ?thesis by (simp add: syncFromPrimary_def)
qed

lemma app_like:
  assumes "app_ok ap" and "store_like (ap_store ap) (ap_store ap')" and "ap_predictor ap' = ap_predictor ap"
    and "latenciesUs (ap_metrics ap') = latenciesUs (ap_metrics ap)" and "ap_limiter ap' = ap_limiter ap"
  shows "app_ok ap' \<and> app_caps ap' = app_caps ap"
  using assms by (auto simp: app_ok_def app_caps_def store_like_def)

lemma load_persisted_like:
  assumes "load_persisted cfg now fs sv = Some sv'"
  shows "store_like (sv_store sv) (sv_store sv') \<and> sv_metrics sv' = sv_metrics sv \<and> sv_monitors sv' = sv_monitors sv \<and> sv_role sv' = sv_role sv"
proof -
  have "store_like s (fst (loadSnapshot now raw s))" for raw s
    by (auto simp: loadSnapshot_def load_loop_rows store_like_refl load_rows_like split: option.splits content.splits json.splits)
  then have "store_like s s'" if "loadSnapshot now raw s = (s', out)" for raw s s' out using that by (metis fst_conv)
  then show ?thesis using assms
    by (auto simp: load_persisted_def store_like_refl split: option.splits prod.splits load_outcome.splits)
qed

lemma history_latencies [simp]: "latenciesUs (stopHistory m) = latenciesUs m" "latenciesUs (startHistory m) = latenciesUs m"
  "latenciesUs (history_tick now m) = latenciesUs m"
  by (simp_all add: stopHistory_def startHistory_def history_tick_def)

lemma on_failure_store [simp]: "sv_store (on_failure cfg call sv) = sv_store sv" "sv_metrics (on_failure cfg call sv) = sv_metrics sv"
  by (simp_all add: on_failure_def campaignForPrimary_def split: option.split prod.split)

lemma server_step_like: "store_like (sv_store sv) (sv_store (server_step cfg sv ev)) \<and> sv_metrics (server_step cfg sv ev) = sv_metrics sv"
  by (cases ev) (simp_all add: timer_fired_def ping_answered_def campaign_settled_def leader_announced_def attachPrimaryMonitor_def
      snapshot_pulled_def sync_like store_like_refl Let_def split: option.split prod.split)

lemma one_timer_server:
  assumes "one_timer (np_server p)" and "np_monitors p' = np_monitors p"
  shows "one_timer (np_server p')"
  using one_timer_cong [of "np_server p'" "np_server p"] assms by simp

lemma np_ok_like:
  assumes "np_ok caps p" and "np_monitors p' = np_monitors p" and "ap_monitor (np_app p') = ap_monitor (np_app p)"
    and "store_like (ap_store (np_app p)) (ap_store (np_app p'))" and "ap_predictor (np_app p') = ap_predictor (np_app p)"
    and "latenciesUs (ap_metrics (np_app p')) = latenciesUs (ap_metrics (np_app p))" and "ap_limiter (np_app p') = ap_limiter (np_app p)"
  shows "np_ok caps p'"
  using assms app_like [of "np_app p" "np_app p'"] one_timer_server [of p p'] by (simp add: np_ok_def)

lemma np_ok_put:
  assumes "np_ok caps p" and "store_like (ap_store (np_app p)) (sv_store sv)"
    and "latenciesUs (sv_metrics sv) = latenciesUs (ap_metrics (np_app p))" and "one_timer sv"
  shows "np_ok caps (np_put sv p)"
  using assms app_like [of "np_app p" "np_app (np_put sv p)"] one_timer_cong [of "np_server (np_put sv p)" sv]
  by (simp add: np_ok_def)

lemma stop_monitor_one_timer: "one_timer sv \<Longrightarrow> sv_monitors sv' = stop_monitor (sv_monitors sv) \<Longrightarrow> one_timer sv'"
  by (simp add: one_timer_def)

lemma begin_listening_ok: "np_ok caps p \<Longrightarrow> np_ok caps (begin_listening p)"
  by (rule np_ok_like [of caps p]) (simp_all add: begin_listening_def store_like_ops)

lemma begin_save_ok: "np_ok caps p \<Longrightarrow> np_ok caps (begin_save now final p)"
  by (rule np_ok_like [of caps p]) (simp_all add: store_like_ops)

lemma same_app_ok: "np_ok caps p \<Longrightarrow> np_app p' = np_app p \<Longrightarrow> np_monitors p' = np_monitors p \<Longrightarrow> np_ok caps p'"
  by (rule np_ok_like [of caps p]) (simp_all add: store_like_refl)

lemma close_server_ok: "np_ok caps p \<Longrightarrow> np_ok caps (close_server p)"
  by (rule same_app_ok) simp_all

lemma file_loaded_ok:
  assumes "np_ok caps p"
  shows "np_ok caps (file_loaded cfg now p)"
proof (cases "load_persisted cfg now (np_fs p) (np_server p)")
  case None
  then show ?thesis by (auto simp: file_loaded_def intro: same_app_ok [OF assms])
next
  case (Some sv)
  note l = load_persisted_like [OF Some]
  have "one_timer (np_server p)" using assms by (simp add: np_ok_def)
  then have "one_timer sv" using l one_timer_cong [of sv "np_server p"] by simp
  then have put: "np_ok caps (np_put sv p)" using l by (intro np_ok_put [OF assms]) simp_all
  have "np_ok caps ((np_put sv p)\<lparr>np_stage := st\<rparr>)" for st by (rule same_app_ok [OF put]) simp_all
  then show ?thesis using Some begin_listening_ok [OF put] by (auto simp: file_loaded_def split: role.split option.split)
qed

lemma snapshot_pulled_fields [simp]: "sv_metrics (snapshot_pulled r sv) = sv_metrics sv"
  "sv_store (attachPrimaryMonitor u sv) = sv_store sv" "sv_metrics (attachPrimaryMonitor u sv) = sv_metrics sv"
  by (simp_all add: snapshot_pulled_def attachPrimaryMonitor_def)

lemma one_timer_pulled: "one_timer (snapshot_pulled r sv) = one_timer sv"
  by (rule one_timer_cong) (simp add: snapshot_pulled_def)

lemma primary_synced_ok:
  assumes "np_ok caps p"
  shows "np_ok caps (primary_synced response p)"
proof -
  have "one_timer (np_server p)" using assms by (simp add: np_ok_def)
  then have "np_ok caps (np_put (attachPrimaryMonitor url (snapshot_pulled response (np_server p))) p)" for url
    by (intro np_ok_put [OF assms] one_timer_attach) (simp_all add: one_timer_pulled, simp_all add: snapshot_pulled_def sync_like)
  then show ?thesis using assms by (simp add: primary_synced_def begin_listening_ok split: start_stage.split)
qed

lemma route_monitor: "ap_monitor (fst (app_route cf ck req body ap)) = ap_monitor ap"
  by (cases "rq_route req";
      fastforce simp: app_route.simps handler_defs split: prod.splits option.splits sum.splits json.splits if_splits replicate_body.splits)

lemma handle_monitor: "ap_monitor (fst (app_handle cf ck req ap)) = ap_monitor ap"
  by (rule app_handle_cases [of cf ck req ap]) (simp_all add: route_monitor)

lemma np_serve_ok:
  assumes "np_ok caps p"
  shows "np_ok caps (np_serve cf ck req p)"
proof -
  obtain ap' r ops where h: "app_handle cf ck req (np_app p) = (ap', r, ops)" by (metis prod_cases3)
  have "app_ok ap' \<and> app_caps ap' = app_caps (np_app p)" using app_handle_ok [OF _ h] assms by (simp add: np_ok_def)
  moreover have "ap_monitor ap' = ap_monitor (np_app p)" using handle_monitor [of cf ck req "np_app p"] h by simp
  ultimately have ok: "np_ok caps (p\<lparr>np_app := ap'\<rparr>)"
    using assms one_timer_server [of p "p\<lparr>np_app := ap'\<rparr>"] by (simp add: np_ok_def)
  then have "np_ok caps (np_put (attachPrimaryMonitor url (np_server (p\<lparr>np_app := ap'\<rparr>))) (p\<lparr>np_app := ap'\<rparr>))" for url
    by (intro np_ok_put one_timer_attach) (simp_all add: np_ok_def store_like_refl)
  then have "np_ok caps ((np_put (attachPrimaryMonitor url (np_server (p\<lparr>np_app := ap'\<rparr>))) (p\<lparr>np_app := ap'\<rparr>))\<lparr>np_pulls := n\<rparr>)" for url n
    by (rule same_app_ok) simp_all
  then show ?thesis using h ok by (simp add: np_serve_def Let_def split: option.split)
qed

lemma stop_timers_ok: "np_ok caps p \<Longrightarrow> np_ok caps (stop_timers p)"
  unfolding stop_timers_def
  by (rule np_ok_put, assumption) (auto simp: np_ok_def store_like_ops intro: stop_monitor_one_timer [of "np_server p"])

lemma deregistered_ok:
  assumes "np_ok caps p"
  shows "np_ok caps (deregistered cfg now p)"
proof -
  have "np_ok caps ((stop_timers p)\<lparr>np_shutdowns := n\<rparr>)" for n by (rule same_app_ok [OF stop_timers_ok [OF assms]]) simp_all
  then show ?thesis by (simp add: deregistered_def Let_def begin_save_ok close_server_ok split: option.split)
qed

lemma internal_ok:
  assumes "np_ok caps p"
  shows "np_ok caps (settle_pull ev (np_put (server_step cfg (np_server p) ev) p))"
proof -
  have "one_timer (server_step cfg (np_server p) ev)" using assms step_one_timer by (simp add: np_ok_def)
  then have "np_ok caps (np_put (server_step cfg (np_server p) ev) p)"
    using server_step_like [of "np_server p" cfg ev] by (intro np_ok_put [OF assms]) simp_all
  then show ?thesis by (rule same_app_ok) simp_all
qed

lemma np_step_ok: "np_ok caps p \<Longrightarrow> np_ok caps (np_step cf cfg p ev)"
proof (cases ev)
  case (SweepTick now)
  then show "np_ok caps p \<Longrightarrow> ?thesis" by (auto simp: on_store_def store_like_ops intro: np_ok_like)
next
  case (HistoryTick now)
  then show "np_ok caps p \<Longrightarrow> ?thesis" by (auto simp: on_metrics_def store_like_refl intro: np_ok_like)
qed (auto simp: file_loaded_ok primary_synced_ok np_serve_ok internal_ok begin_save_ok deregistered_ok intro: same_app_ok)

lemma np_reach_ok: "np_reach cf cfg p0 p \<Longrightarrow> np_ok caps p0 \<Longrightarrow> np_ok caps p"
  by (induction rule: np_reach.induct) (auto simp: np_step_ok)

section \<open>One save at a time\<close>

definition starts_save :: "server_config \<Rightarrow> np_event \<Rightarrow> bool" where
  "starts_save cfg ev \<longleftrightarrow> (case ev of PersistTick _ \<Rightarrow> True | Deregistered _ \<Rightarrow> truthy (sc_persistPath cfg) \<noteq> None | _ \<Rightarrow> False)"

fun np_calm :: "app_config \<Rightarrow> server_config \<Rightarrow> node_process \<Rightarrow> np_event list \<Rightarrow> bool" where
  \<comment> \<open>a possible run in which no save starts before the one before it has ended\<close>
  "np_calm cf cfg p [] \<longleftrightarrow> True"
| "np_calm cf cfg p (ev # evs) \<longleftrightarrow> np_enabled cfg p ev \<and> (starts_save cfg ev \<longrightarrow> np_saves p = []) \<and>
     np_calm cf cfg (np_step cf cfg p ev) evs"

lemma np_calm_append [simp]:
  "np_calm cf cfg p (xs @ ys) \<longleftrightarrow> np_calm cf cfg p xs \<and> np_calm cf cfg (np_run cf cfg p xs) ys"
  by (induction xs arbitrary: p) auto

fun stage_ok :: "json set \<Rightarrow> jsstring \<Rightarrow> filesystem \<Rightarrow> save_stage \<Rightarrow> bool" where
  "stage_ok G path fs (Opening payload) \<longleftrightarrow> payload \<in> G"
| "stage_ok G path fs (Writing i payload shared) \<longleftrightarrow> payload \<in> G \<and> \<not> shared \<and> names fs (tmp_path path) = Some i"
| "stage_ok G path fs Renaming \<longleftrightarrow> (\<exists>payload \<in> G. read_file (tmp_path path) fs = Some (Text payload))"

definition file_ok :: "json set \<Rightarrow> content option \<Rightarrow> jsstring \<Rightarrow> filesystem \<Rightarrow> bool" where
  "file_ok G old path fs \<longleftrightarrow> private_tmp path fs \<and> (read_file path fs = old \<or> (\<exists>payload \<in> G. read_file path fs = Some (Text payload)))"

definition saves_ok :: "json set \<Rightarrow> content option \<Rightarrow> jsstring \<Rightarrow> node_process \<Rightarrow> bool" where
  "saves_ok G old path p \<longleftrightarrow> file_ok G old path (np_fs p) \<and> length (np_saves p) \<le> 1 \<and>
     (\<forall>t \<in> set (np_saves p). stage_ok G path (np_fs p) (sk_stage t))"

lemma stage_ok_mono: "stage_ok G path fs st \<Longrightarrow> G \<subseteq> H \<Longrightarrow> stage_ok H path fs st"
  by (cases st) auto

lemma saves_ok_mono: "saves_ok G old path p \<Longrightarrow> G \<subseteq> H \<Longrightarrow> saves_ok H old path p"
  unfolding saves_ok_def file_ok_def using stage_ok_mono by blast

lemma saves_ok_same: "saves_ok G old path p \<Longrightarrow> np_saves p' = np_saves p \<Longrightarrow> np_fs p' = np_fs p \<Longrightarrow> saves_ok G old path p'"
  by (simp add: saves_ok_def)

lemma one_save:
  assumes "saves_ok G old path p" and "n < length (np_saves p)"
  obtains t where "np_saves p = [t]" "n = 0" "stage_ok G path (np_fs p) (sk_stage t)" "file_ok G old path (np_fs p)"
  using assms by (cases "np_saves p") (auto simp: saves_ok_def)

lemma open_file_ok:
  assumes "file_ok G old path fs" and "open_truncated (tmp_path path) fs = (fs', i)"
  shows "file_ok G old path fs' \<and> names fs' (tmp_path path) = Some i"
proof -
  have "names fs path \<noteq> Some (next_inode fs)" using assms(1) by (auto simp: file_ok_def private_tmp_def)
  then show ?thesis
    using assms by (auto simp: file_ok_def open_truncated_def private_tmp_def read_file_def less_Suc_eq map_option_case
      split: option.splits if_splits)
qed

lemma write_file_ok:
  assumes "file_ok G old path fs" and "names fs (tmp_path path) = Some i"
  shows "file_ok G old path (fs\<lparr>data := (data fs)(i := c)\<rparr>) \<and> read_file (tmp_path path) (fs\<lparr>data := (data fs)(i := c)\<rparr>) = Some c"
  using assms by (auto simp: file_ok_def private_tmp_def read_file_def map_option_case split: option.splits)

lemma rename_file_ok:
  assumes "file_ok G old path fs" and "read_file (tmp_path path) fs = Some (Text payload)" and "payload \<in> G"
  shows "file_ok G old path (rename_file (tmp_path path) path fs)"
  using assms by (auto simp: file_ok_def private_tmp_def read_file_def rename_file_def split: option.splits)

lemma saves_begin:
  assumes "saves_ok G old path p" and "np_saves p = []" and "snapshot_json (snd (exportEntries now (ap_store (np_app p)))) \<in> G"
  shows "saves_ok G old path (begin_save now final p)"
  using assms by (simp add: saves_ok_def)

lemma saves_opened:
  assumes "saves_ok G old path p" and "stage_of n p = Some (Opening payload)"
  shows "saves_ok G old path (save_opened path n p)"
proof -
  have n: "n < length (np_saves p)" using assms(2) by (simp add: stage_of_def split: if_splits)
  obtain t where t: "np_saves p = [t]" "n = 0" "stage_ok G path (np_fs p) (sk_stage t)" "file_ok G old path (np_fs p)"
    by (rule one_save [OF assms(1) n])
  obtain fs' i where o: "open_truncated (tmp_path path) (np_fs p) = (fs', i)" by fastforce
  have "sk_stage t = Opening payload" using assms(2) t by (simp add: stage_of_def)
  then show ?thesis using t open_file_ok [OF t(4) o]
    by (simp add: save_opened_def o saves_ok_def set_save_def writes_to_def)
qed

lemma saves_written:
  assumes "saves_ok G old path p" and "np_possible cfg p (SaveWritten n c)"
  shows "saves_ok G old path (save_written n c p)"
proof -
  have n: "n < length (np_saves p)" using assms(2) by (simp add: stage_of_def split: if_splits)
  obtain t where t: "np_saves p = [t]" "n = 0" "stage_ok G path (np_fs p) (sk_stage t)" "file_ok G old path (np_fs p)"
    by (rule one_save [OF assms(1) n])
  then obtain i payload where s: "sk_stage t = Writing i payload False" "c = Text payload"
    using assms(2) by (auto simp: stage_of_def split: save_stage.splits)
  then show ?thesis using t write_file_ok [OF t(4), of i c] by (simp add: save_written_def saves_ok_def set_save_def)
qed

lemma saves_settled:
  assumes "saves_ok G old path p" and "n < length (np_saves p)" and "file_ok G old path fs'"
  shows "saves_ok G old path (save_settled n (p\<lparr>np_fs := fs'\<rparr>))"
  by (rule one_save [OF assms(1,2)]) (use assms(3) in \<open>simp add: save_settled_def saves_ok_def Let_def\<close>)

lemma saves_renamed:
  assumes "saves_ok G old path p" and "stage_of n p = Some Renaming"
  shows "saves_ok G old path (save_renamed path n p)"
proof -
  have n: "n < length (np_saves p)" using assms(2) by (simp add: stage_of_def split: if_splits)
  obtain t where t: "np_saves p = [t]" "n = 0" "stage_ok G path (np_fs p) (sk_stage t)" "file_ok G old path (np_fs p)"
    by (rule one_save [OF assms(1) n])
  have "sk_stage t = Renaming" using assms(2) t by (simp add: stage_of_def)
  then have "file_ok G old path (rename_file (tmp_path path) path (np_fs p))" using t rename_file_ok by auto
  then show ?thesis unfolding save_renamed_def by (rule saves_settled [OF assms(1) n])
qed

lemma saves_failed:
  assumes "saves_ok G old path p" and "np_possible cfg p (SaveFailed n c)"
  shows "saves_ok G old path (save_failed n c p)"
proof -
  have n: "n < length (np_saves p)" using assms(2) by (simp add: stage_of_def split: if_splits)
  obtain t where t: "np_saves p = [t]" "n = 0" "stage_ok G path (np_fs p) (sk_stage t)" "file_ok G old path (np_fs p)"
    by (rule one_save [OF assms(1) n])
  have same: "p\<lparr>np_fs := np_fs p\<rparr> = p" by simp
  show ?thesis
    using t saves_settled [OF assms(1) n t(4)] saves_settled [OF assms(1) n write_file_ok [OF t(4), THEN conjunct1]]
    by (cases "sk_stage t") (simp_all add: save_failed_def same)
qed

lemma keeps_saves [simp]:
  "np_saves (file_loaded cfg now p) = np_saves p" "np_fs (file_loaded cfg now p) = np_fs p"
  "np_saves (primary_synced r p) = np_saves p" "np_fs (primary_synced r p) = np_fs p"
  "np_saves (np_serve cf ck req p) = np_saves p" "np_fs (np_serve cf ck req p) = np_fs p"
  "np_saves (stop_timers p) = np_saves p" "np_fs (stop_timers p) = np_fs p"
  by (simp_all add: file_loaded_def primary_synced_def begin_listening_def np_serve_def stop_timers_def Let_def
      split: option.split role.split start_stage.split prod.split)

definition saved_now :: "node_process \<Rightarrow> json set" where
  "saved_now p = {snapshot_json (snd (exportEntries now (ap_store (np_app p)))) | now. True}"

lemma saves_step:
  assumes "saves_ok G old path p" and "truthy (sc_persistPath cfg) = Some path" and "np_enabled cfg p ev"
    and "starts_save cfg ev \<longrightarrow> np_saves p = []"
  shows "saves_ok (G \<union> saved_now p) old path (np_step cf cfg p ev)"
proof -
  have path: "persist_path cfg = path" using assms(2) by (simp add: persist_path_def)
  have ok: "saves_ok (G \<union> saved_now p) old path p" by (rule saves_ok_mono [OF assms(1)]) simp
  show ?thesis
  proof (cases ev)
    case (PersistTick now)
    then show ?thesis using assms(4) saves_begin [OF ok] by (auto simp: starts_save_def saved_now_def)
  next
    case (Deregistered now)
    have "saves_ok (G \<union> saved_now p) old path ((stop_timers p)\<lparr>np_shutdowns := np_shutdowns p - 1\<rparr>)" by (rule saves_ok_same [OF ok]) simp_all
    then have "saves_ok (G \<union> saved_now p) old path (begin_save now True ((stop_timers p)\<lparr>np_shutdowns := np_shutdowns p - 1\<rparr>))"
      by (rule saves_begin) (use Deregistered assms(2,4) in \<open>auto simp: starts_save_def saved_now_def stop_timers_def stopSweeper_export\<close>)
    then show ?thesis using Deregistered assms(2) by (simp add: deregistered_def Let_def)
  next
    case (SaveOpened n)
    then show ?thesis using assms(3) path saves_opened [OF ok]
      by (auto simp: np_enabled_def split: option.splits save_stage.splits)
  next
    case (SaveWritten n c)
    then show ?thesis using assms(3) saves_written [OF ok] by (simp add: np_enabled_def)
  next
    case (SaveRenamed n)
    then show ?thesis using assms(3) path saves_renamed [OF ok] by (simp add: np_enabled_def)
  next
    case (SaveFailed n c)
    then show ?thesis using assms(3) saves_failed [OF ok] by (simp add: np_enabled_def)
  qed (auto simp: on_store_def on_metrics_def intro: saves_ok_same [OF ok])
qed

definition saved_before :: "app_config \<Rightarrow> server_config \<Rightarrow> node_process \<Rightarrow> np_event list \<Rightarrow> json set" where
  "saved_before cf cfg p0 evs = \<Union> {saved_now (np_run cf cfg p0 evs1) | evs1. \<exists>evs2. evs = evs1 @ evs2}"

lemma saves_run:
  assumes "truthy (sc_persistPath cfg) = Some path" and "private_tmp path (np_fs p0)" and "np_saves p0 = []"
  shows "np_calm cf cfg p0 evs \<Longrightarrow> saves_ok (saved_before cf cfg p0 evs) (read_file path (np_fs p0)) path (np_run cf cfg p0 evs)"
proof (induction evs rule: rev_induct)
  case Nil
  then show ?case using assms by (simp add: saves_ok_def file_ok_def)
next
  case (snoc ev evs)
  let ?p = "np_run cf cfg p0 evs"
  have "saves_ok (saved_before cf cfg p0 evs \<union> saved_now ?p) (read_file path (np_fs p0)) path (np_step cf cfg ?p ev)"
    using snoc saves_step [OF _ assms(1)] by simp
  moreover have "saved_before cf cfg p0 evs \<union> saved_now ?p \<subseteq> saved_before cf cfg p0 (evs @ [ev])"
    unfolding saved_before_def by fastforce
  ultimately show ?case by (simp add: saves_ok_mono)
qed

lemma persisted_loads:
  assumes "truthy (sc_persistPath cfg) = Some path" and "\<not> unloadable (read_file path fs)"
  shows "load_persisted cfg now fs sv \<noteq> None"
  using assms loadSnapshot_throws [of now "read_file path fs" "sv_store sv"]
  by (auto simp: load_persisted_def split: prod.splits load_outcome.splits)

section \<open>Properties\<close>

text \<open>C14: A node process stays within its configuration for as long as it runs: in every state it can
  reach from its start - whatever is in its file, whatever its primary, its peers and its
  clients send, whenever timers fire, saves fail and signals arrive - its store, its
  predictor, its latency samples and its limiter respect their bounds, at most one of the
  monitors it ever started has a running timer, and that is the one \<open>/health\<close> reports on.\<close>

theorem process_bounded:
  assumes "np_reach cf cfg (new_process env t0 fs) p"
  shows "cache_size (ap_store (np_app p)) \<le> parsePositiveInt (env ''INKCACHE_MAX_ENTRIES'') 512 None \<and>
    distinct (jm_keys (entries (ap_store (np_app p)))) \<and> predictor_size (ap_predictor (np_app p)) \<le> 2000 \<and>
    (\<forall>(f, cs) \<in> set (transitions (ap_predictor (np_app p))). jm_size cs \<le> 20) \<and>
    length (latenciesUs (ap_metrics (np_app p))) \<le> 512 \<and>
    (\<forall>rl. ap_limiter (np_app p) = Some rl \<longrightarrow> jm_size (rl_buckets rl) \<le> 10000) \<and>
    (\<forall>i < length (np_monitors p). pm_timer (np_monitors p ! i) \<longrightarrow> ap_monitor (np_app p) = Some (np_monitors p ! i))"
proof -
  have "np_ok (app_caps (new_app env t0)) (new_process env t0 fs)"
    using new_app_ok by (simp add: np_ok_def new_process_def one_timer_def np_server_def current_monitor_def new_app_def)
  from np_reach_ok [OF assms this] have ok: "app_ok (np_app p)" "app_caps (np_app p) = app_caps (new_app env t0)"
    "one_timer (np_server p)" "ap_monitor (np_app p) = current_monitor (np_monitors p)" by (simp_all add: np_ok_def)
  have "ap_monitor (np_app p) = Some (np_monitors p ! i)" if "i < length (np_monitors p)" "pm_timer (np_monitors p ! i)" for i
  proof -
    have "\<not> i + 1 < length (np_monitors p)" using that(2) ok(3) by (auto simp: one_timer_def)
    then have "np_monitors p \<noteq> []" "i = length (np_monitors p) - 1" using that(1) by auto
    then show ?thesis using ok(4) by (simp add: current_monitor_def last_conv_nth)
  qed
  then show ?thesis using app_within_caps [OF ok(1,2)] by simp
qed

definition empty_fs :: filesystem where
  "empty_fs = \<lparr>names = (\<lambda>_. None), data = (\<lambda>_. Partial), next_inode = 0\<rparr>"

definition no_env :: env where
  "no_env v = None"

lemma empty_fs_simps [simp]: "names empty_fs = (\<lambda>_. None)" "read_file path empty_fs = None" "private_tmp path empty_fs"
  by (simp_all add: empty_fs_def read_file_def private_tmp_def)

lemma demo_path [simp]: "truthy (sc_persistPath demo_server_config) = Some ''s''" "persist_path demo_server_config = ''s''"
  by (simp_all add: demo_server_config_def truthy_def persist_path_def)

lemma new_process_fields [simp]:
  "np_fs (new_process env t fs) = fs" "np_stage (new_process env t fs) = Loading" "np_saves (new_process env t fs) = []"
  "np_shutdowns (new_process env t fs) = 0" "np_exited (new_process env t fs) = False" "np_monitors (new_process env t fs) = []"
  "np_app (new_process env t fs) = new_app env t" "nr_role (ap_role (new_app no_env t)) = Primary"
  by (simp_all add: new_process_def new_app_def new_role_def no_env_def)

lemma demo_started:
  "np_step cf demo_server_config (new_process no_env 0 empty_fs) (FileLoaded 5) =
    begin_listening (np_put ((np_server (new_process no_env 0 empty_fs))\<lparr>sv_store := ap_store (new_app no_env 0), sv_autoPersist := True\<rparr>)
      (new_process no_env 0 empty_fs))"
  by (simp add: file_loaded_def load_persisted_def loadSnapshot_def)

lemma demo_started_simps [simp]:
  "np_saves (np_step cf demo_server_config (new_process no_env 0 empty_fs) (FileLoaded 5)) = []"
  "np_autoPersist (np_step cf demo_server_config (new_process no_env 0 empty_fs) (FileLoaded 5))"
  "np_exited (np_step cf demo_server_config (new_process no_env 0 empty_fs) (FileLoaded 5)) = False"
  "np_stage (np_step cf demo_server_config (new_process no_env 0 empty_fs) (FileLoaded 5)) = Listening"
  by (simp_all only: demo_started) (simp_all add: begin_listening_def)

lemma demo_load_enabled [simp]: "np_enabled cfg (new_process env t fs) (FileLoaded now)"
  by (simp add: np_enabled_def)

theorem process_bounded_witness:
  "cache_size (ap_store (np_app (np_step demo_config demo_server_config (new_process no_env 0 empty_fs) (FileLoaded 5)))) \<le> 512"
proof -
  have "np_reach demo_config demo_server_config (new_process no_env 0 empty_fs)
      (np_step demo_config demo_server_config (new_process no_env 0 empty_fs) (FileLoaded 5))"
    by (intro np_reach.intros) simp
  from process_bounded [OF this] show ?thesis by (simp add: no_env_def parsePositiveInt_def)
qed

text \<open>C15: However a node is killed, its file can be loaded: as long as no save starts before the one
  before it has ended, at every moment of every run - in the middle of a save, after saves
  that failed, during a shutdown - the file holds what it held at the start, or the complete
  snapshot of the store at some earlier moment of the run, never a part of one; and, if the
  file at the start was none that loading rejects, a node started again on it starts.\<close>

theorem snapshot_file_never_torn:
  assumes "truthy (sc_persistPath cfg) = Some path" and "private_tmp path fs" and "\<not> unloadable (read_file path fs)"
    and "np_calm cf cfg (new_process env t0 fs) evs" and "p = np_run cf cfg (new_process env t0 fs) evs"
  shows "(read_file path (np_fs p) = read_file path fs \<or>
      (\<exists>evs1 evs2 now. evs = evs1 @ evs2 \<and> read_file path (np_fs p) =
        Some (Text (snapshot_json (snd (exportEntries now (ap_store (np_app (np_run cf cfg (new_process env t0 fs) evs1)))))))) ) \<and>
    \<not> np_exited (np_step cf cfg (new_process env' t1 (np_fs p)) (FileLoaded t2))"
proof -
  let ?p0 = "new_process env t0 fs"
  have new: "np_fs ?p0 = fs" "np_saves ?p0 = []" by (simp_all add: new_process_def)
  have "saves_ok (saved_before cf cfg ?p0 evs) (read_file path fs) path p"
    using saves_run [OF assms(1) _ _ assms(4)] assms(2,5) new by simp
  then have kept: "read_file path (np_fs p) = read_file path fs \<or>
      (\<exists>evs1 evs2 now. evs = evs1 @ evs2 \<and> read_file path (np_fs p) =
        Some (Text (snapshot_json (snd (exportEntries now (ap_store (np_app (np_run cf cfg ?p0 evs1))))))))"
    unfolding saves_ok_def file_ok_def saved_before_def saved_now_def by blast
  then have "\<not> unloadable (read_file path (np_fs p))" using assms(3) by auto
  then have "load_persisted cfg t2 (np_fs p) sv \<noteq> None" for sv
    by (rule persisted_loads [OF assms(1)])
  then have "\<not> np_exited (np_step cf cfg (new_process env' t1 (np_fs p)) (FileLoaded t2))"
    by (auto simp: file_loaded_def new_process_def begin_listening_def split: option.split role.split)
  then show ?thesis using kept by blast
qed

lemma demo_persist_enabled: "np_enabled demo_server_config (np_step cf demo_server_config (new_process no_env 0 empty_fs) (FileLoaded 5)) (PersistTick now)"
  by (simp add: np_enabled_def del: np_step.simps)

theorem snapshot_file_never_torn_witness:
  "let p = np_run demo_config demo_server_config (new_process no_env 0 empty_fs) [FileLoaded 5, PersistTick 9, SaveOpened 0] in
   \<not> np_exited (np_step demo_config demo_server_config (new_process no_env 7 (np_fs p)) (FileLoaded 20))"
proof -
  let ?p1 = "np_step demo_config demo_server_config (new_process no_env 0 empty_fs) (FileLoaded 5)"
  have tick: "np_step demo_config demo_server_config ?p1 (PersistTick 9) = begin_save 9 False ?p1" by simp
  have "np_exited (begin_save 9 False ?p1) = False"
    using demo_started_simps(3) by (simp add: begin_save_def del: np_step.simps split: prod.split)
  then have "np_calm demo_config demo_server_config (new_process no_env 0 empty_fs) [FileLoaded 5, PersistTick 9, SaveOpened 0]"
    using demo_persist_enabled
    by (simp only: np_calm.simps tick) (simp add: starts_save_def np_enabled_def stage_of_def del: np_step.simps)
  from snapshot_file_never_torn [OF _ _ _ this refl, of "''s''"] show ?thesis
    by (simp only: Let_def) (simp del: np_step.simps np_run_simps)
qed

text \<open>The process implements the event loop of \<open>Server\<close>: from any state on, whatever requests
  arrive over HTTP - limited, refused and malformed ones included -, whatever timers, pings,
  votes and pulls come in, and whatever is saved meanwhile, the node's role, its monitors and
  its campaign are those the event loop reaches by the protocol messages among these alone.\<close>

lemma process_refines_server:
  assumes "\<forall>ev \<in> set evs. running_event ev"
  shows "sv_role (np_server (np_run cf cfg p evs)) = sv_role (server_run cfg (np_server p) (server_trace cf cfg p evs)) \<and>
    np_monitors (np_run cf cfg p evs) = sv_monitors (server_run cfg (np_server p) (server_trace cf cfg p evs)) \<and>
    np_campaign (np_run cf cfg p evs) = sv_campaign (server_run cfg (np_server p) (server_trace cf cfg p evs))"
  using run_protocol_state [OF assms, of cf cfg p] by (simp add: protocol_state_def)

definition pings_of :: "nat \<Rightarrow> np_event list \<Rightarrow> bool list" where
  \<comment> \<open>how the checks of the \<open>i\<close>-th monitor settled, in order\<close>
  "pings_of i evs = List.map_filter (\<lambda>ev. case ev of
       Internal (Ping j response) \<Rightarrow> if j = i then Some (ping_ok response) else None
     | _ \<Rightarrow> None) evs"

lemma map_filter_append: "List.map_filter f (xs @ ys) = List.map_filter f xs @ List.map_filter f ys"
  by (induction xs) (simp_all add: map_filter_simps split: option.split)

lemma pings_of_snoc [simp]:
  "pings_of i [] = []"
  "pings_of i (evs @ [Internal (Ping j r)]) = pings_of i evs @ (if j = i then [ping_ok r] else [])"
  "\<forall>j r. ev \<noteq> Internal (Ping j r) \<Longrightarrow> pings_of i (evs @ [ev]) = pings_of i evs"
  by (auto simp: pings_of_def map_filter_append map_filter_simps split: np_event.split server_event.split option.split)

lemma np_trace_append [simp]:
  "np_trace cf cfg p (xs @ ys) \<longleftrightarrow> np_trace cf cfg p xs \<and> np_trace cf cfg (np_run cf cfg p xs) ys"
  by (induction xs arbitrary: p) auto

definition monitors_grow :: "node_process \<Rightarrow> node_process \<Rightarrow> bool" where
  \<comment> \<open>the streaks of the old monitors are kept, new monitors start at zero, and so is the campaign\<close>
  "monitors_grow p p' \<longleftrightarrow> np_campaign p' = np_campaign p \<and>
     (\<exists>n. map pm_failures (np_monitors p') = map pm_failures (np_monitors p) @ replicate n 0)"

lemma stop_monitor_failures [simp]: "map pm_failures (stop_monitor ms) = map pm_failures ms"
  by (cases ms rule: rev_cases) (simp_all add: stop_monitor_def pm_stop_def)

lemma monitors_growI:
  assumes "np_campaign p' = np_campaign p" and "map pm_failures (np_monitors p') = map pm_failures (np_monitors p) @ replicate n 0"
  shows "monitors_grow p p'"
  using assms unfolding monitors_grow_def by blast

lemma monitors_same: "np_campaign p' = np_campaign p \<Longrightarrow> np_monitors p' = np_monitors p \<Longrightarrow> monitors_grow p p'"
  by (rule monitors_growI [where n = 0]) simp_all

lemma attach_grows:
  assumes "sv_monitors sv = np_monitors p" and "sv_campaign sv = np_campaign p"
  shows "map pm_failures (sv_monitors (attachPrimaryMonitor url sv)) = map pm_failures (np_monitors p) @ replicate 1 0 \<and>
    sv_campaign (attachPrimaryMonitor url sv) = np_campaign p"
  using assms by (simp add: attachPrimaryMonitor_def startPrimaryMonitor_def)

lemma put_attach_grows:
  assumes "np_monitors q = np_monitors p" and "np_campaign q = np_campaign p" and "sv_monitors sv = np_monitors p" and "sv_campaign sv = np_campaign p"
  shows "monitors_grow p (np_put (attachPrimaryMonitor url sv) q)"
  using attach_grows [OF assms(3,4)] by (intro monitors_growI [where n = 1]) simp_all

lemma grow_fields: "np_monitors p'' = np_monitors p' \<Longrightarrow> np_campaign p'' = np_campaign p' \<Longrightarrow> monitors_grow p p' \<Longrightarrow> monitors_grow p p''"
  by (simp add: monitors_grow_def)

lemma loaded_protocol: "load_persisted cfg now fs sv = Some sv' \<Longrightarrow> sv_monitors sv' = sv_monitors sv \<and> sv_campaign sv' = sv_campaign sv"
  by (auto simp: load_persisted_def split: option.splits prod.splits load_outcome.splits)

lemma startup_grows: "monitors_grow p (file_loaded cfg now p)" "monitors_grow p (primary_synced response p)"
proof -
  show "monitors_grow p (file_loaded cfg now p)"
    using loaded_protocol [of cfg now "np_fs p" "np_server p"]
    by (intro monitors_same) (auto simp: file_loaded_def begin_listening_def split: option.split role.split)
  have "monitors_grow p (np_put (attachPrimaryMonitor url (snapshot_pulled response (np_server p))) p)" for url
    by (rule put_attach_grows) (simp_all add: snapshot_pulled_def)
  then have "monitors_grow p (begin_listening (np_put (attachPrimaryMonitor url (snapshot_pulled response (np_server p))) p))" for url
    by (rule grow_fields [rotated 2]) (simp_all add: begin_listening_def)
  then show "monitors_grow p (primary_synced response p)" by (simp add: primary_synced_def monitors_same split: start_stage.split)
qed

lemma serve_grows: "monitors_grow p (np_serve cf ck req p)"
proof -
  have put: "monitors_grow p (np_put (attachPrimaryMonitor url (np_server (p\<lparr>np_app := ap'\<rparr>))) (p\<lparr>np_app := ap'\<rparr>))" for url ap'
    by (rule put_attach_grows) simp_all
  have "monitors_grow p ((np_put (attachPrimaryMonitor url (np_server (p\<lparr>np_app := ap'\<rparr>))) (p\<lparr>np_app := ap'\<rparr>))\<lparr>np_pulls := n\<rparr>)" for url ap' n
    by (rule grow_fields [OF _ _ put]) simp_all
  then show ?thesis by (simp add: np_serve_def Let_def monitors_same split: prod.split option.split)
qed

lemma deregistered_grows: "monitors_grow p (deregistered cfg now p)"
  by (rule monitors_growI [where n = 0]) (simp_all add: deregistered_def stop_timers_def Let_def split: option.split)

lemma timer_failures: "map pm_failures (sv_monitors (timer_fired i sv)) = map pm_failures (sv_monitors sv) \<and> sv_campaign (timer_fired i sv) = sv_campaign sv"
proof -
  have "map pm_failures (ms[i := pm_tick (ms ! i)]) = map pm_failures ms" if "i < length ms" for ms
    using that by (simp add: map_update pm_tick_def list_update_same_conv)
  then show ?thesis by (simp add: timer_fired_def)
qed

lemma votes_step: "np_campaign (np_step cf cfg p (Internal (Votes gs))) = None \<and>
    map pm_failures (np_monitors (np_step cf cfg p (Internal (Votes gs)))) = map pm_failures (np_monitors p)"
  by (auto simp: campaign_settled_def Let_def split: option.split prod.split)

lemma other_step_grows:
  assumes "np_enabled cfg p ev" and "\<forall>j r. ev \<noteq> Internal (Ping j r)" and "\<forall>gs. ev \<noteq> Internal (Votes gs)"
  shows "monitors_grow p (np_step cf cfg p ev)"
proof (cases ev)
  case (Internal e)
  then show ?thesis using assms timer_failures [of _ "np_server p"]
    by (cases e) (auto simp: np_enabled_def snapshot_pulled_def intro!: monitors_growI [where n = 0])
qed (use startup_grows serve_grows deregistered_grows in \<open>auto simp: on_store_def on_metrics_def intro: monitors_same\<close>)

lemma ping_step:
  assumes "np_enabled cfg p (Internal (Ping i r))" and "p' = np_step cf cfg p (Internal (Ping i r))"
    and "n = (if ping_ok r then 0 else Suc (pm_failures (np_monitors p ! i)))"
  shows "i < length (np_monitors p) \<and> map pm_failures (np_monitors p') = (map pm_failures (np_monitors p))[i := n] \<and>
    np_campaign p' = (if \<not> ping_ok r \<and> sc_autoPromote cfg \<and> sc_threshold cfg \<le> n \<and> np_campaign p = None
      then Some (js_succ (currentTerm (nr_election (ap_role (np_app p))))) else np_campaign p)"
  using assms
  by (auto simp: np_enabled_def ping_answered_def pm_answer_def pm_check_def on_failure_def campaignForPrimary_def campaign_begin_def
      startElection_def map_update Let_def split: prod.splits)

definition streaks_ok :: "np_event list \<Rightarrow> node_process \<Rightarrow> bool" where
  \<comment> \<open>every monitor's count is the streak of its settled checks, and no check settled for a monitor not started\<close>
  "streaks_ok evs p \<longleftrightarrow> (\<forall>i < length (np_monitors p). map pm_failures (np_monitors p) ! i = streak (pings_of i evs)) \<and>
     (\<forall>i. length (np_monitors p) \<le> i \<longrightarrow> pings_of i evs = [])"

lemma streaks_grow:
  assumes "streaks_ok evs p" and "monitors_grow p p'" and "\<forall>j r. ev \<noteq> Internal (Ping j r)"
  shows "streaks_ok (evs @ [ev]) p'"
proof -
  obtain n where n: "map pm_failures (np_monitors p') = map pm_failures (np_monitors p) @ replicate n 0"
    using assms(2) by (auto simp: monitors_grow_def)
  then have "length (np_monitors p') = length (np_monitors p) + n" by (metis length_append length_map length_replicate)
  then show ?thesis using assms(1,3)
    by (auto simp: streaks_ok_def n nth_append simp del: nth_map)
qed

lemma streaks_step:
  assumes "streaks_ok evs p" and "np_enabled cfg p ev"
  shows "streaks_ok (evs @ [ev]) (np_step cf cfg p ev)"
proof (cases "\<exists>j r. ev = Internal (Ping j r)")
  case True
  then obtain j r where ev: "ev = Internal (Ping j r)" by blast
  let ?p' = "np_step cf cfg p ev"
  note s = ping_step [OF assms(2)[unfolded ev] refl refl, of cf]
  then have len: "length (np_monitors ?p') = length (np_monitors p)" unfolding ev by (metis length_list_update length_map)
  have f: "map pm_failures (np_monitors ?p') = (map pm_failures (np_monitors p))[j := (if ping_ok r then 0 else Suc (pm_failures (np_monitors p ! j)))]"
    using s unfolding ev by blast
  show ?thesis using assms(1) s
    unfolding streaks_ok_def len f by (auto simp: ev nth_list_update simp del: np_step.simps)
next
  case False
  show ?thesis
  proof (cases "\<exists>gs. ev = Internal (Votes gs)")
    case True
    then obtain gs where ev: "ev = Internal (Votes gs)" by blast
    have f: "map pm_failures (np_monitors (np_step cf cfg p ev)) = map pm_failures (np_monitors p)" using votes_step ev by blast
    then have "length (np_monitors (np_step cf cfg p ev)) = length (np_monitors p)" by (metis length_map)
    then show ?thesis using assms(1) False unfolding streaks_ok_def f by (simp del: np_step.simps)
  qed (use False other_step_grows [OF assms(2)] streaks_grow [OF assms(1)] in blast)
qed

lemma streaks_run: "np_trace cf cfg (new_process env t0 fs) evs \<Longrightarrow> streaks_ok evs (np_run cf cfg (new_process env t0 fs) evs)"
proof (induction evs rule: rev_induct)
  case Nil
  then show ?case by (simp add: streaks_ok_def)
next
  case (snoc ev evs)
  then show ?case using streaks_step by simp
qed

text \<open>C16: A node campaigns exactly when its primary has been silent for long enough: over any run of
  the process from its start - whatever requests, votes, new leaders, saves and signals come
  in between - a campaign begins at exactly those events that are a failed check of some
  monitor, the check being at least the threshold's in an unbroken row of that monitor's
  failed checks, with automatic promotion on and no campaign in flight; it is for the next
  term, and it stays in flight until its votes are in.\<close>

theorem campaign_needs_silence:
  assumes "np_trace cf cfg (new_process env t0 fs) (evs @ [ev])" and "p = np_run cf cfg (new_process env t0 fs) evs"
  shows "np_campaign (np_step cf cfg p ev) =
    (if \<exists>grants. ev = Internal (Votes grants) then None
     else if np_campaign p = None \<and> sc_autoPromote cfg \<and> (\<exists>i response. ev = Internal (Ping i response) \<and> \<not> ping_ok response \<and>
       sc_threshold cfg \<le> streak (pings_of i (evs @ [ev])))
     then Some (js_succ (currentTerm (nr_election (ap_role (np_app p)))))
     else np_campaign p)"
proof -
  have en: "np_enabled cfg p ev" and ok: "streaks_ok evs p" using assms streaks_run by simp_all
  consider i r where "ev = Internal (Ping i r)" | gs where "ev = Internal (Votes gs)"
    | "\<forall>i r. ev \<noteq> Internal (Ping i r)" "\<forall>gs. ev \<noteq> Internal (Votes gs)" by blast
  then show ?thesis
  proof cases
    case 1
    note s = ping_step [OF en[unfolded 1] refl refl, of cf]
    then have "pm_failures (np_monitors p ! i) = streak (pings_of i evs)" using ok by (simp add: streaks_ok_def)
    then show ?thesis using s by (auto simp: 1 simp del: np_step.simps)
  next
    case 2
    then show ?thesis using votes_step [of cf cfg p] by (simp del: np_step.simps)
  next
    case 3
    then show ?thesis using other_step_grows [OF en] by (auto simp: monitors_grow_def simp del: np_step.simps)
  qed
qed

definition replica_env :: env where
  "replica_env v = (if v = ''INKCACHE_ROLE'' then Some ''replica'' else if v = ''INKCACHE_PRIMARY_URL'' then Some ''http://a'' else None)"

definition silent_run :: "np_event list" where
  \<comment> \<open>a replica starts, and two checks of its primary fail\<close>
  "silent_run = [FileLoaded 5, PrimarySynced (\<lambda>_. None), Internal (Timer 0), Internal (Ping 0 None), Internal (Timer 0)]"

lemma replica_loads:
  "np_step cf demo_server_config (new_process replica_env 0 empty_fs) (FileLoaded 5) =
    (np_put ((np_server (new_process replica_env 0 empty_fs))\<lparr>sv_store := ap_store (new_app replica_env 0), sv_autoPersist := True\<rparr>)
      (new_process replica_env 0 empty_fs))\<lparr>np_stage := Syncing ''http://a''\<rparr>"
proof -
  have "truthy (Some ''http://a'') = Some ''http://a''" by (simp add: truthy_def)
  moreover have "nr_role (ap_role (new_app replica_env 0)) = Replica" "nr_primaryUrl (ap_role (new_app replica_env 0)) = Some ''http://a''"
    by (simp_all add: new_app_def new_role_def replica_env_def)
  ultimately show ?thesis by (simp add: file_loaded_def load_persisted_def loadSnapshot_def)
qed

lemma failing_check:
  assumes "np_monitors p = [m]" and "np_campaign p = None" and "\<not> np_exited p" and "pm_timer m" and "pm_inFlight m = 0"
    and "pm_failures m + 1 < sc_threshold cfg"
  shows "np_trace cf cfg p [Internal (Timer 0), Internal (Ping 0 None), Internal (Timer 0), Internal (Ping 0 None)]"
  using assms
  by (simp add: np_enabled_def timer_fired_def pm_tick_def ping_answered_def pm_answer_def pm_check_def ping_ok_def on_failure_def
      settle_pull_def)

theorem campaign_needs_silence_witness:
  "np_campaign (np_step demo_config demo_server_config (np_run demo_config demo_server_config (new_process replica_env 0 empty_fs) silent_run)
     (Internal (Ping 0 None))) \<noteq> None"
proof -
  let ?p0 = "new_process replica_env 0 empty_fs"
  let ?p1 = "np_step demo_config demo_server_config ?p0 (FileLoaded 5)"
  let ?p2 = "np_step demo_config demo_server_config ?p1 (PrimarySynced (\<lambda>_. None))"
  have p1: "np_stage ?p1 = Syncing ''http://a''" "np_monitors ?p1 = []" "np_campaign ?p1 = None" "\<not> np_exited ?p1"
    unfolding replica_loads by (simp_all add: new_process_def)
  have p2: "np_monitors ?p2 = [startPrimaryMonitor ''http://a'']" "np_campaign ?p2 = None" "\<not> np_exited ?p2"
    using p1 by (simp_all add: primary_synced_def begin_listening_def attachPrimaryMonitor_def snapshot_pulled_def stop_monitor_def
        del: np_step.simps(1))
  have "np_enabled demo_server_config ?p1 (PrimarySynced (\<lambda>_. None))" using p1 by (simp add: np_enabled_def del: np_step.simps)
  moreover have "np_trace demo_config demo_server_config ?p2 [Internal (Timer 0), Internal (Ping 0 None), Internal (Timer 0), Internal (Ping 0 None)]"
    using failing_check [OF p2] by (simp add: startPrimaryMonitor_def)
  ultimately have trace: "np_trace demo_config demo_server_config ?p0 (silent_run @ [Internal (Ping 0 None)])"
    by (simp add: silent_run_def del: np_step.simps np_trace_append)
  have "streak (pings_of 0 (silent_run @ [Internal (Ping 0 None)])) = 2"
    by (simp add: silent_run_def pings_of_def map_filter_simps ping_ok_def streak_def)
  then show ?thesis
    using campaign_needs_silence [OF trace refl] by (auto simp: ping_ok_def simp del: np_step.simps np_run_simps)
qed

section \<open>Shutdown\<close>

definition shutdown_steps :: "time_ms \<Rightarrow> json \<Rightarrow> np_event list" where
  \<comment> \<open>one shutdown with nothing in between\<close>
  "shutdown_steps now payload = [StopSignal, Deregistered now, SaveOpened 0, SaveWritten 0 (Text payload), SaveRenamed 0, ProcessExit]"

lemma save_states_last:
  "open_truncated (tmp_path path) fs = (fs', i) \<Longrightarrow>
    last (save_states path payload fs) = rename_file (tmp_path path) path (fs'\<lparr>data := (data fs')(i := Text payload)\<rparr>)"
  by (simp add: save_states_def finish_write_def Let_def)

lemma final_save:
  assumes "persist_path cfg = path" and "np_saves p = [\<lparr>sk_stage = Opening payload, sk_final = True\<rparr>]"
    and "np_stage p = Listening" and "\<not> np_exited p"
  shows "np_trace cf cfg p [SaveOpened 0, SaveWritten 0 (Text payload), SaveRenamed 0, ProcessExit] \<and>
    np_run cf cfg p [SaveOpened 0, SaveWritten 0 (Text payload), SaveRenamed 0, ProcessExit] =
      p\<lparr>np_fs := last (save_states path payload (np_fs p)), np_saves := [], np_closing := True, np_exited := True\<rparr>"
proof -
  obtain fs1 i where o: "open_truncated (tmp_path path) (np_fs p) = (fs1, i)" by fastforce
  let ?p1 = "p\<lparr>np_fs := fs1, np_saves := [\<lparr>sk_stage = Writing i payload False, sk_final = True\<rparr>]\<rparr>"
  let ?p2 = "p\<lparr>np_fs := fs1\<lparr>data := (data fs1)(i := Text payload)\<rparr>, np_saves := [\<lparr>sk_stage = Renaming, sk_final = True\<rparr>]\<rparr>"
  let ?p3 = "p\<lparr>np_fs := last (save_states path payload (np_fs p)), np_saves := [], np_closing := True\<rparr>"
  have s1: "np_enabled cfg p (SaveOpened 0)" "np_step cf cfg p (SaveOpened 0) = ?p1"
    using assms o by (simp_all add: np_enabled_def stage_of_def save_opened_def set_save_def writes_to_def mark_shared_def)
  have s2: "np_enabled cfg ?p1 (SaveWritten 0 (Text payload))" "np_step cf cfg ?p1 (SaveWritten 0 (Text payload)) = ?p2"
    using assms by (simp_all add: np_enabled_def stage_of_def save_written_def set_save_def)
  have s3: "np_enabled cfg ?p2 (SaveRenamed 0)" "np_step cf cfg ?p2 (SaveRenamed 0) = ?p3"
    using assms by (simp_all add: np_enabled_def stage_of_def save_renamed_def save_settled_def close_server_def save_states_last [OF o])
  have s4: "np_enabled cfg ?p3 ProcessExit" "np_step cf cfg ?p3 ProcessExit = ?p3\<lparr>np_exited := True\<rparr>"
    using assms by (simp_all add: np_enabled_def)
  show ?thesis by (simp only: np_trace.simps np_run_simps s1 s2 s3 s4)
qed

text \<open>C17: A shutdown that nothing interrupts ends: the six steps from the signal to the exit are
  possible one after the other, in any listening node without a save in flight, and the
  process exits with every timer stopped - the sweeper's, the history's, the interval
  save's and the monitors' - and with the snapshot of its store at that moment in its file,
  as one complete save leaves it.\<close>

theorem shutdown_completes:
  assumes "truthy (sc_persistPath cfg) = Some path" and "np_stage p = Listening" and "np_saves p = []" and "\<not> np_exited p"
    and "payload = snapshot_json (snd (exportEntries now (ap_store (np_app p))))"
    and "p' = np_run cf cfg p (shutdown_steps now payload)"
  shows "np_trace cf cfg p (shutdown_steps now payload) \<and> np_exited p' \<and>
    np_fs p' = last (save_states path payload (np_fs p)) \<and> np_saves p' = [] \<and>
    np_autoPersist p' = False \<and> sweepTimer (ap_store (np_app p')) = None \<and> \<not> historyTimer (ap_metrics (np_app p')) \<and>
    (one_timer (np_server p) \<longrightarrow> (\<forall>m \<in> set (np_monitors p'). \<not> pm_timer m))"
proof -
  have path: "persist_path cfg = path" using assms(1) by (simp add: persist_path_def)
  let ?p1 = "p\<lparr>np_shutdowns := np_shutdowns p + 1\<rparr>"
  let ?q = "(stop_timers ?p1)\<lparr>np_shutdowns := np_shutdowns p\<rparr>"
  let ?p2 = "begin_save now True ?q"
  let ?s = "stopSweeper (ap_store (np_app p))"
  have q: "np_saves ?q = []" "np_stage ?q = Listening" "np_exited ?q = False" "ap_store (np_app ?q) = ?s"
      "np_autoPersist ?q = False" "np_monitors ?q = stop_monitor (np_monitors p)" "\<not> historyTimer (ap_metrics (np_app ?q))"
    using assms(2-4) by (simp_all add: stop_timers_def stopHistory_def)
  have ex: "\<not> np_exited ?p2" "np_autoPersist ?p2 = False" using q by (simp_all add: begin_save_def split: prod.split)
  have s1: "np_enabled cfg p StopSignal" "np_step cf cfg p StopSignal = ?p1" using assms(4) by (simp_all add: np_enabled_def)
  have s2: "np_enabled cfg ?p1 (Deregistered now)" "np_step cf cfg ?p1 (Deregistered now) = ?p2"
    using assms(1,4) by (simp_all add: np_enabled_def deregistered_def Let_def)
  have saves: "np_saves ?p2 = [\<lparr>sk_stage = Opening payload, sk_final = True\<rparr>]" "np_stage ?p2 = Listening"
    using q assms(5) by (simp_all add: stopSweeper_export)
  note f = final_save [OF path saves ex(1), of cf]
  have p': "p' = ?p2\<lparr>np_fs := last (save_states path payload (np_fs p)), np_saves := [], np_closing := True, np_exited := True\<rparr>"
    using f by (simp only: assms(6) shutdown_steps_def np_run_simps s1(2) s2(2)) simp
  have trace: "np_trace cf cfg p (shutdown_steps now payload)"
    using f by (simp only: shutdown_steps_def np_trace.simps s1 s2)
  have "sweepTimer (fst (exportEntries now ?s)) = None"
    by (simp add: exportEntries_def stopSweeper_def Let_def split: prod.split)
  moreover have "\<not> pm_timer m" if "one_timer (np_server p)" "m \<in> set (stop_monitor (np_monitors p))" for m
    using that by (auto simp: one_timer_def in_set_conv_nth)
  ultimately show ?thesis using trace q ex by (simp add: p')
qed

theorem shutdown_completes_witness:
  "np_exited (np_run demo_config demo_server_config
     (np_step demo_config demo_server_config (new_process no_env 0 empty_fs) (FileLoaded 5))
     (shutdown_steps 9 (snapshot_json (snd (exportEntries 9 (ap_store (np_app
       (np_step demo_config demo_server_config (new_process no_env 0 empty_fs) (FileLoaded 5)))))))))"
  using shutdown_completes [OF _ _ _ _ refl refl, of demo_server_config "''s''"
      "np_step demo_config demo_server_config (new_process no_env 0 empty_fs) (FileLoaded 5)" demo_config 9]
  by (simp del: np_step.simps np_run_simps)

section \<open>Restart\<close>

definition final_saving :: "json \<Rightarrow> jsstring \<Rightarrow> node_process \<Rightarrow> bool" where
  \<comment> \<open>between the end of the announcement to the gateways and the exit: the final save is on its way or done\<close>
  "final_saving payload path p \<longleftrightarrow> np_stage p = Listening \<and> \<not> np_autoPersist p \<and> private_tmp path (np_fs p) \<and>
     (np_saves p = [] \<and> read_file path (np_fs p) = Some (Text payload) \<or>
      (\<exists>t. np_saves p = [t] \<and> sk_final t \<and> \<not> np_closing p \<and> stage_ok {payload} path (np_fs p) (sk_stage t)))"

definition undisturbed :: "np_event \<Rightarrow> bool" where
  \<comment> \<open>anything but the failure of a save and the announcement of a second shutdown\<close>
  "undisturbed ev \<longleftrightarrow> (case ev of SaveFailed _ _ \<Rightarrow> False | Deregistered _ \<Rightarrow> False | _ \<Rightarrow> True)"

lemma server_step_persist [simp]: "sv_autoPersist (server_step cfg sv ev) = sv_autoPersist sv"
  by (cases ev) (auto simp: timer_fired_def ping_answered_def on_failure_def campaignForPrimary_def campaign_settled_def
      leader_announced_def attachPrimaryMonitor_def snapshot_pulled_def Let_def split: option.split prod.split)

lemma serve_keeps [simp]:
  "np_stage (np_serve cf ck req p) = np_stage p" "np_autoPersist (np_serve cf ck req p) = np_autoPersist p"
  "np_closing (np_serve cf ck req p) = np_closing p"
  by (simp_all add: np_serve_def attachPrimaryMonitor_def Let_def split: prod.split option.split)

lemma settle_pull_closing [simp]: "np_closing (settle_pull ev p) = np_closing p"
  by (simp add: settle_pull_def split: server_event.split)

lemma final_saving_same:
  assumes "final_saving payload path p" and "np_stage p' = np_stage p" and "np_autoPersist p' = np_autoPersist p"
    and "np_fs p' = np_fs p" and "np_saves p' = np_saves p" and "np_closing p' = np_closing p"
  shows "final_saving payload path p'"
  using assms by (simp add: final_saving_def)

lemma final_saving_save:
  assumes "final_saving payload path p" and "stage_of n p = Some st"
  obtains t where "np_saves p = [t]" "n = 0" "sk_stage t = st" "sk_final t" "\<not> np_closing p" "stage_ok {payload} path (np_fs p) st"
    "np_stage p = Listening" "\<not> np_autoPersist p" "file_ok {payload} (read_file path (np_fs p)) path (np_fs p)"
  using assms by (auto simp: final_saving_def stage_of_def file_ok_def split: if_splits)

lemma final_saving_step:
  assumes "final_saving payload path p" and "truthy (sc_persistPath cfg) = Some path" and "np_enabled cfg p ev" and "undisturbed ev"
  shows "final_saving payload path (np_step cf cfg p ev)"
proof -
  have path: "persist_path cfg = path" using assms(2) by (simp add: persist_path_def)
  have st: "np_stage p = Listening" "\<not> np_autoPersist p" using assms(1) by (simp_all add: final_saving_def)
  show ?thesis
  proof (cases ev)
    case (SaveOpened n)
    then obtain pl where "stage_of n p = Some (Opening pl)"
      using assms(3) by (auto simp: np_enabled_def split: option.splits save_stage.splits)
    then show ?thesis
    proof (rule final_saving_save [OF assms(1)])
      fix t
      assume t: "np_saves p = [t]" "n = 0" "sk_stage t = Opening pl" "sk_final t" "\<not> np_closing p"
        "stage_ok {payload} path (np_fs p) (Opening pl)" "file_ok {payload} (read_file path (np_fs p)) path (np_fs p)"
      obtain fs' i where o: "open_truncated (tmp_path path) (np_fs p) = (fs', i)" by fastforce
      then show ?thesis using t st open_file_ok [OF t(7) o] SaveOpened path
        by (simp add: save_opened_def final_saving_def file_ok_def set_save_def writes_to_def mark_shared_def)
    qed
  next
    case (SaveWritten n c)
    then obtain i pl shared where w: "stage_of n p = Some (Writing i pl shared)" "shared \<or> c = Text pl"
      using assms(3) by (auto simp: np_enabled_def split: option.splits save_stage.splits)
    show ?thesis
    proof (rule final_saving_save [OF assms(1) w(1)])
      fix t
      assume t: "np_saves p = [t]" "n = 0" "sk_stage t = Writing i pl shared" "sk_final t" "\<not> np_closing p"
        "stage_ok {payload} path (np_fs p) (Writing i pl shared)" "file_ok {payload} (read_file path (np_fs p)) path (np_fs p)"
      then have "names (np_fs p) (tmp_path path) = Some i" "c = Text payload" using w(2) by auto
      then show ?thesis using t st write_file_ok [OF t(7), of i c] SaveWritten
        by (simp add: save_written_def final_saving_def file_ok_def set_save_def)
    qed
  next
    case (SaveRenamed n)
    then have "stage_of n p = Some Renaming" using assms(3) by (simp add: np_enabled_def)
    then show ?thesis
    proof (rule final_saving_save [OF assms(1)])
      fix t
      assume t: "np_saves p = [t]" "n = 0" "sk_stage t = Renaming" "sk_final t" "\<not> np_closing p"
        "stage_ok {payload} path (np_fs p) Renaming" "file_ok {payload} (read_file path (np_fs p)) path (np_fs p)"
      then have r: "read_file (tmp_path path) (np_fs p) = Some (Text payload)" by simp
      then have "private_tmp path (rename_file (tmp_path path) path (np_fs p))" using rename_file_ok [OF t(7)] by (simp add: file_ok_def)
      moreover have "read_file path (rename_file (tmp_path path) path (np_fs p)) = Some (Text payload)"
        using r by (auto simp: rename_file_def read_file_def split: option.splits)
      ultimately show ?thesis using t st SaveRenamed path
        by (simp add: save_renamed_def save_settled_def close_server_def final_saving_def)
    qed
  next
    case (PrimarySynced r)
    then show ?thesis using assms(3) st by (simp add: np_enabled_def)
  qed (use assms(3,4) st in \<open>auto simp: np_enabled_def undisturbed_def on_store_def on_metrics_def intro: final_saving_same [OF assms(1)]\<close>)
qed

lemma final_saving_run:
  assumes "final_saving payload path p" and "truthy (sc_persistPath cfg) = Some path"
    and "np_trace cf cfg p evs" and "\<forall>ev \<in> set evs. undisturbed ev"
  shows "final_saving payload path (np_run cf cfg p evs)"
  using assms(1,3,4) by (induction evs arbitrary: p) (use final_saving_step [OF _ assms(2)] in auto)

lemma deregistered_saves:
  assumes "truthy (sc_persistPath cfg) = Some path" and "np_stage p = Listening" and "np_saves p = []" and "\<not> np_closing p"
    and "private_tmp path (np_fs p)"
  shows "final_saving (snapshot_json (snd (exportEntries now (ap_store (np_app p))))) path (deregistered cfg now p)"
  using assms by (simp add: deregistered_def Let_def final_saving_def stop_timers_def stopSweeper_export)
    (simp add: begin_save_def split: prod.split)

text \<open>C30: A graceful restart preserves the cache. Let a listening node with a persistence file and no
  save in flight have received its signal, and let \<open>now\<close> be the moment its gateways are told.
  Whatever happens then until it exits - the steps of the final save, and in between requests,
  pings, votes and timers, in any order - as long as no step of that save fails and no
  second signal starts a second one, the file holds the snapshot of its store at \<open>now\<close> when
  it exits. A primary started on that file with room for it listens, and reads key by key as
  the node did at \<open>now\<close>: keys without a deadline without one, every deadline later by exactly
  the time in between. What was written during the final save is not in the file.\<close>

theorem graceful_restart:
  assumes "truthy (sc_persistPath cfg) = Some path" and "private_tmp path (np_fs p)" and "cache_ok (ap_store (np_app p))"
    and "np_stage p = Listening" and "np_saves p = []" and "\<not> np_closing p"
    and "np_trace cf cfg p (Deregistered now # during @ [ProcessExit])" and "\<forall>ev \<in> set during. undisturbed ev"
    and "p' = np_run cf cfg p (Deregistered now # during @ [ProcessExit])"
    and "truthy (sc_persistPath cfg') = Some path" and "nr_role (ap_role (new_app env t0)) = Primary"
    and "length (snd (exportEntries now (ap_store (np_app p)))) \<le> parsePositiveInt (env ''INKCACHE_MAX_ENTRIES'') 512 None"
    and "q = np_step cf' cfg' (new_process env t0 (np_fs p')) (FileLoaded now')"
    and "0 \<le> now" and "now \<le> now'" and "now' \<le> t"
    and "\<forall>k v x. visible now (ap_store (np_app p)) k = Some (v, Some x) \<longrightarrow> (\<exists>d. x = Fin d \<and> d + of_int now' < overflow_limit)"
  shows "read_file path (np_fs p') = Some (Text (snapshot_json (snd (exportEntries now (ap_store (np_app p)))))) \<and>
    np_stage q = Listening \<and> \<not> np_exited q \<and>
    visible t (ap_store (np_app q)) k = (case visible now (ap_store (np_app p)) k of None \<Rightarrow> None
     | Some (v, d) \<Rightarrow> if not_due t (shift_deadline (now' - now) d) then Some (v, shift_deadline (now' - now) d) else None)"
proof -
  let ?s = "ap_store (np_app p)"
  let ?payload = "snapshot_json (snd (exportEntries now ?s))"
  let ?p1 = "np_run cf cfg (deregistered cfg now p) during"
  have "final_saving ?payload path ?p1"
    by (rule final_saving_run [OF deregistered_saves [OF assms(1,4,5,6,2)] assms(1)]) (use assms(7,8) in simp_all)
  moreover have "np_closing ?p1" using assms(7) by (simp add: np_enabled_def)
  moreover have "np_fs p' = np_fs ?p1" by (simp add: assms(9))
  ultimately have held: "read_file path (np_fs p') = Some (Text ?payload)" by (simp add: final_saving_def)
  let ?new = "new_app env t0"
  have new: "cache_ok (ap_store ?new)" "entries (ap_store ?new) = []" "maxEntries (ap_store ?new) = parsePositiveInt (env ''INKCACHE_MAX_ENTRIES'') 512 None"
    using new_app_ok [of env t0] by (simp_all add: app_ok_def) (simp_all add: new_app_def new_cache_def)
  have fin: "\<forall>row \<in> set (snd (exportEntries now ?s)). finite_ttl row"
    by (rule exported_finite [OF assms(3,14,15,17)])
  have load: "loadSnapshot now' (read_file path (np_fs p')) (ap_store ?new) =
      (load_rows now' (snd (exportEntries now ?s)) (ap_store ?new), Loaded (length (snd (exportEntries now ?s))))"
    unfolding held by (rule load_saved [OF fin])
  have q: "q = begin_listening (np_put ((np_server (new_process env t0 (np_fs p')))
      \<lparr>sv_store := load_rows now' (snd (exportEntries now ?s)) (ap_store ?new), sv_autoPersist := True\<rparr>) (new_process env t0 (np_fs p')))"
    using assms(10,11) load by (simp add: assms(13) file_loaded_def load_persisted_def)
  have "visible t (ap_store (np_app q)) k = visible t (load_rows now' (snd (exportEntries now ?s)) (ap_store ?new)) k"
    by (simp add: q begin_listening_def)
  moreover have "np_stage q = Listening" "\<not> np_exited q" by (simp_all add: q begin_listening_def)
  ultimately show ?thesis
    using held reload_visible [OF assms(3) new(1,2) _ assms(14-17), of k] assms(12) new(3) by simp
qed

definition restart_demo :: node_process where
  "restart_demo = (let p = np_step demo_config demo_server_config (new_process no_env 0 empty_fs) (FileLoaded 5)
     in p\<lparr>np_app := (np_app p)\<lparr>ap_store := ttl_cache\<rparr>, np_shutdowns := 1\<rparr>)"

lemma restart_demo_simps:
  "np_saves restart_demo = []" "np_stage restart_demo = Listening" "np_exited restart_demo = False" "np_closing restart_demo = False"
  "np_fs restart_demo = empty_fs" "ap_store (np_app restart_demo) = ttl_cache" "np_shutdowns restart_demo = 1"
  by (simp_all only: restart_demo_def demo_started Let_def) (simp_all add: begin_listening_def new_process_def)

theorem graceful_restart_witness:
  "visible 2600 (ap_store (np_app (np_step demo_config demo_server_config (new_process no_env 0 (np_fs (np_run demo_config demo_server_config
     restart_demo (Deregistered 1500 # [SaveOpened 0, SaveWritten 0 (Text (snapshot_json (snd (exportEntries 1500 ttl_cache)))), SaveRenamed 0]
       @ [ProcessExit])))) (FileLoaded 2000)))) ''a'' = Some (''1'', Some (Fin 3500))"
proof -
  let ?payload = "snapshot_json (snd (exportEntries 1500 ttl_cache))"
  let ?during = "[SaveOpened 0, SaveWritten 0 (Text ?payload), SaveRenamed 0]"
  have l: "(10000 :: rat) < overflow_limit" using overflow_limit_large by simp
  have d: "\<forall>k v x. visible 1500 ttl_cache k = Some (v, Some x) \<longrightarrow> (\<exists>d. x = Fin d \<and> d + of_int 2000 < overflow_limit)"
    using l by (auto simp: ttl_cache_visible split: if_splits)
  let ?p = "deregistered demo_server_config 1500 restart_demo"
  have p: "np_saves ?p = [\<lparr>sk_stage = Opening ?payload, sk_final = True\<rparr>]" "np_stage ?p = Listening" "\<not> np_exited ?p"
    by (simp_all add: deregistered_def Let_def stop_timers_def restart_demo_simps stopSweeper_export)
  have "np_trace demo_config demo_server_config ?p [SaveOpened 0, SaveWritten 0 (Text ?payload), SaveRenamed 0, ProcessExit]"
    using final_save [OF demo_path(2) p] by blast
  then have trace: "np_trace demo_config demo_server_config restart_demo (Deregistered 1500 # ?during @ [ProcessExit])"
    by (simp add: np_enabled_def restart_demo_simps)
  show ?thesis
    using graceful_restart [OF demo_path(1) _ _ _ _ _ trace _ refl demo_path(1), of no_env 0 _ demo_config 2000 2600 "''a''"] d
    by (simp add: restart_demo_simps ttl_cache_ok undisturbed_def ttl_cache_export_length no_env_def parsePositiveInt_def
        ttl_cache_visible shift_deadline_def not_due_def num_of_int_def del: np_step.simps np_run_simps np_trace.simps)
qed

text \<open>The final save does not hold what is written while it runs: the server goes on accepting
  requests until the save is done - \<open>server.close\<close> comes after it - so whatever is
  acknowledged between the end of the announcement to the gateways and the exit is not in
  the file the next start loads.\<close>

lemma requests_keep_saves:
  "np_saves (np_run cf cfg p (map (\<lambda>(ck, req). Request ck req) reqs)) = np_saves p \<and>
    np_fs (np_run cf cfg p (map (\<lambda>(ck, req). Request ck req) reqs)) = np_fs p \<and>
    np_stage (np_run cf cfg p (map (\<lambda>(ck, req). Request ck req) reqs)) = np_stage p \<and>
    np_exited (np_run cf cfg p (map (\<lambda>(ck, req). Request ck req) reqs)) = np_exited p"
proof (induction reqs arbitrary: p)
  case (Cons r reqs)
  have "np_stage (np_serve cf ck req p) = np_stage p" "np_exited (np_serve cf ck req p) = np_exited p" for ck req
    by (simp_all add: np_serve_def Let_def split: prod.split option.split)
  then show ?case using Cons by (cases r) simp
qed simp

lemma writes_during_final_save_lost:
  assumes "truthy (sc_persistPath cfg) = Some path" and "np_stage p = Listening" and "np_saves p = []" and "\<not> np_exited p"
    and "private_tmp path (np_fs p)" and "payload = snapshot_json (snd (exportEntries now (ap_store (np_app p))))"
    and "p' = np_run cf cfg p ([StopSignal, Deregistered now] @ map (\<lambda>(ck, req). Request ck req) reqs @
           [SaveOpened 0, SaveWritten 0 (Text payload), SaveRenamed 0, ProcessExit])"
  shows "np_exited p' \<and> read_file path (np_fs p') = Some (Text payload)"
proof -
  have path: "persist_path cfg = path" using assms(1) by (simp add: persist_path_def)
  let ?p2 = "np_run cf cfg p [StopSignal, Deregistered now]"
  let ?p3 = "np_run cf cfg ?p2 (map (\<lambda>(ck, req). Request ck req) reqs)"
  have p2: "np_saves ?p2 = [\<lparr>sk_stage = Opening payload, sk_final = True\<rparr>]" "np_stage ?p2 = Listening" "np_exited ?p2 = False" "np_fs ?p2 = np_fs p"
    using assms(1-4,6) by (simp_all add: deregistered_def Let_def stop_timers_def stopSweeper_export)
  have p3: "np_saves ?p3 = [\<lparr>sk_stage = Opening payload, sk_final = True\<rparr>]" "np_stage ?p3 = Listening" "\<not> np_exited ?p3" "np_fs ?p3 = np_fs p"
    using p2 requests_keep_saves [of cf cfg ?p2 reqs] by (simp_all del: np_run_simps)
  have "p' = np_run cf cfg ?p3 [SaveOpened 0, SaveWritten 0 (Text payload), SaveRenamed 0, ProcessExit]"
    by (simp only: assms(7) np_run_simps(3))
  also have "\<dots> = ?p3\<lparr>np_fs := last (save_states path payload (np_fs p)), np_saves := [], np_closing := True, np_exited := True\<rparr>"
    using final_save [OF path p3(1,2,3), of cf] p3(4) by simp
  finally have p': "p' = ?p3\<lparr>np_fs := last (save_states path payload (np_fs p)), np_saves := [], np_closing := True, np_exited := True\<rparr>" .
  obtain fs1 fs2 fs3 where s: "save_states path payload (np_fs p) = [np_fs p, fs1, fs2, fs3]" by (rule save_states_four)
  show ?thesis using save_states_cases [OF assms(5) s] by (simp add: p' s)
qed

text \<open>A clean shutdown can leave an unreadable file: when the interval save is writing as the
  final save opens the same temporary file, the text they leave there is neither's - here
  one that is no JSON -, the interval save's rename publishes it, the final save's rename
  fails and is only logged, and the process exits; the next start finds nothing to load.\<close>

definition overlapping_shutdown :: "time_ms \<Rightarrow> time_ms \<Rightarrow> np_event list" where
  "overlapping_shutdown t now = [PersistTick t, SaveOpened 0, StopSignal, Deregistered now, SaveOpened 1,
     SaveWritten 0 Partial, SaveWritten 1 Partial, SaveRenamed 0, SaveRenamed 0, ProcessExit]"

lemma overlapping_tail:
  assumes "persist_path cfg = path" and "names (np_fs q) (tmp_path path) = Some i" and "np_stage q = Listening" and "\<not> np_exited q"
    and "np_saves q = [\<lparr>sk_stage = Writing i first False, sk_final = False\<rparr>, \<lparr>sk_stage = Opening second, sk_final = True\<rparr>]"
  shows "np_trace cf cfg q [SaveOpened 1, SaveWritten 0 Partial, SaveWritten 1 Partial, SaveRenamed 0, SaveRenamed 0, ProcessExit] \<and>
    np_exited (np_run cf cfg q [SaveOpened 1, SaveWritten 0 Partial, SaveWritten 1 Partial, SaveRenamed 0, SaveRenamed 0, ProcessExit]) \<and>
    read_file path (np_fs (np_run cf cfg q [SaveOpened 1, SaveWritten 0 Partial, SaveWritten 1 Partial, SaveRenamed 0, SaveRenamed 0, ProcessExit]))
      = Some Partial"
proof -
  note defs = np_enabled_def stage_of_def set_save_def writes_to_def mark_shared_def
  let ?w = "\<lambda>payload final. \<lparr>sk_stage = Writing i payload True, sk_final = final\<rparr>" and ?r = "\<lambda>final. \<lparr>sk_stage = Renaming, sk_final = final\<rparr>"
  let ?fs = "np_fs q\<lparr>data := (data (np_fs q))(i := Partial)\<rparr>"
  let ?q1 = "q\<lparr>np_fs := ?fs, np_saves := [?w first False, ?w second True]\<rparr>"
  let ?q2 = "q\<lparr>np_fs := ?fs, np_saves := [?r False, ?w second True]\<rparr>"
  let ?q3 = "q\<lparr>np_fs := ?fs, np_saves := [?r False, ?r True]\<rparr>"
  let ?q4 = "q\<lparr>np_fs := ?fs\<lparr>names := (names (np_fs q))(tmp_path path := None, path := Some i)\<rparr>, np_saves := [?r True]\<rparr>"
  let ?q5 = "?q4\<lparr>np_saves := [], np_closing := True\<rparr>"
  have s1: "np_enabled cfg q (SaveOpened 1)" "np_step cf cfg q (SaveOpened 1) = ?q1"
    using assms by (simp_all add: defs save_opened_def open_truncated_def)
  have s2: "np_enabled cfg ?q1 (SaveWritten 0 Partial)" "np_step cf cfg ?q1 (SaveWritten 0 Partial) = ?q2"
    using assms by (simp_all add: defs save_written_def)
  have s3: "np_enabled cfg ?q2 (SaveWritten 1 Partial)" "np_step cf cfg ?q2 (SaveWritten 1 Partial) = ?q3"
    using assms by (simp_all add: defs save_written_def)
  have s4: "np_enabled cfg ?q3 (SaveRenamed 0)" "np_step cf cfg ?q3 (SaveRenamed 0) = ?q4"
    using assms by (simp_all add: defs save_renamed_def save_settled_def rename_file_def)
  have s5: "np_enabled cfg ?q4 (SaveRenamed 0)" "np_step cf cfg ?q4 (SaveRenamed 0) = ?q5"
    using assms by (simp_all add: defs save_renamed_def save_settled_def rename_file_def close_server_def)
  have s6: "np_enabled cfg ?q5 ProcessExit" "np_step cf cfg ?q5 ProcessExit = ?q5\<lparr>np_exited := True\<rparr>"
    using assms by (simp_all add: defs)
  have "read_file path (np_fs (?q5\<lparr>np_exited := True\<rparr>)) = Some Partial" by (simp add: read_file_def)
  then show ?thesis by (simp only: np_trace.simps np_run_simps s1 s2 s3 s4 s5 s6) simp
qed

lemma overlapping_shutdown_corrupts_file:
  assumes "truthy (sc_persistPath cfg) = Some path" and "np_stage p = Listening" and "np_saves p = []" and "\<not> np_exited p"
    and "np_autoPersist p" and "p' = np_run cf cfg p (overlapping_shutdown t now)"
  shows "np_trace cf cfg p (overlapping_shutdown t now) \<and> np_exited p' \<and> read_file path (np_fs p') = Some Partial \<and>
    loadSnapshot t' (read_file path (np_fs p')) store = (store, NotLoaded)"
proof -
  have path: "persist_path cfg = path" using assms(1) by (simp add: persist_path_def)
  obtain fs1 i where o: "open_truncated (tmp_path path) (np_fs p) = (fs1, i)" by fastforce
  then have i: "names fs1 (tmp_path path) = Some i" by (auto simp: open_truncated_def split: option.splits)
  let ?first = "snapshot_json (snd (exportEntries t (ap_store (np_app p))))"
  let ?p1 = "begin_save t False p"
  let ?p2 = "?p1\<lparr>np_fs := fs1, np_saves := [\<lparr>sk_stage = Writing i ?first False, sk_final = False\<rparr>]\<rparr>"
  let ?p3 = "?p2\<lparr>np_shutdowns := np_shutdowns ?p2 + 1\<rparr>"
  let ?p4 = "deregistered cfg now ?p3"
  have p1: "np_saves ?p1 = [\<lparr>sk_stage = Opening ?first, sk_final = False\<rparr>]" "np_fs ?p1 = np_fs p" "np_exited ?p1 = False" "np_stage ?p1 = Listening"
    using assms(2-4) by simp_all
  have s1: "np_enabled cfg p (PersistTick t)" "np_step cf cfg p (PersistTick t) = ?p1" using assms(4,5) by (simp_all add: np_enabled_def)
  have s2: "np_enabled cfg ?p1 (SaveOpened 0)" "np_step cf cfg ?p1 (SaveOpened 0) = ?p2"
    using p1 by (simp_all add: np_enabled_def stage_of_def save_opened_def path o set_save_def writes_to_def mark_shared_def del: begin_save_fields)
  have s3: "np_enabled cfg ?p2 StopSignal" "np_step cf cfg ?p2 StopSignal = ?p3" using p1 by (simp_all add: np_enabled_def del: begin_save_fields)
  have s4: "np_enabled cfg ?p3 (Deregistered now)" "np_step cf cfg ?p3 (Deregistered now) = ?p4"
    using p1 by (simp_all add: np_enabled_def del: begin_save_fields)
  obtain second where p4: "np_saves ?p4 = [\<lparr>sk_stage = Writing i ?first False, sk_final = False\<rparr>, \<lparr>sk_stage = Opening second, sk_final = True\<rparr>]"
    using assms(1) by (simp add: deregistered_def Let_def)
  have p4': "np_fs ?p4 = fs1" "np_stage ?p4 = Listening" "\<not> np_exited ?p4"
    using assms(1,2,4) by (simp_all add: deregistered_def Let_def stop_timers_def)
  have tail: "overlapping_shutdown t now = [PersistTick t, SaveOpened 0, StopSignal, Deregistered now] @
      [SaveOpened 1, SaveWritten 0 Partial, SaveWritten 1 Partial, SaveRenamed 0, SaveRenamed 0, ProcessExit]"
    by (simp add: overlapping_shutdown_def)
  have head: "np_run cf cfg p [PersistTick t, SaveOpened 0, StopSignal, Deregistered now] = ?p4"
    by (simp only: np_run_simps s1 s2 s3 s4)
  note f = overlapping_tail [OF path _ p4'(2,3) p4, of cf]
  have "p' = np_run cf cfg ?p4 [SaveOpened 1, SaveWritten 0 Partial, SaveWritten 1 Partial, SaveRenamed 0, SaveRenamed 0, ProcessExit]"
    by (simp only: assms(6) tail np_run_simps(3) head)
  moreover have "np_trace cf cfg p (overlapping_shutdown t now)"
    using f i p4'(1) by (simp only: overlapping_shutdown_def np_trace.simps s1 s2 s3 s4)
  ultimately show ?thesis using f i p4'(1) by (simp add: loadSnapshot_def)
qed

lemma overlapping_shutdown_corrupts_file_witness:
  "read_file ''s'' (np_fs (np_run demo_config demo_server_config
     (np_step demo_config demo_server_config (new_process no_env 0 empty_fs) (FileLoaded 5)) (overlapping_shutdown 9 10))) = Some Partial"
  using overlapping_shutdown_corrupts_file [OF _ _ _ _ _ refl, of demo_server_config "''s''"
      "np_step demo_config demo_server_config (new_process no_env 0 empty_fs) (FileLoaded 5)" demo_config 9 10]
  by (simp del: np_step.simps np_run_simps)

end
