(* ===== verification/Gateway.thy ===== *)
theory Gateway
  imports HealthCheck Http
begin

text \<open>
  \<open>src/network/gateway.ts\<close> and \<open>src/network/gateway-sync.ts\<close>: the request handlers of the
  cluster gateway and one round of gossip between two gateways. A handler takes the parsed
  request body (\<open>None\<close> where Express leaves it undefined) and returns what it does: a
  response, a request forwarded to a node, or nothing at all. The optional health checker
  shares the gateway's router.
\<close>

section \<open>State and outcomes\<close>

record gateway =
  gw_router :: cluster_router
  gw_health :: "(jsstring, bool) jsmap option"

record forwarded =
  fw_node :: jsstring \<comment> \<open>the \<open>nodeUrl\<close> and the \<open>path\<close> that \<open>proxy\<close> concatenates\<close>
  fw_path :: jsstring
  fw_method :: jsstring
  fw_body :: "json option"

datatype outcome =
  Reply response
  | Forward forwarded
  | NoReply \<comment> \<open>the handler returned without writing to the response\<close>

definition gw_checker :: "gateway \<Rightarrow> (jsstring, bool) jsmap \<Rightarrow> health_check" where
  "gw_checker g m = \<lparr>hc_health = m, hc_router = gw_router g\<rparr>"

definition gw_set_checker :: "health_check \<Rightarrow> gateway \<Rightarrow> gateway" where
  "gw_set_checker hc g = g\<lparr>gw_router := hc_router hc, gw_health := Some (hc_health hc)\<rparr>"

section \<open>Routing handlers\<close>

definition requireNode :: "(jsstring \<Rightarrow> nat) \<Rightarrow> gateway \<Rightarrow> jsstring \<Rightarrow> (jsstring \<Rightarrow> outcome) \<Rightarrow> outcome" where
  \<comment> \<open>\<open>requireNode\<close> and the \<open>if (!nodeUrl) return\<close> that every caller makes of its result:
    both \<open>undefined\<close> and the empty string are falsy\<close>
  "requireNode h g key k =
     (if router_size (gw_router g) = 0 then Reply (error_response 503 ''no cluster nodes configured'')
      else (case nodeFor h key (gw_router g) of
          None \<Rightarrow> NoReply
        | Some nodeUrl \<Rightarrow> if nodeUrl = [] then NoReply else k nodeUrl))"

definition gw_set :: "(jsstring \<Rightarrow> nat) \<Rightarrow> json option \<Rightarrow> gateway \<Rightarrow> outcome" where
  "gw_set h body g = (case as_string (read_field ''key'' (nullish_to_obj body)) of
       None \<Rightarrow> Reply (error_response 400 ''key must be a non-empty string'')
     | Some key \<Rightarrow>
         if length key = 0 then Reply (error_response 400 ''key must be a non-empty string'')
         else requireNode h g key (\<lambda>nodeUrl. Forward
           \<lparr>fw_node = nodeUrl, fw_path = ''/set'', fw_method = ''POST'', fw_body = Some (nullish_to_obj body)\<rparr>))"

definition gw_get :: "(jsstring \<Rightarrow> nat) \<Rightarrow> jsstring \<Rightarrow> gateway \<Rightarrow> outcome" where
  "gw_get h key g = requireNode h g key (\<lambda>nodeUrl. Forward
     \<lparr>fw_node = nodeUrl, fw_path = ''/get/'' @ encodeURIComponent key, fw_method = ''GET'', fw_body = None\<rparr>)"

definition gw_delete :: "(jsstring \<Rightarrow> nat) \<Rightarrow> jsstring \<Rightarrow> gateway \<Rightarrow> outcome" where
  "gw_delete h key g = requireNode h g key (\<lambda>nodeUrl. Forward
     \<lparr>fw_node = nodeUrl, fw_path = ''/delete/'' @ encodeURIComponent key, fw_method = ''DELETE'', fw_body = None\<rparr>)"

definition gw_route :: "(jsstring \<Rightarrow> nat) \<Rightarrow> jsstring \<Rightarrow> gateway \<Rightarrow> outcome" where
  "gw_route h key g = requireNode h g key (\<lambda>nodeUrl.
     Reply (ok_response [(''key'', JStr key), (''node'', JStr nodeUrl)]))"

definition proxy :: "jsstring \<Rightarrow> jsstring \<Rightarrow> (nat \<times> json option) option \<Rightarrow> response" where
  \<comment> \<open>what \<open>proxy\<close> relays: the upstream status and body (\<open>{}\<close> when it is not JSON), or a 502
    with the error message when the request itself failed\<close>
  "proxy nodeUrl message upstream = (case upstream of
       Some (code, body) \<Rightarrow> \<lparr>res_status = code, res_body = (case body of None \<Rightarrow> JObj [] | Some b \<Rightarrow> b)\<rparr>
     | None \<Rightarrow> error_response 502 (''node '' @ nodeUrl @ '' unreachable: '' @ message))"

section \<open>Node registry handlers\<close>

definition known_nodes :: "gateway \<Rightarrow> jsstring list" where
  \<comment> \<open>\<open>healthHandle?.status().map((n) => n.url) ?? router.nodes\<close>\<close>
  "known_nodes g = (case gw_health g of
       Some m \<Rightarrow> map fst (hc_status (gw_checker g m))
     | None \<Rightarrow> router_nodes (gw_router g))"

definition gw_register :: "(jsstring \<Rightarrow> nat) \<Rightarrow> jsstring \<Rightarrow> gateway \<Rightarrow> gateway" where
  \<comment> \<open>\<open>if (healthHandle) healthHandle.addNode(url); else router.addNode(url)\<close>\<close>
  "gw_register h url g = (case gw_health g of
       Some m \<Rightarrow> gw_set_checker (hc_addNode h url (gw_checker g m)) g
     | None \<Rightarrow> g\<lparr>gw_router := addNode h url (gw_router g)\<rparr>)"

definition gw_deregister :: "jsstring \<Rightarrow> gateway \<Rightarrow> gateway" where
  "gw_deregister url g = (case gw_health g of
       Some m \<Rightarrow> gw_set_checker (hc_removeNode url (gw_checker g m)) g
     | None \<Rightarrow> g\<lparr>gw_router := removeNode url (gw_router g)\<rparr>)"

definition url_of_body :: "json option \<Rightarrow> jsstring option" where
  \<comment> \<open>the \<open>url\<close> field when it passes \<open>typeof url === "string" && url.length > 0\<close>\<close>
  "url_of_body body = (case as_string (read_field ''url'' (nullish_to_obj body)) of
       None \<Rightarrow> None | Some url \<Rightarrow> if length url = 0 then None else Some url)"

definition post_cluster_nodes :: "(jsstring \<Rightarrow> nat) \<Rightarrow> json option \<Rightarrow> gateway \<Rightarrow> gateway \<times> response" where
  "post_cluster_nodes h body g = (case url_of_body body of
       None \<Rightarrow> (g, error_response 400 ''url must be a non-empty string'')
     | Some url \<Rightarrow>
         let normalized = normalize_url url in
         if normalized \<in> set (known_nodes g)
         then (g, error_response 409 (''node '' @ normalized @ '' is already registered''))
         else let g' = gw_register h normalized g in
           (g', ok_response [(''ok'', JBool True), (''url'', JStr normalized),
              (''count'', json_nat (router_size (gw_router g')))]))"

definition delete_cluster_nodes :: "json option \<Rightarrow> gateway \<Rightarrow> gateway \<times> response" where
  "delete_cluster_nodes body g = (case url_of_body body of
       None \<Rightarrow> (g, error_response 400 ''url must be a non-empty string'')
     | Some url \<Rightarrow>
         let normalized = normalize_url url; g' = gw_deregister normalized g in
         (g', ok_response [(''ok'', JBool True), (''url'', JStr normalized),
            (''count'', json_nat (router_size (gw_router g')))]))"

definition get_cluster_nodes :: "gateway \<Rightarrow> response" where
  "get_cluster_nodes g =
     (let status = (case gw_health g of
          Some m \<Rightarrow> hc_status (gw_checker g m)
        | None \<Rightarrow> map (\<lambda>url. (url, True)) (router_nodes (gw_router g)))
      in ok_response [(''nodes'', JArr (map (\<lambda>(url, healthy). JObj [(''url'', JStr url), (''healthy'', JBool healthy)]) status)),
        (''healthyCount'', json_nat (router_size (gw_router g))), (''count'', json_nat (length status))])"

definition set_of_list :: "'a list \<Rightarrow> 'a list" where
  \<comment> \<open>\<open>new Set(xs)\<close>: the first occurrence of every element\<close>
  "set_of_list xs = rev (remdups (rev xs))"

fun sync_loop :: "(jsstring \<Rightarrow> nat) \<Rightarrow> jsstring list \<Rightarrow> jsstring list \<Rightarrow> gateway \<Rightarrow> gateway \<times> jsstring list" where
  \<comment> \<open>\<open>known\<close> is the handler's local \<open>Set\<close>, in insertion order\<close>
  "sync_loop h [] known g = (g, known)"
| "sync_loop h (url # urls) known g =
     (let normalized = normalize_url url in
      if normalized \<in> set known then sync_loop h urls known g
      else sync_loop h urls (known @ [normalized]) (gw_register h normalized g))"

definition post_cluster_sync :: "(jsstring \<Rightarrow> nat) \<Rightarrow> json option \<Rightarrow> gateway \<Rightarrow> gateway \<times> response" where
  "post_cluster_sync h body g = (case read_field ''nodes'' (nullish_to_obj body) of
       Some (JArr js) \<Rightarrow> (case as_strings js of
           Some urls \<Rightarrow>
             let (g', known) = sync_loop h urls (set_of_list (known_nodes g)) g in
             (g', ok_response [(''nodes'', JArr (map JStr known))])
         | None \<Rightarrow> (g, error_response 400 ''nodes must be an array of strings''))
     | _ \<Rightarrow> (g, error_response 400 ''nodes must be an array of strings''))"

section \<open>One round of gossip\<close>

definition receive_nodes :: "(jsstring \<Rightarrow> nat) \<Rightarrow> jsstring list \<Rightarrow> gateway \<Rightarrow> gateway" where
  \<comment> \<open>\<open>onReceiveNodes\<close>: \<open>healthCheckHandle.addNode\<close> for every URL of the peer's answer\<close>
  "receive_nodes h nodes g = foldl (\<lambda>g url. gw_register h url g) g nodes"

definition sync_request :: "gateway \<Rightarrow> json" where
  "sync_request g = JObj [(''nodes'', JArr (map JStr (known_nodes g)))]"

definition sync_answer :: "(jsstring \<Rightarrow> nat) \<Rightarrow> response option \<Rightarrow> gateway \<Rightarrow> gateway" where
  \<comment> \<open>the rest of \<open>syncWithPeer\<close> after the request: \<open>None\<close> is a failure or the timeout\<close>
  "sync_answer h res g = (case res of
       None \<Rightarrow> g
     | Some r \<Rightarrow> if 200 \<le> res_status r \<and> res_status r < 300 then
         (case read_field ''nodes'' (res_body r) of
            Some (JArr js) \<Rightarrow> (case as_strings js of Some urls \<Rightarrow> receive_nodes h urls g | None \<Rightarrow> g)
          | _ \<Rightarrow> g)
       else g)"

definition syncWithPeer :: "(jsstring \<Rightarrow> nat) \<Rightarrow> gateway \<Rightarrow> gateway \<Rightarrow> gateway \<times> gateway" where
  \<comment> \<open>a round trip that completes: the caller and its peer afterwards\<close>
  "syncWithPeer h g peer =
     (let (peer', res) = post_cluster_sync h (Some (sync_request g)) peer
      in (sync_answer h (Some res) g, peer'))"

section \<open>The invariant\<close>

definition gw_ok :: "(jsstring \<Rightarrow> nat) \<Rightarrow> gateway \<Rightarrow> bool" where
  "gw_ok h g = (case gw_health g of
       None \<Rightarrow> router_ok h (gw_router g)
     | Some m \<Rightarrow> hc_ok h (gw_checker g m))"

definition believed_up :: "gateway \<Rightarrow> jsstring \<Rightarrow> bool" where
  \<comment> \<open>known and, where a checker runs, last found healthy\<close>
  "believed_up g url = (case gw_health g of
       None \<Rightarrow> url \<in> set (router_nodes (gw_router g))
     | Some m \<Rightarrow> jm_get m url = Some True)"

lemma gw_mirrors: "gw_ok h g \<Longrightarrow> cr.mirrors h (believed_up g) (gw_router g)"
  by (cases "gw_health g")
    (simp_all add: gw_ok_def believed_up_def [abs_def] hc_ok_def is_up_def [abs_def] gw_checker_def cr.mirrors_def)

lemma known_nodes_Some: "gw_health g = Some m \<Longrightarrow> known_nodes g = jm_keys m"
  by (simp add: known_nodes_def hc_status_def gw_checker_def jm_keys_def)

lemma known_nodes_None: "gw_health g = None \<Longrightarrow> known_nodes g = router_nodes (gw_router g)"
  by (simp add: known_nodes_def)

lemma gw_checker_set [simp]: "gw_checker (gw_set_checker hc g) (hc_health hc) = hc"
  by (cases hc) (simp add: gw_checker_def gw_set_checker_def)

lemma gw_health_set [simp]: "gw_health (gw_set_checker hc g) = Some (hc_health hc)"
  by (simp add: gw_set_checker_def)

lemma gw_register_ok [inv_intros]: "gw_ok h g \<Longrightarrow> gw_ok h (gw_register h url g)"
proof (cases "gw_health g")
  case None
  then show "gw_ok h g \<Longrightarrow> ?thesis" by (simp add: gw_ok_def gw_register_def cr.good_join)
next
  case (Some m)
  then show "gw_ok h g \<Longrightarrow> ?thesis"
    using hc_ok_step [of h "gw_checker g m" "HAdd url"] by (simp add: gw_ok_def gw_register_def)
qed

lemma gw_deregister_ok [inv_intros]: "gw_ok h g \<Longrightarrow> gw_ok h (gw_deregister url g)"
proof (cases "gw_health g")
  case None
  then show "gw_ok h g \<Longrightarrow> ?thesis" by (simp add: gw_ok_def gw_deregister_def cr.good_leave)
next
  case (Some m)
  then show "gw_ok h g \<Longrightarrow> ?thesis"
    using hc_ok_step [of h "gw_checker g m" "HRemove url"] by (simp add: gw_ok_def gw_deregister_def)
qed

lemma known_register:
  "known_nodes (gw_register h url g) =
    (if url \<in> set (known_nodes g) then known_nodes g else known_nodes g @ [url])"
proof (cases "gw_health g")
  case None
  then show ?thesis
    by (simp add: known_nodes_def gw_register_def cr.members_join)
next
  case (Some m)
  then show ?thesis
    by (simp add: known_nodes_Some [of g m] gw_register_def gw_set_checker_def hc_addNode_def gw_checker_def
        known_nodes_def hc_status_def jm_has_iff jm.order_insert jm_keys_def [symmetric])
qed

lemma known_deregister: "known_nodes (gw_deregister url g) = filter (\<lambda>u. u \<noteq> url) (known_nodes g)"
proof (cases "gw_health g")
  case None
  then show ?thesis
    by (simp add: known_nodes_def gw_deregister_def cr.members_leave)
next
  case (Some m)
  then show ?thesis
    by (simp add: known_nodes_Some [of g m] gw_deregister_def gw_set_checker_def hc_removeNode_def gw_checker_def
        known_nodes_def hc_status_def jm_has_iff jm.order_remove jm_keys_def [symmetric] filter_neq_absent)
qed

lemma believed_register:
  assumes "gw_ok h g"
  shows "believed_up (gw_register h url g) u \<longleftrightarrow>
    (if url \<notin> set (known_nodes g) \<and> u = url then True else believed_up g u)"
proof (cases "gw_health g")
  case None
  then show ?thesis
    by (auto simp: believed_up_def gw_register_def cr.members_join known_nodes_def)
next
  case (Some m)
  then show ?thesis
    by (auto simp: believed_up_def gw_register_def gw_set_checker_def hc_addNode_def gw_checker_def
        known_nodes_Some [of g m] jm_has_iff js_simps)
qed

lemma believed_known: "believed_up g u \<Longrightarrow> u \<in> set (known_nodes g)"
proof (cases "gw_health g")
  case None
  then show "believed_up g u \<Longrightarrow> ?thesis" by (simp add: believed_up_def known_nodes_None)
next
  case (Some m)
  then show "believed_up g u \<Longrightarrow> ?thesis"
    using jm_get_None [of m u] by (auto simp: believed_up_def known_nodes_Some)
qed

lemma set_of_list_set [simp]: "set (set_of_list xs) = set xs"
  by (simp add: set_of_list_def)

lemma sync_loop_known:
  assumes "set known = set (known_nodes g)" and "sync_loop h urls known g = (g', known')"
  shows "set (known_nodes g') = set (known_nodes g) \<union> normalize_url ` set urls \<and> set known' = set (known_nodes g')"
  using assms
proof (induction h urls known g rule: sync_loop.induct)
  case (1 h known g)
  then show ?case by simp
next
  case (2 h url urls known g)
  show ?case
  proof (cases "normalize_url url \<in> set known")
    case True
    with "2.IH"(1) [OF refl True] "2.prems" show ?thesis by (auto simp: Let_def)
  next
    case False
    with "2.IH"(2) [OF refl False] "2.prems" show ?thesis by (auto simp: Let_def known_register)
  qed
qed

lemma sync_loop_believed:
  assumes "gw_ok h g" and "set known = set (known_nodes g)" and "sync_loop h urls known g = (g', known')"
  shows "gw_ok h g' \<and> (\<forall>u \<in> set (known_nodes g). believed_up g' u = believed_up g u)"
  using assms
proof (induction h urls known g rule: sync_loop.induct)
  case (1 h known g)
  then show ?case by simp
next
  case (2 h url urls known g)
  show ?case
  proof (cases "normalize_url url \<in> set known")
    case True
    with "2.IH"(1) [OF refl True] "2.prems" show ?thesis by (simp add: Let_def)
  next
    case False
    with "2.IH"(2) [OF refl False] "2.prems" show ?thesis
      by (auto simp: Let_def known_register inv_intros believed_register)
  qed
qed

lemma receive_nodes_known:
  "set (known_nodes (receive_nodes h urls g)) = set (known_nodes g) \<union> set urls"
  unfolding receive_nodes_def by (induction urls arbitrary: g) (auto simp: known_register)

lemma receive_nodes_believed:
  "gw_ok h g \<Longrightarrow> gw_ok h (receive_nodes h urls g) \<and>
    (\<forall>u \<in> set (known_nodes g). believed_up (receive_nodes h urls g) u = believed_up g u)"
  unfolding receive_nodes_def
  by (induction urls arbitrary: g) (auto simp: known_register inv_intros believed_register)

lemma post_cluster_sync_known:
  obtains g' known where
    "post_cluster_sync h (Some (sync_request g)) peer =
       (g', ok_response [(''nodes'', JArr (map JStr known))])"
    "sync_loop h (known_nodes g) (set_of_list (known_nodes peer)) peer = (g', known)"
  by (cases "sync_loop h (known_nodes g) (set_of_list (known_nodes peer)) peer")
    (simp add: post_cluster_sync_def sync_request_def nullish_to_obj_def)

section \<open>Properties\<close>

text \<open>All requests for a key go to one node: on a gateway in a consistent state that knows no
  empty URL and has a healthy node, \<open>POST /set\<close>, \<open>GET /get/:key\<close>, \<open>DELETE /delete/:key\<close> and
  \<open>GET /cluster/route/:key\<close> all go to the same node, one believed healthy; the key travels
  as a single path segment, and different keys travel as different paths.\<close>

lemma gateway_one_owner:
  assumes "gw_ok h g" and "believed_up g n" and "[] \<notin> set (known_nodes g)" and "key \<noteq> []"
    and "body = Some (JObj fs)" and "map_of fs ''key'' = Some (JStr key)"
  shows "\<exists>url. believed_up g url \<and>
    gw_set h body g = Forward \<lparr>fw_node = url, fw_path = ''/set'', fw_method = ''POST'', fw_body = body\<rparr> \<and>
    gw_get h key g = Forward \<lparr>fw_node = url, fw_path = ''/get/'' @ encodeURIComponent key, fw_method = ''GET'', fw_body = None\<rparr> \<and>
    gw_delete h key g =
      Forward \<lparr>fw_node = url, fw_path = ''/delete/'' @ encodeURIComponent key, fw_method = ''DELETE'', fw_body = None\<rparr> \<and>
    gw_route h key g = Reply (ok_response [(''key'', JStr key), (''node'', JStr url)]) \<and>
    CHR ''/'' \<notin> set (encodeURIComponent key) \<and>
    (\<forall>key'. encodeURIComponent key' = encodeURIComponent key \<longrightarrow> key' = key)"
proof -
  note m = gw_mirrors [OF assms(1)]
  obtain url where url: "nodeFor h key (gw_router g) = Some url"
    using cr.mirrors_total [OF m assms(2)] by blast
  have up: "believed_up g url" using cr.mirrors_route [OF m url] .
  then have ne: "url \<noteq> []" using believed_known [OF up] assms(3) by auto
  have "router_nodes (gw_router g) \<noteq> []"
    using m assms(2) by (auto simp: cr.mirrors_def)
  then have size: "router_size (gw_router g) \<noteq> 0"
    by (simp add: router_size_nodes)
  show ?thesis
    using up ne size url assms(4-6) encode_no_slash [of key]
    by (intro exI [of _ url])
      (simp add: gw_set_def gw_get_def gw_delete_def gw_route_def requireNode_def nullish_to_obj_def)
qed

definition demo_gateway :: "(jsstring \<Rightarrow> nat) \<Rightarrow> gateway" where
  "demo_gateway h = \<lparr>gw_router = new_router h [''http://a'', ''http://b''] None,
     gw_health = Some [(''http://a'', True), (''http://b'', True)]\<rparr>"

lemma demo_gateway_ok: "gw_ok h (demo_gateway h)"
  using hc_ok_start [of h "new_router h [''http://a'', ''http://b''] None" "[''http://a'', ''http://b'']"]
  by (simp add: gw_ok_def demo_gateway_def gw_checker_def startHealthChecks_def new_router_ok new_router_nodes)

lemma demo_gateway_known: "known_nodes (demo_gateway h) = [''http://a'', ''http://b'']"
  by (simp add: known_nodes_def demo_gateway_def hc_status_def gw_checker_def)

lemma gateway_one_owner_witness:
  "\<exists>url. gw_route len_hash ''k 1'' (demo_gateway len_hash) =
     Reply (ok_response [(''key'', JStr ''k 1''), (''node'', JStr url)])"
  using gateway_one_owner [OF demo_gateway_ok, of len_hash "''http://a''" "''k 1''"
      "Some (JObj [(''key'', JStr ''k 1'')])" "[(''key'', JStr ''k 1'')]"]
  by (auto simp: demo_gateway_known) (auto simp: believed_up_def demo_gateway_def)

text \<open>The node registry: a malformed body is a 400 and changes nothing; a well-formed
  registration of a known node is a 409 and changes nothing; any other adds exactly that
  node, assumed healthy, after which repeating it is a 409; a deregistration always
  succeeds, removes exactly that node from the known nodes and from the ring, and a second
  one changes nothing. The router stays in step with the health map throughout.\<close>

lemma gateway_registry:
  assumes "gw_ok h g" and "post_cluster_nodes h body g = (g1, r1)" and "delete_cluster_nodes body g = (g2, r2)"
  shows "gw_ok h g1 \<and> gw_ok h g2 \<and>
    (case url_of_body body of
       None \<Rightarrow> g1 = g \<and> g2 = g \<and> res_status r1 = 400 \<and> res_status r2 = 400
     | Some url \<Rightarrow>
        (if normalize_url url \<in> set (known_nodes g) then g1 = g \<and> res_status r1 = 409
         else known_nodes g1 = known_nodes g @ [normalize_url url] \<and> believed_up g1 (normalize_url url) \<and>
           res_status r1 = 200 \<and> res_status (snd (post_cluster_nodes h body g1)) = 409) \<and>
        known_nodes g2 = filter (\<lambda>u. u \<noteq> normalize_url url) (known_nodes g) \<and>
        normalize_url url \<notin> set (router_nodes (gw_router g2)) \<and> res_status r2 = 200 \<and>
        known_nodes (fst (delete_cluster_nodes body g2)) = known_nodes g2)"
proof (cases "url_of_body body")
  case None
  with assms show ?thesis
    by (auto simp: post_cluster_nodes_def delete_cluster_nodes_def error_response_def)
next
  case (Some url)
  let ?u = "normalize_url url"
  have g2: "g2 = gw_deregister ?u g" "res_status r2 = 200"
    using assms(3) Some by (auto simp: delete_cluster_nodes_def Let_def ok_response_def)
  have ok2: "gw_ok h g2" using assms(1) g2 by (simp add: inv_intros)
  have k2: "known_nodes g2 = filter (\<lambda>u. u \<noteq> ?u) (known_nodes g)"
    by (simp add: g2 known_deregister)
  then have "\<not> believed_up g2 ?u" using believed_known by fastforce
  then have r2: "?u \<notin> set (router_nodes (gw_router g2))"
    using gw_mirrors [OF ok2] by (simp add: cr.mirrors_def)
  have k3: "known_nodes (fst (delete_cluster_nodes body g2)) = known_nodes g2"
    using Some k2 by (simp add: delete_cluster_nodes_def Let_def known_deregister)
  show ?thesis
  proof (cases "?u \<in> set (known_nodes g)")
    case True
    with assms(1,2) Some g2 ok2 k2 r2 k3 show ?thesis
      by (auto simp: post_cluster_nodes_def Let_def error_response_def)
  next
    case False
    with assms(2) Some have g1: "g1 = gw_register h ?u g" "res_status r1 = 200"
      by (auto simp: post_cluster_nodes_def Let_def ok_response_def)
    have ok1: "gw_ok h g1" using assms(1) g1 by (simp add: inv_intros)
    have k1: "known_nodes g1 = known_nodes g @ [?u]" "believed_up g1 ?u"
      using False assms(1) by (simp_all add: g1 known_register believed_register)
    have "res_status (snd (post_cluster_nodes h body g1)) = 409"
      using Some k1 by (simp add: post_cluster_nodes_def Let_def error_response_def)
    with False Some g1 g2 ok1 ok2 k1 k2 r2 k3 show ?thesis by simp
  qed
qed

lemma gateway_registry_witness:
  "res_status (snd (post_cluster_nodes len_hash (Some (JObj [(''url'', JStr ''http://a'')])) (demo_gateway len_hash))) = 409"
proof -
  let ?b = "Some (JObj [(''url'', JStr ''http://a'')])"
  have u: "url_of_body ?b = Some ''http://a''" by (simp add: url_of_body_def nullish_to_obj_def)
  have n: "normalize_url ''http://a'' = ''http://a''"
    by (simp add: normalize_url_def trim_def is_ws_def strip_slash_def)
  show ?thesis
    using gateway_registry [OF demo_gateway_ok, of len_hash ?b _ _ _ _, OF prod.collapse [symmetric] prod.collapse [symmetric]]
    by (simp add: u n demo_gateway_known)
qed

lemma register_known: "url \<in> set (known_nodes g) \<Longrightarrow> gw_register h url g = g"
proof (cases "gw_health g")
  case None
  then show "url \<in> set (known_nodes g) \<Longrightarrow> ?thesis"
    by (simp add: gw_register_def known_nodes_None addNode_def ring_add_def router_nodes_def
        ring_nodes_def)
next
  case (Some m)
  then show "url \<in> set (known_nodes g) \<Longrightarrow> ?thesis"
    by (simp add: gw_register_def known_nodes_Some hc_addNode_def gw_checker_def gw_set_checker_def jm_has_iff)
qed

lemma sync_loop_all_known:
  "normalize_url ` set urls \<subseteq> set known \<Longrightarrow> sync_loop h urls known g = (g, known)"
  by (induction h urls known g rule: sync_loop.induct) auto

lemma receive_all_known: "set urls \<subseteq> set (known_nodes g) \<Longrightarrow> receive_nodes h urls g = g"
  unfolding receive_nodes_def by (induction urls) (auto simp: register_known)

lemma syncWithPeer_eq:
  assumes "sync_loop h (known_nodes g) (set_of_list (known_nodes peer)) peer = (peer', known)"
  shows "syncWithPeer h g peer = (receive_nodes h known g, peer')"
  using assms
  by (simp add: syncWithPeer_def post_cluster_sync_def sync_request_def nullish_to_obj_def sync_answer_def ok_response_def)

lemma sync_loop_learned:
  assumes "gw_ok h g" and "set known = set (known_nodes g)" and "sync_loop h urls known g = (g', known')"
    and "u \<in> normalize_url ` set urls" and "u \<notin> set (known_nodes g)"
  shows "believed_up g' u"
  using assms
proof (induction h urls known g rule: sync_loop.induct)
  case (1 h known g)
  then show ?case by simp
next
  case (2 h url urls known g)
  show ?case
  proof (cases "normalize_url url \<in> set known")
    case True
    with 2 show ?thesis by (auto simp: Let_def)
  next
    case False
    let ?g = "gw_register h (normalize_url url) g"
    have r: "sync_loop h urls (known @ [normalize_url url]) ?g = (g', known')"
      using False "2.prems"(3) by (simp add: Let_def)
    have k: "set (known @ [normalize_url url]) = set (known_nodes ?g)"
      using "2.prems"(2) by (auto simp: known_register)
    have ok: "gw_ok h ?g" using "2.prems"(1) by (rule gw_register_ok)
    show ?thesis
    proof (cases "u = normalize_url url")
      case True
      have "believed_up ?g u"
        using True "2.prems"(1,5) by (simp add: believed_register)
      then show ?thesis
        using sync_loop_believed [OF ok k r] believed_known [of ?g u] by simp
    next
      case ne: False
      then show ?thesis
        using "2.IH"(2) [OF refl False ok k r] "2.prems"(4,5) by (simp add: known_register)
    qed
  qed
qed

text \<open>C23: Gossip converges in one round trip: when the URLs both gateways know are in normal
  form, a completed \<open>syncWithPeer\<close> leaves both knowing exactly the union, keeps both
  consistent, changes neither's opinion on the health of a node it knew already, assumes
  healthy what it learned, and a second round changes nothing. A node deregistered at one
  gateway therefore returns there with the next gossip, as long as the other knows it.\<close>

theorem gossip_converges:
  assumes "gw_ok h g" and "gw_ok h peer"
    and "\<forall>u \<in> set (known_nodes g) \<union> set (known_nodes peer). normalize_url u = u"
    and "syncWithPeer h g peer = (g', peer')"
  shows "set (known_nodes g') = set (known_nodes g) \<union> set (known_nodes peer) \<and>
    set (known_nodes peer') = set (known_nodes g) \<union> set (known_nodes peer) \<and>
    gw_ok h g' \<and> gw_ok h peer' \<and>
    (\<forall>u \<in> set (known_nodes g). believed_up g' u = believed_up g u) \<and>
    (\<forall>u \<in> set (known_nodes peer). believed_up peer' u = believed_up peer u) \<and>
    (\<forall>u \<in> set (known_nodes g) - set (known_nodes peer). believed_up peer' u) \<and>
    syncWithPeer h g' peer' = (g', peer')"
proof -
  obtain known where loop: "sync_loop h (known_nodes g) (set_of_list (known_nodes peer)) peer = (peer', known)"
    and g': "g' = receive_nodes h known g"
    using assms(4) syncWithPeer_eq [of h g peer]
    by (cases "sync_loop h (known_nodes g) (set_of_list (known_nodes peer)) peer") auto
  have img: "normalize_url ` set (known_nodes g) = set (known_nodes g)"
    using assms(3) by (auto simp: image_iff)
  have kp: "set (known_nodes peer') = set (known_nodes g) \<union> set (known_nodes peer)"
    and kk: "set known = set (known_nodes peer')"
    using sync_loop_known [OF _ loop] img by auto
  have kg: "set (known_nodes g') = set (known_nodes g) \<union> set (known_nodes peer)"
    using receive_nodes_known [of h known g] kk kp by (simp add: g')
  have bp: "gw_ok h peer'" "\<forall>u \<in> set (known_nodes peer). believed_up peer' u = believed_up peer u"
    using sync_loop_believed [OF assms(2) _ loop] by simp_all
  have bg: "gw_ok h g'" "\<forall>u \<in> set (known_nodes g). believed_up g' u = believed_up g u"
    using receive_nodes_believed [OF assms(1), of known] by (simp_all add: g')
  have learned: "\<forall>u \<in> set (known_nodes g) - set (known_nodes peer). believed_up peer' u"
    using sync_loop_learned [OF assms(2) _ loop] img by simp
  have "normalize_url ` set (known_nodes g') \<subseteq> set (set_of_list (known_nodes peer'))"
    using assms(3) by (auto simp: kg kp)
  from syncWithPeer_eq [OF sync_loop_all_known [OF this]]
  have "syncWithPeer h g' peer' = (receive_nodes h (set_of_list (known_nodes peer')) g', peer')" .
  moreover have "receive_nodes h (set_of_list (known_nodes peer')) g' = g'"
    by (rule receive_all_known) (simp add: kg kp)
  ultimately show ?thesis using kg kp bp bg learned by simp
qed

definition demo_peer :: "(jsstring \<Rightarrow> nat) \<Rightarrow> gateway" where
  "demo_peer h = \<lparr>gw_router = new_router h [''http://c''] None, gw_health = Some [(''http://c'', True)]\<rparr>"

lemma demo_peer_ok: "gw_ok h (demo_peer h)"
  using hc_ok_start [of h "new_router h [''http://c''] None" "[''http://c'']"]
  by (simp add: gw_ok_def demo_peer_def gw_checker_def startHealthChecks_def new_router_ok new_router_nodes)

theorem gossip_converges_witness:
  "set (known_nodes (fst (syncWithPeer len_hash (demo_gateway len_hash) (demo_peer len_hash)))) =
     {''http://a'', ''http://b'', ''http://c''}"
proof -
  have k: "known_nodes (demo_peer len_hash) = [''http://c'']"
    by (simp add: known_nodes_def demo_peer_def hc_status_def gw_checker_def)
  have n: "\<forall>u \<in> set (known_nodes (demo_gateway len_hash)) \<union> set (known_nodes (demo_peer len_hash)).
      normalize_url u = u"
    by (simp add: k demo_gateway_known normalize_url_def trim_def is_ws_def strip_slash_def)
  show ?thesis
    using gossip_converges [OF demo_gateway_ok demo_peer_ok n prod.collapse [symmetric]]
    by (auto simp: k demo_gateway_known)
qed

definition fresh_gateway :: "(jsstring \<Rightarrow> nat) \<Rightarrow> gateway" where
  "fresh_gateway h = \<lparr>gw_router = new_router h [] None, gw_health = Some []\<rparr>"

lemma no_reply_empty: "nodeFor h key (gw_router g) = Some [] \<Longrightarrow> router_size (gw_router g) \<noteq> 0 \<Longrightarrow>
    requireNode h g key k = NoReply"
  by (simp add: requireNode_def)

text \<open>The guard of \<open>POST /cluster/nodes\<close> tests the URL before it is normalized, so the body
  \<open>{"url": "/"}\<close> is accepted and registers the empty string as a node. On a gateway without
  other nodes every key is then owned by it, \<open>requireNode\<close> returns a falsy URL, and every
  routed request is left without any answer instead of a 503.\<close>

lemma empty_url_node_hangs:
  "\<exists>g. post_cluster_nodes h (Some (JObj [(''url'', JStr ''/'')])) (fresh_gateway h) =
      (g, ok_response [(''ok'', JBool True), (''url'', JStr []), (''count'', json_nat 1)]) \<and>
    known_nodes g = [[]] \<and>
    gw_get h key g = NoReply \<and> gw_delete h key g = NoReply \<and> gw_route h key g = NoReply"
proof -
  let ?start = "fresh_gateway h"
  let ?g = "gw_register h [] ?start"
  have ok0: "gw_ok h ?start"
    using hc_ok_start [of h "new_router h [] None" "[]"]
    by (simp add: gw_ok_def fresh_gateway_def gw_checker_def startHealthChecks_def new_router_ok new_router_nodes)
  have k0: "known_nodes ?start = []"
    by (simp add: known_nodes_def fresh_gateway_def hc_status_def gw_checker_def)
  have ok: "gw_ok h ?g" using ok0 by (rule gw_register_ok)
  have k: "known_nodes ?g = [[]]" using k0 by (simp add: known_register)
  have up: "believed_up ?g []" using ok0 k0 by (simp add: believed_register)
  note m = gw_mirrors [OF ok]
  obtain url where url: "nodeFor h key (gw_router ?g) = Some url"
    using cr.mirrors_total [OF m up] by blast
  then have "url = []" using cr.mirrors_route [OF m url] believed_known k by fastforce
  have nodes: "set (router_nodes (gw_router ?g)) = {[]}"
    using m up believed_known [of ?g] k by (auto simp: cr.mirrors_def)
  moreover have "distinct (router_nodes (gw_router ?g))"
    using m by (simp add: cr.mirrors_def router_ok_def ring_ok_def router_nodes_def ring_nodes_def)
  ultimately have size: "router_size (gw_router ?g) = 1"
    using distinct_card [of "router_nodes (gw_router ?g)"] by (simp add: router_size_nodes)
  have "url_of_body (Some (JObj [(''url'', JStr ''/'')])) = Some ''/''"
    by (simp add: url_of_body_def nullish_to_obj_def)
  moreover have "normalize_url ''/'' = []"
    by (simp add: normalize_url_def trim_def is_ws_def strip_slash_def)
  ultimately have post: "post_cluster_nodes h (Some (JObj [(''url'', JStr ''/'')])) ?start =
      (?g, ok_response [(''ok'', JBool True), (''url'', JStr []), (''count'', json_nat 1)])"
    using k0 size by (simp add: post_cluster_nodes_def Let_def)
  show ?thesis
    using post k no_reply_empty [of h key ?g] url \<open>url = []\<close> size
    by (intro exI [of _ ?g]) (simp add: gw_get_def gw_delete_def gw_route_def)
qed

end
