(* ===== verification/GatewayServer.thy ===== *)
theory GatewayServer
  imports Gateway Server
begin

text \<open>
  \<open>src/network/gateway-server.ts\<close>: the gateway process - its router and health checker from
  \<open>INKCACHE_CLUSTER_NODES\<close>, its gossip with the gateways of \<open>INKCACHE_PEER_GATEWAYS\<close> - and what
  becomes of the announcements a node's process makes to it.
\<close>

section \<open>Startup and gossip\<close>

definition start_gateway :: "(jsstring \<Rightarrow> nat) \<Rightarrow> jsstring option \<Rightarrow> gateway" where
  \<comment> \<open>\<open>CLUSTER_NODES\<close>, \<open>router\<close> and \<open>setHealthHandle(startHealthChecks(router, CLUSTER_NODES))\<close>\<close>
  "start_gateway h clusterEnv =
     (let nodes = resolveClusterNodes clusterEnv; router = new_router h nodes None
      in gw_set_checker (startHealthChecks router nodes) \<lparr>gw_router = router, gw_health = None\<rparr>)"

definition peer_gateways :: "jsstring option \<Rightarrow> jsstring list" where
  \<comment> \<open>the peers that a tick of the gossip timer contacts; none when the variable is unset or empty\<close>
  "peer_gateways peerEnv = resolveClusterNodes peerEnv"

definition gossip_tick :: "(jsstring \<Rightarrow> nat) \<Rightarrow> response option list \<Rightarrow> gateway \<Rightarrow> gateway" where
  \<comment> \<open>the answers to one tick's requests, one per peer, in the order they arrive\<close>
  "gossip_tick h answers g = foldl (\<lambda>g res. sync_answer h res g) g answers"

definition gateway_port :: "env \<Rightarrow> nat" where
  "gateway_port env = parsePositiveInt (env ''INKCACHE_GATEWAY_PORT'') 8090 (Some 65535)"

definition health_interval_ms :: "env \<Rightarrow> nat" where
  "health_interval_ms env = parsePositiveInt (env ''INKCACHE_GATEWAY_HEALTH_INTERVAL'') 2000 None"

definition sync_interval_ms :: "env \<Rightarrow> nat" where
  "sync_interval_ms env = parsePositiveInt (env ''INKCACHE_GATEWAY_SYNC_INTERVAL'') 5000 None"

lemma gateway_numbers: "0 < gateway_port env \<and> gateway_port env \<le> 65535 \<and> 0 < health_interval_ms env \<and> 0 < sync_interval_ms env"
  by (simp add: gateway_port_def health_interval_ms_def sync_interval_ms_def parsePositiveInt_pos parsePositiveInt_le)

lemma start_gateway_ok: "gw_ok h (start_gateway h e)"
proof -
  have "hc_ok h (startHealthChecks (new_router h (resolveClusterNodes e) None) (resolveClusterNodes e))"
    by (rule hc_ok_start) (simp_all add: new_router_ok new_router_nodes)
  then show ?thesis by (simp add: start_gateway_def Let_def gw_ok_def)
qed

lemma receive_nodes_learned:
  "gw_ok h g \<Longrightarrow> u \<in> set urls \<Longrightarrow> u \<notin> set (known_nodes g) \<Longrightarrow> believed_up (receive_nodes h urls g) u"
proof (induction urls arbitrary: g)
  case Nil
  then show ?case by simp
next
  case (Cons url urls)
  let ?g = "gw_register h url g"
  have step: "receive_nodes h (url # urls) g = receive_nodes h urls ?g" by (simp add: receive_nodes_def)
  have ok: "gw_ok h ?g" using Cons.prems(1) by (rule gw_register_ok)
  show ?case
  proof (cases "u = url")
    case True
    then have "believed_up ?g u" "u \<in> set (known_nodes ?g)"
      using Cons.prems by (simp_all add: believed_register known_register)
    then show ?thesis using receive_nodes_believed [OF ok, of urls] step by simp
  next
    case False
    then show ?thesis using Cons.IH [OF ok] Cons.prems step by (simp add: known_register)
  qed
qed

lemma gossip_tick_ok: "gw_ok h g \<Longrightarrow> gw_ok h (gossip_tick h answers g) \<and> set (known_nodes g) \<subseteq> set (known_nodes (gossip_tick h answers g))"
  unfolding gossip_tick_def
proof (induction answers arbitrary: g)
  case Nil
  then show ?case by simp
next
  case (Cons res answers)
  have "gw_ok h (sync_answer h res g) \<and> set (known_nodes g) \<subseteq> set (known_nodes (sync_answer h res g))"
    using Cons.prems receive_nodes_known receive_nodes_believed
    by (auto simp: sync_answer_def split: option.splits json.splits)
  then show ?case using Cons.IH [of "sync_answer h res g"] by auto
qed

section \<open>Properties\<close>

text \<open>Gossip undoes a deregistration: a node deregistered at one gateway, however cleanly, is known
  there again after the next completed exchange with a peer that still knows it, and is
  sent traffic again as if it were healthy; and the peer keeps it too, so a node that
  registered with one gateway only can never be removed by deregistering from it.\<close>

lemma gossip_undoes_deregistration:
  assumes "gw_ok h g" and "gw_ok h peer" and "\<forall>u \<in> set (known_nodes peer). normalize_url u = u"
    and "url_of_body body = Some url" and "normalize_url url \<in> set (known_nodes peer)"
    and "delete_cluster_nodes body g = (g1, r)" and "syncWithPeer h g1 peer = (g2, peer2)"
  shows "res_status r = 200 \<and> normalize_url url \<notin> set (known_nodes g1) \<and>
    normalize_url url \<in> set (known_nodes g2) \<and> believed_up g2 (normalize_url url) \<and>
    normalize_url url \<in> set (router_nodes (gw_router g2)) \<and> normalize_url url \<in> set (known_nodes peer2)"
proof -
  let ?u = "normalize_url url"
  have g1: "g1 = gw_deregister ?u g" "res_status r = 200"
    using assms(4,6) by (auto simp: delete_cluster_nodes_def Let_def ok_response_def)
  have ok1: "gw_ok h g1" and gone: "?u \<notin> set (known_nodes g1)"
    using assms(1) by (simp_all add: g1 inv_intros known_deregister)
  obtain known where loop: "sync_loop h (known_nodes g1) (set_of_list (known_nodes peer)) peer = (peer2, known)"
    and g2: "g2 = receive_nodes h known g1"
    using assms(7) syncWithPeer_eq [of h g1 peer]
    by (cases "sync_loop h (known_nodes g1) (set_of_list (known_nodes peer)) peer") auto
  have k: "?u \<in> set (known_nodes peer2)" "set known = set (known_nodes peer2)"
    using sync_loop_known [OF _ loop] assms(5) by auto
  then have up: "believed_up g2 ?u" unfolding g2 by (intro receive_nodes_learned [OF ok1 _ gone]) simp
  have "gw_ok h g2" using receive_nodes_believed [OF ok1] by (simp add: g2)
  then have "?u \<in> set (router_nodes (gw_router g2))" using up gw_mirrors by (auto simp: cr.mirrors_def)
  then show ?thesis using g1(2) gone up believed_known [OF up] k(1) by simp
qed

lemma gossip_undoes_deregistration_witness:
  "believed_up (fst (syncWithPeer len_hash
     (fst (delete_cluster_nodes (Some (JObj [(''url'', JStr ''http://a'')])) (demo_gateway len_hash))) (demo_gateway len_hash))) ''http://a''"
proof -
  let ?b = "Some (JObj [(''url'', JStr ''http://a'')])" and ?g = "demo_gateway len_hash"
  have u: "url_of_body ?b = Some ''http://a''" by (simp add: url_of_body_def nullish_to_obj_def)
  have n: "normalize_url ''http://a'' = ''http://a''" "normalize_url ''http://b'' = ''http://b''"
    by (simp_all add: normalize_url_def trim_def is_ws_def strip_slash_def)
  have "believed_up (fst (syncWithPeer len_hash (fst (delete_cluster_nodes ?b ?g)) ?g)) (normalize_url ''http://a'')"
    using gossip_undoes_deregistration [OF demo_gateway_ok demo_gateway_ok _ u _ prod.collapse [symmetric] prod.collapse [symmetric]]
    by (simp add: demo_gateway_known n)
  then show ?thesis by (simp only: n)
qed

text \<open>Node discovery end to end: a gateway started without nodes answers 503 to every key; once it
  has served the announcement a node makes at its startup it routes every key to that node,
  an outcome the node does not warn about, also when it is announced again; and once it has
  served the announcement of the node's shutdown it is back at 503.\<close>

lemma announced_node_is_routed:
  assumes "sc_selfUrl cfg = Some self" and "self \<noteq> []" and "normalize_url self = self"
    and "(''POST'', u1, body) \<in> set (announceToGateway cfg Register)"
    and "(''DELETE'', u2, body') \<in> set (announceToGateway cfg Deregister)"
    and "g0 = start_gateway h None" and "post_cluster_nodes h (Some body) g0 = (g1, r1)"
    and "delete_cluster_nodes (Some body') g1 = (g2, r2)"
  shows "gw_route h key g0 = Gateway.Reply (error_response 503 ''no cluster nodes configured'') \<and>
    gw_route h key g1 = Gateway.Reply (ok_response [(''key'', JStr key), (''node'', JStr self)]) \<and>
    \<not> announcement_warns Register (Some (res_status r1)) \<and>
    \<not> announcement_warns Register (Some (res_status (snd (post_cluster_nodes h (Some body) g1)))) \<and>
    gw_route h key g2 = Gateway.Reply (error_response 503 ''no cluster nodes configured'') \<and>
    \<not> announcement_warns Deregister (Some (res_status r2))"
proof -
  have self: "truthy (sc_selfUrl cfg) = Some self" using assms(1,2) by (cases self) (simp_all add: truthy_def)
  then have b: "body = JObj [(''url'', JStr self)]" "body' = JObj [(''url'', JStr self)]"
    using assms(4,5) by (auto simp: announceToGateway_def)
  have u: "url_of_body (Some body) = Some self" "url_of_body (Some body') = Some self"
    using assms(2) by (simp_all add: b url_of_body_def nullish_to_obj_def)
  have ok0: "gw_ok h g0" unfolding assms(6) by (rule start_gateway_ok)
  have k0: "known_nodes g0 = []"
    by (simp add: assms(6) start_gateway_def Let_def resolveClusterNodes_def startHealthChecks_def known_nodes_def hc_status_def
        gw_checker_def)
  have g1: "g1 = gw_register h self g0" "res_status r1 = 200"
    using assms(3,7) u(1) k0 by (auto simp: post_cluster_nodes_def Let_def)
  have ok1: "gw_ok h g1" and k1: "known_nodes g1 = [self]" and up1: "believed_up g1 self"
    using ok0 k0 by (simp_all add: g1 inv_intros known_register believed_register)
  have again: "res_status (snd (post_cluster_nodes h (Some body) g1)) = 409"
    using assms(3) u(1) k1 by (simp add: post_cluster_nodes_def)
  have g2: "g2 = gw_deregister self g1" "res_status r2 = 200"
    using assms(3,8) u(2) by (auto simp: delete_cluster_nodes_def Let_def ok_response_def)
  have ok2: "gw_ok h g2" and k2: "known_nodes g2 = []" using ok1 k1 by (simp_all add: g2 inv_intros known_deregister)
  have empty: "gw_route h key g = Gateway.Reply (error_response 503 ''no cluster nodes configured'')"
    if "gw_ok h g" "known_nodes g = []" for g
  proof -
    have "n \<notin> set (router_nodes (gw_router g))" for n
      using gw_mirrors [OF that(1)] believed_known [of g n] that(2) by (auto simp: cr.mirrors_def)
    then have "router_nodes (gw_router g) = []" by (meson last_in_set)
    then show ?thesis by (simp add: gw_route_def requireNode_def router_size_nodes)
  qed
  have m1: "cr.mirrors h (believed_up g1) (gw_router g1)" by (rule gw_mirrors [OF ok1])
  then obtain n where n: "nodeFor h key (gw_router g1) = Some n" using cr.mirrors_total up1 by blast
  then have "n = self" using cr.mirrors_route [OF m1 n] believed_known [of g1 n] k1 by simp
  moreover have "router_size (gw_router g1) \<noteq> 0"
    using m1 up1 by (auto simp: cr.mirrors_def router_size_nodes)
  ultimately have "gw_route h key g1 = Gateway.Reply (ok_response [(''key'', JStr key), (''node'', JStr self)])"
    using n assms(2) by (simp add: gw_route_def requireNode_def)
  then show ?thesis using empty ok0 k0 ok2 k2 g1(2) g2(2) again by (simp add: announcement_warns_def)
qed

lemma announced_node_is_routed_witness:
  "gw_route len_hash ''k'' (fst (post_cluster_nodes len_hash (Some (JObj [(''url'', JStr ''http://b'')])) (start_gateway len_hash None)))
     = Gateway.Reply (ok_response [(''key'', JStr ''k''), (''node'', JStr ''http://b'')])"
proof -
  let ?b = "JObj [(''url'', JStr ''http://b'')]"
  have "normalize_url ''http://b'' = ''http://b''" by (simp add: normalize_url_def trim_def is_ws_def strip_slash_def)
  moreover have "(''POST'', ''http://g/cluster/nodes'', ?b) \<in> set (announceToGateway demo_server_config Register)"
    "(''DELETE'', ''http://g/cluster/nodes'', ?b) \<in> set (announceToGateway demo_server_config Deregister)"
    "sc_selfUrl demo_server_config = Some ''http://b''"
    by (simp_all add: announceToGateway_def demo_server_config_def truthy_def)
  ultimately show ?thesis
    using announced_node_is_routed [of demo_server_config "''http://b''" _ ?b _ ?b _ len_hash,
      OF _ _ _ _ _ refl prod.collapse [symmetric] prod.collapse [symmetric]] by simp
qed

end
