(* ===== verification/GatewayApp.thy ===== *)
theory GatewayApp
  imports GatewayServer AppSpec
begin

text \<open>
  The gateway as a whole: the chain a request passes in \<open>src/network/gateway.ts\<close> - rate limiter,
  authentication, body parser, handler - and what becomes of a proxied request at the node
  it goes to. The state of the cluster is the gateway and its nodes; a node that cannot be
  reached is \<open>None\<close>.
\<close>

section \<open>The chain\<close>

datatype gateway_route =
  GwSetR | GwGetR jsstring | GwDeleteR jsstring | GwRouteR jsstring | GwNodesR | GwRegisterR | GwDeregisterR
  | GwSyncR | GwHealthR | GwUnknownR
  | GwBadPathR \<comment> \<open>the parameter of the path is no valid percent encoding\<close>

record gateway_request =
  gq_route :: gateway_route
  gq_path :: jsstring
  gq_headers :: headers
  gq_ip :: "jsstring option"
  gq_body :: parsed_body

record gateway_app =
  ga_gateway :: gateway
  ga_limiter :: "rate_limiter option"
  ga_apiKey :: "jsstring option"

definition new_gateway_app :: "(jsstring \<Rightarrow> nat) \<Rightarrow> env \<Rightarrow> gateway_app" where
  "new_gateway_app h env = \<lparr>ga_gateway = start_gateway h (env ''INKCACHE_CLUSTER_NODES''),
     ga_limiter = new_limiter env, ga_apiKey = env ''INKCACHE_API_KEY''\<rparr>"

definition gw_health_response :: "jsstring \<Rightarrow> gateway \<Rightarrow> response" where
  "gw_health_response stamp g = ok_response [(''status'', JStr ''ok''), (''role'', JStr ''gateway''),
     (''nodes'', json_nat (router_size (gw_router g))), (''timestamp'', JStr stamp)]"

definition gw_dispatch :: "(jsstring \<Rightarrow> nat) \<Rightarrow> jsstring \<Rightarrow> gateway_request \<Rightarrow> json option \<Rightarrow> gateway \<Rightarrow> gateway \<times> outcome" where
  \<comment> \<open>\<open>stamp\<close> is \<open>new Date().toISOString()\<close>\<close>
  "gw_dispatch h stamp req body g = (case gq_route req of
       GwSetR \<Rightarrow> (g, gw_set h body g)
     | GwGetR key \<Rightarrow> (g, gw_get h key g)
     | GwDeleteR key \<Rightarrow> (g, gw_delete h key g)
     | GwRouteR key \<Rightarrow> (g, gw_route h key g)
     | GwNodesR \<Rightarrow> (g, Gateway.Reply (get_cluster_nodes g))
     | GwRegisterR \<Rightarrow> map_prod id Gateway.Reply (post_cluster_nodes h body g)
     | GwDeregisterR \<Rightarrow> map_prod id Gateway.Reply (delete_cluster_nodes body g)
     | GwSyncR \<Rightarrow> map_prod id Gateway.Reply (post_cluster_sync h body g)
     | GwHealthR \<Rightarrow> (g, Gateway.Reply (gw_health_response stamp g))
     | GwUnknownR \<Rightarrow> (g, Gateway.Reply \<lparr>res_status = 404,
         res_body = JObj [(''error'', JStr ''not found''), (''path'', JStr (gq_path req))]\<rparr>)
     | GwBadPathR \<Rightarrow> (g, Gateway.Reply (error_response 500 ''internal server error'')))"

definition gw_after_limiter :: "(jsstring \<Rightarrow> nat) \<Rightarrow> jsstring \<Rightarrow> gateway_request \<Rightarrow> gateway_app \<Rightarrow> gateway_app \<times> outcome" where
  \<comment> \<open>an oversized or unreadable body is passed on to the last error handler\<close>
  "gw_after_limiter h stamp req ga =
     (if \<not> createAuthMiddleware (ga_apiKey ga) (gq_path req) (gq_headers req)
      then (ga, Gateway.Reply (error_response 401 ''missing or invalid API key''))
      else (case gq_body req of
           Malformed \<Rightarrow> (ga, Gateway.Reply (error_response 400 ''malformed JSON body''))
         | TooLarge \<Rightarrow> (ga, Gateway.Reply (error_response 500 ''internal server error''))
         | Unreadable \<Rightarrow> (ga, Gateway.Reply (error_response 500 ''internal server error''))
         | Parsed body \<Rightarrow> (case gw_dispatch h stamp req body (ga_gateway ga) of
               (g, out) \<Rightarrow> (ga\<lparr>ga_gateway := g\<rparr>, out))))"

definition gw_handle :: "(jsstring \<Rightarrow> nat) \<Rightarrow> clock \<Rightarrow> gateway_request \<Rightarrow> gateway_app \<Rightarrow> gateway_app \<times> outcome" where
  "gw_handle h ck req ga = (case ga_limiter ga of
       None \<Rightarrow> gw_after_limiter h (ck_iso ck) req ga
     | Some rl \<Rightarrow> (case limit_request (ck_now ck) (gq_path req) (gq_ip req) rl of
           (rl', Reject _) \<Rightarrow> (ga\<lparr>ga_limiter := Some rl'\<rparr>, Gateway.Reply (error_response 429 ''rate limit exceeded''))
         | (rl', Pass) \<Rightarrow> gw_after_limiter h (ck_iso ck) req (ga\<lparr>ga_limiter := Some rl'\<rparr>)))"

section \<open>Delivery to a node\<close>

text \<open>
  \<open>fetch\<close> parses the URL it is given: a path segment \<open>.\<close> is dropped and \<open>..\<close> drops the segment
  before it as well, with an empty last segment in its place.
\<close>

fun url_segments :: "jsstring list \<Rightarrow> jsstring list \<Rightarrow> jsstring list" where
  "url_segments done [] = done"
| "url_segments done (s # rest) =
     (if s = ''..'' then url_segments (butlast done @ (if rest = [] then [[]] else [])) rest
      else if s = ''.'' then url_segments (done @ (if rest = [] then [[]] else [])) rest
      else url_segments (done @ [s]) rest)"

definition fetch_path :: "jsstring \<Rightarrow> jsstring list" where
  \<comment> \<open>the segments of the path that is requested; the path starts with a slash\<close>
  "fetch_path path = url_segments [] (split_on CHR ''/'' (tl path))"

definition node_route :: "jsstring \<Rightarrow> jsstring list \<Rightarrow> route" where
  \<comment> \<open>the route of \<open>app.ts\<close> that a proxied request reaches\<close>
  "node_route m segments = (case segments of
       [a] \<Rightarrow> if m = ''POST'' \<and> a = ''set'' then SetR else UnknownR
     | [a, k] \<Rightarrow> (case decodeURIComponent k of
           Some key \<Rightarrow> if key = [] then UnknownR
             else if m = ''GET'' \<and> a = ''get'' then GetR key
             else if m = ''DELETE'' \<and> a = ''delete'' then DeleteR key else UnknownR
         | None \<Rightarrow> UnknownR)
     | _ \<Rightarrow> UnknownR)"

definition proxied_request :: "jsstring option \<Rightarrow> jsstring option \<Rightarrow> forwarded \<Rightarrow> http_request" where
  \<comment> \<open>what the node receives; \<open>authHeader(API_KEY)\<close> is the only header it looks at\<close>
  "proxied_request apiKey ip fw = \<lparr>rq_route = node_route (fw_method fw) (fetch_path (fw_path fw)),
     rq_path = concat (map ((#) CHR ''/'') (fetch_path (fw_path fw))), rq_headers = map_of (authHeader apiKey), rq_ip = ip, rq_body = Parsed (fw_body fw)\<rparr>"

record cluster =
  cl_app :: gateway_app
  cl_nodes :: "jsstring \<Rightarrow> node_app option"

record input =
  in_gw :: clock \<comment> \<open>the gateway's clock\<close>
  in_node :: clock \<comment> \<open>the clock of the node it proxies to\<close>
  in_req :: gateway_request

definition cl_forward :: "(jsstring \<Rightarrow> app_config) \<Rightarrow> jsstring option \<Rightarrow> clock \<Rightarrow> forwarded \<Rightarrow> cluster \<Rightarrow> cluster \<times> response" where
  \<comment> \<open>\<open>ip\<close> is the address the nodes see the gateway at\<close>
  "cl_forward cfs ip ck fw c = (case cl_nodes c (fw_node fw) of
       None \<Rightarrow> (c, proxy (fw_node fw) ''fetch failed'' None)
     | Some ap \<Rightarrow> (case app_handle (cfs (fw_node fw)) ck (proxied_request (ga_apiKey (cl_app c)) ip fw) ap of
           (ap', r, ops) \<Rightarrow> (c\<lparr>cl_nodes := (cl_nodes c)(fw_node fw := Some ap')\<rparr>,
             proxy (fw_node fw) [] (Some (res_status r, Some (res_body r))))))"

definition cl_request :: "(jsstring \<Rightarrow> nat) \<Rightarrow> (jsstring \<Rightarrow> app_config) \<Rightarrow> jsstring option \<Rightarrow> input \<Rightarrow> cluster \<Rightarrow> cluster \<times> response option" where
  \<comment> \<open>\<open>None\<close>: the client never gets an answer\<close>
  "cl_request h cfs ip i c = (case gw_handle h (in_gw i) (in_req i) (cl_app c) of
       (ga, Gateway.Reply r) \<Rightarrow> (c\<lparr>cl_app := ga\<rparr>, Some r)
     | (ga, NoReply) \<Rightarrow> (c\<lparr>cl_app := ga\<rparr>, None)
     | (ga, Forward fw) \<Rightarrow> map_prod id Some (cl_forward cfs ip (in_node i) fw (c\<lparr>cl_app := ga\<rparr>)))"

definition cl_run :: "(jsstring \<Rightarrow> nat) \<Rightarrow> (jsstring \<Rightarrow> app_config) \<Rightarrow> jsstring option \<Rightarrow> cluster \<Rightarrow> input list \<Rightarrow> cluster" where
  "cl_run h cfs ip c ins = foldl (\<lambda>c i. fst (cl_request h cfs ip i c)) c ins"

section \<open>What reaches a node\<close>

lemma split_no_slash: "CHR ''/'' \<notin> set s \<Longrightarrow> split_on CHR ''/'' s = [s]"
  by (rule split_on_no_sep_id)

lemma plain_path:
  assumes "CHR ''/'' \<notin> set a" and "a \<notin> {''.'', ''..''}" and "CHR ''/'' \<notin> set k" and "k \<notin> {''.'', ''..''}"
  shows "fetch_path (CHR ''/'' # a @ CHR ''/'' # k) = [a, k]"
  using assms by (simp add: fetch_path_def split_on_sep split_no_slash)

lemma encode_dots: "k \<notin> {''.'', ''..''} \<Longrightarrow> encodeURIComponent k \<notin> {''.'', ''..''}"
proof -
  have "encodeURIComponent ''.'' = ''.''" "encodeURIComponent ''..'' = ''..''"
    by (simp_all add: encodeURIComponent_def unreserved_def)
  then show "k \<notin> {''.'', ''..''} \<Longrightarrow> encodeURIComponent k \<notin> {''.'', ''..''}"
    by (metis empty_iff encodeURIComponent_inject insert_iff)
qed

lemma delivered:
  assumes "k \<notin> {[], ''.'', ''..''}"
  shows "node_route ''GET'' (fetch_path (''/get/'' @ encodeURIComponent k)) = GetR k"
    and "node_route ''DELETE'' (fetch_path (''/delete/'' @ encodeURIComponent k)) = DeleteR k"
    and "node_route ''POST'' (fetch_path ''/set'') = SetR"
  using plain_path [of "''get''" "encodeURIComponent k"] plain_path [of "''delete''" "encodeURIComponent k"]
    encode_no_slash [of k] encode_dots [of k] assms
  by (simp_all add: node_route_def fetch_path_def split_no_slash)

definition wants :: "gateway_request \<Rightarrow> (jsstring \<times> jsstring \<times> jsstring \<times> json option) option" where
  \<comment> \<open>the key a proxied request is about, and the method, path and body it is proxied with\<close>
  "wants req = (case (gq_route req, gq_body req) of
       (GwSetR, Parsed body) \<Rightarrow> (case as_string (read_field ''key'' (nullish_to_obj body)) of
           Some (c # cs) \<Rightarrow> Some (c # cs, ''POST'', ''/set'', Some (nullish_to_obj body)) | _ \<Rightarrow> None)
     | (GwGetR k, Parsed _) \<Rightarrow> Some (k, ''GET'', ''/get/'' @ encodeURIComponent k, None)
     | (GwDeleteR k, Parsed _) \<Rightarrow> Some (k, ''DELETE'', ''/delete/'' @ encodeURIComponent k, None)
     | _ \<Rightarrow> None)"

definition changes_members :: "gateway_request \<Rightarrow> bool" where
  "changes_members req \<longleftrightarrow> gq_route req \<in> {GwRegisterR, GwDeregisterR, GwSyncR}"

lemma requireNode_Forward: "requireNode h g key (\<lambda>u. Forward (f u)) = Forward fw \<Longrightarrow>
    nodeFor h key (gw_router g) \<noteq> None \<and> fw = f (the (nodeFor h key (gw_router g)))"
  by (auto simp: requireNode_def split: if_splits option.splits)

lemma dispatch_forward:
  assumes "gw_dispatch h stamp req body g = (g', out)" and "gq_body req = Parsed body" and "\<not> changes_members req"
  shows "g' = g \<and> (\<forall>fw. out = Forward fw \<longrightarrow> (\<exists>key. wants req = Some (key, fw_method fw, fw_path fw, fw_body fw) \<and>
    nodeFor h key (gw_router g) = Some (fw_node fw)))"
  using assms
  by (auto simp: gw_dispatch_def changes_members_def gw_set_def gw_get_def gw_delete_def gw_route_def wants_def requireNode_def
      split: gateway_route.splits option.splits list.splits if_splits)

lemma gw_handle_forward:
  assumes "gw_handle h ck req ga = (ga', out)" and "\<not> changes_members req"
  shows "ga_gateway ga' = ga_gateway ga \<and> ga_apiKey ga' = ga_apiKey ga \<and>
    (\<forall>fw. out = Forward fw \<longrightarrow> (\<exists>key. wants req = Some (key, fw_method fw, fw_path fw, fw_body fw) \<and>
      nodeFor h key (gw_router (ga_gateway ga)) = Some (fw_node fw)))"
proof -
  have after: "ga_gateway ga' = ga_gateway a \<and> ga_apiKey ga' = ga_apiKey a \<and>
    (\<forall>fw. out = Forward fw \<longrightarrow> (\<exists>key. wants req = Some (key, fw_method fw, fw_path fw, fw_body fw) \<and>
      nodeFor h key (gw_router (ga_gateway a)) = Some (fw_node fw)))"
    if "gw_after_limiter h (ck_iso ck) req a = (ga', out)" for a
    using that dispatch_forward [OF _ _ assms(2), of h "ck_iso ck" _ "ga_gateway a"]
    by (auto simp: gw_after_limiter_def split: if_splits parsed_body.splits prod.splits)
  show ?thesis
    using assms(1) after [of ga] after [of "ga\<lparr>ga_limiter := _\<rparr>"]
    by (auto simp: gw_handle_def split: option.splits prod.splits verdict.splits)
qed

lemma get_key_store: "ap_store (fst (get_key ck k ap)) = read_step (ck_op ck) (OpGetWithTtl (ck_ttl ck) k) (ap_store ap)"
  by (simp add: get_key_def read_step_def reply_def split: prod.splits)

lemma wants_cases:
  assumes "wants req = Some (key, m, p, b)"
  obtains (set) "m = ''POST''" "p = ''/set''" "read_field ''key'' (nullish_to_obj b) = Some (JStr key)"
    | (get) "m = ''GET''" "p = ''/get/'' @ encodeURIComponent key"
    | (del) "m = ''DELETE''" "p = ''/delete/'' @ encodeURIComponent key"
proof -
  have s: "as_string x = Some y \<longleftrightarrow> x = Some (JStr y)" for x y by (cases x rule: as_string.cases) auto
  have n: "nullish_to_obj (Some (nullish_to_obj b)) = nullish_to_obj b" for b
    by (simp add: nullish_to_obj_def split: option.splits json.splits)
  show ?thesis
  proof (cases "gq_route req")
    case GwSetR
    with assms show ?thesis
      by (intro set) (auto simp: wants_def s n split: parsed_body.splits option.splits list.splits)
  next
    case (GwGetR k)
    with assms show ?thesis by (intro get) (auto simp: wants_def split: parsed_body.splits)
  next
    case (GwDeleteR k)
    with assms show ?thesis by (intro del) (auto simp: wants_def split: parsed_body.splits)
  qed (use assms in \<open>auto simp: wants_def\<close>)
qed

lemma key_route:
  "node_route ''GET'' (fetch_path (''/get/'' @ encodeURIComponent k)) = (if k \<in> {[], ''.'', ''..''} then UnknownR else GetR k)"
  "node_route ''DELETE'' (fetch_path (''/delete/'' @ encodeURIComponent k)) = (if k \<in> {[], ''.'', ''..''} then UnknownR else DeleteR k)"
  using delivered [of k]
  by (auto simp: encodeURIComponent_def unreserved_def node_route_def fetch_path_def decodeURIComponent_def)

lemma proxied_routes:
  assumes "wants req = Some (key, fw_method fw, fw_path fw, fw_body fw)"
  shows "rq_route (proxied_request ak ip fw) \<in> {SetR, GetR key, DeleteR key, UnknownR} \<and>
    (rq_route (proxied_request ak ip fw) = SetR \<longrightarrow> read_field ''key'' (nullish_to_obj (fw_body fw)) = Some (JStr key))"
  by (rule wants_cases [OF assms]) (simp_all add: proxied_request_def key_route [unfolded append.simps] delivered(3) [of "''a''"])

lemma proxied_store:
  assumes "wants req = Some (key, fw_method fw, fw_path fw, fw_body fw)" and "cache_ok (ap_store ap)"
    and "app_handle cf ck (proxied_request ak ip fw) ap = (ap', r, ops)"
  shows "stored_keys (ap_store ap') \<subseteq> insert key (stored_keys (ap_store ap))"
proof (rule app_handle_cases [of cf ck "proxied_request ak ip fw" ap])
  fix rl r'
  assume "app_handle cf ck (proxied_request ak ip fw) ap = (ap\<lparr>ap_limiter := rl\<rparr>, r', [])"
  then show ?thesis using assms(3) by auto
next
  fix rl body
  let ?req = "proxied_request ak ip fw" and ?ap = "ap\<lparr>ap_limiter := rl\<rparr>"
  assume "app_handle cf ck ?req ap = app_route cf ck ?req body ?ap" and "rq_body ?req = Parsed body"
  then have h: "app_route cf ck ?req body ?ap = (ap', r, ops)" and b: "body = fw_body fw"
    using assms(3) by (simp_all add: proxied_request_def)
  consider (set) "rq_route ?req = SetR" | (get) "rq_route ?req = GetR key" | (del) "rq_route ?req = DeleteR key"
    | (none) "rq_route ?req = UnknownR"
    using proxied_routes [OF assms(1), of ak ip] by auto
  then show ?thesis
  proof cases
    case set
    then show ?thesis
      using h proxied_routes [OF assms(1), of ak ip]
      by (auto simp: app_route.simps post_set_def reply_def b validateEntry_Inr split: option.splits sum.splits
          dest: stored_cache_set [OF assms(2), THEN subsetD])
  next
    case get
    then show ?thesis
      using h get_key_store [of ck key ?ap] stored_read_step [OF assms(2), of "ck_op ck" "OpGetWithTtl (ck_ttl ck) key"]
      by (auto simp: app_route.simps)
  next
    case del
    then show ?thesis
      using h stored_removals(1) [of key "ap_store ap"]
      by (auto simp: app_route.simps delete_key_def reply_def split: option.splits prod.splits)
  next
    case none
    then show ?thesis using h by (auto simp: app_route.simps reply_def)
  qed
qed

section \<open>The shards\<close>

definition owner :: "(jsstring \<Rightarrow> nat) \<Rightarrow> cluster \<Rightarrow> jsstring \<Rightarrow> jsstring option" where
  "owner h c key = nodeFor h key (gw_router (ga_gateway (cl_app c)))"

definition cl_ok :: "(jsstring \<Rightarrow> nat) \<Rightarrow> cluster \<Rightarrow> bool" where
  "cl_ok h c \<longleftrightarrow> gw_ok h (ga_gateway (cl_app c)) \<and> (\<forall>u ap. cl_nodes c u = Some ap \<longrightarrow> app_ok ap)"

definition sharded :: "(jsstring \<Rightarrow> nat) \<Rightarrow> cluster \<Rightarrow> bool" where
  \<comment> \<open>no node stores a key that the gateway routes elsewhere\<close>
  "sharded h c \<longleftrightarrow> (\<forall>u ap. cl_nodes c u = Some ap \<longrightarrow> (\<forall>k \<in> stored_keys (ap_store ap). owner h c k = Some u))"

lemma cl_request_cases:
  assumes "cl_request h cfs ip i c = (c', r)" and "\<not> changes_members (in_req i)"
  obtains (local) "cl_nodes c' = cl_nodes c" "ga_gateway (cl_app c') = ga_gateway (cl_app c)" "ga_apiKey (cl_app c') = ga_apiKey (cl_app c)"
    | (served) key fw ap ap' res ops where "wants (in_req i) = Some (key, fw_method fw, fw_path fw, fw_body fw)"
      "owner h c key = Some (fw_node fw)" "cl_nodes c (fw_node fw) = Some ap"
      "app_handle (cfs (fw_node fw)) (in_node i) (proxied_request (ga_apiKey (cl_app c)) ip fw) ap = (ap', res, ops)"
      "cl_nodes c' = (cl_nodes c)(fw_node fw := Some ap')" "r = Some res"
      "ga_gateway (cl_app c') = ga_gateway (cl_app c)" "ga_apiKey (cl_app c') = ga_apiKey (cl_app c)"
proof -
  obtain ga out where g: "gw_handle h (in_gw i) (in_req i) (cl_app c) = (ga, out)" by fastforce
  note f = gw_handle_forward [OF g assms(2)]
  show ?thesis
  proof (cases out)
    case (Forward fw)
    then obtain key where key: "wants (in_req i) = Some (key, fw_method fw, fw_path fw, fw_body fw)" "owner h c key = Some (fw_node fw)"
      using f by (auto simp: owner_def)
    show ?thesis
    proof (cases "cl_nodes c (fw_node fw)")
      case None
      then show ?thesis using assms(1) g f Forward by (intro local) (auto simp: cl_request_def cl_forward_def)
    next
      case (Some ap)
      obtain ap' res ops where h: "app_handle (cfs (fw_node fw)) (in_node i) (proxied_request (ga_apiKey ga) ip fw) ap = (ap', res, ops)"
        by (metis prod_cases3)
      show ?thesis
        by (rule served [OF key Some]) (use h assms(1) g f Forward Some in \<open>auto simp: cl_request_def cl_forward_def proxy_def\<close>)
    qed
  qed (use assms(1) g f in \<open>auto simp: cl_request_def intro!: local\<close>)
qed

lemma cl_request_inv:
  assumes "cl_request h cfs ip i c = (c', r)" and "\<not> changes_members (in_req i)" and "cl_ok h c"
  shows "cl_ok h c' \<and> owner h c' = owner h c \<and> (sharded h c \<longrightarrow> sharded h c')"
proof (rule cl_request_cases [OF assms(1,2)])
  assume "cl_nodes c' = cl_nodes c" and "ga_gateway (cl_app c') = ga_gateway (cl_app c)"
  then show ?thesis using assms(3) by (simp add: cl_ok_def owner_def [abs_def] sharded_def)
next
  fix key fw ap ap' res ops
  assume w: "wants (in_req i) = Some (key, fw_method fw, fw_path fw, fw_body fw)" and own: "owner h c key = Some (fw_node fw)"
    and ap: "cl_nodes c (fw_node fw) = Some ap"
    and hd: "app_handle (cfs (fw_node fw)) (in_node i) (proxied_request (ga_apiKey (cl_app c)) ip fw) ap = (ap', res, ops)"
    and c': "cl_nodes c' = (cl_nodes c)(fw_node fw := Some ap')" "ga_gateway (cl_app c') = ga_gateway (cl_app c)"
  have ok: "app_ok ap" using assms(3) ap by (auto simp: cl_ok_def)
  then have ok': "app_ok ap'" using app_handle_ok [OF _ hd] by blast
  have "stored_keys (ap_store ap') \<subseteq> insert key (stored_keys (ap_store ap))"
    using proxied_store [OF w _ hd] ok by (simp add: app_ok_def)
  moreover have "owner h c' = owner h c" using c' by (simp add: owner_def [abs_def])
  ultimately show ?thesis
    using assms(3) ok' own ap c' by (auto simp: cl_ok_def sharded_def)
qed

end
