(* ===== verification/ClusterSpec.thy ===== *)
theory ClusterSpec
  imports GatewayApp
begin

text \<open>
  What clients of a gateway get from the cluster behind it: a value written through the
  gateway is read back through it, shards are disjoint, a failed node costs its own shard
  only - and what a node that comes back brings with it.
\<close>

section \<open>Requests that reach a node\<close>

definition proxied_route :: "gateway_route \<Rightarrow> bool" where
  "proxied_route r \<longleftrightarrow> (case r of GwSetR \<Rightarrow> True | GwGetR k \<Rightarrow> True | GwDeleteR k \<Rightarrow> True | _ \<Rightarrow> False)"

lemma gw_handle_refuses:
  assumes "gw_handle h ck req ga = (ga', Gateway.Reply r)" and "proxied_route (gq_route req)"
  shows "res_status r \<in> {400, 401, 429, 500, 503}"
proof -
  have d: "res_status r \<in> {400, 503}" if "gw_dispatch h stamp req body g = (g', Gateway.Reply r)" for stamp body g g'
    using that assms(2)
    by (auto simp: gw_dispatch_def proxied_route_def gw_set_def gw_get_def gw_delete_def requireNode_def
        split: gateway_route.splits option.splits if_splits)
  have "res_status r \<in> {400, 401, 500, 503}" if "gw_after_limiter h stamp req a = (ga', Gateway.Reply r)" for stamp a
    using that d by (fastforce simp: gw_after_limiter_def split: if_splits parsed_body.splits prod.splits)
  then show ?thesis
    using assms(1) by (fastforce simp: gw_handle_def split: option.splits prod.splits verdict.splits)
qed

lemma cl_request_served:
  assumes "cl_request h cfs ip i c = (c', Some res)" and "proxied_route (gq_route (in_req i))" and "res_status res \<in> {200, 404}"
  obtains key fw ap ap' ops where "wants (in_req i) = Some (key, fw_method fw, fw_path fw, fw_body fw)"
      "owner h c key = Some (fw_node fw)" "cl_nodes c (fw_node fw) = Some ap"
      "app_handle (cfs (fw_node fw)) (in_node i) (proxied_request (ga_apiKey (cl_app c)) ip fw) ap = (ap', res, ops)"
      "cl_nodes c' = (cl_nodes c)(fw_node fw := Some ap')"
      "ga_gateway (cl_app c') = ga_gateway (cl_app c)" "ga_apiKey (cl_app c') = ga_apiKey (cl_app c)"
proof -
  have keeps: "\<not> changes_members (in_req i)"
    using assms(2) by (auto simp: proxied_route_def changes_members_def split: gateway_route.splits)
  obtain ga out where g: "gw_handle h (in_gw i) (in_req i) (cl_app c) = (ga, out)" by fastforce
  note f = gw_handle_forward [OF g keeps]
  have "\<forall>r. out \<noteq> Gateway.Reply r"
    using gw_handle_refuses [of h "in_gw i" "in_req i" "cl_app c" ga] g assms by (fastforce simp: cl_request_def)
  moreover have "out \<noteq> NoReply" using assms(1) g by (auto simp: cl_request_def)
  ultimately obtain fw where fw: "out = Forward fw" by (cases out) auto
  then obtain key where key: "wants (in_req i) = Some (key, fw_method fw, fw_path fw, fw_body fw)" "owner h c key = Some (fw_node fw)"
    using f by (auto simp: owner_def)
  obtain ap where ap: "cl_nodes c (fw_node fw) = Some ap"
    using assms(1,3) g fw by (cases "cl_nodes c (fw_node fw)") (auto simp: cl_request_def cl_forward_def proxy_def)
  obtain ap' r ops where h: "app_handle (cfs (fw_node fw)) (in_node i) (proxied_request (ga_apiKey ga) ip fw) ap = (ap', r, ops)"
    by (metis prod_cases3)
  show ?thesis
    by (rule that [OF key ap, of ap' ops]) (use h assms(1) g f fw ap in \<open>auto simp: cl_request_def cl_forward_def proxy_def\<close>)
qed

lemma served_get:
  assumes "app_handle cf ck req ap = (ap', res, ops)" and "rq_route req = GetR k" and "res_status res \<in> {200, 404}"
  shows "res = (case visible (ck_op ck) (ap_store ap) k of
      None \<Rightarrow> \<lparr>res_status = 404, res_body = JObj [(''error'', JStr ''miss''), (''key'', JStr k)]\<rparr>
    | Some (v, d) \<Rightarrow> ok_response [(''key'', JStr k), (''value'', JStr v), (''ttl'', ttl_json (map_option (remaining_ttl (ck_ttl ck)) d))])"
proof (rule app_handle_cases [of cf ck req ap])
  fix rl body
  assume "app_handle cf ck req ap = app_route cf ck req body (ap\<lparr>ap_limiter := rl\<rparr>)"
  then have "get_key ck k (ap\<lparr>ap_limiter := rl\<rparr>) = (ap', res, ops)" using assms(1,2) by (simp add: app_route.simps)
  then show ?thesis
    using getWithTtl_result [of "ck_op ck" "ck_ttl ck" k "ap_store ap"]
    by (auto simp: get_key_def reply_def split: prod.splits option.splits)
qed (use assms in auto)

lemma served_set:
  assumes "app_handle cf ck req ap = (ap', res, ops)" and "rq_route req = SetR" and "rq_body req = Parsed body" and "res_status res = 200"
  shows "\<exists>k v ttl. validateEntry (cf_maxKeyLength cf) (ck_now ck) body = Inr (k, v, ttl) \<and>
    ap_store ap' = cache_set (ck_op ck) k v ttl (ap_store ap)"
proof (rule app_handle_cases [of cf ck req ap])
  fix rl body'
  assume "app_handle cf ck req ap = app_route cf ck req body' (ap\<lparr>ap_limiter := rl\<rparr>)" and "rq_body req = Parsed body'"
  then have "post_set cf ck body (ap\<lparr>ap_limiter := rl\<rparr>) = (ap', res, ops)" using assms(1-3) by (simp add: app_route.simps)
  then show ?thesis using assms(4)
    by (auto simp: post_set_def reply_def rejectIfReplica_def split: option.splits sum.splits if_splits)
qed (use assms in auto)

section \<open>Writing and reading through the gateway\<close>

definition set_request :: "gateway_request \<Rightarrow> jsstring \<Rightarrow> jsstring \<Rightarrow> jsnum option \<Rightarrow> bool" where
  \<comment> \<open>\<open>POST /set\<close> with this key and value, and a \<open>ttl\<close> or none\<close>
  "set_request req k v ttl \<longleftrightarrow> gq_route req = GwSetR \<and> (\<exists>fs. gq_body req = Parsed (Some (JObj fs)) \<and>
     map_of fs ''key'' = Some (JStr k) \<and> map_of fs ''value'' = Some (JStr v) \<and>
     (case ttl of None \<Rightarrow> map_of fs ''ttl'' \<in> {None, Some JNull} | Some x \<Rightarrow> map_of fs ''ttl'' = Some (JNum x)))"

definition hit_response :: "jsstring \<Rightarrow> jsstring \<Rightarrow> response \<Rightarrow> bool" where
  "hit_response k v r \<longleftrightarrow> (\<exists>ttl. r = ok_response [(''key'', JStr k), (''value'', JStr v), (''ttl'', ttl)])"

lemma set_served:
  assumes "cl_request h cfs ip w c = (c', Some r)" and "res_status r = 200" and "set_request (in_req w) k v ttl"
  obtains u ap ap' where "owner h c k = Some u" "cl_nodes c u = Some ap" "cl_nodes c' = (cl_nodes c)(u := Some ap')"
    "ap_store ap' = cache_set (ck_op (in_node w)) k v ttl (ap_store ap)"
    "ga_gateway (cl_app c') = ga_gateway (cl_app c)" "k \<noteq> []"
proof (rule cl_request_served [OF assms(1)])
  show "proxied_route (gq_route (in_req w))" using assms(3) by (simp add: set_request_def proxied_route_def)
  show "res_status r \<in> {200, 404}" using assms(2) by simp
next
  fix key fw ap ap' ops
  assume w: "wants (in_req w) = Some (key, fw_method fw, fw_path fw, fw_body fw)"
    and n: "owner h c key = Some (fw_node fw)" "cl_nodes c (fw_node fw) = Some ap"
      "cl_nodes c' = (cl_nodes c)(fw_node fw := Some ap')" "ga_gateway (cl_app c') = ga_gateway (cl_app c)"
    and hd: "app_handle (cfs (fw_node fw)) (in_node w) (proxied_request (ga_apiKey (cl_app c)) ip fw) ap = (ap', r, ops)"
  obtain fs where fs: "gq_route (in_req w) = GwSetR" "gq_body (in_req w) = Parsed (Some (JObj fs))" "map_of fs ''key'' = Some (JStr k)"
      "map_of fs ''value'' = Some (JStr v)" "case ttl of None \<Rightarrow> map_of fs ''ttl'' \<in> {None, Some JNull} | Some x \<Rightarrow> map_of fs ''ttl'' = Some (JNum x)"
    using assms(3) by (auto simp: set_request_def)
  have k: "key = k" "k \<noteq> []" and fw: "fw_method fw = ''POST''" "fw_path fw = ''/set''" "fw_body fw = Some (JObj fs)"
    using w fs(1-3) by (auto simp: wants_def nullish_to_obj_def split: list.splits)
  have "rq_route (proxied_request (ga_apiKey (cl_app c)) ip fw) = SetR"
    "rq_body (proxied_request (ga_apiKey (cl_app c)) ip fw) = Parsed (Some (JObj fs))"
    using delivered(3) [of "''a''"] by (simp_all add: proxied_request_def fw)
  from served_set [OF hd this assms(2)] obtain k' v' ttl'
    where val: "validateEntry (cf_maxKeyLength (cfs (fw_node fw))) (ck_now (in_node w)) (Some (JObj fs)) = Inr (k', v', ttl')"
      and st: "ap_store ap' = cache_set (ck_op (in_node w)) k' v' ttl' (ap_store ap)" by blast
  have "k' = k \<and> v' = v \<and> ttl' = ttl"
    using val fs(3-5) by (auto simp: validateEntry_Inr nullish_to_obj_def split: option.splits)
  then show ?thesis using that [of "fw_node fw" ap ap'] n k st by simp
qed

lemma get_served:
  assumes "cl_request h cfs ip i c = (c', Some r)" and "gq_route (in_req i) = GwGetR k" and "k \<notin> {[], ''.'', ''..''}"
    and "res_status r \<in> {200, 404}" and "owner h c k = Some u" and "cl_nodes c u = Some ap"
    and "visible (ck_op (in_node i)) (ap_store ap) k = Some (v, d)"
  shows "hit_response k v r"
proof (rule cl_request_served [OF assms(1) _ assms(4)])
  show "proxied_route (gq_route (in_req i))" using assms(2) by (simp add: proxied_route_def)
next
  fix key fw a ap' ops
  assume w: "wants (in_req i) = Some (key, fw_method fw, fw_path fw, fw_body fw)" and n: "owner h c key = Some (fw_node fw)" "cl_nodes c (fw_node fw) = Some a"
    and hd: "app_handle (cfs (fw_node fw)) (in_node i) (proxied_request (ga_apiKey (cl_app c)) ip fw) a = (ap', r, ops)"
  have fw: "key = k" "fw_method fw = ''GET''" "fw_path fw = ''/get/'' @ encodeURIComponent k"
    using w assms(2) by (auto simp: wants_def split: parsed_body.splits)
  have "rq_route (proxied_request (ga_apiKey (cl_app c)) ip fw) = GetR k"
    using assms(3) key_route(1) [of k] by (simp add: proxied_request_def fw)
  moreover have "a = ap" using n assms(5,6) fw(1) by simp
  ultimately show ?thesis using served_get [OF hd _ assms(4)] assms(7) by (auto simp: hit_response_def)
qed

lemma run_other_owners:
  assumes "cl_ok h c" and "\<forall>i \<in> set ins. \<not> changes_members (in_req i) \<and> (\<forall>k' x. wants (in_req i) = Some (k', x) \<longrightarrow> owner h c k' \<noteq> Some u)"
  shows "cl_ok h (cl_run h cfs ip c ins) \<and> owner h (cl_run h cfs ip c ins) = owner h c \<and> cl_nodes (cl_run h cfs ip c ins) u = cl_nodes c u"
  using assms
proof (induction ins arbitrary: c)
  case Nil
  then show ?case by (simp add: cl_run_def)
next
  case (Cons i ins)
  obtain c1 r where r: "cl_request h cfs ip i c = (c1, r)" by fastforce
  have k: "\<not> changes_members (in_req i)" using Cons.prems by simp
  have inv: "cl_ok h c1" "owner h c1 = owner h c" using cl_request_inv [OF r k Cons.prems(1)] by simp_all
  have "cl_nodes c1 u = cl_nodes c u"
    using Cons.prems(2) by (auto intro: cl_request_cases [OF r k])
  then show ?case using Cons.IH [OF inv(1)] Cons.prems(2) inv(2) r by (simp add: cl_run_def)
qed

text \<open>C6: Read your writes, through the gateway: when a \<open>POST /set\<close> was answered with 200 and a later
  \<open>GET /get/:key\<close> is answered by a node at all - 200 or 404 -, before the deadline of the
  entry, it is a hit with the value written, whatever the gateway served in between for
  keys of other nodes. (The keys \<open>.\<close> and \<open>..\<close> are excepted: no \<open>GET\<close> of the gateway reaches
  them.)\<close>

theorem gateway_reads_your_writes:
  assumes "cl_ok h c" and "set_request (in_req w) k v ttl" and "cl_request h cfs ip w c = (c1, Some r1)" and "res_status r1 = 200"
    and "\<forall>i \<in> set ins. \<not> changes_members (in_req i) \<and> (\<forall>k' x. wants (in_req i) = Some (k', x) \<longrightarrow> owner h c k' \<noteq> owner h c k)"
    and "gq_route (in_req g) = GwGetR k" and "k \<notin> {''.'', ''..''}"
    and "ck_op (in_node w) \<le> ck_op (in_node g)" and "not_due (ck_op (in_node g)) (deadline (ck_op (in_node w)) ttl)"
    and "cl_request h cfs ip g (cl_run h cfs ip c1 ins) = (c2, Some r2)" and "res_status r2 \<in> {200, 404}"
  shows "hit_response k v r2"
proof (rule set_served [OF assms(3,4,2)])
  fix u ap ap'
  assume u: "owner h c k = Some u" "cl_nodes c u = Some ap" "cl_nodes c1 = (cl_nodes c)(u := Some ap')"
    and st: "ap_store ap' = cache_set (ck_op (in_node w)) k v ttl (ap_store ap)"
    and g: "ga_gateway (cl_app c1) = ga_gateway (cl_app c)" and k: "k \<noteq> []"
  have keeps: "\<not> changes_members (in_req w)" using assms(2) by (auto simp: set_request_def changes_members_def)
  have inv: "cl_ok h c1" "owner h c1 = owner h c" using cl_request_inv [OF assms(3) keeps assms(1)] by simp_all
  have run: "owner h (cl_run h cfs ip c1 ins) = owner h c" "cl_nodes (cl_run h cfs ip c1 ins) u = Some ap'"
    using run_other_owners [OF inv(1), of ins u cfs ip] assms(5) u(1,3) inv(2) by auto
  have "cache_ok (ap_store ap)" using assms(1) u(2) by (auto simp: cl_ok_def app_ok_def)
  from visible_cache_set [OF this assms(8), of k v ttl]
  have "visible (ck_op (in_node g)) (ap_store ap') k = Some (v, deadline (ck_op (in_node w)) ttl)"
    using assms(9) by (simp add: st fresh_view_not_due)
  from get_served [OF assms(10,6) _ assms(11) _ run(2) this] show ?thesis using k u(1) assms(7) by (simp add: run(1))
qed

definition demo_router :: cluster_router where
  "demo_router = new_router length [''http://a'', ''http://bb''] (Some 1)"

definition demo_cluster :: cluster where
  "demo_cluster = \<lparr>cl_app = \<lparr>ga_gateway = \<lparr>gw_router = demo_router, gw_health = Some [(''http://a'', True), (''http://bb'', True)]\<rparr>,
     ga_limiter = None, ga_apiKey = None\<rparr>,
     cl_nodes = (\<lambda>u. if u \<in> {''http://a'', ''http://bb''} then Some (demo_app Primary []) else None)\<rparr>"

definition gw_input :: "time_ms \<Rightarrow> gateway_route \<Rightarrow> json \<Rightarrow> input" where
  "gw_input t rt body = \<lparr>in_gw = at_time t, in_node = at_time t,
     in_req = \<lparr>gq_route = rt, gq_path = ''/'', gq_headers = (\<lambda>_. None), gq_ip = None, gq_body = Parsed (Some body)\<rparr>\<rparr>"

definition key_body :: "jsstring \<Rightarrow> jsstring \<Rightarrow> json" where
  "key_body k v = JObj [(''key'', JStr k), (''value'', JStr v)]"

lemma demo_points: "ring_points demo_router = [\<lparr>rp_hash = 10, rp_node = ''http://a''\<rparr>, \<lparr>rp_hash = 11, rp_node = ''http://bb''\<rparr>]"
proof -
  have "show_nat 0 = ''0''" by code_simp
  then show ?thesis by (simp add: demo_router_def new_router_def new_ring_def ring_add_def vnode_points_def)
qed

lemma demo_owners: "nodeFor length ''k'' demo_router = Some ''http://a''"
    "nodeFor length ''key of 11 c'' demo_router = Some ''http://bb''"
proof -
  have "ring_ok length demo_router" by (simp add: demo_router_def new_router_def ring_ok_new)
  then have "nodeFor length key demo_router = successor (length key) (ring_points demo_router)" for key
    by (simp add: nodeFor_def getNode_successor)
  then show "nodeFor length ''k'' demo_router = Some ''http://a''" "nodeFor length ''key of 11 c'' demo_router = Some ''http://bb''"
    by (simp_all only: demo_points) (simp_all add: successor_def)
qed

lemma demo_removed: "nodeFor length ''k'' (removeNode ''http://a'' demo_router) = Some ''http://bb''"
proof -
  have "ring_ok length demo_router" by (simp add: demo_router_def new_router_def ring_ok_new)
  then have "ring_ok length (ring_remove ''http://a'' demo_router)" "ring_points (ring_remove ''http://a'' demo_router) =
      filter (\<lambda>p. rp_node p \<noteq> ''http://a'') (ring_points demo_router)"
    by (simp_all add: ring_ok_remove ring_points_remove)
  then show ?thesis by (simp add: nodeFor_def removeNode_def getNode_successor demo_points successor_def)
qed

lemma demo_cluster_ok: "cl_ok length demo_cluster"
proof -
  have "hc_ok length (startHealthChecks demo_router [''http://a'', ''http://bb''])"
    by (rule hc_ok_start) (simp_all add: demo_router_def new_router_ok new_router_nodes)
  then have "gw_ok length (ga_gateway (cl_app demo_cluster))"
    by (simp add: gw_ok_def demo_cluster_def gw_checker_def startHealthChecks_def)
  moreover have "app_ok (demo_app Primary [])"
    by (simp add: app_ok_def demo_store new_metrics_def new_predictor_def predictor_ok_def jm_size_def
        DEFAULT_MAX_TRACKED_KEYS_def demo_app_def)
  ultimately show ?thesis by (simp add: cl_ok_def) (simp add: demo_cluster_def)
qed

lemma owner_size: "cl_ok h c \<Longrightarrow> owner h c k = Some v \<Longrightarrow> router_size (gw_router (ga_gateway (cl_app c))) \<noteq> 0"
  using gw_mirrors [of h "ga_gateway (cl_app c)"] cr.route_None [of h "gw_router (ga_gateway (cl_app c))" k]
  by (auto simp: cl_ok_def owner_def cr.mirrors_def router_size_nodes)

definition plain :: "cluster \<Rightarrow> bool" where
  \<comment> \<open>a gateway without a limiter or a key\<close>
  "plain c \<longleftrightarrow> cl_ok length c \<and> ga_limiter (cl_app c) = None \<and> ga_apiKey (cl_app c) = None"

lemma demo_set_served:
  assumes "owner length c k = Some u" and "u \<noteq> []" and "plain c" and "cl_nodes c u = Some ap"
    and "ap_limiter ap = None" and "nr_role (ap_role ap) = Primary" and "key_ok 256 k"
  shows "cl_request length (\<lambda>_. demo_config) None (gw_input t GwSetR (key_body k v)) c =
    (c\<lparr>cl_nodes := (cl_nodes c)(u := Some (fst (post_set demo_config (at_time t) (Some (key_body k v)) ap)))\<rparr>,
     Some (ok_response [(''ok'', JBool True), (''key'', JStr k), (''ttl'', JNull)]))"
    and "ap_store (fst (post_set demo_config (at_time t) (Some (key_body k v)) ap)) = cache_set t k v None (ap_store ap)"
proof -
  have k: "k \<noteq> []" using assms(7) by (auto simp: key_ok_def)
  have val: "validateEntry 256 t (Some (key_body k v)) = Inr (k, v, None)"
    using assms(7) by (simp add: validateEntry_Inr key_body_def nullish_to_obj_def)
  have p: "cl_ok length c" "ga_limiter (cl_app c) = None" "ga_apiKey (cl_app c) = None" using assms(3) by (simp_all add: plain_def)
  have "gw_handle length (at_time t) (in_req (gw_input t GwSetR (key_body k v))) (cl_app c) =
      (cl_app c, Forward \<lparr>fw_node = u, fw_path = ''/set'', fw_method = ''POST'', fw_body = Some (key_body k v)\<rparr>)"
    using assms(1,2) k owner_size [OF p(1) assms(1)] p(2,3)
    by (simp add: gw_handle_def gw_after_limiter_def createAuthMiddleware_def gw_dispatch_def gw_set_def requireNode_def
        gw_input_def key_body_def nullish_to_obj_def owner_def)
  moreover have "app_handle demo_config (at_time t) (proxied_request None None
      \<lparr>fw_node = u, fw_path = ''/set'', fw_method = ''POST'', fw_body = Some (key_body k v)\<rparr>) ap =
      post_set demo_config (at_time t) (Some (key_body k v)) ap"
    using assms(5) delivered(3) [of "''a''"]
    by (simp add: proxied_request_def app_handle_def after_limiter_def createAuthMiddleware_def demo_config_def app_route.simps)
  moreover have "fst (snd (post_set demo_config (at_time t) (Some (key_body k v)) ap)) =
      ok_response [(''ok'', JBool True), (''key'', JStr k), (''ttl'', JNull)]"
    using assms(6) val by (simp add: post_set_def rejectIfReplica_def demo_config_def ttl_json_def)
  ultimately show "cl_request length (\<lambda>_. demo_config) None (gw_input t GwSetR (key_body k v)) c =
    (c\<lparr>cl_nodes := (cl_nodes c)(u := Some (fst (post_set demo_config (at_time t) (Some (key_body k v)) ap)))\<rparr>,
     Some (ok_response [(''ok'', JBool True), (''key'', JStr k), (''ttl'', JNull)]))"
    using assms(4) p by (cases c) (auto simp: cl_request_def cl_forward_def proxy_def gw_input_def split: prod.splits)
  show "ap_store (fst (post_set demo_config (at_time t) (Some (key_body k v)) ap)) = cache_set t k v None (ap_store ap)"
    using assms(6) val by (simp add: post_set_def rejectIfReplica_def demo_config_def)
qed

lemma demo_get_served:
  assumes "owner length c k = Some u" and "u \<noteq> []" and "plain c" and "cl_nodes c u = Some ap"
    and "ap_limiter ap = None" and "k \<notin> {[], ''.'', ''..''}"
  shows "\<exists>c' r. cl_request length (\<lambda>_. demo_config) None (gw_input t (GwGetR k) body) c = (c', Some r) \<and> res_status r \<in> {200, 404}"
proof -
  have p: "cl_ok length c" "ga_limiter (cl_app c) = None" "ga_apiKey (cl_app c) = None" using assms(3) by (simp_all add: plain_def)
  have "gw_handle length (at_time t) (in_req (gw_input t (GwGetR k) body)) (cl_app c) =
      (cl_app c, Forward \<lparr>fw_node = u, fw_path = ''/get/'' @ encodeURIComponent k, fw_method = ''GET'', fw_body = None\<rparr>)"
    using assms(1,2) owner_size [OF p(1) assms(1)] p(2,3)
    by (simp add: gw_handle_def gw_after_limiter_def createAuthMiddleware_def gw_dispatch_def gw_get_def requireNode_def
        gw_input_def owner_def)
  moreover have "app_handle demo_config (at_time t) (proxied_request None None
      \<lparr>fw_node = u, fw_path = ''/get/'' @ encodeURIComponent k, fw_method = ''GET'', fw_body = None\<rparr>) ap = get_key (at_time t) k ap"
    using assms(5) delivered(1) [OF assms(6)]
    by (simp add: proxied_request_def app_handle_def after_limiter_def createAuthMiddleware_def demo_config_def app_route.simps)
  moreover have "res_status (fst (snd (get_key (at_time t) k ap))) \<in> {200, 404}"
    by (auto simp: get_key_def reply_def split: prod.splits option.splits)
  ultimately show ?thesis
    using assms(4) p by (cases c) (auto simp: cl_request_def cl_forward_def proxy_def gw_input_def split: prod.splits)
qed

lemma plain_request: "plain c \<Longrightarrow> cl_request length cfs ip i c = (c', r) \<Longrightarrow> \<not> changes_members (in_req i) \<Longrightarrow>
    cl_app c' = cl_app c \<Longrightarrow> plain c'"
  using cl_request_inv by (auto simp: plain_def)

lemma demo_nodes: "cl_nodes demo_cluster ''http://a'' = Some (demo_app Primary [])" "cl_nodes demo_cluster ''http://bb'' = Some (demo_app Primary [])"
  by (simp_all add: demo_cluster_def)

lemma demo_plain: "plain demo_cluster" "owner length demo_cluster ''k'' = Some ''http://a''"
    "owner length demo_cluster ''key of 11 c'' = Some ''http://bb''"
  using demo_cluster_ok demo_owners by (simp_all add: plain_def owner_def) (simp_all add: demo_cluster_def)

lemma demo_key_ok: "key_ok 256 ''k''" "key_ok 256 ''key of 11 c''"
  by (simp_all add: key_ok_def trim_def is_ws_def)

lemma post_set_keeps: "ap_limiter (fst (post_set cf ck body ap)) = ap_limiter ap" "ap_role (fst (post_set cf ck body ap)) = ap_role ap"
  by (auto simp: post_set_def reply_def split: option.splits sum.splits prod.splits)

theorem gateway_reads_your_writes_witness:
  "hit_response ''k'' ''v'' (the (snd (cl_request length (\<lambda>_. demo_config) None (gw_input 12 (GwGetR ''k'') JNull)
     (cl_run length (\<lambda>_. demo_config) None
       (fst (cl_request length (\<lambda>_. demo_config) None (gw_input 10 GwSetR (key_body ''k'' ''v'')) demo_cluster))
       [gw_input 11 GwSetR (key_body ''key of 11 c'' ''x'')]))))"
proof -
  let ?req = "cl_request length (\<lambda>_. demo_config) None"
  let ?w = "gw_input 10 GwSetR (key_body ''k'' ''v'')" and ?o = "gw_input 11 GwSetR (key_body ''key of 11 c'' ''x'')"
    and ?g = "gw_input 12 (GwGetR ''k'') JNull"
  have quiet: "\<not> changes_members (in_req ?w)" "\<not> changes_members (in_req ?o)" by (simp_all add: gw_input_def changes_members_def)
  obtain c1 r1 where w: "?req ?w demo_cluster = (c1, Some r1)" "res_status r1 = 200" "cl_app c1 = cl_app demo_cluster"
    and n1: "cl_nodes c1 ''http://bb'' = Some (demo_app Primary [])" "\<exists>ap. cl_nodes c1 ''http://a'' = Some ap \<and> ap_limiter ap = None"
    using demo_set_served(1) [OF demo_plain(2) _ demo_plain(1) demo_nodes(1) _ _ demo_key_ok(1), of 10 "''v''"]
    by (auto simp: demo_nodes post_set_keeps)
  have p1: "plain c1" "owner length c1 = owner length demo_cluster"
    using plain_request [OF demo_plain(1) w(1) quiet(1) w(3)] w(3) by (simp_all add: owner_def [abs_def])
  obtain c2 r where o': "?req ?o c1 = (c2, r)" "cl_app c2 = cl_app c1" "cl_nodes c2 ''http://a'' = cl_nodes c1 ''http://a''"
    using demo_set_served(1) [OF _ _ p1(1) n1(1) _ _ demo_key_ok(2), of 11 "''x''"] demo_plain(3) p1(2) by auto
  have p2: "plain c2" "owner length c2 = owner length demo_cluster"
    using plain_request [OF p1(1) o'(1) quiet(2) o'(2)] o'(2) p1(2) by (simp_all add: owner_def [abs_def])
  obtain c3 r2 where g: "?req ?g c2 = (c3, Some r2)" "res_status r2 \<in> {200, 404}"
    using demo_get_served [OF _ _ p2(1), of "''k''" "''http://a''" _ 12 JNull] n1(2) demo_plain(2) p2(2) o'(3) by auto
  have run: "cl_run length (\<lambda>_. demo_config) None c1 [?o] = c2" using o'(1) by (simp add: cl_run_def)
  have "hit_response ''k'' ''v'' r2"
  proof (rule gateway_reads_your_writes [OF demo_cluster_ok _ w(1,2), where ins = "[?o]" and g = ?g and ttl = None])
    show "set_request (in_req ?w) ''k'' ''v'' None" by (simp add: set_request_def gw_input_def key_body_def)
    show "\<forall>i \<in> set [?o]. \<not> changes_members (in_req i) \<and>
        (\<forall>k' x. wants (in_req i) = Some (k', x) \<longrightarrow> owner length demo_cluster k' \<noteq> owner length demo_cluster ''k'')"
      using quiet(2) demo_plain(2,3) by (auto simp: gw_input_def wants_def key_body_def nullish_to_obj_def)
    show "?req ?g (cl_run length (\<lambda>_. demo_config) None c1 [?o]) = (c3, Some r2)" unfolding run by (rule g(1))
  qed (use g(2) in \<open>simp_all add: gw_input_def not_due_def deadline_def\<close>)
  then show ?thesis by (simp add: w(1) run g(1))
qed

section \<open>Shards and failures\<close>

lemma run_inv:
  assumes "cl_ok h c" and "\<forall>i \<in> set ins. \<not> changes_members (in_req i)"
  shows "cl_ok h (cl_run h cfs ip c ins) \<and> owner h (cl_run h cfs ip c ins) = owner h c \<and>
    (sharded h c \<longrightarrow> sharded h (cl_run h cfs ip c ins))"
  using assms
proof (induction ins arbitrary: c)
  case Nil
  then show ?case by (simp add: cl_run_def)
next
  case (Cons i ins)
  obtain c1 r where r: "cl_request h cfs ip i c = (c1, r)" by fastforce
  have "cl_ok h c1 \<and> owner h c1 = owner h c \<and> (sharded h c \<longrightarrow> sharded h c1)"
    using cl_request_inv [OF r _ Cons.prems(1)] Cons.prems(2) by simp
  then show ?case using Cons.IH [of c1] Cons.prems(2) r by (simp add: cl_run_def)
qed

text \<open>C8: Shards are disjoint: behind a gateway that starts with empty nodes, whatever requests it
  serves while its members stay the same, a key is stored on no node but the one the gateway
  routes it to.\<close>

theorem shards_stay_disjoint:
  assumes "cl_ok h c" and "\<forall>u ap. cl_nodes c u = Some ap \<longrightarrow> entries (ap_store ap) = []"
    and "\<forall>i \<in> set ins. \<not> changes_members (in_req i)" and "c' = cl_run h cfs ip c ins"
    and "cl_nodes c' u = Some ap" and "k \<in> stored_keys (ap_store ap)"
  shows "owner h c k = Some u \<and> (\<forall>u' ap'. cl_nodes c' u' = Some ap' \<longrightarrow> u' \<noteq> u \<longrightarrow> k \<notin> stored_keys (ap_store ap'))"
proof -
  have "sharded h c" using assms(2) by (auto simp: sharded_def stored_keys_def jm_keys_def)
  then have "sharded h c'" and "owner h c' = owner h c" using run_inv [OF assms(1,3), of cfs ip] assms(4) by simp_all
  then show ?thesis using assms(5,6) unfolding sharded_def by (metis option.inject)
qed

theorem shards_stay_disjoint_witness:
  "''k'' \<notin> stored_keys (ap_store (the (cl_nodes (cl_run length (\<lambda>_. demo_config) None demo_cluster
     [gw_input 10 GwSetR (key_body ''k'' ''v'')]) ''http://bb'')))"
proof -
  let ?i = "gw_input 10 GwSetR (key_body ''k'' ''v'')" and ?p = "fst (post_set demo_config (at_time 10) (Some (key_body ''k'' ''v'')) (demo_app Primary []))"
  note served = demo_set_served [OF demo_plain(2) _ demo_plain(1) demo_nodes(1) _ _ demo_key_ok(1), of 10 "''v''"]
  have n: "cl_nodes (cl_run length (\<lambda>_. demo_config) None demo_cluster [?i]) ''http://a'' = Some ?p"
    "cl_nodes (cl_run length (\<lambda>_. demo_config) None demo_cluster [?i]) ''http://bb'' = Some (demo_app Primary [])"
    using served(1) by (simp_all add: cl_run_def demo_nodes)
  have "''k'' \<in> stored_keys (ap_store ?p)" using served(2) by (simp add: stored_keys_def cache_set_make_room jm_keys_set)
  moreover have "\<forall>u ap. cl_nodes demo_cluster u = Some ap \<longrightarrow> entries (ap_store ap) = []"
    by (simp add: demo_cluster_def demo_store)
  moreover have "\<forall>i \<in> set [?i]. \<not> changes_members (in_req i)" by (simp add: gw_input_def changes_members_def)
  ultimately have "\<forall>u' ap'. cl_nodes (cl_run length (\<lambda>_. demo_config) None demo_cluster [?i]) u' = Some ap' \<longrightarrow>
      u' \<noteq> ''http://a'' \<longrightarrow> ''k'' \<notin> stored_keys (ap_store ap')"
    using shards_stay_disjoint [OF demo_cluster_ok _ _ refl n(1), of "''k''"] by blast
  from this [rule_format, OF n(2)] show ?thesis unfolding n(2) option.sel by blast
qed

definition gw_ping :: "(jsstring \<Rightarrow> nat) \<Rightarrow> jsstring \<Rightarrow> nat option \<Rightarrow> gateway \<Rightarrow> gateway" where
  \<comment> \<open>a health check of node \<open>u\<close> by the gateway settles\<close>
  "gw_ping h u answer g = (case gw_health g of
       None \<Rightarrow> g
     | Some m \<Rightarrow> gw_set_checker (hc_step h (gw_checker g m) (HPing u answer)) g)"

definition cl_ping :: "(jsstring \<Rightarrow> nat) \<Rightarrow> jsstring \<Rightarrow> nat option \<Rightarrow> cluster \<Rightarrow> cluster" where
  "cl_ping h u answer c = c\<lparr>cl_app := (cl_app c)\<lparr>ga_gateway := gw_ping h u answer (ga_gateway (cl_app c))\<rparr>\<rparr>"

lemma cl_ping_fields [simp]: "cl_nodes (cl_ping h u answer c) = cl_nodes c"
    "cl_app (cl_ping h u answer c) = (cl_app c)\<lparr>ga_gateway := gw_ping h u answer (ga_gateway (cl_app c))\<rparr>"
  by (simp_all add: cl_ping_def)

lemma cl_ping_ok: "cl_ok h c \<Longrightarrow> cl_ok h (cl_ping h u answer c)"
  using hc_ok_step [of h _ "HPing u answer"] by (auto simp: cl_ok_def gw_ping_def gw_ok_def split: option.splits)

lemma cl_ping_router:
  assumes "cl_ok h c"
  shows "gw_router (ga_gateway (cl_app (cl_ping h u None c))) \<in>
    {gw_router (ga_gateway (cl_app c)), removeNode u (gw_router (ga_gateway (cl_app c)))}"
  by (auto simp: gw_ping_def gw_set_checker_def gw_checker_def ping_result_def ping_ok_def split: option.splits)

lemma cl_ping_owner:
  assumes "cl_ok h c" and "owner h c k = Some v" and "v \<noteq> u"
  shows "owner h (cl_ping h u None c) k = Some v"
proof -
  have "cr.mirrors h (believed_up (ga_gateway (cl_app c))) (gw_router (ga_gateway (cl_app c)))"
    using assms(1) by (simp add: cl_ok_def gw_mirrors)
  from cr.leave_others [OF this, of k v u] show ?thesis
    using cl_ping_router [OF assms(1), of u] assms(2,3) by (auto simp: owner_def)
qed

lemma requireNode_same:
  assumes "nodeFor h k (gw_router g) = Some v" and "nodeFor h k (gw_router g') = Some v"
    and "router_size (gw_router g) \<noteq> 0" and "router_size (gw_router g') \<noteq> 0"
  shows "requireNode h g' k f = requireNode h g k f"
  using assms by (simp add: requireNode_def)

lemma gw_handle_same:
  assumes "wants req = Some (k, x)" and "nodeFor h k (gw_router (ga_gateway ga)) = Some v" and "nodeFor h k (gw_router g') = Some v"
    and "router_size (gw_router (ga_gateway ga)) \<noteq> 0" and "router_size (gw_router g') \<noteq> 0"
  shows "gw_handle h ck req (ga\<lparr>ga_gateway := g'\<rparr>) = (case gw_handle h ck req ga of (a, out) \<Rightarrow> (a\<lparr>ga_gateway := g'\<rparr>, out))"
proof -
  note same = requireNode_same [OF assms(2-5)]
  have s: "as_string y = Some z \<longleftrightarrow> y = Some (JStr z)" for y z by (cases y rule: as_string.cases) auto
  have d: "gw_dispatch h stamp req body g' = (g', snd (gw_dispatch h stamp req body (ga_gateway ga))) \<and>
      fst (gw_dispatch h stamp req body (ga_gateway ga)) = ga_gateway ga"
    if "gq_body req = Parsed body" for stamp body
    using assms(1) that same
    by (cases "gq_route req") (auto simp: wants_def gw_dispatch_def gw_set_def gw_get_def gw_delete_def s split: option.splits list.splits)
  have a: "gw_after_limiter h stamp req (a\<lparr>ga_gateway := g'\<rparr>) =
      (case gw_after_limiter h stamp req a of (b, out) \<Rightarrow> (b\<lparr>ga_gateway := g'\<rparr>, out))"
    if "ga_gateway a = ga_gateway ga" for stamp a
  proof (cases "gq_body req")
    case (Parsed body)
    then show ?thesis using d [OF Parsed, of stamp] that
      by (cases "gw_dispatch h stamp req body (ga_gateway ga)") (simp add: gw_after_limiter_def)
  qed (simp_all add: gw_after_limiter_def)
  show ?thesis
  proof (cases "ga_limiter ga")
    case None
    then show ?thesis using a [of ga] by (simp add: gw_handle_def)
  next
    case (Some rl)
    obtain rl' v where "limit_request (ck_now ck) (gq_path req) (gq_ip req) rl = (rl', v)" by fastforce
    moreover have sw: "ga\<lparr>ga_gateway := g', ga_limiter := Some rl'\<rparr> = ga\<lparr>ga_limiter := Some rl', ga_gateway := g'\<rparr>"
      by (cases ga) simp
    have "gw_after_limiter h (ck_iso ck) req (ga\<lparr>ga_gateway := g', ga_limiter := Some rl'\<rparr>) =
        (case gw_after_limiter h (ck_iso ck) req (ga\<lparr>ga_limiter := Some rl'\<rparr>) of (b, out) \<Rightarrow> (b\<lparr>ga_gateway := g'\<rparr>, out))"
      unfolding sw by (rule a) simp
    ultimately show ?thesis using Some by (cases v) (simp_all add: gw_handle_def)
  qed
qed

text \<open>C9: A failed node costs its own shard only: when the gateway finds a node dead, every request
  for a key of another node is answered as it would have been, and has the same effect.\<close>

theorem failure_costs_one_shard:
  assumes "cl_ok h c" and "wants (in_req i) = Some (k, x)" and "owner h c k = Some v" and "v \<noteq> u"
    and "cl_request h cfs ip i c = (c', r)"
  shows "cl_request h cfs ip i (cl_ping h u None c) = (cl_ping h u None c', r)"
proof -
  have own: "owner h (cl_ping h u None c) k = Some v" by (rule cl_ping_owner [OF assms(1,3,4)])
  let ?g = "gw_ping h u None (ga_gateway (cl_app c))"
  have keeps: "\<not> changes_members (in_req i)"
    using assms(2) by (auto simp: wants_def changes_members_def)
  obtain a out where g: "gw_handle h (in_gw i) (in_req i) (cl_app c) = (a, out)" by fastforce
  have same: "ga_gateway a = ga_gateway (cl_app c)" "ga_apiKey a = ga_apiKey (cl_app c)"
    using gw_handle_forward [OF g keeps] by simp_all
  have "gw_handle h (in_gw i) (in_req i) ((cl_app c)\<lparr>ga_gateway := ?g\<rparr>) = (a\<lparr>ga_gateway := ?g\<rparr>, out)"
    using gw_handle_same [OF assms(2), of h "cl_app c" v ?g "in_gw i"] assms(3) own g
      owner_size [OF assms(1,3)] owner_size [OF cl_ping_ok [OF assms(1)] own]
    by (simp add: owner_def)
  then show ?thesis
    using assms(5) g same
    by (cases out) (auto simp: cl_request_def cl_forward_def cl_ping_def split: option.splits prod.splits)
qed

theorem failure_costs_one_shard_witness:
  "snd (cl_request length (\<lambda>_. demo_config) None (gw_input 10 GwSetR (key_body ''k'' ''v'')) (cl_ping length ''http://bb'' None demo_cluster))
     = Some (ok_response [(''ok'', JBool True), (''key'', JStr ''k''), (''ttl'', JNull)])"
proof -
  have "wants (in_req (gw_input 10 GwSetR (key_body ''k'' ''v''))) = Some (''k'', ''POST'', ''/set'', Some (key_body ''k'' ''v''))"
    by (simp add: wants_def gw_input_def key_body_def nullish_to_obj_def)
  from failure_costs_one_shard [OF demo_cluster_ok this demo_plain(2)
      _ demo_set_served(1) [OF demo_plain(2) _ demo_plain(1) demo_nodes(1) _ _ demo_key_ok(1)], of "''http://bb''"]
  show ?thesis by simp
qed

lemma down_and_up:
  assumes ok: "gw_ok h g" and m: "gw_health g = Some m" and u: "nodeFor h k0 (gw_router g) = Some u"
    and d: "distinct (map rp_hash (ring_points (gw_router g)))"
  shows "u \<notin> set (router_nodes (gw_router (gw_ping h u None g)))"
    and "nodeFor h k (gw_router (gw_ping h u (Some 200) (gw_ping h u None g))) = nodeFor h k (gw_router g)"
proof -
  let ?r = "gw_router g" and ?g1 = "gw_ping h u None g"
  have mir: "cr.mirrors h (believed_up g) ?r" using ok by (rule gw_mirrors)
  then have up: "jm_get m u = Some True" and mem: "u \<in> set (router_nodes ?r)"
    using cr.mirrors_route [OF mir u] m by (auto simp: believed_up_def cr.mirrors_def)
  have g1: "gw_health ?g1 = Some (jm_set u False m)" "gw_router ?g1 = removeNode u ?r"
    using m up by (simp_all add: gw_ping_def gw_checker_def gw_set_checker_def ping_result_def ping_ok_def)
  have r2: "gw_router (gw_ping h u (Some 200) ?g1) = addNode h u (removeNode u ?r)"
    using g1 by (simp add: gw_ping_def [of h u "Some 200"] gw_checker_def gw_set_checker_def ping_result_def ping_ok_def jm_get_set)
  show "u \<notin> set (router_nodes (gw_router ?g1))" by (simp add: g1(2) cr.members_leave)
  have ring: "router_ok h ?r" using mir by (simp add: cr.mirrors_def)
  then have "router_ok h (addNode h u (removeNode u ?r))" by (simp add: cr.good_join cr.good_leave)
  moreover have "set (router_nodes (addNode h u (removeNode u ?r))) = set (router_nodes ?r)"
    using mem by (auto simp: cr.members_join cr.members_leave)
  moreover have "virtualNodes (addNode h u (removeNode u ?r)) = virtualNodes ?r"
    by (simp add: addNode_def removeNode_def frame_simps)
  ultimately have "ring_points ?r = ring_points (addNode h u (removeNode u ?r))"
    using ring d by (intro ring_points_unique [of h]) (auto simp: router_ok_def router_nodes_def ring_nodes_def)
  then show "nodeFor h k (gw_router (gw_ping h u (Some 200) ?g1)) = nodeFor h k ?r"
    by (simp add: r2 nodeFor_def getNode_def)
qed

text \<open>C7: A node that comes back brings old values back: a key is written; its node misses a health
  check, without losing its contents; the key is written again, to the node that now owns
  it; the first node answers its next check. The key then reads as the first value: both
  writes were acknowledged, and the later one has disappeared.\<close>

theorem recovered_node_serves_old_value:
  assumes "cl_ok h c" and "gw_health (ga_gateway (cl_app c)) \<noteq> None"
    and "distinct (map rp_hash (ring_points (gw_router (ga_gateway (cl_app c)))))"
    and "owner h c k = Some u" and "k \<notin> {''.'', ''..''}"
    and "set_request (in_req w1) k v1 None" and "cl_request h cfs ip w1 c = (c1, Some r1)" and "res_status r1 = 200"
    and "set_request (in_req w2) k v2 None" and "cl_request h cfs ip w2 (cl_ping h u None c1) = (c2, Some r2)" and "res_status r2 = 200"
    and "gq_route (in_req g) = GwGetR k" and "ck_op (in_node w1) \<le> ck_op (in_node g)"
    and "cl_request h cfs ip g (cl_ping h u (Some 200) c2) = (c3, Some r3)" and "res_status r3 \<in> {200, 404}"
  shows "hit_response k v1 r3"
proof (rule set_served [OF assms(7,8,6)])
  fix u' ap ap'
  assume u': "owner h c k = Some u'" "cl_nodes c u' = Some ap" "cl_nodes c1 = (cl_nodes c)(u' := Some ap')"
    and st: "ap_store ap' = cache_set (ck_op (in_node w1)) k v1 None (ap_store ap)"
    and g1: "ga_gateway (cl_app c1) = ga_gateway (cl_app c)" and k: "k \<noteq> []"
  let ?g = "ga_gateway (cl_app c)"
  have u: "u' = u" using u'(1) assms(4) by simp
  obtain m where m: "gw_health ?g = Some m" using assms(2) by blast
  have ok: "gw_ok h ?g" "cache_ok (ap_store ap)" using assms(1) u'(2) by (auto simp: cl_ok_def app_ok_def)
  note again = down_and_up [OF ok(1) m _ assms(3), of k u] and own = assms(4) [unfolded owner_def]
  show ?thesis
  proof (rule set_served [OF assms(10,11,9)])
    fix v bp bp'
    assume v: "owner h (cl_ping h u None c1) k = Some v" "cl_nodes c2 = (cl_nodes (cl_ping h u None c1))(v := Some bp')"
      "ga_gateway (cl_app c2) = ga_gateway (cl_app (cl_ping h u None c1))"
    have "gw_ok h (gw_ping h u None ?g)" using cl_ping_ok [OF assms(1), of u None] by (simp add: cl_ok_def)
    then have "v \<in> set (router_nodes (gw_router (gw_ping h u None ?g)))"
      using v(1) gw_mirrors [of h "gw_ping h u None ?g"] cr.mirrors_route [of h "believed_up (gw_ping h u None ?g)" _ k v]
      by (auto simp: owner_def g1 cr.mirrors_def)
    then have "v \<noteq> u" using again(1) own by auto
    then have node: "cl_nodes (cl_ping h u (Some 200) c2) u = Some ap'" using v(2) u'(3) u by simp
    have owner: "owner h (cl_ping h u (Some 200) c2) k = Some u"
      using again(2) own v(3) g1 by (simp add: owner_def)
    have "visible (ck_op (in_node g)) (ap_store ap') k = Some (v1, None)"
      using visible_cache_set [OF ok(2) assms(13), of k v1 None] by (simp add: st fresh_view_not_due not_due_def deadline_def)
    from get_served [OF assms(14,12) _ assms(15) owner node this] show ?thesis using k assms(5) by simp
  qed
qed

theorem recovered_node_serves_old_value_witness:
  "\<exists>c1 c2. cl_request length (\<lambda>_. demo_config) None (gw_input 10 GwSetR (key_body ''k'' ''old'')) demo_cluster = (c1, Some (ok_response
        [(''ok'', JBool True), (''key'', JStr ''k''), (''ttl'', JNull)])) \<and>
     cl_request length (\<lambda>_. demo_config) None (gw_input 20 GwSetR (key_body ''k'' ''new'')) (cl_ping length ''http://a'' None c1) =
       (c2, Some (ok_response [(''ok'', JBool True), (''key'', JStr ''k''), (''ttl'', JNull)])) \<and>
     hit_response ''k'' ''old'' (the (snd (cl_request length (\<lambda>_. demo_config) None (gw_input 30 (GwGetR ''k'') JNull)
       (cl_ping length ''http://a'' (Some 200) c2))))"
proof -
  let ?req = "cl_request length (\<lambda>_. demo_config) None" and ?a = "''http://a''" and ?b = "''http://bb''"
  let ?w1 = "gw_input 10 GwSetR (key_body ''k'' ''old'')" and ?w2 = "gw_input 20 GwSetR (key_body ''k'' ''new'')"
    and ?g = "gw_input 30 (GwGetR ''k'') JNull" and ?ok = "ok_response [(''ok'', JBool True), (''key'', JStr ''k''), (''ttl'', JNull)]"
  have quiet: "\<not> changes_members (in_req ?w1)" "\<not> changes_members (in_req ?w2)" by (simp_all add: gw_input_def changes_members_def)
  have ping: "plain c \<Longrightarrow> plain (cl_ping length u r c)" for c u r by (simp add: plain_def cl_ping_ok)
  obtain c1 where w1: "?req ?w1 demo_cluster = (c1, Some ?ok)" "cl_app c1 = cl_app demo_cluster"
    and n1: "cl_nodes c1 ?b = Some (demo_app Primary [])" "\<exists>ap. cl_nodes c1 ?a = Some ap \<and> ap_limiter ap = None"
    using demo_set_served(1) [OF demo_plain(2) _ demo_plain(1) demo_nodes(1) _ _ demo_key_ok(1), of 10 "''old''"]
    by (auto simp: demo_nodes post_set_keeps)
  let ?p1 = "cl_ping length ?a None c1"
  have p1: "plain ?p1" by (rule ping [OF plain_request [OF demo_plain(1) w1(1) quiet(1) w1(2)]])
  have gwr: "ga_gateway (cl_app demo_cluster) = \<lparr>gw_router = demo_router, gw_health = Some [(?a, True), (?b, True)]\<rparr>"
    by (simp add: demo_cluster_def)
  have r1: "gw_router (ga_gateway (cl_app ?p1)) = removeNode ?a demo_router"
    by (simp add: w1(2) gwr gw_ping_def gw_checker_def gw_set_checker_def ping_result_def ping_ok_def)
  have own1: "owner length ?p1 ''k'' = Some ?b"
    using demo_removed by (simp only: owner_def r1)
  obtain c2 where w2: "?req ?w2 ?p1 = (c2, Some ?ok)" "cl_app c2 = cl_app ?p1" "cl_nodes c2 ?a = cl_nodes c1 ?a"
    using demo_set_served(1) [OF own1 _ p1 _ _ _ demo_key_ok(1), of "demo_app Primary []" 20 "''new''"] n1(1) by auto
  let ?p2 = "cl_ping length ?a (Some 200) c2"
  have p2: "plain ?p2" by (rule ping [OF plain_request [OF p1 w2(1) quiet(2) w2(2)]])
  have up: "cl_ok length demo_cluster" "gw_health (ga_gateway (cl_app demo_cluster)) \<noteq> None"
      "distinct (map rp_hash (ring_points (gw_router (ga_gateway (cl_app demo_cluster)))))"
    using demo_cluster_ok by (simp_all add: gwr demo_points)
  have own2: "owner length ?p2 ''k'' = Some ?a"
    using down_and_up(2) [of length "ga_gateway (cl_app demo_cluster)" _ "''k''" ?a "''k''"] up demo_plain(2)
    by (simp add: owner_def cl_ok_def w2(2) w1(2) gwr)
  obtain c3 r3 where g: "?req ?g ?p2 = (c3, Some r3)" "res_status r3 \<in> {200, 404}"
    using demo_get_served [OF own2 _ p2, of _ 30 JNull] n1(2) w2(3) by auto
  have "hit_response ''k'' ''old'' r3"
    by (rule recovered_node_serves_old_value [OF up demo_plain(2) _ _ w1(1) _ _ w2(1) _ _ _ g])
      (auto simp: set_request_def gw_input_def key_body_def)
  then show ?thesis using w1(1) w2(1) g(1) by auto
qed

section \<open>Keys that are path segments\<close>

text \<open>
  \<open>encodeURIComponent\<close> leaves the keys \<open>.\<close> and \<open>..\<close> as they are, and \<open>fetch\<close> resolves them as path
  segments: the gateway's \<open>GET\<close> and \<open>DELETE\<close> for them reach no handler of the node, although
  its \<open>POST /set\<close> stores them.
\<close>

lemma dot_keys_unreachable:
  assumes "k \<in> {''.'', ''..''}" and "gw_get h k g = Forward fw \<or> gw_delete h k g = Forward fw"
  shows "rq_route (proxied_request ak ip fw) = UnknownR"
proof -
  have "node_route ''GET'' (fetch_path (''/get/'' @ encodeURIComponent k)) = UnknownR \<and>
      node_route ''DELETE'' (fetch_path (''/delete/'' @ encodeURIComponent k)) = UnknownR"
    using assms(1) key_route [of k] by auto
  then show ?thesis
    using assms(2) by (auto simp: gw_get_def gw_delete_def proxied_request_def dest!: requireNode_Forward)
qed

end
