(* ===== verification/GatewayProcess.thy ===== *)
theory GatewayProcess
  imports ClusterSpec
begin

text \<open>
  The gateway process of \<open>src/network/gateway-server.ts\<close> as an event loop: the timers of the
  health checks and of the gossip, the requests they have in flight, the requests it serves
  and its shutdown, in any order. Binding the port and the terminal output are not modelled.
\<close>

section \<open>The event loop\<close>

datatype process_phase =
  Running
  | Closing \<comment> \<open>\<open>server.close\<close> was called: open connections are still served\<close>
  | Exited

record gateway_process =
  gp_app :: gateway_app
  gp_peers :: "jsstring list"
  gp_checking :: bool \<comment> \<open>the timer of \<open>startHealthChecks\<close> runs\<close>
  gp_syncing :: bool \<comment> \<open>the timer of \<open>startGatewaySync\<close> runs\<close>
  gp_pings :: "jsstring list" \<comment> \<open>nodes whose ping has not settled\<close>
  gp_exchanges :: "jsstring list" \<comment> \<open>peers whose exchange has not settled\<close>
  gp_phase :: process_phase

definition start_gateway_process :: "(jsstring \<Rightarrow> nat) \<Rightarrow> env \<Rightarrow> gateway_process" where
  "start_gateway_process h env =
     (let peers = peer_gateways (env ''INKCACHE_PEER_GATEWAYS'')
      in \<lparr>gp_app = new_gateway_app h env, gp_peers = peers, gp_checking = True, gp_syncing = (0 < length peers),
          gp_pings = [], gp_exchanges = [], gp_phase = Running\<rparr>)"

datatype gp_event =
  CheckTick
  | PingSettled jsstring "nat option" \<comment> \<open>\<open>None\<close>: no answer in time\<close>
  | SyncTick
  | SyncSettled jsstring "response option"
  | Served clock gateway_request
  | Signal \<comment> \<open>\<open>SIGINT\<close> or \<open>SIGTERM\<close>\<close>
  | Exit \<comment> \<open>the server has closed, or five seconds have passed\<close>

definition known_urls :: "gateway \<Rightarrow> jsstring list" where
  \<comment> \<open>\<open>health.keys()\<close>\<close>
  "known_urls g = (case gw_health g of None \<Rightarrow> [] | Some m \<Rightarrow> check_all_targets (gw_checker g m))"

definition sync_calls :: "gateway_process \<Rightarrow> (jsstring \<times> json) list" where
  \<comment> \<open>what a tick of the gossip sends, and to whom\<close>
  "sync_calls p = map (\<lambda>peer. (peer @ ''/cluster/sync'', sync_request (ga_gateway (gp_app p)))) (gp_peers p)"

fun gp_enabled :: "gateway_process \<Rightarrow> gp_event \<Rightarrow> bool" where
  "gp_enabled p CheckTick \<longleftrightarrow> gp_phase p \<noteq> Exited \<and> gp_checking p"
| "gp_enabled p (PingSettled u answer) \<longleftrightarrow> gp_phase p \<noteq> Exited \<and> u \<in> set (gp_pings p)"
| "gp_enabled p SyncTick \<longleftrightarrow> gp_phase p \<noteq> Exited \<and> gp_syncing p"
| "gp_enabled p (SyncSettled peer answer) \<longleftrightarrow> gp_phase p \<noteq> Exited \<and> peer \<in> set (gp_exchanges p)"
| "gp_enabled p (Served ck req) \<longleftrightarrow> gp_phase p \<noteq> Exited"
| "gp_enabled p Signal \<longleftrightarrow> gp_phase p \<noteq> Exited"
| "gp_enabled p Exit \<longleftrightarrow> gp_phase p = Closing"

definition gp_gateway :: "(gateway \<Rightarrow> gateway) \<Rightarrow> gateway_process \<Rightarrow> gateway_process" where
  "gp_gateway f p = p\<lparr>gp_app := (gp_app p)\<lparr>ga_gateway := f (ga_gateway (gp_app p))\<rparr>\<rparr>"

fun gp_step :: "(jsstring \<Rightarrow> nat) \<Rightarrow> gateway_process \<Rightarrow> gp_event \<Rightarrow> gateway_process" where
  "gp_step h p CheckTick = p\<lparr>gp_pings := gp_pings p @ known_urls (ga_gateway (gp_app p))\<rparr>"
| "gp_step h p (PingSettled u answer) = gp_gateway (gw_ping h u answer) (p\<lparr>gp_pings := remove1 u (gp_pings p)\<rparr>)"
| "gp_step h p SyncTick = p\<lparr>gp_exchanges := gp_exchanges p @ gp_peers p\<rparr>"
| "gp_step h p (SyncSettled peer answer) = gp_gateway (sync_answer h answer) (p\<lparr>gp_exchanges := remove1 peer (gp_exchanges p)\<rparr>)"
| "gp_step h p (Served ck req) = p\<lparr>gp_app := fst (gw_handle h ck req (gp_app p))\<rparr>"
| "gp_step h p Signal = p\<lparr>gp_checking := False, gp_syncing := False, gp_phase := Closing\<rparr>"
| "gp_step h p Exit = p\<lparr>gp_phase := Exited\<rparr>"

inductive gp_reach :: "(jsstring \<Rightarrow> nat) \<Rightarrow> env \<Rightarrow> gateway_process \<Rightarrow> bool" for h env where
  start: "gp_reach h env (start_gateway_process h env)"
| step: "gp_reach h env p \<Longrightarrow> gp_enabled p ev \<Longrightarrow> gp_reach h env (gp_step h p ev)"

inductive_cases gp_reachE: "gp_reach h env p"

fun gp_trace :: "(jsstring \<Rightarrow> nat) \<Rightarrow> gateway_process \<Rightarrow> gp_event list \<Rightarrow> bool" where
  "gp_trace h p [] = True"
| "gp_trace h p (ev # evs) \<longleftrightarrow> gp_enabled p ev \<and> gp_trace h (gp_step h p ev) evs"

definition gp_run :: "(jsstring \<Rightarrow> nat) \<Rightarrow> gateway_process \<Rightarrow> gp_event list \<Rightarrow> gateway_process" where
  "gp_run h p evs = foldl (gp_step h) p evs"

section \<open>What every event keeps\<close>

definition checked :: "gateway \<Rightarrow> bool" where
  "checked g \<longleftrightarrow> gw_health g \<noteq> None"

lemma register_checked: "checked g \<Longrightarrow> checked (gw_register h u g)"
  by (auto simp: checked_def gw_register_def gw_set_checker_def)

lemma deregister_checked: "checked g \<Longrightarrow> checked (gw_deregister u g)"
  by (auto simp: checked_def gw_deregister_def gw_set_checker_def)

lemma receive_checked: "checked g \<Longrightarrow> checked (receive_nodes h urls g)"
  unfolding receive_nodes_def by (induction urls arbitrary: g) (simp_all add: register_checked)

lemma sync_loop_checked: "checked g \<Longrightarrow> checked (fst (sync_loop h urls known g))"
  by (induction h urls known g rule: sync_loop.induct) (simp_all add: Let_def register_checked)

lemma dispatch_ok:
  assumes "gw_ok h g" and "checked g"
  shows "gw_ok h (fst (gw_dispatch h stamp req body g)) \<and> checked (fst (gw_dispatch h stamp req body g))"
proof -
  have "gw_ok h (fst (post_cluster_nodes h body g)) \<and> checked (fst (post_cluster_nodes h body g))"
    using assms by (auto simp: post_cluster_nodes_def Let_def inv_intros register_checked split: option.splits)
  moreover have "gw_ok h (fst (delete_cluster_nodes body g)) \<and> checked (fst (delete_cluster_nodes body g))"
    using assms by (auto simp: delete_cluster_nodes_def Let_def inv_intros deregister_checked split: option.splits)
  moreover have "gw_ok h (fst (post_cluster_sync h body g)) \<and> checked (fst (post_cluster_sync h body g))"
  proof -
    have "gw_ok h (fst (sync_loop h urls (set_of_list (known_nodes g)) g)) \<and> checked (fst (sync_loop h urls (set_of_list (known_nodes g)) g))" for urls
      using sync_loop_checked [OF assms(2)] sync_loop_believed [OF assms(1) _ prod.collapse [symmetric], of "set_of_list (known_nodes g)" urls] by simp
    then show ?thesis using assms by (auto simp: post_cluster_sync_def case_prod_unfold Let_def split: option.split json.split)
  qed
  ultimately show ?thesis using assms by (simp add: gw_dispatch_def split: gateway_route.splits)
qed

lemma handle_ok:
  assumes "gw_ok h (ga_gateway ga)" and "checked (ga_gateway ga)"
  shows "gw_ok h (ga_gateway (fst (gw_handle h ck req ga))) \<and> checked (ga_gateway (fst (gw_handle h ck req ga)))"
proof -
  have "gw_ok h (ga_gateway (fst (gw_after_limiter h s req a))) \<and> checked (ga_gateway (fst (gw_after_limiter h s req a)))"
    if "ga_gateway a = ga_gateway ga" for a s
    using that assms dispatch_ok [OF assms, of s req]
    by (auto simp: gw_after_limiter_def split: parsed_body.splits prod.splits)
      (metis fst_conv)+
  then show ?thesis using assms by (simp add: gw_handle_def split: option.splits prod.splits verdict.splits)
qed

lemma ping_ok_checked:
  assumes "gw_ok h g" and "checked g"
  shows "gw_ok h (gw_ping h u answer g) \<and> checked (gw_ping h u answer g)"
  using assms hc_ok_step [of h _ "HPing u answer"] by (auto simp: gw_ping_def gw_ok_def checked_def)

lemma sync_answer_ok:
  assumes "gw_ok h g" and "checked g"
  shows "gw_ok h (sync_answer h answer g) \<and> checked (sync_answer h answer g)"
  using assms receive_nodes_believed [OF assms(1)] receive_checked [OF assms(2)]
  by (simp add: sync_answer_def split: option.splits json.splits)

lemma start_checked: "checked (start_gateway h e)"
  by (simp add: start_gateway_def Let_def checked_def)

lemma gp_reach_ok: "gp_reach h env p \<Longrightarrow> gw_ok h (ga_gateway (gp_app p)) \<and> checked (ga_gateway (gp_app p))"
proof (induction rule: gp_reach.induct)
  case start
  then show ?case by (simp add: start_gateway_process_def Let_def new_gateway_app_def start_gateway_ok start_checked)
next
  case (step p ev)
  then show ?case by (cases ev) (simp_all add: gp_gateway_def ping_ok_checked sync_answer_ok handle_ok)
qed

section \<open>Properties\<close>

text \<open>C22: A gateway routes to healthy nodes for as long as it runs: in every state its process can
  reach - whatever nodes register and deregister, whatever peers gossip, however the checks
  answer and overlap, and whatever is requested meanwhile - every key is routed to a node that
  is known and was healthy when last checked, and is routed as long as there is such a node; and
  registration always finds the health checks wired.\<close>

theorem gateway_process_routes:
  assumes "gp_reach h env p" and "g = ga_gateway (gp_app p)"
  shows "(\<forall>key n. nodeFor h key (gw_router g) = Some n \<longrightarrow> believed_up g n \<and> n \<in> set (known_nodes g)) \<and>
    (\<forall>key n. believed_up g n \<longrightarrow> nodeFor h key (gw_router g) \<noteq> None) \<and> gw_health g \<noteq> None"
proof -
  have ok: "gw_ok h g" "checked g" using gp_reach_ok [OF assms(1)] assms(2) by simp_all
  have m: "cr.mirrors h (believed_up g) (gw_router g)" using gw_mirrors [OF ok(1)] .
  show ?thesis
    using cr.mirrors_route [OF m] cr.mirrors_total [OF m] ok(2) by (force simp: checked_def dest: believed_known)
qed

definition demo_gateway_env :: env where
  "demo_gateway_env = (\<lambda>_. None)(''INKCACHE_CLUSTER_NODES'' \<mapsto> ''a,b'')"

lemma demo_gateway_start:
  "gw_health (ga_gateway (gp_app (start_gateway_process len_hash demo_gateway_env))) = Some [(''a'', True), (''b'', True)]"
  "gp_checking (start_gateway_process len_hash demo_gateway_env)" "gp_phase (start_gateway_process len_hash demo_gateway_env) = Running"
proof -
  have n: "resolveClusterNodes (Some ''a,b'') = [''a'', ''b'']" by code_simp
  show "gw_health (ga_gateway (gp_app (start_gateway_process len_hash demo_gateway_env))) = Some [(''a'', True), (''b'', True)]"
    by (simp add: start_gateway_process_def new_gateway_app_def demo_gateway_env_def start_gateway_def n Let_def
        startHealthChecks_def jm_has_def)
qed (simp_all add: start_gateway_process_def Let_def)

theorem gateway_process_routes_witness:
  "nodeFor len_hash ''k'' (gw_router (ga_gateway (gp_app (gp_run len_hash (start_gateway_process len_hash demo_gateway_env)
     [CheckTick, PingSettled ''a'' None])))) = Some ''b''"
proof -
  let ?p0 = "start_gateway_process len_hash demo_gateway_env"
  let ?p1 = "gp_step len_hash ?p0 CheckTick"
  let ?p2 = "gp_step len_hash ?p1 (PingSettled ''a'' None)"
  let ?g = "ga_gateway (gp_app ?p2)"
  have "gp_enabled ?p0 CheckTick" by (simp add: demo_gateway_start)
  then have r1: "gp_reach len_hash demo_gateway_env ?p1" by (rule gp_reach.step [OF gp_reach.start])
  have "gp_enabled ?p1 (PingSettled ''a'' None)"
    by (simp add: demo_gateway_start known_urls_def gw_checker_def check_all_targets_def jm_keys_def)
  then have r2: "gp_reach len_hash demo_gateway_env ?p2" by (rule gp_reach.step [OF r1])
  note t = gateway_process_routes [OF r2 refl]
  have up: "believed_up ?g n \<longleftrightarrow> n = ''b''" for n
    by (simp add: gp_gateway_def gw_ping_def demo_gateway_start gw_checker_def ping_result_def ping_ok_def
        believed_up_def gw_set_checker_def jm_get_def jm_has_def)
  obtain n where "nodeFor len_hash ''k'' (gw_router ?g) = Some n" using t up by blast
  moreover from this have "n = ''b''" using t up by blast
  ultimately show ?thesis by (simp add: gp_run_def)
qed

definition in_flight_count :: "gateway_process \<Rightarrow> nat" where
  "in_flight_count p = length (gp_pings p) + length (gp_exchanges p)"

fun settles :: "gp_event \<Rightarrow> bool" where
  "settles (PingSettled u answer) = True"
| "settles (SyncSettled peer answer) = True"
| "settles _ = False"

definition stopped :: "gateway_process \<Rightarrow> bool" where
  "stopped p \<longleftrightarrow> \<not> gp_checking p \<and> \<not> gp_syncing p \<and> gp_phase p \<noteq> Running"

lemma stopped_step:
  assumes "stopped p" and "gp_enabled p ev"
  shows "stopped (gp_step h p ev) \<and> ev \<noteq> CheckTick \<and> ev \<noteq> SyncTick \<and>
    in_flight_count (gp_step h p ev) + (if settles ev then 1 else 0) = in_flight_count p"
  using assms
  by (cases ev) (auto simp: stopped_def gp_gateway_def in_flight_count_def length_remove1 split: if_splits
      dest: length_pos_if_in_set)

lemma stopped_trace: "stopped p \<Longrightarrow> gp_trace h p evs \<Longrightarrow> stopped (gp_run h p evs) \<and> CheckTick \<notin> set evs \<and> SyncTick \<notin> set evs \<and>
    in_flight_count (gp_run h p evs) + length (filter settles evs) = in_flight_count p"
proof (induction evs arbitrary: p)
  case (Cons ev evs)
  then show ?case using stopped_step [of p ev h] Cons.IH [of "gp_step h p ev"] by (auto simp: gp_run_def)
qed (simp add: gp_run_def)

definition drain :: "gateway_process \<Rightarrow> gp_event list" where
  \<comment> \<open>all that is in flight times out\<close>
  "drain p = map (\<lambda>u. PingSettled u None) (gp_pings p) @ map (\<lambda>peer. SyncSettled peer None) (gp_exchanges p)"

lemma gp_trace_append: "gp_trace h p (xs @ ys) \<longleftrightarrow> gp_trace h p xs \<and> gp_trace h (gp_run h p xs) ys"
  by (induction xs arbitrary: p) (auto simp: gp_run_def)

lemma drain_pings:
  "gp_phase p \<noteq> Exited \<Longrightarrow> gp_pings p = us \<Longrightarrow> gp_trace h p (map (\<lambda>u. PingSettled u None) us) \<and>
    gp_pings (gp_run h p (map (\<lambda>u. PingSettled u None) us)) = [] \<and>
    gp_exchanges (gp_run h p (map (\<lambda>u. PingSettled u None) us)) = gp_exchanges p \<and>
    gp_phase (gp_run h p (map (\<lambda>u. PingSettled u None) us)) = gp_phase p"
proof (induction us arbitrary: p)
  case (Cons u us)
  let ?p = "gp_step h p (PingSettled u None)"
  have "gp_phase ?p = gp_phase p" "gp_pings ?p = us" "gp_exchanges ?p = gp_exchanges p"
    using Cons.prems(2) by (simp_all add: gp_gateway_def)
  then show ?case using Cons.IH [of ?p] Cons.prems by (simp add: gp_run_def)
qed (simp add: gp_run_def)

lemma drain_exchanges:
  "gp_phase p \<noteq> Exited \<Longrightarrow> gp_exchanges p = us \<Longrightarrow> gp_trace h p (map (\<lambda>u. SyncSettled u None) us) \<and>
    gp_exchanges (gp_run h p (map (\<lambda>u. SyncSettled u None) us)) = [] \<and>
    gp_pings (gp_run h p (map (\<lambda>u. SyncSettled u None) us)) = gp_pings p"
proof (induction us arbitrary: p)
  case (Cons u us)
  let ?p = "gp_step h p (SyncSettled u None)"
  have "gp_phase ?p = gp_phase p" "gp_exchanges ?p = us" "gp_pings ?p = gp_pings p"
    using Cons.prems(2) by (simp_all add: gp_gateway_def)
  then show ?case using Cons.IH [of ?p] Cons.prems by (simp add: gp_run_def)
qed (simp add: gp_run_def)

lemma drained:
  assumes "gp_phase p \<noteq> Exited"
  shows "gp_trace h p (drain p) \<and> gp_pings (gp_run h p (drain p)) = [] \<and> gp_exchanges (gp_run h p (drain p)) = []"
proof -
  let ?p = "gp_run h p (map (\<lambda>u. PingSettled u None) (gp_pings p))"
  note a = drain_pings [OF assms refl, of h]
  then have b: "gp_phase ?p \<noteq> Exited" "gp_exchanges ?p = gp_exchanges p" using assms by simp_all
  have "gp_run h p (drain p) = gp_run h ?p (map (\<lambda>peer. SyncSettled peer None) (gp_exchanges p))"
    by (simp add: gp_run_def drain_def)
  then show ?thesis using a drain_exchanges [OF b, of h] by (simp add: drain_def gp_trace_append)
qed

text \<open>C40: A gateway's shutdown ends its background work: from the signal on no check and no
  exchange is started and neither timer ever runs again, whatever open connections still
  request; every answer that arrives settles one of those that were in flight, so there are
  at most as many, and after that many none is left. It never gets stuck on the way: as long
  as the process has not exited, all that is left can settle, and it can exit - it does not
  wait for them -; and when it has exited nothing happens any more.\<close>

theorem gateway_shutdown_drains:
  assumes "gp_phase p \<noteq> Exited" and "gp_trace h (gp_step h p Signal) evs" and "q = gp_run h (gp_step h p Signal) evs"
  shows "CheckTick \<notin> set evs \<and> SyncTick \<notin> set evs \<and> \<not> gp_checking q \<and> \<not> gp_syncing q \<and>
    length (gp_pings q) + length (gp_exchanges q) + length (filter settles evs) = length (gp_pings p) + length (gp_exchanges p) \<and>
    (if gp_phase q = Exited then \<forall>ev. \<not> gp_enabled q ev
     else gp_enabled q Exit \<and> gp_trace h q (drain q) \<and> gp_pings (gp_run h q (drain q)) = [] \<and> gp_exchanges (gp_run h q (drain q)) = [])"
proof -
  have "stopped (gp_step h p Signal)" by (simp add: stopped_def)
  from stopped_trace [OF this assms(2)] have s: "stopped q" "CheckTick \<notin> set evs" "SyncTick \<notin> set evs"
    "in_flight_count q + length (filter settles evs) = length (gp_pings p) + length (gp_exchanges p)"
    by (simp_all add: in_flight_count_def assms(3))
  have "\<not> gp_enabled q ev" if "gp_phase q = Exited" for ev using that by (cases ev) simp_all
  moreover have "gp_phase q = Closing" if "gp_phase q \<noteq> Exited" using that s(1) by (cases "gp_phase q") (simp_all add: stopped_def)
  ultimately show ?thesis using s drained [of q h] by (simp add: stopped_def in_flight_count_def)
qed

theorem gateway_shutdown_drains_witness:
  "\<not> gp_checking (gp_run len_hash (gp_step len_hash (gp_step len_hash (start_gateway_process len_hash demo_gateway_env) CheckTick) Signal)
     [PingSettled ''b'' (Some 200), Exit])"
proof -
  let ?p = "gp_step len_hash (start_gateway_process len_hash demo_gateway_env) CheckTick"
  have "gp_trace len_hash (gp_step len_hash ?p Signal) [PingSettled ''b'' (Some 200), Exit]"
    by (simp add: demo_gateway_start known_urls_def gw_checker_def check_all_targets_def jm_keys_def gp_gateway_def)
  moreover have "gp_phase ?p \<noteq> Exited" by (simp add: demo_gateway_start)
  ultimately show ?thesis using gateway_shutdown_drains [OF _ _ refl] by blast
qed

end
