(* ===== verification/HttpServer.thy ===== *)
theory HttpServer
  imports GatewayProcess
begin

text \<open>
  What surrounds the handlers of \<open>src/network/app.ts\<close> and \<open>gateway.ts\<close>: the tables of routes in the
  order they are registered, the security headers, CORS, and the answer as it is sent. How a
  pattern matches a path (Express) and what the \<open>cors\<close> package answers are parameters; what
  is relied on of them is \<open>matches_segments\<close> and \<open>cors_documented\<close>.
\<close>

section \<open>Requests and routing\<close>

record wire_request =
  wq_method :: jsstring
  wq_path :: jsstring
  wq_top :: "jsstring option" \<comment> \<open>\<open>req.query.top\<close> where it is a string\<close>
  wq_headers :: headers
  wq_ip :: "jsstring option"
  wq_body :: parsed_body

datatype path_match =
  NoMatch
  | Undecodable \<comment> \<open>the pattern fits, its parameter is no valid percent encoding\<close>
  | Matched jsstring \<comment> \<open>with the decoded parameter; empty where the pattern has none\<close>

type_synonym path_matcher = "jsstring \<Rightarrow> jsstring \<Rightarrow> path_match"

type_synonym 'r route_table = "(jsstring \<times> jsstring \<times> (jsstring \<Rightarrow> 'r)) list"

definition handles :: "jsstring \<Rightarrow> jsstring \<Rightarrow> bool" where
  \<comment> \<open>\<open>app.get\<close> also serves \<open>HEAD\<close>\<close>
  "handles registered m \<longleftrightarrow> m = registered \<or> m = ''HEAD'' \<and> registered = ''GET''"

fun find_route :: "path_matcher \<Rightarrow> 'r \<Rightarrow> 'r \<Rightarrow> jsstring \<Rightarrow> jsstring \<Rightarrow> 'r route_table \<Rightarrow> 'r" where
  \<comment> \<open>a parameter that does not decode sends the request to the last error handler\<close>
  "find_route pm unknown bad m path [] = unknown"
| "find_route pm unknown bad m path ((registered, pattern, mk) # table) = (case pm pattern path of
       NoMatch \<Rightarrow> find_route pm unknown bad m path table
     | Undecodable \<Rightarrow> bad
     | Matched param \<Rightarrow> if handles registered m then mk param else find_route pm unknown bad m path table)"

definition body_json :: "parsed_body \<Rightarrow> json option" where
  "body_json b = (case b of Parsed body \<Rightarrow> body | _ \<Rightarrow> None)"

definition node_routes :: "jsstring option \<Rightarrow> replicate_body \<Rightarrow> route route_table" where
  "node_routes topN op =
     [(''POST'', ''/set'', \<lambda>_. SetR),
      (''GET'', ''/get/:key'', GetR),
      (''GET'', ''/predict/:key'', \<lambda>key. PredictR key topN),
      (''DELETE'', ''/delete/:key'', DeleteR),
      (''POST'', ''/invalidate'', \<lambda>_. InvalidateR),
      (''GET'', ''/keys'', \<lambda>_. KeysR),
      (''GET'', ''/keys/stats'', \<lambda>_. KeysStatsR),
      (''GET'', ''/snapshot'', \<lambda>_. SnapshotR),
      (''POST'', ''/restore'', \<lambda>_. RestoreR),
      (''POST'', ''/flush'', \<lambda>_. FlushR),
      (''POST'', ''/internal/replicate'', \<lambda>_. ReplicateR op),
      (''POST'', ''/promote'', \<lambda>_. PromoteR),
      (''POST'', ''/election/request-vote'', \<lambda>_. RequestVoteR),
      (''POST'', ''/election/leader'', \<lambda>_. LeaderR),
      (''GET'', ''/metrics'', \<lambda>_. MetricsR),
      (''GET'', ''/metrics/history'', \<lambda>_. HistoryR),
      (''GET'', ''/version'', \<lambda>_. VersionR),
      (''GET'', ''/health'', \<lambda>_. HealthR)]"

definition gateway_routes :: "gateway_route route_table" where
  "gateway_routes =
     [(''POST'', ''/set'', \<lambda>_. GwSetR),
      (''GET'', ''/get/:key'', GwGetR),
      (''DELETE'', ''/delete/:key'', GwDeleteR),
      (''GET'', ''/cluster/route/:key'', GwRouteR),
      (''GET'', ''/cluster/nodes'', \<lambda>_. GwNodesR),
      (''POST'', ''/cluster/nodes'', \<lambda>_. GwRegisterR),
      (''DELETE'', ''/cluster/nodes'', \<lambda>_. GwDeregisterR),
      (''POST'', ''/cluster/sync'', \<lambda>_. GwSyncR),
      (''GET'', ''/health'', \<lambda>_. GwHealthR)]"

definition node_request :: "path_matcher \<Rightarrow> wire_request \<Rightarrow> http_request" where
  \<comment> \<open>an ill-typed body of \<open>/internal/replicate\<close> only matters to its handler: see \<open>outside_model\<close>\<close>
  "node_request pm wq = (let op = (case read_replicate_body (body_json (wq_body wq)) of None \<Rightarrow> UnknownOp | Some op \<Rightarrow> op)
     in \<lparr>rq_route = find_route pm UnknownR BadPathR (wq_method wq) (wq_path wq) (node_routes (wq_top wq) op),
         rq_path = wq_path wq, rq_headers = wq_headers wq, rq_ip = wq_ip wq, rq_body = wq_body wq\<rparr>)"

definition outside_model :: "app_config \<Rightarrow> clock \<Rightarrow> wire_request \<Rightarrow> http_request \<Rightarrow> node_app \<Rightarrow> bool" where
  \<comment> \<open>the handler of \<open>/internal/replicate\<close> is reached with fields of other types than \<open>ReplicationOp\<close> has\<close>
  "outside_model cf ck wq req ap \<longleftrightarrow> read_replicate_body (body_json (wq_body wq)) = None \<and>
     (case rq_route req of ReplicateR op \<Rightarrow> True | _ \<Rightarrow> False) \<and>
     (case app_limited ck req ap of Inl _ \<Rightarrow> False | Inr _ \<Rightarrow> createAuthMiddleware (cf_apiKey cf) (rq_path req) (rq_headers req))"

definition gateway_request_of :: "path_matcher \<Rightarrow> wire_request \<Rightarrow> gateway_request" where
  "gateway_request_of pm wq = \<lparr>gq_route = find_route pm GwUnknownR GwBadPathR (wq_method wq) (wq_path wq) gateway_routes,
     gq_path = wq_path wq, gq_headers = wq_headers wq, gq_ip = wq_ip wq, gq_body = wq_body wq\<rparr>"

section \<open>Headers and answers\<close>

type_synonym out_headers = "(jsstring, jsstring) jsmap"

record wire_response =
  wp_status :: nat
  wp_headers :: out_headers
  wp_body :: "json option" \<comment> \<open>\<open>None\<close>: empty, as for \<open>HEAD\<close> and a preflight\<close>

type_synonym cors_package = "jsstring list \<Rightarrow> wire_request \<Rightarrow> out_headers \<Rightarrow> out_headers \<times> bool"
  \<comment> \<open>the headers it has set, and whether it has ended the response itself\<close>

definition security_headers :: "out_headers \<Rightarrow> out_headers" where
  "security_headers hs = jm_set ''Referrer-Policy'' ''no-referrer'' (jm_set ''X-Frame-Options'' ''DENY''
     (jm_set ''X-Content-Type-Options'' ''nosniff'' hs))"

definition limiter_header :: "rate_limiter option \<Rightarrow> time_ms \<Rightarrow> wire_request \<Rightarrow> out_headers \<Rightarrow> out_headers" where
  "limiter_header limiter now wq hs = (case limiter of
       None \<Rightarrow> hs
     | Some rl \<Rightarrow> (case snd (limit_request now (wq_path wq) (wq_ip wq) rl) of
           Pass \<Rightarrow> hs
         | Reject seconds \<Rightarrow> jm_set ''Retry-After'' (show_nat (nat seconds)) hs))"

definition send_response :: "wire_request \<Rightarrow> out_headers \<Rightarrow> response \<Rightarrow> wire_response" where
  "send_response wq hs r = \<lparr>wp_status = res_status r, wp_headers = hs,
     wp_body = (if wq_method wq = ''HEAD'' then None else Some (res_body r))\<rparr>"

definition preflight_response :: "out_headers \<Rightarrow> wire_response" where
  "preflight_response hs = \<lparr>wp_status = 204, wp_headers = hs, wp_body = None\<rparr>"

definition node_http :: "path_matcher \<Rightarrow> cors_package \<Rightarrow> jsstring list \<Rightarrow> app_config \<Rightarrow> clock \<Rightarrow> wire_request \<Rightarrow> node_app \<Rightarrow>
    (node_app \<times> wire_response \<times> (jsstring \<times> ReplicationOp) list) option" where
  "node_http pm cors origins cf ck wq ap = (case cors origins wq (security_headers []) of
       (hs, True) \<Rightarrow> Some (ap, preflight_response hs, [])
     | (hs, False) \<Rightarrow> let req = node_request pm wq in
         if outside_model cf ck wq req ap then None
         else (case app_handle cf ck req ap of (ap', r, ops) \<Rightarrow>
             Some (ap', send_response wq (limiter_header (ap_limiter ap) (ck_now ck) wq hs) r, ops)))"

definition gateway_http :: "path_matcher \<Rightarrow> cors_package \<Rightarrow> jsstring list \<Rightarrow> (jsstring \<Rightarrow> nat) \<Rightarrow> clock \<Rightarrow> wire_request \<Rightarrow>
    gateway_app \<Rightarrow> gateway_app \<times> (wire_response + outcome)" where
  \<comment> \<open>\<open>Inr\<close>: the request is forwarded, or left without an answer\<close>
  "gateway_http pm cors origins h ck wq ga = (case cors origins wq [] of
       (hs, True) \<Rightarrow> (ga, Inl (preflight_response hs))
     | (hs, False) \<Rightarrow> (case gw_handle h ck (gateway_request_of pm wq) ga of
           (ga', Gateway.Reply r) \<Rightarrow> (ga', Inl (send_response wq (limiter_header (ga_limiter ga) (ck_now ck) wq hs) r))
         | (ga', out) \<Rightarrow> (ga', Inr out)))"

section \<open>What is relied on of Express and of the CORS package\<close>

definition path_segments :: "jsstring \<Rightarrow> jsstring list" where
  \<comment> \<open>of a path that starts with a slash, without a trailing slash\<close>
  "path_segments path = (let ss = split_on CHR ''/'' (tl path) in if 1 < length ss \<and> last ss = [] then butlast ss else ss)"

definition lower_char :: "char \<Rightarrow> char" where
  "lower_char c = (let n = of_char c :: nat in if 65 \<le> n \<and> n \<le> 90 then char_of (n + 32) else c)"

definition is_param :: "jsstring \<Rightarrow> bool" where
  "is_param s \<longleftrightarrow> s \<noteq> [] \<and> hd s = CHR '':''"

definition segment_fits :: "jsstring \<Rightarrow> jsstring \<Rightarrow> bool" where
  "segment_fits pat s \<longleftrightarrow> is_param pat \<or> map lower_char pat = map lower_char s"

definition fits :: "jsstring \<Rightarrow> jsstring \<Rightarrow> bool" where
  "fits pattern path \<longleftrightarrow> list_all2 segment_fits (path_segments pattern) (path_segments path)"

definition has_param :: "jsstring \<Rightarrow> bool" where
  "has_param pattern \<longleftrightarrow> list_ex is_param (path_segments pattern)"

definition matches_segments :: "path_matcher \<Rightarrow> bool" where
  \<comment> \<open>a pattern matches segment by segment, a parameter any segment and a word itself in any case;
    only a parameter can fail to decode\<close>
  "matches_segments pm \<longleftrightarrow> (\<forall>pattern path. (pm pattern path \<noteq> NoMatch \<longrightarrow> fits pattern path) \<and>
     (pm pattern path = Undecodable \<longrightarrow> has_param pattern))"

definition cors_header :: "jsstring \<Rightarrow> bool" where
  "cors_header n \<longleftrightarrow> take 15 n = ''Access-Control-'' \<or> n \<in> {''Vary'', ''Content-Length''}"

definition cors_documented :: "cors_package \<Rightarrow> bool" where
  \<comment> \<open>it sets only headers of its own and ends only preflights\<close>
  "cors_documented cors \<longleftrightarrow> (\<forall>origins wq hs. (\<forall>n. \<not> cors_header n \<longrightarrow> jm_get (fst (cors origins wq hs)) n = jm_get hs n) \<and>
     (snd (cors origins wq hs) \<longrightarrow> wq_method wq = ''OPTIONS''))"

section \<open>The tables do not depend on their order\<close>

definition claims :: "path_matcher \<Rightarrow> jsstring \<Rightarrow> jsstring \<Rightarrow> jsstring \<times> jsstring \<times> (jsstring \<Rightarrow> 'r) \<Rightarrow> bool" where
  "claims pm m path e = (case e of (registered, pattern, mk) \<Rightarrow>
     (case pm pattern path of NoMatch \<Rightarrow> False | Undecodable \<Rightarrow> True | Matched _ \<Rightarrow> handles registered m))"

definition target :: "path_matcher \<Rightarrow> 'r \<Rightarrow> jsstring \<Rightarrow> jsstring \<times> jsstring \<times> (jsstring \<Rightarrow> 'r) \<Rightarrow> 'r" where
  "target pm bad path e = (case e of (registered, pattern, mk) \<Rightarrow>
     (case pm pattern path of Matched param \<Rightarrow> mk param | _ \<Rightarrow> bad))"

lemma find_route_find:
  "find_route pm unknown bad m path table = (case find (claims pm m path) table of
     None \<Rightarrow> unknown | Some e \<Rightarrow> target pm bad path e)"
  by (induction pm unknown bad m path table rule: find_route.induct)
    (auto simp: claims_def target_def split: path_match.splits)

lemma find_route_claimed:
  assumes "find_route pm unknown bad m path table \<noteq> unknown"
  obtains e where "e \<in> set table" "claims pm m path e" "find_route pm unknown bad m path table = target pm bad path e"
proof (cases "find (claims pm m path) table")
  case None
  then show ?thesis using assms by (simp add: find_route_find)
next
  case (Some e)
  then show ?thesis using find_SomeD [OF Some] by (intro that [of e]) (simp_all add: find_route_find)
qed

lemma find_unique:
  assumes "\<And>x y. x \<in> set xs \<Longrightarrow> y \<in> set xs \<Longrightarrow> P x \<Longrightarrow> P y \<Longrightarrow> x = y" and "set ys = set xs"
  shows "find P ys = find P xs"
proof (cases "find P xs")
  case None
  then have "find P ys = None" using assms(2) by (simp add: find_None_iff)
  then show ?thesis using None by simp
next
  case (Some x)
  then have x: "x \<in> set xs" "P x" using find_SomeD by fast+
  then obtain y where y: "find P ys = Some y" using assms(2) find_None_iff [of P ys] by (cases "find P ys") auto
  then have "y \<in> set xs" "P y" using assms(2) find_SomeD by fast+
  then show ?thesis using x y Some assms(1) by metis
qed

definition overlap :: "jsstring \<Rightarrow> jsstring \<Rightarrow> bool" where
  \<comment> \<open>some path fits both\<close>
  "overlap p q \<longleftrightarrow> list_all2 (\<lambda>a b. is_param a \<or> is_param b \<or> map lower_char a = map lower_char b) (path_segments p) (path_segments q)"

definition apart :: "jsstring \<times> jsstring \<Rightarrow> jsstring \<times> jsstring \<Rightarrow> bool" where
  "apart e f \<longleftrightarrow> fst e \<noteq> ''HEAD'' \<and> fst f \<noteq> ''HEAD'' \<and>
     (overlap (snd e) (snd f) \<longrightarrow> fst e \<noteq> fst f \<and> \<not> has_param (snd e) \<and> \<not> has_param (snd f))"

definition registration :: "jsstring \<times> jsstring \<times> (jsstring \<Rightarrow> 'r) \<Rightarrow> jsstring \<times> jsstring" where
  "registration e = (fst e, fst (snd e))"

lemma fits_overlap: "fits p path \<Longrightarrow> fits q path \<Longrightarrow> overlap p q"
  unfolding fits_def overlap_def segment_fits_def
  by (erule list_all2_trans [of _ "\<lambda>b a. is_param a \<or> map lower_char a = map lower_char b", rotated])
    (auto simp: list_all2_conv_all_nth)

lemma apart_claims:
  assumes "matches_segments pm" and "claims pm m path e" and "claims pm m path f" and "apart (registration e) (registration f)"
  shows False
proof -
  obtain m1 p1 k1 m2 p2 k2 where e: "e = (m1, p1, k1)" "f = (m2, p2, k2)" by (metis prod_cases3)
  have "pm p1 path \<noteq> NoMatch" "pm p2 path \<noteq> NoMatch" using assms(2,3) by (auto simp: e claims_def)
  then have "overlap p1 p2" using assms(1) by (auto simp: matches_segments_def intro: fits_overlap)
  with assms(4) have "m1 \<noteq> m2" "\<not> has_param p1" "\<not> has_param p2" "m1 \<noteq> ''HEAD''" "m2 \<noteq> ''HEAD''"
    by (simp_all add: apart_def registration_def e)
  moreover from this have "pm p1 path \<noteq> Undecodable" "pm p2 path \<noteq> Undecodable"
    using assms(1) by (auto simp: matches_segments_def)
  ultimately show False using assms(2,3) by (auto simp: e claims_def handles_def split: path_match.splits)
qed

lemma distinct_table:
  assumes "matches_segments pm" and "sorted_wrt apart (map registration table)"
    and "e \<in> set table" and "f \<in> set table" and "claims pm m path e" and "claims pm m path f"
  shows "e = f"
proof (rule ccontr)
  assume "e \<noteq> f"
  have "apart (registration e) (registration f) \<or> apart (registration f) (registration e)"
    using assms(2-4) \<open>e \<noteq> f\<close> by (induction table) auto
  then show False using apart_claims [OF assms(1,5,6)] apart_claims [OF assms(1,6,5)] by blast
qed

lemma node_table_apart: "sorted_wrt apart (map registration (node_routes topN op))"
proof -
  have "map registration (node_routes topN op) = map registration (node_routes None NoOp)"
    by (simp add: node_routes_def registration_def)
  moreover have "sorted_wrt apart (map registration (node_routes None NoOp))" by code_simp
  ultimately show ?thesis by simp
qed

lemma gateway_table_apart: "sorted_wrt apart (map registration gateway_routes)"
  by code_simp

lemma find_route_entry:
  assumes "matches_segments pm" and "sorted_wrt apart (map registration table)" and "(registered, pattern, mk) \<in> set table"
    and "handles registered m" and "pm pattern path = Matched param" and "set table' = set table"
  shows "find_route pm unknown bad m path table' = mk param"
proof -
  have c: "claims pm m path (registered, pattern, mk)" using assms(4,5) by (simp add: claims_def)
  have "find (claims pm m path) table' = find (claims pm m path) table"
    by (rule find_unique [OF distinct_table [OF assms(1,2)] assms(6)])
  moreover obtain e where e: "find (claims pm m path) table = Some e"
    using c assms(3) find_None_iff [of "claims pm m path" table] by (cases "find (claims pm m path) table") auto
  moreover have "e = (registered, pattern, mk)"
    using distinct_table [OF assms(1,2) _ assms(3) _ c] find_SomeD [OF e] by blast
  ultimately show ?thesis by (simp add: find_route_find target_def assms(5))
qed

definition plain_match :: path_matcher where
  \<comment> \<open>a matcher for literal paths and one decoded parameter\<close>
  "plain_match pattern path =
     (if fits pattern path
      then (case filter (\<lambda>(p, s). is_param p) (zip (path_segments pattern) (path_segments path)) of
          [] \<Rightarrow> Matched []
        | (_, s) # _ \<Rightarrow> (case decodeURIComponent s of None \<Rightarrow> Undecodable | Some key \<Rightarrow> Matched key))
      else NoMatch)"

lemma plain_match_segments: "matches_segments plain_match"
  unfolding matches_segments_def
proof (intro allI conjI impI)
  fix pattern path
  show "fits pattern path" if "plain_match pattern path \<noteq> NoMatch"
    using that by (simp add: plain_match_def split: if_splits)
  assume "plain_match pattern path = Undecodable"
  then have "filter (\<lambda>(p, s). is_param p) (zip (path_segments pattern) (path_segments path)) \<noteq> []"
    by (auto simp: plain_match_def split: if_splits)
  then obtain p s where "(p, s) \<in> set (zip (path_segments pattern) (path_segments path))" "is_param p"
    by (auto simp: filter_empty_conv)
  then show "has_param pattern" by (auto simp: has_param_def list_ex_iff dest: set_zip_leftD)
qed

definition plain_cors :: cors_package where
  "plain_cors origins wq hs = (case wq_headers wq ''origin'' of
       Some origin \<Rightarrow> (if origin \<in> set origins then jm_set ''Access-Control-Allow-Origin'' origin hs else hs)
     | None \<Rightarrow> hs, wq_method wq = ''OPTIONS'')"

lemma plain_cors_documented: "cors_documented plain_cors"
  by (auto simp: cors_documented_def plain_cors_def cors_header_def jm_get_set split: option.splits)

section \<open>Properties\<close>

text \<open>No registration shadows another, in either app: whatever Express makes of a path,
  segment by segment, a request whose method and path fit a registered route reaches that
  route's handler with the decoded parameter, in whatever order the routes are registered.\<close>

lemma every_route_reachable:
  assumes "matches_segments pm"
  shows "((registered, pattern, mk) \<in> set (node_routes topN op) \<and> handles registered m \<and> pm pattern path = Matched param \<and>
      set table = set (node_routes topN op) \<longrightarrow> find_route pm UnknownR BadPathR m path table = mk param) \<and>
    ((registered, pattern, mk') \<in> set gateway_routes \<and> handles registered m \<and> pm pattern path = Matched param \<and>
      set table' = set gateway_routes \<longrightarrow> find_route pm GwUnknownR GwBadPathR m path table' = mk' param)"
  by (intro conjI impI; elim conjE)
    (rule find_route_entry [OF assms node_table_apart] find_route_entry [OF assms gateway_table_apart], assumption+)+

lemma every_route_reachable_witness:
  "find_route plain_match UnknownR BadPathR ''HEAD'' ''/Keys/stats/'' (rev (node_routes None NoOp)) = KeysStatsR \<and>
   find_route plain_match GwUnknownR GwBadPathR ''GET'' ''/cluster/route/a%20b'' (rev gateway_routes) = GwRouteR ''a b''"
proof -
  have "(''GET'', ''/keys/stats'', \<lambda>_. KeysStatsR) \<in> set (node_routes None NoOp)" by (simp add: node_routes_def)
  moreover have "plain_match ''/keys/stats'' ''/Keys/stats/'' = Matched []" by code_simp
  moreover have "(''GET'', ''/cluster/route/:key'', GwRouteR) \<in> set gateway_routes" by (simp add: gateway_routes_def)
  moreover have "plain_match ''/cluster/route/:key'' ''/cluster/route/a%20b'' = Matched ''a b''" by code_simp
  moreover have "handles ''GET'' ''HEAD''" "handles ''GET'' ''GET''" by (simp_all add: handles_def)
  ultimately show ?thesis
    using every_route_reachable [OF plain_match_segments, of "''GET''" "''/keys/stats''" "\<lambda>_. KeysStatsR" None NoOp "''HEAD''" "''/Keys/stats/''" "[]"]
      every_route_reachable [OF plain_match_segments, of "''GET''" "''/cluster/route/:key''" "\<lambda>_. UnknownR" None NoOp "''GET''"
        "''/cluster/route/a%20b''" "''a b''" "[]" GwRouteR] by simp
qed

text \<open>C39: Everything a node sends carries the three security headers with their values -
  preflights, throttled, unauthorised and malformed requests, unknown paths and errors
  included - and none announces the stack.\<close>

theorem every_answer_hardened:
  assumes "cors_documented cors" and "node_http pm cors origins cf ck wq ap = Some (ap', r, ops)"
  shows "jm_get (wp_headers r) ''X-Content-Type-Options'' = Some ''nosniff'' \<and> jm_get (wp_headers r) ''X-Frame-Options'' = Some ''DENY'' \<and>
    jm_get (wp_headers r) ''Referrer-Policy'' = Some ''no-referrer'' \<and> jm_get (wp_headers r) ''X-Powered-By'' = None"
proof -
  obtain hs ended where c: "cors origins wq (security_headers []) = (hs, ended)" by force
  have k: "jm_get hs n = jm_get (security_headers []) n" if "\<not> cors_header n" for n
    using assms(1) that c by (auto simp: cors_documented_def dest!: spec [of _ origins] spec [of _ wq] spec [of _ "security_headers []"])
  have l: "jm_get (limiter_header l t wq hs) n = jm_get hs n" if "n \<noteq> ''Retry-After''" for l t n
    using that by (simp add: limiter_header_def jm_get_set split: option.splits verdict.splits)
  have "wp_headers r \<in> {hs, limiter_header (ap_limiter ap) (ck_now ck) wq hs}"
    using assms(2) c by (cases ended) (auto simp: node_http_def preflight_response_def send_response_def Let_def split: option.splits prod.splits if_splits)
  then have "jm_get (wp_headers r) n = jm_get (security_headers []) n" if "\<not> cors_header n" "n \<noteq> ''Retry-After''" for n
    using k l that by auto
  then show ?thesis by (simp add: cors_header_def security_headers_def jm_get_set)
qed

theorem every_answer_hardened_witness:
  "map_option (\<lambda>(_, r, _). (wp_status r, jm_get (wp_headers r) ''X-Frame-Options''))
     (node_http plain_match plain_cors DEFAULT_ORIGINS demo_config (at_time 5)
       \<lparr>wq_method = ''OPTIONS'', wq_path = ''/set'', wq_top = None, wq_headers = (\<lambda>_. None), wq_ip = None, wq_body = Parsed None\<rparr>
       (demo_app Primary [])) = Some (204, Some ''DENY'')"
proof -
  let ?wq = "\<lparr>wq_method = ''OPTIONS'', wq_path = ''/set'', wq_top = None, wq_headers = (\<lambda>_. None), wq_ip = None, wq_body = Parsed None\<rparr>"
  have "node_http plain_match plain_cors DEFAULT_ORIGINS demo_config (at_time 5) ?wq (demo_app Primary []) =
      Some (demo_app Primary [], preflight_response (security_headers []), [])"
    by (simp add: node_http_def plain_cors_def)
  with every_answer_hardened [OF plain_cors_documented this] show ?thesis by (simp add: preflight_response_def)
qed

lemma health_fits: "\<forall>(registered, pattern, mk) \<in> set (node_routes topN op). fits pattern ''/health'' \<longrightarrow> pattern = ''/health''"
proof -
  have "list_all (\<lambda>(m, p). fits p ''/health'' \<longrightarrow> p = ''/health'') (map registration (node_routes None NoOp))" by code_simp
  moreover have "map registration (node_routes topN op) = map registration (node_routes None NoOp)"
    by (simp add: node_routes_def registration_def)
  ultimately have "list_all (\<lambda>(m, p). fits p ''/health'' \<longrightarrow> p = ''/health'') (map registration (node_routes topN op))" by simp
  then show ?thesis by (auto simp: list_all_iff registration_def)
qed

lemma health_route:
  assumes "matches_segments pm"
  shows "find_route pm UnknownR BadPathR m ''/health'' (node_routes topN op) \<in> {UnknownR, HealthR}"
proof (rule ccontr)
  assume n: "\<not> ?thesis"
  then obtain e where e: "e \<in> set (node_routes topN op)" "claims pm m ''/health'' e"
    and t: "find_route pm UnknownR BadPathR m ''/health'' (node_routes topN op) = target pm BadPathR ''/health'' e"
    by (metis find_route_claimed insertCI)
  obtain registered pattern mk where d: "e = (registered, pattern, mk)" by (rule prod_cases3)
  have "pm pattern ''/health'' \<noteq> NoMatch" using e(2) by (auto simp: d claims_def)
  then have p: "pattern = ''/health''" using assms health_fits e(1) by (fastforce simp: d matches_segments_def)
  then have mk: "mk = (\<lambda>_. HealthR)" using e(1) by (auto simp: d node_routes_def)
  have "\<not> has_param ''/health''" by code_simp
  then have "pm pattern ''/health'' \<noteq> Undecodable" using assms p by (auto simp: matches_segments_def)
  then show False using n t e(2) by (auto simp: d mk target_def claims_def split: path_match.splits)
qed

definition health_readout :: "app_config \<Rightarrow> clock \<Rightarrow> node_app \<Rightarrow> json" where
  \<comment> \<open>all that \<open>/health\<close> tells anyone who asks\<close>
  "health_readout cf ck ap = JObj (
     [(''status'', JStr ''ok''), (''node'', JStr (cf_nodeId cf)),
      (''role'', JStr (case nr_role (ap_role ap) of Primary \<Rightarrow> ''primary'' | Replica \<Rightarrow> ''replica'')),
      (''uptimeSec'', JNum (Fin (uptimeSec (ck_now ck) (ap_metrics ap)))),
      (''keys'', json_nat (length (entries (ap_store ap)))), (''timestamp'', JStr (ck_iso ck))] @
     (if nr_role (ap_role ap) = Replica then (case ap_monitor ap of
          None \<Rightarrow> []
        | Some m \<Rightarrow> [(''primaryHealthy'', JBool (pm_healthy m)), (''primaryConsecutiveFailures'', json_nat (pm_failures m))])
      else []))"

definition refusal :: "wire_request \<Rightarrow> nat \<times> json \<Rightarrow> bool" where
  \<comment> \<open>the answers that depend on nothing but the request\<close>
  "refusal wq a \<longleftrightarrow> a \<in> {(400, JObj [(''error'', JStr ''malformed JSON body'')]),
     (404, JObj [(''error'', JStr ''not found''), (''path'', JStr (wq_path wq))]),
     (413, JObj [(''error'', JStr ''request body too large (max 64kb)'')]),
     (500, JObj [(''error'', JStr ''internal server error'')])}"

lemma get_health_readout: "get_health cf ck ap = (ap, \<lparr>res_status = 200, res_body = health_readout cf ck ap\<rparr>, [])"
  by (cases "nr_role (ap_role ap)"; cases "ap_monitor ap")
    (simp_all add: get_health_def health_readout_def reply_def ok_response_def role_json_def cache_size_def jm_size_def
      isPrimaryHealthy_def consecutiveFailures_def)

lemma health_answer:
  assumes "rq_path req = ''/health''" and "rq_route req \<in> {UnknownR, HealthR}" and "app_handle cf ck req ap = (ap', r, ops)"
    and "rq_path req = wq_path wq"
  shows "ap' = ap \<and> ops = [] \<and> (res_status r = 200 \<and> res_body r = health_readout cf ck ap \<or> refusal wq (res_status r, res_body r))"
proof -
  have "createAuthMiddleware (cf_apiKey cf) (rq_path req) (rq_headers req)"
    using assms(1) by (simp add: createAuthMiddleware_def EXEMPT_PATHS_def split: option.split)
  moreover have "app_limited ck req ap = Inr ap"
    using assms(1) by (auto simp: app_limited_def limit_request_def RATE_EXEMPT_PATHS_def split: option.splits)
  ultimately have h: "(case rq_body req of
           Malformed \<Rightarrow> reply ap (error_response 400 ''malformed JSON body'')
         | TooLarge \<Rightarrow> reply ap (error_response 413 ''request body too large (max 64kb)'')
         | Unreadable \<Rightarrow> reply ap (error_response 500 ''internal server error'')
         | Parsed body \<Rightarrow> app_route cf ck req body ap) = (ap', r, ops)"
    using assms(3) by (simp add: app_handle_limited after_limiter_def)
  then show ?thesis
  proof (cases "rq_body req")
    case (Parsed body)
    then have "app_route cf ck req body ap = (ap', r, ops)" using h by simp
    then show ?thesis using assms(2,4) by (auto simp: refusal_def app_route.simps get_health_readout reply_def)
  qed (use h in \<open>auto simp: refusal_def reply_def error_response_def\<close>)
qed

text \<open>C27: With a key configured, a request that does not present it gets nothing out of a node and
  changes nothing in it, whatever its method, path, headers and body: it is answered - always -
  with a 401 or a 429 or, as a preflight, by the CORS package alone; at \<open>/health\<close> with the
  readout and no more, or with a fixed refusal (a body that cannot be read, or a method
  without a handler). No spelling of a path that Express would accept for another route
  escapes the check.\<close>

theorem wire_requests_authenticated:
  assumes "matches_segments pm" and "cors_documented cors" and "cf_apiKey cf = Some key" and "key \<noteq> []"
    and "presentedKey (wq_headers wq) \<noteq> Some key"
  shows "\<exists>rl r. node_http pm cors origins cf ck wq ap = Some (ap\<lparr>ap_limiter := rl\<rparr>, r, []) \<and>
    (wp_status r = 204 \<and> wp_body r = None \<and> wq_method wq = ''OPTIONS'' \<or>
     (\<exists>json. wp_body r = (if wq_method wq = ''HEAD'' then None else Some json) \<and>
       ((wp_status r, json) \<in> {(401, JObj [(''error'', JStr ''missing or invalid API key'')]),
          (429, JObj [(''error'', JStr ''rate limit exceeded'')])} \<or>
        wq_path wq = ''/health'' \<and> (wp_status r = 200 \<and> json = health_readout cf ck ap \<or> refusal wq (wp_status r, json)))))"
proof (cases "snd (cors origins wq (security_headers []))")
  case True
  then have "wq_method wq = ''OPTIONS''" using assms(2) by (simp add: cors_documented_def)
  then show ?thesis using True
    by (cases "cors origins wq (security_headers [])") (auto simp: node_http_def preflight_response_def intro: exI [of _ "ap_limiter ap"])
next
  case False
  let ?req = "node_request pm wq"
  have q: "rq_path ?req = wq_path wq" "rq_headers ?req = wq_headers wq" by (simp_all add: node_request_def Let_def)
  obtain hs where c: "cors origins wq (security_headers []) = (hs, False)" using False by (cases "cors origins wq (security_headers [])") auto
  obtain ap' r ops where h: "app_handle cf ck ?req ap = (ap', r, ops)" by (metis prod_cases3)
  define hs' where "hs' = limiter_header (ap_limiter ap) (ck_now ck) wq hs"
  have answered: "node_http pm cors origins cf ck wq ap = Some (ap', send_response wq hs' r, ops)" if "\<not> outside_model cf ck wq ?req ap"
    using that h by (simp add: node_http_def c hs'_def)
  have sent: "wp_status (send_response wq hs' r) = res_status r"
    "wp_body (send_response wq hs' r) = (if wq_method wq = ''HEAD'' then None else Some (res_body r))" by (simp_all add: send_response_def)
  show ?thesis
  proof (cases "wq_path wq = ''/health''")
    case False
    then have no: "\<not> createAuthMiddleware (cf_apiKey cf) (rq_path ?req) (rq_headers ?req)"
      using assms(3-5) q by (auto simp: createAuthMiddleware_def EXEMPT_PATHS_def split: option.splits)
    then have "\<not> outside_model cf ck wq ?req ap" by (simp add: outside_model_def split: sum.split)
    moreover obtain rl where "r \<in> {error_response 401 ''missing or invalid API key'', error_response 429 ''rate limit exceeded''}" "ops = []"
        "ap' = ap\<lparr>ap_limiter := rl\<rparr>"
      using auth_guards_everything [OF assms(3,4) _ _ h] assms(5) q False by auto
    ultimately show ?thesis using answered sent by (auto simp: error_response_def)
  next
    case True
    then have route: "rq_route ?req \<in> {UnknownR, HealthR}"
      using health_route [OF assms(1), of "wq_method wq"] by (simp add: node_request_def Let_def)
    then have "\<not> outside_model cf ck wq ?req ap" by (auto simp: outside_model_def)
    moreover note health_answer [OF _ route h q(1)]
    moreover have "ap\<lparr>ap_limiter := ap_limiter ap\<rparr> = ap" by simp
    ultimately show ?thesis using answered sent True q(1) by metis
  qed
qed

theorem wire_requests_authenticated_witness:
  "\<exists>r. map_option (fst \<circ> snd) (node_http plain_match plain_cors [] (demo_config\<lparr>cf_apiKey := Some ''s''\<rparr>) (at_time 5)
       \<lparr>wq_method = ''POST'', wq_path = ''/Flush'', wq_top = None, wq_headers = (\<lambda>_. None), wq_ip = None, wq_body = Malformed\<rparr>
       (demo_app Primary [])) = Some r \<and> (wp_status r = 401 \<or> wp_status r = 429)"
proof -
  let ?wq = "\<lparr>wq_method = ''POST'', wq_path = ''/Flush'', wq_top = None, wq_headers = (\<lambda>_. None), wq_ip = None, wq_body = Malformed\<rparr>"
  show ?thesis
    using wire_requests_authenticated [OF plain_match_segments plain_cors_documented, of "demo_config\<lparr>cf_apiKey := Some ''s''\<rparr>" "''s''" ?wq
        "[]" "at_time 5" "demo_app Primary []"]
    by (auto simp: presentedKey_def)
qed

section \<open>Malformed paths\<close>

text \<open>
  A path parameter that is no valid percent encoding is the client's mistake, yet the answer
  is the one for unexpected errors: Express raises its error after the handler of body errors
  was passed, so only the last one sees it.
\<close>

lemma undecodable_path_is_internal_error:
  assumes "pm ''/get/:key'' path = Undecodable" and "pm ''/set'' path = NoMatch" and "wq_path wq = path" and "wq_body wq = Parsed None"
    and "ap_limiter ap = None" and "createAuthMiddleware (cf_apiKey cf) path (wq_headers wq)"
    and "cors origins wq (security_headers []) = (hs, False)"
  shows "node_http pm cors origins cf ck wq ap = Some (ap, send_response wq hs (error_response 500 ''internal server error''), [])"
  using assms
  by (simp add: node_http_def node_request_def body_json_def read_replicate_body_def outside_model_def node_routes_def app_handle_def
      after_limiter_def app_route.simps limiter_header_def reply_def)

lemma undecodable_path_run:
  "map_option (wp_status \<circ> fst \<circ> snd) (node_http plain_match plain_cors [] demo_config (at_time 5)
     \<lparr>wq_method = ''GET'', wq_path = ''/get/%zz'', wq_top = None, wq_headers = (\<lambda>_. None), wq_ip = None, wq_body = Parsed None\<rparr>
     ((demo_app Primary [])\<lparr>ap_limiter := None\<rparr>)) = Some 500"
proof -
  have "plain_match ''/get/:key'' ''/get/%zz'' = Undecodable" "plain_match ''/set'' ''/get/%zz'' = NoMatch" by code_simp+
  from undecodable_path_is_internal_error [where pm = plain_match and path = "''/get/%zz''", OF this] show ?thesis
    by (simp add: plain_cors_def send_response_def createAuthMiddleware_def demo_config_def)
qed

end
