(* ===== verification/Api.thy ===== *)
theory Api
  imports Text
begin

text \<open>
  The dashboard's client of a node, \<open>src/dashboard/src/lib/api.ts\<close>, and \<open>lib/errors.ts\<close>. Every
  function of the client is a \<open>fetch_call\<close> it issues and a reading of what \<open>fetch\<close> gives:
  a result, or the value it throws. The header \<open>Content-Type\<close> of a call with a body is left
  out; no call sends an API key.
\<close>

record fetch_call =
  fc_method :: jsstring
  fc_url :: jsstring
  fc_body :: "json option" \<comment> \<open>what the body is \<open>JSON.stringify\<close> of\<close>

datatype fetched =
  NetworkError \<comment> \<open>\<open>fetch\<close> rejects with a \<open>TypeError\<close>\<close>
  | Fetched nat "jsstring + json" \<comment> \<open>the status, and what \<open>res.json()\<close> gives: the message it rejects with, or a value\<close>

datatype caught = TypeErr | Err jsstring | Thrown jsstring \<comment> \<open>neither \<open>TypeError\<close> nor \<open>Error\<close>, as \<open>String(err)\<close>\<close>

definition describeFetchError :: "caught \<Rightarrow> utf16" where
  "describeFetchError e = (case e of
       TypeErr \<Rightarrow> units ''node unreachable '' @ em_dash @ units '' is the cache node running?''
     | Err m \<Rightarrow> units m
     | Thrown s \<Rightarrow> units s)"

definition api_base :: "jsstring option \<Rightarrow> jsstring" where
  "api_base env = strip_slash (case env of None \<Rightarrow> ''/api'' | Some b \<Rightarrow> b)"

definition js_member :: "jsstring \<Rightarrow> json \<Rightarrow> caught + json option" where
  \<comment> \<open>\<open>x.k\<close>: a property of \<open>null\<close> throws a \<open>TypeError\<close>\<close>
  "js_member k x = (if x = JNull then Inl TypeErr else Inr (read_field k x))"

definition status_ok :: "nat \<Rightarrow> bool" where
  "status_ok st \<longleftrightarrow> 200 \<le> st \<and> st < 300"

definition res_json :: "jsstring + json \<Rightarrow> caught + json" where
  "res_json body = (case body of Inl m \<Rightarrow> Inl (Err m) | Inr j \<Rightarrow> Inr j)"

definition failed :: "jsstring \<Rightarrow> nat \<Rightarrow> jsstring" where
  "failed what st = what @ '' failed ('' @ show_nat st @ '')''"

definition body_error :: "(rat \<Rightarrow> jsstring) \<Rightarrow> jsstring \<Rightarrow> jsstring + json \<Rightarrow> caught" where
  \<comment> \<open>\<open>body = await res.json().catch(() => ({}))\<close>, then \<open>new Error(body.error ?? fallback)\<close>\<close>
  "body_error str fallback body = (case js_member ''error'' (case body of Inl _ \<Rightarrow> JObj [] | Inr j \<Rightarrow> j) of
       Inl e \<Rightarrow> e
     | Inr v \<Rightarrow> Err (case v of None \<Rightarrow> fallback | Some j \<Rightarrow> if j = JNull then fallback else to_text str j))"

definition plain_result :: "jsstring \<Rightarrow> fetched \<Rightarrow> caught + json" where
  \<comment> \<open>\<open>if (!res.ok) throw new Error(...); return res.json()\<close>\<close>
  "plain_result what f = (case f of
       NetworkError \<Rightarrow> Inl TypeErr
     | Fetched st body \<Rightarrow> if status_ok st then res_json body else Inl (Err (failed what st)))"

definition explained_result :: "(rat \<Rightarrow> jsstring) \<Rightarrow> jsstring \<Rightarrow> fetched \<Rightarrow> caught + json" where
  \<comment> \<open>the same with the message of the body\<close>
  "explained_result str what f = (case f of
       NetworkError \<Rightarrow> Inl TypeErr
     | Fetched st body \<Rightarrow> if status_ok st then res_json body else Inl (body_error str (failed what st) body))"

definition setKey_call :: "jsstring \<Rightarrow> jsstring \<Rightarrow> jsstring \<Rightarrow> jsnum option \<Rightarrow> fetch_call" where
  "setKey_call base key v ttl = \<lparr>fc_method = ''POST'', fc_url = base @ ''/set'',
     fc_body = Some (JObj ([(''key'', JStr key), (''value'', JStr v)] @
       (case ttl of None \<Rightarrow> [] | Some x \<Rightarrow> [(''ttl'', json_num x)])))\<rparr>"

definition setKey_result :: "(rat \<Rightarrow> jsstring) \<Rightarrow> fetched \<Rightarrow> caught + json" where
  "setKey_result str = explained_result str ''set''"

definition getKey_call :: "jsstring \<Rightarrow> jsstring \<Rightarrow> fetch_call" where
  "getKey_call base key = \<lparr>fc_method = ''GET'', fc_url = base @ ''/get/'' @ encodeURIComponent key, fc_body = None\<rparr>"

record GetResult =
  gr_hit :: bool
  gr_key :: jsstring
  gr_value :: "json option"
  gr_ttl :: "json option"

definition getKey_result :: "jsstring \<Rightarrow> fetched \<Rightarrow> caught + GetResult" where
  "getKey_result key f = (case f of
       NetworkError \<Rightarrow> Inl TypeErr
     | Fetched st body \<Rightarrow>
         if st = 404 then Inr \<lparr>gr_hit = False, gr_key = key, gr_value = None, gr_ttl = None\<rparr>
         else if \<not> status_ok st then Inl (Err (failed ''get'' st))
         else (case res_json body of
             Inl e \<Rightarrow> Inl e
           | Inr j \<Rightarrow> if j = JNull then Inl TypeErr
               else Inr \<lparr>gr_hit = True, gr_key = key, gr_value = read_field ''value'' j, gr_ttl = read_field ''ttl'' j\<rparr>))"

definition deleteKey_call :: "jsstring \<Rightarrow> jsstring \<Rightarrow> fetch_call" where
  "deleteKey_call base key = \<lparr>fc_method = ''DELETE'', fc_url = base @ ''/delete/'' @ encodeURIComponent key, fc_body = None\<rparr>"

definition deleteKey_result :: "fetched \<Rightarrow> caught + json" where
  "deleteKey_result = plain_result ''delete''"

definition get_call :: "jsstring \<Rightarrow> jsstring \<Rightarrow> fetch_call" where
  "get_call base path = \<lparr>fc_method = ''GET'', fc_url = base @ path, fc_body = None\<rparr>"

definition fetchMetrics_call :: "jsstring \<Rightarrow> fetch_call" where
  "fetchMetrics_call base = get_call base ''/metrics''"

definition fetchMetrics_result :: "fetched \<Rightarrow> caught + json" where
  "fetchMetrics_result = plain_result ''metrics''"

definition fetchHealth_call :: "jsstring \<Rightarrow> fetch_call" where
  "fetchHealth_call base = get_call base ''/health''"

definition fetchHealth_result :: "fetched \<Rightarrow> caught + json" where
  "fetchHealth_result = plain_result ''health''"

definition fetchKeys_call :: "jsstring \<Rightarrow> fetch_call" where
  "fetchKeys_call base = get_call base ''/keys''"

definition fetchKeys_result :: "fetched \<Rightarrow> caught + json" where
  "fetchKeys_result = plain_result ''keys''"

definition fetchKeyStats_call :: "jsstring \<Rightarrow> fetch_call" where
  "fetchKeyStats_call base = get_call base ''/keys/stats''"

definition fetchKeyStats_result :: "fetched \<Rightarrow> caught + json" where
  "fetchKeyStats_result = plain_result ''key stats''"

definition flush_call :: "jsstring \<Rightarrow> fetch_call" where
  "flush_call base = \<lparr>fc_method = ''POST'', fc_url = base @ ''/flush'', fc_body = None\<rparr>"

definition flush_result :: "fetched \<Rightarrow> caught + json" where
  "flush_result = plain_result ''flush''"

definition invalidatePrefix_call :: "jsstring \<Rightarrow> jsstring \<Rightarrow> fetch_call" where
  "invalidatePrefix_call base p = \<lparr>fc_method = ''POST'', fc_url = base @ ''/invalidate'',
     fc_body = Some (JObj [(''prefix'', JStr p)])\<rparr>"

definition invalidatePrefix_result :: "(rat \<Rightarrow> jsstring) \<Rightarrow> fetched \<Rightarrow> caught + json" where
  "invalidatePrefix_result str = explained_result str ''invalidate''"

lemmas api_calls = setKey_call_def getKey_call_def deleteKey_call_def get_call_def fetchMetrics_call_def
  fetchHealth_call_def fetchKeys_call_def fetchKeyStats_call_def flush_call_def invalidatePrefix_call_def

lemmas api_results = setKey_result_def getKey_result_def deleteKey_result_def fetchMetrics_result_def
  fetchHealth_result_def fetchKeys_result_def fetchKeyStats_result_def flush_result_def
  invalidatePrefix_result_def plain_result_def explained_result_def status_ok_def res_json_def

section \<open>What a failure is reported as\<close>

lemma unreachable_is_told:
  "plain_result what NetworkError = Inl TypeErr" "explained_result str what NetworkError = Inl TypeErr"
  "getKey_result key NetworkError = Inl TypeErr"
  by (simp_all add: api_results)

lemma node_error_is_told:
  "\<not> status_ok st \<Longrightarrow> explained_result str what (Fetched st (Inr (res_body (error_response st m)))) = Inl (Err m)"
  by (simp add: explained_result_def body_error_def js_member_def)

end
