(* ===== verification/OpLog.thy ===== *)
theory OpLog
  imports Text
begin

text \<open>
  The dashboard's event log, \<open>src/dashboard/src/lib/log.ts\<close>: a ring of the last \<open>CAP\<close> events with
  increasing identifiers. Listeners and sounds are not modelled.
\<close>

datatype LogKind = LHit | LMiss | LSet | LDel | LEvict | LExpire | LErr

record LogEvent =
  lg_id :: nat
  lg_at :: time_ms
  lg_kind :: LogKind
  lg_text :: utf16

record op_log =
  lg_events :: "LogEvent list"
  lg_nextId :: nat

definition CAP :: nat where "CAP = 200"

definition new_log :: op_log where
  "new_log = \<lparr>lg_events = [], lg_nextId = 1\<rparr>"

definition logEvent :: "time_ms \<Rightarrow> LogKind \<Rightarrow> utf16 \<Rightarrow> op_log \<Rightarrow> op_log" where
  "logEvent now kind t l = \<lparr>lg_events = push_capped CAP (lg_events l)
     \<lparr>lg_id = lg_nextId l, lg_at = now, lg_kind = kind, lg_text = t\<rparr>, lg_nextId = lg_nextId l + 1\<rparr>"

definition clearLog :: "op_log \<Rightarrow> op_log" where
  "clearLog l = l\<lparr>lg_events := []\<rparr>"

datatype log_op = LogIt time_ms LogKind utf16 | ClearIt

fun log_step :: "op_log \<Rightarrow> log_op \<Rightarrow> op_log" where
  "log_step l (LogIt now kind t) = logEvent now kind t l"
| "log_step l ClearIt = clearLog l"

fun log_spec :: "nat \<Rightarrow> log_op list \<Rightarrow> LogEvent list" where
  \<comment> \<open>all events since the last time the log was cleared, the oldest first\<close>
  "log_spec n [] = []"
| "log_spec n (LogIt now kind t # ops) =
     (if ClearIt \<in> set ops then [] else [\<lparr>lg_id = n, lg_at = now, lg_kind = kind, lg_text = t\<rparr>]) @ log_spec (n + 1) ops"
| "log_spec n (ClearIt # ops) = log_spec n ops"

lemma log_run_from:
  "lg_events (foldl log_step \<lparr>lg_events = slice_last CAP es, lg_nextId = n\<rparr> ops) =
     slice_last CAP ((if ClearIt \<in> set ops then [] else es) @ log_spec n ops)"
proof (induction ops arbitrary: es n)
  case Nil
  then show ?case by simp
next
  case (Cons p ops)
  show ?case
  proof (cases p)
    case (LogIt now kind t)
    have "push_capped CAP (slice_last CAP es) e = slice_last CAP (es @ [e])" for e
      by (rule push_capped_slice) (simp add: CAP_def)
    then show ?thesis using Cons.IH [of "es @ [_]" "n + 1"] LogIt by (auto simp: logEvent_def)
  next
    case ClearIt
    then show ?thesis using Cons.IH [of "[]" n] by (simp add: clearLog_def)
  qed
qed

lemma log_spec_ids: "sorted_wrt (<) (map lg_id (log_spec n ops)) \<and> (\<forall>e \<in> set (log_spec n ops). n \<le> lg_id e)"
  by (induction n ops rule: log_spec.induct) (auto dest: Suc_leD simp: Suc_le_eq)

lemma sorted_slice: "sorted_wrt R xs \<Longrightarrow> sorted_wrt R (slice_last n xs)"
  by (simp add: slice_last_def sorted_wrt_drop)

lemma log_ring:
  "lg_events (foldl log_step new_log ops) = slice_last CAP (log_spec 1 ops)
   \<and> sorted_wrt (<) (map lg_id (lg_events (foldl log_step new_log ops)))"
proof -
  have "lg_events (foldl log_step new_log ops) = slice_last CAP (log_spec 1 ops)"
    using log_run_from [of "[]" 1 ops] by (simp add: new_log_def)
  moreover have "map lg_id (slice_last CAP (log_spec 1 ops)) = slice_last CAP (map lg_id (log_spec 1 ops))"
    by (simp add: slice_last_def drop_map)
  moreover have "sorted_wrt (<) (slice_last CAP (map lg_id (log_spec 1 ops)))"
    using log_spec_ids [of 1 ops] by (intro sorted_slice) blast
  ultimately show ?thesis by simp
qed

end
