(* ===== verification/Console.thy ===== *)
theory Console
  imports Api OpLog Env
begin

text \<open>
  The command line of the dashboard, \<open>src/dashboard/src/components/KVConsole.tsx\<close>: the tokens of
  a command line, the commands, their calls and what they print, and the recall of earlier
  lines. A command awaits at most one call, so it runs in two halves: \<open>begin_run\<close> until the
  call is issued, \<open>end_run\<close> from its answer on.
\<close>

section \<open>Tokens\<close>

abbreviation quote_mark :: char where
  "quote_mark \<equiv> CHR 0x22"

function match_tokens :: "jsstring \<Rightarrow> jsstring list" where
  \<comment> \<open>\<open>input.match(/"([^"]*)"|\\S+/g)\<close>\<close>
  "match_tokens [] = []"
| "match_tokens (c # s) =
     (if c = quote_mark \<and> quote_mark \<in> set s
      then (c # takeWhile (\<lambda>x. x \<noteq> quote_mark) s @ [quote_mark]) # match_tokens (tl (dropWhile (\<lambda>x. x \<noteq> quote_mark) s))
      else if \<not> is_ws c
      then (c # takeWhile (\<lambda>x. \<not> is_ws x) s) # match_tokens (dropWhile (\<lambda>x. \<not> is_ws x) s)
      else match_tokens s)"
  by pat_completeness auto
termination
  by (relation "measure length") (auto simp: length_dropWhile_le less_Suc_eq_le intro: le_trans [OF diff_le_self])

definition strip_quotes :: "jsstring \<Rightarrow> jsstring" where
  "strip_quotes t = (if 2 \<le> length t \<and> hd t = quote_mark \<and> last t = quote_mark then butlast (tl t) else t)"

definition tokenize :: "jsstring \<Rightarrow> jsstring list" where
  "tokenize input = map strip_quotes (match_tokens input)"

section \<open>State\<close>

datatype tone = Plain | Ok | Hit | Miss | ErrTone

record line =
  ln_text :: utf16
  ln_tone :: tone

record console =
  cn_lines :: "line list"
  cn_input :: jsstring
  cn_history :: "jsstring list"
  cn_histIdx :: "nat option" \<comment> \<open>\<open>None\<close> is \<open>-1\<close>\<close>
  cn_busy :: bool
  cn_lastValue :: "json option"

record session =
  se_console :: console
  se_log :: op_log
  se_ops :: "(jsstring \<times> jsstring \<times> jsstring) list" \<comment> \<open>the events given to \<open>onOp\<close>: \<open>op\<close>, \<open>key\<close>, \<open>outcome\<close>\<close>

definition HISTORY_CAP :: nat where "HISTORY_CAP = 200"

definition LINES_CAP :: nat where "LINES_CAP = 200"

definition HELP :: "jsstring list" where
  "HELP = [''set <key> <value> [ttlSec]   store a value (quote values with spaces)'',
    ''get <key>                    read a value'',
    ''del <key>                    remove a key (alias: delete)'',
    ''invalidate <prefix>          remove every key starting with prefix'',
    ''flush                        clear every key in the store'',
    ''clear                        clear this console'']"

definition new_console :: console where
  "new_console = \<lparr>cn_lines = [\<lparr>ln_text = units ''inkcache kv console '' @ em_dash @ units '' type `help` or press / to focus'',
       ln_tone = Plain\<rparr>],
     cn_input = [], cn_history = [], cn_histIdx = None, cn_busy = False, cn_lastValue = None\<rparr>"

definition print :: "utf16 \<Rightarrow> tone \<Rightarrow> console \<Rightarrow> console" where
  "print t tn c = c\<lparr>cn_lines := push_capped LINES_CAP (cn_lines c) \<lparr>ln_text = t, ln_tone = tn\<rparr>\<rparr>"

section \<open>Commands\<close>

datatype command =
  CHelp | CClear | CRefused jsstring \<comment> \<open>an error line and nothing else\<close>
  | CSet jsstring jsstring "jsnum option" | CGet jsstring | CFlush | CInvalidate jsstring | CDel jsstring
  | CUnknown jsstring

definition parse_set :: "jsstring list \<Rightarrow> command" where
  "parse_set args = (case args of
       (c # cs) # v # rest \<Rightarrow> (case rest of
           [] \<Rightarrow> CSet (c # cs) v None
         | ttlRaw # _ \<Rightarrow> let ttl = js_Number ttlRaw
             in if \<not> is_finite ttl \<or> ttl \<le> Fin 0 then CRefused ''ttl must be a positive number of seconds''
                else CSet (c # cs) v (Some ttl))
     | _ \<Rightarrow> CRefused ''usage: set <key> <value> [ttlSec]'')"

definition parse_key :: "jsstring \<Rightarrow> (jsstring \<Rightarrow> command) \<Rightarrow> jsstring list \<Rightarrow> command" where
  "parse_key name f args = (case args of (c # cs) # _ \<Rightarrow> f (c # cs) | _ \<Rightarrow> CRefused (''usage: '' @ name @ '' <key>''))"

definition parse_command :: "jsstring \<Rightarrow> command option" where
  \<comment> \<open>\<open>None\<close>: no first token, or an empty one\<close>
  "parse_command raw = (case tokenize raw of
       (c # cs) # args \<Rightarrow> let cmd = toLowerCase (c # cs)
         in Some (if cmd = ''help'' then CHelp
           else if cmd = ''clear'' then CClear
           else if cmd = ''set'' then parse_set args
           else if cmd = ''get'' then parse_key ''get'' CGet args
           else if cmd = ''flush'' then CFlush
           else if cmd = ''invalidate'' then (case args of [] \<Rightarrow> CRefused ''usage: invalidate <prefix>'' | p # _ \<Rightarrow> CInvalidate p)
           else if cmd = ''del'' \<or> cmd = ''delete'' then parse_key ''del'' CDel args
           else CUnknown (c # cs))
     | _ \<Rightarrow> None)"

definition command_call :: "jsstring \<Rightarrow> command \<Rightarrow> fetch_call option" where
  "command_call base cmd = (case cmd of
       CSet k v ttl \<Rightarrow> Some (setKey_call base k v ttl)
     | CGet k \<Rightarrow> Some (getKey_call base k)
     | CFlush \<Rightarrow> Some (flush_call base)
     | CInvalidate p \<Rightarrow> Some (invalidatePrefix_call base p)
     | CDel k \<Rightarrow> Some (deleteKey_call base k)
     | _ \<Rightarrow> None)"

definition begin_run :: "jsstring \<Rightarrow> console \<Rightarrow> console \<times> command option" where
  \<comment> \<open>the command whose call is awaited, if there is one\<close>
  "begin_run raw c = (case parse_command raw of
       None \<Rightarrow> (c, None)
     | Some cmd \<Rightarrow>
         let c' = print (units (''> '' @ raw)) Plain c
         in case cmd of
             CHelp \<Rightarrow> (foldl (\<lambda>c l. print (units l) Plain c) c' HELP, None)
           | CClear \<Rightarrow> (c'\<lparr>cn_lines := []\<rparr>, None)
           | CRefused m \<Rightarrow> (print (units m) ErrTone c', None)
           | CUnknown w \<Rightarrow> (print (units (''unknown command: '' @ w @ '' '') @ em_dash @ units '' try `help`'') ErrTone c', None)
           | _ \<Rightarrow> (c', Some cmd))"

section \<open>What an answer makes of a command\<close>

record effect =
  ef_text :: utf16
  ef_tone :: tone
  ef_log :: "(LogKind \<times> utf16) option"
  ef_op :: "jsstring \<times> jsstring \<times> jsstring"
  ef_value :: "json option option" \<comment> \<open>the argument of \<open>setLastValue\<close>\<close>

definition quoted :: "jsstring \<Rightarrow> jsstring" where
  "quoted k = quote_mark # k @ [quote_mark]"

definition set_effect :: "(rat \<Rightarrow> jsstring) \<Rightarrow> jsstring \<Rightarrow> jsnum option \<Rightarrow> effect" where
  "set_effect str k ttl = \<lparr>
     ef_text = units (''OK  stored '' @ quoted k @ (case ttl of None \<Rightarrow> [] | Some x \<Rightarrow> '' (ttl '' @ num_text str x @ ''s)'')),
     ef_tone = Ok,
     ef_log = Some (LSet, units (k @ (case ttl of None \<Rightarrow> [] | Some x \<Rightarrow> '' ttl='' @ num_text str x @ ''s''))),
     ef_op = (''set'', k, ''stored''), ef_value = None\<rparr>"

definition ttl_note :: "(rat \<Rightarrow> jsstring) \<Rightarrow> json option \<Rightarrow> caught + jsstring" where
  \<comment> \<open>\<open>toFixed\<close> of a value that is no number throws a \<open>TypeError\<close>\<close>
  "ttl_note str ttl = (case ttl of
       None \<Rightarrow> Inr []
     | Some JNull \<Rightarrow> Inr []
     | Some (JNum x) \<Rightarrow> Inr (''  (ttl '' @ to_fixed1 str x @ ''s)'')
     | Some _ \<Rightarrow> Inl TypeErr)"

definition hit_effect :: "(rat \<Rightarrow> jsstring) \<Rightarrow> jsstring \<Rightarrow> GetResult \<Rightarrow> caught + effect" where
  "hit_effect str k r = (case ttl_note str (gr_ttl r) of
       Inl e \<Rightarrow> Inl e
     | Inr note \<Rightarrow> Inr \<lparr>
         ef_text = units (''HIT  '' @ quoted k @ '' = '' @
           (case gr_value r of None \<Rightarrow> ''undefined'' | Some v \<Rightarrow> stringify str v) @ note),
         ef_tone = Hit, ef_log = Some (LHit, units k), ef_op = (''get'', k, ''hit''),
         ef_value = Some (if gr_value r = Some JNull then None else gr_value r)\<rparr>)"

definition miss_effect :: "jsstring \<Rightarrow> effect" where
  "miss_effect k = \<lparr>ef_text = units (''MISS '' @ quoted k), ef_tone = Miss, ef_log = Some (LMiss, units k),
     ef_op = (''get'', k, ''miss''), ef_value = None\<rparr>"

definition dropped_text :: "(rat \<Rightarrow> jsstring) \<Rightarrow> json option \<Rightarrow> utf16" where
  "dropped_text str n = units '' '' @ em_dash @ units ('' dropped '' @ opt_text str n @ '' key'' @
     (if n = Some (JNum (Fin 1)) then [] else ''s''))"

definition flush_effect :: "(rat \<Rightarrow> jsstring) \<Rightarrow> json option \<Rightarrow> effect" where
  "flush_effect str n = \<lparr>ef_text = units ''OK  flushed store'' @ dropped_text str n, ef_tone = Ok,
     ef_log = Some (LDel, units ''flushed store'' @ dropped_text str n),
     ef_op = (''flush'', ''*'', ''flushed''), ef_value = None\<rparr>"

definition invalidate_effect :: "(rat \<Rightarrow> jsstring) \<Rightarrow> jsstring \<Rightarrow> json option \<Rightarrow> effect" where
  "invalidate_effect str p n = \<lparr>ef_text = units (''OK  invalidated '' @ quoted p) @ dropped_text str n, ef_tone = Ok,
     ef_log = Some (LDel, units (''invalidated '' @ quoted p) @ dropped_text str n),
     ef_op = (''invalidate'', p, ''invalidated''), ef_value = None\<rparr>"

definition del_effect :: "jsstring \<Rightarrow> json option \<Rightarrow> effect" where
  "del_effect k d = \<lparr>
     ef_text = units (if json_truthy d then ''OK  deleted '' @ quoted k else ''NOOP '' @ quoted k @ '' not present''),
     ef_tone = (if json_truthy d then Ok else Plain), ef_log = (if json_truthy d then Some (LDel, units k) else None),
     ef_op = (''del'', k, if json_truthy d then ''deleted'' else ''absent''), ef_value = None\<rparr>"

definition with_member :: "jsstring \<Rightarrow> caught + json \<Rightarrow> (json option \<Rightarrow> effect) \<Rightarrow> caught + effect" where
  "with_member m r f = (case r of Inl e \<Rightarrow> Inl e | Inr j \<Rightarrow> map_sum id f (js_member m j))"

definition command_effect :: "(rat \<Rightarrow> jsstring) \<Rightarrow> command \<Rightarrow> fetched \<Rightarrow> caught + effect" where
  "command_effect str cmd f = (case cmd of
       CSet k v ttl \<Rightarrow> map_sum id (\<lambda>_. set_effect str k ttl) (setKey_result str f)
     | CGet k \<Rightarrow> (case getKey_result k f of
           Inl e \<Rightarrow> Inl e
         | Inr r \<Rightarrow> if gr_hit r then hit_effect str k r else Inr (miss_effect k))
     | CFlush \<Rightarrow> with_member ''dropped'' (flush_result f) (flush_effect str)
     | CInvalidate p \<Rightarrow> with_member ''dropped'' (invalidatePrefix_result str f) (invalidate_effect str p)
     | CDel k \<Rightarrow> with_member ''deleted'' (deleteKey_result f) (del_effect k)
     | _ \<Rightarrow> Inl TypeErr)"

definition end_run :: "(rat \<Rightarrow> jsstring) \<Rightarrow> time_ms \<Rightarrow> command \<Rightarrow> fetched \<Rightarrow> session \<Rightarrow> session" where
  "end_run str now cmd f se = (case command_effect str cmd f of
       Inl e \<Rightarrow> let msg = describeFetchError e
         in se\<lparr>se_console := (print (units ''ERR  '' @ msg) ErrTone (se_console se))\<lparr>cn_busy := False\<rparr>,
               se_log := logEvent now LErr msg (se_log se)\<rparr>
     | Inr ef \<Rightarrow>
         let c = print (ef_text ef) (ef_tone ef) (se_console se);
             c' = (case ef_value ef of None \<Rightarrow> c | Some v \<Rightarrow> c\<lparr>cn_lastValue := v\<rparr>)
         in se\<lparr>se_console := c'\<lparr>cn_busy := False\<rparr>,
               se_log := (case ef_log ef of None \<Rightarrow> se_log se | Some (k, t) \<Rightarrow> logEvent now k t (se_log se)),
               se_ops := se_ops se @ [ef_op ef]\<rparr>)"

section \<open>The input line\<close>

definition submit :: "console \<Rightarrow> console \<times> command option" where
  "submit c = (let cmd = trim (cn_input c)
     in if cmd = [] then (c, None)
        else case begin_run cmd (c\<lparr>cn_history := push_capped HISTORY_CAP (cn_history c) cmd,
             cn_histIdx := None, cn_input := [], cn_busy := True\<rparr>) of
           (c', None) \<Rightarrow> (c'\<lparr>cn_busy := False\<rparr>, None)
         | (c', Some call) \<Rightarrow> (c', Some call))"

definition type_input :: "jsstring \<Rightarrow> console \<Rightarrow> console" where
  "type_input s c = c\<lparr>cn_input := s\<rparr>"

definition arrow_up :: "console \<Rightarrow> console" where
  "arrow_up c = (if cn_history c = [] then c
     else let idx = (case cn_histIdx c of None \<Rightarrow> length (cn_history c) - 1 | Some i \<Rightarrow> i - 1)
       in if idx < length (cn_history c) then c\<lparr>cn_histIdx := Some idx, cn_input := cn_history c ! idx\<rparr> else c)"

definition arrow_down :: "console \<Rightarrow> console" where
  "arrow_down c = (case cn_histIdx c of
       None \<Rightarrow> c
     | Some i \<Rightarrow> if length (cn_history c) \<le> i + 1 then c\<lparr>cn_histIdx := None, cn_input := []\<rparr>
         else c\<lparr>cn_histIdx := Some (i + 1), cn_input := cn_history c ! (i + 1)\<rparr>)"

definition escape :: "console \<Rightarrow> console" where
  "escape c = c\<lparr>cn_input := [], cn_histIdx := None\<rparr>"

end
