(* ===== verification/ConsoleSpec.thy ===== *)
theory ConsoleSpec
  imports Console ClusterSpec
begin

text \<open>
  What the command line of the dashboard gives its user: every key and value without a double
  quote can be typed, earlier lines are recalled in order, and what a node acknowledged as
  stored is read back.
\<close>

section \<open>Tokens\<close>

definition spells :: "jsstring \<Rightarrow> jsstring \<Rightarrow> bool" where
  \<comment> \<open>the word \<open>w\<close> of a command line stands for \<open>t\<close>: in double quotes, or bare\<close>
  "spells w t \<longleftrightarrow> w = quoted t \<and> quote_mark \<notin> set t
     \<or> w = t \<and> t \<noteq> [] \<and> hd t \<noteq> quote_mark \<and> (\<forall>c \<in> set t. \<not> is_ws c)"

lemma takeWhile_stop: "\<forall>c \<in> set s. P c \<Longrightarrow> r = [] \<or> \<not> P (hd r) \<Longrightarrow> takeWhile P (s @ r) = s \<and> dropWhile P (s @ r) = r"
  by (induction s) (cases r; auto)+

lemma match_word:
  assumes "spells w t" and "r = [] \<or> is_ws (hd r)"
  shows "match_tokens (w @ r) = w # match_tokens r"
proof (cases "w = quoted t \<and> quote_mark \<notin> set t")
  case True
  then have "\<forall>c \<in> set t. c \<noteq> quote_mark" by auto
  from takeWhile_stop [OF this, of "quote_mark # r"] show ?thesis using True by (simp add: quoted_def)
next
  case False
  then obtain c cs where w: "w = c # cs" "c \<noteq> quote_mark" "\<not> is_ws c" "\<forall>x \<in> set cs. \<not> is_ws x"
    using assms(1) by (cases w) (auto simp: spells_def)
  from takeWhile_stop [OF w(4), of r] show ?thesis using w assms(2) by simp
qed

lemma strip_word: "spells w t \<Longrightarrow> strip_quotes w = t"
  by (auto simp: spells_def strip_quotes_def quoted_def)

lemma tokenize_words: "list_all2 spells ws ts \<Longrightarrow> tokenize (join_on CHR '' '' ws) = ts"
proof (induction ws ts rule: list_all2_induct)
  case Nil
  then show ?case by (simp add: tokenize_def join_on_def)
next
  case (Cons w ws t ts)
  show ?case
  proof (cases ws)
    case Nil
    then show ?thesis using Cons match_word [of w t "[]"] by (auto simp: tokenize_def join_on_def strip_word)
  next
    case (Cons v vs)
    have j: "join_on CHR '' '' (w # ws) = w @ CHR '' '' # join_on CHR '' '' ws" by (simp add: join_on_def Cons)
    have "is_ws CHR '' ''" by (simp add: is_ws_def)
    then have "match_tokens (join_on CHR '' '' (w # ws)) = w # match_tokens (join_on CHR '' '' ws)"
      unfolding j using match_word [OF \<open>spells w t\<close>, of "CHR '' '' # join_on CHR '' '' ws"] by simp
    then show ?thesis using Cons.IH \<open>spells w t\<close> by (simp add: tokenize_def strip_word)
  qed
qed

section \<open>Earlier lines\<close>

definition enter :: "(rat \<Rightarrow> jsstring) \<Rightarrow> time_ms \<Rightarrow> (command \<Rightarrow> fetched) \<Rightarrow> jsstring \<Rightarrow> session \<Rightarrow> session" where
  \<comment> \<open>a line is typed and submitted, and its call, if it makes one, answered\<close>
  "enter str now fetch s se = (case submit (type_input s (se_console se)) of
       (c, None) \<Rightarrow> se\<lparr>se_console := c\<rparr>
     | (c, Some cmd) \<Rightarrow> end_run str now cmd (fetch cmd) (se\<lparr>se_console := c\<rparr>))"

definition new_session :: session where
  "new_session = \<lparr>se_console = new_console, se_log = new_log, se_ops = []\<rparr>"

lemma print_keeps [simp]: "cn_history (print t tn c) = cn_history c" "cn_histIdx (print t tn c) = cn_histIdx c"
    "cn_input (print t tn c) = cn_input c" "cn_lastValue (print t tn c) = cn_lastValue c"
  by (simp_all add: print_def)

lemma prints_keep [simp]: "cn_history (foldl (\<lambda>c l. print (units l) Plain c) c ls) = cn_history c"
    "cn_histIdx (foldl (\<lambda>c l. print (units l) Plain c) c ls) = cn_histIdx c"
  by (induction ls arbitrary: c) auto

lemma begin_run_keeps: "begin_run raw c = (c', r) \<Longrightarrow> cn_history c' = cn_history c \<and> cn_histIdx c' = cn_histIdx c"
  by (auto simp: begin_run_def Let_def split: option.splits command.splits)

lemma end_run_keeps: "cn_history (se_console (end_run str now cmd f se)) = cn_history (se_console se) \<and>
    cn_histIdx (se_console (end_run str now cmd f se)) = cn_histIdx (se_console se)"
  by (auto simp: end_run_def Let_def split: sum.splits option.splits)

lemma enter_history:
  "cn_history (se_console (enter str now fetch s se)) =
     (if trim s = [] then cn_history (se_console se) else push_capped Console.HISTORY_CAP (cn_history (se_console se)) (trim s))
   \<and> (cn_histIdx (se_console se) = None \<longrightarrow> cn_histIdx (se_console (enter str now fetch s se)) = None)"
  by (auto simp: enter_def submit_def type_input_def Let_def end_run_keeps split: prod.splits option.splits
      dest!: begin_run_keeps)

lemma entered_history:
  assumes "cn_history (se_console se) = slice_last Console.HISTORY_CAP h" and "cn_histIdx (se_console se) = None"
  shows "cn_history (se_console (foldl (\<lambda>se (now, fetch, s). enter str now fetch s se) se ins)) =
     slice_last Console.HISTORY_CAP (h @ filter (\<lambda>s. s \<noteq> []) (map (\<lambda>(now, fetch, s). trim s) ins)) \<and>
   cn_histIdx (se_console (foldl (\<lambda>se (now, fetch, s). enter str now fetch s se) se ins)) = None"
  using assms
proof (induction ins arbitrary: se h)
  case Nil
  then show ?case by simp
next
  case (Cons i ins)
  obtain now fetch s where i: "i = (now, fetch, s)" by (cases i)
  have cap: "0 < Console.HISTORY_CAP" by (simp add: Console.HISTORY_CAP_def)
  note e = enter_history [of str now fetch s se]
  show ?case
    using Cons.IH [of "enter str now fetch s se" "if trim s = [] then h else h @ [trim s]"] e Cons.prems
    by (simp add: i push_capped_slice [OF cap])
qed

lemma ups:
  assumes "cn_histIdx c = None" and "cn_history c \<noteq> []"
  shows "(arrow_up ^^ Suc j) c = c\<lparr>cn_histIdx := Some (length (cn_history c) - Suc j),
    cn_input := cn_history c ! (length (cn_history c) - Suc j)\<rparr>"
proof (induction j)
  case 0
  then show ?case using assms by (simp add: arrow_up_def Let_def)
next
  case (Suc j)
  show ?case
    by (subst funpow.simps(2)) (use assms in \<open>simp add: Suc arrow_up_def Let_def del: funpow.simps\<close>)
qed

text \<open>Recall: after any lines, however their commands were answered, pressing the up arrow
  \<open>j\<close> times brings back the \<open>j\<close>-th last command that was not blank, for the last 200 of
  them; and pressing it more often stays at the oldest.\<close>

lemma history_recall:
  assumes "se = foldl (\<lambda>se (now, fetch, s). enter str now fetch s se) new_session ins"
    and "cmds = filter (\<lambda>s. s \<noteq> []) (map (\<lambda>(now, fetch, s). trim s) ins)" and "cmds \<noteq> []" and "0 < j"
  shows "cn_input ((arrow_up ^^ j) (se_console se)) = rev cmds ! (min j (min Console.HISTORY_CAP (length cmds)) - 1)"
proof -
  let ?c = "se_console se"
  have h: "cn_history ?c = slice_last Console.HISTORY_CAP cmds \<and> cn_histIdx ?c = None"
    using entered_history [of new_session "[]" str ins] assms(1,2) by (simp add: new_session_def new_console_def)
  have len: "length (cn_history ?c) = min Console.HISTORY_CAP (length cmds)" using h by simp
  then have ne: "cn_history ?c \<noteq> []" using assms(3) by (cases cmds) (auto simp: Console.HISTORY_CAP_def)
  have "cn_input ((arrow_up ^^ j) ?c) = slice_last Console.HISTORY_CAP cmds ! (min Console.HISTORY_CAP (length cmds) - j)"
    using ups [of ?c "j - 1"] h len ne assms(4) by simp
  also have "\<dots> = rev cmds ! (min j (min Console.HISTORY_CAP (length cmds)) - 1)"
  proof -
    let ?n = "length cmds" and ?K = "Console.HISTORY_CAP"
    have pos: "0 < ?n" "0 < ?K" using assms(3) by (simp_all add: Console.HISTORY_CAP_def)
    have "slice_last ?K cmds ! (min ?K ?n - j) = cmds ! (?n - ?K + (min ?K ?n - j))"
      using pos by (simp add: slice_last_def)
    moreover have "rev cmds ! (min j (min ?K ?n) - 1) = cmds ! (?n - Suc (min j (min ?K ?n) - 1))"
      using pos by (intro rev_nth) linarith
    moreover have "?n - ?K + (min ?K ?n - j) = ?n - Suc (min j (min ?K ?n) - 1)" using pos assms(4) by linarith
    ultimately show ?thesis by simp
  qed
  finally show ?thesis .
qed

lemma history_recall_witness:
  "cn_input ((arrow_up ^^ 2) (se_console (foldl (\<lambda>se (now, fetch, s). enter (\<lambda>_. []) now fetch s se) new_session
     [(0, (\<lambda>_. NetworkError), ''get a''), (1, (\<lambda>_. NetworkError), ''help'')]))) = ''get a''"
proof -
  have t: "trim ''get a'' = ''get a''" "trim ''help'' = ''help''" by code_simp+
  then show ?thesis
    using history_recall [OF refl refl, of "[(0, (\<lambda>_. NetworkError), ''get a''), (1, (\<lambda>_. NetworkError), ''help'')]" 2 "\<lambda>_. []"]
    by (simp add: Console.HISTORY_CAP_def)
qed

text \<open>Whatever list of words is meant - of any characters but the double quote, blanks and
  empty words included -, a command line for it can be typed: each word in double quotes, or
  bare when it is not empty, holds no blank and does not start with a double quote.\<close>

lemma tokenize_roundtrip:
  assumes "list_all2 spells ws ts"
  shows "tokenize (join_on CHR '' '' ws) = ts \<and> (\<forall>t. quote_mark \<notin> set t \<longrightarrow> spells (quoted t) t)"
  using tokenize_words [OF assms] by (simp add: spells_def)

lemma tokenize_roundtrip_witness:
  "tokenize (''set '' @ quoted ''my key'' @ '' '' @ quoted [] @ '' abc'') = [''set'', ''my key'', '''', ''abc'']"
proof -
  have "list_all2 spells [''set'', quoted ''my key'', quoted [], ''abc''] [''set'', ''my key'', '''', ''abc'']"
    by (simp add: spells_def is_ws_def)
  from tokenize_roundtrip [OF this] show ?thesis by (simp add: join_on_def)
qed

section \<open>The command line of a node\<close>

definition api_route :: "jsstring \<Rightarrow> jsstring list \<Rightarrow> route" where
  \<comment> \<open>the route of \<open>app.ts\<close> that a call of the dashboard reaches\<close>
  "api_route m segments =
     (if m = ''GET'' \<and> segments = [''metrics''] then MetricsR
      else if m = ''GET'' \<and> segments = [''health''] then HealthR
      else if m = ''GET'' \<and> segments = [''keys''] then KeysR
      else if m = ''GET'' \<and> segments = [''keys'', ''stats''] then KeysStatsR
      else if m = ''POST'' \<and> segments = [''flush''] then FlushR
      else if m = ''POST'' \<and> segments = [''invalidate''] then InvalidateR
      else node_route m segments)"

definition api_request :: "(rat \<Rightarrow> jsstring) \<Rightarrow> jsstring \<Rightarrow> jsstring option \<Rightarrow> fetch_call \<Rightarrow> http_request" where
  \<comment> \<open>\<open>base\<close> is the node's origin\<close>
  "api_request str base ip fc = (let path = drop (length base) (fc_url fc)
     in \<lparr>rq_route = api_route (fc_method fc) (fetch_path path), rq_path = concat (map ((#) CHR ''/'') (fetch_path path)),
         rq_headers = (\<lambda>_. None), rq_ip = ip,
         rq_body = (case fc_body fc of None \<Rightarrow> Parsed None
           | Some j \<Rightarrow> express_json str j)\<rparr>)"

declare express_json_def [simp]

definition node_fetch :: "app_config \<Rightarrow> clock \<Rightarrow> (rat \<Rightarrow> jsstring) \<Rightarrow> jsstring \<Rightarrow> jsstring option \<Rightarrow> fetch_call \<Rightarrow> node_app \<Rightarrow>
    node_app \<times> fetched" where
  "node_fetch cf ck str base ip fc ap = (case app_handle cf ck (api_request str base ip fc) ap of
       (ap', r, ops) \<Rightarrow> (ap', Fetched (res_status r) (Inr (res_body r))))"

definition enter_at :: "app_config \<Rightarrow> clock \<Rightarrow> (rat \<Rightarrow> jsstring) \<Rightarrow> jsstring \<Rightarrow> jsstring option \<Rightarrow> time_ms \<Rightarrow> jsstring \<Rightarrow>
    session \<times> node_app \<Rightarrow> session \<times> node_app" where
  \<comment> \<open>a line is typed and submitted, and the node answers the call it makes; \<open>now\<close> is the browser's clock\<close>
  "enter_at cf ck str base ip now s st = (case submit (type_input s (se_console (fst st))) of
       (c, None) \<Rightarrow> ((fst st)\<lparr>se_console := c\<rparr>, snd st)
     | (c, Some cmd) \<Rightarrow> (case command_call base cmd of
           None \<Rightarrow> ((fst st)\<lparr>se_console := c\<rparr>, snd st)
         | Some fc \<Rightarrow> (case node_fetch cf ck str base ip fc (snd st) of
               (ap', f) \<Rightarrow> (end_run str now cmd f ((fst st)\<lparr>se_console := c\<rparr>), ap'))))"

definition last_line :: "session \<Rightarrow> line" where
  "last_line se = last (cn_lines (se_console se))"

lemma last_print [simp]: "cn_lines (print t tn c) \<noteq> [] \<and> last (cn_lines (print t tn c)) = \<lparr>ln_text = t, ln_tone = tn\<rparr>"
  by (simp add: print_def push_capped_def)

lemma last_line_end_run: "last_line (end_run str now cmd f se) = (case command_effect str cmd f of
    Inl e \<Rightarrow> \<lparr>ln_text = units ''ERR  '' @ describeFetchError e, ln_tone = ErrTone\<rparr>
  | Inr ef \<Rightarrow> \<lparr>ln_text = ef_text ef, ln_tone = ef_tone ef\<rparr>)"
  by (auto simp: end_run_def last_line_def Let_def split: sum.splits option.splits)

lemma submit_call:
  assumes "parse_command (trim s) = Some cmd" and "command_call base cmd = Some fc"
  shows "\<exists>c'. submit (type_input s c) = (c', Some cmd) \<and> cn_lastValue c' = cn_lastValue c"
proof -
  have "trim s \<noteq> []" using assms(1) by (auto simp: parse_command_def tokenize_def)
  then show ?thesis
    using assms by (cases cmd) (auto simp: submit_def type_input_def begin_run_def command_call_def Let_def)
qed

lemma enter_at_call:
  assumes "parse_command (trim s) = Some cmd" and "command_call base cmd = Some fc"
    and "app_handle cf ck (api_request str base ip fc) ap = (ap', r, ops)"
  obtains se' where "enter_at cf ck str base ip now s (se, ap) =
      (end_run str now cmd (Fetched (res_status r) (Inr (res_body r))) se', ap')"
proof -
  obtain c' where "submit (type_input s (se_console se)) = (c', Some cmd)" using submit_call [OF assms(1,2)] by blast
  then show ?thesis using that [of "se\<lparr>se_console := c'\<rparr>"] assms(2,3) by (simp add: enter_at_def node_fetch_def)
qed

lemma get_path: "fetch_path (''/get/'' @ encodeURIComponent k) =
    (if k = ''.'' then [''get'', []] else if k = ''..'' then [[]] else [''get'', encodeURIComponent k])"
proof (cases "k \<in> {''.'', ''..''}")
  case True
  then show ?thesis by (auto simp: encodeURIComponent_def unreserved_def fetch_path_def)
next
  case False
  then show ?thesis using plain_path [of "''get''" "encodeURIComponent k"] encode_no_slash [of k] encode_dots [of k] by simp
qed

lemma call_routes:
  "rq_route (api_request str base ip (setKey_call base k v ttl)) = SetR"
  "rq_route (api_request str base ip (getKey_call base k)) = (if k \<in> {[], ''.'', ''..''} then UnknownR else GetR k)"
proof -
  have "fetch_path ''/set'' = [''set'']" by (simp add: fetch_path_def split_no_slash)
  then show "rq_route (api_request str base ip (setKey_call base k v ttl)) = SetR"
    by (simp add: api_request_def setKey_call_def api_route_def node_route_def Let_def)
  show "rq_route (api_request str base ip (getKey_call base k)) = (if k \<in> {[], ''.'', ''..''} then UnknownR else GetR k)"
  proof -
    have "fetch_path (''/get/'' @ encodeURIComponent k) \<notin> {[''metrics''], [''health''], [''keys''], [''keys'', ''stats'']}"
      unfolding get_path by simp
    then have "api_route ''GET'' (fetch_path (''/get/'' @ encodeURIComponent k)) = node_route ''GET'' (fetch_path (''/get/'' @ encodeURIComponent k))"
      unfolding api_route_def by simp
    then show ?thesis unfolding key_route(1) by (simp add: api_request_def getKey_call_def Let_def)
  qed
qed

lemma set_status:
  assumes "app_handle cf ck req ap = (ap', r, ops)" and "rq_route req = SetR" and "status_ok (res_status r)"
  shows "res_status r = 200 \<and> (\<exists>body. rq_body req = Parsed body)"
proof (rule app_handle_cases [of cf ck req ap])
  fix rl body
  assume "app_handle cf ck req ap = app_route cf ck req body (ap\<lparr>ap_limiter := rl\<rparr>)" and b: "rq_body req = Parsed body"
  then have "post_set cf ck body (ap\<lparr>ap_limiter := rl\<rparr>) = (ap', r, ops)" using assms(1,2) by (simp add: app_route.simps)
  then show ?thesis using assms(3) b
    by (auto simp: post_set_def reply_def rejectIfReplica_def status_ok_def split: option.splits sum.splits if_splits)
qed (use assms in \<open>auto simp: status_ok_def\<close>)

lemma set_typed:
  assumes "app_handle cf ck (api_request str base ip (setKey_call base k v ttl)) ap = (ap', r, ops)" and "status_ok (res_status r)"
    and "case ttl of None \<Rightarrow> True | Some x \<Rightarrow> is_finite x"
  shows "ap_store ap' = cache_set (ck_op ck) k v ttl (ap_store ap)"
proof -
  let ?req = "api_request str base ip (setKey_call base k v ttl)"
  let ?fs = "[(''key'', JStr k), (''value'', JStr v)] @ (case ttl of None \<Rightarrow> [] | Some x \<Rightarrow> [(''ttl'', json_num x)])"
  note st = set_status [OF assms(1) call_routes(1) assms(2)]
  have b: "rq_body ?req = Parsed (Some (JObj ?fs))"
    using st by (auto simp: api_request_def setKey_call_def Let_def split: if_splits)
  obtain k' v' ttl' where val: "validateEntry (cf_maxKeyLength cf) (ck_now ck) (Some (JObj ?fs)) = Inr (k', v', ttl')"
    and s: "ap_store ap' = cache_set (ck_op ck) k' v' ttl' (ap_store ap)"
    using served_set [OF assms(1) call_routes(1) b] st by blast
  have "k' = k \<and> v' = v \<and> ttl' = ttl"
    using val assms(3) by (cases ttl) (auto simp: validateEntry_Inr nullish_to_obj_def json_num_def split: option.splits jsnum.splits)
  then show ?thesis using s by simp
qed

lemma get_status:
  assumes "app_handle cf ck req ap = (ap', r, ops)" and "rq_route req = GetR k" and "res_status r = 404 \<or> status_ok (res_status r)"
  shows "res_status r \<in> {200, 404}"
proof (rule app_handle_cases [of cf ck req ap])
  fix rl body
  assume "app_handle cf ck req ap = app_route cf ck req body (ap\<lparr>ap_limiter := rl\<rparr>)"
  then have "get_key ck k (ap\<lparr>ap_limiter := rl\<rparr>) = (ap', r, ops)" using assms(1,2) by (simp add: app_route.simps)
  then show ?thesis by (auto simp: get_key_def reply_def split: prod.splits option.splits)
qed (use assms in \<open>auto simp: status_ok_def\<close>)

lemma parsed_set_finite: "parse_command s = Some (CSet k v ttl) \<Longrightarrow> k \<noteq> [] \<and> (case ttl of None \<Rightarrow> True | Some x \<Rightarrow> is_finite x)"
  by (auto simp: parse_command_def parse_set_def parse_key_def Let_def split: list.splits if_splits option.splits)

lemma ttl_note_json: "\<exists>nt. ttl_note str (Some (ttl_json x)) = Inr nt \<and> (x = None \<longrightarrow> nt = [])"
proof (cases x)
  case (Some y)
  then show ?thesis by (cases y) (simp_all add: ttl_note_def ttl_json_def json_num_def)
qed (simp add: ttl_note_def ttl_json_def)

lemma ttl_note_json_ok [simp]: "ttl_note str (Some (ttl_json x)) \<noteq> Inl e"
  using ttl_note_json [of str x] by auto

definition set_name :: "http_request \<Rightarrow> jsstring option" where
  \<comment> \<open>the key a \<open>/set\<close> names\<close>
  "set_name req = (case (rq_route req, rq_body req) of
       (SetR, Parsed body) \<Rightarrow> as_string (read_field ''key'' (nullish_to_obj body)) | _ \<Rightarrow> None)"

definition set_names :: "app_input list \<Rightarrow> jsstring set" where
  "set_names ins = {k. \<exists>i \<in> set ins. set_name (snd i) = Some k}"

definition leaves_key :: "jsstring \<Rightarrow> app_input \<Rightarrow> bool" where
  \<comment> \<open>it may read anything, write other keys and change roles, but neither sets nor removes \<open>k\<close>, nor restores a snapshot\<close>
  "leaves_key k i \<longleftrightarrow> set_name (snd i) \<noteq> Some k \<and> (case rq_route (snd i) of
       DeleteR k' \<Rightarrow> k' \<noteq> k
     | InvalidateR \<Rightarrow> (case rq_body (snd i) of
           Parsed body \<Rightarrow> (case as_string (read_field ''prefix'' (nullish_to_obj body)) of Some p \<Rightarrow> \<not> startsWith k p | None \<Rightarrow> True)
         | _ \<Rightarrow> True)
     | FlushR \<Rightarrow> False | RestoreR \<Rightarrow> False | ReplicateR b \<Rightarrow> False | _ \<Rightarrow> True)"

lemma write_leaves:
  assumes "cache_ok s" and "client_write cf ck req body = Some op" and "rq_body req = Parsed body" and "leaves_key k (ck, req)"
    and "finite S" and "stored_keys s \<union> set_names [(ck, req)] \<subseteq> S" and "card S \<le> maxEntries s" and "now \<le> t"
  shows "visible t (applyReplicationOp now s op) k = visible t s k \<and> op_keys op \<subseteq> set_names [(ck, req)]"
proof (cases op)
  case (RSet k' v ttl)
  then have n: "set_name req = Some k'"
    using assms(2,3) by (auto simp: client_write_def set_name_def validateEntry_Inr split: route.splits sum.splits option.splits if_splits)
  then have "insert k' (stored_keys s) \<subseteq> S" using assms(6) by (simp add: set_names_def)
  then have "card (insert k' (stored_keys s)) \<le> maxEntries s" using card_mono [OF assms(5)] assms(7) order_trans by blast
  moreover have "k' \<noteq> k" using n assms(4) by (simp add: leaves_key_def)
  ultimately show ?thesis using kv.put_view [OF assms(1) _ assms(8)] n RSet by (simp add: set_names_def)
next
  case (RDelete k')
  then have "k' \<noteq> k"
    using assms(2,4) by (auto simp: client_write_def leaves_key_def split: route.splits sum.splits option.splits if_splits)
  then show ?thesis using RDelete kv.del_view [OF assms(1)] by simp
next
  case (RInvalidate p)
  then have "\<not> startsWith k p"
    using assms(2-4) by (auto simp: client_write_def leaves_key_def split: route.splits sum.splits option.splits if_splits)
  then show ?thesis using RInvalidate kv.del_where_view [OF assms(1)] by simp
next
  case RFlush
  then show ?thesis
    using assms(2,4) by (auto simp: client_write_def leaves_key_def split: route.splits sum.splits option.splits if_splits)
qed

lemma served_leaves:
  assumes "app_handle cf ck req a = (a', r, ops)" and "cache_ok (ap_store a)" and "leaves_key k (ck, req)"
    and "finite S" and "stored_keys (ap_store a) \<union> set_names [(ck, req)] \<subseteq> S" and "card S \<le> maxEntries (ap_store a)" and "ck_op ck \<le> t"
  shows "cache_ok (ap_store a') \<and> maxEntries (ap_store a') = maxEntries (ap_store a) \<and> stored_keys (ap_store a') \<subseteq> S \<and>
    visible t (ap_store a') k = visible t (ap_store a) k"
proof (rule app_handle_cases [of cf ck req a])
  fix rl r'
  assume "app_handle cf ck req a = (a\<lparr>ap_limiter := rl\<rparr>, r', [])"
  then show ?thesis using assms(1,2,5) by auto
next
  fix rl body
  let ?s = "ap_store a"
  assume "app_handle cf ck req a = app_route cf ck req body (a\<lparr>ap_limiter := rl\<rparr>)" and b: "rq_body req = Parsed body"
  then have route: "app_route cf ck req body (a\<lparr>ap_limiter := rl\<rparr>) = (a', r, ops)" using assms(1) by simp
  have plain: "rq_route req \<noteq> RestoreR" "\<forall>b. rq_route req \<noteq> ReplicateR b" using assms(3) by (auto simp: leaves_key_def)
  have read: "cache_ok (read_step now q ?s) \<and> maxEntries (read_step now q ?s) = maxEntries ?s \<and> stored_keys (read_step now q ?s) \<subseteq> S \<and>
      visible t (read_step now q ?s) k = visible t ?s k" if "now \<le> t" for now q
    using kv.ok_kept(5) [OF assms(2)] kv.capacity_const(5) [OF assms(2)] kv.stored_shrink(4) [OF assms(2)] assms(5)
      fun_cong [OF kv.poll_view [OF assms(2) that], of q k] by blast
  have written: "cache_ok (applyReplicationOp now ?s op) \<and> maxEntries (applyReplicationOp now ?s op) = maxEntries ?s \<and>
      stored_keys (applyReplicationOp now ?s op) \<subseteq> S \<and> visible t (applyReplicationOp now ?s op) k = visible t ?s k"
    if "client_write cf ck req body = Some op" "now \<le> t" for now op
    using write_leaves [OF assms(2) that(1) b assms(3,4,5,6) that(2)] applyReplicationOp_ok [OF assms(2)]
      applyReplicationOp_capacity [OF assms(2)] applyReplicationOp_stored [OF assms(2), of now op] assms(5) by blast
  show ?thesis
  proof (cases "nr_role (ap_role (a\<lparr>ap_limiter := rl\<rparr>))")
    case Primary
    show ?thesis using route_primary [OF Primary plain route] written read [OF assms(7)] assms(2,5,7)
      by (auto split: option.splits)
  next
    case Replica
    show ?thesis using route_replica [OF Replica route] read [OF assms(7)] assms(2,5) plain
      by (auto split: option.splits route.splits replicate_body.splits)
  qed
qed

lemma run_leaves:
  assumes "cache_ok (ap_store a)" and "\<forall>i \<in> set ins. leaves_key k i \<and> ck_op (fst i) \<le> t"
    and "finite S" and "stored_keys (ap_store a) \<union> set_names ins \<subseteq> S" and "card S \<le> maxEntries (ap_store a)"
  shows "visible t (ap_store (app_run cf a ins)) k = visible t (ap_store a) k"
  using assms
proof (induction ins arbitrary: a)
  case Nil
  then show ?case by (simp add: app_run_def)
next
  case (Cons i ins)
  obtain ck req where i: "i = (ck, req)" by (cases i)
  obtain a' r ops where h: "app_handle cf ck req a = (a', r, ops)" by (metis prod_cases3)
  have n: "set_names (i # ins) = set_names [(ck, req)] \<union> set_names ins" by (auto simp: set_names_def i)
  have "leaves_key k (ck, req)" "ck_op ck \<le> t" using Cons.prems(2) i by auto
  from served_leaves [OF h Cons.prems(1) this(1) Cons.prems(3) _ Cons.prems(5) this(2)]
  have s: "cache_ok (ap_store a')" "maxEntries (ap_store a') = maxEntries (ap_store a)" "stored_keys (ap_store a') \<subseteq> S"
      "visible t (ap_store a') k = visible t (ap_store a) k" using Cons.prems(4) n by auto
  then show ?case using Cons.IH [of a'] Cons.prems n by (simp add: app_run_def i h)
qed

lemma finite_set_names: "finite (set_names ins)"
proof -
  have "set_names ins \<subseteq> the ` (\<lambda>i. set_name (snd i)) ` set ins"
    by (force simp: set_names_def)
  then show ?thesis using finite_subset by blast
qed


lemma plain_node_answers:
  assumes "ap_limiter ap = None" and "rq_body req = Parsed body"
  shows "app_handle demo_config ck req ap = app_route demo_config ck req body ap"
  using assms by (simp add: app_handle_def after_limiter_def createAuthMiddleware_def demo_config_def)

lemma demo_lines: "parse_command (trim ''set k v'') = Some (CSet ''k'' ''v'' None)" "parse_command (trim ''get k'') = Some (CGet ''k'')"
  by code_simp+

lemma demo_set_body: "rq_body (api_request str [] None (setKey_call [] ''k'' ''v'' None)) = Parsed (Some (key_body ''k'' ''v''))"
proof -
  have "length (utf8 (stringify str (key_body ''k'' ''v''))) \<le> 64 * 1024"
    by (simp add: key_body_def join_on_def json_quote_def quote_char_def utf8_def utf8_char_def)
  then show ?thesis by (simp add: api_request_def setKey_call_def key_body_def Let_def)
qed

lemma demo_console_set:
  obtains se1 ap1 where "enter_at demo_config (at_time 10) str [] None 0 ''set k v'' (se, demo_app Primary []) = (se1, ap1)"
    "ln_tone (last_line se1) = Ok" "ap_limiter ap1 = None"
proof -
  let ?req = "api_request str [] None (setKey_call [] ''k'' ''v'' None)"
  have "validateEntry 256 10 (Some (key_body ''k'' ''v'')) = Inr (''k'', ''v'', None)"
    by (simp add: validateEntry_Inr key_body_def nullish_to_obj_def demo_key_ok)
  then obtain ap1 r ops where h: "app_handle demo_config (at_time 10) ?req (demo_app Primary []) = (ap1, r, ops)"
      and r: "res_status r = 200" "ap_limiter ap1 = None"
    using plain_node_answers [OF _ demo_set_body, of "demo_app Primary []" "at_time 10" str] call_routes(1) [of str "[]" None "''k''" "''v''" None]
    by (simp add: app_route.simps post_set_def rejectIfReplica_def demo_config_def)
  show ?thesis
    by (rule enter_at_call [OF demo_lines(1) _ h, where now = 0 and se = se])
      (use that r in \<open>auto simp: command_call_def last_line_end_run command_effect_def setKey_result_def explained_result_def
        status_ok_def res_json_def set_effect_def\<close>)
qed


text \<open>
  The keys \<open>.\<close> and \<open>..\<close> can be stored from the command line, and then read as missing: the
  path of the \<open>GET\<close> loses them on its way, and the client takes every 404 for a miss.
\<close>

lemma dot_keys_read_as_missing:
  assumes "k \<in> {''.'', ''..''}" and "app_handle cf ck (api_request str base ip (getKey_call base k)) ap = (ap', r, ops)"
    and "res_status r \<notin> {400, 401, 413, 429, 500}"
  shows "command_effect str (CGet k) (Fetched (res_status r) (Inr (res_body r))) = Inr (miss_effect k)"
proof (rule app_handle_cases [of cf ck "api_request str base ip (getKey_call base k)" ap])
  fix rl body
  assume "app_handle cf ck (api_request str base ip (getKey_call base k)) ap =
    app_route cf ck (api_request str base ip (getKey_call base k)) body (ap\<lparr>ap_limiter := rl\<rparr>)"
  then have "res_status r = 404"
    using assms(1,2) call_routes(2) [of str base ip k] by (auto simp: app_route.simps reply_def)
  then show ?thesis by (simp add: command_effect_def getKey_result_def)
qed (use assms in auto)

end
