(* ===== verification/NodePoll.thy ===== *)
theory NodePoll
  imports Api OpLog App "HOL-Library.Monad_Syntax"
begin

text \<open>
  How the dashboard follows a node: \<open>src/dashboard/src/hooks/useNode.ts\<close> polls \<open>/metrics\<close>,
  \<open>hooks/useKeyStats.ts\<close> fetches the keys when the token it is given changes, and
  \<open>pages/Dashboard.tsx\<close> computes that token from the polled counters. Polls may overlap and
  settle in any order; a poll that settles is one step.
\<close>

section \<open>Polling the metrics\<close>

record NodeMetrics =
  nm_node :: jsstring
  nm_keys :: nat
  nm_maxEntries :: nat
  nm_evictions :: nat
  nm_evictionPolicy :: jsstring
  nm_evictionSampleSize :: nat
  nm_uptimeSec :: rat
  nm_hits :: nat
  nm_misses :: nat
  nm_hitRate :: "rat option"
  nm_sets :: nat
  nm_deletes :: nat
  nm_opsPerSec :: rat
  nm_avgUs :: "rat option" \<comment> \<open>the fields of \<open>latency\<close>\<close>
  nm_p95Us :: "rat option"
  nm_samples :: nat

definition as_nullable :: "json option \<Rightarrow> rat option option" where
  "as_nullable j = (case j of Some JNull \<Rightarrow> Some None | Some (JNum (Fin q)) \<Rightarrow> Some (Some q) | _ \<Rightarrow> None)"

definition read_metrics :: "json \<Rightarrow> NodeMetrics option" where
  \<comment> \<open>the body as a \<open>NodeMetrics\<close>; \<open>None\<close>: not the body a node answers with\<close>
  "read_metrics j =
     (let num = (\<lambda>k. as_term (read_field k j));
          frac = (\<lambda>k. case read_field k j of Some (JNum (Fin q)) \<Rightarrow> Some q | _ \<Rightarrow> None);
          lat = (case read_field ''latency'' j of Some l \<Rightarrow> l | None \<Rightarrow> JNull)
      in do {
        n \<leftarrow> as_string (read_field ''node'' j);
        k \<leftarrow> num ''keys'';
        mx \<leftarrow> num ''maxEntries'';
        e \<leftarrow> num ''evictions'';
        pn \<leftarrow> as_string (read_field ''evictionPolicy'' j);
        sz \<leftarrow> num ''evictionSampleSize'';
        up \<leftarrow> frac ''uptimeSec'';
        h \<leftarrow> num ''hits'';
        m \<leftarrow> num ''misses'';
        hr \<leftarrow> as_nullable (read_field ''hitRate'' j);
        s \<leftarrow> num ''sets'';
        d \<leftarrow> num ''deletes'';
        ops \<leftarrow> frac ''opsPerSec'';
        a \<leftarrow> as_nullable (read_field ''avgUs'' lat);
        p \<leftarrow> as_nullable (read_field ''p95Us'' lat);
        ns \<leftarrow> as_term (read_field ''samples'' lat);
        Some \<lparr>nm_node = n, nm_keys = k, nm_maxEntries = mx, nm_evictions = e, nm_evictionPolicy = pn,
          nm_evictionSampleSize = sz, nm_uptimeSec = up, nm_hits = h, nm_misses = m, nm_hitRate = hr, nm_sets = s,
          nm_deletes = d, nm_opsPerSec = ops, nm_avgUs = a, nm_p95Us = p, nm_samples = ns\<rparr>
      })"

datatype NodeStatus = Connecting | Online | Offline

record MetricsSample =
  sm_at :: time_ms
  sm_p95Us :: "rat option"
  sm_hits :: nat
  sm_misses :: nat
  sm_avgUs :: "rat option"

record node_poll =
  po_metrics :: "NodeMetrics option"
  po_status :: NodeStatus \<comment> \<open>\<open>status\<close> and \<open>statusRef\<close>, which are always set together\<close>
  po_history :: "MetricsSample list"
  po_prevEvictions :: "nat option"

definition HISTORY_CAP :: nat where "HISTORY_CAP = 60"

definition new_poll :: node_poll where
  "new_poll = \<lparr>po_metrics = None, po_status = Connecting, po_history = [], po_prevEvictions = None\<rparr>"

definition metrics_sample :: "time_ms \<Rightarrow> NodeMetrics \<Rightarrow> MetricsSample" where
  "metrics_sample now m = \<lparr>sm_at = now, sm_p95Us = nm_p95Us m, sm_hits = nm_hits m, sm_misses = nm_misses m, sm_avgUs = nm_avgUs m\<rparr>"

definition new_evictions :: "node_poll \<Rightarrow> NodeMetrics \<Rightarrow> nat" where
  \<comment> \<open>\<open>n\<close>, or 0 when nothing is logged\<close>
  "new_evictions po m = (case po_prevEvictions po of
       None \<Rightarrow> 0 | Some prev \<Rightarrow> if prev < nm_evictions m then nm_evictions m - prev else 0)"

definition eviction_text :: "nat \<Rightarrow> nat \<Rightarrow> utf16" where
  "eviction_text n tot = units (''lru evicted '' @ show_nat n @ '' key'' @ (if 1 < n then ''s'' else []) @
     '' (total '' @ show_nat tot @ '')'')"

definition tick :: "time_ms \<Rightarrow> NodeMetrics option \<Rightarrow> node_poll \<times> op_log \<Rightarrow> node_poll \<times> op_log" where
  \<comment> \<open>\<open>None\<close>: \<open>fetchMetrics\<close> throws\<close>
  "tick now answer st = (case st of (po, l) \<Rightarrow> (case answer of
       Some m \<Rightarrow>
         let l' = (if po_status po = Offline then logEvent now LSet (units (''link restored to '' @ nm_node m)) l else l);
             l'' = (if 0 < new_evictions po m then logEvent now LEvict (eviction_text (new_evictions po m) (nm_evictions m)) l' else l')
         in (\<lparr>po_metrics = Some m, po_status = Online,
              po_history = push_capped HISTORY_CAP (po_history po) (metrics_sample now m),
              po_prevEvictions = Some (nm_evictions m)\<rparr>, l'')
     | None \<Rightarrow> (po\<lparr>po_status := Offline\<rparr>,
         if po_status po = Online then logEvent now LErr (units ''lost contact with node'') l else l)))"

definition poll_run :: "node_poll \<times> op_log \<Rightarrow> (time_ms \<times> NodeMetrics option) list \<Rightarrow> node_poll \<times> op_log" where
  "poll_run st ts = foldl (\<lambda>st (now, answer). tick now answer st) st ts"

definition answers :: "(time_ms \<times> NodeMetrics option) list \<Rightarrow> (time_ms \<times> NodeMetrics) list" where
  "answers ts = List.map_filter (\<lambda>(now, a). map_option (Pair now) a) ts"

section \<open>The list of keys\<close>

definition keyRefreshToken :: "NodeMetrics option \<Rightarrow> nat" where
  "keyRefreshToken metrics = (case metrics of None \<Rightarrow> 0 | Some m \<Rightarrow> nm_sets m + nm_deletes m + nm_evictions m)"

record key_view =
  kv_token :: "nat option" \<comment> \<open>the token of the effect that ran last\<close>
  kv_effect :: nat \<comment> \<open>the number of effects that ran; all but the last are cancelled\<close>
  kv_stats :: "json option"

definition new_key_view :: key_view where
  "new_key_view = \<lparr>kv_token = None, kv_effect = 0, kv_stats = None\<rparr>"

definition render_keys :: "nat \<Rightarrow> key_view \<Rightarrow> key_view \<times> bool" where
  \<comment> \<open>the component renders with this token; whether \<open>/keys/stats\<close> is fetched\<close>
  "render_keys token v = (if kv_token v = Some token then (v, False)
     else (v\<lparr>kv_token := Some token, kv_effect := kv_effect v + 1\<rparr>, True))"

definition settle_keys :: "nat \<Rightarrow> caught + json \<Rightarrow> key_view \<Rightarrow> key_view" where
  \<comment> \<open>the fetch of effect \<open>e\<close> settles\<close>
  "settle_keys e result v = (if e \<noteq> kv_effect v then v
     else v\<lparr>kv_stats := (case result of Inl _ \<Rightarrow> None | Inr j \<Rightarrow> read_field ''keys'' j)\<rparr>)"

section \<open>What the polls report\<close>

lemma answers_simps [simp]: "answers [] = []" "answers ((now, None) # ts) = answers ts" "answers ((now, Some m) # ts) = (now, m) # answers ts"
  by (simp_all add: answers_def List.map_filter_def)

definition counters :: "(time_ms \<times> NodeMetrics option) list \<Rightarrow> nat list" where
  \<comment> \<open>the eviction counters answered\<close>
  "counters ts = map (\<lambda>(now, m). nm_evictions m) (answers ts)"

lemma counters_simps [simp]: "counters [] = []" "counters ((now, None) # ts) = counters ts"
    "counters ((now, Some m) # ts) = nm_evictions m # counters ts"
  by (simp_all add: counters_def)

lemma answers_append: "answers (ts @ us) = answers ts @ answers us"
  by (simp add: answers_def List.map_filter_def)

lemma counters_append: "counters (ts @ us) = counters ts @ counters us"
  by (simp add: counters_def answers_append)

text \<open>
  What each poll is to leave in the log, told from the polls that settled before it and not from
  the state of the hook.
\<close>

type_synonym log_line = "time_ms \<times> LogKind \<times> utf16"

definition lines_of :: "(time_ms \<times> NodeMetrics option) list \<Rightarrow> time_ms \<times> NodeMetrics option \<Rightarrow> log_line list" where
  "lines_of before p = (let lost = before \<noteq> [] \<and> snd (last before) = None; there = before \<noteq> [] \<and> snd (last before) \<noteq> None
     in case p of
       (now, None) \<Rightarrow> if there then [(now, LErr, units ''lost contact with node'')] else []
     | (now, Some m) \<Rightarrow> (if lost then [(now, LSet, units (''link restored to '' @ nm_node m))] else [])
         @ (if counters before \<noteq> [] \<and> last (counters before) < nm_evictions m
            then [(now, LEvict, eviction_text (nm_evictions m - last (counters before)) (nm_evictions m))] else []))"

definition poll_lines :: "(time_ms \<times> NodeMetrics option) list \<Rightarrow> log_line list" where
  "poll_lines ts = concat (map (\<lambda>i. lines_of (take i ts) (ts ! i)) [0..<length ts])"

definition log_lines :: "op_log \<Rightarrow> log_line list" where
  "log_lines l = map (\<lambda>e. (lg_at e, lg_kind e, lg_text e)) (lg_events l)"

definition eviction_lines :: "log_line list \<Rightarrow> utf16 list" where
  "eviction_lines ls = map (\<lambda>(_, _, t). t) (filter (\<lambda>(_, k, _). k = LEvict) ls)"

definition steps_of :: "nat list \<Rightarrow> (nat \<times> nat) list" where
  \<comment> \<open>each counter with the one answered next\<close>
  "steps_of cs = zip cs (tl cs)"

lemma poll_lines_Nil [simp]: "poll_lines [] = []"
  by (simp add: poll_lines_def)

lemma poll_lines_snoc: "poll_lines (ts @ [t]) = poll_lines ts @ lines_of ts t"
  by (auto simp: poll_lines_def nth_append intro!: arg_cong [where f = concat] map_cong)

lemma steps_snoc: "steps_of (cs @ [c]) = steps_of cs @ (if cs = [] then [] else [(last cs, c)])"
  by (induction cs) (auto simp: steps_of_def neq_Nil_conv)

lemma steps_sum: "sorted cs \<Longrightarrow> sum_list (map (\<lambda>(a, b). b - a) (steps_of cs)) = (if cs = [] then 0 else last cs - hd cs)"
proof (induction cs rule: rev_induct)
  case (snoc c cs)
  then have "hd cs \<le> last cs" if "cs \<noteq> []" using that by (cases cs) (auto simp: sorted_append)
  then show ?case using snoc by (cases "cs = []") (auto simp: steps_snoc sorted_append steps_of_def [of "[]"] steps_of_def [of "[_]"])
next
  case Nil
  then show ?case by (simp add: steps_of_def)
qed

lemma log_lines_logEvent:
  assumes "log_lines l = slice_last CAP h"
  shows "log_lines (logEvent now kind t l) = slice_last CAP (h @ [(now, kind, t)])"
proof -
  have "log_lines (logEvent now kind t l) = push_capped CAP (log_lines l) (now, kind, t)"
    by (simp add: log_lines_def logEvent_def push_capped_def slice_last_def drop_map)
  also have "\<dots> = slice_last CAP (h @ [(now, kind, t)])"
    unfolding assms by (rule push_capped_slice) (simp add: CAP_def)
  finally show ?thesis .
qed

lemma poll_run_state:
  assumes "po_history (fst st) = slice_last NodePoll.HISTORY_CAP h"
  shows "po_history (fst (poll_run st ts)) = slice_last NodePoll.HISTORY_CAP (h @ map (\<lambda>(now, m). metrics_sample now m) (answers ts)) \<and>
    po_metrics (fst (poll_run st ts)) = (if answers ts = [] then po_metrics (fst st) else Some (snd (last (answers ts)))) \<and>
    po_status (fst (poll_run st ts)) = (if ts = [] then po_status (fst st) else if snd (last ts) = None then Offline else Online)"
  using assms
proof (induction ts arbitrary: st h)
  case Nil
  then show ?case by (simp add: poll_run_def)
next
  case (Cons t ts)
  obtain now answer where t: "t = (now, answer)" by (cases t)
  obtain po l where st: "st = (po, l)" by (cases st)
  have cap: "0 < NodePoll.HISTORY_CAP" by (simp add: NodePoll.HISTORY_CAP_def)
  have run: "poll_run st (t # ts) = poll_run (tick now answer st) ts" by (simp add: poll_run_def t)
  show ?case
  proof (cases answer)
    case None
    then show ?thesis using Cons.IH [of "tick now answer st" h] Cons.prems unfolding run by (auto simp: tick_def st t)
  next
    case (Some m)
    then show ?thesis
      using Cons.IH [of "tick now answer st" "h @ [metrics_sample now m]"] Cons.prems unfolding run
      by (auto simp: tick_def st t Let_def push_capped_slice [OF cap])
  qed
qed

lemma poll_run_snoc: "poll_run st (ts @ [(now, answer)]) = tick now answer (poll_run st ts)"
  by (simp add: poll_run_def)

lemma poll_run_log:
  assumes "log_lines l = slice_last CAP h"
  shows "log_lines (snd (poll_run (new_poll, l) ts)) = slice_last CAP (h @ poll_lines ts)
    \<and> po_prevEvictions (fst (poll_run (new_poll, l) ts)) = (if counters ts = [] then None else Some (last (counters ts)))"
proof (induction ts rule: rev_induct)
  case Nil
  show ?case using assms by (simp add: poll_run_def new_poll_def)
next
  case (snoc t ts)
  obtain now answer where t: "t = (now, answer)" by (cases t)
  obtain po g where st: "poll_run (new_poll, l) ts = (po, g)" by (cases "poll_run (new_poll, l) ts")
  have g: "log_lines g = slice_last CAP (h @ poll_lines ts)"
      and prev: "po_prevEvictions po = (if counters ts = [] then None else Some (last (counters ts)))"
    using snoc st by simp_all
  have status: "po_status po = (if ts = [] then Connecting else if snd (last ts) = None then Offline else Online)"
    using poll_run_state [of "(new_poll, l)" "[]" ts] st by (simp add: new_poll_def)
  note add = log_lines_logEvent [OF g] log_lines_logEvent [OF log_lines_logEvent [OF g]]
  show ?case
    by (cases answer)
      (auto simp: t poll_run_snoc st tick_def Let_def status prev add g poll_lines_snoc lines_of_def counters_append new_evictions_def)
qed

lemma eviction_lines_simps [simp]: "eviction_lines (ls @ ms) = eviction_lines ls @ eviction_lines ms" "eviction_lines [] = []"
    "eviction_lines ((now, k, t) # ls) = (if k = LEvict then [t] else []) @ eviction_lines ls"
  by (simp_all add: eviction_lines_def)

lemma eviction_lines_of:
  "eviction_lines (poll_lines ts) = map (\<lambda>(a, b). eviction_text (b - a) b) (filter (\<lambda>(a, b). a < b) (steps_of (counters ts)))"
proof (induction ts rule: rev_induct)
  case Nil
  show ?case by (simp add: steps_of_def)
next
  case (snoc t ts)
  obtain now answer where t: "t = (now, answer)" by (cases t)
  show ?case
    by (cases answer)
      (auto simp: t poll_lines_snoc snoc counters_append steps_snoc steps_of_def [of "[]"] lines_of_def Let_def)
qed

text \<open>C38: The dashboard's picture of a node: after any polls that settled, in any order and with any
  failures in between, the status is that of the last one, the metrics are those of the last
  answer, and the history holds the last 60 answers. The log, whatever it held, shows its last
  200 lines: what it held, followed by what the polls added, and that is exactly one line for a
  failure after an answer, one for an answer after a failure, and one for each answer whose
  eviction counter is above that of the answer before, with the difference and the counter; no
  others. When the answers settle in the order of the counter, these differences add up to what
  the counter grew by, so that each eviction is logged once.\<close>

theorem polls_follow_node:
  assumes "length (lg_events l) \<le> CAP"
  shows "po_status (fst (poll_run (new_poll, l) ts)) = (if ts = [] then Connecting else if snd (last ts) = None then Offline else Online)
   \<and> po_metrics (fst (poll_run (new_poll, l) ts)) = (if answers ts = [] then None else Some (snd (last (answers ts))))
   \<and> po_history (fst (poll_run (new_poll, l) ts)) = slice_last NodePoll.HISTORY_CAP (map (\<lambda>(now, m). metrics_sample now m) (answers ts))
   \<and> log_lines (snd (poll_run (new_poll, l) ts)) = slice_last CAP (log_lines l @ poll_lines ts)
   \<and> eviction_lines (poll_lines ts) =
       map (\<lambda>(a, b). eviction_text (b - a) b) (filter (\<lambda>(a, b). a < b) (steps_of (counters ts)))
   \<and> (sorted (counters ts) \<longrightarrow>
       sum_list (map (\<lambda>(a, b). b - a) (filter (\<lambda>(a, b). a < b) (steps_of (counters ts)))) =
         (if counters ts = [] then 0 else last (counters ts) - hd (counters ts)))"
proof -
  have "sum_list (map (\<lambda>(a, b). b - a) (filter (\<lambda>(a, b). a < b) xs)) = sum_list (map (\<lambda>(a, b). b - a) xs)" for xs :: "(nat \<times> nat) list"
    by (induction xs) auto
  moreover have "log_lines l = slice_last CAP (log_lines l)" using assms by (simp add: log_lines_def slice_last_def)
  ultimately show ?thesis
    using poll_run_state [of "(new_poll, l)" "[]" ts] poll_run_log [of l "log_lines l" ts] eviction_lines_of [of ts] steps_sum [of "counters ts"]
    by (simp add: new_poll_def)
qed

definition demo_metrics :: "nat \<Rightarrow> NodeMetrics" where
  "demo_metrics e = \<lparr>nm_node = ''node-1'', nm_keys = 2, nm_maxEntries = 2, nm_evictions = e, nm_evictionPolicy = ''lru'',
     nm_evictionSampleSize = 5, nm_uptimeSec = 60, nm_hits = 0, nm_misses = 0, nm_hitRate = None, nm_sets = 9, nm_deletes = 0,
     nm_opsPerSec = 0, nm_avgUs = None, nm_p95Us = None, nm_samples = 0\<rparr>"

definition demo_polls :: "(time_ms \<times> NodeMetrics option) list" where
  "demo_polls = [(0, Some (demo_metrics 5)), (1, None), (2, Some (demo_metrics 7))]"

theorem polls_follow_node_witness:
  "log_lines (snd (poll_run (new_poll, new_log) demo_polls)) =
     [(1, LErr, units ''lost contact with node''), (2, LSet, units ''link restored to node-1''),
      (2, LEvict, units ''lru evicted 2 keys (total 7)'')]"
proof -
  have "slice_last CAP (log_lines new_log @ poll_lines demo_polls) =
     [(1, LErr, units ''lost contact with node''), (2, LSet, units ''link restored to node-1''),
      (2, LEvict, units ''lru evicted 2 keys (total 7)'')]" by code_simp
  then show ?thesis using polls_follow_node [of new_log demo_polls] by (simp add: new_log_def)
qed

text \<open>
  The polls of the timer and those after an operation are not serialized. When an answer
  overtakes an earlier one, the counter seems to fall and to rise again, and the evictions
  between the two are logged twice: two evictions, four announced.
\<close>

lemma overtaken_poll_counts_twice:
  "map lg_text (lg_events (snd (poll_run (new_poll, new_log)
     [(0, Some (demo_metrics 5)), (1, Some (demo_metrics 7)), (2, Some (demo_metrics 5)), (3, Some (demo_metrics 7))]))) =
   [units ''lru evicted 2 keys (total 7)'', units ''lru evicted 2 keys (total 7)'']"
  by code_simp

section \<open>When the list of keys is fetched\<close>

definition node_token :: "app_config \<Rightarrow> clock \<Rightarrow> node_app \<Rightarrow> nat" where
  \<comment> \<open>the token after a poll of this node\<close>
  "node_token cf ck ap = keyRefreshToken (read_metrics (res_body (fst (snd (get_metrics cf ck ap)))))"

lemma as_nullable_rat [simp]: "as_nullable (Some (rat_json x)) = Some x"
  by (simp add: as_nullable_def rat_json_def split: option.split)

lemma read_metrics_body:
  assumes "mid = [] \<or> mid = [(''replicaCount'', x)] \<or> mid = [(''primaryUrl'', x)]"
  shows "read_metrics (JObj ([(''node'', JStr n), (''role'', r)] @ mid @ [(''keys'', json_nat k), (''maxEntries'', json_nat mx),
       (''evictions'', json_nat e), (''evictionPolicy'', JStr pn), (''evictionSampleSize'', json_nat sz)] @ snapshot_fields sn)) =
     Some \<lparr>nm_node = n, nm_keys = k, nm_maxEntries = mx, nm_evictions = e, nm_evictionPolicy = pn,
       nm_evictionSampleSize = sz, nm_uptimeSec = ms_uptimeSec sn, nm_hits = ms_hits sn, nm_misses = ms_misses sn,
       nm_hitRate = ms_hitRate sn, nm_sets = ms_sets sn, nm_deletes = ms_deletes sn, nm_opsPerSec = ms_opsPerSec sn,
       nm_avgUs = avgUs (ms_latency sn), nm_p95Us = p95Us (ms_latency sn), nm_samples = samples (ms_latency sn)\<rparr>"
  using assms by (elim disjE) (simp_all add: read_metrics_def snapshot_fields_def Let_def rat_json_def [of "Some _"])

text \<open>What a node answers is read as it was written.\<close>

lemma read_get_metrics_eq:
  "read_metrics (res_body (fst (snd (get_metrics cf ck ap)))) =
     (let sn = metrics_snapshot (ck_now ck) (ap_metrics ap) in
      Some \<lparr>nm_node = cf_nodeId cf, nm_keys = cache_size (ap_store ap), nm_maxEntries = maxEntries (ap_store ap),
        nm_evictions = evictionCount (ap_store ap), nm_evictionPolicy = policy_name (policy (ap_store ap)),
        nm_evictionSampleSize = cf_evictionSampleSize cf, nm_uptimeSec = ms_uptimeSec sn, nm_hits = ms_hits sn,
        nm_misses = ms_misses sn, nm_hitRate = ms_hitRate sn, nm_sets = ms_sets sn, nm_deletes = ms_deletes sn,
        nm_opsPerSec = ms_opsPerSec sn, nm_avgUs = avgUs (ms_latency sn), nm_p95Us = p95Us (ms_latency sn),
        nm_samples = samples (ms_latency sn)\<rparr>)"
proof -
  have "\<exists>x. (if nr_role (ap_role ap) = Primary then [(''replicaCount'', json_nat (length (nr_replicaUrls (ap_role ap))))]
       else opt_field ''primaryUrl'' (nr_primaryUrl (ap_role ap))) \<in> {[], [(''replicaCount'', x)], [(''primaryUrl'', x)]}"
    by (auto simp: opt_field_def split: option.split)
  then obtain x mid where mid: "mid = [] \<or> mid = [(''replicaCount'', x)] \<or> mid = [(''primaryUrl'', x)]"
      "mid = (if nr_role (ap_role ap) = Primary then [(''replicaCount'', json_nat (length (nr_replicaUrls (ap_role ap))))]
       else opt_field ''primaryUrl'' (nr_primaryUrl (ap_role ap)))" by auto
  show ?thesis
    unfolding get_metrics_def reply_def mid(2) [symmetric] snd_conv fst_conv ok_response_def response.select_convs
      read_metrics_body [OF mid(1)] Let_def by (rule refl)
qed

lemma snapshot_counters:
  "ms_sets (metrics_snapshot now mt) = m_sets mt" "ms_deletes (metrics_snapshot now mt) = m_deletes mt"
  "ms_hits (metrics_snapshot now mt) = m_hits mt" "ms_misses (metrics_snapshot now mt) = m_misses mt"
  "ms_hitRate (metrics_snapshot now mt) =
     (if 0 < m_hits mt + m_misses mt then Some (of_nat (m_hits mt) / of_nat (m_hits mt + m_misses mt)) else None)"
  by (simp_all add: metrics_snapshot_def Let_def)

lemma read_get_metrics: "\<exists>m. read_metrics (res_body (fst (snd (get_metrics cf ck ap)))) = Some m \<and> nm_sets m = m_sets (ap_metrics ap) \<and>
    nm_deletes m = m_deletes (ap_metrics ap) \<and> nm_evictions m = evictionCount (ap_store ap) \<and>
    nm_keys m = cache_size (ap_store ap) \<and> nm_maxEntries m = maxEntries (ap_store ap)"
  by (simp add: read_get_metrics_eq Let_def snapshot_counters)

lemma node_token_eq: "node_token cf ck ap = m_sets (ap_metrics ap) + m_deletes (ap_metrics ap) + evictionCount (ap_store ap)"
  using read_get_metrics [of cf ck ap] by (auto simp: node_token_def keyRefreshToken_def)

end
