(* ===== verification/DashboardSpec.thy ===== *)
theory DashboardSpec
  imports ConsoleSpec NodePoll
begin

text \<open>
  The dashboard and a node together: which changes of the node's contents its list of keys
  follows.
\<close>

section \<open>Requests that leave the counters alone\<close>

lemma removal_keeps_token:
  assumes "app_handle cf ck req ap = (ap', r, ops)" and "rq_route req \<in> {FlushR, InvalidateR}"
  shows "node_token cf ck2 ap' = node_token cf ck1 ap \<and>
    (rq_route req = FlushR \<longrightarrow> res_status r = 200 \<longrightarrow> entries (ap_store ap') = [])"
proof (rule app_handle_cases [of cf ck req ap])
  fix rl body
  assume "app_handle cf ck req ap = app_route cf ck req body (ap\<lparr>ap_limiter := rl\<rparr>)"
  then have "app_route cf ck req body (ap\<lparr>ap_limiter := rl\<rparr>) = (ap', r, ops)" using assms(1) by simp
  then show ?thesis using assms(2)
    by (auto simp: app_route.simps post_flush_def post_invalidate_def reply_def rejectIfReplica_def node_token_eq
        cache_clear_def deleteByPrefix_def Let_def split: option.splits if_splits prod.splits)
next
  fix rl r'
  assume "app_handle cf ck req ap = (ap\<lparr>ap_limiter := rl\<rparr>, r', [])" and "res_status r' \<in> {400, 401, 413, 429, 500}"
  then show ?thesis using assms(1) by (auto simp: node_token_eq)
qed

text \<open>The dashboard's list of keys does not follow a \<open>/flush\<close> or an \<open>/invalidate\<close>: neither
  counts as a set, a delete or an eviction, so the token the list is fetched for stays the
  same, and the dashboard goes on showing the keys it fetched before, however the node's
  store was emptied.\<close>

lemma key_list_survives_flush:
  assumes "app_handle cf ck req ap = (ap', r, ops)" and "rq_route req \<in> {FlushR, InvalidateR}"
    and "kv_token v = Some (node_token cf ck1 ap)"
  shows "render_keys (node_token cf ck2 ap') v = (v, False) \<and>
    (rq_route req = FlushR \<longrightarrow> res_status r = 200 \<longrightarrow> entries (ap_store ap') = [])"
  using removal_keeps_token [OF assms(1,2), of ck2 ck1] assms(3) by (simp add: render_keys_def)

definition filled_app :: node_app where
  "filled_app = (demo_app Primary [])\<lparr>ap_store := small_cache LRU\<rparr>"

lemma key_list_survives_flush_witness:
  "snd (render_keys (node_token demo_config (at_time 9) (fst (app_handle demo_config (at_time 8) (api_request (\<lambda>_. []) [] None (flush_call [])) filled_app)))
     \<lparr>kv_token = Some (node_token demo_config (at_time 7) filled_app), kv_effect = 1, kv_stats = None\<rparr>) = False
   \<and> entries (ap_store (fst (app_handle demo_config (at_time 8) (api_request (\<lambda>_. []) [] None (flush_call [])) filled_app))) = []
   \<and> entries (ap_store filled_app) \<noteq> []"
proof -
  let ?req = "api_request (\<lambda>_. []) [] None (flush_call [])"
  have "fetch_path ''/flush'' = [''flush'']" by (simp add: fetch_path_def split_no_slash)
  then have q: "rq_route ?req = FlushR" "rq_body ?req = Parsed None"
    by (simp_all add: api_request_def flush_call_def api_route_def Let_def)
  obtain ap' r ops where h: "app_handle demo_config (at_time 8) ?req filled_app = (ap', r, ops)" by (metis prod_cases3)
  have "res_status r = 200"
    using h plain_node_answers [of filled_app ?req None "at_time 8"] q
    by (auto simp: filled_app_def app_route.simps post_flush_def rejectIfReplica_def)
  moreover have "entries (small_cache LRU) \<noteq> []" by (simp add: small_defs)
  ultimately show ?thesis
    using key_list_survives_flush [OF h, of "\<lparr>kv_token = Some (node_token demo_config (at_time 7) filled_app), kv_effect = 1, kv_stats = None\<rparr>"
        "at_time 7" "at_time 9"] q
    by (simp add: h) (simp add: filled_app_def)
qed

end
