(* ===== verification/AsciiPlot.thy ===== *)
theory AsciiPlot
  imports Text
begin

text \<open>
  Plots on a character grid, \<open>src/dashboard/src/lib/asciiPlot.ts\<close> and \<open>lib/asciiChart.ts\<close>. \<open>fl\<close>
  rounds the result of an arithmetic operation to a double; \<open>rounds\<close> states what the theorems
  use of it. The loops of \<open>plotSeries\<close> are the list of the cells they set, in order.
\<close>

definition rounds :: "(rat \<Rightarrow> rat) \<Rightarrow> bool" where
  \<comment> \<open>rounding is monotone, and exact on integers up to \<open>2 ^ 53\<close>\<close>
  "rounds fl \<longleftrightarrow> mono fl \<and> (\<forall>i. \<bar>i\<bar> \<le> 2 ^ 53 \<longrightarrow> fl (of_int i) = of_int i)"

definition js_round :: "rat \<Rightarrow> int" where
  \<comment> \<open>\<open>Math.round\<close>\<close>
  "js_round x = \<lfloor>x + 1 / 2\<rfloor>"

section \<open>Line plots\<close>

definition PLOT_DOT :: utf16 where "PLOT_DOT = [183]"

record PlotOptions =
  pl_cols :: nat
  pl_rows :: nat
  pl_min :: "rat option"
  pl_max :: "rat option"
  pl_dot :: "utf16 option"

definition dot_of :: "PlotOptions \<Rightarrow> utf16" where
  "dot_of opts = (case pl_dot opts of None \<Rightarrow> PLOT_DOT | Some d \<Rightarrow> d)"

definition bounds :: "(rat \<Rightarrow> rat) \<Rightarrow> rat list \<Rightarrow> rat option \<Rightarrow> rat option \<Rightarrow> rat \<times> rat" where
  "bounds fl values mn mx =
     (let lo = (case mn of Some m \<Rightarrow> m | None \<Rightarrow> Min (set values));
          hi = (case mx of Some m \<Rightarrow> m | None \<Rightarrow> Max (set values))
      in (lo, if hi \<le> lo then fl (lo + 1) else hi))"

type_synonym cell = "int \<times> int"

definition set_cell :: "nat \<Rightarrow> nat \<Rightarrow> utf16 \<Rightarrow> utf16 list \<Rightarrow> cell \<Rightarrow> utf16 list" where
  "set_cell cols rows dot grid c = (case c of (x, y) \<Rightarrow>
     if x < 0 \<or> int cols \<le> x \<or> y < 0 \<or> int rows \<le> y then grid else grid[nat (y * int cols + x) := dot])"

definition point_x :: "(rat \<Rightarrow> rat) \<Rightarrow> nat \<Rightarrow> nat \<Rightarrow> nat \<Rightarrow> int" where
  "point_x fl cols n i = (if n \<le> 1 then 0
     else js_round (fl (fl (of_nat i / (of_nat n - 1)) * (of_nat cols - 1))))"

definition point_y :: "(rat \<Rightarrow> rat) \<Rightarrow> nat \<Rightarrow> rat \<Rightarrow> rat \<Rightarrow> rat \<Rightarrow> int" where
  \<comment> \<open>row 0 is the top of the plot\<close>
  "point_y fl rows lo hi v = (let t = fl (fl (v - lo) / fl (hi - lo))
     in js_round (fl (fl (1 - min 1 (max 0 t)) * (of_nat rows - 1))))"

definition plot_points :: "(rat \<Rightarrow> rat) \<Rightarrow> nat \<Rightarrow> nat \<Rightarrow> rat \<Rightarrow> rat \<Rightarrow> rat option list \<Rightarrow> cell option list" where
  "plot_points fl cols rows lo hi values = map (\<lambda>(i, v).
     map_option (\<lambda>v. (point_x fl cols (length values) i, point_y fl rows lo hi v)) v) (enumerate 0 values)"

definition run_cells :: "int \<Rightarrow> int \<Rightarrow> int \<Rightarrow> cell list" where
  \<comment> \<open>a vertical run: \<open>[a, b] = y <= y' ? [y, y'] : [y', y]\<close>\<close>
  "run_cells x y y' = map (Pair x) [min y y'..max y y']"

fun column_cells :: "(int \<Rightarrow> int) \<Rightarrow> int \<Rightarrow> int list \<Rightarrow> cell list" where
  \<comment> \<open>the loop over the columns of a segment, with \<open>lastY\<close>\<close>
  "column_cells f lastY [] = []"
| "column_cells f lastY (x # xs) = run_cells x lastY (f x) @ column_cells f (f x) xs"

definition segment_y :: "(rat \<Rightarrow> rat) \<Rightarrow> cell \<Rightarrow> cell \<Rightarrow> int \<Rightarrow> int" where
  "segment_y fl prev p x = js_round (fl (of_int (snd prev) +
     fl (of_int ((snd p - snd prev) * (x - fst prev)) / of_int (fst p - fst prev))))"

definition segment_cells :: "(rat \<Rightarrow> rat) \<Rightarrow> cell \<Rightarrow> cell \<Rightarrow> cell list" where
  "segment_cells fl prev p = (if fst p - fst prev = 0 then run_cells (fst p) (snd prev) (snd p)
     else column_cells (segment_y fl prev p) (snd prev) [fst prev..fst p])"

fun trace_cells :: "(rat \<Rightarrow> rat) \<Rightarrow> cell option \<Rightarrow> cell option list \<Rightarrow> cell list" where
  "trace_cells fl prev [] = []"
| "trace_cells fl prev (None # ps) = trace_cells fl None ps"
| "trace_cells fl prev (Some p # ps) =
     (case prev of None \<Rightarrow> [p] | Some q \<Rightarrow> segment_cells fl q p) @ trace_cells fl (Some p) ps"

definition join_lines :: "utf16 list \<Rightarrow> utf16" where
  "join_lines ls = (case ls of [] \<Rightarrow> [] | l # rest \<Rightarrow> l @ concat (map (\<lambda>k. 10 # k) rest))"

definition grid_lines :: "nat \<Rightarrow> nat \<Rightarrow> utf16 list \<Rightarrow> utf16 list" where
  "grid_lines cols rows grid = map (\<lambda>r. concat (take cols (drop (r * cols) grid))) [0..<rows]"

definition plot_bounds :: "(rat \<Rightarrow> rat) \<Rightarrow> rat option list \<Rightarrow> PlotOptions \<Rightarrow> rat \<times> rat" where
  "plot_bounds fl values opts = (let present = List.map_filter id values
     in bounds fl (if present = [] then [0] else present) (pl_min opts) (pl_max opts))"

definition plot_grid :: "(rat \<Rightarrow> rat) \<Rightarrow> rat option list \<Rightarrow> PlotOptions \<Rightarrow> utf16 list" where
  "plot_grid fl values opts = (case plot_bounds fl values opts of (lo, hi) \<Rightarrow>
     foldl (set_cell (pl_cols opts) (pl_rows opts) (dot_of opts))
       (replicate (pl_cols opts * pl_rows opts) (units '' ''))
       (trace_cells fl None (plot_points fl (pl_cols opts) (pl_rows opts) lo hi values)))"

record PlotResult =
  pr_text :: utf16
  pr_min :: rat
  pr_max :: rat

definition plotSeries :: "(rat \<Rightarrow> rat) \<Rightarrow> rat option list \<Rightarrow> PlotOptions \<Rightarrow> PlotResult" where
  "plotSeries fl values opts = \<lparr>
     pr_text = join_lines (grid_lines (pl_cols opts) (pl_rows opts) (plot_grid fl values opts)),
     pr_min = fst (plot_bounds fl values opts), pr_max = snd (plot_bounds fl values opts)\<rparr>"

definition axisTicks :: "(rat \<Rightarrow> rat) \<Rightarrow> rat \<Rightarrow> rat \<Rightarrow> nat \<Rightarrow> rat list" where
  "axisTicks fl mn mx cnt = (if cnt \<le> 1 then [mx]
     else map (\<lambda>i. fl (mn + fl (fl (fl (mx - mn) * (of_nat cnt - 1 - of_nat i)) / (of_nat cnt - 1)))) [0..<cnt])"

section \<open>Bars\<close>

definition BLOCK :: utf16 where "BLOCK = [9608]"

definition bar_heights :: "(rat \<Rightarrow> rat) \<Rightarrow> nat \<Rightarrow> rat list \<Rightarrow> int list" where
  "bar_heights fl rows values = (let mx = Max (set (1 # values))
     in map (\<lambda>v. if v \<le> 0 then 0 else max 1 (js_round (fl (fl (v / mx) * of_nat rows)))) values)"

definition join_space :: "utf16 list \<Rightarrow> utf16" where
  "join_space ls = (case ls of [] \<Rightarrow> [] | l # rest \<Rightarrow> l @ concat (map (\<lambda>k. 32 # k) rest))"

definition bar_lines :: "(rat \<Rightarrow> rat) \<Rightarrow> rat list \<Rightarrow> nat \<Rightarrow> nat \<Rightarrow> utf16 \<Rightarrow> utf16 list" where
  "bar_lines fl values rows barWidth block = map (\<lambda>r. join_space (map
     (\<lambda>h. if int r \<le> h then repeat barWidth block else repeat barWidth (units '' '')) (bar_heights fl rows values)))
     (rev [1..<rows + 1])"

definition renderBarChart :: "(rat \<Rightarrow> rat) \<Rightarrow> rat list \<Rightarrow> nat \<Rightarrow> nat option \<Rightarrow> utf16 option \<Rightarrow> utf16" where
  "renderBarChart fl values rows barWidth block = join_lines (bar_lines fl values rows
     (case barWidth of None \<Rightarrow> 3 | Some w \<Rightarrow> w) (case block of None \<Rightarrow> BLOCK | Some b \<Rightarrow> b))"

definition renderMeter :: "(rat \<Rightarrow> rat) \<Rightarrow> rat option \<Rightarrow> nat \<Rightarrow> utf16" where
  \<comment> \<open>\<open>None\<close>: the ratio is not finite\<close>
  "renderMeter fl ratio width =
     (let clamped = min 1 (max 0 (case ratio of None \<Rightarrow> 0 | Some r \<Rightarrow> r));
          filled = js_round (fl (clamped * of_nat width))
      in repeat (nat filled) [9608] @ repeat (nat (max 0 (int width - filled))) [9617])"

section \<open>The grid\<close>

definition in_grid :: "nat \<Rightarrow> nat \<Rightarrow> cell \<Rightarrow> bool" where
  "in_grid cols rows c \<longleftrightarrow> 0 \<le> fst c \<and> fst c < int cols \<and> 0 \<le> snd c \<and> snd c < int rows"

definition cell_index :: "nat \<Rightarrow> cell \<Rightarrow> nat" where
  "cell_index cols c = nat (snd c * int cols + fst c)"

lemma cell_index_inject:
  assumes "in_grid cols rows c" and "in_grid cols rows d"
  shows "cell_index cols c = cell_index cols d \<longleftrightarrow> c = d"
proof
  assume "cell_index cols c = cell_index cols d"
  then have e: "snd c * int cols + fst c = snd d * int cols + fst d"
    using assms by (simp add: cell_index_def in_grid_def nat_eq_iff split: if_splits)
  have p: "(y * int cols + x) div int cols = y" if "0 \<le> x" "x < int cols" for x y
    using that by simp
  have "snd c = snd d" using arg_cong [OF e, of "\<lambda>i. i div int cols"] assms p by (simp add: in_grid_def)
  with e show "c = d" by (simp add: prod_eq_iff)
qed simp

lemma cell_index_less: "in_grid cols rows c \<Longrightarrow> cell_index cols c < cols * rows"
proof -
  assume c: "in_grid cols rows c"
  then have "snd c * int cols \<le> (int rows - 1) * int cols" by (intro mult_right_mono) (simp_all add: in_grid_def)
  then have "snd c * int cols + fst c < int rows * int cols" using c by (simp add: in_grid_def algebra_simps)
  then show ?thesis using c by (simp add: cell_index_def in_grid_def nat_less_iff mult.commute)
qed

lemma set_cell_eq: "set_cell cols rows dot grid c = (if in_grid cols rows c then grid[cell_index cols c := dot] else grid)"
  by (cases c) (auto simp: set_cell_def in_grid_def cell_index_def)

lemma foldl_set_cell:
  assumes "length grid = cols * rows"
  shows "length (foldl (set_cell cols rows dot) grid cs) = cols * rows"
    and "in_grid cols rows c \<Longrightarrow> foldl (set_cell cols rows dot) grid cs ! cell_index cols c =
      (if c \<in> set cs then dot else grid ! cell_index cols c)"
  using assms
proof (induction cs arbitrary: grid)
  case (Cons d cs)
  {
    case 1
    then show ?case using Cons.IH(1) by (simp add: set_cell_eq)
  next
    case 2
    then show ?case
      using Cons.IH(2) [of "set_cell cols rows dot grid d"] cell_index_inject [OF 2(1), of d] cell_index_less [OF 2(1)]
      by (auto simp: set_cell_eq nth_list_update)
  }
qed simp_all

definition lit :: "(rat \<Rightarrow> rat) \<Rightarrow> rat option list \<Rightarrow> PlotOptions \<Rightarrow> cell \<Rightarrow> bool" where
  \<comment> \<open>the cell is on the grid and holds the dot\<close>
  "lit fl values opts c \<longleftrightarrow> in_grid (pl_cols opts) (pl_rows opts) c \<and>
     plot_grid fl values opts ! cell_index (pl_cols opts) c = dot_of opts"

definition plot_cells :: "(rat \<Rightarrow> rat) \<Rightarrow> rat option list \<Rightarrow> PlotOptions \<Rightarrow> cell list" where
  "plot_cells fl values opts = trace_cells fl None (plot_points fl (pl_cols opts) (pl_rows opts)
     (fst (plot_bounds fl values opts)) (snd (plot_bounds fl values opts)) values)"

lemma lit_iff:
  assumes "pl_dot opts \<noteq> Some (units '' '')"
  shows "lit fl values opts c \<longleftrightarrow> in_grid (pl_cols opts) (pl_rows opts) c \<and> c \<in> set (plot_cells fl values opts)"
proof -
  have "dot_of opts \<noteq> units '' ''" using assms by (auto simp: dot_of_def PLOT_DOT_def units_def split: option.splits)
  moreover have "plot_grid fl values opts = foldl (set_cell (pl_cols opts) (pl_rows opts) (dot_of opts))
      (replicate (pl_cols opts * pl_rows opts) (units '' '')) (plot_cells fl values opts)"
    by (simp add: plot_grid_def plot_cells_def split: prod.splits)
  ultimately show ?thesis
    using foldl_set_cell(2) [of "replicate (pl_cols opts * pl_rows opts) (units '' '')" "pl_cols opts" "pl_rows opts" c "dot_of opts"]
      cell_index_less [of "pl_cols opts" "pl_rows opts" c]
    by (cases "in_grid (pl_cols opts) (pl_rows opts) c") (auto simp: lit_def split: if_splits)
qed

lemma length_plot_grid: "length (plot_grid fl values opts) = pl_cols opts * pl_rows opts"
  by (simp add: plot_grid_def foldl_set_cell(1) split: prod.splits)

lemma plot_grid_cells: "k \<in> set (plot_grid fl values opts) \<Longrightarrow> k = units '' '' \<or> k = dot_of opts"
proof -
  have "set (foldl (set_cell cols rows dot) grid cs) \<subseteq> insert dot (set grid)" for cols rows dot grid cs
  proof (induction cs arbitrary: grid)
    case (Cons c cs)
    have "set (set_cell cols rows dot grid c) \<subseteq> insert dot (set grid)"
      using set_update_subset_insert [of grid _ dot] by (auto simp: set_cell_eq)
    then show ?case using Cons [of "set_cell cols rows dot grid c"] by auto
  qed auto
  then show "k \<in> set (plot_grid fl values opts) \<Longrightarrow> k = units '' '' \<or> k = dot_of opts"
    by (fastforce simp: plot_grid_def split: prod.splits)
qed

lemma concat_singles: "\<forall>k \<in> set ks. length k = 1 \<Longrightarrow> length (concat ks) = length ks"
  by (induction ks) auto

lemma grid_lines_shape:
  assumes "length grid = cols * rows" and "\<forall>k \<in> set grid. length k = 1"
  shows "length (grid_lines cols rows grid) = rows \<and> (\<forall>l \<in> set (grid_lines cols rows grid). length l = cols)"
proof -
  have "length (concat (take cols (drop (r * cols) grid))) = cols" if "r < rows" for r
  proof -
    have "r * cols + cols \<le> rows * cols" using that by (metis Suc_leI add.commute mult_Suc mult_le_mono1)
    moreover have "\<forall>k \<in> set (take cols (drop (r * cols) grid)). length k = 1"
      using assms(2) by (meson in_set_dropD in_set_takeD)
    ultimately show ?thesis using assms(1) by (simp add: concat_singles mult.commute)
  qed
  then show ?thesis by (simp add: grid_lines_def)
qed

section \<open>The trace is connected\<close>

definition adjacent :: "cell \<Rightarrow> cell \<Rightarrow> bool" where
  "adjacent a b \<longleftrightarrow> \<bar>fst a - fst b\<bar> + \<bar>snd a - snd b\<bar> \<le> 1"

definition linked :: "(cell \<Rightarrow> bool) \<Rightarrow> cell \<Rightarrow> cell \<Rightarrow> bool" where
  \<comment> \<open>a path of neighbouring cells, all in \<open>S\<close>\<close>
  "linked S = (\<lambda>a b. S a \<and> S b \<and> adjacent a b)\<^sup>*\<^sup>*"

lemma linked_refl [simp]: "linked S a a"
  by (simp add: linked_def)

lemma linked_step: "S a \<Longrightarrow> S b \<Longrightarrow> adjacent a b \<Longrightarrow> linked S a b"
  by (simp add: linked_def r_into_rtranclp)

lemma linked_trans: "linked S a b \<Longrightarrow> linked S b c \<Longrightarrow> linked S a c"
  unfolding linked_def by (rule rtranclp_trans)

lemma linked_sym: "linked S a b \<Longrightarrow> linked S b a"
  unfolding linked_def
  by (rule sympD [OF symp_rtranclp]) (auto simp: symp_def adjacent_def abs_minus_commute)

lemma linked_mono: "linked S a b \<Longrightarrow> (\<And>c. S c \<Longrightarrow> T c) \<Longrightarrow> linked T a b"
  unfolding linked_def by (erule rtranclp_mono [THEN predicate2D, rotated]) auto

lemma set_run_cells: "set (run_cells x y y') = Pair x ` {min y y'..max y y'}"
  by (simp add: run_cells_def)

lemma run_up: "y \<le> y' \<Longrightarrow> linked (\<lambda>c. c \<in> Pair x ` {y..y'}) (x, y) (x, y')"
proof (induction "nat (y' - y)" arbitrary: y')
  case 0
  then show ?case by simp
next
  case (Suc n)
  have "linked (\<lambda>c. c \<in> Pair x ` {y..y' - 1}) (x, y) (x, y' - 1)" using Suc by (intro Suc.hyps(1)) linarith+
  then have "linked (\<lambda>c. c \<in> Pair x ` {y..y'}) (x, y) (x, y' - 1)" by (rule linked_mono) auto
  moreover have "linked (\<lambda>c. c \<in> Pair x ` {y..y'}) (x, y' - 1) (x, y')"
    using Suc by (intro linked_step) (auto simp: adjacent_def)
  ultimately show ?case by (rule linked_trans)
qed

lemma run_linked: "linked (\<lambda>c. c \<in> set (run_cells x y y')) (x, y) (x, y')"
  using run_up [of y y' x] linked_sym [OF run_up [of y' y x]]
  by (cases "y \<le> y'") (simp_all add: set_run_cells min_def max_def)

lemma column_linked: "a \<le> b \<Longrightarrow> linked (\<lambda>c. c \<in> set (column_cells f l [a..b])) (a, l) (b, f b)"
proof (induction "nat (b - a)" arbitrary: a l)
  case 0
  then show ?case using run_linked [of a l "f a"] by simp
next
  case (Suc n)
  let ?S = "\<lambda>c. c \<in> set (column_cells f l [a..b])"
  have ab: "a + 1 \<le> b" using Suc by linarith
  have cs: "column_cells f l [a..b] = run_cells a l (f a) @ column_cells f (f a) [a + 1..b]"
    using ab by (simp add: upto_rec1)
  have 1: "linked ?S (a, l) (a, f a)" by (rule linked_mono [OF run_linked]) (simp add: cs)
  have "(a + 1, f a) \<in> set (column_cells f (f a) [a + 1..b])"
    using ab by (subst upto_rec1) (simp_all add: set_run_cells)
  moreover have "(a, f a) \<in> set (run_cells a l (f a))" by (simp add: set_run_cells)
  ultimately have 2: "linked ?S (a, f a) (a + 1, f a)" by (intro linked_step) (simp_all add: cs adjacent_def)
  have "linked (\<lambda>c. c \<in> set (column_cells f (f a) [a + 1..b])) (a + 1, f a) (b, f b)"
    using Suc ab by (intro Suc.hyps(1)) linarith+
  then have 3: "linked ?S (a + 1, f a) (b, f b)" by (rule linked_mono) (simp add: cs)
  show ?case using linked_trans [OF linked_trans [OF 1 2] 3] .
qed

lemma column_ends: "a \<le> b \<Longrightarrow> (a, l) \<in> set (column_cells f l [a..b]) \<and> (b, f b) \<in> set (column_cells f l [a..b])"
proof (induction "nat (b - a)" arbitrary: a l)
  case 0
  then show ?case by (simp add: set_run_cells)
next
  case (Suc n)
  then have ab: "a + 1 \<le> b" by linarith
  then have cs: "column_cells f l [a..b] = run_cells a l (f a) @ column_cells f (f a) [a + 1..b]" by (simp add: upto_rec1)
  have "(b, f b) \<in> set (column_cells f (f a) [a + 1..b])" using Suc ab by (intro Suc.hyps(1) [THEN conjunct2]) linarith+
  then show ?case by (simp add: cs set_run_cells)
qed

lemma column_bounds:
  assumes "c \<in> set (column_cells f l [a..b])" and "lo \<le> l" and "l \<le> hi" and "\<forall>x \<in> {a..b}. lo \<le> f x \<and> f x \<le> hi"
  shows "a \<le> fst c \<and> fst c \<le> b \<and> lo \<le> snd c \<and> snd c \<le> hi"
  using assms
proof (induction "nat (b - a + 1)" arbitrary: a l)
  case 0
  then show ?case by simp
next
  case (Suc n)
  then have ab: "a \<le> b" by linarith
  then have cs: "column_cells f l [a..b] = run_cells a l (f a) @ column_cells f (f a) [a + 1..b]" by (simp add: upto_rec1)
  have fa: "lo \<le> f a \<and> f a \<le> hi" using Suc ab by simp
  have "a + 1 \<le> fst c \<and> fst c \<le> b \<and> lo \<le> snd c \<and> snd c \<le> hi" if "c \<in> set (column_cells f (f a) [a + 1..b])"
    using Suc.prems Suc.hyps(2) fa that Suc.hyps(1) [of "a + 1" "f a"] by auto
  moreover have "fst c = a \<and> lo \<le> snd c \<and> snd c \<le> hi" if "c \<in> set (run_cells a l (f a))"
    using that Suc.prems fa by (auto simp: set_run_cells min_def max_def split: if_splits)
  ultimately show ?case using Suc.prems(1) ab by (auto simp: cs)
qed

section \<open>Where the points and segments lie\<close>

lemma rounds_int: "rounds fl \<Longrightarrow> \<bar>i\<bar> \<le> 2 ^ 53 \<Longrightarrow> fl (of_int i) = of_int i"
  by (simp add: rounds_def)

lemma rounds_mono: "rounds fl \<Longrightarrow> x \<le> y \<Longrightarrow> fl x \<le> fl y"
  by (simp add: rounds_def monoD)

lemma rounds_between:
  assumes "rounds fl" and "of_int a \<le> x" and "x \<le> of_int b" and "\<bar>a\<bar> \<le> 2 ^ 53" and "\<bar>b\<bar> \<le> 2 ^ 53"
  shows "of_int a \<le> fl x \<and> fl x \<le> of_int b"
  using rounds_mono [OF assms(1,2)] rounds_mono [OF assms(1,3)] rounds_int [OF assms(1)] assms(4,5) by simp

lemma js_round_mono: "x \<le> y \<Longrightarrow> js_round x \<le> js_round y"
  by (simp add: js_round_def floor_mono)

lemma js_round_int [simp]: "js_round (of_int i) = i"
proof -
  have "\<lfloor>of_int i + (1 / 2 :: rat)\<rfloor> = i" by (simp add: floor_eq_iff)
  then show ?thesis by (simp add: js_round_def)
qed

lemma js_round_between: "of_int a \<le> x \<Longrightarrow> x \<le> of_int b \<Longrightarrow> a \<le> js_round x \<and> js_round x \<le> b"
  using js_round_mono [of "of_int a" x] js_round_mono [of x "of_int b"] by simp

lemma scaled_between:
  assumes "rounds fl" and "0 \<le> t" and "t \<le> 1" and "1 \<le> n" and "n \<le> 2 ^ 53"
  shows "0 \<le> js_round (fl (fl t * (of_nat n - 1))) \<and> js_round (fl (fl t * (of_nat n - 1))) < int n"
proof -
  have u: "0 \<le> fl t" "fl t \<le> 1" using rounds_between [OF assms(1), of 0 t 1] assms(2,3) by simp_all
  have r: "0 \<le> (of_nat n - 1 :: rat)" using assms(4) by simp
  have "of_int 0 \<le> fl t * (of_nat n - 1) \<and> fl t * (of_nat n - 1) \<le> of_int (int n - 1)"
    using mult_nonneg_nonneg [OF u(1) r] mult_left_le_one_le [OF r u] by simp
  then have "of_int 0 \<le> fl (fl t * (of_nat n - 1)) \<and> fl (fl t * (of_nat n - 1)) \<le> of_int (int n - 1)"
    using assms(4,5) by (intro rounds_between [OF assms(1)]) auto
  then show ?thesis using js_round_between [of 0 "fl (fl t * (of_nat n - 1))" "int n - 1"] by linarith
qed

lemma point_y_range:
  assumes "rounds fl" and "1 \<le> rows" and "rows \<le> 2 ^ 53"
  shows "0 \<le> point_y fl rows lo hi v \<and> point_y fl rows lo hi v < int rows"
  unfolding point_y_def Let_def by (rule scaled_between [OF assms(1) _ _ assms(2,3)]) simp_all

lemma point_x_range:
  assumes "rounds fl" and "1 \<le> cols" and "cols \<le> 2 ^ 53" and "i < n"
  shows "0 \<le> point_x fl cols n i \<and> point_x fl cols n i < int cols"
proof (cases "n \<le> 1")
  case False
  have "0 \<le> (of_nat i :: rat) / (of_nat n - 1)" "(of_nat i :: rat) / (of_nat n - 1) \<le> 1"
    using False assms(4) by (simp_all add: divide_le_eq_1)
  then show ?thesis using scaled_between [OF assms(1) _ _ assms(2,3)] False by (simp add: point_x_def)
qed (use assms in \<open>simp add: point_x_def\<close>)

lemma point_x_mono:
  assumes "rounds fl" and "1 \<le> cols" and "i \<le> j" and "j < n"
  shows "point_x fl cols n i \<le> point_x fl cols n j"
proof (cases "n \<le> 1")
  case False
  then have "(of_nat i :: rat) / (of_nat n - 1) \<le> of_nat j / (of_nat n - 1)"
    using assms(3) by (intro divide_right_mono) simp_all
  then show ?thesis using False assms(2)
    by (simp add: point_x_def js_round_mono rounds_mono [OF assms(1)] mult_right_mono)
qed (simp add: point_x_def)

lemma share_between:
  fixes k :: rat
  assumes "0 \<le> k" and "k \<le> 1"
  shows "of_int (min 0 d) \<le> of_int d * k \<and> of_int d * k \<le> of_int (max 0 d)"
proof (cases "0 \<le> d")
  case True
  then have "0 \<le> (of_int d :: rat)" by simp
  then show ?thesis using mult_nonneg_nonneg [of "of_int d" k] mult_left_le [of k "of_int d"] assms True by simp
next
  case False
  then have "(of_int d :: rat) \<le> 0" by simp
  then show ?thesis using mult_nonpos_nonneg [of "of_int d" k] mult_left_mono_neg [of k 1 "of_int d"] assms False by simp
qed

lemma segment_y_between:
  assumes "rounds fl" and "fst q < fst p" and "fst q \<le> x" and "x \<le> fst p"
    and "0 \<le> snd q" and "snd q \<le> 2 ^ 53" and "0 \<le> snd p" and "snd p \<le> 2 ^ 53"
  shows "min (snd q) (snd p) \<le> segment_y fl q p x \<and> segment_y fl q p x \<le> max (snd q) (snd p)"
proof -
  let ?d = "snd p - snd q" and ?k = "(of_int (x - fst q) / of_int (fst p - fst q) :: rat)"
  have k: "0 \<le> ?k" "?k \<le> 1" using assms(2-4) by (simp_all add: divide_le_eq_1)
  have e: "(of_int (?d * (x - fst q)) / of_int (fst p - fst q) :: rat) = of_int ?d * ?k" by simp
  have "of_int (min 0 ?d) \<le> of_int ?d * ?k \<and> of_int ?d * ?k \<le> of_int (max 0 ?d)" by (rule share_between [OF k])
  then have "of_int (min 0 ?d) \<le> fl (of_int ?d * ?k) \<and> fl (of_int ?d * ?k) \<le> of_int (max 0 ?d)"
    using assms(5-8) by (intro rounds_between [OF assms(1)]) auto
  then have "of_int (min (snd q) (snd p)) \<le> of_int (snd q) + fl (of_int ?d * ?k) \<and>
      of_int (snd q) + fl (of_int ?d * ?k) \<le> of_int (max (snd q) (snd p))"
    by (auto simp: min_def max_def split: if_splits)
  then have "of_int (min (snd q) (snd p)) \<le> fl (of_int (snd q) + fl (of_int ?d * ?k)) \<and>
      fl (of_int (snd q) + fl (of_int ?d * ?k)) \<le> of_int (max (snd q) (snd p))"
    using assms(5-8) by (intro rounds_between [OF assms(1)]) auto
  then show ?thesis unfolding segment_y_def e by (intro js_round_between) simp_all
qed

lemma segment_y_end:
  assumes "rounds fl" and "fst q < fst p" and "0 \<le> snd q" and "snd q \<le> 2 ^ 53" and "0 \<le> snd p" and "snd p \<le> 2 ^ 53"
  shows "segment_y fl q p (fst p) = snd p"
proof -
  have "(of_int ((snd p - snd q) * (fst p - fst q)) / of_int (fst p - fst q) :: rat) = of_int (snd p - snd q)"
    using assms(2) by simp
  moreover have "fl (of_int (snd p - snd q)) = of_int (snd p - snd q)" using assms by (intro rounds_int) auto
  moreover have "(of_int (snd q) + of_int (snd p - snd q) :: rat) = of_int (snd p)" by simp
  moreover have "fl (of_int (snd p)) = of_int (snd p)" using assms by (intro rounds_int) auto
  ultimately show ?thesis unfolding segment_y_def by (simp only: js_round_int)
qed

definition in_box :: "cell \<Rightarrow> cell \<Rightarrow> cell \<Rightarrow> bool" where
  \<comment> \<open>between the columns and between the rows of two points\<close>
  "in_box q p c \<longleftrightarrow> fst q \<le> fst c \<and> fst c \<le> fst p \<and> min (snd q) (snd p) \<le> snd c \<and> snd c \<le> max (snd q) (snd p)"

lemma segment:
  assumes "rounds fl" and "fst q \<le> fst p" and "0 \<le> snd q" and "snd q \<le> 2 ^ 53" and "0 \<le> snd p" and "snd p \<le> 2 ^ 53"
  shows "linked (\<lambda>c. c \<in> set (segment_cells fl q p)) q p \<and> q \<in> set (segment_cells fl q p) \<and> p \<in> set (segment_cells fl q p)
    \<and> (\<forall>c \<in> set (segment_cells fl q p). in_box q p c)"
proof (cases "fst p - fst q = 0")
  case True
  have "(fst p, snd q) = q" using True by (simp add: prod_eq_iff)
  then show ?thesis using run_linked [of "fst p" "snd q" "snd p"] True
    by (cases q; cases p) (auto simp: segment_cells_def set_run_cells in_box_def)
next
  case False
  then have lt: "fst q < fst p" using assms(2) by simp
  note e = segment_y_end [OF assms(1) lt assms(3-6)] and b = segment_y_between [OF assms(1) lt _ _ assms(3-6)]
  have cs: "segment_cells fl q p = column_cells (segment_y fl q p) (snd q) [fst q..fst p]" using False by (simp add: segment_cells_def)
  have "in_box q p c" if "c \<in> set (segment_cells fl q p)" for c
    using column_bounds [OF that [unfolded cs], of "min (snd q) (snd p)" "max (snd q) (snd p)"] b by (simp add: in_box_def)
  then show ?thesis
    using column_linked [OF assms(2), of "segment_y fl q p" "snd q"] column_ends [OF assms(2), of "snd q" "segment_y fl q p"]
    by (simp add: cs e)
qed

section \<open>What a plot shows\<close>

definition plot_point :: "(rat \<Rightarrow> rat) \<Rightarrow> rat option list \<Rightarrow> PlotOptions \<Rightarrow> nat \<Rightarrow> rat \<Rightarrow> cell" where
  \<comment> \<open>where the value at index \<open>i\<close> goes\<close>
  "plot_point fl values opts i v = (point_x fl (pl_cols opts) (length values) i,
     point_y fl (pl_rows opts) (fst (plot_bounds fl values opts)) (snd (plot_bounds fl values opts)) v)"

lemma trace_sound:
  assumes "c \<in> set (trace_cells fl prev ps)"
  shows "(\<exists>i < length ps. ps ! i = Some c) \<or>
    (\<exists>i q p. i < length ps \<and> (prev # ps) ! i = Some q \<and> ps ! i = Some p \<and> c \<in> set (segment_cells fl q p))"
  using assms
proof (induction fl prev ps rule: trace_cells.induct)
  case (2 fl prev ps)
  then consider i where "i < length ps" "ps ! i = Some c"
    | i q p where "i < length ps" "(None # ps) ! i = Some q" "ps ! i = Some p" "c \<in> set (segment_cells fl q p)"
    by auto
  then show ?case
  proof cases
    case (1 i)
    then show ?thesis by (intro disjI1 exI [of _ "Suc i"]) simp
  next
    case (2 i)
    then show ?thesis by (intro disjI2 exI [of _ "Suc i"]) auto
  qed
next
  case (3 fl prev p ps)
  then consider (here) "c \<in> set (case prev of None \<Rightarrow> [p] | Some q \<Rightarrow> segment_cells fl q p)"
    | (later) i where "i < length ps" "ps ! i = Some c"
    | (segment) i q p' where "i < length ps" "(Some p # ps) ! i = Some q" "ps ! i = Some p'" "c \<in> set (segment_cells fl q p')"
    by (auto split: option.splits)
  then show ?case
  proof cases
    case here
    show ?thesis
    proof (cases prev)
      case None
      then show ?thesis using here by (intro disjI1 exI [of _ 0]) simp
    next
      case (Some q)
      then show ?thesis using here by (intro disjI2 exI [of _ 0]) auto
    qed
  next
    case (later i)
    then show ?thesis by (intro disjI1 exI [of _ "Suc i"]) simp
  next
    case (segment i)
    then show ?thesis by (intro disjI2 exI [of _ "Suc i"]) auto
  qed
qed simp

lemma trace_complete:
  assumes "i < length ps" and "ps ! i = Some p"
  shows "set (case (prev # ps) ! i of None \<Rightarrow> [p] | Some q \<Rightarrow> segment_cells fl q p) \<subseteq> set (trace_cells fl prev ps)"
  using assms
proof (induction fl prev ps arbitrary: i rule: trace_cells.induct)
  case (2 fl prev ps)
  then show ?case by (cases i) auto
next
  case (3 fl prev p' ps)
  show ?case
  proof (cases i)
    case 0
    then show ?thesis using 3 by (cases prev) auto
  next
    case (Suc j)
    then show ?thesis using 3(1) [of j] 3(2,3) by auto
  qed
qed simp

lemma plot_points_nth:
  assumes "i < length values"
  shows "plot_points fl (pl_cols opts) (pl_rows opts) (fst (plot_bounds fl values opts)) (snd (plot_bounds fl values opts)) values ! i =
    map_option (plot_point fl values opts i) (values ! i)"
  using assms by (simp add: plot_points_def nth_enumerate_eq plot_point_def [abs_def])

lemma plot_point_range:
  assumes "rounds fl" and "1 \<le> pl_cols opts" and "pl_cols opts \<le> 2 ^ 53" and "1 \<le> pl_rows opts" and "pl_rows opts \<le> 2 ^ 53"
    and "i < length values"
  shows "in_grid (pl_cols opts) (pl_rows opts) (plot_point fl values opts i v)"
  using point_x_range [OF assms(1-3,6)] point_y_range [OF assms(1,4,5)] by (simp add: in_grid_def plot_point_def)

lemma points_segment:
  assumes "rounds fl" and "1 \<le> pl_cols opts" and "pl_cols opts \<le> 2 ^ 53" and "1 \<le> pl_rows opts" and "pl_rows opts \<le> 2 ^ 53"
    and "Suc i < length values" and "q = plot_point fl values opts i v" and "p = plot_point fl values opts (Suc i) w"
  shows "linked (\<lambda>c. c \<in> set (segment_cells fl q p)) q p \<and> q \<in> set (segment_cells fl q p) \<and> p \<in> set (segment_cells fl q p)
    \<and> (\<forall>c \<in> set (segment_cells fl q p). in_box q p c \<and> in_grid (pl_cols opts) (pl_rows opts) c)"
proof -
  have x: "fst q \<le> fst p" using point_x_mono [OF assms(1,2), of i "Suc i" "length values"] assms(6-8) by (simp add: plot_point_def)
  have g: "in_grid (pl_cols opts) (pl_rows opts) q" "in_grid (pl_cols opts) (pl_rows opts) p"
    using plot_point_range [OF assms(1-5)] assms(6-8) by auto
  then have "0 \<le> snd q" "snd q \<le> 2 ^ 53" "0 \<le> snd p" "snd p \<le> 2 ^ 53" using assms(5) by (auto simp: in_grid_def)
  note s = segment [OF assms(1) x this]
  have "in_grid (pl_cols opts) (pl_rows opts) c" if "in_box q p c" for c
    using that g by (auto simp: in_box_def in_grid_def min_def max_def split: if_splits)
  then show ?thesis using s by blast
qed

lemma value_lit:
  assumes "rounds fl" and "1 \<le> pl_cols opts" and "pl_cols opts \<le> 2 ^ 53" and "1 \<le> pl_rows opts" and "pl_rows opts \<le> 2 ^ 53"
    and "pl_dot opts \<noteq> Some (units '' '')" and "i < length values" and "values ! i = Some v"
  shows "lit fl values opts (plot_point fl values opts i v)"
proof -
  let ?ps = "plot_points fl (pl_cols opts) (pl_rows opts) (fst (plot_bounds fl values opts)) (snd (plot_bounds fl values opts)) values"
  let ?p = "plot_point fl values opts i v"
  have len: "length ?ps = length values" by (simp add: plot_points_def)
  have p: "?ps ! i = Some ?p" using plot_points_nth [OF assms(7)] assms(8) by simp
  have "?p \<in> set (case (None # ?ps) ! i of None \<Rightarrow> [?p] | Some q \<Rightarrow> segment_cells fl q ?p)"
  proof (cases "(None # ?ps) ! i")
    case (Some q)
    then obtain j where j: "i = Suc j" "?ps ! j = Some q" by (cases i) auto
    then obtain u where "q = plot_point fl values opts j u"
      using plot_points_nth [of j "values" fl opts] assms(7) by auto
    then show ?thesis using points_segment [OF assms(1-5), of j "values" q u ?p v] j(1) assms(7) Some by simp
  qed simp
  then have "?p \<in> set (plot_cells fl values opts)"
    using trace_complete [of i ?ps ?p fl None] p len assms(7) by (auto simp: plot_cells_def)
  then show ?thesis using plot_point_range [OF assms(1-5,7)] by (simp add: lit_iff [OF assms(6)])
qed

lemma neighbours_linked:
  assumes "rounds fl" and "1 \<le> pl_cols opts" and "pl_cols opts \<le> 2 ^ 53" and "1 \<le> pl_rows opts" and "pl_rows opts \<le> 2 ^ 53"
    and "pl_dot opts \<noteq> Some (units '' '')" and "Suc i < length values" and "values ! i = Some v" and "values ! Suc i = Some w"
  shows "linked (lit fl values opts) (plot_point fl values opts i v) (plot_point fl values opts (Suc i) w)"
proof -
  let ?ps = "plot_points fl (pl_cols opts) (pl_rows opts) (fst (plot_bounds fl values opts)) (snd (plot_bounds fl values opts)) values"
  let ?q = "plot_point fl values opts i v" and ?p = "plot_point fl values opts (Suc i) w"
  note s = points_segment [OF assms(1-5,7) refl refl, of v w]
  have "(None # ?ps) ! Suc i = Some ?q" "?ps ! Suc i = Some ?p" "Suc i < length ?ps"
    using plot_points_nth [of i "values" fl opts] plot_points_nth [of "Suc i" "values" fl opts] assms(7-9) by (simp_all add: plot_points_def)
  then have "set (segment_cells fl ?q ?p) \<subseteq> set (plot_cells fl values opts)"
    using trace_complete [of "Suc i" ?ps ?p fl None] by (simp add: plot_cells_def)
  then show ?thesis using s by (intro linked_mono [OF s [THEN conjunct1]]) (auto simp: lit_iff [OF assms(6)])
qed

lemma lit_sound:
  assumes "rounds fl" and "1 \<le> pl_cols opts" and "pl_cols opts \<le> 2 ^ 53" and "1 \<le> pl_rows opts" and "pl_rows opts \<le> 2 ^ 53"
    and "pl_dot opts \<noteq> Some (units '' '')" and "lit fl values opts c"
  shows "(\<exists>i v. i < length values \<and> values ! i = Some v \<and> c = plot_point fl values opts i v) \<or>
    (\<exists>i v w. Suc i < length values \<and> values ! i = Some v \<and> values ! Suc i = Some w \<and>
      in_box (plot_point fl values opts i v) (plot_point fl values opts (Suc i) w) c)"
proof -
  let ?ps = "plot_points fl (pl_cols opts) (pl_rows opts) (fst (plot_bounds fl values opts)) (snd (plot_bounds fl values opts)) values"
  have len: "length ?ps = length values" by (simp add: plot_points_def)
  have came: "\<exists>v. values ! i = Some v \<and> p = plot_point fl values opts i v" if "i < length values" "?ps ! i = Some p" for i p
    using plot_points_nth [OF that(1), of fl opts] that(2) by (cases "values ! i") simp_all
  have "c \<in> set (trace_cells fl None ?ps)" using assms(7) by (simp add: lit_iff [OF assms(6)] plot_cells_def)
  from trace_sound [OF this] show ?thesis
  proof (elim disjE exE conjE)
    fix i
    assume "i < length ?ps" and "?ps ! i = Some c"
    then show ?thesis using came [of i c] len by auto
  next
    fix i q p
    assume i: "i < length ?ps" "(None # ?ps) ! i = Some q" "?ps ! i = Some p" "c \<in> set (segment_cells fl q p)"
    then obtain j where j: "i = Suc j" "?ps ! j = Some q" by (cases i) auto
    obtain v w where vw: "values ! j = Some v" "q = plot_point fl values opts j v" "values ! Suc j = Some w"
        "p = plot_point fl values opts (Suc j) w"
      using came [of j q] came [of "Suc j" p] i(1,3) j len by auto
    then show ?thesis
      using points_segment [OF assms(1-5), of j "values" q v p w] i(1,4) j(1) len by auto
  qed
qed

lemma length_blank: "length (units '' '') = 1"
  by (simp add: units_def)

text \<open>A line plot shows its series and nothing else, however arithmetic rounds: every value lights
  the cell of its place and height; the cells of neighbouring values are joined by a path of
  lit neighbouring cells; and a lit cell is the cell of a value or lies between two
  neighbouring values - so a gap in the series is a gap in the trace. The text has
  \<open>rows\<close> lines of \<open>cols\<close> characters.\<close>

lemma plot_shows_series:
  assumes "rounds fl" and "1 \<le> pl_cols opts" and "pl_cols opts \<le> 2 ^ 53" and "1 \<le> pl_rows opts" and "pl_rows opts \<le> 2 ^ 53"
    and "length (dot_of opts) = 1" and "dot_of opts \<noteq> units '' ''"
  shows "(\<forall>i v. i < length values \<longrightarrow> values ! i = Some v \<longrightarrow> lit fl values opts (plot_point fl values opts i v)) \<and>
    (\<forall>i v w. Suc i < length values \<longrightarrow> values ! i = Some v \<longrightarrow> values ! Suc i = Some w \<longrightarrow>
      linked (lit fl values opts) (plot_point fl values opts i v) (plot_point fl values opts (Suc i) w)) \<and>
    (\<forall>c. lit fl values opts c \<longrightarrow> (\<exists>i v. i < length values \<and> values ! i = Some v \<and> c = plot_point fl values opts i v) \<or>
      (\<exists>i v w. Suc i < length values \<and> values ! i = Some v \<and> values ! Suc i = Some w \<and>
        in_box (plot_point fl values opts i v) (plot_point fl values opts (Suc i) w) c)) \<and>
    (\<exists>ls. pr_text (plotSeries fl values opts) = join_lines ls \<and> length ls = pl_rows opts \<and> (\<forall>l \<in> set ls. length l = pl_cols opts))"
proof (intro conjI allI impI)
  have d: "pl_dot opts \<noteq> Some (units '' '')" using assms(7) by (auto simp: dot_of_def)
  show "lit fl values opts (plot_point fl values opts i v)" if "i < length values" "values ! i = Some v" for i v
    by (rule value_lit [OF assms(1-5) d that])
  show "linked (lit fl values opts) (plot_point fl values opts i v) (plot_point fl values opts (Suc i) w)"
    if "Suc i < length values" "values ! i = Some v" "values ! Suc i = Some w" for i v w
    by (rule neighbours_linked [OF assms(1-5) d that])
  show "(\<exists>i v. i < length values \<and> values ! i = Some v \<and> c = plot_point fl values opts i v) \<or>
      (\<exists>i v w. Suc i < length values \<and> values ! i = Some v \<and> values ! Suc i = Some w \<and>
        in_box (plot_point fl values opts i v) (plot_point fl values opts (Suc i) w) c)" if "lit fl values opts c" for c
    by (rule lit_sound [OF assms(1-5) d that])
  have "\<forall>k \<in> set (plot_grid fl values opts). length k = 1"
    using plot_grid_cells [of _ fl "values" opts] assms(6) length_blank by metis
  from grid_lines_shape [OF length_plot_grid this]
  show "\<exists>ls. pr_text (plotSeries fl values opts) = join_lines ls \<and> length ls = pl_rows opts \<and> (\<forall>l \<in> set ls. length l = pl_cols opts)"
    by (auto simp: plotSeries_def)
qed

lemma rounds_id: "rounds (\<lambda>x. x)"
  by (simp add: rounds_def mono_def)

definition demo_plot :: PlotOptions where
  "demo_plot = \<lparr>pl_cols = 5, pl_rows = 4, pl_min = None, pl_max = None, pl_dot = None\<rparr>"

definition demo_series :: "rat option list" where
  "demo_series = [Some 0, Some 3, None, Some 1]"

lemma plot_shows_series_witness:
  "lit (\<lambda>x. x) demo_series demo_plot (0, 3) \<and> linked (lit (\<lambda>x. x) demo_series demo_plot) (0, 3) (1, 0)"
proof -
  have b: "plot_bounds (\<lambda>x. x) demo_series demo_plot = (0, 3)"
    by (simp add: plot_bounds_def demo_series_def demo_plot_def bounds_def List.map_filter_def)
  have "plot_point (\<lambda>x. x) demo_series demo_plot 0 0 = (0, 3)" "plot_point (\<lambda>x. x) demo_series demo_plot (Suc 0) 3 = (1, 0)"
    by (simp_all add: plot_point_def b point_x_def point_y_def js_round_def) (simp_all add: demo_series_def demo_plot_def floor_eq_iff)
  moreover have v: "0 < length demo_series" "demo_series ! 0 = Some 0" "Suc 0 < length demo_series" "demo_series ! Suc 0 = Some 3"
    by (simp_all add: demo_series_def)
  moreover have h: "1 \<le> pl_cols demo_plot" "pl_cols demo_plot \<le> 2 ^ 53" "1 \<le> pl_rows demo_plot" "pl_rows demo_plot \<le> 2 ^ 53"
      "length (dot_of demo_plot) = 1" "dot_of demo_plot \<noteq> units '' ''"
    by (simp_all add: dot_of_def demo_plot_def PLOT_DOT_def units_def)
  note t = plot_shows_series [OF rounds_id h, of demo_series]
  have "lit (\<lambda>x. x) demo_series demo_plot (plot_point (\<lambda>x. x) demo_series demo_plot 0 0)" using t v(1,2) by blast
  moreover have "linked (lit (\<lambda>x. x) demo_series demo_plot) (plot_point (\<lambda>x. x) demo_series demo_plot 0 0)
      (plot_point (\<lambda>x. x) demo_series demo_plot (Suc 0) 3)"
    using t v(2-4) by blast
  ultimately show ?thesis by simp
qed

section \<open>Bars and meters\<close>

lemma bar_heights_range:
  assumes "rounds fl" and "1 \<le> rows" and "rows \<le> 2 ^ 53" and "h \<in> set (bar_heights fl rows values)"
  shows "0 \<le> h \<and> h \<le> int rows"
proof -
  obtain v where v: "v \<in> set values" and h: "h = (if v \<le> 0 then 0 else max 1 (js_round (fl (fl (v / Max (set (1 # values))) * of_nat rows))))"
    using assms(4) by (auto simp: bar_heights_def Let_def)
  let ?m = "Max (set (1 # values))"
  have m: "1 \<le> ?m" "v \<le> ?m" using v by (auto intro: Max_ge)
  have "js_round (fl (fl (v / ?m) * of_nat rows)) \<le> int rows" if "0 < v"
  proof -
    have "0 \<le> v / ?m" "v / ?m \<le> 1" using that m by (simp_all add: divide_le_eq_1)
    then have u: "0 \<le> fl (v / ?m)" "fl (v / ?m) \<le> 1" using rounds_between [OF assms(1), of 0 "v / ?m" 1] by simp_all
    have "of_int 0 \<le> fl (v / ?m) * of_nat rows \<and> fl (v / ?m) * of_nat rows \<le> of_int (int rows)"
      using mult_nonneg_nonneg [OF u(1), of "of_nat rows"] mult_left_le_one_le [OF _ u, of "of_nat rows"] by simp
    then have "of_int 0 \<le> fl (fl (v / ?m) * of_nat rows) \<and> fl (fl (v / ?m) * of_nat rows) \<le> of_int (int rows)"
      using assms(3) by (intro rounds_between [OF assms(1)]) auto
    then show ?thesis using js_round_between [of 0 _ "int rows"] by blast
  qed
  then show ?thesis using assms(2) by (auto simp: h)
qed

lemma bar_visible: "v \<in> set values \<Longrightarrow> 0 < v \<Longrightarrow> \<exists>h \<in> set (bar_heights fl rows values). 1 \<le> h"
  unfolding bar_heights_def Let_def set_map by (rule bexI [OF _ imageI [of v]]) simp_all

lemma length_join_space: "ls \<noteq> [] \<Longrightarrow> \<forall>l \<in> set ls. length l = w \<Longrightarrow> length (join_space ls) = length ls * (w + 1) - 1"
proof -
  have c: "length (concat (map (\<lambda>k. 32 # k) ls)) = length ls * (w + 1)" if "\<forall>l \<in> set ls. length l = w" for ls :: "utf16 list"
    using that by (induction ls) auto
  assume "ls \<noteq> []" and "\<forall>l \<in> set ls. length l = w"
  then show ?thesis using c [of "tl ls"] by (cases ls) (auto simp: join_space_def)
qed

lemma length_repeat [simp]: "length (repeat n t) = n * length t"
  by (simp add: repeat_def length_concat sum_list_replicate)

lemma bar_chart_shape:
  assumes "values \<noteq> []" and "length block = 1" and "l \<in> set (bar_lines fl values rows w block)"
  shows "length l = length values * (w + 1) - 1"
  using assms by (auto simp: bar_lines_def bar_heights_def Let_def units_def intro!: length_join_space [THEN trans])

lemma meter_width:
  assumes "rounds fl" and "width \<le> 2 ^ 53"
  shows "length (renderMeter fl ratio width) = width"
proof -
  let ?c = "min 1 (max 0 (case ratio of None \<Rightarrow> 0 | Some r \<Rightarrow> r))"
  have "of_int 0 \<le> ?c * of_nat width \<and> ?c * of_nat width \<le> of_int (int width)"
    using mult_left_le_one_le [of "of_nat width :: rat" ?c] by simp
  then have "of_int 0 \<le> fl (?c * of_nat width) \<and> fl (?c * of_nat width) \<le> of_int (int width)"
    using assms(2) by (intro rounds_between [OF assms(1)]) auto
  then have "0 \<le> js_round (fl (?c * of_nat width)) \<and> js_round (fl (?c * of_nat width)) \<le> int width"
    using js_round_between [of 0 _ "int width"] by simp
  then have "nat (js_round (fl (?c * of_nat width))) + nat (int width - js_round (fl (?c * of_nat width))) = width"
    by linarith
  then show ?thesis by (simp add: renderMeter_def Let_def)
qed

end
