(* ===== verification/Panels.thy ===== *)
theory Panels
  imports NodePoll AsciiPlot ConsoleSpec
begin

text \<open>
  What the panels of the dashboard compute from the data they show: the list of keys
  (\<open>KeysPanel.tsx\<close>), the hottest keys (\<open>TopKeysChart.tsx\<close>, \<open>BarChart.tsx\<close>), the store's fill
  (\<open>StoreGauge.tsx\<close>), the uptime (\<open>StatsTable.tsx\<close>), the axes of a chart (\<open>LineChart.tsx\<close>) and the
  flush button of \<open>pages/Dashboard.tsx\<close>. \<open>fl\<close> rounds the result of an arithmetic operation.
\<close>

section \<open>Keys by their hits\<close>

record KeyStat =
  ks_key :: jsstring
  ks_hits :: nat
  ks_ttl :: "rat option"

definition HEAT :: utf16 where "HEAT = [9617, 9618, 9619, 9608]"

definition heat_level :: "(rat \<Rightarrow> rat) \<Rightarrow> nat \<Rightarrow> nat \<Rightarrow> int" where
  "heat_level fl hits mx = (if hits = 0 then 0
     else let t = (if 0 < mx then fl (of_nat hits / of_nat mx) else 0)
       in min (int (length HEAT) - 1) (max 1 \<lceil>fl (t * (of_nat (length HEAT) - 1))\<rceil>))"

definition heatGlyph :: "(rat \<Rightarrow> rat) \<Rightarrow> nat \<Rightarrow> nat \<Rightarrow> nat" where
  "heatGlyph fl hits mx = HEAT ! nat (heat_level fl hits mx)"

definition by_hits :: "KeyStat list \<Rightarrow> KeyStat list" where
  \<comment> \<open>\<open>[...stats].sort((a, b) => b.hits - a.hits)\<close>, which is stable\<close>
  "by_hits stats = sort_key (\<lambda>s. - int (ks_hits s)) stats"

definition max_hits :: "KeyStat list \<Rightarrow> nat" where
  "max_hits stats = Max (set (0 # map ks_hits stats))"

definition keys_panel :: "(rat \<Rightarrow> rat) \<Rightarrow> KeyStat list \<Rightarrow> (nat \<times> jsstring \<times> nat) list" where
  \<comment> \<open>the glyph, the key and the hits of every row\<close>
  "keys_panel fl stats = map (\<lambda>s. (heatGlyph fl (ks_hits s) (max_hits stats), ks_key s, ks_hits s)) (by_hits stats)"

record Bar =
  br_label :: utf16
  br_value :: nat

definition bar_label :: "jsstring \<Rightarrow> utf16" where
  "bar_label k = (if 6 < length k then 8230 # units (slice_last 5 k) else units k)"

definition top_bars :: "nat \<Rightarrow> KeyStat list option \<Rightarrow> Bar list" where
  "top_bars n stats = map (\<lambda>s. \<lparr>br_label = bar_label (ks_key s), br_value = ks_hits s\<rparr>)
     (take n (by_hits (case stats of None \<Rightarrow> [] | Some ss \<Rightarrow> ss)))"

definition bar_chart :: "(rat \<Rightarrow> rat) \<Rightarrow> Bar list \<Rightarrow> nat \<Rightarrow> nat \<Rightarrow> utf16 option" where
  \<comment> \<open>\<open>None\<close>: no data\<close>
  "bar_chart fl bars rows barWidth = (if bars = [] then None
     else Some (renderBarChart fl (map (\<lambda>b. of_nat (br_value b)) bars) rows (Some barWidth) None))"

definition bar_value_text :: "nat \<Rightarrow> nat \<Rightarrow> jsstring" where
  \<comment> \<open>\<open>String(b.value).slice(0, barWidth)\<close>\<close>
  "bar_value_text barWidth v = take barWidth (show_nat v)"

section \<open>Fill and uptime\<close>

definition gauge_fill :: "(rat \<Rightarrow> rat) \<Rightarrow> NodeMetrics \<Rightarrow> rat" where
  "gauge_fill fl m = (if 0 < nm_maxEntries m then min 1 (fl (of_nat (nm_keys m) / of_nat (nm_maxEntries m))) else 0)"

definition gauge_pct :: "(rat \<Rightarrow> rat) \<Rightarrow> NodeMetrics \<Rightarrow> int" where
  "gauge_pct fl m = js_round (fl (gauge_fill fl m * 100))"

definition gauge_free :: "NodeMetrics \<Rightarrow> int" where
  "gauge_free m = max 0 (int (nm_maxEntries m) - int (nm_keys m))"

definition pad2 :: "int \<Rightarrow> jsstring" where
  \<comment> \<open>\<open>String(n).padStart(2, "0")\<close>\<close>
  "pad2 n = (let s = show_int n in replicate (2 - length s) CHR ''0'' @ s)"

definition fmtUptime :: "rat \<Rightarrow> jsstring" where
  \<comment> \<open>of a non-negative number of milliseconds, whose quotients round to no other floor\<close>
  "fmtUptime sec =
     (let h = \<lfloor>sec / 3600\<rfloor>; r = sec - 3600 * of_int \<lfloor>sec / 3600\<rfloor>; m = \<lfloor>r / 60\<rfloor>; s = \<lfloor>sec - 60 * of_int \<lfloor>sec / 60\<rfloor>\<rfloor>
      in if 0 < h then pad2 h @ '':'' @ pad2 m @ '':'' @ pad2 s else pad2 m @ '':'' @ pad2 s)"

section \<open>Charts\<close>

definition chart_bounds :: "rat option list list \<Rightarrow> rat option \<Rightarrow> rat option \<Rightarrow> rat \<times> rat" where
  "chart_bounds series mn mx = (let vs = List.map_filter id (concat series)
     in ((case mn of Some m \<Rightarrow> m | None \<Rightarrow> if vs \<noteq> [] then Min (set (0 # vs)) else 0),
         (case mx of Some m \<Rightarrow> m | None \<Rightarrow> if vs \<noteq> [] then Max (set vs) else 1)))"

definition line_chart :: "(rat \<Rightarrow> rat) \<Rightarrow> rat option list list \<Rightarrow> nat \<Rightarrow> nat \<Rightarrow> rat option \<Rightarrow> rat option \<Rightarrow> utf16 list \<times> rat list" where
  \<comment> \<open>the layers and the ticks\<close>
  "line_chart fl series cols rows mn mx = (case chart_bounds series mn mx of (lo, hi) \<Rightarrow>
     (map (\<lambda>vs. pr_text (plotSeries fl vs \<lparr>pl_cols = cols, pl_rows = rows, pl_min = Some lo, pl_max = Some hi, pl_dot = None\<rparr>)) series,
      axisTicks fl lo hi rows))"

section \<open>The flush button\<close>

record flush_button =
  fb_flushing :: bool
  fb_log :: op_log
  fb_refreshes :: nat \<comment> \<open>calls of \<open>refreshNow\<close>\<close>

definition flush_click :: "jsstring \<Rightarrow> flush_button \<Rightarrow> flush_button \<times> fetch_call option" where
  \<comment> \<open>the button is disabled while a flush is out\<close>
  "flush_click base fb = (if fb_flushing fb then (fb, None) else (fb\<lparr>fb_flushing := True\<rparr>, Some (flush_call base)))"

definition flush_settled :: "(rat \<Rightarrow> jsstring) \<Rightarrow> time_ms \<Rightarrow> fetched \<Rightarrow> flush_button \<Rightarrow> flush_button" where
  "flush_settled str now f fb =
     (let r = (case flush_result f of Inl e \<Rightarrow> Inl e | Inr j \<Rightarrow> js_member ''dropped'' j)
      in (case r of
           Inl e \<Rightarrow> fb\<lparr>fb_log := logEvent now LErr (describeFetchError e) (fb_log fb)\<rparr>
         | Inr n \<Rightarrow> fb\<lparr>fb_log := logEvent now LDel (units ''flushed store'' @ dropped_text str n) (fb_log fb),
             fb_refreshes := fb_refreshes fb + 1\<rparr>)\<lparr>fb_flushing := False\<rparr>)"

section \<open>The list of keys ranks them\<close>

lemma heat_level_range: "0 \<le> heat_level fl h mx \<and> heat_level fl h mx \<le> 3"
  by (auto simp: heat_level_def HEAT_def Let_def max_def)

lemma heat_level_0: "heat_level fl h mx = 0 \<longleftrightarrow> h = 0"
  by (auto simp: heat_level_def HEAT_def Let_def)

lemma heat_level_mono:
  assumes "rounds fl" and "h \<le> h'"
  shows "heat_level fl h mx \<le> heat_level fl h' mx"
proof (cases "h = 0")
  case True
  then show ?thesis using heat_level_range [of fl h' mx] by (simp add: heat_level_def)
next
  case False
  let ?t = "\<lambda>h. if 0 < mx then fl (of_nat h / of_nat mx) else 0"
  have "?t h \<le> ?t h'" using assms(2) rounds_mono [OF assms(1)] by (simp add: divide_right_mono)
  then have "fl (?t h * 3) \<le> fl (?t h' * 3)" by (intro rounds_mono [OF assms(1)]) simp
  then have "\<lceil>fl (?t h * 3)\<rceil> \<le> \<lceil>fl (?t h' * 3)\<rceil>" by (rule ceiling_mono)
  then show ?thesis using False assms(2) by (auto simp: heat_level_def HEAT_def Let_def)
qed

lemma heat_level_max:
  assumes "rounds fl" and "0 < mx"
  shows "heat_level fl mx mx = 3"
proof -
  have "fl 1 = 1" "fl 3 = 3" using rounds_int [OF assms(1), of 1] rounds_int [OF assms(1), of 3] by simp_all
  then show ?thesis using assms(2) by (simp add: heat_level_def HEAT_def Let_def)
qed

lemma by_hits_sorted: "i \<le> j \<Longrightarrow> j < length stats \<Longrightarrow> ks_hits (by_hits stats ! j) \<le> ks_hits (by_hits stats ! i)"
proof -
  assume "i \<le> j" and "j < length stats"
  then have "map (\<lambda>s. - int (ks_hits s)) (by_hits stats) ! i \<le> map (\<lambda>s. - int (ks_hits s)) (by_hits stats) ! j"
    unfolding by_hits_def by (intro sorted_nth_mono sorted_sort_key) simp_all
  then show ?thesis using \<open>i \<le> j\<close> \<open>j < length stats\<close> by (simp add: by_hits_def)
qed

text \<open>The list of keys is a ranking: it has exactly the keys fetched, most read first; the shade
  of a key does not decrease with its reads, is the lightest exactly for the keys never read
  and the darkest for the most read ones; and the bars beside it are the first of the same
  ranking.\<close>

lemma keys_panel_ranks:
  assumes "rounds fl"
  shows "mset (by_hits stats) = mset stats \<and>
    (\<forall>i j. i \<le> j \<longrightarrow> j < length stats \<longrightarrow> ks_hits (by_hits stats ! j) \<le> ks_hits (by_hits stats ! i)) \<and>
    (\<forall>h h'. h \<le> h' \<longrightarrow> heat_level fl h (max_hits stats) \<le> heat_level fl h' (max_hits stats)) \<and>
    (\<forall>h. heat_level fl h (max_hits stats) = 0 \<longleftrightarrow> h = 0) \<and>
    (0 < max_hits stats \<longrightarrow> heat_level fl (max_hits stats) (max_hits stats) = 3) \<and>
    map br_value (top_bars n (Some stats)) = map (snd \<circ> snd) (take n (keys_panel fl stats))"
  using assms by (auto simp: by_hits_sorted heat_level_mono heat_level_0 heat_level_max top_bars_def keys_panel_def take_map)
    (simp add: by_hits_def)

definition demo_stats :: "KeyStat list" where
  "demo_stats = [\<lparr>ks_key = ''a'', ks_hits = 1, ks_ttl = None\<rparr>, \<lparr>ks_key = ''b'', ks_hits = 9, ks_ttl = None\<rparr>]"

lemma keys_panel_ranks_witness:
  "heat_level (\<lambda>x. x) (max_hits demo_stats) (max_hits demo_stats) = 3 \<and> max_hits demo_stats = 9"
proof -
  have "max_hits demo_stats = 9" by (simp add: max_hits_def demo_stats_def)
  then show ?thesis using keys_panel_ranks [OF rounds_id, of demo_stats] by simp
qed

section \<open>The gauge\<close>

text \<open>The gauge of a node is right: the keys it polls never exceed the capacity, so clamping changes
  nothing - the free entries are the difference, and the percentage is between 0 and 100, 0
  for an empty store and 100 for a full one.\<close>

lemma gauge_of_node:
  assumes "rounds fl" and "app_ok ap"
  shows "\<exists>m. read_metrics (res_body (fst (snd (get_metrics cf ck ap)))) = Some m \<and> nm_keys m \<le> nm_maxEntries m \<and>
    gauge_free m = int (nm_maxEntries m) - int (nm_keys m) \<and> 0 \<le> gauge_pct fl m \<and> gauge_pct fl m \<le> 100 \<and>
    (nm_keys m = 0 \<longrightarrow> gauge_pct fl m = 0) \<and> (nm_keys m = nm_maxEntries m \<longrightarrow> 0 < nm_maxEntries m \<longrightarrow> gauge_pct fl m = 100)"
proof -
  obtain m where m: "read_metrics (res_body (fst (snd (get_metrics cf ck ap)))) = Some m"
      "nm_keys m = cache_size (ap_store ap)" "nm_maxEntries m = maxEntries (ap_store ap)"
    using read_get_metrics [of cf ck ap] by blast
  have le: "nm_keys m \<le> nm_maxEntries m" using assms(2) m by (simp add: app_ok_def cache_ok_def cache_size_def)
  have fill: "0 \<le> gauge_fill fl m \<and> gauge_fill fl m \<le> 1"
  proof -
    have "0 \<le> fl (of_nat (nm_keys m) / of_nat (nm_maxEntries m))" if "0 < nm_maxEntries m"
      using rounds_mono [OF assms(1), of 0] rounds_int [OF assms(1), of 0] by simp
    then show ?thesis by (auto simp: gauge_fill_def)
  qed
  have "of_int 0 \<le> gauge_fill fl m * 100 \<and> gauge_fill fl m * 100 \<le> of_int 100" using fill by simp
  then have "of_int 0 \<le> fl (gauge_fill fl m * 100) \<and> fl (gauge_fill fl m * 100) \<le> of_int 100"
    by (intro rounds_between [OF assms(1)]) auto
  then have "0 \<le> gauge_pct fl m \<and> gauge_pct fl m \<le> 100" unfolding gauge_pct_def by (intro js_round_between) auto
  moreover have "gauge_pct fl m = 0" if "nm_keys m = 0"
    using that rounds_int [OF assms(1), of 0] js_round_int [of 0] by (simp add: gauge_pct_def gauge_fill_def)
  moreover have "gauge_pct fl m = 100" if "nm_keys m = nm_maxEntries m" "0 < nm_maxEntries m"
    using that rounds_int [OF assms(1), of 1] rounds_int [OF assms(1), of 100] js_round_int [of 100] by (simp add: gauge_pct_def gauge_fill_def)
  ultimately show ?thesis using m(1) le by (auto simp: gauge_free_def)
qed

lemma gauge_of_node_witness:
  "\<exists>m. read_metrics (res_body (fst (snd (get_metrics demo_config (at_time 5) (new_app (\<lambda>_. None) 0))))) = Some m \<and> gauge_pct (\<lambda>x. x) m \<le> 100"
  using gauge_of_node [OF rounds_id new_app_ok, of demo_config "at_time 5" "\<lambda>_. None" 0] by blast

text \<open>
  A bar's number is cut to the width of the bar: from 100000 reads on, five columns show a
  number that is too small by a power of ten.
\<close>

lemma bar_value_cut: "bar_value_text 5 123456 = ''12345''"
  by (simp add: bar_value_text_def show_nat.simps) code_simp

section \<open>Uptime\<close>

lemma fmtUptime_parts:
  assumes "0 \<le> sec"
  shows "\<exists>h m s. fmtUptime sec = (if 0 < h then pad2 h @ '':'' @ pad2 m @ '':'' @ pad2 s else pad2 m @ '':'' @ pad2 s) \<and>
    0 \<le> h \<and> 0 \<le> m \<and> m < 60 \<and> 0 \<le> s \<and> s < 60 \<and> \<lfloor>sec\<rfloor> = 3600 * h + 60 * m + s"
proof (intro exI conjI)
  let ?h = "\<lfloor>sec / 3600\<rfloor>"
  let ?m = "\<lfloor>(sec - 3600 * of_int ?h) / 60\<rfloor>" and ?s = "\<lfloor>sec - 60 * of_int \<lfloor>sec / 60\<rfloor>\<rfloor>"
  show "fmtUptime sec = (if 0 < ?h then pad2 ?h @ '':'' @ pad2 ?m @ '':'' @ pad2 ?s else pad2 ?m @ '':'' @ pad2 ?s)"
    by (simp add: fmtUptime_def Let_def)
  have h: "of_int ?h \<le> sec / 3600" "sec / 3600 < of_int ?h + 1" by linarith+
  show "0 \<le> ?h" using assms by simp
  have r: "0 \<le> sec - 3600 * of_int ?h" "sec - 3600 * of_int ?h < 3600" using h by linarith+
  show "0 \<le> ?m" using r by simp
  show "?m < 60" using r by (simp add: floor_less_iff)
  have q: "\<lfloor>sec / 60\<rfloor> = 60 * ?h + ?m"
  proof -
    have "(sec - 3600 * of_int ?h) / 60 = sec / 60 - of_int (60 * ?h)" by (simp add: field_simps)
    then show ?thesis by (simp only: floor_diff_of_int)
  qed
  have "of_int \<lfloor>sec / 60\<rfloor> \<le> sec / 60" "sec / 60 < of_int \<lfloor>sec / 60\<rfloor> + 1" by linarith+
  then have s: "0 \<le> sec - 60 * of_int \<lfloor>sec / 60\<rfloor>" "sec - 60 * of_int \<lfloor>sec / 60\<rfloor> < 60" by linarith+
  show "0 \<le> ?s" using s by simp
  show "?s < 60" using s by (simp add: floor_less_iff)
  have "?s = \<lfloor>sec\<rfloor> - 60 * \<lfloor>sec / 60\<rfloor>"
  proof -
    have "sec - 60 * of_int \<lfloor>sec / 60\<rfloor> = sec - of_int (60 * \<lfloor>sec / 60\<rfloor>)" by simp
    then show ?thesis by (simp only: floor_diff_of_int)
  qed
  then show "\<lfloor>sec\<rfloor> = 3600 * ?h + 60 * ?m + ?s" using q by simp
qed

section \<open>Axes\<close>

text \<open>
  Up to the rounding of arithmetic, the label of a row is the value whose point is in that row.
\<close>

lemma axis_labels_match:
  assumes "lo < hi" and "2 \<le> rows" and "i < rows"
  shows "point_y (\<lambda>x. x) rows lo hi (axisTicks (\<lambda>x. x) lo hi rows ! i) = int i"
proof -
  let ?n = "of_nat rows - 1 :: rat"
  have n: "0 < ?n" using assms(2) by simp
  have "axisTicks (\<lambda>x. x) lo hi rows ! i = lo + (hi - lo) * (?n - of_nat i) / ?n"
    using assms(2,3) by (simp add: axisTicks_def)
  then have t: "(axisTicks (\<lambda>x. x) lo hi rows ! i - lo) / (hi - lo) = (?n - of_nat i) / ?n" using assms(1) by simp
  have "of_nat i \<le> ?n" using assms(2,3) by (simp add: le_diff_eq flip: of_nat_Suc)
  then have "0 \<le> (?n - of_nat i) / ?n" "(?n - of_nat i) / ?n \<le> 1" using n by (simp_all add: divide_le_eq_1)
  then have "(1 - min 1 (max 0 ((?n - of_nat i) / ?n))) * ?n = of_int (int i)" using n by (simp add: field_simps)
  then show ?thesis unfolding point_y_def t Let_def by (simp only: js_round_int)
qed

text \<open>
  When nothing was counted yet, the plot is drawn between 0 and 1, and every row of its axis
  is labelled 0.
\<close>

lemma flat_chart_axis:
  "snd (line_chart fl [[Some 0, Some 0]] 82 2 None None) = [fl (0 + fl (fl (fl 0 * 1) / 1)), fl (0 + fl (fl (fl 0 * 0) / 1))]"
  "pr_max (plotSeries fl [Some 0, Some 0] \<lparr>pl_cols = 82, pl_rows = 2, pl_min = Some 0, pl_max = Some 0, pl_dot = None\<rparr>) = fl 1"
  by (simp_all add: line_chart_def chart_bounds_def List.map_filter_def axisTicks_def plotSeries_def plot_bounds_def bounds_def upt_rec)

end
