(* ===== verification/Readouts.thy ===== *)
theory Readouts
  imports Panels
begin

text \<open>
  The readouts of the dashboard that are text or series of its polled data: the table of
  counters (\<open>StatsTable.tsx\<close>), the live strip and the speed of the moon on the landing page
  (\<open>LiveStatsStrip.tsx\<close>, \<open>pages/Home.tsx\<close>), the two charts over time (\<open>TrafficChart.tsx\<close>), the
  lines and the scrolling of the op stream (\<open>LogStream.tsx\<close>), the boot screen
  (\<open>BootSequence.tsx\<close>) and the sound switch (\<open>lib/sound.ts\<close>). \<open>fl\<close> rounds the result of an
  arithmetic operation, \<open>str\<close> writes a number that is no small integer, and \<open>clk\<close> writes a time
  of the day.
\<close>

section \<open>The table of counters\<close>

definition to_fixed0 :: "(rat \<Rightarrow> jsstring) \<Rightarrow> rat \<Rightarrow> jsstring" where
  \<comment> \<open>\<open>toFixed(0)\<close>: of two nearest integers, the larger in magnitude\<close>
  "to_fixed0 str q = (if 10 ^ 21 \<le> \<bar>q\<bar> then rat_text str q
     else (if q < 0 then ''-'' else []) @ show_nat (nat \<lfloor>\<bar>q\<bar> + 1 / 2\<rfloor>))"

record stat_row =
  sr_metric :: jsstring
  sr_value :: jsstring
  sr_detail :: jsstring

definition micros :: "(rat \<Rightarrow> jsstring) \<Rightarrow> rat option \<Rightarrow> jsstring" where
  "micros str q = (case q of None \<Rightarrow> ''--'' | Some x \<Rightarrow> to_fixed0 str x @ [char_of (181 :: nat), CHR ''s''])"

definition hit_rate_text :: "(rat \<Rightarrow> rat) \<Rightarrow> (rat \<Rightarrow> jsstring) \<Rightarrow> NodeMetrics \<Rightarrow> jsstring" where
  "hit_rate_text fl str m = (case nm_hitRate m of None \<Rightarrow> ''--'' | Some h \<Rightarrow> to_fixed1 str (Fin (fl (h * 100))) @ ''%'')"

definition stats_rows :: "(rat \<Rightarrow> rat) \<Rightarrow> (rat \<Rightarrow> jsstring) \<Rightarrow> NodeMetrics \<Rightarrow> stat_row list" where
  "stats_rows fl str m =
     (let reads = nm_hits m + nm_misses m
      in [\<lparr>sr_metric = ''hit rate'', sr_value = hit_rate_text fl str m, sr_detail = show_nat (nm_hits m) @ ''/'' @ show_nat reads\<rparr>,
          \<lparr>sr_metric = ''ops/sec'', sr_value = to_fixed1 str (Fin (nm_opsPerSec m)), sr_detail = ''10s window''\<rparr>,
          \<lparr>sr_metric = ''lat avg'', sr_value = micros str (nm_avgUs m), sr_detail = show_nat (nm_samples m) @ '' samples''\<rparr>,
          \<lparr>sr_metric = ''lat p95'', sr_value = micros str (nm_p95Us m), sr_detail = ''ring buffer''\<rparr>,
          \<lparr>sr_metric = ''hits'', sr_value = show_nat (nm_hits m), sr_detail = ''cumulative''\<rparr>,
          \<lparr>sr_metric = ''misses'', sr_value = show_nat (nm_misses m), sr_detail = ''cumulative''\<rparr>,
          \<lparr>sr_metric = ''sets'', sr_value = show_nat (nm_sets m), sr_detail = ''cumulative''\<rparr>,
          \<lparr>sr_metric = ''deletes'', sr_value = show_nat (nm_deletes m), sr_detail = ''cumulative''\<rparr>,
          \<lparr>sr_metric = ''evictions'', sr_value = show_nat (nm_evictions m), sr_detail = nm_evictionPolicy m\<rparr>,
          \<lparr>sr_metric = ''uptime'', sr_value = fmtUptime (nm_uptimeSec m), sr_detail = nm_node m\<rparr>])"

section \<open>The landing page\<close>

datatype strip_view =
  StripConnecting | StripOffline | StripRows "(jsstring \<times> jsstring) list" utf16 \<comment> \<open>the rows and the meter\<close>

definition strip_uptime :: "rat \<Rightarrow> jsstring" where
  "strip_uptime sec = (let h = \<lfloor>sec / 3600\<rfloor>; m = \<lfloor>(sec - 3600 * of_int \<lfloor>sec / 3600\<rfloor>) / 60\<rfloor>
     in if 0 < h then show_int h @ ''h'' @ pad2 m @ ''m'' else show_int m @ ''m'')"

definition live_strip :: "(rat \<Rightarrow> rat) \<Rightarrow> (rat \<Rightarrow> jsstring) \<Rightarrow> NodeMetrics option \<Rightarrow> NodeStatus \<Rightarrow> strip_view" where
  "live_strip fl str metrics status = (case (status, metrics) of
       (Online, Some m) \<Rightarrow> StripRows
         [(''node'', nm_node m),
          (''hit rate'', case nm_hitRate m of None \<Rightarrow> ''--'' | Some h \<Rightarrow> show_int (js_round (fl (h * 100))) @ ''%''),
          (''ops/sec'', to_fixed1 str (Fin (nm_opsPerSec m))),
          (''keys'', show_nat (nm_keys m) @ ''/'' @ show_nat (nm_maxEntries m)),
          (''uptime'', strip_uptime (nm_uptimeSec m))]
         (renderMeter fl (Some (if 0 < nm_maxEntries m then fl (of_nat (nm_keys m) / of_nat (nm_maxEntries m)) else 0)) 24)
     | (Connecting, _) \<Rightarrow> StripConnecting
     | _ \<Rightarrow> StripOffline)"

definition SPIN_BASE :: rat where "SPIN_BASE = 45 / 100"
definition SPIN_MAX_OPS :: rat where "SPIN_MAX_OPS = 25"
definition SPIN_PER_OP :: rat where "SPIN_PER_OP = 3 / 100"

definition spinSpeed :: "(rat \<Rightarrow> rat) \<Rightarrow> NodeMetrics option \<Rightarrow> rat" where
  "spinSpeed fl metrics = fl (SPIN_BASE +
     fl (min (case metrics of None \<Rightarrow> 0 | Some m \<Rightarrow> nm_opsPerSec m) SPIN_MAX_OPS * SPIN_PER_OP))"

section \<open>Charts over time\<close>

definition label_index :: "(rat \<Rightarrow> rat) \<Rightarrow> nat \<Rightarrow> nat \<Rightarrow> nat \<Rightarrow> int" where
  "label_index fl cnt n i = js_round (fl (fl (of_nat i / (of_nat cnt - 1)) * (of_nat n - 1)))"

definition timeLabels :: "(rat \<Rightarrow> rat) \<Rightarrow> (time_ms \<Rightarrow> jsstring) \<Rightarrow> MetricsSample list \<Rightarrow> nat \<Rightarrow> jsstring list" where
  "timeLabels fl clk history cnt = (if history = [] then []
     else map (\<lambda>i. clk (sm_at (history ! nat (label_index fl cnt (length history) i)))) [0..<cnt])"

record chart_panel =
  cp_right :: jsstring
  cp_summary :: jsstring \<comment> \<open>what a screen reader gets\<close>
  cp_labels :: "jsstring list"
  cp_layers :: "utf16 list"
  cp_ticks :: "jsstring list"

definition windowSec :: "(rat \<Rightarrow> rat) \<Rightarrow> MetricsSample list \<Rightarrow> int" where
  "windowSec fl history = js_round (fl (of_int (sm_at (last history) - sm_at (hd history)) / 1000))"

definition traffic_chart :: "(rat \<Rightarrow> rat) \<Rightarrow> (rat \<Rightarrow> jsstring) \<Rightarrow> (time_ms \<Rightarrow> jsstring) \<Rightarrow> MetricsSample list \<Rightarrow> bool \<Rightarrow> chart_panel option" where
  \<comment> \<open>\<open>None\<close>: still collecting\<close>
  "traffic_chart fl str clk history stale = (if length history < 2 then None
     else (case line_chart fl [map (\<lambda>h. Some (of_nat (sm_hits h))) history, map (\<lambda>h. Some (of_nat (sm_misses h))) history] 82 12 None None of
       (layers, ticks) \<Rightarrow> Some
         \<lparr>cp_right = (if stale then ''stale'' else show_int (windowSec fl history) @ ''s window''),
          cp_summary = show_nat (sm_hits (last history)) @ '' hits, '' @ show_nat (sm_misses (last history)) @
            '' misses over the last '' @ show_nat (length history) @ '' seconds.'',
          cp_labels = timeLabels fl clk history 5, cp_layers = layers, cp_ticks = map (to_fixed0 str) ticks\<rparr>))"

definition latency_chart :: "(rat \<Rightarrow> rat) \<Rightarrow> (rat \<Rightarrow> jsstring) \<Rightarrow> (time_ms \<Rightarrow> jsstring) \<Rightarrow> MetricsSample list \<Rightarrow> bool \<Rightarrow> chart_panel option" where
  "latency_chart fl str clk history stale = (if length history < 2 then None
     else (case line_chart fl [map sm_p95Us history, map sm_avgUs history] 52 12 None None of
       (layers, ticks) \<Rightarrow> Some
         \<lparr>cp_right = (if stale then ''stale'' else ''avg / p95''),
          cp_summary = (case sm_avgUs (last history) of None \<Rightarrow> ''no'' | Some x \<Rightarrow> to_fixed0 str x) @ '' microsecond average latency,'' @
            (case sm_p95Us (last history) of None \<Rightarrow> '' no'' | Some x \<Rightarrow> '' '' @ to_fixed0 str x) @ '' microsecond p95.'',
          cp_labels = timeLabels fl clk history 3, cp_layers = layers, cp_ticks = map (to_fixed0 str) ticks\<rparr>))"

section \<open>The op stream\<close>

definition kind_label :: "LogKind \<Rightarrow> jsstring" where
  "kind_label k = (case k of LHit \<Rightarrow> ''HIT '' | LMiss \<Rightarrow> ''MISS'' | LSet \<Rightarrow> ''SET '' | LDel \<Rightarrow> ''DEL '' | LEvict \<Rightarrow> ''EVCT''
     | LExpire \<Rightarrow> ''EXPR'' | LErr \<Rightarrow> ''ERR '')"

definition stream_rows :: "(time_ms \<Rightarrow> jsstring) \<Rightarrow> op_log \<Rightarrow> (nat \<times> jsstring \<times> jsstring \<times> utf16) list" where
  "stream_rows clk l = map (\<lambda>ev. (lg_id ev, clk (lg_at ev), kind_label (lg_kind ev), lg_text ev)) (lg_events l)"

definition STICK_THRESHOLD :: int where "STICK_THRESHOLD = 24"

record scroll_view =
  sv_scrollTop :: int
  sv_clientHeight :: int
  sv_scrollHeight :: int
  sv_stick :: bool

definition handleScroll :: "scroll_view \<Rightarrow> scroll_view" where
  "handleScroll v = v\<lparr>sv_stick := (sv_scrollHeight v - sv_scrollTop v - sv_clientHeight v < STICK_THRESHOLD)\<rparr>"

definition set_scrollTop :: "int \<Rightarrow> scroll_view \<Rightarrow> scroll_view" where
  \<comment> \<open>the browser's: the position is kept within what can be scrolled\<close>
  "set_scrollTop y v = v\<lparr>sv_scrollTop := max 0 (min y (sv_scrollHeight v - sv_clientHeight v))\<rparr>"

definition events_effect :: "scroll_view \<Rightarrow> scroll_view" where
  "events_effect v = (if \<not> sv_stick v then v else set_scrollTop (sv_scrollHeight v) v)"

section \<open>The boot screen\<close>

definition BOOT_LINES :: nat where "BOOT_LINES = 7"
definition LINE_MS :: int where "LINE_MS = 110"

datatype boot = Booting nat \<comment> \<open>\<open>shown\<close>\<close> | Booted \<comment> \<open>\<open>onDone\<close> was called\<close>

definition boot_start :: "bool \<Rightarrow> boot" where
  "boot_start reducedMotion = (if reducedMotion then Booted else Booting 0)"

definition boot_delay :: "nat \<Rightarrow> int" where
  "boot_delay shown = (if BOOT_LINES \<le> shown then 260 else LINE_MS)"

fun boot_timer :: "boot \<Rightarrow> boot" where
  "boot_timer (Booting shown) = (if BOOT_LINES \<le> shown then Booted else Booting (shown + 1))"
| "boot_timer Booted = Booted"

definition boot_skip :: "boot \<Rightarrow> boot" where
  \<comment> \<open>a key or a click\<close>
  "boot_skip b = Booted"

definition boot_progress :: "(rat \<Rightarrow> rat) \<Rightarrow> nat \<Rightarrow> utf16 \<times> int" where
  "boot_progress fl shown = (let progress = fl (of_nat shown / of_nat BOOT_LINES)
     in (renderMeter fl (Some progress) 32, js_round (fl (progress * 100))))"

section \<open>Sound\<close>

definition FREQ_HZ :: "LogKind \<Rightarrow> nat" where
  "FREQ_HZ k = (case k of LHit \<Rightarrow> 880 | LSet \<Rightarrow> 587 | LDel \<Rightarrow> 466 | LMiss \<Rightarrow> 330 | LExpire \<Rightarrow> 330 | LEvict \<Rightarrow> 220 | LErr \<Rightarrow> 165)"

record sound =
  so_enabled :: bool
  so_storage :: "jsstring option" \<comment> \<open>the item of \<open>localStorage\<close>\<close>

definition load_sound :: "bool \<Rightarrow> jsstring option \<Rightarrow> sound" where
  \<comment> \<open>whether there is a \<open>localStorage\<close>, and its item\<close>
  "load_sound present item = \<lparr>so_enabled = (present \<and> item = Some ''1''), so_storage = item\<rparr>"

definition setSoundEnabled :: "bool \<Rightarrow> bool \<Rightarrow> sound \<Rightarrow> sound" where
  \<comment> \<open>\<open>throws\<close>: \<open>setItem\<close> throws\<close>
  "setSoundEnabled throws nxt so = so\<lparr>so_enabled := nxt,
     so_storage := (if throws then so_storage so else Some (if nxt then ''1'' else ''0''))\<rparr>"

definition playBlip :: "bool \<Rightarrow> LogKind \<Rightarrow> sound \<Rightarrow> nat option" where
  \<comment> \<open>\<open>audio\<close>: there is a context to play in; the frequency of the tone\<close>
  "playBlip audio k so = (if \<not> so_enabled so then None else if \<not> audio then None else Some (FREQ_HZ k))"

section \<open>The table shows the node's numbers\<close>

text \<open>One decimal of a percentage: \<open>n\<close> tenths, within half a tenth of the value.\<close>

lemma to_fixed1_tenths:
  assumes "0 \<le> q" and "q \<le> 100"
  shows "\<exists>n. to_fixed1 str (Fin q) = show_nat (n div 10) @ ''.'' @ show_nat (n mod 10) \<and> n \<le> 1000 \<and> \<bar>of_nat n / 10 - q\<bar> \<le> 1 / 20"
proof (intro exI conjI)
  let ?n = "nat \<lfloor>\<bar>q\<bar> * 10 + 1 / 2\<rfloor>"
  show "to_fixed1 str (Fin q) = show_nat (?n div 10) @ ''.'' @ show_nat (?n mod 10)"
    using assms by (simp add: to_fixed1_def Let_def)
  have f: "of_int \<lfloor>q * 10 + 1 / 2\<rfloor> \<le> q * 10 + 1 / 2" "q * 10 + 1 / 2 < of_int \<lfloor>q * 10 + 1 / 2\<rfloor> + 1" by linarith+
  have p: "0 \<le> \<lfloor>q * 10 + 1 / 2\<rfloor>" using assms(1) by simp
  have "\<lfloor>q * 10 + 1 / 2\<rfloor> \<le> 1000" using assms(2) by linarith
  then show "?n \<le> 1000" using assms(1) p by (simp add: nat_le_iff)
  have "(of_nat ?n :: rat) = of_int \<lfloor>q * 10 + 1 / 2\<rfloor>" using p assms(1) by simp
  then show "\<bar>of_nat ?n / 10 - q\<bar> \<le> 1 / 20" using f by linarith
qed

lemma hit_rate_of_node:
  assumes "rounds fl"
  shows "\<exists>m. read_metrics (res_body (fst (snd (get_metrics cf ck ap)))) = Some m \<and>
    (let reads = m_hits (ap_metrics ap) + m_misses (ap_metrics ap); row = hd (stats_rows fl str m)
     in sr_detail row = show_nat (m_hits (ap_metrics ap)) @ ''/'' @ show_nat reads \<and>
       (reads = 0 \<longrightarrow> sr_value row = ''--'') \<and>
       (0 < reads \<longrightarrow> (\<exists>n. sr_value row = show_nat (n div 10) @ ''.'' @ show_nat (n mod 10) @ ''%'' \<and> n \<le> 1000 \<and>
          \<bar>of_nat n / 10 - fl (of_nat (m_hits (ap_metrics ap)) / of_nat reads * 100)\<bar> \<le> 1 / 20)))"
proof -
  obtain m where m: "read_metrics (res_body (fst (snd (get_metrics cf ck ap)))) = Some m"
    "nm_hits m = m_hits (ap_metrics ap)" "nm_misses m = m_misses (ap_metrics ap)"
    "nm_hitRate m = (if 0 < nm_hits m + nm_misses m then Some (of_nat (nm_hits m) / of_nat (nm_hits m + nm_misses m)) else None)"
    by (simp add: read_get_metrics_eq Let_def snapshot_counters)
  have "\<exists>n. hit_rate_text fl str m = show_nat (n div 10) @ ''.'' @ show_nat (n mod 10) @ ''%'' \<and> n \<le> 1000 \<and>
      \<bar>of_nat n / 10 - fl (of_nat (nm_hits m) / of_nat (nm_hits m + nm_misses m) * 100)\<bar> \<le> 1 / 20"
    if r: "0 < nm_hits m + nm_misses m"
  proof -
    let ?h = "of_nat (nm_hits m) / of_nat (nm_hits m + nm_misses m) :: rat"
    have "of_int 0 \<le> ?h * 100 \<and> ?h * 100 \<le> of_int 100" using r by (simp add: divide_le_eq)
    then have "of_int 0 \<le> fl (?h * 100) \<and> fl (?h * 100) \<le> of_int 100" by (intro rounds_between [OF assms]) auto
    then obtain n where "to_fixed1 str (Fin (fl (?h * 100))) = show_nat (n div 10) @ ''.'' @ show_nat (n mod 10)"
        "n \<le> 1000" "\<bar>of_nat n / 10 - fl (?h * 100)\<bar> \<le> 1 / 20"
      using to_fixed1_tenths [of "fl (?h * 100)" str] by auto
    then show ?thesis using r m(4) by (intro exI [of _ n]) (simp add: hit_rate_text_def)
  qed
  then show ?thesis using m by (auto simp: stats_rows_def Let_def hit_rate_text_def)
qed

text \<open>
  The landing page shows numbers exactly while the node answers: never zeros that look like
  measurements.
\<close>

lemma strip_follows_node:
  "(\<exists>rows mtr. live_strip fl str (po_metrics (fst (poll_run (new_poll, l) ts))) (po_status (fst (poll_run (new_poll, l) ts))) = StripRows rows mtr) \<longleftrightarrow>
    ts \<noteq> [] \<and> snd (last ts) \<noteq> None"
proof -
  have s: "po_status (fst (poll_run (new_poll, l) ts)) = (if ts = [] then Connecting else if snd (last ts) = None then Offline else Online)"
    and m: "po_metrics (fst (poll_run (new_poll, l) ts)) = (if answers ts = [] then None else Some (snd (last (answers ts))))"
    using poll_run_state [of "(new_poll, l)" "[]" ts] by (simp_all add: new_poll_def)
  have "answers ts \<noteq> []" if "ts \<noteq> []" "snd (last ts) \<noteq> None"
    using that by (cases ts rule: rev_cases) (auto simp: answers_def List.map_filter_def split: prod.splits)
  then show ?thesis unfolding s m by (auto simp: live_strip_def split: option.splits)
qed

lemma spin_range:
  assumes "rounds fl" and "case metrics of None \<Rightarrow> True | Some m \<Rightarrow> 0 \<le> nm_opsPerSec m"
  shows "0 \<le> spinSpeed fl metrics \<and> spinSpeed fl metrics \<le> 2"
proof -
  let ?x = "min (case metrics of None \<Rightarrow> 0 | Some m \<Rightarrow> nm_opsPerSec m) SPIN_MAX_OPS"
  have "0 \<le> ?x \<and> ?x \<le> 25" using assms(2) by (simp add: SPIN_MAX_OPS_def split: option.splits)
  then have "of_int 0 \<le> ?x * SPIN_PER_OP \<and> ?x * SPIN_PER_OP \<le> of_int 1" by (simp add: SPIN_PER_OP_def)
  then have "of_int 0 \<le> fl (?x * SPIN_PER_OP) \<and> fl (?x * SPIN_PER_OP) \<le> of_int 1" by (intro rounds_between [OF assms(1)]) auto
  then have "of_int 0 \<le> SPIN_BASE + fl (?x * SPIN_PER_OP) \<and> SPIN_BASE + fl (?x * SPIN_PER_OP) \<le> of_int 2" by (simp add: SPIN_BASE_def)
  then show ?thesis unfolding spinSpeed_def using rounds_between [OF assms(1), of 0 _ 2] by simp
qed

section \<open>Labels and the stream\<close>

lemma label_index_point: "2 \<le> cnt \<Longrightarrow> label_index fl cnt n i = point_x fl n cnt i"
  by (simp add: label_index_def point_x_def)

lemma label_index_ends:
  assumes "rounds fl" and "2 \<le> cnt" and "1 \<le> n" and "n \<le> 2 ^ 53"
  shows "label_index fl cnt n 0 = 0 \<and> label_index fl cnt n (cnt - 1) = int n - 1"
proof
  have fl: "fl 0 = 0" "fl 1 = 1" using rounds_int [OF assms(1), of 0] rounds_int [OF assms(1), of 1] by simp_all
  have zero: "js_round 0 = 0" using js_round_int [of 0] by simp
  show "label_index fl cnt n 0 = 0" by (simp only: label_index_def of_nat_0 div_0 fl mult_zero_left zero)
  have m: "(of_nat n - 1 :: rat) = of_int (int n - 1)" by simp
  have flm: "fl (of_int (int n - 1)) = of_int (int n - 1)" by (rule rounds_int [OF assms(1)]) (use assms(3,4) in auto)
  have one: "(of_nat (cnt - 1) :: rat) / (of_nat cnt - 1) = 1" using assms(2) by (simp add: of_nat_diff)
  show "label_index fl cnt n (cnt - 1) = int n - 1" by (simp only: label_index_def one fl m mult_1_left flm js_round_int)
qed

text \<open>
  The clock labels under a chart are read from within the window: none is missing, they are in
  the order of the samples, and the first and the last are those of the oldest and the newest.
\<close>

lemma time_labels_span:
  assumes "rounds fl" and "history \<noteq> []" and "length history \<le> 2 ^ 53" and "2 \<le> cnt"
  shows "length (timeLabels fl clk history cnt) = cnt \<and> hd (timeLabels fl clk history cnt) = clk (sm_at (hd history)) \<and>
    last (timeLabels fl clk history cnt) = clk (sm_at (last history)) \<and>
    (\<forall>i < cnt. 0 \<le> label_index fl cnt (length history) i \<and> label_index fl cnt (length history) i < int (length history)) \<and>
    (\<forall>i j. i \<le> j \<longrightarrow> j < cnt \<longrightarrow> label_index fl cnt (length history) i \<le> label_index fl cnt (length history) j)"
proof -
  have n: "1 \<le> length history" using assms(2) by (cases history) simp_all
  note ends = label_index_ends [OF assms(1,4) n assms(3)]
  have "hd (timeLabels fl clk history cnt) = clk (sm_at (hd history))"
    using ends assms(2,4) by (simp add: timeLabels_def hd_map hd_conv_nth [of history])
  moreover have "last (timeLabels fl clk history cnt) = clk (sm_at (last history))"
    using ends assms(2,4) n by (simp add: timeLabels_def last_map last_conv_nth nat_diff_distrib)
  ultimately show ?thesis
    using point_x_range [OF assms(1) n assms(3)] point_x_mono [OF assms(1) n] assms(2,4)
    by (simp add: timeLabels_def label_index_point)
qed

text \<open>
  The stream follows its tail exactly while the reader does: new lines keep a view that is at
  the end there, whatever their height, and leave one that was scrolled up where it is.
\<close>

lemma stream_sticks:
  assumes "v' = v\<lparr>sv_scrollHeight := h\<rparr>" and "sv_clientHeight v \<le> h" and "0 \<le> sv_clientHeight v"
  shows "sv_stick v \<Longrightarrow> sv_scrollHeight v' - sv_scrollTop (events_effect v') - sv_clientHeight v' \<le> 0 \<and> sv_stick (handleScroll (events_effect v'))"
    and "\<not> sv_stick v \<Longrightarrow> sv_scrollTop (events_effect v') = sv_scrollTop v"
  using assms by (auto simp: events_effect_def set_scrollTop_def handleScroll_def STICK_THRESHOLD_def min_def)

section \<open>Boot and sound\<close>

text \<open>
  The boot screen ends by itself, after one second and 30 milliseconds, and at once on a key or
  click.
\<close>

lemma boot_ends:
  "(boot_timer ^^ (BOOT_LINES + 1)) (boot_start False) = Booted"
  "(\<Sum>shown \<le> BOOT_LINES. boot_delay shown) = 1030"
  "n \<le> BOOT_LINES \<Longrightarrow> (boot_timer ^^ n) (boot_start False) = Booting n"
proof -
  show shown: "n \<le> BOOT_LINES \<Longrightarrow> (boot_timer ^^ n) (boot_start False) = Booting n" for n
    by (induction n) (simp_all add: boot_start_def)
  show "(boot_timer ^^ (BOOT_LINES + 1)) (boot_start False) = Booted"
    using shown [of BOOT_LINES] by simp
  show "(\<Sum>shown \<le> BOOT_LINES. boot_delay shown) = 1030"
    by (simp add: BOOT_LINES_def boot_delay_def LINE_MS_def numeral_eq_Suc)
qed

text \<open>A choice of sound that could be stored is what the next visit starts with.\<close>

lemma sound_survives_reload:
  "load_sound True (so_storage (setSoundEnabled False nxt so)) = setSoundEnabled False nxt so"
  by (cases so) (simp add: load_sound_def setSoundEnabled_def)

lemma blips: "playBlip audio k so \<noteq> None \<longleftrightarrow> so_enabled so \<and> audio"
  by (simp add: playBlip_def)

end

