(* ===== verification/Simulator.thy ===== *)
theory Simulator
  imports ConsoleSpec
begin

text \<open>
  The demo traffic of the dashboard: \<open>src/dashboard/src/lib/simulator.ts\<close> and \<open>lib/skewedKey.ts\<close>.
  Random numbers and \<open>Math.pow(r, 2.4)\<close> of one are inputs. A request that was issued and has
  not settled is in \<open>si_pending\<close>; events of the timer, of the toggle and of settling requests
  come in any order.
\<close>

section \<open>Keys\<close>

definition SIM_POOL_SIZE :: nat where "SIM_POOL_SIZE = 64"

definition skewedKey :: "rat \<Rightarrow> jsstring" where
  \<comment> \<open>\<open>p\<close> is \<open>Math.pow(Math.random(), 2.4)\<close>; the product with a power of two is exact\<close>
  "skewedKey p = ''sim:user:'' @ show_int \<lfloor>of_nat SIM_POOL_SIZE * p\<rfloor>"

section \<open>Operations\<close>

definition READ_PROB :: rat where "READ_PROB = 68 / 100"
definition WRITE_PROB :: rat where "WRITE_PROB = 96 / 100"
definition SHORT_TTL_PROB :: rat where "SHORT_TTL_PROB = 33 / 100"
definition SHORT_TTL_MIN_S :: int where "SHORT_TTL_MIN_S = 6"
definition SHORT_TTL_RANGE_S :: int where "SHORT_TTL_RANGE_S = 20"

datatype sim_op = SimGet jsstring | SimSet jsstring jsstring "int option" | SimDel jsstring

record rolls =
  rl_op :: rat
  rl_pow :: rat \<comment> \<open>\<open>Math.pow\<close> in \<open>skewedKey\<close>\<close>
  rl_short :: rat
  rl_ttl :: rat

definition choose_op :: "time_ms \<Rightarrow> rolls \<Rightarrow> sim_op" where
  "choose_op now r = (let key = skewedKey (rl_pow r)
     in if rl_op r < READ_PROB then SimGet key
        else if rl_op r < WRITE_PROB
        then SimSet key (''payload-'' @ show_int (now mod 100000))
          (if rl_short r < SHORT_TTL_PROB then Some (SHORT_TTL_MIN_S + \<lfloor>rl_ttl r * of_int SHORT_TTL_RANGE_S\<rfloor>) else None)
        else SimDel key)"

definition sim_call :: "jsstring \<Rightarrow> sim_op \<Rightarrow> fetch_call" where
  "sim_call base op = (case op of
       SimGet k \<Rightarrow> getKey_call base k
     | SimSet k v ttl \<Rightarrow> setKey_call base k v (map_option num_of_int ttl)
     | SimDel k \<Rightarrow> deleteKey_call base k)"

section \<open>The generator\<close>

record simulator =
  si_timer :: bool
  si_inFlight :: bool
  si_pending :: "sim_op list"
  si_log :: op_log

definition new_simulator :: "op_log \<Rightarrow> simulator" where
  "new_simulator l = \<lparr>si_timer = False, si_inFlight = False, si_pending = [], si_log = l\<rparr>"

definition sim_logs :: "time_ms \<Rightarrow> LogKind \<Rightarrow> utf16 \<Rightarrow> simulator \<Rightarrow> simulator" where
  "sim_logs now k t si = si\<lparr>si_log := logEvent now k t (si_log si)\<rparr>"

definition startSimulator :: "time_ms \<Rightarrow> simulator \<Rightarrow> simulator" where
  "startSimulator now si = (if si_timer si then si
     else sim_logs now LSet (units ''traffic simulator engaged'') (si\<lparr>si_timer := True\<rparr>))"

definition stopSimulator :: "time_ms \<Rightarrow> simulator \<Rightarrow> simulator" where
  "stopSimulator now si = (if \<not> si_timer si then si
     else sim_logs now LDel (units ''traffic simulator disengaged'') (si\<lparr>si_timer := False\<rparr>))"

definition toggleSimulator :: "time_ms \<Rightarrow> simulator \<Rightarrow> simulator" where
  "toggleSimulator now si = (if si_timer si then stopSimulator now si else startSimulator now si)"

definition fire :: "time_ms \<Rightarrow> rolls \<Rightarrow> simulator \<Rightarrow> simulator" where
  \<comment> \<open>until the request is issued\<close>
  "fire now r si = (if si_inFlight si then si
     else si\<lparr>si_inFlight := True, si_pending := si_pending si @ [choose_op now r]\<rparr>)"

definition op_logged :: "sim_op \<Rightarrow> fetched \<Rightarrow> (rat \<Rightarrow> jsstring) \<Rightarrow> caught + (LogKind \<times> utf16) option" where
  \<comment> \<open>what the rest of \<open>fireOnce\<close> logs, or what it catches\<close>
  "op_logged op f str = (case op of
       SimGet k \<Rightarrow> map_sum id (\<lambda>r. Some (if gr_hit r then LHit else LMiss, units (k @ '' (sim)''))) (getKey_result k f)
     | SimSet k v ttl \<Rightarrow> map_sum id (\<lambda>_. Some (LSet, units (k @
         (case ttl of Some t \<Rightarrow> if t \<noteq> 0 then '' ttl='' @ show_int t @ ''s'' else [] | None \<Rightarrow> []) @ '' (sim)''))) (setKey_result str f)
     | SimDel k \<Rightarrow> (case deleteKey_result f of
           Inl e \<Rightarrow> Inl e
         | Inr j \<Rightarrow> map_sum id (\<lambda>d. if json_truthy d then Some (LDel, units (k @ '' (sim)'')) else None) (js_member ''deleted'' j)))"

definition fire_settled :: "(rat \<Rightarrow> jsstring) \<Rightarrow> time_ms \<Rightarrow> fetched \<Rightarrow> simulator \<Rightarrow> simulator" where
  \<comment> \<open>the request issued first settles\<close>
  "fire_settled str now f si = (case si_pending si of
       [] \<Rightarrow> si
     | op # rest \<Rightarrow>
         let si' = (case op_logged op f str of
               Inl e \<Rightarrow> stopSimulator now (sim_logs now LErr (units ''sim op failed '' @ em_dash @ units '' node unreachable'') si)
             | Inr None \<Rightarrow> si
             | Inr (Some (k, t)) \<Rightarrow> sim_logs now k t si)
         in si'\<lparr>si_pending := rest, si_inFlight := False\<rparr>)"

datatype sim_event =
  SimTick rolls \<comment> \<open>the timer\<close>
  | SimSettled fetched
  | SimToggle
  | SimUnmount \<comment> \<open>the dashboard page is left\<close>

fun sim_step :: "(rat \<Rightarrow> jsstring) \<Rightarrow> simulator \<Rightarrow> time_ms \<times> sim_event \<Rightarrow> simulator" where
  "sim_step str si (now, SimTick r) = (if si_timer si then fire now r si else si)"
| "sim_step str si (now, SimSettled f) = fire_settled str now f si"
| "sim_step str si (now, SimToggle) = toggleSimulator now si"
| "sim_step str si (now, SimUnmount) = stopSimulator now si"

section \<open>Every request is one the node accepts\<close>

definition rolls_ok :: "rolls \<Rightarrow> bool" where
  \<comment> \<open>random numbers are at least 0 and below 1, and so is a positive power of one\<close>
  "rolls_ok r \<longleftrightarrow> 0 \<le> rl_op r \<and> rl_op r < 1 \<and> 0 \<le> rl_pow r \<and> rl_pow r < 1 \<and> 0 \<le> rl_short r \<and> rl_short r < 1 \<and> 0 \<le> rl_ttl r \<and> rl_ttl r < 1"

definition sim_key :: "jsstring \<Rightarrow> bool" where
  "sim_key k \<longleftrightarrow> (\<exists>i < SIM_POOL_SIZE. k = ''sim:user:'' @ show_nat i)"

definition sim_op_ok :: "sim_op \<Rightarrow> bool" where
  "sim_op_ok op \<longleftrightarrow> (case op of
       SimGet k \<Rightarrow> sim_key k
     | SimSet k v ttl \<Rightarrow> sim_key k \<and> (\<forall>t. ttl = Some t \<longrightarrow> 6 \<le> t \<and> t \<le> 25)
     | SimDel k \<Rightarrow> sim_key k)"

lemma floor_share: "0 \<le> (p :: rat) \<Longrightarrow> p < 1 \<Longrightarrow> 0 < n \<Longrightarrow> 0 \<le> \<lfloor>of_int n * p\<rfloor> \<and> \<lfloor>of_int n * p\<rfloor> < n"
proof
  assume p: "0 \<le> p" "p < 1" "0 < n"
  show "0 \<le> \<lfloor>of_int n * p\<rfloor>" using p by simp
  have "of_int n * p < of_int n * 1" using p by (intro mult_strict_left_mono) simp_all
  then show "\<lfloor>of_int n * p\<rfloor> < n" by (simp add: floor_less_iff)
qed

lemma choose_op_ok: "rolls_ok r \<Longrightarrow> sim_op_ok (choose_op now r)"
proof -
  assume r: "rolls_ok r"
  have i: "0 \<le> \<lfloor>64 * rl_pow r\<rfloor>" "\<lfloor>64 * rl_pow r\<rfloor> < 64" using floor_share [of "rl_pow r" 64] r by (simp_all add: rolls_ok_def)
  have k: "sim_key (skewedKey (rl_pow r))"
    unfolding sim_key_def using i
    by (intro exI [of _ "nat \<lfloor>64 * rl_pow r\<rfloor>"]) (simp add: skewedKey_def SIM_POOL_SIZE_def show_int_def nat_less_iff)
  have "0 \<le> \<lfloor>rl_ttl r * 20\<rfloor> \<and> \<lfloor>rl_ttl r * 20\<rfloor> < 20" using floor_share [of "rl_ttl r" 20] r by (simp add: rolls_ok_def mult.commute)
  then show ?thesis using k by (auto simp: choose_op_def sim_op_ok_def Let_def SHORT_TTL_MIN_S_def SHORT_TTL_RANGE_S_def)
qed

definition sim_inv :: "simulator \<Rightarrow> bool" where
  "sim_inv si \<longleftrightarrow> length (si_pending si) \<le> 1 \<and> (si_inFlight si \<longleftrightarrow> si_pending si \<noteq> []) \<and> (\<forall>op \<in> set (si_pending si). sim_op_ok op)"

definition event_ok :: "time_ms \<times> sim_event \<Rightarrow> bool" where
  "event_ok ev \<longleftrightarrow> (case snd ev of SimTick r \<Rightarrow> rolls_ok r | _ \<Rightarrow> True)"

lemma sim_step_inv: "sim_inv si \<Longrightarrow> event_ok ev \<Longrightarrow> sim_inv (sim_step str si ev)"
proof -
  assume inv: "sim_inv si" and ev: "event_ok ev"
  have keep: "sim_inv (startSimulator now si)" "sim_inv (stopSimulator now si)" for now
    using inv by (simp_all add: startSimulator_def stopSimulator_def sim_logs_def sim_inv_def)
  obtain now e where e: "ev = (now, e)" by (cases ev)
  show ?thesis
  proof (cases e)
    case (SimTick r)
    then show ?thesis using inv ev choose_op_ok [of r now] by (auto simp: e event_ok_def fire_def sim_inv_def)
  next
    case (SimSettled f)
    then show ?thesis using inv
      by (cases "si_pending si") (auto simp: e fire_settled_def sim_inv_def Let_def)
  qed (use keep in \<open>simp_all add: e toggleSimulator_def\<close>)
qed

lemma digits_length: "n < 100 \<Longrightarrow> length (show_nat n) \<le> 2"
proof -
  assume "n < 100"
  then have "n div 10 < 10" by (simp add: less_mult_imp_div_less)
  then have "length (show_nat (n div 10)) = 1" by (subst show_nat.simps) simp
  then show ?thesis by (subst show_nat.simps) simp
qed

lemma sim_key_ok: "sim_key k \<Longrightarrow> 11 \<le> m \<Longrightarrow> key_ok m k \<and> k \<notin> {[], ''.'', ''..''}"
proof -
  assume k: "sim_key k" and m: "11 \<le> m"
  obtain i where i: "i < 64" "k = ''sim:user:'' @ show_nat i" using k by (auto simp: sim_key_def SIM_POOL_SIZE_def)
  have "CHR ''s'' \<in> set k" "\<not> is_ws CHR ''s''" using i(2) by (simp_all add: is_ws_def)
  then have "trim k \<noteq> []" using trim_eq_Nil [of k] by blast
  moreover have "length k \<le> m" using digits_length [of i] i m by simp
  ultimately show ?thesis using i(2) by (auto simp: key_ok_def)
qed

lemma delete_route:
  assumes "k \<notin> {[], ''.'', ''..''}"
  shows "rq_route (api_request str base ip (deleteKey_call base k)) = DeleteR k"
proof -
  have p: "fetch_path (''/delete/'' @ encodeURIComponent k) = [''delete'', encodeURIComponent k]"
    using plain_path [of "''delete''" "encodeURIComponent k"] encode_no_slash [of k] encode_dots [of k] assms by simp
  have "api_route ''DELETE'' (fetch_path (''/delete/'' @ encodeURIComponent k)) =
      node_route ''DELETE'' (fetch_path (''/delete/'' @ encodeURIComponent k))"
    unfolding p api_route_def by simp
  then show ?thesis using delivered(2) [OF assms] by (simp add: api_request_def deleteKey_call_def Let_def)
qed

definition sim_accepted :: "nat \<Rightarrow> time_ms \<Rightarrow> jsstring \<Rightarrow> sim_op \<Rightarrow> bool" where
  \<comment> \<open>the request reaches its handler with its key, and validation accepts it as it is meant\<close>
  "sim_accepted maxKeyLength t base op \<longleftrightarrow> (case op of
       SimGet k \<Rightarrow> \<forall>str ip. rq_route (api_request str base ip (sim_call base op)) = GetR k
     | SimSet k v ttl \<Rightarrow> (\<forall>str ip. rq_route (api_request str base ip (sim_call base op)) = SetR) \<and>
         validateEntry maxKeyLength t (fc_body (sim_call base op)) = Inr (k, v, map_option num_of_int ttl)
     | SimDel k \<Rightarrow> \<forall>str ip. rq_route (api_request str base ip (sim_call base op)) = DeleteR k)"

lemma short_ttl_valid: "6 \<le> x \<Longrightarrow> x \<le> 25 \<Longrightarrow> \<bar>t\<bar> \<le> 2 ^ 53 \<Longrightarrow> ttl_valid t (Some (JNum (num_of_int x)))"
proof -
  assume x: "6 \<le> x" "x \<le> 25" and t: "\<bar>t\<bar> \<le> 2 ^ 53"
  have big: "\<bar>of_int (i :: int)\<bar> < overflow_limit" if "\<bar>i\<bar> \<le> 2 ^ 60" for i
  proof -
    have "(of_int \<bar>i\<bar> :: rat) \<le> of_int (2 ^ 60)" using that by (simp only: of_int_le_iff)
    also have "\<dots> < 10 ^ 300" by simp
    finally have "(of_int \<bar>i\<bar> :: rat) < overflow_limit" using overflow_limit_large by (rule less_trans)
    then show ?thesis by (simp only: of_int_abs)
  qed
  have "mk_num (of_int x * 1000) = Fin (of_int (x * 1000))" using big [of "x * 1000"] x by (simp add: mk_num_Fin)
  moreover have "is_finite (mk_num (of_int t + of_int (x * 1000)))" using big [of "t + x * 1000"] x t by simp
  ultimately show ?thesis using x by (simp add: ttl_valid_def num_of_int_def)
qed

lemma ok_op_accepted: "sim_op_ok op \<Longrightarrow> 11 \<le> mk \<Longrightarrow> \<bar>t\<bar> \<le> 2 ^ 53 \<Longrightarrow> sim_accepted mk t base op"
proof (cases op)
  case (SimGet k)
  assume "sim_op_ok op" and "11 \<le> mk"
  then show ?thesis using sim_key_ok [of k mk] SimGet by (simp add: sim_accepted_def sim_op_ok_def sim_call_def call_routes(2))
next
  case (SimSet k v ttl)
  assume "sim_op_ok op" and mk: "11 \<le> mk" and t: "\<bar>t\<bar> \<le> 2 ^ 53"
  then have k: "sim_key k" and d: "\<forall>x. ttl = Some x \<longrightarrow> 6 \<le> x \<and> x \<le> 25" by (simp_all add: SimSet sim_op_ok_def)
  have "validateEntry mk t (fc_body (sim_call base op)) = Inr (k, v, map_option num_of_int ttl)"
    using sim_key_ok [OF k mk] d short_ttl_valid [OF _ _ t]
    by (cases ttl) (auto simp: SimSet sim_call_def setKey_call_def validateEntry_Inr nullish_to_obj_def json_num_def num_of_int_def)
  then show ?thesis by (simp add: SimSet sim_accepted_def sim_call_def call_routes(1))
next
  case (SimDel k)
  assume "sim_op_ok op" and "11 \<le> mk"
  then show ?thesis using sim_key_ok [of k mk] SimDel by (simp add: sim_accepted_def sim_op_ok_def sim_call_def delete_route)
qed

text \<open>The demo traffic is paced and clean: however the timer, the toggle and the answers interleave,
  at most one request is out at any time, and every request it issues reaches the node's
  handler for its key and passes validation as it was meant.\<close>

lemma simulator_paced:
  assumes "\<forall>ev \<in> set evs. event_ok ev" and "si = foldl (sim_step str) (new_simulator l) evs" and "11 \<le> mk" and "\<bar>t\<bar> \<le> 2 ^ 53"
  shows "length (si_pending si) \<le> 1 \<and> (si_inFlight si \<longleftrightarrow> si_pending si \<noteq> []) \<and> (\<forall>op \<in> set (si_pending si). sim_accepted mk t base op)"
proof -
  have "sim_inv (foldl (sim_step str) si evs)" if "sim_inv si" for si
    using that assms(1) by (induction evs arbitrary: si) (simp_all add: sim_step_inv)
  moreover have "sim_inv (new_simulator l)" by (simp add: sim_inv_def new_simulator_def)
  ultimately have "sim_inv si" using assms(2) by blast
  then show ?thesis using ok_op_accepted [OF _ assms(3,4)] by (simp add: sim_inv_def)
qed

definition half_rolls :: rolls where
  "half_rolls = \<lparr>rl_op = 9 / 10, rl_pow = 1 / 2, rl_short = 1 / 4, rl_ttl = 1 / 2\<rparr>"

lemma simulator_paced_witness:
  "si_pending (foldl (sim_step (\<lambda>_. [])) (new_simulator new_log) [(0, SimToggle), (280, SimTick half_rolls), (560, SimTick half_rolls)]) =
     [SimSet ''sim:user:32'' ''payload-280'' (Some 16)] \<and>
   sim_accepted 256 0 [] (SimSet ''sim:user:32'' ''payload-280'' (Some 16))"
proof -
  let ?evs = "[(0, SimToggle), (280, SimTick half_rolls), (560, SimTick half_rolls)]"
  have n: "show_nat 32 = ''32''" "show_nat 280 = ''280''" by code_simp+
  have f: "\<lfloor>32 :: rat\<rfloor> = 32" "\<lfloor>10 :: rat\<rfloor> = 10" by simp_all
  have "si_pending (foldl (sim_step (\<lambda>_. [])) (new_simulator new_log) ?evs) = [SimSet ''sim:user:32'' ''payload-280'' (Some 16)]"
    by (simp add: new_simulator_def toggleSimulator_def startSimulator_def sim_logs_def fire_def choose_op_def Let_def half_rolls_def
        skewedKey_def SIM_POOL_SIZE_def show_int_def READ_PROB_def WRITE_PROB_def SHORT_TTL_PROB_def SHORT_TTL_MIN_S_def
        SHORT_TTL_RANGE_S_def n f)
  moreover have "\<forall>ev \<in> set ?evs. event_ok ev" by (simp add: event_ok_def rolls_ok_def half_rolls_def)
  ultimately show ?thesis
    using simulator_paced [of ?evs _ "\<lambda>_. []" new_log 256 0 "[]"] by simp
qed

end
