(* ===== verification/DashboardApp.thy ===== *)
theory DashboardApp
  imports Readouts Simulator
begin

text \<open>
  The dashboard page as one state machine (\<open>pages/Dashboard.tsx\<close> with the hooks and components
  it composes): the poll of the node, the simulator, the sound switch, the boot screen, the
  flush button, the console and the list of keys, over the one log they all write, driven by
  keys, clicks, timers and answers in any order. What has the keyboard focus is the console's
  input or the page; a browser takes the focus from an input that is disabled.
\<close>

section \<open>State\<close>

record dashboard =
  da_poll :: node_poll
  da_polls :: nat \<comment> \<open>requests for the metrics in flight\<close>
  da_log :: op_log
  da_sim :: simulator
  da_sound :: sound
  da_boot :: boot
  da_flush :: flush_button
  da_console :: console
  da_command :: "command option" \<comment> \<open>the command whose answer the console awaits\<close>
  da_focused :: bool \<comment> \<open>\<open>document.activeElement\<close> is the console's input\<close>
  da_keys :: key_view
  da_copies :: nat \<comment> \<open>writes to the clipboard in flight\<close>
  da_written :: "json list" \<comment> \<open>the values given to \<open>navigator.clipboard.writeText\<close>\<close>

definition on_sim :: "(simulator \<Rightarrow> simulator) \<Rightarrow> dashboard \<Rightarrow> dashboard" where
  \<comment> \<open>the parts share one log\<close>
  "on_sim f d = (let si = f ((da_sim d)\<lparr>si_log := da_log d\<rparr>) in d\<lparr>da_sim := si, da_log := si_log si\<rparr>)"

definition on_flush :: "(flush_button \<Rightarrow> flush_button) \<Rightarrow> dashboard \<Rightarrow> dashboard" where
  \<comment> \<open>every \<open>refreshNow\<close> is a poll\<close>
  "on_flush f d = (let fb = f ((da_flush d)\<lparr>fb_log := da_log d, fb_refreshes := 0\<rparr>)
     in d\<lparr>da_flush := fb, da_log := fb_log fb, da_polls := da_polls d + fb_refreshes fb\<rparr>)"

definition on_session :: "(session \<Rightarrow> session) \<Rightarrow> dashboard \<Rightarrow> dashboard" where
  \<comment> \<open>\<open>onOp\<close> is \<open>refreshNow\<close>\<close>
  "on_session f d = (let se = f \<lparr>se_console = da_console d, se_log = da_log d, se_ops = []\<rparr>
     in d\<lparr>da_console := se_console se, da_log := se_log se, da_polls := da_polls d + length (se_ops se)\<rparr>)"

definition on_console :: "(console \<Rightarrow> console) \<Rightarrow> dashboard \<Rightarrow> dashboard" where
  "on_console f d = d\<lparr>da_console := f (da_console d)\<rparr>"

definition rerender :: "dashboard \<Rightarrow> dashboard" where
  \<comment> \<open>a disabled input loses the focus; the key list is fetched again when its token has changed\<close>
  "rerender d = (let d' = (if cn_busy (da_console d) then d\<lparr>da_focused := False\<rparr> else d)
     in d'\<lparr>da_keys := fst (render_keys (keyRefreshToken (po_metrics (da_poll d'))) (da_keys d'))\<rparr>)"

definition mount_dashboard :: "bool \<Rightarrow> op_log \<Rightarrow> simulator \<Rightarrow> sound \<Rightarrow> dashboard" where
  \<comment> \<open>the page appears; log, simulator and sound belong to modules and outlive it\<close>
  "mount_dashboard reducedMotion l si so = rerender
     \<lparr>da_poll = new_poll, da_polls = 1, da_log = l, da_sim = si, da_sound = so, da_boot = boot_start reducedMotion,
      da_flush = \<lparr>fb_flushing = False, fb_log = l, fb_refreshes = 0\<rparr>, da_console = new_console, da_command = None,
      da_focused = False, da_keys = new_key_view, da_copies = 0, da_written = []\<rparr>"

section \<open>Events\<close>

datatype key = Letter char | ArrowUp | ArrowDown | EscapeKey | EnterKey | OtherKey

datatype control = SimSwitch | SoundSwitch | FlushButton | RunButton | ClearButton | CopyButton | InputField | Elsewhere

datatype dash_event =
  Press key
  | Edit jsstring \<comment> \<open>the value of the input changes\<close>
  | Click control
  | PollTick
  | PollSettled "NodeMetrics option"
  | KeysSettled nat "caught + json"
  | SimTimer rolls
  | SimAnswered fetched
  | FlushAnswered fetched
  | CommandAnswered fetched
  | BootTimer
  | CopySettled bool

record browser =
  bw_base :: jsstring \<comment> \<open>\<open>API_BASE\<close>\<close>
  bw_str :: "rat \<Rightarrow> jsstring"
  bw_storageThrows :: bool
  bw_clipboard :: bool \<comment> \<open>there is a \<open>navigator.clipboard\<close>\<close>

definition toggle_sound :: "browser \<Rightarrow> dashboard \<Rightarrow> dashboard" where
  "toggle_sound bw d = d\<lparr>da_sound := setSoundEnabled (bw_storageThrows bw) (\<not> so_enabled (da_sound d)) (da_sound d)\<rparr>"

definition submit_line :: "dashboard \<Rightarrow> dashboard" where
  "submit_line d = (case submit (da_console d) of (c, call) \<Rightarrow> d\<lparr>da_console := c, da_command := call\<rparr>)"

definition page_key :: "browser \<Rightarrow> time_ms \<Rightarrow> key \<Rightarrow> dashboard \<Rightarrow> dashboard" where
  \<comment> \<open>the listeners of the window: \<open>Dashboard\<close>'s, unless the target is an input, and the console's\<close>
  "page_key bw now k d = (if da_focused d then d
     else case k of
         Letter c \<Rightarrow> if c = CHR ''s'' then on_sim (toggleSimulator now) d
           else if c = CHR ''m'' then toggle_sound bw d
           else if c = CHR ''/'' then (if cn_busy (da_console d) then d else d\<lparr>da_focused := True\<rparr>)
           else d
       | _ \<Rightarrow> d)"

definition input_key :: "key \<Rightarrow> dashboard \<Rightarrow> dashboard" where
  \<comment> \<open>the input's own listener, and the form's for Enter; letters come as \<open>Edit\<close>\<close>
  "input_key k d = (if \<not> da_focused d then d
     else case k of
         ArrowUp \<Rightarrow> on_console arrow_up d
       | ArrowDown \<Rightarrow> on_console arrow_down d
       | EscapeKey \<Rightarrow> on_console escape d
       | EnterKey \<Rightarrow> submit_line d
       | _ \<Rightarrow> d)"

definition skip_boot :: "dashboard \<Rightarrow> dashboard" where
  "skip_boot d = d\<lparr>da_boot := boot_skip (da_boot d)\<rparr>"

definition copy_click :: "browser \<Rightarrow> dashboard \<Rightarrow> dashboard" where
  \<comment> \<open>the button is there when there is a last value\<close>
  "copy_click bw d = (case cn_lastValue (da_console d) of
       None \<Rightarrow> d
     | Some v \<Rightarrow> if \<not> bw_clipboard bw then on_console (print (units ''clipboard write failed'') ErrTone) d
         else d\<lparr>da_copies := da_copies d + 1, da_written := da_written d @ [v]\<rparr>)"

definition copy_settled :: "bool \<Rightarrow> dashboard \<Rightarrow> dashboard" where
  "copy_settled ok d = (if da_copies d = 0 then d
     else on_console (if ok then print (units ''copied last value to clipboard'') Ok else print (units ''clipboard write failed'') ErrTone)
       (d\<lparr>da_copies := da_copies d - 1\<rparr>))"

definition click_control :: "browser \<Rightarrow> time_ms \<Rightarrow> control \<Rightarrow> dashboard \<Rightarrow> dashboard" where
  \<comment> \<open>a click moves the focus; disabled controls do not react\<close>
  "click_control bw now c d = (let d' = d\<lparr>da_focused := (c = InputField \<and> \<not> cn_busy (da_console d))\<rparr>
     in case c of
         SimSwitch \<Rightarrow> on_sim (toggleSimulator now) d'
       | SoundSwitch \<Rightarrow> toggle_sound bw d'
       | FlushButton \<Rightarrow> on_flush (\<lambda>fb. fst (flush_click (bw_base bw) fb)) d'
       | RunButton \<Rightarrow> if cn_busy (da_console d) then d' else submit_line d'
       | ClearButton \<Rightarrow> d'\<lparr>da_log := clearLog (da_log d)\<rparr>
       | CopyButton \<Rightarrow> copy_click bw d'
       | _ \<Rightarrow> d')"

definition poll_settled :: "time_ms \<Rightarrow> NodeMetrics option \<Rightarrow> dashboard \<Rightarrow> dashboard" where
  "poll_settled now answer d = (if da_polls d = 0 then d
     else case tick now answer (da_poll d, da_log d) of (po, l) \<Rightarrow> d\<lparr>da_poll := po, da_log := l, da_polls := da_polls d - 1\<rparr>)"

definition command_answered :: "browser \<Rightarrow> time_ms \<Rightarrow> fetched \<Rightarrow> dashboard \<Rightarrow> dashboard" where
  "command_answered bw now f d = (case da_command d of
       None \<Rightarrow> d
     | Some cmd \<Rightarrow> on_session (end_run (bw_str bw) now cmd f) (d\<lparr>da_command := None\<rparr>))"

fun dash_act :: "browser \<Rightarrow> time_ms \<Rightarrow> dash_event \<Rightarrow> dashboard \<Rightarrow> dashboard" where
  "dash_act bw now (Press k) d = page_key bw now k (input_key k (skip_boot d))"
| "dash_act bw now (Edit s) d = (if da_focused d then on_console (type_input s) d else d)"
| "dash_act bw now (Click c) d = (if da_boot d \<noteq> Booted then skip_boot d else click_control bw now c d)"
| "dash_act bw now PollTick d = d\<lparr>da_polls := da_polls d + 1\<rparr>"
| "dash_act bw now (PollSettled answer) d = poll_settled now answer d"
| "dash_act bw now (KeysSettled e result) d = d\<lparr>da_keys := settle_keys e result (da_keys d)\<rparr>"
| "dash_act bw now (SimTimer r) d = on_sim (\<lambda>si. sim_step (bw_str bw) si (now, SimTick r)) d"
| "dash_act bw now (SimAnswered f) d = on_sim (\<lambda>si. sim_step (bw_str bw) si (now, SimSettled f)) d"
| "dash_act bw now (FlushAnswered f) d = (if fb_flushing (da_flush d) then on_flush (flush_settled (bw_str bw) now f) d else d)"
| "dash_act bw now (CommandAnswered f) d = command_answered bw now f d"
| "dash_act bw now BootTimer d = d\<lparr>da_boot := boot_timer (da_boot d)\<rparr>"
| "dash_act bw now (CopySettled ok) d = copy_settled ok d"

definition dash_step :: "browser \<Rightarrow> dashboard \<Rightarrow> time_ms \<times> dash_event \<Rightarrow> dashboard" where
  "dash_step bw d ev = rerender (dash_act bw (fst ev) (snd ev) d)"

definition dash_run :: "browser \<Rightarrow> dashboard \<Rightarrow> (time_ms \<times> dash_event) list \<Rightarrow> dashboard" where
  "dash_run bw d evs = foldl (dash_step bw) d evs"

definition unmount_dashboard :: "time_ms \<Rightarrow> dashboard \<Rightarrow> op_log \<times> simulator \<times> sound" where
  \<comment> \<open>the page is left: the simulator stops, and what belongs to the modules remains\<close>
  "unmount_dashboard now d = (let d' = on_sim (stopSimulator now) d in (da_log d', da_sim d', da_sound d'))"

section \<open>What every event keeps\<close>

definition dash_ok :: "dashboard \<Rightarrow> bool" where
  "dash_ok d \<longleftrightarrow> length (lg_events (da_log d)) \<le> 200 \<and> length (cn_lines (da_console d)) \<le> 200 \<and> length (cn_history (da_console d)) \<le> 200 \<and>
     length (po_history (da_poll d)) \<le> 60 \<and> sim_inv (da_sim d) \<and> (da_focused d \<longrightarrow> \<not> cn_busy (da_console d)) \<and>
     (cn_busy (da_console d) \<longleftrightarrow> da_command d \<noteq> None) \<and> (\<forall>i. cn_histIdx (da_console d) = Some i \<longrightarrow> i < length (cn_history (da_console d)))"

definition log_short :: "op_log \<Rightarrow> bool" where
  "log_short l \<longleftrightarrow> length (lg_events l) \<le> 200"

lemma log_short_ops [simp]: "log_short (logEvent now k t l)" "log_short l \<Longrightarrow> log_short (clearLog l)" "log_short new_log"
  using length_push_capped [of CAP] by (simp_all add: log_short_def logEvent_def clearLog_def new_log_def CAP_def)

definition console_short :: "console \<Rightarrow> bool" where
  "console_short c \<longleftrightarrow> length (cn_lines c) \<le> 200 \<and> length (cn_history c) \<le> 200 \<and>
     (\<forall>i. cn_histIdx c = Some i \<longrightarrow> i < length (cn_history c))"

lemma print_short [simp]: "console_short c \<Longrightarrow> console_short (print t tn c)"
  using length_push_capped [of LINES_CAP] by (simp add: console_short_def print_def LINES_CAP_def)

lemma print_fields [simp]: "cn_busy (print t tn c) = cn_busy c" "cn_lastValue (print t tn c) = cn_lastValue c"
  "cn_history (print t tn c) = cn_history c" "cn_histIdx (print t tn c) = cn_histIdx c"
  by (simp_all add: print_def)

lemma help_short: "console_short c \<Longrightarrow> console_short (foldl (\<lambda>c l. print (units l) Plain c) c ls) \<and>
    cn_busy (foldl (\<lambda>c l. print (units l) Plain c) c ls) = cn_busy c"
  by (induction ls arbitrary: c) simp_all

lemma cleared_short: "console_short c \<Longrightarrow> console_short (c\<lparr>cn_lines := []\<rparr>)"
  by (simp add: console_short_def)

lemma begin_run_short: "begin_run raw c = (c', call) \<Longrightarrow> console_short c \<Longrightarrow> console_short c' \<and> cn_busy c' = cn_busy c"
  by (auto simp: begin_run_def Let_def help_short cleared_short split: option.splits command.splits)

lemma submit_short:
  assumes "console_short c" and "\<not> cn_busy c" and "submit c = (c', call)"
  shows "console_short c' \<and> (cn_busy c' \<longleftrightarrow> call \<noteq> None)"
proof (cases "trim (cn_input c) = []")
  case True
  then show ?thesis using assms by (auto simp: submit_def)
next
  case False
  let ?c = "c\<lparr>cn_history := push_capped Console.HISTORY_CAP (cn_history c) (trim (cn_input c)), cn_histIdx := None, cn_input := [], cn_busy := True\<rparr>"
  have s: "console_short ?c"
    using assms(1) length_push_capped [of Console.HISTORY_CAP] by (simp add: console_short_def Console.HISTORY_CAP_def)
  obtain c1 call1 where b: "begin_run (trim (cn_input c)) ?c = (c1, call1)" by fastforce
  have "console_short (c1\<lparr>cn_busy := False\<rparr>)" using begin_run_short [OF b s] by (simp add: console_short_def)
  then show ?thesis using assms(3) False b begin_run_short [OF b s] by (cases call1) (auto simp: submit_def Let_def)
qed

lemma input_ops_short:
  assumes "console_short c"
  shows "console_short (arrow_up c) \<and> cn_busy (arrow_up c) = cn_busy c" and "console_short (arrow_down c) \<and> cn_busy (arrow_down c) = cn_busy c"
    and "console_short (escape c) \<and> cn_busy (escape c) = cn_busy c" and "console_short (type_input s c) \<and> cn_busy (type_input s c) = cn_busy c"
  using assms by (auto simp: console_short_def arrow_up_def arrow_down_def escape_def type_input_def Let_def split: option.split)

lemma end_run_short:
  assumes "console_short (se_console se)"
  shows "console_short (se_console (end_run str now cmd f se)) \<and> \<not> cn_busy (se_console (end_run str now cmd f se))"
proof -
  have upd: "console_short (x\<lparr>cn_busy := b\<rparr>)" "console_short (x\<lparr>cn_lastValue := v\<rparr>)" if "console_short x" for x b v
    using that by (simp_all add: console_short_def)
  show ?thesis using assms by (auto simp: end_run_def Let_def upd split: sum.split option.split)
qed

lemma end_run_log: "log_short (se_log se) \<Longrightarrow> log_short (se_log (end_run str now cmd f se))"
  by (auto simp: end_run_def Let_def split: sum.split option.split)

definition dash_core :: "dashboard \<Rightarrow> bool" where
  "dash_core d \<longleftrightarrow> log_short (da_log d) \<and> console_short (da_console d) \<and> length (po_history (da_poll d)) \<le> 60 \<and>
     sim_inv (da_sim d) \<and> (cn_busy (da_console d) \<longleftrightarrow> da_command d \<noteq> None)"

lemma dash_ok_core: "dash_ok d \<longleftrightarrow> dash_core d \<and> (da_focused d \<longrightarrow> \<not> cn_busy (da_console d))"
  by (auto simp: dash_ok_def dash_core_def log_short_def console_short_def)

lemma sim_inv_log [simp]: "sim_inv (si\<lparr>si_log := l\<rparr>) = sim_inv si"
  by (simp add: sim_inv_def)

lemma sim_step_log: "log_short (si_log si) \<Longrightarrow> log_short (si_log (sim_step str si ev))"
  by (cases ev; cases "snd ev") (auto simp: fire_def fire_settled_def toggleSimulator_def startSimulator_def stopSimulator_def sim_logs_def
      split: list.split sum.split option.split)

lemma on_sim_core:
  assumes "dash_core d" and "event_ok ev"
  shows "dash_core (on_sim (\<lambda>si. sim_step str si ev) d)"
  using assms sim_step_inv [of "(da_sim d)\<lparr>si_log := da_log d\<rparr>" ev str] sim_step_log [of "(da_sim d)\<lparr>si_log := da_log d\<rparr>" str ev]
  by (simp add: dash_core_def on_sim_def Let_def)

lemma toggle_core: "dash_core d \<Longrightarrow> dash_core (on_sim (toggleSimulator now) d)"
  using on_sim_core [of d "(now, SimToggle)" undefined] by (simp add: event_ok_def)

lemma submit_line_core: "dash_core d \<Longrightarrow> \<not> cn_busy (da_console d) \<Longrightarrow> dash_core (submit_line d)"
  using submit_short [of "da_console d"] by (auto simp: dash_core_def submit_line_def split: prod.split)

lemma on_console_core:
  assumes "dash_core d" and "\<And>c. console_short c \<Longrightarrow> console_short (f c) \<and> cn_busy (f c) = cn_busy c"
  shows "dash_core (on_console f d)"
  using assms by (simp add: dash_core_def on_console_def)

lemma field_core [simp]:
  "dash_core (d\<lparr>da_focused := b\<rparr>) = dash_core d" "dash_core (d\<lparr>da_boot := bt\<rparr>) = dash_core d" "dash_core (d\<lparr>da_sound := so\<rparr>) = dash_core d"
  "dash_core (d\<lparr>da_polls := n\<rparr>) = dash_core d" "dash_core (d\<lparr>da_copies := n\<rparr>) = dash_core d" "dash_core (d\<lparr>da_keys := v\<rparr>) = dash_core d"
  "dash_core (d\<lparr>da_written := ws\<rparr>) = dash_core d"
  by (simp_all add: dash_core_def)

lemma toggle_sound_core: "dash_core d \<Longrightarrow> dash_core (toggle_sound bw d)"
  by (simp add: toggle_sound_def)

lemma input_key_core:
  assumes "dash_core d" and "da_focused d \<longrightarrow> \<not> cn_busy (da_console d)"
  shows "dash_core (input_key k d)"
  using assms input_ops_short
  by (auto simp: input_key_def intro!: on_console_core submit_line_core split: key.split)

lemma page_key_core: "dash_core d \<Longrightarrow> dash_core (page_key bw now k d)"
  by (auto simp: page_key_def toggle_core toggle_sound_core split: key.split)

lemma copy_core: "dash_core d \<Longrightarrow> dash_core (copy_click bw d)" "dash_core d \<Longrightarrow> dash_core (copy_settled ok d)"
  by (auto simp: copy_click_def copy_settled_def intro!: on_console_core split: option.split)

lemma flush_core:
  "dash_core d \<Longrightarrow> dash_core (on_flush (\<lambda>fb. fst (flush_click base fb)) d)"
  "dash_core d \<Longrightarrow> dash_core (on_flush (flush_settled str now f) d)"
  by (auto simp: dash_core_def on_flush_def flush_click_def flush_settled_def Let_def split: sum.split)

lemma click_core:
  assumes "dash_core d"
  shows "dash_core (click_control bw now c d)"
  using assms toggle_core toggle_sound_core flush_core(1) copy_core(1) submit_line_core
  by (cases c) (simp_all add: click_control_def Let_def, auto simp: dash_core_def)

lemma poll_core:
  assumes "dash_core d"
  shows "dash_core (poll_settled now answer d)"
  using assms length_push_capped [of NodePoll.HISTORY_CAP]
  by (auto simp: poll_settled_def tick_def dash_core_def NodePoll.HISTORY_CAP_def Let_def split: option.split)

lemma command_core:
  assumes "dash_core d"
  shows "dash_core (command_answered bw now f d)"
proof (cases "da_command d")
  case None
  then show ?thesis using assms by (simp add: command_answered_def)
next
  case (Some cmd)
  let ?se = "\<lparr>se_console = da_console d, se_log = da_log d, se_ops = []\<rparr>"
  have "console_short (se_console ?se)" "log_short (se_log ?se)" using assms by (simp_all add: dash_core_def)
  from end_run_short [OF this(1)] end_run_log [OF this(2)] show ?thesis
    using assms Some by (simp add: command_answered_def on_session_def dash_core_def Let_def)
qed

lemma act_core:
  assumes "dash_ok d" and "\<forall>r. ev = SimTimer r \<longrightarrow> rolls_ok r"
  shows "dash_core (dash_act bw now ev d)"
proof -
  have core: "dash_core d" and focus: "da_focused d \<longrightarrow> \<not> cn_busy (da_console d)" using assms(1) by (simp_all add: dash_ok_core)
  show ?thesis
  proof (cases ev)
    case (Press k)
    have "dash_core (input_key k (skip_boot d))" by (rule input_key_core) (use core focus in \<open>simp_all add: skip_boot_def\<close>)
    then show ?thesis using Press by (simp add: page_key_core)
  next
    case (Edit s)
    then show ?thesis using core input_ops_short(4) by (simp add: on_console_core)
  next
    case (Click c)
    then show ?thesis using core click_core by (simp add: skip_boot_def)
  next
    case (SimTimer r)
    then show ?thesis using core assms(2) on_sim_core [of d "(now, SimTick r)" "bw_str bw"] by (simp add: event_ok_def)
  next
    case (SimAnswered f)
    then show ?thesis using core on_sim_core [of d "(now, SimSettled f)" "bw_str bw"] by (simp add: event_ok_def)
  qed (use core poll_core command_core flush_core(2) copy_core(2) in simp_all)
qed

lemma rerender_ok: "dash_core d \<Longrightarrow> dash_ok (rerender d)"
  by (simp add: rerender_def Let_def dash_ok_core)

definition random_ok :: "time_ms \<times> dash_event \<Rightarrow> bool" where
  \<comment> \<open>\<open>Math.random\<close> is what it is documented to be\<close>
  "random_ok ev \<longleftrightarrow> (case snd ev of SimTimer r \<Rightarrow> rolls_ok r | _ \<Rightarrow> True)"

lemma dash_step_ok: "dash_ok d \<Longrightarrow> random_ok ev \<Longrightarrow> dash_ok (dash_step bw d ev)"
  unfolding dash_step_def by (rule rerender_ok, rule act_core) (auto simp: random_ok_def)

lemma dash_run_ok: "dash_ok d \<Longrightarrow> \<forall>ev \<in> set evs. random_ok ev \<Longrightarrow> dash_ok (dash_run bw d evs)"
  unfolding dash_run_def by (induction evs arbitrary: d) (simp_all add: dash_step_ok)

section \<open>Properties\<close>

lemma mount_ok: "log_short l \<Longrightarrow> sim_inv si \<Longrightarrow> dash_ok (mount_dashboard reduced l si so)"
  unfolding mount_dashboard_def
  by (rule rerender_ok) (simp add: dash_core_def console_short_def new_console_def new_poll_def)

definition starts_poll :: "time_ms \<times> dash_event \<Rightarrow> bool" where
  \<comment> \<open>the timer, and the operations after which the counters are fetched again\<close>
  "starts_poll ev \<longleftrightarrow> (case snd ev of PollTick \<Rightarrow> True | CommandAnswered _ \<Rightarrow> True | FlushAnswered _ \<Rightarrow> True | _ \<Rightarrow> False)"

lemma end_run_ops: "length (se_ops (end_run str now cmd f se)) \<le> Suc (length (se_ops se))"
  by (auto simp: end_run_def Let_def split: sum.split)

lemma polls_kept [simp]:
  "da_polls (on_sim g d) = da_polls d" "da_polls (on_console h d) = da_polls d" "da_polls (toggle_sound bw d) = da_polls d"
  "da_polls (submit_line d) = da_polls d" "da_polls (copy_click bw d) = da_polls d" "da_polls (copy_settled ok d) = da_polls d"
  "da_polls (on_flush (\<lambda>fb. fst (flush_click base fb)) d) = da_polls d" "da_polls (skip_boot d) = da_polls d"
  by (auto simp: on_sim_def on_console_def toggle_sound_def submit_line_def copy_click_def copy_settled_def on_flush_def flush_click_def
      skip_boot_def Let_def split: prod.split option.split)

lemma act_polls: "da_polls (dash_act bw now ev d) \<le> da_polls d + of_bool (starts_poll (now, ev))"
proof (cases ev)
  case (Press k)
  then show ?thesis by (auto simp: page_key_def input_key_def starts_poll_def split: key.split)
next
  case (Click c)
  then show ?thesis by (cases c) (auto simp: click_control_def Let_def starts_poll_def)
next
  case (PollSettled a)
  then show ?thesis by (auto simp: poll_settled_def starts_poll_def split: prod.split)
next
  case (FlushAnswered f)
  then show ?thesis by (auto simp: on_flush_def flush_settled_def starts_poll_def Let_def split: sum.split)
next
  case (CommandAnswered f)
  show ?thesis
  proof (cases "da_command d")
    case (Some cmd)
    show ?thesis using CommandAnswered Some
        end_run_ops [of "bw_str bw" now cmd f "\<lparr>se_console = da_console d, se_log = da_log d, se_ops = []\<rparr>"]
      by (simp add: command_answered_def on_session_def starts_poll_def Let_def)
  qed (simp add: CommandAnswered command_answered_def)
qed (simp_all add: starts_poll_def)

lemma run_polls: "da_polls (dash_run bw d evs) \<le> da_polls d + length (filter starts_poll evs)"
proof (induction evs rule: rev_induct)
  case Nil
  then show ?case by (simp add: dash_run_def)
next
  case (snoc ev evs)
  have "da_polls (rerender d) = da_polls d" for d by (simp add: rerender_def Let_def)
  then have "da_polls (dash_run bw d (evs @ [ev])) \<le> da_polls (dash_run bw d evs) + of_bool (starts_poll ev)"
    using act_polls [of bw "fst ev" "snd ev" "dash_run bw d evs"] by (simp add: dash_run_def dash_step_def)
  then show ?case using snoc by (cases "starts_poll ev") simp_all
qed

text \<open>C36: What a dashboard that is left open keeps does not grow: whatever is typed and clicked and
  however the node answers, or does not, its log, its console's lines and its command history
  never exceed 200 entries, its chart data 60 samples, and its simulator has at most one
  request out; the console's input has the focus only while it is enabled, it is disabled
  exactly while a command awaits its answer, and recalling the history never points past its
  end. The requests for the metrics have no such bound: beside the first there is at most one
  for every tick of the timer and every answered command or flush.\<close>

theorem dashboard_bounded:
  assumes "length (lg_events l) \<le> 200" and "sim_inv si" and "\<forall>ev \<in> set evs. random_ok ev"
    and "d = dash_run bw (mount_dashboard reduced l si so) evs"
  shows "length (lg_events (da_log d)) \<le> 200 \<and> length (cn_lines (da_console d)) \<le> 200 \<and> length (cn_history (da_console d)) \<le> 200 \<and>
    length (po_history (da_poll d)) \<le> 60 \<and> length (si_pending (da_sim d)) \<le> 1 \<and>
    (da_focused d \<longrightarrow> \<not> cn_busy (da_console d)) \<and> (cn_busy (da_console d) \<longleftrightarrow> da_command d \<noteq> None) \<and>
    (\<forall>i. cn_histIdx (da_console d) = Some i \<longrightarrow> i < length (cn_history (da_console d))) \<and>
    da_polls d \<le> 1 + length (filter starts_poll evs)"
proof -
  have "log_short l" using assms(1) by (simp add: log_short_def)
  then have "dash_ok d" using dash_run_ok [OF mount_ok assms(3)] assms(2,4) by simp
  moreover have "da_polls (mount_dashboard reduced l si so) = 1" by (simp add: mount_dashboard_def rerender_def Let_def)
  then have "da_polls d \<le> 1 + length (filter starts_poll evs)"
    using run_polls [of bw "mount_dashboard reduced l si so" evs] assms(4) by simp
  ultimately show ?thesis unfolding dash_ok_def sim_inv_def by blast
qed

text \<open>Against a node that accepts the connection and does not answer, the requests pile up: the
  timer starts another every second, whether or not the ones before have settled.\<close>

lemma unanswered_polls_pile_up:
  assumes "\<forall>ev \<in> set evs. snd ev = PollTick"
  shows "da_polls (dash_run bw d evs) = da_polls d + length evs"
  using assms
proof (induction evs arbitrary: d)
  case Nil
  then show ?case by (simp add: dash_run_def)
next
  case (Cons ev evs)
  have "da_polls (dash_step bw d ev) = da_polls d + 1" using Cons.prems by (simp add: dash_step_def rerender_def Let_def)
  then show ?case using Cons.IH [of "dash_step bw d ev"] Cons.prems by (simp add: dash_run_def)
qed

definition demo_browser :: browser where
  "demo_browser = \<lparr>bw_base = [], bw_str = (\<lambda>_. []), bw_storageThrows = False, bw_clipboard = True\<rparr>"

definition quiet_dashboard :: dashboard where
  "quiet_dashboard = mount_dashboard True new_log (new_simulator new_log) (load_sound True None)"

theorem dashboard_bounded_witness:
  "length (lg_events (da_log (dash_run demo_browser quiet_dashboard
     [(0, Press (Letter CHR ''s'')), (280, SimTimer half_rolls), (300, PollSettled None)]))) \<le> 200"
proof -
  let ?evs = "[(0, Press (Letter CHR ''s'')), (280, SimTimer half_rolls), (300, PollSettled None)]"
  have "\<forall>ev \<in> set ?evs. random_ok ev" by (simp add: random_ok_def rolls_ok_def half_rolls_def)
  from dashboard_bounded [OF _ _ this refl, of new_log "new_simulator new_log" demo_browser True "load_sound True None"]
  show ?thesis by (simp add: quiet_dashboard_def new_log_def new_simulator_def sim_inv_def del: dash_act.simps)
qed

definition typing :: "dash_event \<Rightarrow> bool" where
  "typing ev \<longleftrightarrow> (case ev of Press k \<Rightarrow> k \<noteq> EnterKey | Edit _ \<Rightarrow> True | _ \<Rightarrow> False)"

lemma rerender_fields [simp]:
  "da_sim (rerender d) = da_sim d" "da_sound (rerender d) = da_sound d" "da_log (rerender d) = da_log d" "da_poll (rerender d) = da_poll d"
  "da_console (rerender d) = da_console d" "da_boot (rerender d) = da_boot d" "da_polls (rerender d) = da_polls d"
  "da_command (rerender d) = da_command d" "da_flush (rerender d) = da_flush d"
  "da_focused (rerender d) = (da_focused d \<and> \<not> cn_busy (da_console d))"
  by (simp_all add: rerender_def Let_def)

lemma input_busy [simp]: "cn_busy (arrow_up c) = cn_busy c" "cn_busy (arrow_down c) = cn_busy c" "cn_busy (escape c) = cn_busy c"
  "cn_busy (type_input s c) = cn_busy c"
  by (simp_all add: arrow_up_def arrow_down_def escape_def type_input_def Let_def split: option.split)

lemma typing_step:
  assumes "typing (snd ev)" and "da_focused d" and "\<not> cn_busy (da_console d)"
  shows "da_sim (dash_step bw d ev) = da_sim d \<and> da_sound (dash_step bw d ev) = da_sound d \<and> da_log (dash_step bw d ev) = da_log d \<and>
    da_polls (dash_step bw d ev) = da_polls d \<and> da_focused (dash_step bw d ev) \<and> \<not> cn_busy (da_console (dash_step bw d ev)) \<and>
    cn_lines (da_console (dash_step bw d ev)) = cn_lines (da_console d) \<and> cn_history (da_console (dash_step bw d ev)) = cn_history (da_console d)"
proof -
  have same: "cn_lines (arrow_up c) = cn_lines c" "cn_lines (arrow_down c) = cn_lines c" "cn_lines (escape c) = cn_lines c"
    "cn_lines (type_input s c) = cn_lines c" "cn_history (arrow_up c) = cn_history c" "cn_history (arrow_down c) = cn_history c"
    "cn_history (escape c) = cn_history c" "cn_history (type_input s c) = cn_history c" for c s
    by (simp_all add: arrow_up_def arrow_down_def escape_def type_input_def Let_def split: option.split)
  show ?thesis using assms
    by (cases "snd ev") (auto simp: dash_step_def typing_def skip_boot_def input_key_def page_key_def on_console_def same split: key.split)
qed

text \<open>Typing in the console does nothing but edit its line: while its input has the focus,
  no sequence of keys other than Enter - the shortcuts \<open>s\<close>, \<open>m\<close> and \<open>/\<close> included - and no
  edit changes the simulator, the sound, the log, the polls, the console's output or its
  history, and the focus stays; without the focus the same keys are the shortcuts.\<close>

lemma typing_is_not_shortcuts:
  assumes "da_focused d" and "\<not> cn_busy (da_console d)" and "\<forall>ev \<in> set evs. typing (snd ev)" and "d' = dash_run bw d evs"
    and "\<not> da_focused e"
  shows "da_sim d' = da_sim d \<and> da_sound d' = da_sound d \<and> da_log d' = da_log d \<and> da_polls d' = da_polls d \<and>
    cn_lines (da_console d') = cn_lines (da_console d) \<and> cn_history (da_console d') = cn_history (da_console d) \<and> da_focused d' \<and>
    si_timer (da_sim (dash_step bw e (now, Press (Letter CHR ''s'')))) = (\<not> si_timer (da_sim e)) \<and>
    so_enabled (da_sound (dash_step bw e (now, Press (Letter CHR ''m'')))) = (\<not> so_enabled (da_sound e)) \<and>
    da_focused (dash_step bw e (now, Press (Letter CHR ''/''))) = (\<not> cn_busy (da_console e))"
proof -
  have run: "da_sim (dash_run bw d evs) = da_sim d \<and> da_sound (dash_run bw d evs) = da_sound d \<and> da_log (dash_run bw d evs) = da_log d \<and>
      da_polls (dash_run bw d evs) = da_polls d \<and> cn_lines (da_console (dash_run bw d evs)) = cn_lines (da_console d) \<and>
      cn_history (da_console (dash_run bw d evs)) = cn_history (da_console d) \<and> da_focused (dash_run bw d evs)"
    using assms(1-3)
  proof (induction evs arbitrary: d)
    case Nil
    then show ?case by (simp add: dash_run_def)
  next
    case (Cons ev evs)
    then show ?case using typing_step [of ev d bw] Cons.IH [of "dash_step bw d ev"] by (simp add: dash_run_def)
  qed
  have keys: "si_timer (da_sim (dash_step bw e (now, Press (Letter CHR ''s'')))) = (\<not> si_timer (da_sim e))"
    "so_enabled (da_sound (dash_step bw e (now, Press (Letter CHR ''m'')))) = (\<not> so_enabled (da_sound e))"
    "da_focused (dash_step bw e (now, Press (Letter CHR ''/''))) = (\<not> cn_busy (da_console e))"
    using assms(5) by (simp_all add: dash_step_def input_key_def page_key_def skip_boot_def on_sim_def Let_def toggleSimulator_def
        startSimulator_def stopSimulator_def sim_logs_def toggle_sound_def setSoundEnabled_def)
  show ?thesis using run keys assms(4) by simp
qed

lemma quiet_simps [simp]: "da_focused quiet_dashboard = False" "cn_busy (da_console quiet_dashboard) = False"
  "da_sim quiet_dashboard = new_simulator new_log" "da_console quiet_dashboard = new_console" "cn_busy new_console = False"
  by (simp_all add: quiet_dashboard_def mount_dashboard_def rerender_def new_console_def Let_def)

lemma typing_is_not_shortcuts_witness:
  "da_sim (dash_run demo_browser (quiet_dashboard\<lparr>da_focused := True\<rparr>) [(1, Press (Letter CHR ''s'')), (1, Edit ''s''), (2, Press EscapeKey)])
     = new_simulator new_log"
proof -
  have "\<forall>ev \<in> set [(1, Press (Letter CHR ''s'')), (1, Edit ''s''), (2, Press EscapeKey)]. typing (snd ev)" by (simp add: typing_def)
  from typing_is_not_shortcuts [OF _ _ this refl, of "quiet_dashboard\<lparr>da_focused := True\<rparr>" quiet_dashboard demo_browser]
  show ?thesis by (simp del: dash_act.simps)
qed

text \<open>The console does not keep the focus across a command: its input is disabled while the node's
  answer is awaited, which takes the focus from it, and nothing gives it back; so what is
  typed after Enter - the next command, say \<open>set\<close> - goes to the page, where its first
  letter starts or stops the synthetic traffic.\<close>

lemma next_command_toggles_traffic:
  assumes "da_focused d" and "\<not> cn_busy (da_console d)" and "submit (da_console d) = (c, Some cmd)" and "cn_busy c"
    and "d1 = dash_step bw d (t1, Press EnterKey)" and "d2 = dash_step bw d1 (t2, CommandAnswered f)"
    and "d3 = dash_step bw d2 (t3, Press (Letter CHR ''s''))"
  shows "\<not> da_focused d1 \<and> \<not> da_focused d2 \<and> \<not> cn_busy (da_console d2) \<and> si_timer (da_sim d3) = (\<not> si_timer (da_sim d))"
proof -
  have d1: "da_focused d1 = False" "da_console d1 = c" "da_command d1 = Some cmd" "da_sim d1 = da_sim d" "da_log d1 = da_log d"
    using assms(1-5) by (simp_all add: dash_step_def input_key_def page_key_def skip_boot_def submit_line_def)
  have busy: "cn_busy (se_console (end_run str now cmd f se)) = False" for str now se
    by (simp add: end_run_def Let_def split: sum.split)
  have d2: "da_focused d2 = False" "cn_busy (da_console d2) = False" "da_sim d2 = da_sim d"
    using d1 busy by (simp_all add: assms(6) dash_step_def command_answered_def on_session_def Let_def)
  have "si_timer (da_sim d3) = (\<not> si_timer (da_sim d2))"
    using d2(1) by (simp add: assms(7) dash_step_def input_key_def page_key_def skip_boot_def on_sim_def Let_def toggleSimulator_def
        startSimulator_def stopSimulator_def sim_logs_def)
  then show ?thesis using d1 d2 by simp
qed

text \<open>\<open>press any key to skip\<close>: the key that skips the boot screen is a shortcut, too, as the boot
  screen and the page listen on the same window.\<close>

lemma skip_key_starts_traffic:
  assumes "da_boot d = Booting n" and "\<not> da_focused d"
  shows "da_boot (dash_step bw d (now, Press (Letter CHR ''s''))) = Booted \<and>
    si_timer (da_sim (dash_step bw d (now, Press (Letter CHR ''s'')))) = (\<not> si_timer (da_sim d))"
  using assms by (simp add: dash_step_def input_key_def page_key_def skip_boot_def boot_skip_def on_sim_def Let_def toggleSimulator_def
      startSimulator_def stopSimulator_def sim_logs_def)

lemma next_command_toggles_traffic_witness:
  "si_timer (da_sim (dash_run demo_browser ((on_console (type_input ''get k'') quiet_dashboard)\<lparr>da_focused := True\<rparr>)
     [(2, Press EnterKey), (3, CommandAnswered NetworkError), (4, Press (Letter CHR ''s''))]))"
proof -
  let ?d = "(on_console (type_input ''get k'') quiet_dashboard)\<lparr>da_focused := True\<rparr>"
  obtain c call where s: "submit (type_input ''get k'' new_console) = (c, call)" by fastforce
  have t: "trim ''get k'' = ''get k''" by code_simp
  then have "parse_command ''get k'' = Some (CGet ''k'')" using demo_lines(2) by simp
  then have call: "call = Some (CGet ''k'')" "cn_busy c" using s t by (auto simp: submit_def type_input_def begin_run_def Let_def)
  have "submit (da_console ?d) = (c, Some (CGet ''k''))" using s call by (simp add: on_console_def)
  from next_command_toggles_traffic [OF _ _ this call(2) refl refl refl, of demo_browser 2 3 NetworkError 4] show ?thesis
    by (simp add: dash_run_def on_console_def new_simulator_def type_input_def del: dash_act.simps)
qed

end
