(* ===== verification/AsciiFont.thy ===== *)
theory AsciiFont
  imports Text
begin

text \<open>
  The dot-matrix headlines of the dashboard, \<open>src/dashboard/src/lib/asciiFont.ts\<close>: a font of five by
  seven bits and the text drawn with it.
\<close>

definition GLYPH_W :: nat where "GLYPH_W = 5"

definition GLYPH_H :: nat where "GLYPH_H = 7"

definition GLYPHS :: "(char \<times> string) list" where
  "GLYPHS =
    [(CHR ''A'', ''.###.'' @ ''#...#'' @ ''#...#'' @ ''#####'' @ ''#...#'' @ ''#...#'' @ ''#...#''),
     (CHR ''B'', ''####.'' @ ''#...#'' @ ''#...#'' @ ''####.'' @ ''#...#'' @ ''#...#'' @ ''####.''),
     (CHR ''C'', ''.####'' @ ''#....'' @ ''#....'' @ ''#....'' @ ''#....'' @ ''#....'' @ ''.####''),
     (CHR ''D'', ''####.'' @ ''#...#'' @ ''#...#'' @ ''#...#'' @ ''#...#'' @ ''#...#'' @ ''####.''),
     (CHR ''E'', ''#####'' @ ''#....'' @ ''#....'' @ ''####.'' @ ''#....'' @ ''#....'' @ ''#####''),
     (CHR ''F'', ''#####'' @ ''#....'' @ ''#....'' @ ''####.'' @ ''#....'' @ ''#....'' @ ''#....''),
     (CHR ''G'', ''.###.'' @ ''#...#'' @ ''#....'' @ ''#.###'' @ ''#...#'' @ ''#...#'' @ ''.###.''),
     (CHR ''H'', ''#...#'' @ ''#...#'' @ ''#...#'' @ ''#####'' @ ''#...#'' @ ''#...#'' @ ''#...#''),
     (CHR ''I'', ''#####'' @ ''..#..'' @ ''..#..'' @ ''..#..'' @ ''..#..'' @ ''..#..'' @ ''#####''),
     (CHR ''J'', ''..###'' @ ''...#.'' @ ''...#.'' @ ''...#.'' @ ''...#.'' @ ''#..#.'' @ ''.##..''),
     (CHR ''K'', ''#...#'' @ ''#..#.'' @ ''#.#..'' @ ''##...'' @ ''#.#..'' @ ''#..#.'' @ ''#...#''),
     (CHR ''L'', ''#....'' @ ''#....'' @ ''#....'' @ ''#....'' @ ''#....'' @ ''#....'' @ ''#####''),
     (CHR ''M'', ''#...#'' @ ''##.##'' @ ''#.#.#'' @ ''#...#'' @ ''#...#'' @ ''#...#'' @ ''#...#''),
     (CHR ''N'', ''#...#'' @ ''##..#'' @ ''#.#.#'' @ ''#..##'' @ ''#...#'' @ ''#...#'' @ ''#...#''),
     (CHR ''O'', ''.###.'' @ ''#...#'' @ ''#...#'' @ ''#...#'' @ ''#...#'' @ ''#...#'' @ ''.###.''),
     (CHR ''P'', ''####.'' @ ''#...#'' @ ''#...#'' @ ''####.'' @ ''#....'' @ ''#....'' @ ''#....''),
     (CHR ''Q'', ''.###.'' @ ''#...#'' @ ''#...#'' @ ''#...#'' @ ''#.#.#'' @ ''#..#.'' @ ''.##.#''),
     (CHR ''R'', ''####.'' @ ''#...#'' @ ''#...#'' @ ''####.'' @ ''#.#..'' @ ''#..#.'' @ ''#...#''),
     (CHR ''S'', ''.####'' @ ''#....'' @ ''#....'' @ ''.###.'' @ ''....#'' @ ''....#'' @ ''####.''),
     (CHR ''T'', ''#####'' @ ''..#..'' @ ''..#..'' @ ''..#..'' @ ''..#..'' @ ''..#..'' @ ''..#..''),
     (CHR ''U'', ''#...#'' @ ''#...#'' @ ''#...#'' @ ''#...#'' @ ''#...#'' @ ''#...#'' @ ''.###.''),
     (CHR ''V'', ''#...#'' @ ''#...#'' @ ''#...#'' @ ''#...#'' @ ''#...#'' @ ''.#.#.'' @ ''..#..''),
     (CHR ''W'', ''#...#'' @ ''#...#'' @ ''#...#'' @ ''#...#'' @ ''#.#.#'' @ ''##.##'' @ ''#...#''),
     (CHR ''X'', ''#...#'' @ ''#...#'' @ ''.#.#.'' @ ''..#..'' @ ''.#.#.'' @ ''#...#'' @ ''#...#''),
     (CHR ''Y'', ''#...#'' @ ''#...#'' @ ''.#.#.'' @ ''..#..'' @ ''..#..'' @ ''..#..'' @ ''..#..''),
     (CHR ''Z'', ''#####'' @ ''....#'' @ ''...#.'' @ ''..#..'' @ ''.#...'' @ ''#....'' @ ''#####''),
     (CHR ''0'', ''.###.'' @ ''#...#'' @ ''#..##'' @ ''#.#.#'' @ ''##..#'' @ ''#...#'' @ ''.###.''),
     (CHR ''1'', ''..#..'' @ ''.##..'' @ ''..#..'' @ ''..#..'' @ ''..#..'' @ ''..#..'' @ ''.###.''),
     (CHR ''2'', ''.###.'' @ ''#...#'' @ ''....#'' @ ''...#.'' @ ''..#..'' @ ''.#...'' @ ''#####''),
     (CHR ''3'', ''####.'' @ ''....#'' @ ''....#'' @ ''.###.'' @ ''....#'' @ ''....#'' @ ''####.''),
     (CHR ''4'', ''...#.'' @ ''..##.'' @ ''.#.#.'' @ ''#..#.'' @ ''#####'' @ ''...#.'' @ ''...#.''),
     (CHR ''5'', ''#####'' @ ''#....'' @ ''####.'' @ ''....#'' @ ''....#'' @ ''#...#'' @ ''.###.''),
     (CHR ''6'', ''.###.'' @ ''#....'' @ ''#....'' @ ''####.'' @ ''#...#'' @ ''#...#'' @ ''.###.''),
     (CHR ''7'', ''#####'' @ ''....#'' @ ''...#.'' @ ''..#..'' @ ''.#...'' @ ''.#...'' @ ''.#...''),
     (CHR ''8'', ''.###.'' @ ''#...#'' @ ''#...#'' @ ''.###.'' @ ''#...#'' @ ''#...#'' @ ''.###.''),
     (CHR ''9'', ''.###.'' @ ''#...#'' @ ''#...#'' @ ''.####'' @ ''....#'' @ ''....#'' @ ''.###.''),
     (CHR ''-'', ''.....'' @ ''.....'' @ ''.....'' @ ''#####'' @ ''.....'' @ ''.....'' @ ''.....''),
     (CHR ''.'', ''.....'' @ ''.....'' @ ''.....'' @ ''.....'' @ ''.....'' @ ''.##..'' @ ''.##..''),
     (CHR '':'', ''.....'' @ ''.##..'' @ ''.##..'' @ ''.....'' @ ''.##..'' @ ''.##..'' @ ''.....''),
     (CHR ''/'', ''....#'' @ ''...#.'' @ ''...#.'' @ ''..#..'' @ ''.#...'' @ ''.#...'' @ ''#....''),
     (CHR ''!'', ''..#..'' @ ''..#..'' @ ''..#..'' @ ''..#..'' @ ''..#..'' @ ''.....'' @ ''..#..''),
     (CHR ''?'', ''.###.'' @ ''#...#'' @ ''....#'' @ ''...#.'' @ ''..#..'' @ ''.....'' @ ''..#..''),
     (CHR '' '', ''.....'' @ ''.....'' @ ''.....'' @ ''.....'' @ ''.....'' @ ''.....'' @ ''.....'')]"

definition upper_char :: "char \<Rightarrow> utf16" where
  \<comment> \<open>\<open>toUpperCase\<close> of one character: the sharp s becomes two, two letters leave Latin-1\<close>
  "upper_char c = (let n = of_char c :: nat
     in if 97 \<le> n \<and> n \<le> 122 \<or> 224 \<le> n \<and> n \<le> 254 \<and> n \<noteq> 247 then [n - 32]
        else if n = 223 then [83, 83] else if n = 181 then [924] else if n = 255 then [376] else [n])"

definition glyph :: "nat \<Rightarrow> string" where
  \<comment> \<open>\<open>GLYPHS[ch] ?? GLYPHS[" "]\<close>\<close>
  "glyph u = (case find (\<lambda>(c, bits). of_char c = u) GLYPHS of Some (c, bits) \<Rightarrow> bits
     | None \<Rightarrow> (case map_of GLYPHS CHR '' '' of Some bits \<Rightarrow> bits | None \<Rightarrow> []))"

record AsciiTextOptions =
  at_on :: utf16
  at_off :: utf16
  at_tracking :: nat
  at_pixelWidth :: nat

definition default_text_options :: AsciiTextOptions where
  "default_text_options = \<lparr>at_on = units ''#'', at_off = units '' '', at_tracking = 1, at_pixelWidth = 1\<rparr>"

definition text_chars :: "jsstring \<Rightarrow> utf16" where
  \<comment> \<open>\<open>[...text.toUpperCase()]\<close>\<close>
  "text_chars t = concat (map upper_char t)"

definition glyph_row :: "AsciiTextOptions \<Rightarrow> nat \<Rightarrow> nat \<Rightarrow> utf16" where
  "glyph_row opts y u = concat (map (\<lambda>x. repeat (at_pixelWidth opts)
     (if glyph u ! (y * GLYPH_W + x) = CHR ''#'' then at_on opts else at_off opts)) [0..<GLYPH_W])"

definition text_row :: "AsciiTextOptions \<Rightarrow> utf16 \<Rightarrow> nat \<Rightarrow> utf16" where
  "text_row opts chars y = concat (map (\<lambda>(i, u). glyph_row opts y u @
     (if i < length chars - 1 then repeat (at_tracking opts * at_pixelWidth opts) (at_off opts) else [])) (enumerate 0 chars))"

definition text_rows :: "AsciiTextOptions \<Rightarrow> jsstring \<Rightarrow> utf16 list" where
  "text_rows opts t = map (text_row opts (text_chars t)) [0..<GLYPH_H]"

definition renderAsciiText :: "AsciiTextOptions \<Rightarrow> jsstring \<Rightarrow> utf16" where
  "renderAsciiText opts t = (case text_rows opts t of [] \<Rightarrow> [] | r # rs \<Rightarrow> r @ concat (map (\<lambda>l. 10 # l) rs))"

definition asciiTextWidth :: "jsstring \<Rightarrow> nat \<Rightarrow> nat \<Rightarrow> nat" where
  "asciiTextWidth t tracking pixelWidth = (let n = length t
     in if n = 0 then 0 else (n * GLYPH_W + (n - 1) * tracking) * pixelWidth)"

section \<open>The drawn width\<close>

lemma glyph_bits: "\<forall>(c, bits) \<in> set GLYPHS. length bits = GLYPH_W * GLYPH_H"
  by (simp add: GLYPHS_def GLYPH_W_def GLYPH_H_def)

lemma length_glyph_row:
  assumes "length (at_on opts) = 1" and "length (at_off opts) = 1"
  shows "length (glyph_row opts y u) = GLYPH_W * at_pixelWidth opts"
proof -
  have r: "length (repeat n t) = n * length t" for n and t :: utf16 by (simp add: repeat_def length_concat sum_list_replicate)
  show ?thesis using assms by (simp add: glyph_row_def length_concat r o_def if_distrib [of length] sum_list_triv cong: if_cong)
qed

lemma length_text_row:
  assumes "length (at_on opts) = 1" and "length (at_off opts) = 1"
  shows "length (text_row opts cs y) =
    (length cs * GLYPH_W + (length cs - 1) * at_tracking opts) * at_pixelWidth opts"
proof -
  have r: "length (repeat n t) = n * length t" for n and t :: utf16 by (simp add: repeat_def length_concat sum_list_replicate)
  have "length (concat (map (\<lambda>(i, u). glyph_row opts y u @
       (if i < m then repeat (at_tracking opts * at_pixelWidth opts) (at_off opts) else [])) (enumerate k cs))) =
     (length cs * GLYPH_W + min (length cs) (m - k) * at_tracking opts) * at_pixelWidth opts" for m k
  proof (induction cs arbitrary: k)
    case (Cons c cs)
    have "min (length (c # cs)) (m - k) = (if k < m then Suc (min (length cs) (m - Suc k)) else 0)" by auto
    then show ?case
      using Cons [of "Suc k"] length_glyph_row [OF assms] assms(2) by (simp add: r algebra_simps)
  qed simp
  from this [of "length cs - 1" 0] show ?thesis by (cases cs) (simp_all add: text_row_def)
qed

lemma length_text_chars: "char_of (223 :: nat) \<notin> set t \<Longrightarrow> length (text_chars t) = length t"
proof (induction t)
  case (Cons c t)
  have "of_char c = (223 :: nat) \<Longrightarrow> c = char_of (223 :: nat)" by (metis char_of_char)
  then have "length (upper_char c) = 1" using Cons.prems by (auto simp: upper_char_def Let_def)
  then show ?case using Cons by (simp add: text_chars_def)
qed (simp add: text_chars_def)

lemma text_shape:
  assumes "char_of (223 :: nat) \<notin> set t" and "length (at_on opts) = 1" and "length (at_off opts) = 1" and "r \<in> set (text_rows opts t)"
  shows "length r = asciiTextWidth t (at_tracking opts) (at_pixelWidth opts)"
proof -
  obtain y where "r = text_row opts (text_chars t) y" using assms(4) by (auto simp: text_rows_def)
  then show ?thesis using length_text_row [OF assms(2,3), of "text_chars t" y] length_text_chars [OF assms(1)]
    by (simp add: asciiTextWidth_def Let_def)
qed

text \<open>
  Upper case can lengthen a text: the sharp s is drawn as two letters, eleven columns wide,
  and its width is given as five.
\<close>

lemma sharp_s_too_wide:
  "length (text_row default_text_options (text_chars [char_of (223 :: nat)]) 0) = 11"
  "asciiTextWidth [char_of (223 :: nat)] 1 1 = 5"
  by (simp_all add: length_text_row default_text_options_def text_chars_def upper_char_def units_def GLYPH_W_def asciiTextWidth_def)

end
