(* ===== verification/Markup.thy ===== *)
theory Markup
  imports DashboardApp AsciiFont
begin

text \<open>
  What the dashboard's small components render (\<open>dashboard/src/components\<close>): element trees, the
  panel frame, controls, headlines, the navigation and the footer of the landing page. Of an
  element's classes only those are kept that depend on the state or the properties of a
  component; layout classes, inline styles and React's \<open>key\<close>s and \<open>ref\<close>s are left out. \<open>Link\<close> is
  the router's component, named by its properties.
\<close>

section \<open>Element trees\<close>

datatype attr =
  Attr jsstring utf16
  | Flag jsstring bool \<comment> \<open>\<open>aria-hidden\<close>, \<open>disabled\<close>, \<open>aria-checked\<close>\<close>
  | Handler jsstring control \<comment> \<open>what the event does, as an event of \<open>DashboardApp\<close>\<close>

datatype markup = Txt utf16 | El jsstring "attr list" "markup list"

definition lit :: "jsstring \<Rightarrow> markup" where
  "lit s = Txt (units s)"

definition aria_hidden :: attr where
  "aria_hidden = Flag ''aria-hidden'' True"

definition tone_class :: "jsstring \<Rightarrow> attr" where
  "tone_class c = Attr ''class'' (units c)"

definition labelled :: "jsstring \<Rightarrow> attr list \<Rightarrow> utf16 option" where
  "labelled name as = map_option (\<lambda>a. case a of Attr _ v \<Rightarrow> v | _ \<Rightarrow> []) (find (\<lambda>a. case a of Attr n _ \<Rightarrow> n = name | _ \<Rightarrow> False) as)"

definition flagged :: "jsstring \<Rightarrow> attr list \<Rightarrow> bool" where
  "flagged name as \<longleftrightarrow> Flag name True \<in> set as"

fun elements :: "markup \<Rightarrow> (jsstring \<times> attr list) list" where
  "elements (Txt t) = []"
| "elements (El tag as cs) = (tag, as) # concat (map elements cs)"

fun spoken :: "markup \<Rightarrow> utf16" where
  \<comment> \<open>the text that is not hidden from a screen reader\<close>
  "spoken (Txt t) = t"
| "spoken (El tag as cs) = (if Flag ''aria-hidden'' True \<in> set as then [] else concat (map spoken cs))"

definition all_elements :: "markup list \<Rightarrow> (jsstring \<times> attr list) list" where
  "all_elements ms = concat (map elements ms)"

definition headings :: "markup \<Rightarrow> nat" where
  "headings m = length (filter (\<lambda>e. fst e = ''h1'') (elements m))"

definition landmarks :: "markup \<Rightarrow> utf16 option list" where
  \<comment> \<open>the names of the regions\<close>
  "landmarks m = map (\<lambda>e. labelled ''aria-label'' (snd e)) (filter (\<lambda>e. fst e = ''section'') (elements m))"

definition switches :: "markup \<Rightarrow> (utf16 option \<times> bool) list" where
  "switches m = map (\<lambda>e. (labelled ''aria-label'' (snd e), flagged ''aria-checked'' (snd e)))
     (filter (\<lambda>e. Attr ''role'' (units ''switch'') \<in> set (snd e)) (elements m))"

definition button_click :: "attr list \<Rightarrow> (control \<times> bool) list" where
  \<comment> \<open>what a button does, and whether it is disabled\<close>
  "button_click as = (case find (\<lambda>a. case a of Handler _ _ \<Rightarrow> True | _ \<Rightarrow> False) as of
     Some (Handler n c) \<Rightarrow> [(c, flagged ''disabled'' as)] | _ \<Rightarrow> [])"

definition clickables :: "markup \<Rightarrow> (control \<times> bool) list" where
  "clickables m = concat (map (\<lambda>e. button_click (snd e)) (filter (\<lambda>e. fst e = ''button'') (elements m)))"

section \<open>The panel frame\<close>

definition dashes :: "utf16 \<Rightarrow> markup" where
  "dashes ch = El ''span'' [aria_hidden] [Txt (repeat 400 ch)]"

definition RULE :: utf16 where "RULE = [9472]"

definition ascii_panel :: "utf16 \<Rightarrow> bool \<Rightarrow> markup list option \<Rightarrow> markup list \<Rightarrow> markup" where
  \<comment> \<open>\<open>title\<close>, \<open>accent\<close>, \<open>right\<close>, \<open>children\<close>\<close>
  "ascii_panel title accent right children = El ''section'' [Attr ''aria-label'' title]
     [El ''div'' [] ([El ''span'' [aria_hidden] [Txt [9484, 9472]],
        El ''span'' [tone_class (if accent then ''text-accent'' else ''text-dim'')] [lit ''[ '', Txt title, lit '' ]''],
        dashes RULE] @
        (case right of None \<Rightarrow> [] | Some r \<Rightarrow> [El ''span'' [] r]) @
        [El ''span'' [aria_hidden] [Txt [9472, 9488]]]),
      El ''div'' [] children,
      El ''div'' [] [El ''span'' [aria_hidden] [Txt [9492, 9472]], dashes RULE, El ''span'' [aria_hidden] [Txt [9472, 9496]]]]"

section \<open>Controls\<close>

datatype button_tone = DefaultTone | AccentTone | DangerTone

definition TONE :: "button_tone \<Rightarrow> jsstring" where
  "TONE t = (case t of
       DefaultTone \<Rightarrow> ''text-dim hover:text-bright hover:border-dim''
     | AccentTone \<Rightarrow> ''text-accent hover:text-bright hover:border-accent''
     | DangerTone \<Rightarrow> ''text-kind-err hover:text-bright hover:border-kind-err'')"

definition button_el :: "jsstring \<Rightarrow> control \<Rightarrow> jsstring \<Rightarrow> button_tone \<Rightarrow> bool \<Rightarrow> markup list \<Rightarrow> markup" where
  \<comment> \<open>\<open>type\<close>, the click (of a submit button: the form's submission), \<open>title\<close>, \<open>tone\<close>, \<open>disabled\<close>, \<open>children\<close>\<close>
  "button_el type c title t disabled children = El ''button''
     [Attr ''type'' (units type), Handler ''onClick'' c, Attr ''title'' (units title), Flag ''disabled'' disabled, tone_class (TONE t)]
     ([lit ''[ ''] @ children @ [lit '' ]''])"

definition toggle :: "bool \<Rightarrow> control \<Rightarrow> jsstring \<Rightarrow> markup" where
  \<comment> \<open>\<open>checked\<close>, \<open>onChange\<close>, \<open>label\<close>\<close>
  "toggle checked c label = El ''button''
     [Attr ''type'' (units ''button''), Attr ''role'' (units ''switch''), Flag ''aria-checked'' checked, Attr ''aria-label'' (units label),
      Handler ''onClick'' c, Attr ''title'' (units label), tone_class (if checked then ''border-accent text-accent'' else ''text-faint hover:text-dim'')]
     [Txt (if checked then units ''['' @ [9632] @ units '' on ]'' else units ''['' @ [9633] @ units '' off]'')]"

definition key_cap :: "utf16 \<Rightarrow> markup" where
  "key_cap k = El ''kbd'' [] [lit ''<'', Txt k, lit ''>'']"

section \<open>Headlines\<close>

definition headline_text :: "jsstring list \<Rightarrow> jsstring option option \<Rightarrow> jsstring option" where
  \<comment> \<open>\<open>srText\<close>: \<open>None\<close> is \<open>undefined\<close>, \<open>Some None\<close> is \<open>null\<close>\<close>
  "headline_text lines srText = (case srText of None \<Rightarrow> Some (join_on CHR '' '' lines) | Some s \<Rightarrow> s)"

definition ascii_headline :: "jsstring list \<Rightarrow> utf16 \<Rightarrow> nat \<Rightarrow> jsstring option option \<Rightarrow> markup" where
  \<comment> \<open>\<open>lines\<close>, \<open>glyph\<close>, \<open>tracking\<close>, \<open>srText\<close>\<close>
  "ascii_headline lines gl tracking srText = El ''div'' []
     ((case headline_text lines srText of None \<Rightarrow> [] | Some t \<Rightarrow> [El ''h1'' [] [lit t]]) @
      [El ''div'' [aria_hidden] (map (\<lambda>l. El ''div'' []
         [Txt (renderAsciiText \<lparr>at_on = gl, at_off = units '' '', at_tracking = tracking, at_pixelWidth = 2\<rparr> l)]) lines)])"

definition HEADLINE_GLYPH :: utf16 where "HEADLINE_GLYPH = [9608]"

section \<open>Navigation and footer of the landing page\<close>

definition outside_link :: "jsstring \<Rightarrow> markup list \<Rightarrow> markup" where
  "outside_link href children = El ''a'' [Attr ''href'' (units href), Attr ''target'' (units ''_blank''), Attr ''rel'' (units ''noreferrer'')] children"

definition page_link :: "jsstring \<Rightarrow> attr list \<Rightarrow> markup list \<Rightarrow> markup" where
  "page_link to as children = El ''Link'' (Attr ''to'' (units to) # as) children"

definition home_nav :: markup where
  "home_nav = El ''header'' []
     [El ''div'' []
        [El ''span'' [] [lit ''INKCACHE''],
         El ''nav'' [] [outside_link ''https://github.com/Saatvik-GT/InkCache'' [lit ''[ github ]''],
           page_link ''/dashboard'' [] [lit ''[ open console ]'']]],
      El ''div'' [aria_hidden] [dashes RULE]]"

definition LINKS :: "(jsstring \<times> jsstring) list" where
  "LINKS = [(''https://github.com/Saatvik-GT/InkCache'', ''github''),
     (''https://github.com/Saatvik-GT/InkCache/blob/main/docs/api.md'', ''api docs''),
     (''https://github.com/Saatvik-GT/InkCache/blob/main/LICENSE'', ''mit license'')]"

definition home_footer :: markup where
  "home_footer = El ''footer'' []
     [El ''div'' [aria_hidden] [dashes RULE],
      El ''div'' []
        [El ''span'' [] (map (\<lambda>(href, label). outside_link href [lit label]) LINKS),
         El ''span'' [] [Txt (units ''CUSoC 2026 '' @ [183] @ units '' built for the terminal'')]]]"

section \<open>Selecting elements of a tree\<close>

named_theorems markup_simps

lemma concat_concat_map: "concat (concat xss) = concat (map concat xss)"
  by (induction xss) simp_all

lemma headings_simps [markup_simps]:
  "headings (Txt t) = 0" "headings (lit s) = 0"
  "headings (El tag as cs) = (if tag = ''h1'' then 1 else 0) + sum_list (map headings cs)"
  by (simp_all add: headings_def [abs_def] lit_def filter_concat length_concat o_def)

lemma landmarks_simps [markup_simps]:
  "landmarks (Txt t) = []" "landmarks (lit s) = []"
  "landmarks (El tag as cs) = (if tag = ''section'' then [labelled ''aria-label'' as] else []) @ concat (map landmarks cs)"
  by (simp_all add: landmarks_def [abs_def] lit_def filter_concat map_concat o_def)

lemma switches_simps [markup_simps]:
  "switches (Txt t) = []" "switches (lit s) = []"
  "switches (El tag as cs) = (if Attr ''role'' (units ''switch'') \<in> set as then [(labelled ''aria-label'' as, flagged ''aria-checked'' as)] else []) @
     concat (map switches cs)"
  by (simp_all add: switches_def [abs_def] lit_def filter_concat map_concat o_def)

lemma clickables_simps [markup_simps]:
  "clickables (Txt t) = []" "clickables (lit s) = []"
  "clickables (El tag as cs) = (if tag = ''button'' then button_click as else []) @ concat (map clickables cs)"
  by (simp_all add: clickables_def [abs_def] lit_def filter_concat map_concat concat_concat_map o_def)

lemma spoken_simps [markup_simps]: "spoken (lit s) = units s"
  by (simp add: lit_def)

lemma button_click_simps [markup_simps]:
  "button_click [] = []" "button_click (Handler n c # as) = [(c, flagged ''disabled'' (Handler n c # as))]"
  "button_click (Attr n v # as) = button_click as" "n \<noteq> ''disabled'' \<Longrightarrow> button_click (Flag n b # as) = button_click as"
  by (simp_all add: button_click_def flagged_def split: option.split attr.split)

lemma concat_map_Nil [simp]: "concat (map (\<lambda>x. []) xs) = []"
  by (induction xs) simp_all

lemma sum_map_zero [simp]: "sum_list (map (\<lambda>x. 0 :: nat) xs) = 0"
  by (induction xs) simp_all

lemma dashes_simps [markup_simps]: "headings (dashes ch) = 0" "landmarks (dashes ch) = []" "switches (dashes ch) = []"
    "clickables (dashes ch) = []" "spoken (dashes ch) = []"
  by (simp_all add: dashes_def aria_hidden_def headings_simps landmarks_simps switches_simps clickables_simps)

definition slot :: "(markup \<Rightarrow> 'a list) \<Rightarrow> markup list option \<Rightarrow> 'a list" where
  "slot f right = (case right of None \<Rightarrow> [] | Some r \<Rightarrow> concat (map f r))"

lemma panel_simps [markup_simps]:
  "headings (ascii_panel title accent right children) = (case right of None \<Rightarrow> 0 | Some r \<Rightarrow> sum_list (map headings r)) + sum_list (map headings children)"
  "landmarks (ascii_panel title accent right children) = Some title # slot landmarks right @ concat (map landmarks children)"
  "switches (ascii_panel title accent right children) = slot switches right @ concat (map switches children)"
  "clickables (ascii_panel title accent right children) = slot clickables right @ concat (map clickables children)"
  by (simp_all add: ascii_panel_def aria_hidden_def tone_class_def labelled_def slot_def dashes_simps headings_simps landmarks_simps
      switches_simps clickables_simps split: option.split)

lemma slot_simps [markup_simps]: "slot f None = []" "slot f (Some r) = concat (map f r)"
  by (simp_all add: slot_def)

lemma button_simps [markup_simps]:
  "headings (button_el type c title t disabled children) = sum_list (map headings children)"
  "landmarks (button_el type c title t disabled children) = concat (map landmarks children)"
  "switches (button_el type c title t disabled children) = concat (map switches children)"
  "clickables (button_el type c title t disabled children) = (c, disabled) # concat (map clickables children)"
  by (simp_all add: button_el_def tone_class_def headings_simps landmarks_simps switches_simps clickables_simps button_click_simps flagged_def)

lemma toggle_simps [markup_simps]:
  "headings (toggle checked c label) = 0" "landmarks (toggle checked c label) = []"
  "switches (toggle checked c label) = [(Some (units label), checked)]" "clickables (toggle checked c label) = [(c, False)]"
  by (simp_all add: toggle_def tone_class_def headings_simps landmarks_simps switches_simps clickables_simps button_click_simps
      flagged_def labelled_def)

lemma headline_simps [markup_simps]:
  "headings (ascii_headline lines gl tracking srText) = (if headline_text lines srText = None then 0 else 1)"
  "landmarks (ascii_headline lines gl tracking srText) = []" "switches (ascii_headline lines gl tracking srText) = []"
  "clickables (ascii_headline lines gl tracking srText) = []"
  "spoken (ascii_headline lines gl tracking srText) = (case headline_text lines srText of None \<Rightarrow> [] | Some t \<Rightarrow> units t)"
  by (cases "headline_text lines srText"; simp add: ascii_headline_def aria_hidden_def lit_def o_def headings_simps landmarks_simps
      switches_simps clickables_simps)+

lemma key_cap_simps [markup_simps]: "headings (key_cap k) = 0" "landmarks (key_cap k) = []" "switches (key_cap k) = []" "clickables (key_cap k) = []"
  by (simp_all add: key_cap_def headings_simps landmarks_simps switches_simps clickables_simps)

lemma nav_simps [markup_simps]:
  "headings home_nav = 0" "landmarks home_nav = []" "switches home_nav = []" "clickables home_nav = []"
  "headings home_footer = 0" "landmarks home_footer = []" "switches home_footer = []" "clickables home_footer = []"
  by (simp_all add: home_nav_def home_footer_def outside_link_def page_link_def LINKS_def aria_hidden_def headings_simps landmarks_simps
      switches_simps clickables_simps dashes_simps)

end
