(* ===== verification/Sphere.thy ===== *)
theory Sphere
  imports AsciiPlot
begin

text \<open>
  The moon of the landing page, \<open>src/dashboard/src/lib/asciiSphere.ts\<close>: surface points of a
  turned and tilted sphere are projected to the character grid, a depth buffer keeps the
  nearest of a cell, and lighting with craters chooses its character. \<open>fl\<close> rounds the result
  of an arithmetic operation and of a literal; the functions of \<open>Math\<close> are the fields of a
  record.
\<close>

record math =
  mt_sin :: "rat \<Rightarrow> rat"
  mt_cos :: "rat \<Rightarrow> rat"
  mt_sqrt :: "rat \<Rightarrow> rat"
  mt_hypot :: "rat \<Rightarrow> rat \<Rightarrow> rat \<Rightarrow> rat"

definition MATH_PI :: rat where "MATH_PI = 884279719003555 / 2 ^ 48"

definition LUMA_RAMP :: utf16 where
  "LUMA_RAMP = [32, 46, 183, 58, 59, 43, 61, 42, 111, 79, 48, 64]"

definition CHAR_ASPECT :: "(rat \<Rightarrow> rat) \<Rightarrow> rat" where
  "CHAR_ASPECT fl = fl (173 / 100)"

type_synonym Vec3 = "rat \<times> rat \<times> rat"

definition normalize :: "(rat \<Rightarrow> rat) \<Rightarrow> math \<Rightarrow> Vec3 \<Rightarrow> Vec3" where
  "normalize fl mt v = (case v of (a, b, c) \<Rightarrow>
     let len = (if mt_hypot mt a b c = 0 then 1 else mt_hypot mt a b c) in (fl (a / len), fl (b / len), fl (c / len)))"

definition LIGHT :: "(rat \<Rightarrow> rat) \<Rightarrow> math \<Rightarrow> Vec3" where
  "LIGHT fl mt = normalize fl mt (fl (- (55 / 100)), - (1 / 2), fl (68 / 100))"

definition dot3 :: "(rat \<Rightarrow> rat) \<Rightarrow> Vec3 \<Rightarrow> Vec3 \<Rightarrow> rat" where
  \<comment> \<open>\<open>v[0] * w[0] + v[1] * w[1] + v[2] * w[2]\<close>\<close>
  "dot3 fl v w = fl (fl (fl (fst v * fst w) + fl (fst (snd v) * fst (snd w))) + fl (snd (snd v) * snd (snd w)))"

section \<open>Craters\<close>

record crater =
  cr_v :: Vec3
  cr_radius :: rat
  cr_depth :: rat

definition crater_wobble :: "(rat \<Rightarrow> rat) \<Rightarrow> math \<Rightarrow> nat \<Rightarrow> rat" where
  "crater_wobble fl mt i = fl (fl (mt_sin mt (fl (of_nat i * fl (129898 / 10000))) * (1 / 2)) + 1 / 2)"

definition build_crater :: "(rat \<Rightarrow> rat) \<Rightarrow> math \<Rightarrow> nat \<Rightarrow> nat \<Rightarrow> crater" where
  "build_crater fl mt cnt i =
     (let golden = fl (MATH_PI * fl (3 - mt_sqrt mt 5));
          y = fl (1 - fl (fl (of_nat i / (of_nat cnt - 1)) * 2));
          r = mt_sqrt mt (max 0 (fl (1 - fl (y * y))));
          theta = fl (golden * of_nat i);
          wobble = crater_wobble fl mt i
      in \<lparr>cr_v = normalize fl mt (fl (mt_cos mt theta * r), y, fl (mt_sin mt theta * r)),
          cr_radius = fl (fl (2 / 100) + fl (wobble * fl (5 / 100))),
          cr_depth = fl (fl (3 / 10) + fl (wobble * fl (4 / 10)))\<rparr>)"

definition buildCraters :: "(rat \<Rightarrow> rat) \<Rightarrow> math \<Rightarrow> nat \<Rightarrow> crater list" where
  "buildCraters fl mt cnt = map (build_crater fl mt cnt) [0..<cnt]"

definition CRATERS :: "(rat \<Rightarrow> rat) \<Rightarrow> math \<Rightarrow> crater list" where
  "CRATERS fl mt = buildCraters fl mt 18"

section \<open>Sampling the surface\<close>

record AsciiSphereOptions =
  sp_cols :: nat
  sp_rows :: nat
  sp_spin :: rat
  sp_tilt :: rat
  sp_scale :: rat
  sp_ambient :: rat

definition sphere_radius :: "(rat \<Rightarrow> rat) \<Rightarrow> AsciiSphereOptions \<Rightarrow> rat" where
  "sphere_radius fl opts =
     fl (min (fl (of_nat (sp_cols opts) / fl (2 * CHAR_ASPECT fl))) (of_nat (sp_rows opts) / 2) * sp_scale opts)"

definition thetaSteps :: "(rat \<Rightarrow> rat) \<Rightarrow> AsciiSphereOptions \<Rightarrow> nat" where
  "thetaSteps fl opts = nat (max 64 \<lceil>fl (sphere_radius fl opts * 14)\<rceil>)"

definition phiSteps :: "(rat \<Rightarrow> rat) \<Rightarrow> AsciiSphereOptions \<Rightarrow> nat" where
  "phiSteps fl opts = nat (max 32 \<lceil>fl (sphere_radius fl opts * 7)\<rceil>)"

record sample =
  sa_o :: Vec3 \<comment> \<open>on the sphere itself\<close>
  sa_w :: Vec3 \<comment> \<open>spun and tilted\<close>

definition sphere_sample :: "(rat \<Rightarrow> rat) \<Rightarrow> math \<Rightarrow> AsciiSphereOptions \<Rightarrow> nat \<Rightarrow> nat \<Rightarrow> sample" where
  "sphere_sample fl mt opts p t =
     (let phi = fl (fl (of_nat p / of_nat (phiSteps fl opts)) * MATH_PI);
          theta = fl (fl (fl (of_nat t / of_nat (thetaSteps fl opts)) * MATH_PI) * 2);
          ox = fl (mt_sin mt phi * mt_cos mt theta);
          oy = mt_cos mt phi;
          oz = fl (mt_sin mt phi * mt_sin mt theta);
          sinSpin = mt_sin mt (sp_spin opts); cosSpin = mt_cos mt (sp_spin opts);
          sinTilt = mt_sin mt (sp_tilt opts); cosTilt = mt_cos mt (sp_tilt opts);
          sx = fl (fl (ox * cosSpin) + fl (oz * sinSpin));
          sz = fl (fl (- ox * sinSpin) + fl (oz * cosSpin))
      in \<lparr>sa_o = (ox, oy, oz),
          sa_w = (sx, fl (fl (oy * cosTilt) - fl (sz * sinTilt)), fl (fl (oy * sinTilt) + fl (sz * cosTilt)))\<rparr>)"

definition sphere_samples :: "(rat \<Rightarrow> rat) \<Rightarrow> math \<Rightarrow> AsciiSphereOptions \<Rightarrow> sample list" where
  \<comment> \<open>in the order of the two loops\<close>
  "sphere_samples fl mt opts = concat (map (\<lambda>p. map (sphere_sample fl mt opts p) [0..<thetaSteps fl opts]) [0..<phiSteps fl opts + 1])"

definition sa_z :: "sample \<Rightarrow> rat" where
  "sa_z s = snd (snd (sa_w s))"

definition sample_cell :: "(rat \<Rightarrow> rat) \<Rightarrow> AsciiSphereOptions \<Rightarrow> sample \<Rightarrow> cell" where
  "sample_cell fl opts s =
     (js_round (fl ((of_nat (sp_cols opts) - 1) / 2 + fl (fl (fst (sa_w s) * sphere_radius fl opts) * CHAR_ASPECT fl))),
      js_round (fl ((of_nat (sp_rows opts) - 1) / 2 + fl (fst (snd (sa_w s)) * sphere_radius fl opts))))"

section \<open>Light\<close>

definition crater_shade :: "(rat \<Rightarrow> rat) \<Rightarrow> Vec3 \<Rightarrow> rat \<Rightarrow> crater \<Rightarrow> rat" where
  \<comment> \<open>what one crater leaves of \<open>lum\<close>\<close>
  "crater_shade fl v lum cr =
     (let inside = fl (1 - dot3 fl v (cr_v cr))
      in if inside < cr_radius cr
         then let falloff = fl (1 - fl (inside / cr_radius cr)) in fl (lum * fl (1 - fl (fl (cr_depth cr * falloff) * falloff)))
         else lum)"

definition luminance :: "(rat \<Rightarrow> rat) \<Rightarrow> math \<Rightarrow> rat \<Rightarrow> sample \<Rightarrow> rat" where
  "luminance fl mt ambient s =
     (let lum = max 0 (dot3 fl (sa_w s) (LIGHT fl mt));
          lum = (if 0 < lum then foldl (crater_shade fl (sa_o s)) lum (CRATERS fl mt) else lum);
          lum = fl (lum * fl (fl (35 / 100) + fl (fl (65 / 100) * sa_z s)))
      in min 1 (fl (ambient + lum)))"

definition luma_level :: "(rat \<Rightarrow> rat) \<Rightarrow> math \<Rightarrow> rat \<Rightarrow> sample \<Rightarrow> int" where
  "luma_level fl mt ambient s = min (int (length LUMA_RAMP) - 1) \<lfloor>fl (luminance fl mt ambient s * of_nat (length LUMA_RAMP))\<rfloor>"

definition luma_char :: "int \<Rightarrow> utf16" where
  \<comment> \<open>a missing element joins as nothing\<close>
  "luma_char level = (if 0 \<le> level \<and> level < int (length LUMA_RAMP) then [LUMA_RAMP ! nat level] else [])"

section \<open>The picture\<close>

type_synonym frame = "utf16 list \<times> rat option list" \<comment> \<open>the cells, and the depth buffer with \<open>None\<close> for \<open>-Infinity\<close>\<close>

definition plot_sample :: "(rat \<Rightarrow> rat) \<Rightarrow> math \<Rightarrow> AsciiSphereOptions \<Rightarrow> frame \<Rightarrow> sample \<Rightarrow> frame" where
  "plot_sample fl mt opts fr s = (case fr of (cells, depth) \<Rightarrow>
     if sa_z s \<le> 0 then fr
     else (case sample_cell fl opts s of (col, row) \<Rightarrow>
       if col < 0 \<or> int (sp_cols opts) \<le> col \<or> row < 0 \<or> int (sp_rows opts) \<le> row then fr
       else let idx = nat (row * int (sp_cols opts) + col)
         in if (case depth ! idx of None \<Rightarrow> False | Some d \<Rightarrow> sa_z s \<le> d) then fr
            else (cells[idx := luma_char (luma_level fl mt (sp_ambient opts) s)], depth[idx := Some (sa_z s)])))"

definition sphere_frame :: "(rat \<Rightarrow> rat) \<Rightarrow> math \<Rightarrow> AsciiSphereOptions \<Rightarrow> frame" where
  "sphere_frame fl mt opts = foldl (plot_sample fl mt opts)
     (replicate (sp_cols opts * sp_rows opts) [32], replicate (sp_cols opts * sp_rows opts) None) (sphere_samples fl mt opts)"

definition renderAsciiSphere :: "(rat \<Rightarrow> rat) \<Rightarrow> math \<Rightarrow> AsciiSphereOptions \<Rightarrow> utf16" where
  "renderAsciiSphere fl mt opts = join_lines (grid_lines (sp_cols opts) (sp_rows opts) (fst (sphere_frame fl mt opts)))"

section \<open>The depth buffer keeps the nearest sample\<close>

definition lands_on :: "(rat \<Rightarrow> rat) \<Rightarrow> AsciiSphereOptions \<Rightarrow> cell \<Rightarrow> sample \<Rightarrow> bool" where
  \<comment> \<open>a sample of the front that is projected to the cell\<close>
  "lands_on fl opts c s \<longleftrightarrow> 0 < sa_z s \<and> sample_cell fl opts s = c"

definition sample_text :: "(rat \<Rightarrow> rat) \<Rightarrow> math \<Rightarrow> AsciiSphereOptions \<Rightarrow> sample \<Rightarrow> utf16" where
  "sample_text fl mt opts s = luma_char (luma_level fl mt (sp_ambient opts) s)"

definition shows_nearest :: "(rat \<Rightarrow> rat) \<Rightarrow> math \<Rightarrow> AsciiSphereOptions \<Rightarrow> sample set \<Rightarrow> cell \<Rightarrow> utf16 \<Rightarrow> rat option \<Rightarrow> bool" where
  "shows_nearest fl mt opts S c txt d \<longleftrightarrow> (case d of
       None \<Rightarrow> txt = [32] \<and> (\<forall>s \<in> S. \<not> lands_on fl opts c s)
     | Some z \<Rightarrow> \<exists>s \<in> S. lands_on fl opts c s \<and> sa_z s = z \<and> txt = sample_text fl mt opts s \<and>
         (\<forall>s' \<in> S. lands_on fl opts c s' \<longrightarrow> sa_z s' \<le> z))"

lemma plot_sample_eq: "plot_sample fl mt opts (cells, depth) s =
    (let c = sample_cell fl opts s; idx = cell_index (sp_cols opts) c
     in if 0 < sa_z s \<and> in_grid (sp_cols opts) (sp_rows opts) c \<and> (case depth ! idx of None \<Rightarrow> True | Some d \<Rightarrow> d < sa_z s)
        then (cells[idx := sample_text fl mt opts s], depth[idx := Some (sa_z s)]) else (cells, depth))"
  by (cases "sample_cell fl opts s") (auto simp: plot_sample_def in_grid_def cell_index_def sample_text_def Let_def split: option.splits)

lemma frame_nearest:
  assumes "foldl (plot_sample fl mt opts) (replicate (sp_cols opts * sp_rows opts) [32], replicate (sp_cols opts * sp_rows opts) None) ss = (cells, depth)"
  shows "length cells = sp_cols opts * sp_rows opts \<and> length depth = sp_cols opts * sp_rows opts \<and>
    (\<forall>c. in_grid (sp_cols opts) (sp_rows opts) c \<longrightarrow>
      shows_nearest fl mt opts (set ss) c (cells ! cell_index (sp_cols opts) c) (depth ! cell_index (sp_cols opts) c))"
  using assms
proof (induction ss arbitrary: cells depth rule: rev_induct)
  case Nil
  then show ?case using cell_index_less by (auto simp: shows_nearest_def)
next
  case (snoc s ss)
  let ?n = "sp_cols opts * sp_rows opts" and ?i = "cell_index (sp_cols opts)" and ?g = "in_grid (sp_cols opts) (sp_rows opts)"
  obtain cs ds where f: "foldl (plot_sample fl mt opts) (replicate ?n [32], replicate ?n None) ss = (cs, ds)" by fastforce
  note IH = snoc.IH [OF f]
  have step: "plot_sample fl mt opts (cs, ds) s = (cells, depth)" using snoc.prems f by simp
  have "shows_nearest fl mt opts (set (ss @ [s])) c (cells ! ?i c) (depth ! ?i c)" if c: "?g c" for c
  proof -
    have old: "shows_nearest fl mt opts (set ss) c (cs ! ?i c) (ds ! ?i c)" using IH c by blast
    have len: "?i c < length cs" "?i c < length ds" using IH cell_index_less [OF c] by simp_all
    show ?thesis
    proof (cases "lands_on fl opts c s")
      case True
      then show ?thesis using step old len c
        by (auto simp: plot_sample_eq Let_def lands_on_def shows_nearest_def split: option.splits if_splits)
    next
      case False
      have "cells ! ?i c = cs ! ?i c \<and> depth ! ?i c = ds ! ?i c"
        using step False c cell_index_inject [OF c, of "sample_cell fl opts s"]
        by (auto simp: plot_sample_eq Let_def lands_on_def split: if_splits option.splits)
      then show ?thesis using old False by (auto simp: shows_nearest_def split: option.splits)
    qed
  qed
  moreover have "length cells = ?n \<and> length depth = ?n" using step IH by (auto simp: plot_sample_eq Let_def split: if_splits)
  ultimately show ?case by blast
qed

section \<open>Brightness is a character\<close>

definition doubles :: "(rat \<Rightarrow> rat) \<Rightarrow> bool" where
  \<comment> \<open>rounding is monotone, and exact on the binary fractions with 53 bits\<close>
  "doubles fl \<longleftrightarrow> mono fl \<and> (\<forall>k j. \<bar>k\<bar> \<le> 2 ^ 53 \<longrightarrow> j \<le> (1000 :: nat) \<longrightarrow> fl (of_int k / 2 ^ j) = of_int k / 2 ^ j)"

lemma doubles_exact: "doubles fl \<Longrightarrow> \<bar>k\<bar> \<le> 2 ^ 53 \<Longrightarrow> j \<le> 1000 \<Longrightarrow> fl (of_int k / 2 ^ j) = of_int k / 2 ^ j"
  by (simp add: doubles_def)

lemma doubles_rounds: "doubles fl \<Longrightarrow> rounds fl"
  using doubles_exact [of fl _ 0] by (simp add: doubles_def rounds_def)

lemma fl_upper: "doubles fl \<Longrightarrow> x \<le> of_int k / 2 ^ j \<Longrightarrow> \<bar>k\<bar> \<le> 2 ^ 53 \<Longrightarrow> j \<le> 1000 \<Longrightarrow> fl x \<le> of_int k / 2 ^ j"
  using rounds_mono [OF doubles_rounds, of fl x "of_int k / 2 ^ j"] doubles_exact [of fl k j] by simp

lemma fl_lower: "doubles fl \<Longrightarrow> of_int k / 2 ^ j \<le> x \<Longrightarrow> \<bar>k\<bar> \<le> 2 ^ 53 \<Longrightarrow> j \<le> 1000 \<Longrightarrow> of_int k / 2 ^ j \<le> fl x"
  using rounds_mono [OF doubles_rounds, of fl "of_int k / 2 ^ j" x] doubles_exact [of fl k j] by simp

lemma fl_nonneg: "doubles fl \<Longrightarrow> 0 \<le> x \<Longrightarrow> 0 \<le> fl x"
  using fl_lower [of fl 0 0 x] by simp

lemma fl_le_1: "doubles fl \<Longrightarrow> x \<le> 1 \<Longrightarrow> fl x \<le> 1"
  using fl_upper [of fl x 1 0] by simp

lemma wobble_range:
  assumes "doubles fl" and "\<forall>x. \<bar>mt_sin mt x\<bar> \<le> 1"
  shows "0 \<le> crater_wobble fl mt i \<and> crater_wobble fl mt i \<le> 1"
proof -
  let ?s = "mt_sin mt (fl (of_nat i * fl (129898 / 10000)))"
  have "- 1 \<le> ?s" "?s \<le> 1" using assms(2) by (simp_all add: abs_le_iff minus_le_iff)
  then have "- (1 / 2) \<le> fl (?s * (1 / 2))" "fl (?s * (1 / 2)) \<le> 1 / 2"
    using fl_lower [OF assms(1), of "- 1" 1 "?s * (1 / 2)"] fl_upper [OF assms(1), of "?s * (1 / 2)" 1 1] by simp_all
  then show ?thesis unfolding crater_wobble_def by (auto intro!: fl_nonneg [OF assms(1)] fl_le_1 [OF assms(1)])
qed

lemma crater_sizes:
  assumes "doubles fl" and "\<forall>x. \<bar>mt_sin mt x\<bar> \<le> 1" and "cr \<in> set (buildCraters fl mt cnt)"
  shows "1 / 64 \<le> cr_radius cr" and "0 \<le> cr_depth cr" and "cr_depth cr \<le> 3 / 4"
proof -
  obtain i where cr: "cr = build_crater fl mt cnt i" using assms(3) by (auto simp: buildCraters_def)
  note w = wobble_range [OF assms(1,2), of i]
  have five: "0 \<le> fl (5 / 100)" by (rule fl_nonneg [OF assms(1)]) simp
  have two: "1 / 64 \<le> fl (2 / 100)" using fl_lower [OF assms(1), of 1 6 "2 / 100"] by simp
  have r: "1 / 64 \<le> fl (2 / 100) + fl (crater_wobble fl mt i * fl (5 / 100))"
    using two fl_nonneg [OF assms(1) mult_nonneg_nonneg [OF conjunct1 [OF w] five]] by linarith
  show "1 / 64 \<le> cr_radius cr" unfolding cr build_crater_def Let_def crater.select_convs
    using fl_lower [OF assms(1), of 1 6 "fl (2 / 100) + fl (crater_wobble fl mt i * fl (5 / 100))"] r by simp
  have four: "0 \<le> fl (4 / 10)" "fl (4 / 10) \<le> 13 / 32"
    using fl_nonneg [OF assms(1), of "4 / 10"] fl_upper [OF assms(1), of "4 / 10" 13 5] by simp_all
  have p: "0 \<le> crater_wobble fl mt i * fl (4 / 10)" "crater_wobble fl mt i * fl (4 / 10) \<le> 13 / 32"
    using w four mult_left_le_one_le [OF four(1), of "crater_wobble fl mt i"] by simp_all
  have q: "0 \<le> fl (crater_wobble fl mt i * fl (4 / 10))" "fl (crater_wobble fl mt i * fl (4 / 10)) \<le> 13 / 32"
    using fl_nonneg [OF assms(1) p(1)] fl_upper [OF assms(1), of "crater_wobble fl mt i * fl (4 / 10)" 13 5] p(2) by simp_all
  have three: "0 \<le> fl (3 / 10)" "fl (3 / 10) \<le> 11 / 32"
    using fl_nonneg [OF assms(1), of "3 / 10"] fl_upper [OF assms(1), of "3 / 10" 11 5] by simp_all
  show "0 \<le> cr_depth cr" using fl_nonneg [OF assms(1) add_nonneg_nonneg [OF three(1) q(1)]] by (simp add: cr build_crater_def Let_def)
  have "fl (3 / 10) + fl (crater_wobble fl mt i * fl (4 / 10)) \<le> 3 / 4" using three(2) q(2) by linarith
  then show "cr_depth cr \<le> 3 / 4" using fl_upper [OF assms(1), of _ 3 2] by (simp add: cr build_crater_def Let_def)
qed

lemma crater_shade_nonneg:
  assumes "doubles fl" and "0 \<le> lum" and "dot3 fl v (cr_v cr) \<le> 1 + 1 / 1000"
    and "1 / 64 \<le> cr_radius cr" and "0 \<le> cr_depth cr" and "cr_depth cr \<le> 3 / 4"
  shows "0 \<le> crater_shade fl v lum cr"
proof -
  let ?in = "fl (1 - dot3 fl v (cr_v cr))" and ?r = "cr_radius cr" and ?d = "cr_depth cr"
  let ?f = "fl (1 - fl (?in / ?r))"
  have r: "0 < ?r" using assms(4) by linarith
  have "- (1 / 512) \<le> 1 - dot3 fl v (cr_v cr)" using assms(3) by linarith
  then have i: "- (1 / 512) \<le> ?in" using fl_lower [OF assms(1), of "- 1" 9] by simp
  have "- (1 / 8) * ?r \<le> - (1 / 512)" using assms(4) by simp
  then have "- (1 / 8) \<le> ?in / ?r" using i r by (simp add: pos_le_divide_eq)
  then have "- (1 / 8) \<le> fl (?in / ?r)" using fl_lower [OF assms(1), of "- 1" 3] by simp
  then have "1 - fl (?in / ?r) \<le> 9 / 8" by simp
  then have f1: "?f \<le> 9 / 8" using fl_upper [OF assms(1), of _ 9 3] by simp
  show ?thesis
  proof (cases "?in < ?r")
    case True
    then have "?in / ?r \<le> 1" using r by simp
    then have "0 \<le> 1 - fl (?in / ?r)" using fl_le_1 [OF assms(1)] by simp
    then have f0: "0 \<le> ?f" by (rule fl_nonneg [OF assms(1)])
    have "?d * ?f \<le> 3 / 4 * (9 / 8)" using assms(5,6) f0 f1 by (intro mult_mono) simp_all
    then have g1: "fl (?d * ?f) \<le> 27 / 32" using fl_upper [OF assms(1), of _ 27 5] by simp
    have g0: "0 \<le> fl (?d * ?f)" using assms(5) f0 by (intro fl_nonneg [OF assms(1)]) simp
    have "fl (?d * ?f) * ?f \<le> 27 / 32 * (9 / 8)" using g0 g1 f0 f1 by (intro mult_mono) simp_all
    then have "fl (fl (?d * ?f) * ?f) \<le> 243 / 256" using fl_upper [OF assms(1), of _ 243 8] by simp
    then have "0 \<le> 1 - fl (fl (?d * ?f) * ?f)" by simp
    then show ?thesis using True assms(2) by (auto simp: crater_shade_def Let_def intro!: fl_nonneg [OF assms(1)] mult_nonneg_nonneg)
  qed (use assms(2) in \<open>simp add: crater_shade_def Let_def\<close>)
qed

lemma craters_nonneg:
  assumes "doubles fl" and "\<forall>x. \<bar>mt_sin mt x\<bar> \<le> 1" and "set crs \<subseteq> set (CRATERS fl mt)"
    and "\<forall>cr \<in> set (CRATERS fl mt). dot3 fl v (cr_v cr) \<le> 1 + 1 / 1000" and "0 \<le> lum"
  shows "0 \<le> foldl (crater_shade fl v) lum crs"
  using assms(3,5)
proof (induction crs arbitrary: lum)
  case (Cons cr crs)
  then have cr: "cr \<in> set (buildCraters fl mt 18)" by (simp add: CRATERS_def)
  have "0 \<le> crater_shade fl v lum cr"
    using crater_shade_nonneg [OF assms(1) Cons.prems(2) _ crater_sizes [OF assms(1,2) cr]] assms(4) Cons.prems(1) by simp
  then show ?case using Cons by simp
qed simp

lemma level_range:
  assumes "doubles fl" and "\<forall>x. \<bar>mt_sin mt x\<bar> \<le> 1" and "0 \<le> ambient" and "0 < sa_z s"
    and "\<forall>cr \<in> set (CRATERS fl mt). dot3 fl (sa_o s) (cr_v cr) \<le> 1 + 1 / 1000"
  shows "0 \<le> luma_level fl mt ambient s \<and> luma_level fl mt ambient s < 12"
proof -
  let ?l0 = "max 0 (dot3 fl (sa_w s) (LIGHT fl mt))"
  let ?l1 = "if 0 < ?l0 then foldl (crater_shade fl (sa_o s)) ?l0 (CRATERS fl mt) else ?l0"
  let ?limb = "fl (fl (35 / 100) + fl (fl (65 / 100) * sa_z s))"
  have l1: "0 \<le> ?l1" using craters_nonneg [OF assms(1,2) subset_refl assms(5), of ?l0] by (cases "0 < ?l0") (simp_all del: max_less_iff_conj)
  have "0 \<le> fl (65 / 100)" "0 \<le> fl (35 / 100)" by (rule fl_nonneg [OF assms(1)], simp)+
  then have limb: "0 \<le> ?limb" using assms(4)
    by (intro fl_nonneg [OF assms(1)] add_nonneg_nonneg mult_nonneg_nonneg) simp_all
  have "0 \<le> fl (?l1 * ?limb)" by (intro fl_nonneg [OF assms(1)] mult_nonneg_nonneg l1 limb)
  then have "0 \<le> fl (ambient + fl (?l1 * ?limb))" by (rule fl_nonneg [OF assms(1) add_nonneg_nonneg [OF assms(3)]])
  then have "0 \<le> luminance fl mt ambient s" by (simp only: luminance_def Let_def min_def split: if_split) simp
  then have "0 \<le> fl (luminance fl mt ambient s * of_nat (length LUMA_RAMP))" by (intro fl_nonneg [OF assms(1)] mult_nonneg_nonneg) simp_all
  then show ?thesis by (simp add: luma_level_def LUMA_RAMP_def)
qed

section \<open>The picture\<close>

lemma concat_singles_nth: "\<forall>k \<in> set ks. length k = 1 \<Longrightarrow> i < length ks \<Longrightarrow> concat ks ! i = hd (ks ! i)"
proof (induction ks arbitrary: i)
  case (Cons k ks)
  then obtain c where "k = [c]" by (auto simp: length_Suc_conv)
  then show ?case using Cons by (cases i) auto
qed simp

lemma grid_lines_nth:
  assumes "length grid = cols * rows" and "\<forall>k \<in> set grid. length k = 1" and "in_grid cols rows c"
  shows "grid_lines cols rows grid ! nat (snd c) ! nat (fst c) = hd (grid ! cell_index cols c)"
proof -
  let ?x = "nat (fst c)" and ?y = "nat (snd c)"
  have xy: "?x < cols" "?y < rows" using assms(3) by (simp_all add: in_grid_def nat_less_iff)
  have i: "cell_index cols c = ?y * cols + ?x" using assms(3) by (simp add: cell_index_def in_grid_def nat_add_distrib nat_mult_distrib)
  have "?y * cols + cols \<le> rows * cols" using xy(2) by (metis Suc_leI add.commute mult_Suc mult_le_mono1)
  then have "?x < length (take cols (drop (?y * cols) grid))" using assms(1) xy(1) by (simp add: mult.commute)
  moreover have "\<forall>k \<in> set (take cols (drop (?y * cols) grid)). length k = 1"
    using assms(2) by (meson in_set_dropD in_set_takeD)
  ultimately show ?thesis using xy assms(1) by (simp add: grid_lines_def concat_singles_nth i)
qed

definition unit_accurate :: "(rat \<Rightarrow> rat) \<Rightarrow> math \<Rightarrow> AsciiSphereOptions \<Rightarrow> bool" where
  \<comment> \<open>the directions computed are unit vectors to within a thousandth: no product of two exceeds 1 by more\<close>
  "unit_accurate fl mt opts \<longleftrightarrow> (\<forall>s \<in> set (sphere_samples fl mt opts). \<forall>cr \<in> set (CRATERS fl mt). dot3 fl (sa_o s) (cr_v cr) \<le> 1 + 1 / 1000)"

text \<open>A frame of the moon has exactly its rows and columns, and every cell shows what is in
  front: a blank where no point of the visible half is projected, and otherwise the character
  for the brightness of the nearest such point, which is always one of the ramp - whatever the
  sine, the cosine and the roundings are, as long as the directions stay close to unit length.\<close>

lemma sphere_shows_nearest:
  assumes "doubles fl" and "\<forall>x. \<bar>mt_sin mt x\<bar> \<le> 1" and "unit_accurate fl mt opts" and "0 \<le> sp_ambient opts"
  shows "\<exists>ls. renderAsciiSphere fl mt opts = join_lines ls \<and> length ls = sp_rows opts \<and>
    (\<forall>l \<in> set ls. length l = sp_cols opts) \<and>
    (\<forall>c. in_grid (sp_cols opts) (sp_rows opts) c \<longrightarrow>
      (if \<forall>s \<in> set (sphere_samples fl mt opts). \<not> lands_on fl opts c s
       then ls ! nat (snd c) ! nat (fst c) = 32
       else \<exists>s \<in> set (sphere_samples fl mt opts). lands_on fl opts c s \<and>
         (\<forall>s' \<in> set (sphere_samples fl mt opts). lands_on fl opts c s' \<longrightarrow> sa_z s' \<le> sa_z s) \<and>
         0 \<le> luma_level fl mt (sp_ambient opts) s \<and> luma_level fl mt (sp_ambient opts) s < 12 \<and>
         ls ! nat (snd c) ! nat (fst c) = LUMA_RAMP ! nat (luma_level fl mt (sp_ambient opts) s)))"
proof -
  let ?S = "set (sphere_samples fl mt opts)" and ?i = "cell_index (sp_cols opts)" and ?g = "in_grid (sp_cols opts) (sp_rows opts)"
  obtain cells depth where f: "sphere_frame fl mt opts = (cells, depth)" by fastforce
  note near = frame_nearest [OF f [unfolded sphere_frame_def]]
  have lv: "0 \<le> luma_level fl mt (sp_ambient opts) s \<and> luma_level fl mt (sp_ambient opts) s < 12" if "s \<in> ?S" "0 < sa_z s" for s
    using level_range [OF assms(1,2,4) that(2)] assms(3) that(1) by (simp add: unit_accurate_def)
  have shown: "sample_text fl mt opts s = [LUMA_RAMP ! nat (luma_level fl mt (sp_ambient opts) s)]" if "s \<in> ?S" "0 < sa_z s" for s
    using lv [OF that] by (simp add: sample_text_def luma_char_def LUMA_RAMP_def)
  have one: "length (cells ! ?i c) = 1" if "?g c" for c
    using near that shown by (fastforce simp: shows_nearest_def lands_on_def split: option.splits)
  have singles: "\<forall>k \<in> set cells. length k = 1"
  proof
    fix k
    assume "k \<in> set cells"
    then obtain j where j: "j < sp_cols opts * sp_rows opts" "k = cells ! j" using near by (auto simp: in_set_conv_nth)
    then have "0 < sp_cols opts" by (cases "sp_cols opts") auto
    let ?c = "(int (j mod sp_cols opts), int (j div sp_cols opts))"
    have "?g ?c" using j(1) \<open>0 < sp_cols opts\<close> by (simp add: in_grid_def less_mult_imp_div_less mult.commute)
    moreover have "?i ?c = j" by (simp add: cell_index_def nat_add_distrib nat_mult_distrib flip: of_nat_mult of_nat_add)
    ultimately show "length k = 1" using one j(2) by metis
  qed
  let ?ls = "grid_lines (sp_cols opts) (sp_rows opts) cells"
  have len: "length cells = sp_cols opts * sp_rows opts" using near by blast
  have cellwise: "if \<forall>s \<in> ?S. \<not> lands_on fl opts c s then ?ls ! nat (snd c) ! nat (fst c) = 32
      else \<exists>s \<in> ?S. lands_on fl opts c s \<and> (\<forall>s' \<in> ?S. lands_on fl opts c s' \<longrightarrow> sa_z s' \<le> sa_z s) \<and>
        0 \<le> luma_level fl mt (sp_ambient opts) s \<and> luma_level fl mt (sp_ambient opts) s < 12 \<and>
        ?ls ! nat (snd c) ! nat (fst c) = LUMA_RAMP ! nat (luma_level fl mt (sp_ambient opts) s)" if c: "?g c" for c
  proof (cases "depth ! ?i c")
    case None
    have "shows_nearest fl mt opts ?S c (cells ! ?i c) None" using near c None by metis
    then have "cells ! ?i c = [32]" "\<forall>s \<in> ?S. \<not> lands_on fl opts c s" by (simp_all add: shows_nearest_def)
    then show ?thesis using grid_lines_nth [OF len singles c] by simp
  next
    case (Some z)
    then obtain s where s: "s \<in> ?S" "lands_on fl opts c s" "sa_z s = z" "cells ! ?i c = sample_text fl mt opts s"
        "\<forall>s' \<in> ?S. lands_on fl opts c s' \<longrightarrow> sa_z s' \<le> z"
    proof -
      have "shows_nearest fl mt opts ?S c (cells ! ?i c) (Some z)" using near c Some by metis
      then show ?thesis using that by (auto simp: shows_nearest_def)
    qed
    then have "0 < sa_z s" by (simp add: lands_on_def)
    then have "?ls ! nat (snd c) ! nat (fst c) = LUMA_RAMP ! nat (luma_level fl mt (sp_ambient opts) s)"
      using grid_lines_nth [OF len singles c] s(1,4) shown by simp
    then show ?thesis using s lv [OF s(1) \<open>0 < sa_z s\<close>] by auto
  qed
  show ?thesis
  proof (intro exI conjI allI impI)
    show "renderAsciiSphere fl mt opts = join_lines ?ls" by (simp add: renderAsciiSphere_def f)
    show "length ?ls = sp_rows opts" "\<forall>l \<in> set ?ls. length l = sp_cols opts" using grid_lines_shape [OF len singles] by blast+
  qed (rule cellwise)
qed

definition flat_math :: math where
  \<comment> \<open>stand-ins for the functions of \<open>Math\<close>; with them every direction is a unit vector for the sum of the coordinates\<close>
  "flat_math = \<lparr>mt_sin = (\<lambda>_. 1 / 2), mt_cos = (\<lambda>_. 1 / 2), mt_sqrt = (\<lambda>x. x), mt_hypot = (\<lambda>a b c. \<bar>a\<bar> + \<bar>b\<bar> + \<bar>c\<bar>)\<rparr>"

definition small_sphere :: AsciiSphereOptions where
  "small_sphere = \<lparr>sp_cols = 6, sp_rows = 3, sp_spin = 0, sp_tilt = 42 / 100, sp_scale = 92 / 100, sp_ambient = 6 / 100\<rparr>"

lemma flat_normalized:
  assumes "normalize (\<lambda>x. x) flat_math v = (a, b, c)"
  shows "\<bar>a\<bar> \<le> 1 \<and> \<bar>b\<bar> \<le> 1 \<and> \<bar>c\<bar> \<le> 1"
proof -
  obtain x y z where v: "v = (x, y, z)" by (cases v)
  show ?thesis
  proof (cases "\<bar>x\<bar> + \<bar>y\<bar> + \<bar>z\<bar> = 0")
    case True
    then have "x = 0 \<and> y = 0 \<and> z = 0" by linarith
    then show ?thesis using assms by (auto simp: normalize_def v flat_math_def)
  next
    case False
    then have "0 < \<bar>x\<bar> + \<bar>y\<bar> + \<bar>z\<bar>" by linarith
    then show ?thesis using assms by (auto simp: normalize_def v flat_math_def Let_def divide_le_eq abs_divide)
  qed
qed

lemma flat_unit: "unit_accurate (\<lambda>x. x) flat_math opts"
proof -
  have "dot3 (\<lambda>x. x) (sa_o s) (cr_v cr) \<le> 1 + 1 / 1000"
    if s: "s \<in> set (sphere_samples (\<lambda>x. x) flat_math opts)" and cr: "cr \<in> set (CRATERS (\<lambda>x. x) flat_math)" for s cr
  proof -
    have o: "sa_o s = (1 / 4, 1 / 2, 1 / 4)" using s by (auto simp: sphere_samples_def sphere_sample_def flat_math_def Let_def split: if_splits)
    obtain v where "cr_v cr = normalize (\<lambda>x. x) flat_math v"
      using cr by (auto simp: CRATERS_def buildCraters_def build_crater_def Let_def)
    moreover obtain a b c where v: "normalize (\<lambda>x. x) flat_math v = (a, b, c)" by (metis prod_cases3)
    ultimately show ?thesis using flat_normalized [OF v] by (simp add: dot3_def o abs_le_iff)
  qed
  then show ?thesis by (simp add: unit_accurate_def)
qed

lemma sphere_shows_nearest_witness:
  "\<exists>ls. renderAsciiSphere (\<lambda>x. x) flat_math small_sphere = join_lines ls \<and> length ls = 3 \<and> (\<forall>l \<in> set ls. length l = 6)"
proof -
  have "doubles (\<lambda>x. x)" by (simp add: doubles_def mono_def)
  moreover have "\<forall>x. \<bar>mt_sin flat_math x\<bar> \<le> 1" by (simp add: flat_math_def)
  ultimately show ?thesis
    using sphere_shows_nearest [OF _ _ flat_unit, of small_sphere] by (auto simp: small_sphere_def)
qed

section \<open>Turning it\<close>

text \<open>The animation of \<open>components/AsciiMoon.tsx\<close>: what a callback of \<open>requestAnimationFrame\<close> does.\<close>

definition FPS :: rat where "FPS = 24"

record moon =
  mo_spin :: rat
  mo_last :: rat
  mo_sinceFrame :: rat

definition new_moon :: "(rat \<Rightarrow> rat) \<Rightarrow> rat \<Rightarrow> moon" where
  "new_moon fl now = \<lparr>mo_spin = fl (6 / 10), mo_last = now, mo_sinceFrame = 0\<rparr>"

definition moon_tick :: "(rat \<Rightarrow> rat) \<Rightarrow> rat \<Rightarrow> rat \<Rightarrow> moon \<Rightarrow> moon \<times> rat option" where
  \<comment> \<open>the turn of the frame that is drawn, if one is\<close>
  "moon_tick fl speed now m =
     (let dt = fl (now - mo_last m);
          m' = \<lparr>mo_spin = fl (mo_spin m + fl (fl (dt / 1000) * speed)), mo_last = now, mo_sinceFrame = fl (mo_sinceFrame m + dt)\<rparr>
      in if mo_sinceFrame m' < fl (1000 / FPS) then (m', None) else (m'\<lparr>mo_sinceFrame := 0\<rparr>, Some (mo_spin m')))"

fun moon_frames :: "(rat \<Rightarrow> rat) \<Rightarrow> moon \<Rightarrow> (rat \<times> rat) list \<Rightarrow> nat" where
  \<comment> \<open>how many frames callbacks at these times and speeds draw\<close>
  "moon_frames fl m [] = 0"
| "moon_frames fl m ((now, speed) # ts) = (case moon_tick fl speed now m of (m', fr) \<Rightarrow>
     (case fr of None \<Rightarrow> 0 | Some _ \<Rightarrow> 1) + moon_frames fl m' ts)"

text \<open>
  However often the browser calls back and however fast the moon turns, it is not drawn more
  than \<open>FPS\<close> times per second (the arithmetic taken as exact).
\<close>

lemma moon_rate:
  assumes "ts \<noteq> []" and "sorted (mo_last m # map fst ts)" and "0 \<le> mo_sinceFrame m"
  shows "of_nat (moon_frames (\<lambda>x. x) m ts) * (1000 / FPS) \<le> mo_sinceFrame m + (fst (last ts) - mo_last m)"
  using assms
proof (induction ts arbitrary: m)
  case (Cons t ts)
  obtain now speed where t: "t = (now, speed)" by (cases t)
  obtain m' fr where s: "moon_tick (\<lambda>x. x) speed now m = (m', fr)" by fastforce
  have m': "mo_last m' = now" "0 \<le> mo_sinceFrame m'"
    and k: "(case fr of None \<Rightarrow> 0 | Some _ \<Rightarrow> 1) * (1000 / FPS) + mo_sinceFrame m' \<le> mo_sinceFrame m + (now - mo_last m)"
    using s Cons.prems(2,3) t by (auto simp: moon_tick_def Let_def split: if_splits)
  show ?case
  proof (cases "ts = []")
    case True
    then show ?thesis using k m'(2) by (simp add: t s split: option.splits)
  next
    case False
    have "of_nat (moon_frames (\<lambda>x. x) m' ts) * (1000 / FPS) \<le> mo_sinceFrame m' + (fst (last ts) - now)"
      using Cons.IH [OF False, of m'] Cons.prems(2) m' t by simp
    then show ?thesis using k False by (cases fr) (simp_all add: t s algebra_simps add_divide_distrib)
  qed
qed simp

end
