(* ===== verification/StarField.thy ===== *)
theory StarField
  imports Sphere
begin

text \<open>
  The night sky behind the pages, \<open>src/dashboard/src/components/StarField.tsx\<close>: a fixed set of stars
  from a hash of their number, painted to one block of characters. \<open>fl\<close> rounds the result of
  an arithmetic operation and of a literal, \<open>mt_sin\<close> is \<open>Math.sin\<close>.
\<close>

section \<open>The stars\<close>

definition STAR_GLYPHS :: utf16 where
  "STAR_GLYPHS = [46, 46, 46, 183, 183, 43, 42]"

definition star_hash :: "(rat \<Rightarrow> rat) \<Rightarrow> math \<Rightarrow> nat \<Rightarrow> rat" where
  "star_hash fl mt n = (let x = fl (mt_sin mt (fl (of_nat n * fl (129898 / 10000))) * fl (437585453 / 10000)) in fl (x - of_int \<lfloor>x\<rfloor>))"

record star =
  st_col :: nat
  st_row :: nat
  st_glyph :: nat
  st_phase :: rat
  st_twinkles :: bool

fun add_stars :: "(rat \<Rightarrow> rat) \<Rightarrow> math \<Rightarrow> nat \<Rightarrow> nat \<Rightarrow> nat list \<Rightarrow> star list \<times> nat set \<Rightarrow> star list \<times> nat set" where
  \<comment> \<open>the loop over \<open>i\<close>, with \<open>stars\<close> and \<open>taken\<close>\<close>
  "add_stars fl mt cols rows [] (stars, taken) = (stars, taken)"
| "add_stars fl mt cols rows (i # is) (stars, taken) =
     (let col = nat \<lfloor>fl (star_hash fl mt (i * 3 + 1) * of_nat cols)\<rfloor>;
          row = nat \<lfloor>fl (star_hash fl mt (i * 3 + 2) * of_nat rows)\<rfloor>;
          key = row * cols + col
      in if key \<in> taken then add_stars fl mt cols rows is (stars, taken)
         else let b = star_hash fl mt (i * 3 + 3)
           in add_stars fl mt cols rows is (stars @ [\<lparr>st_col = col, st_row = row,
                st_glyph = STAR_GLYPHS ! nat \<lfloor>fl (b * of_nat (length STAR_GLYPHS))\<rfloor>,
                st_phase = fl (fl (star_hash fl mt (i * 7 + 5) * MATH_PI) * 2), st_twinkles = (fl (72 / 100) < b)\<rparr>],
              insert key taken))"

definition buildStars :: "(rat \<Rightarrow> rat) \<Rightarrow> math \<Rightarrow> nat \<Rightarrow> nat \<Rightarrow> nat \<Rightarrow> star list" where
  "buildStars fl mt cols rows cnt = fst (add_stars fl mt cols rows [0..<cnt] ([], {}))"

section \<open>Painting\<close>

definition lit_star :: "(rat \<Rightarrow> rat) \<Rightarrow> math \<Rightarrow> rat \<Rightarrow> star \<Rightarrow> bool" where
  "lit_star fl mt t s \<longleftrightarrow> \<not> st_twinkles s \<or> fl (- (35 / 100)) < mt_sin mt (fl (t + st_phase s))"

definition star_grid :: "(rat \<Rightarrow> rat) \<Rightarrow> math \<Rightarrow> nat \<Rightarrow> nat \<Rightarrow> star list \<Rightarrow> rat \<Rightarrow> utf16" where
  \<comment> \<open>stars lie inside the grid, so no index is out of range\<close>
  "star_grid fl mt cols rows stars t =
     foldl (\<lambda>grid s. if lit_star fl mt t s then grid[st_row s * cols + st_col s := st_glyph s] else grid)
       (replicate (cols * rows) 32) stars"

definition star_lines :: "(rat \<Rightarrow> rat) \<Rightarrow> math \<Rightarrow> nat \<Rightarrow> nat \<Rightarrow> star list \<Rightarrow> rat \<Rightarrow> utf16 list" where
  \<comment> \<open>the lines that \<open>paint\<close> joins\<close>
  "star_lines fl mt cols rows stars t = map (\<lambda>r. take cols (drop (r * cols) (star_grid fl mt cols rows stars t))) [0..<rows]"

section \<open>What is painted\<close>

definition hash_unit :: "(rat \<Rightarrow> rat) \<Rightarrow> math \<Rightarrow> nat \<Rightarrow> nat \<Rightarrow> bool" where
  \<comment> \<open>a hash scaled to \<open>n\<close> cells stays inside them: it is below 1 and the product does not round up\<close>
  "hash_unit fl mt n i \<longleftrightarrow> 0 \<le> star_hash fl mt i \<and> fl (star_hash fl mt i * of_nat n) < of_nat n"

definition sky_ok :: "(rat \<Rightarrow> rat) \<Rightarrow> math \<Rightarrow> nat \<Rightarrow> nat \<Rightarrow> bool" where
  "sky_ok fl mt cols rows \<longleftrightarrow> 0 < cols \<and> 0 < rows \<and>
     (\<forall>i. hash_unit fl mt cols i \<and> hash_unit fl mt rows i \<and> hash_unit fl mt (length STAR_GLYPHS) i)"

definition stars_ok :: "nat \<Rightarrow> nat \<Rightarrow> star list \<times> nat set \<Rightarrow> bool" where
  "stars_ok cols rows st \<longleftrightarrow> (\<forall>s \<in> set (fst st). st_col s < cols \<and> st_row s < rows \<and> st_glyph s \<in> set STAR_GLYPHS) \<and>
     distinct (map (\<lambda>s. st_row s * cols + st_col s) (fst st)) \<and> snd st = (\<lambda>s. st_row s * cols + st_col s) ` set (fst st)"

lemma scaled_cell: "hash_unit fl mt n i \<Longrightarrow> 0 < n \<Longrightarrow> nat \<lfloor>fl (star_hash fl mt i * of_nat n)\<rfloor> < n"
proof -
  assume "hash_unit fl mt n i" "0 < n"
  then have "\<lfloor>fl (star_hash fl mt i * of_nat n)\<rfloor> < int n" by (simp add: hash_unit_def floor_less_iff)
  then show ?thesis using \<open>0 < n\<close> by linarith
qed

lemma add_stars_ok:
  "sky_ok fl mt cols rows \<Longrightarrow> stars_ok cols rows st \<Longrightarrow> stars_ok cols rows (add_stars fl mt cols rows is st) \<and>
    length (fst (add_stars fl mt cols rows is st)) \<le> length (fst st) + length is"
proof (induction fl mt cols rows "is" st rule: add_stars.induct)
  case (2 fl mt cols rows i "is" stars taken)
  let ?c = "nat \<lfloor>fl (star_hash fl mt (i * 3 + 1) * of_nat cols)\<rfloor>" and ?r = "nat \<lfloor>fl (star_hash fl mt (i * 3 + 2) * of_nat rows)\<rfloor>"
  let ?g = "nat \<lfloor>fl (star_hash fl mt (i * 3 + 3) * of_nat (length STAR_GLYPHS))\<rfloor>"
  have "0 < length STAR_GLYPHS" by (simp add: STAR_GLYPHS_def)
  then have b: "?c < cols" "?r < rows" "?g < length STAR_GLYPHS"
    using "2.prems"(1) unfolding sky_ok_def by (blast intro: scaled_cell)+
  show ?case
  proof (cases "?r * cols + ?c \<in> taken")
    case True
    then show ?thesis using "2.IH"(1) "2.prems" by (fastforce simp: Let_def)
  next
    case False
    let ?s = "\<lparr>st_col = ?c, st_row = ?r, st_glyph = STAR_GLYPHS ! ?g, st_phase = fl (fl (star_hash fl mt (i * 7 + 5) * MATH_PI) * 2),
      st_twinkles = (fl (72 / 100) < star_hash fl mt (i * 3 + 3))\<rparr>"
    have "stars_ok cols rows (stars @ [?s], insert (?r * cols + ?c) taken)"
      using "2.prems"(2) False b nth_mem [OF b(3)] by (auto simp: stars_ok_def)
    then show ?thesis using "2.IH"(2) [OF refl refl refl _ refl] "2.prems"(1) False by (fastforce simp: Let_def)
  qed
qed simp

lemma stars_in_the_sky:
  assumes "sky_ok fl mt cols rows"
  shows "stars_ok cols rows (buildStars fl mt cols rows cnt, (\<lambda>s. st_row s * cols + st_col s) ` set (buildStars fl mt cols rows cnt)) \<and>
    length (buildStars fl mt cols rows cnt) \<le> cnt"
  using add_stars_ok [OF assms, of "([], {})" "[0..<cnt]"] by (auto simp: buildStars_def stars_ok_def)

abbreviation (input) star_at :: "nat \<Rightarrow> star \<Rightarrow> nat" where
  "star_at cols s \<equiv> st_row s * cols + st_col s"

lemma grid_length [simp]: "length (star_grid fl mt cols rows stars t) = cols * rows"
proof -
  have "length (foldl (\<lambda>grid s. if lit_star fl mt t s then grid[star_at cols s := st_glyph s] else grid) g stars) = length g" for g
    by (induction stars arbitrary: g) simp_all
  then show ?thesis by (simp add: star_grid_def)
qed

lemma grid_cell:
  assumes "distinct (map (star_at cols) stars)" and "\<forall>s \<in> set stars. star_at cols s < length g"
  shows "foldl (\<lambda>grid s. if lit_star fl mt t s then grid[star_at cols s := st_glyph s] else grid) g stars ! p =
    (case find (\<lambda>s. star_at cols s = p \<and> lit_star fl mt t s) stars of None \<Rightarrow> g ! p | Some s \<Rightarrow> st_glyph s)"
  using assms
proof (induction stars arbitrary: g)
  case (Cons s stars)
  let ?g = "if lit_star fl mt t s then g[star_at cols s := st_glyph s] else g"
  have other: "star_at cols s' \<noteq> star_at cols s" if "s' \<in> set stars" for s'
    using Cons.prems(1) that by (auto simp: image_iff)
  have ih: "foldl (\<lambda>grid s. if lit_star fl mt t s then grid[star_at cols s := st_glyph s] else grid) ?g stars ! p =
      (case find (\<lambda>s. star_at cols s = p \<and> lit_star fl mt t s) stars of None \<Rightarrow> ?g ! p | Some s \<Rightarrow> st_glyph s)"
    using Cons.prems by (intro Cons.IH) simp_all
  have len: "star_at cols s < length g" using Cons.prems(2) by simp
  show ?case
  proof (cases "star_at cols s = p \<and> lit_star fl mt t s")
    case True
    then have "find (\<lambda>s'. star_at cols s' = p \<and> lit_star fl mt t s') stars = None" using other by (auto simp: find_None_iff)
    then show ?thesis using ih True len by simp
  next
    case False
    then have "?g ! p = g ! p" by auto
    then show ?thesis using ih False by (simp only: foldl_Cons find.simps if_False)
  qed
qed simp

text \<open>The painted sky: as many lines as rows, each as wide as the grid, and every cell shows its
  star while it is lit - a steady star always - and is blank otherwise.\<close>

lemma sky_shows_stars:
  assumes "sky_ok fl mt cols rows" and "r < rows" and "c < cols" and "stars = buildStars fl mt cols rows cnt"
  shows "length (star_lines fl mt cols rows stars t) = rows \<and> length (star_lines fl mt cols rows stars t ! r) = cols \<and>
    star_lines fl mt cols rows stars t ! r ! c = (case find (\<lambda>s. st_row s = r \<and> st_col s = c \<and> lit_star fl mt t s) stars of
      None \<Rightarrow> 32 | Some s \<Rightarrow> st_glyph s)"
proof -
  have ok: "\<forall>s \<in> set stars. st_col s < cols \<and> st_row s < rows" "distinct (map (star_at cols) stars)"
    using stars_in_the_sky [OF assms(1), of cnt] by (auto simp: stars_ok_def assms(4))
  have "Suc r * cols \<le> rows * cols" using assms(2) by (intro mult_right_mono) simp_all
  then have w: "r * cols + cols \<le> cols * rows" by (simp add: mult.commute)
  have inside: "star_at cols s < cols * rows" if "s \<in> set stars" for s
  proof -
    have "Suc (st_row s) * cols \<le> rows * cols" using ok(1) that by (intro mult_right_mono) (simp_all add: Suc_leI)
    moreover have "st_col s < cols" using ok(1) that by blast
    ultimately show ?thesis by (simp add: mult.commute)
  qed
  have same: "star_at cols s = r * cols + c \<longleftrightarrow> st_row s = r \<and> st_col s = c" if "s \<in> set stars" for s
  proof
    assume e: "star_at cols s = r * cols + c"
    have "st_col s < cols" using ok(1) that by blast
    then have "star_at cols s div cols = st_row s" "star_at cols s mod cols = st_col s" by simp_all
    moreover have "(r * cols + c) div cols = r" "(r * cols + c) mod cols = c" using assms(3) by simp_all
    ultimately show "st_row s = r \<and> st_col s = c" using e by simp
  qed simp
  have "find (\<lambda>s. star_at cols s = r * cols + c \<and> lit_star fl mt t s) stars = find (\<lambda>s. st_row s = r \<and> st_col s = c \<and> lit_star fl mt t s) stars"
    using same by (intro find_cong) auto
  moreover have "star_lines fl mt cols rows stars t ! r ! c = star_grid fl mt cols rows stars t ! (r * cols + c)"
    using assms(2,3) w by (simp add: star_lines_def)
  moreover have "r * cols + c < cols * rows" using w assms(3) by simp
  moreover have "length (star_lines fl mt cols rows stars t) = rows" "length (star_lines fl mt cols rows stars t ! r) = cols"
    using assms(2) w by (simp_all add: star_lines_def)
  ultimately show ?thesis using grid_cell [OF ok(2), of "replicate (cols * rows) 32" fl mt t "r * cols + c"] inside
    by (simp add: star_grid_def split: option.split)
qed

lemma sky_shows_stars_witness: "length (star_lines (\<lambda>x. x) flat_math 4 2 (buildStars (\<lambda>x. x) flat_math 4 2 9) 0) = 2"
proof -
  have h: "0 \<le> star_hash (\<lambda>x. x) flat_math i" "star_hash (\<lambda>x. x) flat_math i < 1" for i
    unfolding star_hash_def Let_def by linarith+
  have "sky_ok (\<lambda>x. x) flat_math 4 2"
    using h mult_strict_right_mono [OF h(2)] by (simp add: sky_ok_def hash_unit_def STAR_GLYPHS_def)
  from sky_shows_stars [OF this, of 0 0] show ?thesis by simp
qed

end
