(* ===== verification/Pages.thy ===== *)
theory Pages
  imports Markup StarField
begin

text \<open>
  What the panels and the pages of the dashboard render in every state
  (\<open>dashboard/src/components\<close>, \<open>dashboard/src/pages\<close>): the computations of \<open>Panels\<close> and \<open>Readouts\<close> put
  into the element trees of \<open>Markup\<close>, the page of the console as a function of the state machine
  of \<open>DashboardApp\<close>, the landing page, the page of unknown paths, the routes and the document's title.
\<close>

record display =
  dp_fl :: "rat \<Rightarrow> rat" \<comment> \<open>rounds the result of an arithmetic operation\<close>
  dp_str :: "rat \<Rightarrow> jsstring" \<comment> \<open>writes a number that is no small integer\<close>
  dp_clock :: "time_ms \<Rightarrow> jsstring" \<comment> \<open>a time of the day with minutes and seconds\<close>
  dp_time :: "time_ms \<Rightarrow> jsstring" \<comment> \<open>a time of the day\<close>
  dp_version :: jsstring \<comment> \<open>\<open>__APP_VERSION__\<close>\<close>
  dp_sky :: utf16 \<comment> \<open>what the star field painted last\<close>
  dp_moon :: utf16 \<comment> \<open>what the moon drew last\<close>

section \<open>Counters, fill and keys\<close>

definition stale_mark :: markup where
  "stale_mark = El ''span'' [tone_class ''text-kind-miss''] [lit ''stale'']"

definition faded :: "bool \<Rightarrow> attr" where
  "faded stale = tone_class (if stale then ''opacity-50'' else '''')"

definition stat_row_el :: "bool \<Rightarrow> stat_row \<Rightarrow> markup" where
  "stat_row_el highlight r = El ''div'' [tone_class (if highlight then ''bg-accent font-bold text-void'' else ''text-text'')]
     [El ''span'' [] [lit (sr_metric r)],
      El ''span'' [tone_class (if highlight then '''' else ''text-bright'')] [lit (sr_value r)],
      El ''span'' [tone_class (if highlight then '''' else ''text-faint'')] [lit (sr_detail r)]]"

definition stats_table :: "display \<Rightarrow> NodeMetrics \<Rightarrow> bool \<Rightarrow> markup" where
  "stats_table D m stale = ascii_panel (units ''node counters'') True
     (Some [if stale then stale_mark else lit (''k='' @ show_nat (nm_evictionSampleSize m))])
     [El ''div'' [faded stale]
        (El ''div'' [] [El ''span'' [] [lit ''metric''], El ''span'' [] [lit ''value''], El ''span'' [] [lit ''detail'']] #
         map (\<lambda>(i, r). stat_row_el (i = 0) r) (enumerate 0 (stats_rows (dp_fl D) (dp_str D) m)))]"

definition store_gauge :: "display \<Rightarrow> NodeMetrics \<Rightarrow> bool \<Rightarrow> markup" where
  "store_gauge D m stale =
     (let fill = gauge_fill (dp_fl D) m;
          tone = tone_class (if dp_fl D (8 / 10) \<le> fill then ''text-kind-miss'' else ''text-accent'')
      in ascii_panel (units ''store capacity'') False
        (Some [if stale then stale_mark else lit (show_nat (nm_keys m) @ ''/'' @ show_nat (nm_maxEntries m))])
        [El ''div'' [faded stale]
           [El ''div'' [] [El ''span'' [tone] [lit (show_int (gauge_pct (dp_fl D) m))], El ''span'' [] [lit ''%''],
              El ''span'' [] [lit (show_int (gauge_free m)), lit '' free'']],
            El ''div'' [aria_hidden, tone] [Txt (renderMeter (dp_fl D) (Some fill) 32)],
            El ''dl'' []
              [El ''div'' [] [El ''dt'' [] [lit ''policy''], El ''dd'' [] [lit (nm_evictionPolicy m)]],
               El ''div'' [] [El ''dt'' [] [lit ''evicted''], El ''dd'' [] [lit (show_nat (nm_evictions m))]]]]])"

definition bar_chart_el :: "display \<Rightarrow> Bar list \<Rightarrow> nat \<Rightarrow> nat \<Rightarrow> jsstring \<Rightarrow> markup" where
  "bar_chart_el D bars rows barWidth tone = (case bar_chart (dp_fl D) bars rows barWidth of
       None \<Rightarrow> El ''p'' [] [lit ''-- no data --'']
     | Some chart \<Rightarrow> El ''div'' []
         [El ''pre'' [aria_hidden, tone_class tone] [Txt chart],
          El ''div'' [] (map (\<lambda>b. El ''span'' [] [lit (bar_value_text barWidth (br_value b))]) bars),
          El ''div'' [] (map (\<lambda>b. El ''span'' [Attr ''title'' (br_label b)] [Txt (br_label b)]) bars)])"

definition top_keys_chart :: "display \<Rightarrow> KeyStat list option \<Rightarrow> nat \<Rightarrow> markup" where
  "top_keys_chart D stats topN =
     (let bars = top_bars topN stats
      in ascii_panel (units ''hottest keys'') False
        (Some [if stats \<noteq> None then lit (''top '' @ show_nat (length bars)) else lit ''--''])
        [if stats = None then El ''p'' [] [lit ''-- no signal --'']
         else if bars = [] then El ''p'' [] [lit ''-- store empty --'']
         else bar_chart_el D bars 7 5 ''text-kind-set''])"

definition key_row :: "display \<Rightarrow> nat \<Rightarrow> KeyStat \<Rightarrow> markup" where
  "key_row D mx s = El ''li'' [Attr ''title'' (units (ks_key s @ '' '') @ em_dash @ units ('' '' @ show_nat (ks_hits s) @ '' reads''))]
     ([El ''span'' [aria_hidden] [Txt [heatGlyph (dp_fl D) (ks_hits s) mx]], El ''span'' [] [lit (ks_key s)]] @
      (case ks_ttl s of None \<Rightarrow> [] | Some ttl \<Rightarrow> [El ''span'' [] [lit (to_fixed0 (dp_str D) ttl), lit ''s'']]) @
      [El ''span'' [] [lit (show_nat (ks_hits s))]])"

definition keys_panel_el :: "display \<Rightarrow> KeyStat list option \<Rightarrow> markup" where
  "keys_panel_el D stats = ascii_panel (units ''keys'') False
     (Some [case stats of
          Some ss \<Rightarrow> El ''span'' [] [El ''span'' [aria_hidden] [Txt HEAT], El ''span'' [] [lit (show_nat (length (by_hits ss))), lit '' live'']]
        | None \<Rightarrow> lit ''--''])
     [El ''div'' [] [case stats of
          None \<Rightarrow> El ''p'' [] [lit ''-- no signal --'']
        | Some ss \<Rightarrow> if by_hits ss = [] then El ''p'' [] [lit ''-- store empty --'']
            else El ''ul'' [] (map (key_row D (max_hits ss)) (by_hits ss))]]"

section \<open>Charts\<close>

definition pad_start :: "nat \<Rightarrow> jsstring \<Rightarrow> jsstring" where
  "pad_start n s = replicate (n - length s) CHR '' '' @ s"

record chart_series =
  cs_label :: jsstring
  cs_values :: "rat option list"
  cs_tone :: jsstring

definition axis_gutter :: "(rat \<Rightarrow> jsstring) \<Rightarrow> rat list \<Rightarrow> nat" where
  "axis_gutter format ticks = foldr (\<lambda>t n. max (length (format t)) n) ticks 0"

definition line_chart_el :: "display \<Rightarrow> chart_series list \<Rightarrow> nat \<Rightarrow> nat \<Rightarrow> jsstring list \<Rightarrow> (rat \<Rightarrow> jsstring) \<Rightarrow> rat option \<Rightarrow> rat option \<Rightarrow> markup" where
  "line_chart_el D series cols rows xLabels format mn mx = (case line_chart (dp_fl D) (map cs_values series) cols rows mn mx of
     (layers, ticks) \<Rightarrow> let gutter = axis_gutter format ticks in
       El ''div'' [aria_hidden]
         ([El ''div'' []
             [El ''div'' [] (map (\<lambda>(i, t). El ''div'' [] [lit (if even i then pad_start gutter (format t) else replicate gutter CHR '' '')]) (enumerate 0 ticks)),
              El ''div'' [] (map (\<lambda>_. El ''div'' [] [Txt [9474]]) ticks),
              El ''div'' [] (map (\<lambda>(s, l). El ''pre'' [tone_class (cs_tone s)] [Txt l]) (zip series layers) @
                [El ''pre'' [] [Txt (case layers of [] \<Rightarrow> units '' '' | l # ls \<Rightarrow> l)]])],
           El ''div'' [] [El ''span'' [] [lit (replicate gutter CHR '' ''), Txt [9492]], El ''span'' [] [Txt (repeat cols [9472])]]] @
          (if xLabels = [] then [] else [El ''div'' [] [El ''span'' [] [lit (replicate (gutter + 1) CHR '' '')],
             El ''span'' [] (map (\<lambda>l. El ''span'' [] [lit l]) xLabels)]]) @
          (if length series \<le> 1 then [] else [El ''div'' [] (map (\<lambda>s. El ''span'' [tone_class (cs_tone s)] [Txt [9632], lit '' '', lit (cs_label s)]) series)])))"

definition collecting :: "utf16 \<Rightarrow> markup" where
  "collecting title = ascii_panel title False (Some [lit ''collecting''])
     [El ''p'' [] [lit ''collecting samples'', El ''span'' [] [lit ''_'']]]"

definition LATENCY_TITLE :: utf16 where
  "LATENCY_TITLE = units ''latency ('' @ [181] @ units ''s)''"

definition traffic_panel :: "display \<Rightarrow> MetricsSample list \<Rightarrow> bool \<Rightarrow> markup" where
  "traffic_panel D history stale = (case traffic_chart (dp_fl D) (dp_str D) (dp_clock D) history stale of
       None \<Rightarrow> collecting (units ''hits vs misses'')
     | Some cp \<Rightarrow> ascii_panel (units ''hits vs misses'') True
         (Some [if stale then stale_mark else lit (cp_right cp)])
         [El ''p'' [] [lit (cp_summary cp)],
          line_chart_el D
            [\<lparr>cs_label = ''hits'', cs_values = map (\<lambda>h. Some (of_nat (sm_hits h))) history, cs_tone = ''text-kind-hit''\<rparr>,
             \<lparr>cs_label = ''misses'', cs_values = map (\<lambda>h. Some (of_nat (sm_misses h))) history, cs_tone = ''text-kind-miss''\<rparr>]
            82 12 (timeLabels (dp_fl D) (dp_clock D) history 5) (to_fixed0 (dp_str D)) None None])"

definition latency_panel :: "display \<Rightarrow> MetricsSample list \<Rightarrow> bool \<Rightarrow> markup" where
  "latency_panel D history stale = (case latency_chart (dp_fl D) (dp_str D) (dp_clock D) history stale of
       None \<Rightarrow> collecting LATENCY_TITLE
     | Some cp \<Rightarrow> ascii_panel LATENCY_TITLE False
         (Some [if stale then stale_mark else lit (cp_right cp)])
         [El ''p'' [] [lit (cp_summary cp)],
          line_chart_el D
            [\<lparr>cs_label = ''p95'', cs_values = map sm_p95Us history, cs_tone = ''text-kind-set''\<rparr>,
             \<lparr>cs_label = ''avg'', cs_values = map sm_avgUs history, cs_tone = ''text-kind-del''\<rparr>]
            52 12 (timeLabels (dp_fl D) (dp_clock D) history 3) (to_fixed0 (dp_str D)) None None])"

section \<open>The op stream and the console\<close>

definition kind_tone :: "LogKind \<Rightarrow> jsstring" where
  "kind_tone k = (case k of LHit \<Rightarrow> ''text-kind-hit'' | LMiss \<Rightarrow> ''text-kind-miss'' | LSet \<Rightarrow> ''text-kind-set'' | LDel \<Rightarrow> ''text-kind-del''
     | LEvict \<Rightarrow> ''text-kind-evict'' | LExpire \<Rightarrow> ''text-kind-miss'' | LErr \<Rightarrow> ''text-kind-err'')"

definition event_row :: "display \<Rightarrow> LogEvent \<Rightarrow> markup" where
  "event_row D ev = El ''div'' []
     [El ''span'' [] [lit (dp_time D (lg_at ev))], El ''span'' [tone_class (kind_tone (lg_kind ev))] [lit (kind_label (lg_kind ev))],
      El ''span'' [] [Txt (lg_text ev)]]"

definition log_stream :: "display \<Rightarrow> op_log \<Rightarrow> markup" where
  "log_stream D l = ascii_panel (units ''op stream'') False
     (Some [El ''button'' [Attr ''type'' (units ''button''), Handler ''onClick'' ClearButton, Attr ''title'' (units ''clear this log'')]
        [lit (show_nat (length (lg_events l))), lit '' events '', Txt [183], lit '' [ clear ]'']])
     [El ''div'' [] (if lg_events l = [] then [El ''p'' [] [Txt (units ''-- no operations yet; try the kv console --'')]]
        else map (event_row D) (lg_events l))]"

definition TONE_CLASS :: "tone \<Rightarrow> jsstring" where
  "TONE_CLASS t = (case t of Plain \<Rightarrow> ''text-dim'' | Ok \<Rightarrow> ''text-accent'' | Hit \<Rightarrow> ''text-kind-hit'' | Miss \<Rightarrow> ''text-kind-miss''
     | ErrTone \<Rightarrow> ''text-kind-err'')"

definition console_input :: "console \<Rightarrow> markup" where
  "console_input c = El ''input'' [Attr ''value'' (units (cn_input c)), Handler ''onChange'' InputField, Handler ''onKeyDown'' InputField,
     Flag ''spellCheck'' False, Attr ''autoComplete'' (units ''off''), Flag ''disabled'' (cn_busy c),
     Attr ''placeholder'' (units ''set user:1 saatvik 300'')] []"

definition console_keys :: markup where
  \<comment> \<open>the legend of the keys\<close>
  "console_keys = El ''div'' []
     [El ''span'' [] [key_cap (units ''/''), lit '' focus''],
      El ''span'' [] [key_cap [8593], key_cap [8595], lit '' history''],
      El ''span'' [] [key_cap (units ''Esc''), lit '' clear input''],
      El ''span'' [] [key_cap (units ''S''), lit '' sim''],
      El ''span'' [] [key_cap (units ''M''), lit '' sound'']]"

definition copy_button :: "console \<Rightarrow> markup list" where
  "copy_button c = (if cn_lastValue c = None then []
     else [El ''button'' [Attr ''type'' (units ''button''), Handler ''onClick'' CopyButton,
        Attr ''title'' (units ''copy the last GET result to the clipboard'')] [Txt [10697], lit '' copy last value'']])"

definition kv_console :: "console \<Rightarrow> markup" where
  "kv_console c = ascii_panel (units ''kv console'') False
     (Some [if cn_busy c then El ''span'' [] [Txt (units ''tx'' @ [8230])] else lit ''/ to focus''])
     ([El ''div'' [Attr ''aria-live'' (units ''polite'')]
         (map (\<lambda>l. El ''div'' [tone_class (TONE_CLASS (ln_tone l))] [Txt (ln_text l)]) (cn_lines c)),
       El ''form'' [Handler ''onSubmit'' RunButton]
         [El ''div'' [] [El ''span'' [] [lit ''>''], console_input c],
          button_el ''submit'' RunButton ''run the command (Enter)'' AccentTone (cn_busy c) [lit ''run'']],
       console_keys] @ copy_button c)"

section \<open>The boot screen\<close>

definition BOOT_TEXTS :: "jsstring \<Rightarrow> jsstring list" where
  "BOOT_TEXTS version = [''inkcache console v'' @ version, '''',
     ''checking character grid ......... ok'',
     ''loading glyph tables ............ ok'',
     ''mounting metrics poller ......... ok'',
     ''opening op stream ............... ok'',
     ''resolving node :8080 ............ ok'']"

definition boot_line :: "nat \<Rightarrow> nat \<times> jsstring \<Rightarrow> markup" where
  "boot_line shown il = El ''div'' [tone_class (if fst il = 0 then ''text-bright'' else ''text-text'')]
     (lit (snd il) # (if fst il + 1 = shown then [El ''span'' [] [Txt [9608]]] else []))"

definition boot_screen :: "display \<Rightarrow> nat \<Rightarrow> markup" where
  "boot_screen D shown = (case boot_progress (dp_fl D) shown of (meter, percent) \<Rightarrow>
     El ''div'' []
       [El ''div'' [] (map (boot_line shown) (enumerate 0 (take shown (BOOT_TEXTS (dp_version D)))) @
          [El ''div'' [] [El ''span'' [aria_hidden] [Txt meter], lit '' '', lit (show_int percent), lit ''%'']]),
        El ''div'' [] [lit ''press any key to skip'']])"

section \<open>The page of the console\<close>

definition star_field :: "display \<Rightarrow> markup" where
  "star_field D = El ''pre'' [aria_hidden] [Txt (dp_sky D)]"

definition status_badge :: "NodeStatus \<Rightarrow> utf16 \<times> jsstring \<times> jsstring" where
  "status_badge s = (case s of Connecting \<Rightarrow> ([9676], ''connecting'', ''text-dim'') | Online \<Rightarrow> ([9679], ''online'', ''text-accent'')
     | Offline \<Rightarrow> ([9675], ''offline'', ''text-kind-err''))"

definition badge_el :: "NodeStatus \<Rightarrow> markup" where
  "badge_el s = (case status_badge s of (gl, label, tone) \<Rightarrow> El ''span'' [Attr ''aria-live'' (units ''polite''), tone_class tone]
     [El ''span'' [aria_hidden, tone_class (if s = Online then ''cursor-blink'' else '''')] [Txt gl], lit label])"

definition page_header :: "dashboard \<Rightarrow> markup" where
  "page_header d = El ''header'' []
     [El ''div'' []
        [page_link ''/'' [Attr ''title'' (units ''home'')]
           [El ''span'' [aria_hidden] [Txt [8592]], El ''span'' [] [lit ''INKCACHE''], El ''span'' [] [lit ''/ console'']],
         El ''div'' []
           [El ''label'' [] [lit ''sim'', toggle (si_timer (da_sim d)) SimSwitch ''toggle synthetic traffic (s)''],
            El ''label'' [] [lit ''snd'', toggle (so_enabled (da_sound d)) SoundSwitch ''toggle op-stream sound cues (m)''],
            button_el ''button'' FlushButton ''clear every key from the store'' DangerTone (fb_flushing (da_flush d)) [lit ''flush''],
            badge_el (po_status (da_poll d))]],
      El ''div'' [aria_hidden] [dashes RULE]]"

definition link_down :: markup where
  "link_down = El ''div'' [] [Txt (units ''!! link down '' @ em_dash @ units '' cache node not responding on :8080. start it with ''),
     El ''span'' [] [lit ''npm run dev:node'']]"

definition no_counters :: "NodeStatus \<Rightarrow> markup" where
  "no_counters s = ascii_panel (units ''node counters'') False (Some [lit ''no signal''])
     [El ''p'' [] (if s = Connecting then [lit ''acquiring signal'', El ''span'' [] [lit ''_'']] else [lit ''node unreachable''])]"

definition no_capacity :: markup where
  "no_capacity = ascii_panel (units ''store capacity'') False (Some [lit ''--'']) [El ''p'' [] [lit ''no signal'']]"

definition panels :: "display \<Rightarrow> dashboard \<Rightarrow> KeyStat list option \<Rightarrow> markup list" where
  "panels D d stats =
     (let metrics = po_metrics (da_poll d); status = po_status (da_poll d); stale = (status = Offline); history = po_history (da_poll d)
      in [traffic_panel D history stale, latency_panel D history stale,
          (case metrics of Some m \<Rightarrow> stats_table D m stale | None \<Rightarrow> no_counters status),
          top_keys_chart D stats 6,
          (case metrics of Some m \<Rightarrow> store_gauge D m stale | None \<Rightarrow> no_capacity),
          kv_console (da_console d), keys_panel_el D stats, log_stream D (da_log d)])"

definition dashboard_page :: "display \<Rightarrow> dashboard \<Rightarrow> KeyStat list option \<Rightarrow> markup" where
  "dashboard_page D d stats = El ''div'' []
     ([star_field D] @
      (case da_boot d of Booting shown \<Rightarrow> [boot_screen D shown] | Booted \<Rightarrow> []) @
      [El ''div'' []
        ([El ''h1'' [] [lit ''InkCache node console''], page_header d] @
         (if po_status (da_poll d) = Offline then [link_down] else []) @
         [El ''div'' [] (map (\<lambda>p. El ''div'' [] [p]) (panels D d stats))])])"

section \<open>The landing page and the page of unknown paths\<close>

definition strip_row :: "jsstring \<Rightarrow> jsstring \<Rightarrow> markup" where
  "strip_row label v = El ''div'' [] [El ''span'' [] [lit label], El ''span'' [aria_hidden] [Txt (repeat 200 (units ''.''))], El ''span'' [] [lit v]]"

definition live_stats_strip :: "display \<Rightarrow> NodeMetrics option \<Rightarrow> NodeStatus \<Rightarrow> markup" where
  "live_stats_strip D metrics status = (case live_strip (dp_fl D) (dp_str D) metrics status of
       StripConnecting \<Rightarrow> El ''p'' [Attr ''aria-live'' (units ''polite'')] [lit ''connecting to local node'', El ''span'' [] [lit ''_'']]
     | StripOffline \<Rightarrow> El ''p'' [Attr ''aria-live'' (units ''polite'')]
         [Txt (units ''node offline '' @ em_dash @ units '' start it with ''), El ''span'' [] [lit ''npm run dev:node'']]
     | StripRows rows meter \<Rightarrow> El ''div'' [] (map (\<lambda>(l, v). strip_row l v) rows @
         [El ''div'' [] [El ''span'' [] [lit ''load''], El ''span'' [aria_hidden] [Txt meter]]]))"

definition CLAIM :: jsstring where
  "CLAIM = ''Most caches evict by recency alone and drop a hot key the moment something newer arrives. InkCache evicts whichever least-recently-used key has actually been read the fewest times ''"

definition home_page :: "display \<Rightarrow> NodeMetrics option \<Rightarrow> NodeStatus \<Rightarrow> markup" where
  "home_page D metrics status = El ''div'' []
     [star_field D,
      El ''div'' []
        [home_nav,
         El ''section'' []
           [El ''div'' []
              [El ''p'' [] [El ''span'' [] [lit ''//''], Txt (units '' inkcache '' @ em_dash @ units '' single-node cache'')],
               El ''div'' []
                 [ascii_headline [''CACHE''] HEADLINE_GLYPH 1 (Some (Some ''Cache that adapts'')),
                  ascii_headline [''THAT''] HEADLINE_GLYPH 1 (Some None),
                  ascii_headline [''ADAPTS''] HEADLINE_GLYPH 1 (Some None)],
               El ''p'' [] [Txt (units CLAIM @ em_dash @ units '' so a key that earns its space keeps it.'')],
               El ''div'' [] [live_stats_strip D metrics status],
               page_link ''/dashboard'' [] [El ''span'' [] [lit ''open live console''], El ''span'' [aria_hidden] [Txt [8594]]]],
            El ''div'' [] [El ''pre'' [aria_hidden] [Txt (dp_moon D)]]],
         home_footer]]"

definition not_found_page :: markup where
  "not_found_page = El ''div'' []
     [El ''div'' []
        [ascii_headline [''404''] HEADLINE_GLYPH 1 None,
         El ''p'' [] [lit ''-- no route mapped to this path --''],
         page_link ''/'' [] [lit ''[ back home ]'']]]"

section \<open>Routes and titles\<close>

datatype page = HomePage | DashboardPage | NotFoundPage

definition PAGES :: "(jsstring \<times> page) list" where
  "PAGES = [(''/'', HomePage), (''/dashboard'', DashboardPage), (''*'', NotFoundPage)]"

definition page_title :: "page \<Rightarrow> utf16" where
  "page_title p = units ''InkCache '' @ em_dash @ units (case p of
     HomePage \<Rightarrow> '' access-pattern-aware caching'' | DashboardPage \<Rightarrow> '' node console'' | NotFoundPage \<Rightarrow> '' 404'')"

record document =
  dc_title :: utf16
  dc_prev :: "utf16 option" \<comment> \<open>what the effect of the mounted page remembers\<close>

definition set_title :: "utf16 \<Rightarrow> document \<Rightarrow> document" where
  \<comment> \<open>the effect of \<open>useDocumentTitle\<close>\<close>
  "set_title title dc = \<lparr>dc_title = title, dc_prev = Some (dc_title dc)\<rparr>"

definition restore_title :: "document \<Rightarrow> document" where
  \<comment> \<open>its cleanup\<close>
  "restore_title dc = (case dc_prev dc of None \<Rightarrow> dc | Some prev \<Rightarrow> \<lparr>dc_title = prev, dc_prev = None\<rparr>)"

definition navigate :: "document \<Rightarrow> page \<Rightarrow> document" where
  "navigate dc p = set_title (page_title p) (restore_title dc)"

section \<open>What the panels contain\<close>

lemmas el_simps = headings_simps landmarks_simps switches_simps clickables_simps dashes_simps panel_simps slot_simps button_simps
  toggle_simps headline_simps key_cap_simps nav_simps button_click_simps

lemma plain_simps [markup_simps]:
  "headings stale_mark = 0" "landmarks stale_mark = []" "switches stale_mark = []" "clickables stale_mark = []"
  "headings (stat_row_el h r) = 0" "landmarks (stat_row_el h r) = []" "switches (stat_row_el h r) = []" "clickables (stat_row_el h r) = []"
  "headings (event_row D ev) = 0" "landmarks (event_row D ev) = []" "switches (event_row D ev) = []" "clickables (event_row D ev) = []"
  "headings (strip_row l v) = 0" "landmarks (strip_row l v) = []" "switches (strip_row l v) = []" "clickables (strip_row l v) = []"
  "headings (boot_line n il) = 0" "landmarks (boot_line n il) = []" "switches (boot_line n il) = []" "clickables (boot_line n il) = []"
  by (simp_all add: stale_mark_def stat_row_el_def event_row_def strip_row_def boot_line_def tone_class_def aria_hidden_def el_simps
      split: option.split)

lemma key_row_simps [markup_simps]:
  "headings (key_row D mx s) = 0" "landmarks (key_row D mx s) = []" "switches (key_row D mx s) = []" "clickables (key_row D mx s) = []"
  by (cases "ks_ttl s"; simp add: key_row_def aria_hidden_def el_simps)+

lemma line_chart_simps [markup_simps]:
  "headings (line_chart_el D series cols rows labels format mn mx) = 0" "landmarks (line_chart_el D series cols rows labels format mn mx) = []"
  "switches (line_chart_el D series cols rows labels format mn mx) = []" "clickables (line_chart_el D series cols rows labels format mn mx) = []"
  by (simp_all add: line_chart_el_def Let_def o_def case_prod_beta aria_hidden_def tone_class_def el_simps split: prod.split)

lemma bar_chart_simps [markup_simps]:
  "headings (bar_chart_el D bars rows w tone) = 0" "landmarks (bar_chart_el D bars rows w tone) = []"
  "switches (bar_chart_el D bars rows w tone) = []" "clickables (bar_chart_el D bars rows w tone) = []"
  by (simp_all add: bar_chart_el_def o_def aria_hidden_def tone_class_def el_simps split: option.split)

lemma chart_panel_simps [markup_simps]:
  "headings (traffic_panel D h stale) = 0" "landmarks (traffic_panel D h stale) = [Some (units ''hits vs misses'')]"
  "switches (traffic_panel D h stale) = []" "clickables (traffic_panel D h stale) = []"
  "headings (latency_panel D h stale) = 0" "landmarks (latency_panel D h stale) = [Some LATENCY_TITLE]"
  "switches (latency_panel D h stale) = []" "clickables (latency_panel D h stale) = []"
  by (simp_all add: traffic_panel_def latency_panel_def collecting_def el_simps plain_simps line_chart_simps split: option.split)

lemma counter_panel_simps [markup_simps]:
  "headings (stats_table D m stale) = 0" "landmarks (stats_table D m stale) = [Some (units ''node counters'')]"
  "switches (stats_table D m stale) = []" "clickables (stats_table D m stale) = []"
  "headings (no_counters s) = 0" "landmarks (no_counters s) = [Some (units ''node counters'')]"
  "switches (no_counters s) = []" "clickables (no_counters s) = []"
  "headings (store_gauge D m stale) = 0" "landmarks (store_gauge D m stale) = [Some (units ''store capacity'')]"
  "switches (store_gauge D m stale) = []" "clickables (store_gauge D m stale) = []"
  "headings no_capacity = 0" "landmarks no_capacity = [Some (units ''store capacity'')]"
  "switches no_capacity = []" "clickables no_capacity = []"
  by (simp_all add: stats_table_def no_counters_def store_gauge_def no_capacity_def Let_def o_def case_prod_beta faded_def tone_class_def
      aria_hidden_def el_simps plain_simps)

lemma key_panel_simps [markup_simps]:
  "headings (top_keys_chart D stats n) = 0" "landmarks (top_keys_chart D stats n) = [Some (units ''hottest keys'')]"
  "switches (top_keys_chart D stats n) = []" "clickables (top_keys_chart D stats n) = []"
  "headings (keys_panel_el D stats) = 0" "landmarks (keys_panel_el D stats) = [Some (units ''keys'')]"
  "switches (keys_panel_el D stats) = []" "clickables (keys_panel_el D stats) = []"
  by (simp_all add: top_keys_chart_def keys_panel_el_def Let_def o_def aria_hidden_def el_simps plain_simps key_row_simps bar_chart_simps split: option.split)

lemma log_stream_simps [markup_simps]:
  "headings (log_stream D l) = 0" "landmarks (log_stream D l) = [Some (units ''op stream'')]"
  "switches (log_stream D l) = []" "clickables (log_stream D l) = [(ClearButton, False)]"
  by (simp_all add: log_stream_def o_def el_simps plain_simps flagged_def)

lemma console_simps [markup_simps]:
  "headings (kv_console c) = 0" "landmarks (kv_console c) = [Some (units ''kv console'')]" "switches (kv_console c) = []"
  "clickables (kv_console c) = (RunButton, cn_busy c) # (if cn_lastValue c = None then [] else [(CopyButton, False)])"
  by (simp_all add: kv_console_def console_input_def console_keys_def copy_button_def tone_class_def o_def el_simps flagged_def)

lemma boot_screen_simps [markup_simps]:
  "headings (boot_screen D n) = 0" "landmarks (boot_screen D n) = []" "switches (boot_screen D n) = []" "clickables (boot_screen D n) = []"
  by (simp_all add: boot_screen_def o_def aria_hidden_def el_simps plain_simps split: prod.split)

lemma star_field_simps [markup_simps]:
  "headings (star_field D) = 0" "landmarks (star_field D) = []" "switches (star_field D) = []" "clickables (star_field D) = []"
  "spoken (star_field D) = []"
  by (simp_all add: star_field_def aria_hidden_def el_simps)

lemma badge_simps [markup_simps]:
  "headings (badge_el s) = 0" "landmarks (badge_el s) = []" "switches (badge_el s) = []" "clickables (badge_el s) = []"
  by (simp_all add: badge_el_def tone_class_def aria_hidden_def el_simps split: prod.split)

lemma header_simps [markup_simps]:
  "headings (page_header d) = 0" "landmarks (page_header d) = []"
  "switches (page_header d) = [(Some (units ''toggle synthetic traffic (s)''), si_timer (da_sim d)),
     (Some (units ''toggle op-stream sound cues (m)''), so_enabled (da_sound d))]"
  "clickables (page_header d) = [(SimSwitch, False), (SoundSwitch, False), (FlushButton, fb_flushing (da_flush d))]"
  by (simp_all add: page_header_def page_link_def aria_hidden_def el_simps badge_simps)

lemma link_down_simps [markup_simps]:
  "headings link_down = 0" "landmarks link_down = []" "switches link_down = []" "clickables link_down = []"
  by (simp_all add: link_down_def el_simps)

lemma strip_simps [markup_simps]:
  "headings (live_stats_strip D m s) = 0" "landmarks (live_stats_strip D m s) = []"
  "switches (live_stats_strip D m s) = []" "clickables (live_stats_strip D m s) = []"
  by (cases "live_strip (dp_fl D) (dp_str D) m s"; simp add: live_stats_strip_def o_def case_prod_beta aria_hidden_def el_simps plain_simps)+

definition PANEL_TITLES :: "utf16 list" where
  "PANEL_TITLES = [units ''hits vs misses'', LATENCY_TITLE, units ''node counters'', units ''hottest keys'', units ''store capacity'',
     units ''kv console'', units ''keys'', units ''op stream'']"

lemma panels_simps [markup_simps]:
  "sum_list (map headings (panels D d stats)) = 0" "concat (map landmarks (panels D d stats)) = map Some PANEL_TITLES"
  "concat (map switches (panels D d stats)) = []"
  "concat (map clickables (panels D d stats)) = (RunButton, cn_busy (da_console d)) #
     (if cn_lastValue (da_console d) = None then [] else [(CopyButton, False)]) @ [(ClearButton, False)]"
  by (simp_all add: panels_def Let_def PANEL_TITLES_def chart_panel_simps counter_panel_simps key_panel_simps console_simps log_stream_simps
      split: option.split)

lemma dashboard_simps:
  "headings (dashboard_page D d stats) = 1"
  "landmarks (dashboard_page D d stats) = map Some PANEL_TITLES"
  "switches (dashboard_page D d stats) = switches (page_header d)"
  "clickables (dashboard_page D d stats) = clickables (page_header d) @ concat (map clickables (panels D d stats))"
  by (cases "da_boot d"; simp add: dashboard_page_def el_simps star_field_simps boot_screen_simps header_simps link_down_simps
      panels_simps o_def)+

section \<open>Properties\<close>

text \<open>Whoever listens to a page is told what it is and where to go: in every state - whatever the
  node answers, while booting, connecting or cut off - each of the three pages has exactly
  one top-level heading, although the headline of the landing page is drawn in three parts;
  and the console's page has the same eight regions, each with a name of its own.\<close>

lemma pages_are_navigable:
  "headings (home_page D metrics status) = 1 \<and> headings not_found_page = 1 \<and> headings (dashboard_page D d stats) = 1 \<and>
   landmarks (dashboard_page D d stats) = map Some PANEL_TITLES \<and> distinct PANEL_TITLES \<and> length PANEL_TITLES = 8"
proof -
  have home: "headings (home_page D metrics status) = 1"
    by (simp add: home_page_def headline_text_def page_link_def aria_hidden_def el_simps star_field_simps strip_simps)
  have missing: "headings not_found_page = 1"
    by (simp add: not_found_page_def headline_text_def page_link_def el_simps)
  have "distinct PANEL_TITLES \<and> length PANEL_TITLES = 8" by (simp add: PANEL_TITLES_def LATENCY_TITLE_def units_def)
  then show ?thesis using home missing dashboard_simps(1,2) by blast
qed

definition calls_node :: "command option \<Rightarrow> bool" where
  "calls_node cmd \<longleftrightarrow> (\<exists>k. cmd = Some k \<and> command_call [] k \<noteq> None)"

lemma print_input: "cn_input (print t tn c) = cn_input c"
  by (simp add: print_def)

lemma begin_run_calls:
  assumes "begin_run raw c = (c', call)"
  shows "call = (if calls_node (parse_command raw) then parse_command raw else None) \<and>
    cn_history c' = cn_history c \<and> cn_input c' = cn_input c \<and> cn_busy c' = cn_busy c \<and>
    (calls_node (parse_command raw) \<longrightarrow> c' = print (units (''> '' @ raw)) Plain c)"
proof -
  have helped: "cn_history (foldl (\<lambda>c l. print (units l) Plain c) c0 ls) = cn_history c0 \<and> cn_input (foldl (\<lambda>c l. print (units l) Plain c) c0 ls) = cn_input c0 \<and>
      cn_busy (foldl (\<lambda>c l. print (units l) Plain c) c0 ls) = cn_busy c0" for c0 :: console and ls :: "jsstring list"
    by (induction ls arbitrary: c0) (simp_all add: print_input)
  show ?thesis
    using assms by (auto simp: begin_run_def calls_node_def command_call_def Let_def helped print_input split: option.splits command.splits)
qed

lemma run_button:
  assumes "\<not> cn_busy (da_console d)" and "d' = click_control bw now RunButton d" and "line = trim (cn_input (da_console d))"
  shows "if line = [] then da_console d' = da_console d \<and> da_command d' = None
    else da_command d' = (if calls_node (parse_command line) then parse_command line else None) \<and>
      cn_busy (da_console d') = calls_node (parse_command line) \<and> cn_input (da_console d') = [] \<and>
      cn_history (da_console d') = push_capped Console.HISTORY_CAP (cn_history (da_console d)) line \<and>
      (calls_node (parse_command line) \<longrightarrow>
        cn_lines (da_console d') = push_capped LINES_CAP (cn_lines (da_console d)) \<lparr>ln_text = units (''> '' @ line), ln_tone = Plain\<rparr>)"
proof (cases "line = []")
  case True
  then show ?thesis using assms by (simp add: click_control_def submit_line_def submit_def Let_def)
next
  case False
  let ?c = "(da_console d)\<lparr>cn_history := push_capped Console.HISTORY_CAP (cn_history (da_console d)) line, cn_histIdx := None, cn_input := [], cn_busy := True\<rparr>"
  obtain c' call where b: "begin_run line ?c = (c', call)" by fastforce
  have d': "da_console d' = (if call = None then c'\<lparr>cn_busy := False\<rparr> else c')" "da_command d' = call"
    using assms False b by (cases call; simp add: click_control_def submit_line_def submit_def Let_def)+
  have "parse_command line \<noteq> None" if "calls_node (parse_command line)" using that by (auto simp: calls_node_def)
  then show ?thesis using begin_run_calls [OF b] False d' by (auto simp: print_def)
qed

lemma copy_button:
  assumes "cn_lastValue (da_console d) = Some v" and "d' = click_control bw now CopyButton d"
  shows "if bw_clipboard bw then da_written d' = da_written d @ [v] \<and> da_copies d' = da_copies d + 1 \<and> da_console d' = da_console d
    else da_written d' = da_written d \<and> da_console d' = print (units ''clipboard write failed'') ErrTone (da_console d)"
  using assms by (simp add: click_control_def copy_click_def on_console_def Let_def)

text \<open>C37: The controls of the console's page show and respect its state: its two switches are
  checked exactly when the simulator and the sound are on, it has the flush, run and clear
  buttons, and the copy button once there is a value to copy; a button is disabled exactly
  while its request is out, and pressing a disabled one sends nothing and changes nothing
  but the focus. Each of the others does what it says: the switches turn, flush starts its
  request, clear empties the log; run takes the trimmed line out of the input into the history
  and, when the line is a command that calls the node, echoes it and awaits its answer with the
  console disabled, and does nothing for a blank line; copy gives the last value to the
  clipboard, or reports that there is none.\<close>

theorem controls_reflect_state:
  "switches (dashboard_page D d stats) = [(Some (units ''toggle synthetic traffic (s)''), si_timer (da_sim d)),
     (Some (units ''toggle op-stream sound cues (m)''), so_enabled (da_sound d))] \<and>
   clickables (dashboard_page D d stats) =
     [(SimSwitch, False), (SoundSwitch, False), (FlushButton, fb_flushing (da_flush d)), (RunButton, cn_busy (da_console d))] @
     (if cn_lastValue (da_console d) = None then [] else [(CopyButton, False)]) @ [(ClearButton, False)] \<and>
   (\<forall>c. (c, True) \<in> set (clickables (dashboard_page D d stats)) \<longrightarrow>
      da_console (click_control bw now c d) = da_console d \<and> da_command (click_control bw now c d) = da_command d \<and>
      fb_flushing (da_flush (click_control bw now c d)) = fb_flushing (da_flush d) \<and> da_log (click_control bw now c d) = da_log d \<and>
      da_polls (click_control bw now c d) = da_polls d) \<and>
   si_timer (da_sim (click_control bw now SimSwitch d)) = (\<not> si_timer (da_sim d)) \<and>
   so_enabled (da_sound (click_control bw now SoundSwitch d)) = (\<not> so_enabled (da_sound d)) \<and>
   fb_flushing (da_flush (click_control bw now FlushButton d)) \<and> lg_events (da_log (click_control bw now ClearButton d)) = [] \<and>
   (\<not> cn_busy (da_console d) \<longrightarrow> (let line = trim (cn_input (da_console d)); d' = click_control bw now RunButton d
     in if line = [] then da_console d' = da_console d \<and> da_command d' = None
        else da_command d' = (if calls_node (parse_command line) then parse_command line else None) \<and>
          cn_busy (da_console d') = calls_node (parse_command line) \<and> cn_input (da_console d') = [] \<and>
          cn_history (da_console d') = push_capped Console.HISTORY_CAP (cn_history (da_console d)) line \<and>
          (calls_node (parse_command line) \<longrightarrow>
            cn_lines (da_console d') = push_capped LINES_CAP (cn_lines (da_console d)) \<lparr>ln_text = units (''> '' @ line), ln_tone = Plain\<rparr>))) \<and>
   (\<forall>v. cn_lastValue (da_console d) = Some v \<longrightarrow> (let d' = click_control bw now CopyButton d
     in if bw_clipboard bw then da_written d' = da_written d @ [v] \<and> da_copies d' = da_copies d + 1 \<and> da_console d' = da_console d
        else da_written d' = da_written d \<and> da_console d' = print (units ''clipboard write failed'') ErrTone (da_console d)))"
proof -
  note lists = dashboard_simps(3,4) header_simps(3,4) panels_simps(4)
  have switched: "si_timer (da_sim (click_control bw now SimSwitch d)) = (\<not> si_timer (da_sim d)) \<and>
      so_enabled (da_sound (click_control bw now SoundSwitch d)) = (\<not> so_enabled (da_sound d)) \<and>
      fb_flushing (da_flush (click_control bw now FlushButton d)) \<and> lg_events (da_log (click_control bw now ClearButton d)) = []"
    by (auto simp: click_control_def Let_def on_flush_def flush_click_def on_sim_def toggleSimulator_def startSimulator_def
        stopSimulator_def sim_logs_def toggle_sound_def setSoundEnabled_def clearLog_def)
  show ?thesis
    unfolding Let_def using switched run_button [OF _ refl refl, of d bw now] copy_button [OF _ refl, of d _ bw now]
    by (simp only: lists) (auto simp: click_control_def Let_def on_flush_def flush_click_def)
qed

theorem controls_reflect_state_witness:
  "da_polls (click_control demo_browser 5 FlushButton (quiet_dashboard\<lparr>da_flush := \<lparr>fb_flushing = True, fb_log = new_log, fb_refreshes = 0\<rparr>\<rparr>)) =
   da_polls quiet_dashboard \<and>
   da_command (click_control demo_browser 5 RunButton (on_console (type_input ''get k'') quiet_dashboard)) = Some (CGet ''k'')"
proof -
  let ?d = "quiet_dashboard\<lparr>da_flush := \<lparr>fb_flushing = True, fb_log = new_log, fb_refreshes = 0\<rparr>\<rparr>"
  let ?e = "on_console (type_input ''get k'') quiet_dashboard"
  define D :: display where "D = \<lparr>dp_fl = id, dp_str = (\<lambda>_. []), dp_clock = (\<lambda>_. []), dp_time = (\<lambda>_. []), dp_version = [], dp_sky = [], dp_moon = []\<rparr>"
  have "(FlushButton, True) \<in> set (clickables (dashboard_page D ?d None))"
    using controls_reflect_state [of D ?d None demo_browser 5] by simp
  then have "da_polls (click_control demo_browser 5 FlushButton ?d) = da_polls quiet_dashboard"
    using controls_reflect_state [of D ?d None demo_browser 5] by auto
  moreover have t: "trim ''get k'' = ''get k''" by code_simp
  moreover have "calls_node (parse_command ''get k'')" "parse_command ''get k'' = Some (CGet ''k'')"
    using demo_lines(2) t by (simp_all add: calls_node_def command_call_def)
  ultimately show ?thesis
    using controls_reflect_state [of D ?e None demo_browser 5] by (simp add: on_console_def type_input_def Let_def)
qed

section \<open>What is shown when the node is gone\<close>

definition caption :: "markup \<Rightarrow> utf16" where
  \<comment> \<open>what is read of a panel's top rule\<close>
  "caption m = (case m of El tag as (top_rule # rest) \<Rightarrow> spoken top_rule | _ \<Rightarrow> [])"

lemma caption_panel [simp]: "caption (ascii_panel title accent right children) = units ''[ '' @ title @ units '' ]'' @ slot spoken right"
  by (simp add: caption_def ascii_panel_def slot_def aria_hidden_def tone_class_def spoken_simps dashes_simps split: option.split)

lemma spoken_stale [simp]: "spoken stale_mark = units ''stale''"
  by (simp add: stale_mark_def tone_class_def spoken_simps)

text \<open>Old numbers are marked: while the node is unreachable each of the four panels of measured
  data says in its caption that it is stale, or that it has nothing to show yet.\<close>

lemma stale_is_marked:
  assumes "po_status (da_poll d) = Offline" and "i \<in> {0, 1, 2, 4}"
  shows "\<exists>r \<in> {''stale'', ''collecting'', ''no signal'', ''--''}.
    caption (panels D d stats ! i) = units ''[ '' @ PANEL_TITLES ! i @ units '' ]'' @ units r"
  using assms
  by (auto simp: panels_def PANEL_TITLES_def Let_def traffic_panel_def latency_panel_def collecting_def stats_table_def no_counters_def
      store_gauge_def no_capacity_def slot_def spoken_simps split: option.split)

text \<open>The two panels of keys are not: when the node stops answering, what the dashboard knows of
  its keys is kept and shown as before, with the same number of keys called live.\<close>

lemma keys_not_marked_stale:
  assumes "0 < da_polls d" and "kv_token (da_keys d) = Some (keyRefreshToken (po_metrics (da_poll d)))"
    and "d' = dash_step bw d (now, PollSettled None)"
  shows "po_status (da_poll d') = Offline \<and> da_keys d' = da_keys d \<and> panels D d' (Some ss) ! 3 = panels D d (Some ss) ! 3 \<and>
    panels D d' (Some ss) ! 6 = panels D d (Some ss) ! 6 \<and>
    caption (panels D d' (Some ss) ! 6) = units ''[ keys ]'' @ units (show_nat (length ss)) @ units '' live''"
proof -
  have "po_status (da_poll d') = Offline" "da_keys d' = da_keys d"
    using assms by (auto simp: dash_step_def poll_settled_def tick_def rerender_def render_keys_def Let_def)
  moreover have "length (by_hits ss) = length ss" by (simp add: by_hits_def)
  ultimately show ?thesis
    by (simp add: panels_def Let_def keys_panel_el_def slot_def spoken_simps aria_hidden_def) (simp add: units_def)
qed

section \<open>The title follows the page\<close>

lemma title_follows_page:
  assumes "ps \<noteq> []" and "dc_prev dc = None"
  shows "dc_title (foldl navigate dc ps) = page_title (last ps) \<and> dc_title (restore_title (foldl navigate dc ps)) = dc_title dc"
proof -
  have "dc_title (foldl navigate dc' ps) = (if ps = [] then dc_title dc' else page_title (last ps)) \<and>
      dc_title (restore_title (foldl navigate dc' ps)) = dc_title (restore_title dc')" for dc'
    by (induction ps arbitrary: dc') (auto simp: navigate_def set_title_def restore_title_def split: option.split)
  moreover have "restore_title dc = dc" using assms(2) by (simp add: restore_title_def)
  ultimately show ?thesis using assms(1) by simp
qed

end
