(* ===== verification/Motion.thy ===== *)
theory Motion
  imports StarField Readouts
begin

text \<open>
  Motion and sound of the dashboard: the effects that animate the moon and the night sky
  (\<open>components/AsciiMoon.tsx\<close>, \<open>components/StarField.tsx\<close>) with the setting for reduced motion they
  follow (\<open>hooks/usePrefersReducedMotion.ts\<close>), and the tone of a logged event (\<open>lib/sound.ts\<close>) as
  the schedule that is handed to Web Audio. What a browser does with a schedule is not
  modelled; that it calls back what it holds, and no more once that is cancelled, is.
\<close>

section \<open>A component with an effect\<close>

text \<open>React runs the effect of a component when it appears and, after its cleanup, when something
  it depends on has changed; on leaving it runs the cleanup.\<close>

record 's view =
  vw_mounted :: bool
  vw_reduced :: bool \<comment> \<open>what \<open>usePrefersReducedMotion\<close> returned last\<close>
  vw_state :: 's

record 's component =
  cm_effect :: "bool \<Rightarrow> rat \<Rightarrow> 's \<Rightarrow> 's" \<comment> \<open>by whether motion is reduced, with the reading of \<open>performance.now\<close>\<close>
  cm_cleanup :: "'s \<Rightarrow> 's"
  cm_callback :: "nat \<Rightarrow> rat \<Rightarrow> 's \<Rightarrow> 's"
  cm_held :: "'s \<Rightarrow> nat set" \<comment> \<open>the callbacks the browser holds for it\<close>
  cm_render :: "rat \<Rightarrow> 's \<Rightarrow> 's" \<comment> \<open>rendering with a property the effect does not depend on\<close>

datatype view_event =
  PreferenceChanged bool rat \<comment> \<open>what the media query matches now, and the clock\<close>
  | Callback nat rat
  | Rendered rat
  | Unmounted

definition mount_view :: "'s component \<Rightarrow> bool \<Rightarrow> rat \<Rightarrow> 's \<Rightarrow> 's view" where
  "mount_view c reduced now s = \<lparr>vw_mounted = True, vw_reduced = reduced, vw_state = cm_effect c reduced now s\<rparr>"

definition view_step :: "'s component \<Rightarrow> 's view \<Rightarrow> view_event \<Rightarrow> 's view" where
  \<comment> \<open>the query's listener renders the component; its effect depends on the answer\<close>
  "view_step c v ev = (if \<not> vw_mounted v then v
     else case ev of
         PreferenceChanged reduced now \<Rightarrow> if reduced = vw_reduced v then v
           else v\<lparr>vw_reduced := reduced, vw_state := cm_effect c reduced now (cm_cleanup c (vw_state v))\<rparr>
       | Callback i now \<Rightarrow> if i \<in> cm_held c (vw_state v) then v\<lparr>vw_state := cm_callback c i now (vw_state v)\<rparr> else v
       | Rendered x \<Rightarrow> v\<lparr>vw_state := cm_render c x (vw_state v)\<rparr>
       | Unmounted \<Rightarrow> v\<lparr>vw_mounted := False, vw_state := cm_cleanup c (vw_state v)\<rparr>)"

definition view_run :: "'s component \<Rightarrow> 's view \<Rightarrow> view_event list \<Rightarrow> 's view" where
  "view_run c v evs = foldl (view_step c) v evs"

definition view_ok :: "'s component \<Rightarrow> ('s \<Rightarrow> nat option) \<Rightarrow> ('s \<Rightarrow> bool) \<Rightarrow> 's view \<Rightarrow> bool" where
  \<comment> \<open>the browser holds the one callback the component remembers, and that exactly while it moves\<close>
  "view_ok c running still v \<longleftrightarrow> cm_held c (vw_state v) = set_option (running (vw_state v)) \<and>
     (running (vw_state v) \<noteq> None \<longleftrightarrow> vw_mounted v \<and> \<not> vw_reduced v) \<and>
     (vw_mounted v \<and> vw_reduced v \<longrightarrow> still (vw_state v))"

locale animation =
  fixes c :: "'s component"
    and running :: "'s \<Rightarrow> nat option" \<comment> \<open>the handle the component remembers\<close>
    and still :: "'s \<Rightarrow> bool" \<comment> \<open>it shows its still frame\<close>
  assumes still_effect: "running s = None \<Longrightarrow> cm_held c s = {} \<Longrightarrow>
      running (cm_effect c True now s) = None \<and> cm_held c (cm_effect c True now s) = {} \<and> still (cm_effect c True now s)"
    and moving_effect: "running s = None \<Longrightarrow> cm_held c s = {} \<Longrightarrow>
      \<exists>i. running (cm_effect c False now s) = Some i \<and> cm_held c (cm_effect c False now s) = {i}"
    and cleanup: "cm_held c s = set_option (running s) \<Longrightarrow> running (cm_cleanup c s) = None \<and> cm_held c (cm_cleanup c s) = {}"
    and callback: "running s = Some i \<Longrightarrow> cm_held c s = {i} \<Longrightarrow>
      \<exists>j. running (cm_callback c i now s) = Some j \<and> cm_held c (cm_callback c i now s) = {j}"
    and render: "running (cm_render c x s) = running s \<and> cm_held c (cm_render c x s) = cm_held c s \<and> still (cm_render c x s) = still s"
begin

lemma effect_ok:
  assumes "running s = None" and "cm_held c s = {}"
  shows "view_ok c running still \<lparr>vw_mounted = True, vw_reduced = r, vw_state = cm_effect c r now s\<rparr>"
  using still_effect [OF assms, of now] moving_effect [OF assms, of now] by (cases r) (auto simp: view_ok_def)

lemma step_keeps: "view_ok c running still v \<Longrightarrow> view_ok c running still (view_step c v ev)"
proof (cases ev)
  case (PreferenceChanged r now)
  assume "view_ok c running still v"
  then have "running (cm_cleanup c (vw_state v)) = None \<and> cm_held c (cm_cleanup c (vw_state v)) = {}"
    using cleanup by (auto simp: view_ok_def)
  then show ?thesis using effect_ok [of "cm_cleanup c (vw_state v)" r now] \<open>view_ok c running still v\<close> PreferenceChanged
    by (cases v) (auto simp: view_step_def)
next
  case (Callback i now)
  assume "view_ok c running still v"
  then show ?thesis using callback [of "vw_state v" i now] Callback by (auto simp: view_ok_def view_step_def)
next
  case (Rendered x)
  assume "view_ok c running still v"
  then show ?thesis using render Rendered by (auto simp: view_ok_def view_step_def)
next
  case Unmounted
  assume "view_ok c running still v"
  then show ?thesis using cleanup [of "vw_state v"] Unmounted by (auto simp: view_ok_def view_step_def)
qed

lemma run_keeps: "view_ok c running still v \<Longrightarrow> view_ok c running still (view_run c v evs)"
  by (induction evs arbitrary: v) (simp_all add: view_run_def step_keeps)

lemma mounted_run:
  assumes "running s = None" and "cm_held c s = {}"
  shows "view_ok c running still (view_run c (mount_view c r now s) evs)"
  using run_keeps effect_ok [OF assms] by (simp add: mount_view_def)

end

section \<open>The moon\<close>

record moon_state =
  md_text :: utf16 \<comment> \<open>the content of the \<open>pre\<close>\<close>
  md_loop :: "(nat \<times> moon) option" \<comment> \<open>\<open>raf\<close> and the variables of the running effect\<close>
  md_frames :: "nat set" \<comment> \<open>animation frames the browser was asked for\<close>
  md_next :: nat
  md_speed :: rat \<comment> \<open>\<open>speedRef\<close>\<close>

definition moon_options :: "(rat \<Rightarrow> rat) \<Rightarrow> nat \<Rightarrow> nat \<Rightarrow> rat \<Rightarrow> AsciiSphereOptions" where
  \<comment> \<open>with the defaults of \<open>renderAsciiSphere\<close>\<close>
  "moon_options fl cols rows spin = \<lparr>sp_cols = cols, sp_rows = rows, sp_spin = spin,
     sp_tilt = fl (42 / 100), sp_scale = fl (92 / 100), sp_ambient = fl (6 / 100)\<rparr>"

definition moon_frame :: "(rat \<Rightarrow> rat) \<Rightarrow> math \<Rightarrow> nat \<Rightarrow> nat \<Rightarrow> rat \<Rightarrow> utf16" where
  "moon_frame fl mt cols rows spin = renderAsciiSphere fl mt (moon_options fl cols rows spin)"

definition request_frame :: "moon \<Rightarrow> moon_state \<Rightarrow> moon_state" where
  "request_frame m s = s\<lparr>md_loop := Some (md_next s, m), md_frames := insert (md_next s) (md_frames s), md_next := md_next s + 1\<rparr>"

definition moon_effect :: "(rat \<Rightarrow> rat) \<Rightarrow> math \<Rightarrow> nat \<Rightarrow> nat \<Rightarrow> bool \<Rightarrow> rat \<Rightarrow> moon_state \<Rightarrow> moon_state" where
  "moon_effect fl mt cols rows reduced now s =
     (if reduced then s\<lparr>md_text := moon_frame fl mt cols rows (fl (6 / 10))\<rparr> else request_frame (new_moon fl now) s)"

definition moon_cleanup :: "moon_state \<Rightarrow> moon_state" where
  \<comment> \<open>of a still moon there is nothing to cancel\<close>
  "moon_cleanup s = (case md_loop s of None \<Rightarrow> s | Some (raf, m) \<Rightarrow> s\<lparr>md_loop := None, md_frames := md_frames s - {raf}\<rparr>)"

definition moon_callback :: "(rat \<Rightarrow> rat) \<Rightarrow> math \<Rightarrow> nat \<Rightarrow> nat \<Rightarrow> nat \<Rightarrow> rat \<Rightarrow> moon_state \<Rightarrow> moon_state" where
  \<comment> \<open>\<open>tick\<close>, called once for every frame asked for\<close>
  "moon_callback fl mt cols rows i now s = (let s' = s\<lparr>md_frames := md_frames s - {i}\<rparr>
     in case md_loop s of
          None \<Rightarrow> s'
        | Some (raf, m) \<Rightarrow> (case moon_tick fl (md_speed s) now m of
              (m', None) \<Rightarrow> request_frame m' s'
            | (m', Some spin) \<Rightarrow> (request_frame m' s')\<lparr>md_text := moon_frame fl mt cols rows spin\<rparr>))"

definition moon_component :: "(rat \<Rightarrow> rat) \<Rightarrow> math \<Rightarrow> nat \<Rightarrow> nat \<Rightarrow> moon_state component" where
  "moon_component fl mt cols rows = \<lparr>cm_effect = moon_effect fl mt cols rows, cm_cleanup = moon_cleanup,
     cm_callback = moon_callback fl mt cols rows, cm_held = md_frames, cm_render = (\<lambda>speed s. s\<lparr>md_speed := speed\<rparr>)\<rparr>"

definition new_moon_state :: "rat \<Rightarrow> moon_state" where
  "new_moon_state speed = \<lparr>md_text = [], md_loop = None, md_frames = {}, md_next = 1, md_speed = speed\<rparr>"

section \<open>The night sky\<close>

record sky_state =
  sk_text :: utf16
  sk_timer :: "(nat \<times> rat) option" \<comment> \<open>\<open>id\<close> and \<open>start\<close> of the running effect\<close>
  sk_timers :: "nat set" \<comment> \<open>intervals that are set\<close>
  sk_next :: nat

definition PAINT_INTERVAL_MS :: nat where "PAINT_INTERVAL_MS = 250"

definition paint :: "(rat \<Rightarrow> rat) \<Rightarrow> math \<Rightarrow> nat \<Rightarrow> nat \<Rightarrow> star list \<Rightarrow> rat \<Rightarrow> sky_state \<Rightarrow> sky_state" where
  "paint fl mt cols rows stars t s = s\<lparr>sk_text := join_lines (star_lines fl mt cols rows stars t)\<rparr>"

definition sky_effect :: "(rat \<Rightarrow> rat) \<Rightarrow> math \<Rightarrow> nat \<Rightarrow> nat \<Rightarrow> star list \<Rightarrow> bool \<Rightarrow> rat \<Rightarrow> sky_state \<Rightarrow> sky_state" where
  "sky_effect fl mt cols rows stars reduced now s = (let s' = paint fl mt cols rows stars 0 s
     in if reduced then s'
        else s'\<lparr>sk_timer := Some (sk_next s', now), sk_timers := insert (sk_next s') (sk_timers s'), sk_next := sk_next s' + 1\<rparr>)"

definition sky_cleanup :: "sky_state \<Rightarrow> sky_state" where
  "sky_cleanup s = (case sk_timer s of None \<Rightarrow> s | Some (i, start) \<Rightarrow> s\<lparr>sk_timer := None, sk_timers := sk_timers s - {i}\<rparr>)"

definition sky_callback :: "(rat \<Rightarrow> rat) \<Rightarrow> math \<Rightarrow> nat \<Rightarrow> nat \<Rightarrow> star list \<Rightarrow> nat \<Rightarrow> rat \<Rightarrow> sky_state \<Rightarrow> sky_state" where
  "sky_callback fl mt cols rows stars i now s = (case sk_timer s of
       None \<Rightarrow> s
     | Some (j, start) \<Rightarrow> paint fl mt cols rows stars (fl (fl (now - start) / 900)) s)"

definition sky_component :: "(rat \<Rightarrow> rat) \<Rightarrow> math \<Rightarrow> nat \<Rightarrow> nat \<Rightarrow> nat \<Rightarrow> sky_state component" where
  \<comment> \<open>the stars are memoised: they are built once for their number and the grid\<close>
  "sky_component fl mt cols rows cnt = (let stars = buildStars fl mt cols rows cnt
     in \<lparr>cm_effect = sky_effect fl mt cols rows stars, cm_cleanup = sky_cleanup,
         cm_callback = sky_callback fl mt cols rows stars, cm_held = sk_timers, cm_render = (\<lambda>_ s. s)\<rparr>)"

definition new_sky_state :: sky_state where
  "new_sky_state = \<lparr>sk_text = [], sk_timer = None, sk_timers = {}, sk_next = 1\<rparr>"

section \<open>Motion follows the setting\<close>

definition moon_still :: "(rat \<Rightarrow> rat) \<Rightarrow> math \<Rightarrow> nat \<Rightarrow> nat \<Rightarrow> moon_state \<Rightarrow> bool" where
  "moon_still fl mt cols rows s \<longleftrightarrow> md_text s = moon_frame fl mt cols rows (fl (6 / 10))"

definition sky_still :: "(rat \<Rightarrow> rat) \<Rightarrow> math \<Rightarrow> nat \<Rightarrow> nat \<Rightarrow> nat \<Rightarrow> sky_state \<Rightarrow> bool" where
  "sky_still fl mt cols rows cnt s \<longleftrightarrow> sk_text s = join_lines (star_lines fl mt cols rows (buildStars fl mt cols rows cnt) 0)"

interpretation moon_moves: animation "moon_component fl mt cols rows" "\<lambda>s. map_option fst (md_loop s)" "moon_still fl mt cols rows"
  for fl mt cols rows
  by unfold_locales
    (auto simp: moon_component_def moon_effect_def moon_cleanup_def moon_callback_def request_frame_def moon_still_def Let_def
      split: option.splits prod.splits)

interpretation sky_moves: animation "sky_component fl mt cols rows cnt" "\<lambda>s. map_option fst (sk_timer s)" "sky_still fl mt cols rows cnt"
  for fl mt cols rows cnt
  by unfold_locales
    (auto simp: sky_component_def sky_effect_def sky_cleanup_def sky_callback_def paint_def sky_still_def Let_def
      split: option.splits prod.splits)

text \<open>Whatever happens to a page - the setting changes while it is open, the rate of the moon is
  set again with every poll, callbacks come early or late, the page is left - the browser
  holds exactly one callback for the moon and one for the sky while the page is shown and
  motion is wanted, and none otherwise; and with reduced motion both show their still picture.\<close>

lemma motion_follows_setting:
  assumes "v = view_run (moon_component fl mt cols rows) (mount_view (moon_component fl mt cols rows) r now (new_moon_state speed)) evs"
    and "w = view_run (sky_component fl mt cols' rows' cnt) (mount_view (sky_component fl mt cols' rows' cnt) r now new_sky_state) evs"
  shows "card (md_frames (vw_state v)) = (if vw_mounted v \<and> \<not> vw_reduced v then 1 else 0) \<and>
    card (sk_timers (vw_state w)) = (if vw_mounted w \<and> \<not> vw_reduced w then 1 else 0) \<and>
    (vw_mounted v \<and> vw_reduced v \<longrightarrow> md_text (vw_state v) = moon_frame fl mt cols rows (fl (6 / 10))) \<and>
    (vw_mounted w \<and> vw_reduced w \<longrightarrow>
       sk_text (vw_state w) = join_lines (star_lines fl mt cols' rows' (buildStars fl mt cols' rows' cnt) 0))"
proof -
  have "view_ok (moon_component fl mt cols rows) (\<lambda>s. map_option fst (md_loop s)) (moon_still fl mt cols rows) v"
    unfolding assms(1) by (rule moon_moves.mounted_run) (simp_all add: new_moon_state_def moon_component_def)
  moreover have "view_ok (sky_component fl mt cols' rows' cnt) (\<lambda>s. map_option fst (sk_timer s)) (sky_still fl mt cols' rows' cnt) w"
    unfolding assms(2) by (rule sky_moves.mounted_run) (simp_all add: new_sky_state_def sky_component_def Let_def)
  ultimately show ?thesis
    by (auto simp: view_ok_def moon_component_def sky_component_def moon_still_def sky_still_def Let_def)
qed

section \<open>Tones\<close>

datatype context_state = Suspended | Playing | Closed

datatype audio_class = Missing | Throwing | Makes context_state \<comment> \<open>the state of a new context\<close>

record audio =
  au_ctx :: "context_state option"
  au_resumes :: nat \<comment> \<open>calls of \<open>resume\<close>\<close>

definition getContext :: "audio_class \<Rightarrow> audio \<Rightarrow> audio \<times> bool" where
  \<comment> \<open>whether there is a context to play in\<close>
  "getContext cls a = (case (case au_ctx a of Some st \<Rightarrow> Some st | None \<Rightarrow> (case cls of Makes st \<Rightarrow> Some st | _ \<Rightarrow> None)) of
       None \<Rightarrow> (a, False)
     | Some st \<Rightarrow> (a\<lparr>au_ctx := Some st, au_resumes := au_resumes a + (if st = Suspended then 1 else 0)\<rparr>, True))"

datatype gain_event = SetValueAtTime rat rat | ExponentialRampToValueAtTime rat rat \<comment> \<open>value and time\<close>

record tone =
  tn_type :: jsstring
  tn_frequency :: nat
  tn_gain :: "gain_event list"
  tn_start :: rat
  tn_stop :: rat

definition blip :: "(rat \<Rightarrow> rat) \<Rightarrow> rat \<Rightarrow> LogKind \<Rightarrow> tone" where
  "blip fl now kind = \<lparr>tn_type = ''square'', tn_frequency = FREQ_HZ kind,
     tn_gain = [SetValueAtTime (fl (1 / 10000)) now, ExponentialRampToValueAtTime (fl (6 / 100)) (fl (now + fl (1 / 100))),
       ExponentialRampToValueAtTime (fl (1 / 10000)) (fl (now + fl (12 / 100)))],
     tn_start = now, tn_stop = fl (now + fl (13 / 100))\<rparr>"

definition sound_tone :: "(rat \<Rightarrow> rat) \<Rightarrow> audio_class \<Rightarrow> rat \<Rightarrow> LogKind \<Rightarrow> sound \<Rightarrow> audio \<Rightarrow> audio \<times> tone option" where
  \<comment> \<open>\<open>playBlip\<close>; \<open>now\<close> is the context's \<open>currentTime\<close>\<close>
  "sound_tone fl cls now kind so a = (if \<not> so_enabled so then (a, None)
     else case getContext cls a of (a', ok) \<Rightarrow> (a', if ok then Some (blip fl now kind) else None))"

definition log_and_play :: "(rat \<Rightarrow> rat) \<Rightarrow> audio_class \<Rightarrow> sound \<Rightarrow> op_log \<times> audio \<times> tone list \<Rightarrow> (time_ms \<times> rat) \<times> LogKind \<times> utf16 \<Rightarrow>
    op_log \<times> audio \<times> tone list" where
  \<comment> \<open>\<open>logEvent\<close> with both clocks: the event is kept, then played\<close>
  "log_and_play fl cls so st ev = (case (st, ev) of ((l, a, tones), (day, now), kind, t) \<Rightarrow>
     (case sound_tone fl cls now kind so a of (a', tn) \<Rightarrow> (logEvent day kind t l, a', tones @ (case tn of None \<Rightarrow> [] | Some x \<Rightarrow> [x]))))"

lemma tone_of_blip: "map_option tn_frequency (snd (sound_tone fl cls now kind so a)) = playBlip (snd (getContext cls a)) kind so"
  by (simp add: sound_tone_def playBlip_def blip_def split: prod.split)

text \<open>With the sound on and audio at hand every event of the log is played, in order, at the
  pitch of its kind; with the sound off nothing is, and no context is made.\<close>

lemma log_is_played:
  assumes "foldl (log_and_play fl cls so) (l, a, []) evs = (l', a', tones)"
  shows "map tn_frequency tones = (if so_enabled so \<and> snd (getContext cls a) then map (\<lambda>ev. FREQ_HZ (fst (snd ev))) evs else []) \<and>
    (\<not> so_enabled so \<longrightarrow> a' = a)"
proof -
  have "map tn_frequency tones = map tn_frequency ts @
        (if so_enabled so \<and> snd (getContext cls a) then map (\<lambda>ev. FREQ_HZ (fst (snd ev))) evs else []) \<and> (\<not> so_enabled so \<longrightarrow> a' = a)"
    if "foldl (log_and_play fl cls so) (l, a, ts) evs = (l', a', tones)" for l a ts
    using that
  proof (induction evs arbitrary: l a ts)
    case (Cons ev evs)
    obtain day now kind t where ev: "ev = ((day, now), kind, t)" by (metis prod.exhaust)
    obtain a1 ok where g: "getContext cls a = (a1, ok)" by force
    have again: "snd (getContext cls a1) = ok"
      using g by (auto simp: getContext_def split: option.splits audio_class.splits)
    show ?case
      using Cons.prems Cons.IH [of "logEvent day kind t l" a ts]
        Cons.IH [of "logEvent day kind t l" a1 "ts @ (if ok then [blip fl now kind] else [])"] again
      by (cases "so_enabled so") (auto simp: log_and_play_def sound_tone_def ev g blip_def split: if_splits)
  qed simp
  from this [OF assms] show ?thesis by simp
qed

text \<open>A tone is a schedule that can be played: its times do not go back, its levels are positive, as
  exponential ramps require, and never above the peak, and it has faded before it is cut off.\<close>

primrec gain_time :: "gain_event \<Rightarrow> rat" where
  "gain_time (SetValueAtTime x t) = t"
| "gain_time (ExponentialRampToValueAtTime x t) = t"

primrec gain_value :: "gain_event \<Rightarrow> rat" where
  "gain_value (SetValueAtTime x t) = x"
| "gain_value (ExponentialRampToValueAtTime x t) = x"

lemma tone_playable:
  assumes "rounds fl" and "fl now = now" and "0 < fl (1 / 10000)"
  shows "sorted (tn_start (blip fl now k) # map gain_time (tn_gain (blip fl now k)) @ [tn_stop (blip fl now k)]) \<and>
    (\<forall>g \<in> set (tn_gain (blip fl now k)). 0 < gain_value g \<and> gain_value g \<le> fl (6 / 100)) \<and>
    gain_value (last (tn_gain (blip fl now k))) = fl (1 / 10000)"
proof -
  have m: "x \<le> y \<Longrightarrow> fl x \<le> fl y" for x y using assms(1) by (simp add: rounds_def mono_def)
  have "fl (of_int 0) = of_int 0" using assms(1) unfolding rounds_def by (metis abs_zero zero_le_numeral zero_le_power)
  then have "0 \<le> fl (1 / 100)" using m [of 0 "1 / 100"] by simp
  then have "now \<le> fl (now + fl (1 / 100))" using m [of now "now + fl (1 / 100)"] assms(2) by simp
  moreover have "fl (now + fl (1 / 100)) \<le> fl (now + fl (12 / 100))" "fl (now + fl (12 / 100)) \<le> fl (now + fl (13 / 100))"
    by (intro m add_left_mono; simp)+
  moreover have "fl (1 / 10000) \<le> fl (6 / 100)" by (rule m) simp
  ultimately show ?thesis using assms(3) by (auto simp: blip_def)
qed

end
