(* ===== verification/Bench.thy ===== *)
theory Bench
  imports ConsoleSpec NodeProcess
begin

text \<open>
  The benchmark scripts, \<open>scripts/benchmark.ts\<close> and \<open>scripts/benchmark-external.ts\<close>, as far as they
  drive the modelled node: waiting for a server, the keys and requests of the load, and the
  accounts of the workers. Random numbers, clock readings and answers are inputs; what the
  scripts start and stop around the load is in \<open>BenchPolicies\<close> and \<open>BenchBackends\<close>.
\<close>

section \<open>Waiting for a server\<close>

datatype wait_result = Ready | TimedOut | Waiting

fun waitForHealth :: "time_ms \<Rightarrow> time_ms \<Rightarrow> (time_ms \<times> bool) list \<Rightarrow> wait_result" where
  \<comment> \<open>\<open>benchmark.ts\<close>: of every round the clock at its test, and whether the poll is answered with \<open>ok\<close>\<close>
  "waitForHealth start timeoutMs [] = Waiting"
| "waitForHealth start timeoutMs ((now, ok) # rounds) =
     (if now - start < timeoutMs then if ok then Ready else waitForHealth start timeoutMs rounds else TimedOut)"

fun poll :: "time_ms \<Rightarrow> time_ms \<Rightarrow> (time_ms \<times> bool) list \<Rightarrow> wait_result" where
  \<comment> \<open>\<open>waitForHealth\<close> of \<open>benchmark-external.ts\<close>: the clock is read after a poll that failed\<close>
  "poll start timeoutMs [] = Waiting"
| "poll start timeoutMs ((now, ok) # rounds) =
     (if ok then Ready else if timeoutMs < now - start then TimedOut else poll start timeoutMs rounds)"

definition waitUntilReady :: "time_ms \<Rightarrow> time_ms \<Rightarrow> (time_ms \<times> bool) list \<Rightarrow> wait_result" where
  \<comment> \<open>the same loop around \<open>check\<close>: whether it resolves, and the clock after it did not\<close>
  "waitUntilReady start timeoutMs checks = poll start timeoutMs checks"

section \<open>The load\<close>

definition POOL_SIZE :: nat where "POOL_SIZE = 800"

definition bench_key :: "nat \<Rightarrow> jsstring" where
  "bench_key i = ''bench:key:'' @ show_nat i"

definition bench_skewedKey :: "rat \<Rightarrow> jsstring" where
  \<comment> \<open>\<open>x\<close> is the product \<open>POOL_SIZE * Math.pow(Math.random(), 2.4)\<close>\<close>
  "bench_skewedKey x = bench_key (nat \<lfloor>x\<rfloor>)"

definition VALUE :: jsstring where
  "VALUE = replicate 64 CHR ''x''"

definition DURATION_S :: rat where "DURATION_S = 8"

definition CONCURRENCY :: nat where "CONCURRENCY = 20"

definition WRITE_PROB :: rat where "WRITE_PROB = 15 / 100"

datatype bench_request = BenchSet jsstring | BenchGet jsstring | BenchHealth | BenchMetrics

definition seed :: "bench_request list" where
  "seed = map (\<lambda>i. BenchSet (bench_key i)) [0..<POOL_SIZE]"

definition setupRequest :: "rat \<Rightarrow> rat \<Rightarrow> bench_request" where
  \<comment> \<open>\<open>r\<close> is the random number of the test, \<open>x\<close> the product of \<open>skewedKey\<close>\<close>
  "setupRequest r x = (if r < WRITE_PROB then BenchSet (bench_skewedKey x) else BenchGet (bench_skewedKey x))"

definition bench_http :: "jsstring option \<Rightarrow> bench_request \<Rightarrow> http_request" where
  "bench_http ip b = (case b of
       BenchSet k \<Rightarrow> \<lparr>rq_route = SetR, rq_path = ''/set'', rq_headers = (\<lambda>_. None), rq_ip = ip,
         rq_body = Parsed (Some (JObj [(''key'', JStr k), (''value'', JStr VALUE)]))\<rparr>
     | BenchGet k \<Rightarrow> \<lparr>rq_route = GetR k, rq_path = ''/get/'' @ k, rq_headers = (\<lambda>_. None), rq_ip = ip, rq_body = Parsed None\<rparr>
     | BenchHealth \<Rightarrow> \<lparr>rq_route = HealthR, rq_path = ''/health'', rq_headers = (\<lambda>_. None), rq_ip = ip, rq_body = Parsed None\<rparr>
     | BenchMetrics \<Rightarrow> \<lparr>rq_route = MetricsR, rq_path = ''/metrics'', rq_headers = (\<lambda>_. None), rq_ip = ip, rq_body = Parsed None\<rparr>)"

definition bench_env :: "nat \<Rightarrow> jsstring option \<Rightarrow> nat \<Rightarrow> env \<Rightarrow> env" where
  \<comment> \<open>the variables a node is spawned with; \<open>benchmark.ts\<close> also names a policy\<close>
  "bench_env port pol mx env =
     (let e = env(''INKCACHE_PORT'' \<mapsto> show_nat port)
      in (case pol of None \<Rightarrow> e | Some p \<Rightarrow> e(''INKCACHE_EVICTION_POLICY'' \<mapsto> p))(''INKCACHE_MAX_ENTRIES'' \<mapsto> show_nat mx))"

section \<open>The workers\<close>

datatype worker =
  AtTest | Getting rat | Setting rat \<comment> \<open>the reading of \<open>performance.now\<close> at the start\<close> | Stopped

record pool =
  pl_workers :: "worker list"
  pl_ops :: nat
  pl_totalLatencyMs :: rat
  pl_hits :: nat
  pl_reads :: nat

definition new_pool :: "nat \<Rightarrow> pool" where
  "new_pool n = \<lparr>pl_workers = replicate n AtTest, pl_ops = 0, pl_totalLatencyMs = 0, pl_hits = 0, pl_reads = 0\<rparr>"

datatype pool_event =
  LoopTest nat time_ms rat rat \<comment> \<open>worker, \<open>Date.now()\<close>, \<open>performance.now()\<close>, \<open>Math.random()\<close>\<close>
  | Answered nat bool rat \<comment> \<open>worker, what \<open>get\<close> resolves to, \<open>performance.now()\<close>\<close>

fun pool_enabled :: "pool \<Rightarrow> pool_event \<Rightarrow> bool" where
  "pool_enabled p (LoopTest i now start r) \<longleftrightarrow> i < length (pl_workers p) \<and> pl_workers p ! i = AtTest"
| "pool_enabled p (Answered i hit now) \<longleftrightarrow>
     i < length (pl_workers p) \<and> pl_workers p ! i \<noteq> AtTest \<and> pl_workers p ! i \<noteq> Stopped"

definition to_worker :: "nat \<Rightarrow> worker \<Rightarrow> pool \<Rightarrow> pool" where
  "to_worker i w p = p\<lparr>pl_workers := (pl_workers p)[i := w]\<rparr>"

definition op_done :: "rat \<Rightarrow> pool \<Rightarrow> pool" where
  "op_done lat p = p\<lparr>pl_totalLatencyMs := pl_totalLatencyMs p + lat, pl_ops := pl_ops p + 1\<rparr>"

fun pool_step :: "time_ms \<Rightarrow> pool \<Rightarrow> pool_event \<Rightarrow> pool" where
  \<comment> \<open>one turn of the event loop in a worker; events that no worker waits for do not occur\<close>
  "pool_step end_at p (LoopTest i now start r) =
     (if now < end_at
      then if r < WRITE_PROB then to_worker i (Setting start) p
           else to_worker i (Getting start) (p\<lparr>pl_reads := pl_reads p + 1\<rparr>)
      else to_worker i Stopped p)"
| "pool_step end_at p (Answered i hit now) = (case pl_workers p ! i of
       Getting start \<Rightarrow> to_worker i AtTest (op_done (now - start) (p\<lparr>pl_hits := pl_hits p + (if hit then 1 else 0)\<rparr>))
     | Setting start \<Rightarrow> to_worker i AtTest (op_done (now - start) p)
     | _ \<Rightarrow> p)"

definition pool_run :: "time_ms \<Rightarrow> pool \<Rightarrow> pool_event list \<Rightarrow> pool" where
  "pool_run end_at p evs = foldl (pool_step end_at) p evs"

fun pool_trace :: "time_ms \<Rightarrow> pool \<Rightarrow> pool_event list \<Rightarrow> bool" where
  \<comment> \<open>every event is one that some worker waits for\<close>
  "pool_trace end_at p [] = True"
| "pool_trace end_at p (ev # evs) \<longleftrightarrow> pool_enabled p ev \<and> pool_trace end_at (pool_step end_at p ev) evs"

definition runWorkload :: "pool \<Rightarrow> (rat \<times> rat \<times> rat option) option" where
  \<comment> \<open>\<open>opsPerSec\<close>, \<open>avgLatencyMs\<close> and \<open>hitRate\<close>, once \<open>Promise.all\<close> has every worker\<close>
  "runWorkload p = (if \<forall>w \<in> set (pl_workers p). w = Stopped
     then Some (of_nat (pl_ops p) / DURATION_S,
       if 0 < pl_ops p then pl_totalLatencyMs p / of_nat (pl_ops p) else 0,
       if 0 < pl_reads p then Some (of_nat (pl_hits p) / of_nat (pl_reads p)) else None)
     else None)"

section \<open>Waiting ends\<close>

lemma wait_not_waiting:
  assumes "j < length rounds" and "start + timeoutMs \<le> fst (rounds ! j)"
  shows "waitForHealth start timeoutMs rounds \<noteq> Waiting"
  using assms
proof (induction start timeoutMs rounds arbitrary: j rule: waitForHealth.induct)
  case (2 start timeoutMs now ok rounds)
  then show ?case by (cases j) auto
qed simp

lemma poll_not_waiting:
  assumes "j < length rounds" and "start + timeoutMs < fst (rounds ! j)"
  shows "poll start timeoutMs rounds \<noteq> Waiting"
  using assms
proof (induction start timeoutMs rounds arbitrary: j rule: poll.induct)
  case (2 start timeoutMs now ok rounds)
  then show ?case by (cases j) auto
qed simp

lemma wait_ready: "waitForHealth start timeoutMs rounds = Ready \<longleftrightarrow>
    (\<exists>i < length rounds. snd (rounds ! i) \<and> (\<forall>j \<le> i. fst (rounds ! j) < start + timeoutMs))"
proof (induction start timeoutMs rounds rule: waitForHealth.induct)
  case (2 start timeoutMs now ok rounds)
  show ?case
    using 2 by (auto simp: Ex_less_Suc2 All_less_Suc2 less_Suc_eq_le [symmetric])
qed simp

lemma poll_ready: "poll start timeoutMs rounds = Ready \<longleftrightarrow>
    (\<exists>i < length rounds. snd (rounds ! i) \<and> (\<forall>j < i. fst (rounds ! j) \<le> start + timeoutMs))"
proof (induction start timeoutMs rounds rule: poll.induct)
  case (2 start timeoutMs now ok rounds)
  show ?case
    using 2 by (auto simp: Ex_less_Suc2 All_less_Suc2 not_less)
qed simp

text \<open>Waiting for a server ends: when each round of polling takes at least \<open>d\<close> milliseconds
  and the rounds together outlast the timeout, both loops have returned or thrown, and they
  have returned exactly when a poll was answered \<open>ok\<close> in time - for \<open>waitForHealth\<close> of
  \<open>benchmark.ts\<close>, which reads the clock before a poll, one that started before the timeout, and
  for the loops of \<open>benchmark-external.ts\<close>, which read it after one that failed, one that no
  overdue poll came before.\<close>

lemma waiting_ends:
  assumes "0 < d" and "\<forall>i < length rounds. start + int i * d \<le> fst (rounds ! i)"
    and "timeoutMs < (int (length rounds) - 1) * d" and "rounds \<noteq> []"
  shows "waitForHealth start timeoutMs rounds \<noteq> Waiting \<and> poll start timeoutMs rounds \<noteq> Waiting \<and>
    (waitForHealth start timeoutMs rounds = Ready \<longleftrightarrow>
      (\<exists>i < length rounds. snd (rounds ! i) \<and> (\<forall>j \<le> i. fst (rounds ! j) < start + timeoutMs))) \<and>
    (poll start timeoutMs rounds = Ready \<longleftrightarrow>
      (\<exists>i < length rounds. snd (rounds ! i) \<and> (\<forall>j < i. fst (rounds ! j) \<le> start + timeoutMs)))"
proof -
  let ?n = "length rounds - 1"
  have n: "?n < length rounds" "int ?n = int (length rounds) - 1" using assms(4) by (cases rounds; simp)+
  have "start + int ?n * d \<le> fst (rounds ! ?n)" using assms(2) n(1) by blast
  then have "start + timeoutMs < fst (rounds ! ?n)" using assms(3) n(2) by simp
  then show ?thesis
    using wait_not_waiting [OF n(1), of start timeoutMs] poll_not_waiting [OF n(1), of start timeoutMs] wait_ready poll_ready by simp
qed

lemma waiting_ends_witness:
  "waitForHealth 0 150 [(0, False), (100, False), (200, True)] = TimedOut \<and>
   poll 0 150 [(0, False), (100, False), (200, True)] = Ready"
  using waiting_ends [of 100 "[(0, False), (100, False), (200, True)]" 0 150]
  by (simp add: Ex_less_Suc2 All_less_Suc2 numeral_eq_Suc)

section \<open>The workload winds down\<close>

primrec turns_left :: "worker \<Rightarrow> nat" where
  "turns_left AtTest = 1"
| "turns_left (Getting s) = 2"
| "turns_left (Setting s) = 2"
| "turns_left Stopped = 0"

definition pool_measure :: "pool \<Rightarrow> nat" where
  "pool_measure p = sum_list (map turns_left (pl_workers p))"

fun past :: "time_ms \<Rightarrow> pool_event \<Rightarrow> bool" where
  "past end_at (LoopTest i now start r) \<longleftrightarrow> end_at \<le> now"
| "past end_at (Answered i hit now) \<longleftrightarrow> True"

lemma sum_list_update_less:
  "i < length xs \<Longrightarrow> f w < f (xs ! i) \<Longrightarrow> sum_list (map f (xs[i := w])) < (sum_list (map f xs) :: nat)"
  by (induction xs arbitrary: i) (auto split: nat.splits)

lemma op_done_workers [simp]: "pl_workers (op_done lat p) = pl_workers p"
  by (simp add: op_done_def)

lemma to_worker_workers [simp]: "pl_workers (to_worker i w p) = (pl_workers p)[i := w]"
  by (simp add: to_worker_def)

lemma turns_down:
  assumes "pool_enabled p ev" and "past end_at ev"
  shows "pool_measure (pool_step end_at p ev) < pool_measure p"
  using assms
  by (cases ev) (auto simp: pool_measure_def split: worker.splits intro: sum_list_update_less)

lemma trace_bounded:
  assumes "pool_trace end_at p evs" and "\<forall>ev \<in> set evs. past end_at ev"
  shows "length evs + pool_measure (pool_run end_at p evs) \<le> pool_measure p"
  using assms
proof (induction evs arbitrary: p)
  case (Cons ev evs)
  then show ?case using turns_down [of p ev end_at] by (fastforce simp: pool_run_def)
qed (simp add: pool_run_def)

lemma pool_length: "length (pl_workers (pool_run end_at p evs)) = length (pl_workers p)"
proof (induction evs arbitrary: p)
  case (Cons ev evs)
  have "length (pl_workers (pool_step end_at p ev)) = length (pl_workers p)"
    by (cases ev) (auto split: worker.splits)
  then show ?case using Cons.IH [of "pool_step end_at p ev"] by (simp add: pool_run_def)
qed (simp add: pool_run_def)

lemma measure_le: "pool_measure p \<le> 2 * length (pl_workers p)"
proof -
  have le: "turns_left w \<le> 2" for w by (cases w) simp_all
  have "sum_list (map turns_left ws) \<le> 2 * length ws" for ws
  proof (induction ws)
    case (Cons w ws)
    then show ?case using le [of w] by simp
  qed simp
  then show ?thesis by (simp add: pool_measure_def)
qed

lemma settled_or_enabled: "runWorkload p \<noteq> None \<or> (\<exists>i. (\<exists>now s r. pool_enabled p (LoopTest i now s r)) \<or> (\<exists>hit now. pool_enabled p (Answered i hit now)))"
proof (cases "\<forall>w \<in> set (pl_workers p). w = Stopped")
  case False
  then obtain i where "i < length (pl_workers p)" "pl_workers p ! i \<noteq> Stopped" by (auto simp: in_set_conv_nth)
  then show ?thesis by (cases "pl_workers p ! i = AtTest") auto
qed (simp add: runWorkload_def)

text \<open>The accounts: reads are those answered and those in flight, and no more hits than answered reads.\<close>

definition in_flight :: "(worker \<Rightarrow> bool) \<Rightarrow> pool \<Rightarrow> nat" where
  "in_flight P p = length (filter P (pl_workers p))"

definition is_getting :: "worker \<Rightarrow> bool" where
  "is_getting w = (case w of Getting s \<Rightarrow> True | _ \<Rightarrow> False)"

definition pool_ok :: "pool \<Rightarrow> bool" where
  "pool_ok p \<longleftrightarrow> pl_hits p + in_flight is_getting p \<le> pl_reads p \<and> pl_reads p \<le> pl_ops p + in_flight is_getting p"

lemma is_getting_simps [simp]: "is_getting (Getting s)" "\<not> is_getting (Setting s)" "\<not> is_getting AtTest" "\<not> is_getting Stopped"
  by (simp_all add: is_getting_def)

lemma filter_update: "i < length xs \<Longrightarrow> length (filter P (xs[i := w])) + (if P (xs ! i) then 1 else 0) =
    length (filter P xs) + (if P w then 1 else 0)"
proof (induction xs arbitrary: i)
  case (Cons x xs)
  then show ?case using Cons.IH [of "i - 1"] by (cases i) (simp_all split: if_splits)
qed simp

lemma pool_step_ok:
  assumes "pool_ok p" and "pool_enabled p ev"
  shows "pool_ok (pool_step end_at p ev)"
proof (cases ev)
  case (LoopTest i now s r)
  then show ?thesis using assms filter_update [of i "pl_workers p" is_getting "Getting s"]
      filter_update [of i "pl_workers p" is_getting "Setting s"] filter_update [of i "pl_workers p" is_getting Stopped]
    by (auto simp: pool_ok_def in_flight_def to_worker_def)
next
  case (Answered i hit now)
  then show ?thesis using assms filter_update [of i "pl_workers p" is_getting AtTest]
    by (auto simp: pool_ok_def in_flight_def to_worker_def op_done_def split: worker.splits)
qed

lemma pool_run_ok: "pool_ok p \<Longrightarrow> pool_trace end_at p evs \<Longrightarrow> pool_ok (pool_run end_at p evs)"
  by (induction evs arbitrary: p) (simp_all add: pool_run_def pool_step_ok)

lemma new_pool_ok: "pool_ok (new_pool n)"
  by (simp add: pool_ok_def new_pool_def in_flight_def)

lemma pool_trace_append: "pool_trace end_at p (xs @ ys) \<longleftrightarrow> pool_trace end_at p xs \<and> pool_trace end_at (pool_run end_at p xs) ys"
  by (induction xs arbitrary: p) (simp_all add: pool_run_def)

lemma pool_run_append: "pool_run end_at p (xs @ ys) = pool_run end_at (pool_run end_at p xs) ys"
  by (simp add: pool_run_def)

text \<open>The measured workload ends, and its rates are rates: from any point of a run of \<open>n\<close>
  workers, at most two more turns per worker are taken once the clock has passed the end of
  the run, and while the workload has no result some worker has a turn to take - its loop test,
  or the answer it awaits; and the hit rate it then reports is between 0 and 1, missing exactly
  when nothing was read.\<close>

lemma workload_winds_down:
  assumes "pool_trace end_at (new_pool n) (evs @ late)" and "\<forall>ev \<in> set late. past end_at ev"
    and "p = pool_run end_at (new_pool n) (evs @ late)"
  shows "length late \<le> 2 * n \<and> (length late = 2 * n \<longrightarrow> runWorkload p \<noteq> None) \<and>
    (runWorkload p = None \<longrightarrow> (\<exists>i. (\<exists>now s r. pool_enabled p (LoopTest i now s r)) \<or> (\<exists>hit now. pool_enabled p (Answered i hit now)))) \<and>
    (\<forall>ops avg rate. runWorkload p = Some (ops, avg, rate) \<longrightarrow>
       (case rate of None \<Rightarrow> pl_reads p = 0 | Some x \<Rightarrow> 0 < pl_reads p \<and> 0 \<le> x \<and> x \<le> 1))"
proof -
  let ?q = "pool_run end_at (new_pool n) evs"
  have p: "p = pool_run end_at ?q late" using assms(3) by (simp add: pool_run_append)
  have "pool_trace end_at ?q late" using assms(1) by (simp add: pool_trace_append)
  from trace_bounded [OF this assms(2)] have b: "length late + pool_measure p \<le> 2 * n"
    using measure_le [of ?q] pool_length [of end_at "new_pool n" evs] by (simp add: p new_pool_def)
  have zero: "runWorkload p \<noteq> None" if "pool_measure p = 0"
  proof -
    have "w = Stopped" if "w \<in> set (pl_workers p)" for w
    proof -
      have "turns_left w = 0" using that \<open>pool_measure p = 0\<close> by (simp add: pool_measure_def)
      then show ?thesis by (cases w) simp_all
    qed
    then show ?thesis by (simp add: runWorkload_def)
  qed
  have ok: "pool_ok p" using pool_run_ok [OF new_pool_ok assms(1)] assms(3) by simp
  have "case rate of None \<Rightarrow> pl_reads p = 0 | Some x \<Rightarrow> 0 < pl_reads p \<and> 0 \<le> x \<and> x \<le> 1"
    if "runWorkload p = Some (ops, avg, rate)" for ops avg rate
    using that ok by (auto simp: runWorkload_def pool_ok_def divide_le_eq_1 split: if_splits)
  then show ?thesis using b zero settled_or_enabled [of p] by auto
qed

lemma workload_winds_down_witness:
  "runWorkload (pool_run 8000 (new_pool 1) ([LoopTest 0 0 0 (1/2)] @ [Answered 0 True 3, LoopTest 0 8001 9 0])) =
     Some (1 / 8, 3, Some 1)"
proof -
  let ?late = "[Answered 0 True 3, LoopTest 0 8001 9 0]"
  have "pool_trace 8000 (new_pool 1) ([LoopTest 0 0 0 (1/2)] @ ?late)"
    by (simp add: new_pool_def WRITE_PROB_def to_worker_def op_done_def)
  from workload_winds_down [OF this _ refl] show ?thesis
    by (simp add: pool_run_def new_pool_def WRITE_PROB_def to_worker_def op_done_def runWorkload_def DURATION_S_def)
qed

section \<open>The external benchmark never misses\<close>

definition pool_keys :: "jsstring set" where
  "pool_keys = bench_key ` {..<POOL_SIZE}"

fun from_pool :: "bench_request \<Rightarrow> bool" where
  "from_pool (BenchSet k) \<longleftrightarrow> k \<in> pool_keys"
| "from_pool (BenchGet k) \<longleftrightarrow> k \<in> pool_keys"
| "from_pool _ \<longleftrightarrow> True"

lemma pool_keys_small: "finite pool_keys" "card pool_keys \<le> 800"
  using card_image_le [of "{..<POOL_SIZE}" bench_key] by (simp_all add: pool_keys_def POOL_SIZE_def)

lemma numeral_length: "n < 10 ^ Suc k \<Longrightarrow> length (show_nat n) \<le> Suc k"
proof (induction k arbitrary: n)
  case (Suc k)
  then have "n div 10 < 10 ^ Suc k" by (simp add: less_mult_imp_div_less)
  then show ?case using Suc.IH [of "n div 10"] by (simp add: show_nat.simps [of n])
qed (simp add: show_nat.simps)

lemma pool_key_ok: "k \<in> pool_keys \<Longrightarrow> key_ok 256 k"
proof -
  assume "k \<in> pool_keys"
  then obtain i where i: "i < 800" "k = bench_key i" by (auto simp: pool_keys_def POOL_SIZE_def)
  then have "length (show_nat i) \<le> 3" using numeral_length [of i 2] by (simp add: numeral_3_eq_3)
  then show ?thesis using i(2) by (simp add: key_ok_def bench_key_def trim_def is_ws_def)
qed

definition quiet_env :: "env \<Rightarrow> bool" where
  \<comment> \<open>no variable of the calling shell turns requests away, makes the node a replica or lets it load a file\<close>
  "quiet_env env \<longleftrightarrow> env ''INKCACHE_API_KEY'' = None \<and> env ''INKCACHE_RATE_LIMIT'' = None \<and>
     env ''INKCACHE_ROLE'' = None \<and> env ''INKCACHE_MAX_KEY_LENGTH'' = None \<and> env ''INKCACHE_PERSIST_PATH'' = None"

definition reads_seeded :: "jsstring set \<Rightarrow> time_ms \<Rightarrow> node_app \<Rightarrow> bool" where
  "reads_seeded D t ap \<longleftrightarrow> cache_ok (ap_store ap) \<and> maxEntries (ap_store ap) = 10000 \<and> evictLog (ap_store ap) = [] \<and>
     stored_keys (ap_store ap) \<subseteq> pool_keys \<and> ap_limiter ap = None \<and> nr_role (ap_role ap) = Primary \<and>
     kv.represents t (ap_store ap) (\<lambda>k. if k \<in> D then Some (VALUE, None) else None)"

lemma bench_answers:
  assumes "quiet_env env" and "ap_limiter ap = None"
  shows "app_handle (read_config (bench_env port pol mx env) ver) ck (bench_http ip b) ap =
    app_route (read_config (bench_env port pol mx env) ver) ck (bench_http ip b)
      (case b of BenchSet k \<Rightarrow> Some (key_body k VALUE) | _ \<Rightarrow> None) ap"
  using assms
  by (cases b; simp add: app_handle_def after_limiter_def createAuthMiddleware_def read_config_def bench_env_def Let_def
      quiet_env_def bench_http_def key_body_def split: option.splits)

lemma bench_max_key: "quiet_env env \<Longrightarrow> cf_maxKeyLength (read_config (bench_env port pol mx env) ver) = 256"
  by (simp add: read_config_def bench_env_def Let_def quiet_env_def parsePositiveInt_def split: option.splits)

lemma evictLog_get: "evictLog (read_step now (OpGetWithTtl now' k) s) = evictLog s"
  by (simp add: read_step_def getWithTtl_def touch_entry_def split: option.splits)

definition seeds :: "bench_request \<Rightarrow> jsstring set" where
  "seeds b = (case b of BenchSet k \<Rightarrow> {k} | _ \<Rightarrow> {})"

lemma bench_step:
  assumes "quiet_env env" and "reads_seeded D t ap" and "from_pool b" and "t \<le> ck_op ck"
    and h: "app_handle (read_config (bench_env port pol mx env) ver) ck (bench_http ip b) ap = (ap', r, ops)"
  shows "reads_seeded (D \<union> seeds b) (ck_op ck) ap'"
proof -
  let ?cf = "read_config (bench_env port pol mx env) ver" and ?s = "ap_store ap"
  have s: "cache_ok ?s" "maxEntries ?s = 10000" "evictLog ?s = []" "stored_keys ?s \<subseteq> pool_keys"
    and a: "ap_limiter ap = None" "nr_role (ap_role ap) = Primary"
    and rep: "kv.represents t ?s (\<lambda>k. if k \<in> D then Some (VALUE, None) else None)"
    using assms(2) by (simp_all add: reads_seeded_def)
  note rt = h [unfolded bench_answers [OF assms(1) a(1)]]
  show ?thesis
  proof (cases b)
    case (BenchSet k)
    then have k: "k \<in> pool_keys" using assms(3) by simp
    have "validateEntry (cf_maxKeyLength ?cf) (ck_now ck) (Some (key_body k VALUE)) = Inr (k, VALUE, None)"
      using pool_key_ok [OF k] by (simp add: validateEntry_Inr key_body_def nullish_to_obj_def bench_max_key [OF assms(1)])
    then have ap': "ap_store ap' = cache_set (ck_op ck) k VALUE None ?s" "ap_limiter ap' = None" "nr_role (ap_role ap') = Primary"
      using rt BenchSet a by (auto simp: bench_http_def app_route.simps post_set_def rejectIfReplica_def)
    have room: "card (insert k (stored_keys ?s)) \<le> maxEntries ?s"
      by (rule kv.room_from_bound [OF s(4) pool_keys_small(1) _ k]) (use pool_keys_small(2) s(2) in simp)
    then have "evictLog (ap_store ap') = []"
      using s(3) evictLog_cache_set [OF s(1)] set_victim_None_room [OF stored_room [OF s(1) room]] by (simp add: ap'(1))
    moreover have "kv.represents (ck_op ck) (ap_store ap') (\<lambda>x. if x \<in> D \<union> seeds b then Some (VALUE, None) else None)"
    proof -
      have "(\<lambda>x. if x \<in> D \<union> seeds b then Some (VALUE, None) else None) =
          (\<lambda>x. if x \<in> D then Some (VALUE, None :: jsnum option) else None)(k \<mapsto> (VALUE, deadline (ck_op ck) None))"
        by (rule ext) (simp add: BenchSet seeds_def deadline_def)
      then show ?thesis unfolding ap'(1) using kv.represents_put [OF s(1) room rep assms(4), of VALUE None] by (simp only:)
    qed
    moreover have "stored_keys (ap_store ap') \<subseteq> pool_keys"
      unfolding ap'(1) using stored_cache_set [OF s(1), of "ck_op ck" k VALUE None] s(4) k by blast
    moreover have "cache_ok (ap_store ap')" "maxEntries (ap_store ap') = 10000"
      unfolding ap'(1) using cache_set_ok [OF s(1)] kept_maxEntries(1) [OF s(1)] s(2) by simp_all
    ultimately show ?thesis using ap'(2,3) unfolding reads_seeded_def by blast
  next
    case (BenchGet k)
    then have ap': "ap_store ap' = read_step (ck_op ck) (OpGetWithTtl (ck_ttl ck) k) ?s" "ap_limiter ap' = None" "nr_role (ap_role ap') = Primary"
      using rt a get_key_store [of ck k ap] by (auto simp: bench_http_def app_route.simps get_key_def reply_def split: prod.splits)
    then show ?thesis
      using s kv.represents_poll [OF s(1) rep assms(4)] subset_trans [OF stored_read_step [OF s(1)] s(4)] BenchGet
      by (simp add: reads_seeded_def kept_maxEntries read_step_ok evictLog_get seeds_def)
  next
    case BenchHealth
    then have "ap' = ap" using rt by (simp add: bench_http_def app_route.simps get_health_def reply_def)
    then show ?thesis using assms(2) kv.represents_later [OF rep assms(4)] BenchHealth by (simp add: reads_seeded_def seeds_def)
  next
    case BenchMetrics
    then have "ap' = ap" using rt by (simp add: bench_http_def app_route.simps get_metrics_def reply_def)
    then show ?thesis using assms(2) kv.represents_later [OF rep assms(4)] BenchMetrics by (simp add: reads_seeded_def seeds_def)
  qed
qed

definition load_event :: "np_event \<Rightarrow> bool" where
  \<comment> \<open>what happens in the benchmark's node: requests and the timers of the sweeper and of the history\<close>
  "load_event ev \<longleftrightarrow> (case ev of Request ck req \<Rightarrow> True | SweepTick now \<Rightarrow> True | HistoryTick now \<Rightarrow> True | _ \<Rightarrow> False)"

fun event_time :: "np_event \<Rightarrow> time_ms" where
  "event_time (Request ck req) = ck_op ck"
| "event_time (SweepTick now) = now"
| "event_time (HistoryTick now) = now"
| "event_time _ = 0"

definition requests_of :: "np_event list \<Rightarrow> http_request list" where
  "requests_of evs = List.map_filter (\<lambda>ev. case ev of Request ck req \<Rightarrow> Some req | _ \<Rightarrow> None) evs"

lemma requests_of_simps [simp]:
  "requests_of [] = []" "requests_of (Request ck req # evs) = req # requests_of evs"
  "requests_of (SweepTick now # evs) = requests_of evs" "requests_of (HistoryTick now # evs) = requests_of evs"
  by (simp_all add: requests_of_def map_filter_simps)

lemma bench_serve: "np_app (np_serve cf ck (bench_http ip b) p) = fst (app_handle cf ck (bench_http ip b) (np_app p))"
  by (cases b) (simp_all add: np_serve_def leader_hook_def bench_http_def Let_def split: prod.split)

lemma tick_reads_seeded:
  assumes "reads_seeded D t ap" and "t \<le> now"
  shows "reads_seeded D now (ap\<lparr>ap_store := sweeper_tick now (ap_store ap)\<rparr>)"
proof -
  let ?s = "ap_store ap"
  have s: "cache_ok ?s" "maxEntries ?s = 10000" "evictLog ?s = []" "stored_keys ?s \<subseteq> pool_keys"
    and rep: "kv.represents t ?s (\<lambda>k. if k \<in> D then Some (VALUE, None) else None)"
    using assms(1) by (simp_all add: reads_seeded_def)
  have "read_step now OpTick ?s = sweeper_tick now ?s" by (simp add: read_step_def)
  then have "cache_ok (sweeper_tick now ?s)" "maxEntries (sweeper_tick now ?s) = 10000" "stored_keys (sweeper_tick now ?s) \<subseteq> pool_keys"
    "kv.represents now (sweeper_tick now ?s) (\<lambda>k. if k \<in> D then Some (VALUE, None) else None)"
    using read_step_ok [OF s(1), of now OpTick] kept_maxEntries(5) [OF s(1), of now OpTick] s(2,4)
      subset_trans [OF stored_read_step [OF s(1), of now OpTick] s(4)] kv.represents_poll [OF s(1) rep assms(2), of OpTick] by simp_all
  moreover have "evictLog (sweeper_tick now ?s) = []"
    using s(3) by (simp add: sweeper_tick_def sweep_eq [OF cache_okD(1) [OF s(1)]])
  ultimately show ?thesis using assms(1) by (simp add: reads_seeded_def)
qed

lemma bench_run:
  assumes "quiet_env env" and "reads_seeded D t (np_app p)" and "\<forall>b \<in> set bs. from_pool b"
    and "\<forall>ev \<in> set evs. load_event ev" and "requests_of evs = map (bench_http ip) bs" and "sorted (t # map event_time evs)"
    and "\<forall>ev \<in> set evs. event_time ev \<le> t'" and "t \<le> t'"
  shows "reads_seeded (D \<union> (\<Union>b \<in> set bs. seeds b)) t'
    (np_app (np_run (read_config (bench_env port pol mx env) ver) cfg p evs))"
  using assms(2-)
proof (induction evs arbitrary: D t p bs)
  case Nil
  then show ?case by (auto simp: reads_seeded_def intro: kv.represents_later)
next
  case (Cons ev evs)
  let ?cf = "read_config (bench_env port pol mx env) ver"
  have le: "t \<le> event_time ev" "sorted (event_time ev # map event_time evs)" "event_time ev \<le> t'" "\<forall>e \<in> set evs. load_event e"
      "\<forall>e \<in> set evs. event_time e \<le> t'"
    using Cons.prems by auto
  have ev: "load_event ev" using Cons.prems(3) by simp
  then consider ck req where "ev = Request ck req" | now where "ev = SweepTick now" | now where "ev = HistoryTick now"
    by (cases ev) (auto simp: load_event_def)
  then show ?case
  proof cases
    case 1
    then obtain b bs' where bs: "bs = b # bs'" "req = bench_http ip b" "requests_of evs = map (bench_http ip) bs'"
      using Cons.prems(4) by (cases bs) auto
    obtain ap' r ops where h: "app_handle ?cf ck (bench_http ip b) (np_app p) = (ap', r, ops)" by (metis prod_cases3)
    have "reads_seeded (D \<union> seeds b) (ck_op ck) ap'"
      by (rule bench_step [OF assms(1) Cons.prems(1) _ _ h]) (use Cons.prems(2) le bs 1 in auto)
    then have "reads_seeded (D \<union> seeds b) (event_time ev) (np_app (np_step ?cf cfg p ev))" using 1 bs h by (simp add: bench_serve)
    from Cons.IH [OF this _ le(4) bs(3) le(2,5,3)] Cons.prems(2) bs show ?thesis by (simp add: Un_assoc)
  next
    case 2
    have "reads_seeded D (event_time ev) (np_app (np_step ?cf cfg p ev))"
      using tick_reads_seeded [OF Cons.prems(1) le(1)] 2 by (simp add: on_store_def)
    from Cons.IH [OF this Cons.prems(2) le(4) _ le(2,5,3)] Cons.prems(4) 2 show ?thesis by simp
  next
    case 3
    have "reads_seeded D (event_time ev) (np_app (np_step ?cf cfg p ev))"
      using Cons.prems(1) le(1) 3 by (auto simp: on_metrics_def reads_seeded_def intro: kv.represents_later)
    from Cons.IH [OF this Cons.prems(2) le(4) _ le(2,5,3)] Cons.prems(4) 3 show ?thesis by simp
  qed
qed

lemma bench_node: "quiet_env env \<Longrightarrow> reads_seeded {} t (new_app (bench_env port pol 10000 env) t0)"
proof -
  assume q: "quiet_env env"
  let ?env = "bench_env port pol 10000 env"
  have env: "?env ''INKCACHE_MAX_ENTRIES'' = Some (show_nat 10000)" "?env ''INKCACHE_RATE_LIMIT'' = None" "?env ''INKCACHE_ROLE'' = None"
    using q by (simp_all add: bench_env_def quiet_env_def Let_def split: option.splits)
  have mx: "parsePositiveInt (Some (show_nat 10000)) 512 None = 10000"
    using parse_positive_int_total [where v = None and fallback = 512 and cap = None and n = 10000] by simp
  have "cache_ok (ap_store (new_app ?env t0))" using new_app_ok [of ?env t0] by (simp add: app_ok_def)
  then show ?thesis
    by (simp add: reads_seeded_def new_app_def env mx new_cache_def new_limiter_def new_role_def stored_keys_def jm_keys_def
        kv.represents_def visible_def jm_get_def)
qed

lemma bench_started:
  assumes "quiet_env env" and "e = bench_env port pol 10000 env"
    and "p = np_step cf (read_server_config e) (new_process e t0 fs) (FileLoaded t1)"
  shows "reads_seeded {} t (np_app p) \<and> np_stage p = Listening"
proof -
  have env: "e ''INKCACHE_PERSIST_PATH'' = None" "e ''INKCACHE_ROLE'' = None"
    using assms(1) by (simp_all add: assms(2) bench_env_def quiet_env_def Let_def split: option.splits)
  have "truthy (sc_persistPath (read_server_config e)) = None" by (simp add: read_server_config_def env truthy_def)
  moreover have "nr_role (ap_role (new_app e t0)) = Primary" by (simp add: new_app_def new_role_def env)
  ultimately have p: "p = begin_listening (np_put (np_server (new_process e t0 fs)) (new_process e t0 fs))"
    by (simp add: assms(3) file_loaded_def load_persisted_def)
  have "reads_seeded {} t (new_app e t0)" unfolding assms(2) by (rule bench_node [OF assms(1)])
  then show ?thesis
    by (simp add: p begin_listening_def reads_seeded_def timer_ops_ok kv.represents_def) (simp add: startSweeper_def stopSweeper_def stored_keys_def)
qed

lemma seeded_keys: "(\<Union>b \<in> set seed. seeds b) = pool_keys"
  by (auto simp: seed_def seeds_def pool_keys_def)

lemma seed_from_pool: "b \<in> set seed \<Longrightarrow> from_pool b"
  by (auto simp: seed_def pool_keys_def)

text \<open>C35: The external benchmark measures what it says: its node, spawned with room for 10000 entries
  by a shell that sets no API key, rate limit, role, key length or persistence file for it,
  started, seeded with the whole pool and put under the load, evicts nothing whatever the
  load is and whenever its timers fire in between - the comparison is free of evictions -, and
  at every point of the load a read of every key of the pool is answered with the seeded
  value, so the node's own hit rate there is that of a full cache.\<close>

theorem external_benchmark_never_misses:
  assumes "quiet_env env" and "e = bench_env port None 10000 env" and "cf = read_config e ver"
    and "p = np_step cf (read_server_config e) (new_process e t0 fs) (FileLoaded t1)"
    and "\<forall>ev \<in> set evs. load_event ev" and "requests_of evs = map (bench_http ip) (seed @ load)" and "\<forall>b \<in> set load. from_pool b"
    and "sorted (map event_time evs)" and "\<forall>ev \<in> set evs. event_time ev \<le> ck_op ck"
    and "ap = np_app (np_run cf (read_server_config e) p evs)" and "k \<in> pool_keys"
  shows "np_stage p = Listening \<and> evictionCount (ap_store ap) = 0 \<and> cache_size (ap_store ap) \<le> POOL_SIZE \<and>
    snd (app_handle cf ck (bench_http ip (BenchGet k)) ap) =
      (ok_response [(''key'', JStr k), (''value'', JStr VALUE), (''ttl'', JNull)], [])"
proof -
  have ne: "evs \<noteq> []" using assms(6) by (auto simp: seed_def POOL_SIZE_def)
  have t: "sorted (event_time (hd evs) # map event_time evs)" "event_time (hd evs) \<le> ck_op ck"
    using assms(8,9) ne by (cases evs; auto)+
  note start = bench_started [OF assms(1,2,4)]
  have "reads_seeded ({} \<union> (\<Union>b \<in> set (seed @ load). seeds b)) (ck_op ck) ap"
    unfolding assms(10) assms(3) assms(2)
    by (rule bench_run [OF assms(1) _ _ assms(5,6)])
      (use start assms(7,9) t seed_from_pool in \<open>auto simp: assms(2,3)\<close>)
  then have s: "reads_seeded (pool_keys \<union> (\<Union>b \<in> set load. seeds b)) (ck_op ck) ap" by (simp add: seeded_keys)
  let ?s = "ap_store ap"
  have ok: "cache_ok ?s" "evictLog ?s = []" "stored_keys ?s \<subseteq> pool_keys" "ap_limiter ap = None"
    and rep: "visible (ck_op ck) ?s k = Some (VALUE, None)"
    using s assms(11) by (auto simp: reads_seeded_def kv.represents_def not_due_def)
  have "cache_size ?s = card (stored_keys ?s)"
    using cache_okD(1) [OF ok(1)] by (simp add: cache_size_def stored_keys_def jm_size_keys distinct_card jm_wf_keys)
  also have "\<dots> \<le> 800" using card_mono [OF pool_keys_small(1) ok(3)] pool_keys_small(2) by simp
  finally have "cache_size ?s \<le> POOL_SIZE" by (simp add: POOL_SIZE_def)
  moreover have "evictionCount ?s = 0" using ok(1,2) by (simp add: cache_ok_def)
  moreover have "snd (app_handle cf ck (bench_http ip (BenchGet k)) ap) =
      (ok_response [(''key'', JStr k), (''value'', JStr VALUE), (''ttl'', JNull)], [])"
    using getWithTtl_result [of "ck_op ck" "ck_ttl ck" k ?s] rep
    by (simp add: assms(2,3) bench_answers [OF assms(1) ok(4)])
      (auto simp: bench_http_def app_route.simps get_key_def reply_def ttl_json_def split: prod.splits)
  ultimately show ?thesis using start by simp
qed

theorem external_benchmark_never_misses_witness:
  "evictionCount (ap_store (np_app (np_run (read_config (bench_env 8095 None 10000 no_env) ''1'') (read_server_config (bench_env 8095 None 10000 no_env))
     (np_step (read_config (bench_env 8095 None 10000 no_env) ''1'') (read_server_config (bench_env 8095 None 10000 no_env))
       (new_process (bench_env 8095 None 10000 no_env) 0 empty_fs) (FileLoaded 1))
     (map (\<lambda>b. Request (at_time 5) (bench_http None b)) seed @ [SweepTick 6])))) = 0"
proof -
  let ?evs = "map (\<lambda>b. Request (at_time 5) (bench_http None b)) seed @ [SweepTick 6]"
  have "requests_of (map (\<lambda>b. Request (at_time 5) (bench_http None b)) bs @ [SweepTick 6]) = map (bench_http None) bs" for bs
    by (induction bs) simp_all
  moreover have "sorted (map event_time ?evs)"
  proof -
    have "sorted (map (\<lambda>b. 5 :: int) bs)" for bs :: "bench_request list" by (induction bs) simp_all
    then show ?thesis by (simp add: sorted_append o_def)
  qed
  moreover have "bench_key 7 \<in> pool_keys" by (simp add: pool_keys_def POOL_SIZE_def)
  moreover have "\<forall>ev \<in> set ?evs. load_event ev \<and> event_time ev \<le> 9" by (auto simp: load_event_def)
  ultimately show ?thesis
    using external_benchmark_never_misses [OF _ refl refl refl _ _ _ _ _ refl, of no_env ?evs None "[]" "at_time 9" "bench_key 7" 8095 "''1''" 0 empty_fs 1]
    by (simp add: quiet_env_def no_env_def del: np_run_simps np_step.simps)
qed

end
