(* ===== verification/BenchPolicies.thy ===== *)
theory BenchPolicies
  imports Bench Readouts
begin

text \<open>
  The comparison of the eviction policies, \<open>src/scripts/benchmark.ts\<close>: the nodes it starts one
  after the other, what seeding leaves in them, and the table it prints. Numbers are printed
  as in \<open>Readouts\<close>; \<open>str\<close> writes those that are too large for plain digits.
\<close>

section \<open>The runs\<close>

definition POLICIES :: "jsstring list" where
  "POLICIES = [''lru'', ''access-aware'', ''lfu'']"

definition BASE_PORT :: nat where "BASE_PORT = 8098"

definition MAX_ENTRIES :: nat where "MAX_ENTRIES = 200"

record planned_run =
  pr_policy :: jsstring
  pr_base :: jsstring
  pr_env :: env

definition startNode :: "env \<Rightarrow> jsstring \<Rightarrow> nat \<Rightarrow> planned_run" where
  "startNode env pol port = \<lparr>pr_policy = pol, pr_base = ''http://localhost:'' @ show_nat port,
     pr_env = bench_env port (Some pol) MAX_ENTRIES env\<rparr>"

definition planned_runs :: "env \<Rightarrow> planned_run list" where
  \<comment> \<open>the loop of \<open>main\<close>\<close>
  "planned_runs env = map (\<lambda>(i, pol). startNode env pol (BASE_PORT + i)) (enumerate 0 POLICIES)"

record PolicyResult =
  pr_name :: jsstring
  requestsPerSec :: rat
  latencyAvgMs :: rat
  pr_hitRate :: "rat option"
  pr_evictions :: nat

datatype run_outcome = Healthy PolicyResult | NeverHealthy | LoadFailed

definition benchOne :: "jsstring \<Rightarrow> time_ms \<Rightarrow> (time_ms \<times> bool) list \<Rightarrow> bool \<Rightarrow> (rat \<times> rat) option \<Rightarrow> (rat option \<times> nat) option \<Rightarrow>
    run_outcome option \<times> bool" where
  \<comment> \<open>whether every write of the seeding resolves, what \<open>autocannon\<close> resolves to and the node's
    \<open>/metrics\<close> are inputs; \<open>None\<close> while it still polls; the flag says whether the process is
    killed, which \<open>finally\<close> does however the body ends\<close>
  "benchOne pol start health_polls seeds_ok load readout = (case waitForHealth start 8000 health_polls of
       Waiting \<Rightarrow> (None, False)
     | TimedOut \<Rightarrow> (Some NeverHealthy, True)
     | Ready \<Rightarrow> if \<not> seeds_ok then (Some LoadFailed, True)
         else (case load of
             None \<Rightarrow> (Some LoadFailed, True)
           | Some (rps, lat) \<Rightarrow> (case readout of
               None \<Rightarrow> (Some LoadFailed, True)
             | Some (hit_rate, evicted) \<Rightarrow> (Some (Healthy \<lparr>pr_name = pol, requestsPerSec = rps, latencyAvgMs = lat,
                 pr_hitRate = hit_rate, pr_evictions = evicted\<rparr>), True))))"

section \<open>What seeding leaves\<close>

definition unread :: "jsstring \<times> cache_entry \<Rightarrow> bool" where
  "unread p \<longleftrightarrow> ce_hits (snd p) = 0 \<and> ce_expiresAt (snd p) = None"

definition fifo :: "nat \<Rightarrow> jsstring list \<Rightarrow> cache_store \<Rightarrow> bool" where
  \<comment> \<open>the keys in \<open>ks\<close> were set in this order and never read, and the last \<open>m\<close> of them remain\<close>
  "fifo m ks s \<longleftrightarrow> cache_ok s \<and> maxEntries s = m \<and> (\<forall>p \<in> set (entries s). unread p) \<and>
     jm_keys (entries s) = drop (length ks - m) ks \<and> evictionCount s = length ks - m"

lemma first_min_unread:
  assumes "\<forall>p \<in> set (x # ys). unread p"
  shows "first_min entry_hits (x # ys) = Some x"
proof -
  have "first_min_from entry_hits x ys = x"
    using assms by (induction ys) (auto simp: unread_def)
  then show ?thesis by (simp add: first_min_def)
qed

lemma victim_unread:
  assumes "entries s = x # ys" and "\<forall>p \<in> set (entries s). unread p" and "0 < evictionSampleSize s"
  shows "evict_victim now s = Some (fst x)"
proof -
  have "expired_count now (entries s) = 0"
    using assms(2) by (auto simp: expired_count_def unread_def isExpired_def filter_empty_conv)
  moreover obtain n where n: "evictionSampleSize s = Suc n" using assms(3) by (cases "evictionSampleSize s") auto
  moreover have "\<forall>p \<in> set (x # take n ys). unread p" using assms(1,2) by (auto dest: in_set_takeD)
  ultimately show ?thesis using assms(1,2)
    by (cases x) (simp add: evict_victim_def victim_def first_min_unread split: eviction_policy.splits)
qed

lemma fifo_set:
  assumes "fifo m ks s" and "k \<notin> set ks"
  shows "fifo m (ks @ [k]) (cache_set now k v None s)"
proof -
  let ?e = "\<lparr>ce_value = v, ce_expiresAt = None, ce_hits = 0\<rparr>"
  have s: "cache_ok s" "maxEntries s = m" "\<forall>p \<in> set (entries s). unread p" "jm_keys (entries s) = drop (length ks - m) ks"
    "evictionCount s = length ks - m" using assms(1) by (simp_all add: fifo_def)
  note ok = cache_okD [OF s(1)]
  have fresh: "k \<notin> set (jm_keys (entries s))" using assms(2) in_set_dropD [of k "length ks - m" ks] by (auto simp: s(4))
  then have del: "s\<lparr>entries := jm_delete k (entries s)\<rparr> = s" by (simp add: jm_delete_absent)
  have size: "jm_size (entries s) = length ks - (length ks - m)" by (simp add: jm_size_keys s(4))
  have "maxEntries (cache_set now k v None s) = m" "cache_ok (cache_set now k v None s)"
    using s(2) kept_maxEntries(1) [OF s(1)] cache_set_ok [OF s(1)] by simp_all
  moreover have "jm_keys (entries (cache_set now k v None s)) = drop (length (ks @ [k]) - m) (ks @ [k]) \<and>
      evictionCount (cache_set now k v None s) = length (ks @ [k]) - m \<and> (\<forall>p \<in> set (entries (cache_set now k v None s)). unread p)"
  proof (cases "length ks < m")
    case True
    then have "cache_set now k v None s = s\<lparr>entries := entries s @ [(k, ?e)]\<rparr>"
      using size s(2) jm_set_append [OF fresh] by (simp add: cache_set_def Let_def del deadline_def)
    then show ?thesis using True s by (auto simp: jm_keys_def unread_def)
  next
    case False
    then have full: "maxEntries s \<le> jm_size (entries s)" "0 < jm_size (entries s)" using size s(2) ok(3) by simp_all
    then obtain x ys where e: "entries s = x # ys" by (cases "entries s") (auto simp: jm_size_def)
    then have "evict now s = doEvict (fst x) s" using evict_eq [OF ok(1)] victim_unread [OF e s(3) ok(4)] by simp
    moreover have "jm_delete (fst x) (entries s) = ys" using ok(1) jm_delete_mid [of "[]" "fst x" "snd x" ys] by (simp add: e)
    moreover have "k \<notin> set (jm_keys ys)" using fresh by (simp add: e jm_keys_def)
    ultimately have c: "entries (cache_set now k v None s) = ys @ [(k, ?e)]" "evictionCount (cache_set now k v None s) = Suc (evictionCount s)"
      using full by (simp_all add: cache_set_def Let_def del doEvict_def deadline_def jm_set_append)
    have "jm_keys ys = tl (drop (length ks - m) ks)" by (simp add: s(4) [symmetric] e jm_keys_def)
    then have "jm_keys ys = drop (Suc (length ks - m)) ks" by (simp add: drop_Suc tl_drop)
    moreover have "Suc 0 - m = 0" using ok(3) s(2) by simp
    ultimately show ?thesis using False s(3,5) c e by (auto simp: jm_keys_def unread_def Suc_diff_le)
  qed
  ultimately show ?thesis by (simp add: fifo_def)
qed

lemma fifo_app_step:
  assumes "quiet_env env" and "fifo m ks (ap_store ap)" and "ap_limiter ap = None" and "nr_role (ap_role ap) = Primary"
    and "k \<notin> set ks" and "k \<in> pool_keys"
  shows "(\<lambda>ap'. fifo m (ks @ [k]) (ap_store ap') \<and> ap_limiter ap' = None \<and> nr_role (ap_role ap') = Primary)
    (app_step (read_config (bench_env port pol mx env) ver) ap (ck, bench_http ip (BenchSet k)))"
proof -
  let ?cf = "read_config (bench_env port pol mx env) ver"
  have "validateEntry (cf_maxKeyLength ?cf) (ck_now ck) (Some (key_body k VALUE)) = Inr (k, VALUE, None)"
    using pool_key_ok [OF assms(6)] by (simp add: validateEntry_Inr key_body_def nullish_to_obj_def bench_max_key [OF assms(1)])
  then show ?thesis
    using assms(3,4) fifo_set [OF assms(2,5), of "ck_op ck" VALUE]
    by (simp add: bench_answers [OF assms(1,3)]) (auto simp: bench_http_def app_route.simps post_set_def rejectIfReplica_def)
qed

lemma fifo_app_run:
  assumes "quiet_env env" and "fifo m ks (ap_store ap)" and "ap_limiter ap = None" and "nr_role (ap_role ap) = Primary"
    and "distinct (ks @ new)" and "set new \<subseteq> pool_keys" and "map snd ins = map (\<lambda>k. bench_http ip (BenchSet k)) new"
  shows "fifo m (ks @ new) (ap_store (app_run (read_config (bench_env port pol mx env) ver) ap ins)) \<and>
    ap_limiter (app_run (read_config (bench_env port pol mx env) ver) ap ins) = None"
  using assms(2-)
proof (induction new arbitrary: ks ap ins)
  case Nil
  then show ?case by (simp add: app_run_def)
next
  case (Cons k new)
  obtain ck ins' where ins: "ins = (ck, bench_http ip (BenchSet k)) # ins'" using Cons.prems(6) by (cases ins) auto
  have "k \<notin> set ks" "k \<in> pool_keys" using Cons.prems(4,5) by auto
  from fifo_app_step [OF assms(1) Cons.prems(1-3) this]
  show ?case using Cons.IH [of "ks @ [k]" "app_step (read_config (bench_env port pol mx env) ver) ap (ck, bench_http ip (BenchSet k))" ins'] Cons.prems(4-6)
    by (simp add: ins app_run_def)
qed

lemma planned_env:
  assumes "r \<in> set (planned_runs env)"
  obtains port pol where "pr_env r = bench_env port (Some pol) 200 env" "pr_policy r = pol"
  using assms by (auto simp: planned_runs_def startNode_def MAX_ENTRIES_def)

text \<open>Seeding writes the whole pool of 800 keys into a node of 200 entries, whatever the policy:
  since nothing has been read, each evicts in the order of writing, so every node starts its
  measurement with exactly the last quarter of the pool - the keys the skewed load asks for
  least - and with 600 evictions already on the counter it reports.\<close>

lemma seeding_keeps_the_cold_quarter:
  assumes "quiet_env env" and "r \<in> set (planned_runs env)" and "map snd ins = map (bench_http ip) seed"
    and "ap = app_run (read_config (pr_env r) ver) (new_app (pr_env r) t0) ins"
  shows "jm_keys (entries (ap_store ap)) = map bench_key [600..<800] \<and> evictionCount (ap_store ap) = 600 \<and>
    (i < 600 \<longrightarrow> snd (app_handle (read_config (pr_env r) ver) ck (bench_http ip (BenchGet (bench_key i))) ap) =
      (\<lparr>res_status = 404, res_body = JObj [(''error'', JStr ''miss''), (''key'', JStr (bench_key i))]\<rparr>, []))"
proof -
  obtain port pol where e: "pr_env r = bench_env port (Some pol) 200 env" using planned_env [OF assms(2)] by metis
  let ?keys = "map bench_key [0..<800]"
  have env: "pr_env r ''INKCACHE_MAX_ENTRIES'' = Some (show_nat 200)" "pr_env r ''INKCACHE_RATE_LIMIT'' = None" "pr_env r ''INKCACHE_ROLE'' = None"
    using assms(1) by (simp_all add: e bench_env_def quiet_env_def Let_def)
  have mx: "parsePositiveInt (Some (show_nat 200)) 512 None = 200"
    using parse_positive_int_total [where v = None and fallback = 512 and cap = None and n = 200] by simp
  have "cache_ok (ap_store (new_app (pr_env r) t0))" using new_app_ok [of "pr_env r" t0] by (simp add: app_ok_def)
  then have start: "fifo 200 [] (ap_store (new_app (pr_env r) t0))" "ap_limiter (new_app (pr_env r) t0) = None"
    "nr_role (ap_role (new_app (pr_env r) t0)) = Primary"
    by (simp_all add: fifo_def new_app_def env mx new_cache_def new_limiter_def new_role_def jm_keys_def)
  have d: "distinct ([] @ ?keys)" by (simp add: distinct_map bench_key_def inj_on_def)
  have sub: "set ?keys \<subseteq> pool_keys" by (auto simp: pool_keys_def POOL_SIZE_def)
  have "map snd ins = map (\<lambda>k. bench_http ip (BenchSet k)) ?keys" using assms(3) by (simp add: seed_def POOL_SIZE_def)
  from fifo_app_run [OF assms(1) start d sub this, of port "Some pol" 200 ver]
  have f: "fifo 200 ?keys (ap_store ap)" "ap_limiter ap = None"
    by (simp_all add: assms(4) e)
  then have k: "jm_keys (entries (ap_store ap)) = map bench_key [600..<800]" "evictionCount (ap_store ap) = 600"
    by (simp_all add: fifo_def drop_map drop_upt)
  moreover have "jm_get (entries (ap_store ap)) (bench_key i) = None" if "i < 600"
    using that by (auto simp: jm_get_None k(1) bench_key_def)
  ultimately show ?thesis
    by (simp add: e bench_answers [OF assms(1) f(2)])
      (auto simp: bench_http_def app_route.simps get_key_def reply_def getWithTtl_def split: prod.splits)
qed

section \<open>The printed results\<close>

definition pad_end :: "nat \<Rightarrow> jsstring \<Rightarrow> jsstring" where
  "pad_end n s = s @ replicate (n - length s) CHR '' ''"

definition pad_start :: "nat \<Rightarrow> jsstring \<Rightarrow> jsstring" where
  "pad_start n s = replicate (n - length s) CHR '' '' @ s"

definition to_fixed2 :: "(rat \<Rightarrow> jsstring) \<Rightarrow> rat \<Rightarrow> jsstring" where
  \<comment> \<open>\<open>toFixed(2)\<close>: of two nearest numbers with two decimals, the larger in magnitude\<close>
  "to_fixed2 str q = (if 10 ^ 21 \<le> \<bar>q\<bar> then rat_text str q
     else let n = nat \<lfloor>\<bar>q\<bar> * 100 + 1 / 2\<rfloor>
       in (if q < 0 then ''-'' else []) @ show_nat (n div 100) @ ''.'' @ show_nat (n div 10 mod 10) @ show_nat (n mod 10))"

definition bench_hit_rate :: "(rat \<Rightarrow> rat) \<Rightarrow> (rat \<Rightarrow> jsstring) \<Rightarrow> rat option \<Rightarrow> jsstring" where
  "bench_hit_rate fl str r = (case r of None \<Rightarrow> ''n/a'' | Some h \<Rightarrow> to_fixed1 str (Fin (fl (h * 100))) @ ''%'')"

definition policy_row :: "(rat \<Rightarrow> rat) \<Rightarrow> (rat \<Rightarrow> jsstring) \<Rightarrow> PolicyResult \<Rightarrow> jsstring" where
  "policy_row fl str r = pad_end 15 (pr_name r) @ '' '' @ pad_start 8 (to_fixed0 str (requestsPerSec r)) @ ''   '' @
     pad_start 17 (to_fixed2 str (latencyAvgMs r)) @ ''   '' @ pad_start 8 (bench_hit_rate fl str (pr_hitRate r)) @ ''   '' @
     pad_start 9 (show_nat (pr_evictions r))"

definition policy_table :: "(rat \<Rightarrow> rat) \<Rightarrow> (rat \<Rightarrow> jsstring) \<Rightarrow> PolicyResult list \<Rightarrow> jsstring list" where
  \<comment> \<open>what is logged after an empty line\<close>
  "policy_table fl str results =
     [''policy          reqs/sec   avg latency (ms)   hit rate   evictions'', replicate 70 CHR ''-''] @
     map (policy_row fl str) results"

record backend_result =
  be_backend :: jsstring
  be_opsPerSec :: rat
  be_avgLatencyMs :: rat
  be_hitRate :: "rat option"

definition backend_row :: "(rat \<Rightarrow> rat) \<Rightarrow> (rat \<Rightarrow> jsstring) \<Rightarrow> backend_result \<Rightarrow> jsstring" where
  "backend_row fl str r = pad_end 12 (be_backend r) @ '' '' @ pad_start 8 (to_fixed0 str (be_opsPerSec r)) @ ''   '' @
     pad_start 17 (to_fixed2 str (be_avgLatencyMs r)) @ ''   '' @ pad_start 8 (bench_hit_rate fl str (be_hitRate r))"

definition backend_table :: "(rat \<Rightarrow> rat) \<Rightarrow> (rat \<Rightarrow> jsstring) \<Rightarrow> backend_result list \<Rightarrow> jsstring list" where
  "backend_table fl str results =
     [''backend      reqs/sec   avg latency (ms)   hit rate'', replicate 52 CHR ''-''] @ map (backend_row fl str) results"

fun run_policies :: "run_outcome list \<Rightarrow> PolicyResult list option" where
  \<comment> \<open>the loop of \<open>main\<close>: the first error ends the program, with nothing printed\<close>
  "run_policies [] = Some []"
| "run_policies (Healthy r # outcomes) = map_option ((#) r) (run_policies outcomes)"
| "run_policies (_ # outcomes) = None"

lemma pad_length [simp]: "length (pad_end n s) = max n (length s)" "length (pad_start n s) = max n (length s)"
  by (simp_all add: pad_end_def pad_start_def)

lemma policy_names_fit: "pol \<in> set POLICIES \<Longrightarrow> length pol \<le> 12"
  by (auto simp: POLICIES_def)

lemma policy_rows_aligned:
  assumes "pr_name r \<in> set POLICIES" and "length (to_fixed0 str (requestsPerSec r)) \<le> 8" and "length (to_fixed2 str (latencyAvgMs r)) \<le> 17"
    and "length (bench_hit_rate fl str (pr_hitRate r)) \<le> 8" and "length (show_nat (pr_evictions r)) \<le> 9"
  shows "length (policy_row fl str r) = 67"
  using assms policy_names_fit [OF assms(1)] by (simp add: policy_row_def)

text \<open>A table has one row for every policy or is not printed: the program stops at the first
  node that does not come up or whose load fails, and every process it started is killed.\<close>

lemma all_healthy: "run_policies outcomes = Some rs \<Longrightarrow> outcomes = map Healthy rs"
  by (induction outcomes arbitrary: rs rule: run_policies.induct) auto

lemma table_complete: "run_policies outcomes = Some rs \<Longrightarrow> length (policy_table fl str rs) = Suc (Suc (length outcomes))"
  by (drule all_healthy) (simp only: policy_table_def length_append length_map list.size add_0_left add_Suc add_0_right)

lemma benchOne_kills: "benchOne pol start health_polls seeds_ok load readout = (Some out, killed) \<Longrightarrow> killed \<and>
    (\<forall>r. out = Healthy r \<longrightarrow> pr_name r = pol \<and> waitForHealth start 8000 health_polls = Ready)"
  by (auto simp: benchOne_def split: wait_result.splits option.splits prod.splits if_splits)

end
