(* ===== verification/BenchBackends.thy ===== *)
theory BenchBackends
  imports BenchPolicies
begin

text \<open>
  The comparison with Redis and Memcached, \<open>src/scripts/benchmark-external.ts\<close>, as a whole: the
  program of \<open>main\<close> as a state machine over what it awaits, with everything it does to the
  machine it runs on - containers, connections, the node's process - in a log. What Docker, the
  clients, the load generator and the node answer are inputs; \<open>finally\<close> blocks are phases.
\<close>

section \<open>The program\<close>

datatype backend = Inkcache | Redis | Memcached

definition BACKENDS :: "backend list" where
  \<comment> \<open>in the order of \<open>main\<close>\<close>
  "BACKENDS = [Inkcache, Redis, Memcached]"

primrec backend_name :: "backend \<Rightarrow> jsstring" where
  "backend_name Inkcache = ''inkcache''"
| "backend_name Redis = ''redis''"
| "backend_name Memcached = ''memcached''"

definition container_name :: "backend \<Rightarrow> jsstring" where
  "container_name b = ''inkcache-bench-'' @ backend_name b"

definition ready_timeout :: "backend \<Rightarrow> time_ms" where
  \<comment> \<open>the default arguments of \<open>waitForHealth\<close> and \<open>waitUntilReady\<close>\<close>
  "ready_timeout b = (if b = Inkcache then 8000 else 10000)"

datatype effect =
  DockerRm jsstring bool \<comment> \<open>and whether it succeeded; \<open>dockerCleanup\<close> catches\<close>
  | DockerRun "jsstring list" jsstring bool \<comment> \<open>the arguments, the name among them, and whether it succeeded\<close>
  | OpenClient backend
  | CloseClient backend
  | SpawnNode env
  | KillNode

definition docker_args :: "backend \<Rightarrow> jsstring list" where
  "docker_args b = (case b of
       Redis \<Rightarrow> [''-d'', ''--rm'', ''--name '' @ container_name Redis, ''-p 16379:6379'', ''redis:7-alpine'',
         ''redis-server --maxmemory 64mb --maxmemory-policy allkeys-lru'']
     | Memcached \<Rightarrow> [''-d'', ''--rm'', ''--name '' @ container_name Memcached, ''-p 16211:11211'', ''memcached:1.6-alpine'', ''-m 64'']
     | Inkcache \<Rightarrow> [])"

datatype phase =
  Entering \<comment> \<open>about to call \<open>benchInkCache\<close>, \<open>benchRedis\<close> or \<open>benchMemcached\<close>\<close>
  | WaitingReady time_ms \<comment> \<open>since when\<close>
  | Seeding nat \<comment> \<open>the write of this key is awaited\<close>
  | Loading time_ms pool \<comment> \<open>\<open>deadline\<close> and the workers of \<open>runWorkload\<close>\<close>
  | Autocannon
  | ReadingMetrics rat rat \<comment> \<open>\<open>requests.average\<close> and \<open>latency.average\<close>\<close>
  | Leaving "backend_result option" \<comment> \<open>in \<open>finally\<close>, with the result or, when the body threw, none\<close>
  | WaitingExit "backend_result option" \<comment> \<open>\<open>waitForExit\<close>\<close>
  | Printed "jsstring list"
  | Rejected \<comment> \<open>\<open>main().catch\<close>: the error is printed and the exit code is 1\<close>

record comparison =
  bx_left :: "backend list" \<comment> \<open>the calls of \<open>main\<close> still to come, the current one first\<close>
  bx_phase :: phase
  bx_results :: "backend_result list"
  bx_effects :: "effect list"

definition new_comparison :: comparison where
  "new_comparison = \<lparr>bx_left = BACKENDS, bx_phase = Entering, bx_results = [], bx_effects = []\<rparr>"

datatype bench_event =
  Enter bool bool time_ms \<comment> \<open>whether \<open>docker rm\<close> and \<open>docker run\<close> succeed; the clock when waiting starts\<close>
  | ReadySettled bool time_ms \<comment> \<open>whether the check resolved (and \<open>ok\<close>); the clock after it\<close>
  | SeedSettled bool time_ms \<comment> \<open>whether the write resolved; the clock after it\<close>
  | PoolTurn pool_event
  | OperationRejected \<comment> \<open>a client's \<open>get\<close> or \<open>set\<close> rejects, and with it \<open>Promise.all\<close>\<close>
  | LoadSettled "(rat \<times> rat) option" \<comment> \<open>what \<open>autocannon\<close> resolves to, if it does\<close>
  | MetricsSettled "rat option option" \<comment> \<open>the \<open>hitRate\<close> the node reports, if its answer is JSON\<close>
  | Cleanup bool \<comment> \<open>whether \<open>docker rm\<close> succeeds\<close>
  | ExitSeen
  | ExitTimeout

section \<open>Steps\<close>

definition go :: "phase \<Rightarrow> effect list \<Rightarrow> comparison \<Rightarrow> comparison" where
  "go ph effs x = x\<lparr>bx_phase := ph, bx_effects := bx_effects x @ effs\<rparr>"

definition enter :: "env \<Rightarrow> bool \<Rightarrow> bool \<Rightarrow> time_ms \<Rightarrow> backend \<Rightarrow> comparison \<Rightarrow> comparison" where
  \<comment> \<open>up to the first check: cleanup, \<open>docker run\<close> (which throws outside of \<open>try\<close>) and the client\<close>
  "enter env rm_ok run_ok now b x = (if b = Inkcache
     then go (WaitingReady now) [SpawnNode (bench_env 8095 None 10000 env)] x
     else let cleaned = DockerRm (container_name b) rm_ok; ran = DockerRun (docker_args b) (container_name b) run_ok
       in if run_ok then go (WaitingReady now) [cleaned, ran, OpenClient b] x
          else go Rejected [cleaned, ran] x)"

definition start_load :: "backend \<Rightarrow> time_ms \<Rightarrow> phase" where
  "start_load b now = (if b = Inkcache then Autocannon
     else Loading (now + \<lfloor>DURATION_S * 1000\<rfloor>) (new_pool CONCURRENCY))"

definition seeded :: "backend \<Rightarrow> time_ms \<Rightarrow> nat \<Rightarrow> phase" where
  \<comment> \<open>the head of the seeding loop\<close>
  "seeded b now i = (if i < POOL_SIZE then Seeding i else start_load b now)"

definition pool_result :: "backend \<Rightarrow> time_ms \<Rightarrow> pool \<Rightarrow> phase" where
  "pool_result b end_at p = (case runWorkload p of
       None \<Rightarrow> Loading end_at p
     | Some (ops, avg, rate) \<Rightarrow> Leaving (Some \<lparr>be_backend = backend_name b, be_opsPerSec = ops, be_avgLatencyMs = avg, be_hitRate = rate\<rparr>))"

definition finish :: "(rat \<Rightarrow> rat) \<Rightarrow> (rat \<Rightarrow> jsstring) \<Rightarrow> backend_result option \<Rightarrow> comparison \<Rightarrow> comparison" where
  \<comment> \<open>back in \<open>main\<close>: the next call, the table, or the rejection\<close>
  "finish fl str r x = (case r of
       None \<Rightarrow> x\<lparr>bx_phase := Rejected\<rparr>
     | Some r \<Rightarrow> (let results = bx_results x @ [r]; left = tl (bx_left x)
         in x\<lparr>bx_left := left, bx_results := results,
              bx_phase := if left = [] then Printed (backend_table fl str results) else Entering\<rparr>))"

definition bench_step :: "(rat \<Rightarrow> rat) \<Rightarrow> (rat \<Rightarrow> jsstring) \<Rightarrow> env \<Rightarrow> backend \<Rightarrow> bench_event \<Rightarrow> comparison \<Rightarrow> comparison option" where
  \<comment> \<open>\<open>None\<close>: the program does not wait for this in this phase. Of a workload that is rejected the
    other workers' operations are no longer looked at\<close>
  "bench_step fl str env b ev x = (case bx_phase x of
       Entering \<Rightarrow> (case ev of Enter rm_ok run_ok now \<Rightarrow> Some (enter env rm_ok run_ok now b x) | _ \<Rightarrow> None)
     | WaitingReady since \<Rightarrow> (case ev of
           ReadySettled ok now \<Rightarrow> Some (if ok then go (seeded b now 0) [] x
             else if ready_timeout b < now - since then go (Leaving None) [] x else x)
         | _ \<Rightarrow> None)
     | Seeding i \<Rightarrow> (case ev of
           SeedSettled ok now \<Rightarrow> Some (if ok then go (seeded b now (i + 1)) [] x else go (Leaving None) [] x)
         | _ \<Rightarrow> None)
     | Loading end_at p \<Rightarrow> (case ev of
           PoolTurn e \<Rightarrow> if pool_enabled p e then Some (go (pool_result b end_at (pool_step end_at p e)) [] x) else None
         | OperationRejected \<Rightarrow> if \<exists>w \<in> set (pl_workers p). w \<noteq> AtTest \<and> w \<noteq> Stopped then Some (go (Leaving None) [] x) else None
         | _ \<Rightarrow> None)
     | Autocannon \<Rightarrow> (case ev of
           LoadSettled r \<Rightarrow> Some (go (case r of None \<Rightarrow> Leaving None | Some (rps, lat) \<Rightarrow> ReadingMetrics rps lat) [] x)
         | _ \<Rightarrow> None)
     | ReadingMetrics rps lat \<Rightarrow> (case ev of
           MetricsSettled r \<Rightarrow> Some (go (Leaving (map_option
             (\<lambda>rate. \<lparr>be_backend = backend_name b, be_opsPerSec = rps, be_avgLatencyMs = lat, be_hitRate = rate\<rparr>) r)) [] x)
         | _ \<Rightarrow> None)
     | Leaving r \<Rightarrow> (case ev of
           Cleanup rm_ok \<Rightarrow> Some (if b = Inkcache then go (WaitingExit r) [KillNode] x
             else finish fl str r (go (Leaving r) [CloseClient b, DockerRm (container_name b) rm_ok] x))
         | _ \<Rightarrow> None)
     | WaitingExit r \<Rightarrow> (case ev of
           ExitSeen \<Rightarrow> Some (finish fl str r x)
         | ExitTimeout \<Rightarrow> Some (finish fl str r x)
         | _ \<Rightarrow> None)
     | _ \<Rightarrow> None)"

definition bench_next :: "(rat \<Rightarrow> rat) \<Rightarrow> (rat \<Rightarrow> jsstring) \<Rightarrow> env \<Rightarrow> bench_event \<Rightarrow> comparison \<Rightarrow> comparison option" where
  "bench_next fl str env ev x = (case bx_left x of
       [] \<Rightarrow> None
     | b # _ \<Rightarrow> bench_step fl str env b ev x)"

inductive bench_reaches :: "(rat \<Rightarrow> rat) \<Rightarrow> (rat \<Rightarrow> jsstring) \<Rightarrow> env \<Rightarrow> comparison \<Rightarrow> bool"
  for fl :: "rat \<Rightarrow> rat" and str :: "rat \<Rightarrow> jsstring" and env :: env where
  bench_start: "bench_reaches fl str env new_comparison"
| bench_more: "bench_reaches fl str env x \<Longrightarrow> bench_next fl str env ev x = Some x' \<Longrightarrow> bench_reaches fl str env x'"

section \<open>What it holds of the machine\<close>

record machine =
  mc_containers :: "jsstring set"
  mc_clients :: "backend set"
  mc_node :: bool \<comment> \<open>a node was spawned and not signalled\<close>

definition quiet :: machine where
  "quiet = \<lparr>mc_containers = {}, mc_clients = {}, mc_node = False\<rparr>"

fun apply_effect :: "machine \<Rightarrow> effect \<Rightarrow> machine" where
  "apply_effect m (DockerRm n ok) = (if ok then m\<lparr>mc_containers := mc_containers m - {n}\<rparr> else m)"
| "apply_effect m (DockerRun args n ok) = (if ok then m\<lparr>mc_containers := insert n (mc_containers m)\<rparr> else m)"
| "apply_effect m (OpenClient b) = m\<lparr>mc_clients := insert b (mc_clients m)\<rparr>"
| "apply_effect m (CloseClient b) = m\<lparr>mc_clients := mc_clients m - {b}\<rparr>"
| "apply_effect m (SpawnNode e) = m\<lparr>mc_node := True\<rparr>"
| "apply_effect m KillNode = m\<lparr>mc_node := False\<rparr>"

definition after_effects :: "effect list \<Rightarrow> machine" where
  "after_effects effs = foldl apply_effect quiet effs"

fun removes_running :: "machine \<Rightarrow> effect list \<Rightarrow> bool" where
  \<comment> \<open>documented of \<open>docker rm -f\<close>: it removes a container that runs; without one it may fail\<close>
  "removes_running m [] = True"
| "removes_running m (e # es) \<longleftrightarrow>
     (case e of DockerRm n ok \<Rightarrow> n \<in> mc_containers m \<longrightarrow> ok | _ \<Rightarrow> True) \<and> removes_running (apply_effect m e) es"

lemma removes_running_append:
  "removes_running m (es @ es') \<longleftrightarrow> removes_running m es \<and> removes_running (foldl apply_effect m es) es'"
  by (induction es arbitrary: m) auto

definition held :: "backend \<Rightarrow> phase \<Rightarrow> machine" where
  \<comment> \<open>what the program has running in a phase of one backend\<close>
  "held b ph = (case ph of
       Entering \<Rightarrow> quiet
     | Printed t \<Rightarrow> quiet
     | Rejected \<Rightarrow> quiet
     | WaitingExit r \<Rightarrow> quiet
     | _ \<Rightarrow> if b = Inkcache then quiet\<lparr>mc_node := True\<rparr>
         else quiet\<lparr>mc_containers := {container_name b}, mc_clients := {b}\<rparr>)"

lemma held_simps [simp]:
  "held b Entering = quiet" "held b (Printed t) = quiet" "held b Rejected = quiet" "held b (WaitingExit r) = quiet"
  by (simp_all add: held_def)

definition ended :: "phase \<Rightarrow> bool" where
  "ended ph \<longleftrightarrow> (case ph of Printed t \<Rightarrow> True | Rejected \<Rightarrow> True | _ \<Rightarrow> False)"

definition result_of :: "backend \<Rightarrow> phase \<Rightarrow> bool" where
  \<comment> \<open>a result on its way through \<open>finally\<close> is the current backend's; a pool that is worked on has none yet\<close>
  "result_of b ph \<longleftrightarrow> (case ph of
       Leaving (Some r) \<Rightarrow> be_backend r = backend_name b
     | WaitingExit r \<Rightarrow> b = Inkcache \<and> (case r of Some r \<Rightarrow> be_backend r = backend_name b | None \<Rightarrow> True)
     | Loading end_at p \<Rightarrow> b \<noteq> Inkcache \<and> runWorkload p = None
     | Autocannon \<Rightarrow> b = Inkcache
     | ReadingMetrics rps lat \<Rightarrow> b = Inkcache
     | _ \<Rightarrow> True)"

definition accounted :: "comparison \<Rightarrow> bool" where
  "accounted x \<longleftrightarrow> (\<exists>seen. BACKENDS = seen @ bx_left x \<and> map be_backend (bx_results x) = map backend_name seen)"

definition holds :: "machine \<Rightarrow> comparison \<Rightarrow> bool" where
  "holds m x \<longleftrightarrow> (removes_running quiet (bx_effects x) \<longrightarrow> after_effects (bx_effects x) = m)"

definition comparison_ok :: "(rat \<Rightarrow> rat) \<Rightarrow> (rat \<Rightarrow> jsstring) \<Rightarrow> comparison \<Rightarrow> bool" where
  "comparison_ok fl str x \<longleftrightarrow> accounted x \<and>
     (case bx_left x of
        [] \<Rightarrow> bx_phase x = Printed (backend_table fl str (bx_results x)) \<and> holds quiet x
      | b # _ \<Rightarrow> (\<forall>t. bx_phase x \<noteq> Printed t) \<and> result_of b (bx_phase x) \<and> holds (held b (bx_phase x)) x)"

lemma go_fields [simp]: "bx_left (go ph effs x) = bx_left x" "bx_phase (go ph effs x) = ph"
  "bx_results (go ph effs x) = bx_results x" "bx_effects (go ph effs x) = bx_effects x @ effs" "accounted (go ph effs x) = accounted x"
  by (simp_all add: go_def accounted_def)

lemma holds_go:
  "holds m x \<Longrightarrow> (removes_running m effs \<Longrightarrow> foldl apply_effect m effs = m') \<Longrightarrow> holds m' (go ph effs x)"
  by (auto simp: holds_def after_effects_def removes_running_append)

lemma holds_same [simp]: "holds m (go ph [] x) = holds m x"
  by (simp add: holds_def)

lemma accounted_next:
  assumes "accounted x" and "bx_left x = b # bs" and "be_backend r = backend_name b"
  shows "accounted (x\<lparr>bx_left := bs, bx_results := bx_results x @ [r], bx_phase := ph\<rparr>)"
proof -
  obtain seen where "BACKENDS = seen @ b # bs" "map be_backend (bx_results x) = map backend_name seen"
    using assms(1,2) by (auto simp: accounted_def)
  then show ?thesis using assms(3) by (auto simp: accounted_def intro!: exI [of _ "seen @ [b]"])
qed

lemma finish_ok:
  assumes "accounted x" and "bx_left x = b # bs" and "holds quiet x" and "\<forall>r'. r = Some r' \<longrightarrow> be_backend r' = backend_name b"
  shows "comparison_ok fl str (finish fl str r x)"
proof (cases r)
  case None
  then show ?thesis using assms(1-3) by (simp add: comparison_ok_def finish_def accounted_def holds_def result_of_def)
next
  case (Some r')
  then have "be_backend r' = backend_name b" using assms(4) by simp
  note acc = accounted_next [OF assms(1,2) this]
  show ?thesis using assms(2,3) acc Some by (cases bs) (simp_all add: comparison_ok_def finish_def holds_def result_of_def Let_def)
qed

lemma go_ok:
  assumes "accounted x" and "bx_left x = b # bs" and "holds (held b (bx_phase x)) x" and "\<forall>t. ph \<noteq> Printed t" and "result_of b ph"
    and "removes_running (held b (bx_phase x)) effs \<Longrightarrow> foldl apply_effect (held b (bx_phase x)) effs = held b ph"
  shows "comparison_ok fl str (go ph effs x)"
  using assms(1,2,4,5) holds_go [OF assms(3,6), of ph] by (simp add: comparison_ok_def)

lemma new_pool_works: "0 < n \<Longrightarrow> runWorkload (new_pool n) = None"
  by (simp add: runWorkload_def new_pool_def)

lemma seeded_cases:
  "(\<forall>t. seeded b now i \<noteq> Printed t) \<and> result_of b (seeded b now i) \<and> held b (seeded b now i) = held b (Leaving None)"
  by (simp add: seeded_def start_load_def result_of_def held_def new_pool_works CONCURRENCY_def)

lemma pool_result_cases:
  assumes "b \<noteq> Inkcache"
  shows "(\<forall>t. pool_result b end_at p \<noteq> Printed t) \<and> result_of b (pool_result b end_at p) \<and> held b (pool_result b end_at p) = held b (Leaving None)"
  using assms by (cases "runWorkload p") (auto simp: pool_result_def result_of_def held_def)

lemma enter_ok:
  assumes "accounted x" and "bx_left x = b # bs" and "holds quiet x" and "bx_phase x = Entering"
  shows "comparison_ok fl str (enter env rm_ok run_ok now b x)"
proof -
  have "holds (held b (bx_phase x)) x" using assms(3,4) by simp
  note go = go_ok [OF assms(1,2) this, unfolded assms(4)]
  show ?thesis
    unfolding enter_def Let_def
    by (auto intro!: go simp: result_of_def held_def quiet_def)
qed

lemma step_ok:
  assumes "comparison_ok fl str x" and "bx_left x = b # bs" and "bench_step fl str env b ev x = Some x'"
  shows "comparison_ok fl str x'"
proof -
  have acc: "accounted x" and res: "result_of b (bx_phase x)" and h: "holds (held b (bx_phase x)) x"
    using assms(1,2) by (simp_all add: comparison_ok_def)
  note go = go_ok [OF acc assms(2) h]
  note same = held_def result_of_def
  show ?thesis
  proof (cases "bx_phase x")
    case Entering
    then show ?thesis using assms(2,3) h enter_ok [OF acc assms(2)] by (auto simp: bench_step_def split: bench_event.splits)
  next
    case (WaitingReady since)
    then show ?thesis using assms seeded_cases [of b _ 0]
      by (auto simp: bench_step_def same split: bench_event.splits if_splits intro!: go)
  next
    case (Seeding i)
    then show ?thesis using assms seeded_cases [of b]
      by (auto simp: bench_step_def same split: bench_event.splits if_splits intro!: go)
  next
    case (Loading end_at p)
    then have "b \<noteq> Inkcache" using res by (simp add: result_of_def)
    then show ?thesis using assms(3) Loading pool_result_cases [of b]
      by (auto simp: bench_step_def same split: bench_event.splits if_splits intro!: go)
  next
    case Autocannon
    then show ?thesis using assms(3) res
      by (auto simp: bench_step_def same split: bench_event.splits option.splits intro!: go)
  next
    case (ReadingMetrics rps lat)
    then show ?thesis using assms(3) res
      by (auto simp: bench_step_def same split: bench_event.splits option.splits intro!: go)
  next
    case (Leaving r)
    have "holds quiet (go (Leaving r) [CloseClient b, DockerRm (container_name b) rm_ok] x)" if "b \<noteq> Inkcache" for rm_ok
      using that by (intro holds_go [OF h]) (simp add: Leaving held_def quiet_def)
    moreover have "\<forall>r'. r = Some r' \<longrightarrow> be_backend r' = backend_name b" using res Leaving by (auto simp: result_of_def)
    ultimately show ?thesis using assms(2,3) Leaving acc
      by (auto simp: bench_step_def same split: bench_event.splits if_splits option.splits intro!: go finish_ok simp: quiet_def)
  next
    case (WaitingExit r)
    then show ?thesis using assms(2,3) acc h res
      by (auto simp: bench_step_def result_of_def split: bench_event.splits intro!: finish_ok)
  qed (use assms(3) in \<open>simp_all add: bench_step_def\<close>)
qed

lemma comparison_reaches_ok:
  assumes "bench_reaches fl str env x"
  shows "comparison_ok fl str x"
  using assms
proof induction
  case bench_start
  show ?case by (simp add: comparison_ok_def new_comparison_def accounted_def holds_def after_effects_def BACKENDS_def result_of_def)
next
  case (bench_more x ev x')
  then show ?case by (cases "bx_left x") (auto simp: bench_next_def intro: step_ok)
qed

lemma never_stuck:
  assumes "comparison_ok fl str x" and "\<not> ended (bx_phase x)"
  shows "\<exists>ev. bench_next fl str env ev x \<noteq> None"
proof (cases "bx_left x")
  case Nil
  then show ?thesis using assms by (simp add: comparison_ok_def ended_def)
next
  case (Cons b bs)
  have next_is: "bench_next fl str env ev x = bench_step fl str env b ev x" for ev by (simp add: bench_next_def Cons)
  show ?thesis
  proof (cases "bx_phase x")
    case (Loading end_at p)
    then have "runWorkload p = None" using assms(1) Cons by (simp add: comparison_ok_def result_of_def)
    then obtain e where "pool_enabled p e" using settled_or_enabled by blast
    then show ?thesis by (intro exI [of _ "PoolTurn e"]) (simp add: next_is bench_step_def Loading)
  next
    case Entering
    then show ?thesis by (intro exI [of _ "Enter True True 0"]) (simp add: next_is bench_step_def)
  next
    case (WaitingReady since)
    then show ?thesis by (intro exI [of _ "ReadySettled True 0"]) (simp add: next_is bench_step_def)
  next
    case (Seeding i)
    then show ?thesis by (intro exI [of _ "SeedSettled True 0"]) (simp add: next_is bench_step_def)
  next
    case Autocannon
    then show ?thesis by (intro exI [of _ "LoadSettled None"]) (simp add: next_is bench_step_def)
  next
    case (ReadingMetrics rps lat)
    then show ?thesis by (intro exI [of _ "MetricsSettled None"]) (simp add: next_is bench_step_def)
  next
    case (Leaving r)
    then show ?thesis by (intro exI [of _ "Cleanup True"]) (simp add: next_is bench_step_def)
  next
    case (WaitingExit r)
    then show ?thesis by (intro exI [of _ ExitSeen]) (simp add: next_is bench_step_def)
  qed (use assms(2) in \<open>simp_all add: ended_def\<close>)
qed

text \<open>The comparison cleans up after itself: whatever fails in it - a container that does not
  start, a server that never gets ready, a write, an operation, the load, the node's readout - at
  every moment the program has at most the container and the connection, or the node, of the
  backend it works on; when it has ended none of them is left, as long as Docker removes
  containers that run. It never waits for nothing, and it ends with a table of all three
  backends or with no table.\<close>

lemma comparison_cleans_up:
  assumes "bench_reaches fl str env x" and "removes_running quiet (bx_effects x)"
  shows "after_effects (bx_effects x) = (if bx_left x = [] then quiet else held (hd (bx_left x)) (bx_phase x)) \<and>
    (ended (bx_phase x) \<longrightarrow> after_effects (bx_effects x) = quiet) \<and>
    (\<not> ended (bx_phase x) \<longrightarrow> (\<exists>ev. bench_next fl str env ev x \<noteq> None)) \<and>
    (\<forall>t. bx_phase x = Printed t \<longrightarrow> (\<exists>rs. t = backend_table fl str rs \<and> map be_backend rs = map backend_name BACKENDS))"
proof -
  have ok: "comparison_ok fl str x" using comparison_reaches_ok [OF assms(1)] .
  have machine: "after_effects (bx_effects x) = (if bx_left x = [] then quiet else held (hd (bx_left x)) (bx_phase x))"
    using ok assms(2) by (cases "bx_left x") (simp_all add: comparison_ok_def holds_def)
  moreover have "after_effects (bx_effects x) = quiet" if "ended (bx_phase x)"
    using machine that by (auto simp: ended_def split: phase.splits)
  moreover have "\<exists>rs. t = backend_table fl str rs \<and> map be_backend rs = map backend_name BACKENDS" if "bx_phase x = Printed t" for t
    using ok that by (cases "bx_left x") (auto simp: comparison_ok_def accounted_def)
  ultimately show ?thesis using never_stuck [OF ok] by blast
qed

text \<open>The waiting phase is the loop of \<open>Bench\<close>: it goes on to the seeding, gives up or still waits
  as \<open>poll\<close> says, so that it ends when the clock advances.\<close>

definition bench_run :: "(rat \<Rightarrow> rat) \<Rightarrow> (rat \<Rightarrow> jsstring) \<Rightarrow> env \<Rightarrow> bench_event list \<Rightarrow> comparison \<Rightarrow> comparison" where
  \<comment> \<open>events the program does not wait for are passed over\<close>
  "bench_run fl str env evs x = foldl (\<lambda>x ev. case bench_next fl str env ev x of None \<Rightarrow> x | Some x' \<Rightarrow> x') x evs"

lemma bench_run_reaches: "bench_reaches fl str env x \<Longrightarrow> bench_reaches fl str env (bench_run fl str env evs x)"
proof (induction evs arbitrary: x)
  case (Cons ev evs)
  have "bench_reaches fl str env (case bench_next fl str env ev x of None \<Rightarrow> x | Some x' \<Rightarrow> x')"
    using Cons.prems by (auto split: option.split intro: bench_more)
  from Cons.IH [OF this] show ?case by (simp add: bench_run_def)
qed (simp add: bench_run_def)

definition checks :: "(time_ms \<times> bool) list \<Rightarrow> bench_event list" where
  "checks polls = map (\<lambda>(now, ok). ReadySettled ok now) polls"

lemma waited_enough:
  "bx_phase x = Leaving None \<or> bx_phase x = Seeding 0 \<Longrightarrow> bench_run fl str env (checks polls) x = x"
proof (induction polls)
  case (Cons c polls)
  then have "bench_next fl str env (ReadySettled (snd c) (fst c)) x = None"
    by (auto simp: bench_next_def bench_step_def split: list.split)
  then show ?case using Cons by (cases c) (simp add: bench_run_def checks_def)
qed (simp add: bench_run_def checks_def)

lemma waiting_is_poll:
  assumes "bx_left x = b # bs" and "bx_phase x = WaitingReady since"
  shows "bench_run fl str env (checks polls) x = (case poll since (ready_timeout b) polls of
       Waiting \<Rightarrow> x
     | TimedOut \<Rightarrow> go (Leaving None) [] x
     | Ready \<Rightarrow> go (Seeding 0) [] x)"
proof (induction polls)
  case (Cons c polls)
  obtain now ok where c: "c = (now, ok)" by force
  have "bench_next fl str env (ReadySettled ok now) x =
      Some (if ok then go (Seeding 0) [] x else if ready_timeout b < now - since then go (Leaving None) [] x else x)"
    using assms by (simp add: bench_next_def bench_step_def seeded_def POOL_SIZE_def)
  then have "bench_run fl str env (checks (c # polls)) x = bench_run fl str env (checks polls)
      (if ok then go (Seeding 0) [] x else if ready_timeout b < now - since then go (Leaving None) [] x else x)"
    by (simp add: bench_run_def checks_def c)
  then show ?case using Cons waited_enough [of "go (Seeding 0) [] x"] waited_enough [of "go (Leaving None) [] x"] by (simp add: c)
qed (simp add: bench_run_def checks_def)

lemma comparison_cleans_up_witness:
  "after_effects (bx_effects (bench_run id (\<lambda>_. []) (\<lambda>_. None)
     [Enter False True 0, ReadySettled False 8001, Cleanup False, ExitTimeout] new_comparison)) = quiet"
proof -
  let ?x = "bench_run id (\<lambda>_. []) (\<lambda>_. None) [Enter False True 0, ReadySettled False 8001, Cleanup False, ExitTimeout] new_comparison"
  have x: "bx_effects ?x = [SpawnNode (bench_env 8095 None 10000 (\<lambda>_. None)), KillNode] \<and> bx_phase ?x = Rejected"
    by (simp add: bench_run_def bench_next_def bench_step_def new_comparison_def BACKENDS_def enter_def go_def finish_def ready_timeout_def)
  have "bench_reaches id (\<lambda>_. []) (\<lambda>_. None) ?x" by (intro bench_run_reaches bench_start)
  from comparison_cleans_up [OF this] show ?thesis using x by (simp add: ended_def)
qed

end
