(* ===== verification/Spec2Isabelle.thy ===== *)
theory Spec2Isabelle
  imports ElectionProtocol NodeProcess HttpServer DashboardSpec Pages Motion BenchBackends
begin

text \<open>
  A verification development for InkCache, an in-memory key-value cache with expiry, eviction,
  primary-replica replication, leader election and sharding behind gateways (TypeScript,
  \<open>src/core\<close> and \<open>src/network\<close>), with a dashboard (\<open>src/dashboard\<close>) and benchmarks (\<open>scripts\<close>).

  The program. A node is one process: the REST API of \<open>network/app.ts\<close> around a \<open>CacheStore\<close>
  (\<open>core/cache.ts\<close>), with metrics, an access predictor, a rate limiter and a shared-secret
  check; \<open>network/server.ts\<close> adds persistence, replication from a primary, the monitoring of
  that primary and the campaign to replace it. A primary forwards every write to its
  replicas (\<open>network/replication.ts\<close>). A gateway (\<open>network/gateway.ts\<close>, \<open>gateway-server.ts\<close>)
  routes each key to one node by consistent hashing (\<open>core/hashring.ts\<close>, \<open>network/cluster.ts\<close>)
  over the nodes its health checks find alive, and gossips the nodes it knows to other
  gateways. The dashboard is a client of a node's REST API: a console, a poll of the metrics,
  charts of them, and a generator of demo traffic. The benchmarks are clients, too.

  The theories, in the order they build on each other:

  \<^item> \<open>Prelude\<close>: lists, arg-min loops and binary search shared by the components; \<open>JsString\<close>,
    \<open>JsNum\<close>, \<open>JsMap\<close>: what the program uses of strings (\<open>trim\<close>, \<open>split\<close>), numbers and JSON
    values, and of \<open>Map\<close>, whose iteration order is insertion order and on which the eviction
    policies rest.
  \<^item> \<open>Cache\<close> (\<open>core/cache.ts\<close>): \<open>cache_store\<close> and every operation of \<open>CacheStore\<close>. \<open>CacheSpec\<close>:
    what each key reads as at a time (\<open>visible\<close>), as a map that operations refine; capacity,
    eviction choice, exact expiry, listings.
  \<^item> \<open>Replication\<close> (\<open>network/replication.ts\<close>): operations as data, their application, the initial
    pull with its retries; convergence of a replica under ordered delivery with a bounded
    delay, and divergence without order.
  \<^item> \<open>HashRing\<close>, \<open>Cluster\<close>, \<open>HealthCheck\<close>, \<open>Gateway\<close>, \<open>GatewayServer\<close> (\<open>core/hashring.ts\<close>,
    \<open>network/cluster.ts\<close>, \<open>health-check.ts\<close>, \<open>gateway.ts\<close>, \<open>gateway-sync.ts\<close>, \<open>gateway-server.ts\<close>):
    the ring is correct and stable under changes of the nodes, the router mirrors what the
    health checks believe, and a gateway gives each key one healthy owner; gossip converges,
    and undoes deregistrations.
  \<^item> \<open>Election\<close>, \<open>ElectionClient\<close>, \<open>NodeRole\<close>, \<open>ElectionProtocol\<close> (\<open>core/election.ts\<close>,
    \<open>network/election-client.ts\<close>, the role part of \<open>app.ts\<close> and \<open>server.ts\<close>): the vote lock, the
    majority count, the handlers, and a step relation \<open>estep\<close> in which the nodes' handlers
    exchange messages over a network that delays, loses, duplicates and reorders. At most
    one winner per term is an invariant of it; what it does not give - one primary at a
    time, memory of votes across restarts, progress after a lost win - is shown by runs.
  \<^item> \<open>AccessPredictor\<close>, \<open>Metrics\<close>, \<open>RateLimit\<close>, \<open>Auth\<close>, \<open>Env\<close>, \<open>Persistence\<close>, \<open>PrimaryMonitor\<close>, \<open>Http\<close>:
    the remaining modules of a node, each with its invariant and its functional behaviour
    against a specification on logs (of reads, operations, requests, checks).
  \<^item> \<open>App\<close> (\<open>network/app.ts\<close>): \<open>app_handle\<close>, a request's whole way through limiter,
    authentication, body parser and handler. \<open>AppSpec\<close>: properties of nodes as a whole.
  \<^item> \<open>GatewayApp\<close> (\<open>network/gateway.ts\<close>): \<open>gw_handle\<close>, the same chain in the gateway, and the
    delivery of a request it proxies, through \<open>fetch\<close>'s normalisation of the path and the
    decoding of its segment, to the \<open>app_handle\<close> of the node it names. A \<open>cluster\<close> is a gateway
    and the nodes that answer behind it. \<open>ClusterSpec\<close>: a key is read back through the gateway as
    it was written, shards stay disjoint, a dead node costs only its own shard; and what a node
    that missed one health check makes of the writes of its absence, and of the keys \<open>.\<close> and
    \<open>..\<close>, is shown by runs.
  \<^item> \<open>HttpServer\<close> (\<open>network/app.ts\<close>, \<open>gateway.ts\<close>): what surrounds the handlers - tables of routes,
    security headers, CORS, the answer as sent. No route shadows another, every answer is
    hardened, and a request without the key is answered with a refusal or, at \<open>/health\<close>, the
    readout, whatever its path.
  \<^item> \<open>Server\<close> (\<open>network/server.ts\<close>): startup and the event loop \<open>server_step\<close>, in which timers,
    pings and settled elections interleave in any order. \<open>NodeProcess\<close>: the whole process, with
    the REST API, the sweeper, the interval save, the shutdown with its awaits and every file
    operation of a save as events (\<open>network/persistence.ts\<close>): on the protocol messages it is
    \<open>Server\<close>, it campaigns exactly at the threshold-th failed check in a row, stays within its
    bounds, never tears its file while saves do not overlap, its shutdown ends, and a restart
    reads back what the final save began with; what overlapping saves and late writes cost is
    shown by runs.
  \<^item> \<open>Text\<close>, \<open>Api\<close>, \<open>OpLog\<close> (\<open>dashboard/src/lib/api.ts\<close>, \<open>errors.ts\<close>, \<open>log.ts\<close>): texts as UTF-16 code
    units, every call of the client as the request it issues and what it makes of the answer,
    and the ring of logged events.
  \<^item> \<open>Console\<close> (\<open>components/KVConsole.tsx\<close>): the command line, its history and the effects of
    answers. \<open>ConsoleSpec\<close>: tokens survive typing, and what is set from the console is read back
    from it, through \<open>app_handle\<close> of the node it talks to.
  \<^item> \<open>NodePoll\<close> (\<open>hooks/useNode.ts\<close>, \<open>useKeyStats.ts\<close>): polls of the metrics, settling in any order,
    with exactly the lines they add to the log, and the list of keys with its token. \<open>DashboardSpec\<close>: the list a flush leaves stale.
  \<^item> \<open>AsciiPlot\<close>, \<open>AsciiFont\<close>, \<open>Panels\<close> (\<open>lib/asciiPlot.ts\<close>, \<open>asciiChart.ts\<close>, \<open>asciiFont.ts\<close> and the
    panels): plots whose every reading is lit and joined to its neighbours, bars, meters, the
    bitmap font; what the panels compute from a node's answers. \<open>Readouts\<close>: the texts, time labels
    and scrolling of the other panels, the boot screen and the choice of sound.
  \<^item> \<open>Sphere\<close> (\<open>lib/asciiSphere.ts\<close>, \<open>components/AsciiMoon.tsx\<close>): the moon, whose every cell shows the
    nearest point that is projected to it. \<open>StarField\<close> (\<open>components/StarField.tsx\<close>): the night sky.
    \<open>Motion\<close>: the effects that animate both, which hold one callback while motion is wanted and
    none otherwise, and the tones of logged events.
  \<^item> \<open>Simulator\<close> (\<open>lib/simulator.ts\<close>): the demo traffic, one request at a time, each accepted.
  \<^item> \<open>DashboardApp\<close> (\<open>pages/Dashboard.tsx\<close>): the console's page as one state machine \<open>dash_step\<close> over
    the poll, the simulator, the sound, the boot screen, the flush button, the console and the
    list of keys, which share a log; keys go to the console's input or to the page by the focus.
    What it keeps stays bounded whatever happens; that polls of a silent node pile up, and where
    typed letters end up, is shown by runs.
  \<^item> \<open>Markup\<close>, \<open>Pages\<close> (\<open>components/*.tsx\<close>, \<open>pages/*.tsx\<close>, \<open>App.tsx\<close>): what components and pages
    render, as element trees computed from that state. Controls show the state and are disabled
    exactly while their request is out, every page has one heading and named regions, and of the
    panels of a node that is gone all but the two of its keys say so.
  \<^item> \<open>Bench\<close> (\<open>scripts/benchmark.ts\<close>, \<open>benchmark-external.ts\<close>): waiting for a server, the workers
    and their accounts, and the load against a modelled node, which evicts and misses nothing.
    \<open>BenchPolicies\<close>: the runs of \<open>benchmark.ts\<close> over the eviction policies, with what seeding leaves
    in a node too small for the pool, and the printed tables. \<open>BenchBackends\<close>: the comparison with
    Redis and Memcached as a state machine; however it ends, it leaves nothing running.

  Interfaces are locales, interpreted on the model's own definitions: \<open>ordered_map\<close> (a map with
  insertion order, by \<open>JsMap\<close>), \<open>key_value_store\<close> (what a client of the cache relies on, by
  \<open>Cache\<close>), \<open>node_router\<close> (what a health checker keeps in step, by \<open>ClusterRouter\<close>), \<open>voter\<close> (the
  vote lock, by \<open>ElectionState\<close>), \<open>quorum_system\<close> (overlapping majorities, by \<open>hasMajority\<close>) and
  \<open>animation\<close> (an effect with its cleanup, by the moon and by the night sky).

  Correspondence. Records carry the fields of the classes and module variables, functions
  the names of the code where HOL allows it. Time is a parameter: every operation takes the
  clock readings the code makes. What the code awaits - HTTP answers, timers, pings - is an
  input or an event, so theorems hold for every outcome and order. A request a node issues
  is a value it returns. Numbers are exact rationals with \<open>NaN\<close> and infinities, \<open>mk_num\<close> cuts off
  at the range of doubles; rounding inside that range is not modelled. Counters and terms are
  natural numbers; the increment of a term stops at \<open>2 ^ 53\<close> as the code's does, and theorems
  on elections state that bound.

  Termination and bounds. All loops are structural recursion or have a measure
  (\<open>bsearch\<close>, \<open>advance_head\<close>, \<open>match_tokens\<close>); no fuel is used. The retries of the initial pull are
  a recursion on the attempts left. Loops that wait for the world - for a server to answer, for
  the end of a measured run - are functions of the rounds or events that occur, and that they
  end is proved from what the clock does.

  Parameters and what is assumed of them. The hash of the ring (MD5 of \<open>node:crypto\<close>) is a
  function \<open>h\<close>, required to be injective on the virtual points only where a theorem says so
  (where the order in which nodes joined must not matter). What arithmetic makes of a value
  from a file (\<open>to_number\<close>), and when that throws (\<open>throws_to_string\<close>), is written out. A file is what \<open>JSON.parse\<close> makes of its text. In the charts \<open>fl\<close> is the
  rounding of an arithmetic result to a double; theorems assume of it what \<open>rounds\<close> says, that
  it is monotone and keeps small integers (\<open>doubles\<close>: and short binary fractions). \<open>str\<close> writes a number that is no small integer.

  How Express matches a pattern with a path and what the CORS package answers are parameters of
  \<open>HttpServer\<close>, of which \<open>matches_segments\<close> and \<open>cors_documented\<close> state the documented behaviour;
  in the handlers' theories a request carries its \<open>route\<close>.

  A body that \<open>express.json\<close> cannot read is one of \<open>Malformed\<close>, \<open>TooLarge\<close> and \<open>Unreadable\<close>, which
  ends in the last error handler; how a parsed body is encoded is left to the parser, except
  that \<open>express_json\<close> holds a snapshot sent back to the limit of 64 kB.

  Not modelled: headers Express adds itself, the handling of bodies of \<open>/internal/replicate\<close> that
  no node sends (\<open>node_http\<close> has no result when one gets past the key to that handler), logging to the terminal, binding ports; of the dashboard the classes and styles that only lay
  out or animate, the browser's and React's own work (mounting, diffing, playing a
  schedule of sound), none of which keeps state of the program. What the containers,
  third-party clients and load generators of the benchmarks answer is an input of their model.
\<close>

end
